(* ===== verification/Prelude.thy ===== *)
theory Prelude
  imports Main "HOL-Library.Signed_Division"
begin

text \<open>
  What the component theories share: results of code that may throw, the C library's
  character classes in the "C" locale, \<open>std::strong_ordering\<close>, \<open>std::string_view\<close>
  searches, unsigned subtraction that wraps at 64 bits, and the generic lemmas about them.

  A C++ function that may throw is a HOL function into \<open>'e + 'a\<close>: \<open>Inl e\<close> is the
  exception, \<open>Inr v\<close> the value. A byte is a \<open>char\<close> (eight bits), a \<open>std::string\<close>
  a \<open>string\<close>.
\<close>

section \<open>Collections of facts\<close>

named_theorems result_simps \<open>evaluation of results that may be errors\<close>
named_theorems shrink_intros \<open>a reader leaves no more input than it was given\<close>
named_theorems invariant_intros \<open>an operation preserves the invariant of its state\<close>

section \<open>Results\<close>

definition andThen :: "'e + 'a \<Rightarrow> ('a \<Rightarrow> 'e + 'b) \<Rightarrow> 'e + 'b" where
  "andThen r f = (case r of Inl e \<Rightarrow> Inl e | Inr a \<Rightarrow> f a)"

lemma andThen_simps [simp]:
  "andThen (Inl e) f = Inl e"
  "andThen (Inr a) f = f a"
  by (simp_all add: andThen_def)

lemma andThen_cong [fundef_cong]:
  "r = r' \<Longrightarrow> (\<And>a. r' = Inr a \<Longrightarrow> f a = g a) \<Longrightarrow> andThen r f = andThen r' g"
  by (cases r') (auto simp: andThen_def)

lemma andThen_Inr_iff [result_simps]:
  "andThen r f = Inr b \<longleftrightarrow> (\<exists>a. r = Inr a \<and> f a = Inr b)"
  by (cases r) auto

lemma andThen_Inl_iff [result_simps]:
  "andThen r f = Inl e \<longleftrightarrow> r = Inl e \<or> (\<exists>a. r = Inr a \<and> f a = Inl e)"
  by (cases r) auto

lemma andThen_InrE [elim!]:
  assumes "andThen r f = Inr b"
  obtains a where "r = Inr a" and "f a = Inr b"
  using assms by (auto simp: andThen_Inr_iff)

lemma andThen_assoc: "andThen (andThen r f) g = andThen r (\<lambda>x. andThen (f x) g)"
  by (cases r) auto

section \<open>Results with fuel\<close>

text \<open>
  A computation with fuel yields a value when it returns it for every fuel from some amount on.
\<close>

definition yields :: "(nat \<Rightarrow> 'e + 'a) \<Rightarrow> 'a \<Rightarrow> bool" where
  "yields f x \<longleftrightarrow> (\<exists>n. \<forall>m \<ge> n. f m = Inr x)"

lemma yields_andThen:
  assumes "\<And>m. f (Suc m) = andThen (g m) (h m)" and "yields g y" and "yields (\<lambda>m. h m y) z"
  shows "yields f z"
proof -
  from assms(2,3) obtain n k where n: "\<forall>m \<ge> n. g m = Inr y" and k: "\<forall>m \<ge> k. h m y = Inr z"
    by (auto simp: yields_def)
  have "f m = Inr z" if "Suc (max n k) \<le> m" for m
    using that assms(1) [of "m - 1"] n k by (cases m) auto
  then show ?thesis by (auto simp: yields_def)
qed

lemma yields_const: "(\<And>m. f (Suc m) = Inr x) \<Longrightarrow> yields f x"
  unfolding yields_def by (rule exI [of _ 1]) (metis One_nat_def Suc_le_D)

lemma yields_step:
  assumes "\<And>m. f (Suc m) = g m" and "yields g x"
  shows "yields f x"
proof -
  from assms(2) obtain n where "\<forall>m \<ge> n. g m = Inr x" by (auto simp: yields_def)
  then have "f m = Inr x" if "Suc n \<le> m" for m
    using that assms(1) [of "m - 1"] by (cases m) auto
  then show ?thesis by (auto simp: yields_def)
qed

lemma yields_ret: "yields (\<lambda>n. Inr x) x"
  by (simp add: yields_def)

lemma yields_bind:
  assumes "yields g y" and "yields (\<lambda>m. h m y) z"
  shows "yields (\<lambda>m. andThen (g m) (h m)) z"
proof -
  from assms obtain n k where n: "\<forall>m \<ge> n. g m = Inr y" and k: "\<forall>m \<ge> k. h m y = Inr z"
    by (auto simp: yields_def)
  then have "andThen (g m) (h m) = Inr z" if "max n k \<le> m" for m using that by simp
  then show ?thesis unfolding yields_def by blast
qed

text \<open>A computation that more fuel does not change has what it yields wherever its fuel lasts.\<close>

lemma yields_fuel:
  assumes "yields f x" and step: "\<And>n. f n \<noteq> Inl e \<Longrightarrow> f (Suc n) = f n" and "f k \<noteq> Inl e"
  shows "f k = Inr x"
proof -
  have more: "f (k + n) = f k" for n
    by (induction n) (use step assms(3) in auto)
  from assms(1) obtain n where n: "\<forall>m \<ge> n. f m = Inr x" by (auto simp: yields_def)
  have "f (k + n) = Inr x" using n by simp
  with more show ?thesis by metis
qed

section \<open>Three-way comparison\<close>

text \<open>\<open>std::strong_ordering\<close>, and the reversal every descending comparison uses.\<close>

datatype ordering = Ord_less | Ord_equal | Ord_greater

fun flip_ordering :: "ordering \<Rightarrow> ordering" where
  "flip_ordering Ord_less = Ord_greater"
| "flip_ordering Ord_equal = Ord_equal"
| "flip_ordering Ord_greater = Ord_less"

definition spaceship :: "'a::linorder \<Rightarrow> 'a \<Rightarrow> ordering" where
  "spaceship a b = (if a < b then Ord_less else if a = b then Ord_equal else Ord_greater)"

lemma flip_flip [simp]: "flip_ordering (flip_ordering c) = c"
  by (cases c) simp_all

lemma flip_eq_iff [simp]:
  "flip_ordering c = Ord_equal \<longleftrightarrow> c = Ord_equal"
  "flip_ordering c = Ord_less \<longleftrightarrow> c = Ord_greater"
  "flip_ordering c = Ord_greater \<longleftrightarrow> c = Ord_less"
  by (cases c; simp)+

lemma spaceship_iff [simp]:
  "spaceship a b = Ord_less \<longleftrightarrow> a < b"
  "spaceship a b = Ord_equal \<longleftrightarrow> a = b"
  "spaceship a b = Ord_greater \<longleftrightarrow> b < a"
  by (auto simp: spaceship_def)

lemma spaceship_flip: "flip_ordering (spaceship a b) = spaceship b a"
  by (auto simp: spaceship_def)

section \<open>Characters in the C locale\<close>

definition code :: "char \<Rightarrow> nat" where
  "code c = of_char c"

definition is_space :: "char \<Rightarrow> bool" where
  "is_space c \<longleftrightarrow> code c = 32 \<or> 9 \<le> code c \<and> code c \<le> 13"

definition is_digit :: "char \<Rightarrow> bool" where
  "is_digit c \<longleftrightarrow> 48 \<le> code c \<and> code c \<le> 57"

definition is_upper :: "char \<Rightarrow> bool" where
  "is_upper c \<longleftrightarrow> 65 \<le> code c \<and> code c \<le> 90"

definition is_lower :: "char \<Rightarrow> bool" where
  "is_lower c \<longleftrightarrow> 97 \<le> code c \<and> code c \<le> 122"

definition is_alpha :: "char \<Rightarrow> bool" where
  "is_alpha c \<longleftrightarrow> is_upper c \<or> is_lower c"

definition is_alnum :: "char \<Rightarrow> bool" where
  "is_alnum c \<longleftrightarrow> is_alpha c \<or> is_digit c"

definition to_lower :: "char \<Rightarrow> char" where
  "to_lower c = (if is_upper c then char_of (code c + 32) else c)"

definition to_upper :: "char \<Rightarrow> char" where
  "to_upper c = (if is_lower c then char_of (code c - 32) else c)"

definition newline_char :: char where
  "newline_char = CHR 0x0A"

definition quote_char :: char where
  "quote_char = CHR 0x27"

definition double_quote_char :: char where
  "double_quote_char = CHR 0x22"

lemmas char_class_defs =
  is_space_def is_digit_def is_upper_def is_lower_def is_alpha_def is_alnum_def code_def
  newline_char_def quote_char_def double_quote_char_def to_lower_def to_upper_def

lemma code_less [simp]: "code c < 256"
  by (simp add: code_def of_char_def)

lemma char_of_code [simp]: "char_of (code c) = c"
  by (simp add: code_def)

lemma code_inject: "code c = code d \<longleftrightarrow> c = d"
  by (simp add: code_def)

lemma code_char_of: "n < 256 \<Longrightarrow> code (char_of n) = n"
  by (simp add: code_def)

lemma code_to_lower: "code (to_lower c) = (if is_upper c then code c + 32 else code c)"
  by (auto simp: to_lower_def is_upper_def code_char_of)

lemma to_lower_idem [simp]: "to_lower (to_lower c) = to_lower c"
  by (auto simp: to_lower_def is_upper_def code_char_of)

lemma is_digit_not_space [simp]: "is_digit c \<Longrightarrow> \<not> is_space c"
  by (auto simp: is_digit_def is_space_def)

lemma is_digit_not_alpha [simp]: "is_digit c \<Longrightarrow> \<not> is_alpha c"
  by (auto simp: is_digit_def is_alpha_def is_upper_def is_lower_def)

section \<open>String views\<close>

definition starts_with :: "string \<Rightarrow> string \<Rightarrow> bool" where
  "starts_with s p \<longleftrightarrow> take (length p) s = p"

text \<open>\<open>find\<close>: the first position at or after \<open>from\<close> where \<open>p\<close> occurs, \<open>None\<close> for \<open>npos\<close>.\<close>

fun find_from :: "nat \<Rightarrow> string \<Rightarrow> string \<Rightarrow> nat option" where
  "find_from at s p =
     (if starts_with s p then Some at
      else (case s of [] \<Rightarrow> None | _ # s' \<Rightarrow> find_from (Suc at) s' p))"

declare find_from.simps [simp del]

definition find_text :: "string \<Rightarrow> string \<Rightarrow> nat \<Rightarrow> nat option" where
  "find_text s p from = (if from \<le> length s then find_from from (drop from s) p else None)"

lemma starts_with_Nil [simp]: "starts_with s []"
  by (simp add: starts_with_def)

lemma starts_with_append [simp]: "starts_with (p @ s) p"
  by (simp add: starts_with_def)

lemma starts_with_iff: "starts_with s p \<longleftrightarrow> (\<exists>t. s = p @ t)"
  by (metis append_take_drop_id starts_with_append starts_with_def)

lemma starts_with_Cons [simp]:
  "starts_with (c # s) (d # p) \<longleftrightarrow> c = d \<and> starts_with s p"
  "\<not> starts_with [] (d # p)"
  by (auto simp: starts_with_def)

lemma find_from_Some:
  "find_from n s p = Some i \<Longrightarrow> n \<le> i \<and> i \<le> n + length s \<and> starts_with (drop (i - n) s) p"
proof (induction n s p rule: find_from.induct)
  case (1 n s p)
  show ?case
  proof (cases "starts_with s p")
    case True
    with "1.prems" show ?thesis by (subst (asm) find_from.simps) auto
  next
    case False
    with "1.prems" obtain c t where s: "s = c # t" and "find_from (Suc n) t p = Some i"
      by (subst (asm) find_from.simps) (auto split: list.splits)
    with "1.IH" [OF False s] show ?thesis
      by (auto simp: Suc_diff_le Suc_le_eq drop_Cons split: nat.splits)
        (metis Suc_le_eq diff_Suc_Suc Suc_diff_le diff_Suc_1)
  qed
qed

section \<open>Unsigned sizes\<close>

text \<open>\<open>std::size_t\<close> arithmetic: subtraction wraps at 64 bits.\<close>

definition size_sub :: "nat \<Rightarrow> nat \<Rightarrow> nat" where
  "size_sub a b = (if b \<le> a then a - b else a + 2 ^ 64 - b)"

lemma size_sub_le [simp]: "b \<le> a \<Longrightarrow> size_sub a b = a - b"
  by (simp add: size_sub_def)

section \<open>Decimal digits\<close>

definition digit_value :: "char \<Rightarrow> nat" where
  "digit_value c = code c - 48"

definition digit_char :: "nat \<Rightarrow> char" where
  "digit_char d = char_of (48 + d)"

lemma digit_char_digit [simp]: "d < 10 \<Longrightarrow> is_digit (digit_char d)"
  by (simp add: digit_char_def is_digit_def code_char_of)

lemma digit_value_char [simp]: "d < 10 \<Longrightarrow> digit_value (digit_char d) = d"
  by (simp add: digit_char_def digit_value_def code_char_of)

lemma digit_value_less [simp]: "is_digit c \<Longrightarrow> digit_value c < 10"
  by (auto simp: digit_value_def is_digit_def)

lemma digit_char_value [simp]: "is_digit c \<Longrightarrow> digit_char (digit_value c) = c"
  by (simp add: digit_char_def digit_value_def is_digit_def)

text \<open>The decimal digits of a number, most significant first, and their value.\<close>

fun digits_of :: "nat \<Rightarrow> string" where
  "digits_of n = (if n < 10 then [digit_char n] else digits_of (n div 10) @ [digit_char (n mod 10)])"

declare digits_of.simps [simp del]

definition digits_value :: "string \<Rightarrow> nat" where
  "digits_value = foldl (\<lambda>n c. n * 10 + digit_value c) 0"

lemma digits_value_snoc [simp]: "digits_value (s @ [c]) = digits_value s * 10 + digit_value c"
  by (simp add: digits_value_def)

lemma digits_value_Nil [simp]: "digits_value [] = 0"
  by (simp add: digits_value_def)

lemma digits_value_digits_of [simp]: "digits_value (digits_of n) = n"
proof (induction n rule: digits_of.induct)
  case (1 n)
  then show ?case
    by (cases "n < 10") (simp_all add: digits_of.simps [of n] digits_value_def)
qed

lemma digits_of_digits: "\<forall>c \<in> set (digits_of n). is_digit c"
proof (induction n rule: digits_of.induct)
  case (1 n)
  then show ?case by (cases "n < 10") (auto simp: digits_of.simps [of n])
qed

lemma digits_of_nonempty [simp]: "digits_of n \<noteq> []"
  by (simp add: digits_of.simps [of n])

lemma digits_value_zeros: "digits_value (replicate k (CHR ''0'') @ s) = digits_value s"
  by (induction k) (simp_all add: digits_value_def digit_value_def code_def)

text \<open>\<open>std::to_string\<close>.\<close>

definition int_text :: "int \<Rightarrow> string" where
  "int_text i = (if i < 0 then ''-'' @ digits_of (nat (- i)) else digits_of (nat i))"

section \<open>Numbers and orders of texts\<close>

text \<open>\<open>std::stoll\<close> and \<open>std::from_chars\<close> for 64 bits, and the order of \<open>std::string::compare\<close>.\<close>

definition int64_min :: int where
  "int64_min = - (2 ^ 63)"

definition int64_max :: int where
  "int64_max = 2 ^ 63 - 1"

definition in_int64 :: "int \<Rightarrow> int option" where
  "in_int64 i = (if int64_min \<le> i \<and> i \<le> int64_max then Some i else None)"

definition stoll :: "string \<Rightarrow> int option" where
  "stoll s =
     (let s = dropWhile is_space s;
          negative = (s \<noteq> [] \<and> hd s = CHR ''-'');
          s = (if s \<noteq> [] \<and> (hd s = CHR ''-'' \<or> hd s = CHR ''+'') then tl s else s);
          digits = takeWhile is_digit s in
      if digits = [] then None
      else in_int64 (if negative then - int (digits_value digits) else int (digits_value digits)))"

definition from_chars :: "string \<Rightarrow> int option" where
  "from_chars s =
     (let negative = (s \<noteq> [] \<and> hd s = CHR ''-'');
          digits = (if negative then tl s else s) in
      if digits = [] \<or> \<not> list_all is_digit digits then None
      else in_int64 (if negative then - int (digits_value digits) else int (digits_value digits)))"

fun text_order :: "string \<Rightarrow> string \<Rightarrow> ordering" where
  "text_order [] [] = Ord_equal"
| "text_order [] (_ # _) = Ord_less"
| "text_order (_ # _) [] = Ord_greater"
| "text_order (a # as) (b # bs) =
     (if code a < code b then Ord_less else if code b < code a then Ord_greater else text_order as bs)"

end
