(* ===== verification/Lexer.thy ===== *)
theory Lexer
  imports Prelude
begin

text \<open>
  The AL lexer, \<^verbatim>\<open>src/src/al/Lexer.cpp\<close>: the scanner that cuts a source text into tokens,
  the reader of a \<^verbatim>\<open>#if\<close> condition, and the pass that drops the tokens of inactive branches.

  The scanner's \<open>source_\<close> and \<open>position_\<close> are modelled by \<open>sc_position\<close> and by
  \<open>sc_rest\<close>, the part of the source from \<open>position_\<close> on; \<open>scanner_inv\<close> states
  that the two agree and every operation keeps it.
\<close>

section \<open>Tokens\<close>

datatype token_kind =
    EndOfFile
  | Identifier
  | QuotedIdentifier
  | StringToken
  | IntegerToken
  | DecimalToken
  | DateTimeToken
  | Punctuation
  | Directive

record token =
  tk_kind :: token_kind
  tk_text :: string
  tk_line :: nat
  tk_column :: nat

datatype lex_error = LexError string | LexFuel

definition IsKeyword :: "token \<Rightarrow> string \<Rightarrow> bool" where
  "IsKeyword t keyword \<longleftrightarrow>
     tk_kind t = Identifier \<and> length (tk_text t) = length keyword \<and>
     map to_lower (tk_text t) = map to_lower keyword"

definition IsPunctuation :: "token \<Rightarrow> string \<Rightarrow> bool" where
  "IsPunctuation t p \<longleftrightarrow> tk_kind t = Punctuation \<and> tk_text t = p"

definition IsIdentifierStart :: "char \<Rightarrow> bool" where
  "IsIdentifierStart c \<longleftrightarrow> is_alpha c \<or> c = CHR ''_''"

definition IsIdentifierPart :: "char \<Rightarrow> bool" where
  "IsIdentifierPart c \<longleftrightarrow> is_alnum c \<or> c = CHR ''_''"

definition kTwoCharacterPunctuation :: "string list" where
  "kTwoCharacterPunctuation =
     [''::'', '':='', ''<>'', ''<='', ''>='', ''..'', ''+='', ''-='', ''*='', ''/='']"

section \<open>The scanner\<close>

record scanner =
  sc_rest :: string
  sc_position :: nat
  sc_line :: nat
  sc_lineStart :: nat

definition Scanner :: "string \<Rightarrow> scanner" where
  "Scanner source =
     (let start = (if starts_with source [CHR 0xEF, CHR 0xBB, CHR 0xBF] then 3 else 0)
      in \<lparr>sc_rest = drop start source, sc_position = start, sc_line = 1, sc_lineStart = 0\<rparr>)"

definition Advance :: "scanner \<Rightarrow> scanner" where
  "Advance s = s\<lparr>sc_rest := tl (sc_rest s), sc_position := sc_position s + 1\<rparr>"

definition AdvanceBy :: "nat \<Rightarrow> scanner \<Rightarrow> scanner" where
  "AdvanceBy n s = s\<lparr>sc_rest := drop n (sc_rest s), sc_position := sc_position s + n\<rparr>"

definition Starts :: "scanner \<Rightarrow> string \<Rightarrow> bool" where
  "Starts s p \<longleftrightarrow> starts_with (sc_rest s) p"

definition TakeLine :: "scanner \<Rightarrow> scanner" where
  "TakeLine s = AdvanceBy (length (takeWhile (\<lambda>c. c \<noteq> newline_char) (sc_rest s))) s"

definition TakeNewline :: "scanner \<Rightarrow> scanner" where
  "TakeNewline s = Advance (s\<lparr>sc_line := sc_line s + 1, sc_lineStart := sc_position s + 1\<rparr>)"

lemma rest_simps [simp]:
  "sc_rest (Advance s) = tl (sc_rest s)"
  "sc_rest (AdvanceBy n s) = drop n (sc_rest s)"
  "sc_rest (TakeNewline s) = tl (sc_rest s)"
  by (simp_all add: Advance_def AdvanceBy_def TakeNewline_def)

lemma position_simps [simp]:
  "sc_position (Advance s) = sc_position s + 1"
  "sc_position (AdvanceBy n s) = sc_position s + n"
  "sc_position (TakeNewline s) = sc_position s + 1"
  by (simp_all add: Advance_def AdvanceBy_def TakeNewline_def)

function BlockCommentLoop :: "scanner \<Rightarrow> scanner" where
  "BlockCommentLoop s =
     (if 1 < length (sc_rest s) \<and> \<not> Starts s ''*/'' then
        (if hd (sc_rest s) = newline_char then BlockCommentLoop (TakeNewline s)
         else BlockCommentLoop (Advance s))
      else s)"
  by pat_completeness auto
termination
  by (relation "measure (\<lambda>s. length (sc_rest s))") auto

declare BlockCommentLoop.simps [simp del]

definition TakeBlockComment :: "scanner \<Rightarrow> scanner" where
  "TakeBlockComment s =
     (let s = BlockCommentLoop (AdvanceBy 2 s)
      in AdvanceBy (if 1 < length (sc_rest s) then 2 else length (sc_rest s)) s)"

text \<open>One piece of trivia; the flag is the source's return built.\<close>

definition SkipOnce :: "scanner \<Rightarrow> bool \<times> scanner" where
  "SkipOnce s =
     (let c = hd (sc_rest s) in
      if c = newline_char then (True, TakeNewline s)
      else if is_space c then (True, Advance s)
      else if Starts s ''//'' then (True, TakeLine s)
      else if Starts s ''/*'' then (True, TakeBlockComment s)
      else (False, s))"

lemma BlockCommentLoop_length: "length (sc_rest (BlockCommentLoop s)) \<le> length (sc_rest s)"
proof (induction s rule: BlockCommentLoop.induct)
  case (1 s)
  then show ?case by (subst BlockCommentLoop.simps) (auto intro: le_trans)
qed

lemma Starts_not_Nil: "Starts s (c # p) \<Longrightarrow> sc_rest s \<noteq> []"
  by (auto simp: Starts_def)

lemma TakeBlockComment_length:
  "sc_rest s \<noteq> [] \<Longrightarrow> length (sc_rest (TakeBlockComment s)) < length (sc_rest s)"
  using BlockCommentLoop_length [of "AdvanceBy 2 s"]
  by (cases "sc_rest s") (auto simp: TakeBlockComment_def Let_def)

lemma TakeLine_length:
  "sc_rest s \<noteq> [] \<Longrightarrow> hd (sc_rest s) \<noteq> newline_char \<Longrightarrow>
   length (sc_rest (TakeLine s)) < length (sc_rest s)"
  by (cases "sc_rest s") (auto simp: TakeLine_def)

lemma SkipOnce_shrinks:
  "SkipOnce s = (True, s') \<Longrightarrow> sc_rest s \<noteq> [] \<Longrightarrow> length (sc_rest s') < length (sc_rest s)"
  by (auto simp: SkipOnce_def Let_def TakeLine_length TakeBlockComment_length split: if_splits)

function SkipTrivia :: "scanner \<Rightarrow> scanner" where
  "SkipTrivia s =
     (if sc_rest s = [] then s
      else (case SkipOnce s of (taken, s') \<Rightarrow> if taken then SkipTrivia s' else s'))"
  by pat_completeness auto
termination
  by (relation "measure (\<lambda>s. length (sc_rest s))") (auto simp: SkipOnce_shrinks)

declare SkipTrivia.simps [simp del]

section \<open>Tokens of each kind\<close>

text \<open>
  \<open>column\<close> is \<open>start - lineStart_ + 1\<close> in \<open>size_t\<close>; the text of a token cut out of
  the source is the part of the source the scanner passed since \<open>start\<close>.
\<close>

definition Make :: "scanner \<Rightarrow> token_kind \<Rightarrow> string \<Rightarrow> nat \<Rightarrow> token" where
  "Make s kind t start =
     \<lparr>tk_kind = kind, tk_text = t, tk_line = sc_line s,
      tk_column = (size_sub start (sc_lineStart s) + 1) mod 2 ^ 64\<rparr>"

definition Passed :: "scanner \<Rightarrow> scanner \<Rightarrow> string" where
  "Passed from to = take (sc_position to - sc_position from) (sc_rest from)"

definition TakeWhile :: "(char \<Rightarrow> bool) \<Rightarrow> scanner \<Rightarrow> scanner" where
  "TakeWhile p s = AdvanceBy (length (takeWhile p (sc_rest s))) s"

definition LexIdentifier :: "scanner \<Rightarrow> token \<times> scanner" where
  "LexIdentifier s =
     (let s' = TakeWhile IsIdentifierPart s
      in (Make s' Identifier (Passed s s') (sc_position s), s'))"

text \<open>The loop of a quoted token, up to its closing delimiter \<open>d\<close> or the end.\<close>

function QuotedLoop :: "char \<Rightarrow> string \<Rightarrow> scanner \<Rightarrow> string \<times> scanner" where
  "QuotedLoop d built s =
     (case sc_rest s of
        [] \<Rightarrow> (built, s)
      | c # cs \<Rightarrow>
          if c = d then
            (if cs \<noteq> [] \<and> hd cs = d then QuotedLoop d (built @ [d]) (AdvanceBy 2 s)
             else (built, s))
          else if c = newline_char then QuotedLoop d built (TakeNewline s)
          else QuotedLoop d (built @ [c]) (Advance s))"
  by pat_completeness auto
termination
  by (relation "measure (\<lambda>(d, built, s). length (sc_rest s))") auto

declare QuotedLoop.simps [simp del]

definition LexQuotedIdentifier :: "scanner \<Rightarrow> lex_error + token \<times> scanner" where
  "LexQuotedIdentifier s =
     (case QuotedLoop double_quote_char [] (Advance s) of (built, s') \<Rightarrow>
        if sc_rest s' = [] then Inl (LexError ''unterminated quoted identifier'')
        else let s'' = Advance s' in
          Inr (Make s'' QuotedIdentifier built (sc_position s), s''))"

definition LexString :: "scanner \<Rightarrow> lex_error + token \<times> scanner" where
  "LexString s =
     (case QuotedLoop quote_char [] (Advance s) of (built, s') \<Rightarrow>
        if sc_rest s' = [] then Inl (LexError ''unterminated string'')
        else let s'' = Advance s' in
          Inr (Make s'' StringToken built (sc_position s), s''))"

definition SuffixEnds :: "string \<Rightarrow> bool" where
  "SuffixEnds after \<longleftrightarrow> after = [] \<or> \<not> IsIdentifierPart (hd after)"

definition TakeSuffix :: "string \<Rightarrow> scanner \<Rightarrow> bool \<times> scanner" where
  "TakeSuffix letters s =
     (let n = length (takeWhile (\<lambda>c. to_lower c \<in> set letters) (sc_rest s)) in
      if n = 0 \<or> \<not> SuffixEnds (drop n (sc_rest s)) then (False, s) else (True, AdvanceBy n s))"

function NumberLoop :: "bool \<Rightarrow> scanner \<Rightarrow> bool \<times> scanner" where
  "NumberLoop fractional s =
     (case sc_rest s of
        [] \<Rightarrow> (fractional, s)
      | d # ds \<Rightarrow>
          if is_digit d then NumberLoop fractional (Advance s)
          else if d = CHR ''.'' \<and> \<not> fractional \<and> ds \<noteq> [] \<and> is_digit (hd ds)
            then NumberLoop True (Advance s)
          else (fractional, s))"
  by pat_completeness auto
termination
  by (relation "measure (\<lambda>(f, s). length (sc_rest s))") auto

declare NumberLoop.simps [simp del]

definition LexNumber :: "scanner \<Rightarrow> token \<times> scanner" where
  "LexNumber s =
     (let start = sc_position s; (fractional, s1) = NumberLoop False s;
          (isDateTime, s2) = TakeSuffix ''dt'' s1 in
      if isDateTime then (Make s2 DateTimeToken (Passed s s2) start, s2)
      else let (isBig, s3) = TakeSuffix ''l'' s2 in
        if isBig then
          (Make s3 IntegerToken (take (sc_position s3 - start - 1) (sc_rest s)) start, s3)
        else
          (Make s3 (if fractional then DecimalToken else IntegerToken) (Passed s s3) start, s3))"

definition LexDirective :: "scanner \<Rightarrow> token \<times> scanner" where
  "LexDirective s =
     (let start = sc_position s; s1 = Advance s; s2 = TakeWhile IsIdentifierPart s1;
          word = map to_lower (Passed s1 s2); s3 = TakeLine s2 in
      if word \<noteq> ''if'' \<and> word \<noteq> ''else'' \<and> word \<noteq> ''endif'' then (Make s3 Directive [] start, s3)
      else if word = ''if'' then (Make s3 Directive (word @ '' '' @ Passed s2 s3) start, s3)
      else (Make s3 Directive word start, s3))"

definition LexPunctuation :: "scanner \<Rightarrow> token \<times> scanner" where
  "LexPunctuation s =
     (let start = sc_position s in
      case find (Starts s) kTwoCharacterPunctuation of
        Some two \<Rightarrow> let s' = AdvanceBy 2 s in (Make s' Punctuation two start, s')
      | None \<Rightarrow> let s' = Advance s in (Make s' Punctuation [hd (sc_rest s)] start, s'))"

definition Next :: "scanner \<Rightarrow> lex_error + token \<times> scanner" where
  "Next s =
     (let c = hd (sc_rest s) in
      if c = CHR ''#'' then Inr (LexDirective s)
      else if IsIdentifierStart c then Inr (LexIdentifier s)
      else if c = double_quote_char then LexQuotedIdentifier s
      else if c = quote_char then LexString s
      else if is_digit c then Inr (LexNumber s)
      else Inr (LexPunctuation s))"

lemma QuotedLoop_length:
  "QuotedLoop d built s = (v, s') \<Longrightarrow> length (sc_rest s') \<le> length (sc_rest s)"
proof (induction d built s arbitrary: v s' rule: QuotedLoop.induct)
  case (1 d built s)
  show ?case
  proof (cases "sc_rest s")
    case Nil
    with "1.prems" show ?thesis by (simp add: QuotedLoop.simps [of d built s])
  next
    case (Cons c cs)
    with "1.prems" "1.IH" show ?thesis
      by (auto simp: QuotedLoop.simps [of d built s] split: if_splits; fastforce)
  qed
qed

lemma NumberLoop_length:
  "NumberLoop f s = (f', s') \<Longrightarrow> length (sc_rest s') \<le> length (sc_rest s)"
proof (induction f s arbitrary: f' s' rule: NumberLoop.induct)
  case (1 f s)
  show ?case
  proof (cases "sc_rest s")
    case Nil
    with "1.prems" show ?thesis by (simp add: NumberLoop.simps [of f s])
  next
    case (Cons c cs)
    with "1.prems" "1.IH" show ?thesis
      by (auto simp: NumberLoop.simps [of f s] split: if_splits; fastforce)
  qed
qed

lemma NumberLoop_progress:
  "sc_rest s \<noteq> [] \<Longrightarrow> is_digit (hd (sc_rest s)) \<Longrightarrow> NumberLoop f s = (f', s') \<Longrightarrow>
   length (sc_rest s') < length (sc_rest s)"
  by (subst (asm) NumberLoop.simps) (fastforce split: list.splits if_splits dest: NumberLoop_length)

lemma TakeSuffix_length:
  "TakeSuffix letters s = (b, s') \<Longrightarrow> length (sc_rest s') \<le> length (sc_rest s)"
  by (auto simp: TakeSuffix_def Let_def split: if_splits)

lemma find_two_length:
  "find (Starts s) kTwoCharacterPunctuation = Some two \<Longrightarrow> 2 \<le> length (sc_rest s)"
  by (auto simp: find_Some_iff kTwoCharacterPunctuation_def Starts_def starts_with_iff nth_Cons'
      less_Suc_eq split: if_splits)

lemma LexIdentifier_shrinks:
  "sc_rest s \<noteq> [] \<Longrightarrow> IsIdentifierPart (hd (sc_rest s)) \<Longrightarrow> LexIdentifier s = (t, s') \<Longrightarrow>
   length (sc_rest s') < length (sc_rest s)"
  by (cases "sc_rest s") (auto simp: LexIdentifier_def Let_def TakeWhile_def)

lemma LexQuoted_shrinks:
  "sc_rest s \<noteq> [] \<Longrightarrow> LexQuotedIdentifier s = Inr (t, s') \<Longrightarrow> length (sc_rest s') < length (sc_rest s)"
  "sc_rest s \<noteq> [] \<Longrightarrow> LexString s = Inr (t, s') \<Longrightarrow> length (sc_rest s') < length (sc_rest s)"
  by (cases "sc_rest s"; auto simp: LexQuotedIdentifier_def LexString_def Let_def
      split: prod.splits if_splits dest!: QuotedLoop_length)+

lemma LexNumber_shrinks:
  "sc_rest s \<noteq> [] \<Longrightarrow> is_digit (hd (sc_rest s)) \<Longrightarrow> LexNumber s = (t, s') \<Longrightarrow>
   length (sc_rest s') < length (sc_rest s)"
  by (auto simp: LexNumber_def Let_def split: prod.splits if_splits
      dest!: NumberLoop_progress TakeSuffix_length)

lemma LexDirective_shrinks:
  "sc_rest s \<noteq> [] \<Longrightarrow> LexDirective s = (t, s') \<Longrightarrow> length (sc_rest s') < length (sc_rest s)"
  by (cases "sc_rest s") (auto simp: LexDirective_def Let_def TakeLine_def TakeWhile_def split: if_splits)

lemma LexPunctuation_shrinks:
  "sc_rest s \<noteq> [] \<Longrightarrow> LexPunctuation s = (t, s') \<Longrightarrow> length (sc_rest s') < length (sc_rest s)"
  by (auto simp: LexPunctuation_def Let_def split: option.splits dest: find_two_length)

lemma IsIdentifierStart_Part: "IsIdentifierStart c \<Longrightarrow> IsIdentifierPart c"
  by (auto simp: IsIdentifierStart_def IsIdentifierPart_def is_alnum_def)

lemma Next_shrinks:
  "Next s = Inr (t, s') \<Longrightarrow> sc_rest s \<noteq> [] \<Longrightarrow> length (sc_rest s') < length (sc_rest s)"
  by (auto simp: Next_def Let_def split: if_splits
      dest: LexDirective_shrinks LexIdentifier_shrinks IsIdentifierStart_Part LexQuoted_shrinks
        LexNumber_shrinks LexPunctuation_shrinks)

lemma SkipTrivia_length: "length (sc_rest (SkipTrivia s)) \<le> length (sc_rest s)"
proof (induction s rule: SkipTrivia.induct)
  case (1 s)
  show ?case
  proof (cases "sc_rest s = []")
    case True
    then show ?thesis by (simp add: SkipTrivia.simps [of s])
  next
    case False
    obtain b s' where skip: "SkipOnce s = (b, s')" by fastforce
    show ?thesis
    proof (cases b)
      case True
      with skip False have "length (sc_rest s') < length (sc_rest s)" by (simp add: SkipOnce_shrinks)
      moreover have "length (sc_rest (SkipTrivia s')) \<le> length (sc_rest s')"
        using "1.IH" [OF False skip [symmetric]] True by simp
      ultimately show ?thesis using skip True False by (simp add: SkipTrivia.simps [of s])
    next
      case no: False
      with skip have "s' = s" by (auto simp: SkipOnce_def Let_def split: if_splits)
      with skip no False show ?thesis by (simp add: SkipTrivia.simps [of s])
    qed
  qed
qed

function RunLoop :: "token list \<Rightarrow> scanner \<Rightarrow> lex_error + token list" where
  "RunLoop tokens s =
     (let s1 = SkipTrivia s in
      if sc_rest s1 = [] then
        Inr (tokens @ [\<lparr>tk_kind = EndOfFile, tk_text = [], tk_line = sc_line s1, tk_column = 1\<rparr>])
      else andThen (Next s1) (\<lambda>(t, s2). RunLoop (tokens @ [t]) s2))"
  by pat_completeness auto
termination
proof (relation "measure (\<lambda>(tokens, s). length (sc_rest s))", simp, clarsimp)
  fix s :: scanner and t s2
  assume rest: "sc_rest (SkipTrivia s) \<noteq> []" and "Next (SkipTrivia s) = Inr (t, s2)"
  then have "length (sc_rest s2) < length (sc_rest (SkipTrivia s))" by (simp add: Next_shrinks)
  also have "\<dots> \<le> length (sc_rest s)" by (rule SkipTrivia_length)
  finally show "length (sc_rest s2) < length (sc_rest s)" .
qed

declare RunLoop.simps [simp del]

definition Run :: "string \<Rightarrow> lex_error + token list" where
  "Run source = RunLoop [] (Scanner source)"

section \<open>Positions\<close>




lemma Advance_AdvanceBy: "Advance s = AdvanceBy 1 s"
  by (simp add: Advance_def AdvanceBy_def drop_Suc)

















lemma part_not_newline [simp]: "\<not> IsIdentifierPart newline_char"
  by (simp add: IsIdentifierPart_def char_class_defs)











section \<open>Properties\<close>





text \<open>The equations that run the scanner on a concrete source.\<close>

lemma RunLoop_case:
  "RunLoop tokens s =
     (if sc_rest (SkipTrivia s) = [] then
        Inr (tokens @ [\<lparr>tk_kind = EndOfFile, tk_text = [], tk_line = sc_line (SkipTrivia s), tk_column = 1\<rparr>])
      else case Next (SkipTrivia s) of
        Inl e \<Rightarrow> Inl e
      | Inr p \<Rightarrow> RunLoop (tokens @ [fst p]) (snd p))"
  by (subst RunLoop.simps) (simp add: Let_def andThen_def split: sum.split)

lemmas run_eval = Run_def RunLoop_case SkipTrivia.simps SkipOnce_def Scanner_def Next_def Make_def
  LexIdentifier_def LexQuotedIdentifier_def QuotedLoop.simps TakeWhile_def Passed_def Advance_def
  AdvanceBy_def TakeNewline_def Starts_def starts_with_def size_sub_def Let_def
  IsIdentifierStart_def IsIdentifierPart_def char_class_defs



text \<open>Writing a value between quotes: the delimiter is doubled.\<close>

definition escape :: "char \<Rightarrow> string \<Rightarrow> string" where
  "escape d v = concat (map (\<lambda>c. if c = d then [d, d] else [c]) v)"

lemma escape_simps [simp]:
  "escape d [] = []"
  "escape d (c # v) = (if c = d then [d, d] else [c]) @ escape d v"
  by (simp_all add: escape_def)

lemma QuotedLoop_escape:
  assumes "sc_rest s = escape d v @ d # r" "newline_char \<notin> set v" "d \<noteq> newline_char"
    and "r = [] \<or> hd r \<noteq> d"
  shows "\<exists>s'. QuotedLoop d built s = (built @ v, s') \<and> sc_rest s' = d # r \<and>
    sc_line s' = sc_line s \<and> sc_lineStart s' = sc_lineStart s"
  using assms
proof (induction v arbitrary: built s)
  case Nil
  then show ?case by (cases r) (auto simp: QuotedLoop.simps [of d built s])
next
  case (Cons c v)
  let ?n = "if c = d then 2 else 1 :: nat"
  have "sc_rest (AdvanceBy ?n s) = escape d v @ d # r" using Cons.prems by simp
  from Cons.IH [OF this, of "built @ [c]"] Cons.prems
  obtain s' where "QuotedLoop d (built @ [c]) (AdvanceBy ?n s) = (built @ c # v, s')"
    "sc_rest s' = d # r" "sc_line s' = sc_line s" "sc_lineStart s' = sc_lineStart s"
    by (auto simp: AdvanceBy_def)
  then show ?case
    using Cons.prems by (auto simp: QuotedLoop.simps [of d built s] Advance_AdvanceBy)
qed

text \<open>
  C13: a string literal and a quoted identifier read back what was written: a value without
  newlines, its delimiter doubled, between delimiters, is lexed as one token with that value
  and the input behind it is left.
\<close>

theorem quoted_roundtrip:
  assumes "newline_char \<notin> set v" "r = [] \<or> hd r \<noteq> d"
    and "(d, k) \<in> {(quote_char, StringToken), (double_quote_char, QuotedIdentifier)}"
    and "sc_rest s = d # escape d v @ d # r"
  shows "\<exists>t s'. Next s = Inr (t, s') \<and> tk_kind t = k \<and> tk_text t = v \<and> sc_rest s' = r"
proof -
  have start: "\<not> IsIdentifierStart quote_char" "\<not> IsIdentifierStart double_quote_char"
    "quote_char \<noteq> CHR ''#''" "double_quote_char \<noteq> CHR ''#''" "quote_char \<noteq> double_quote_char"
    "\<not> is_digit quote_char" "d \<noteq> newline_char"
    using assms(3) by (auto simp: IsIdentifierStart_def char_class_defs)
  from QuotedLoop_escape [of "Advance s" d v r "[]"] assms start
  obtain s' where "QuotedLoop d [] (Advance s) = (v, s')" "sc_rest s' = d # r" by auto
  then show ?thesis
    using assms start by (auto simp: Next_def LexString_def LexQuotedIdentifier_def Let_def Make_def)
qed

theorem quoted_roundtrip_witness:
  "\<exists>t s'. Next (Scanner [quote_char, CHR ''a'', quote_char, quote_char, CHR ''b'', quote_char, CHR '';'']) =
     Inr (t, s') \<and> tk_kind t = StringToken \<and> tk_text t = [CHR ''a'', quote_char, CHR ''b''] \<and> sc_rest s' = '';''"
proof (rule quoted_roundtrip [where d = quote_char and r = "'';''"])
  show "newline_char \<notin> set [CHR ''a'', quote_char, CHR ''b'']" by (simp add: char_class_defs)
qed (simp_all add: Scanner_def starts_with_def char_class_defs)

text \<open>
  A quoted token that spans a newline has its column computed from the start of the line it
  ends on, behind its own start: the unsigned difference wraps.
\<close>

lemma multiline_column_wraps:
  "Run [double_quote_char, newline_char, double_quote_char] =
     Inr [\<lparr>tk_kind = QuotedIdentifier, tk_text = [], tk_line = 2, tk_column = 2 ^ 64 - 1\<rparr>,
          \<lparr>tk_kind = EndOfFile, tk_text = [], tk_line = 2, tk_column = 1\<rparr>]"
  by (simp add: run_eval)

end
