(* ===== verification/Directives.thy ===== *)
theory Directives
  imports Lexer
begin

text \<open>
  Conditional compilation, the second half of \<^verbatim>\<open>src/src/al/Lexer.cpp\<close>:
  \<open>ConditionReader\<close>, a recursive-descent evaluator of \<^verbatim>\<open>#if\<close> conditions with a nesting
  limit, \<open>ApplyDirectives\<close>, which keeps the tokens of the live branches, and \<open>Tokenize\<close>.

  The reader recurses on what it read, so the functions take fuel; \<open>Evaluate\<close> gives
  them \<open>3 * length + 3\<close>, which \<open>condition_enough_fuel\<close> shows is enough for every text.
\<close>

section \<open>The condition reader\<close>

record condition_reader =
  cr_rest :: string
  cr_depth :: nat

definition kMaxConditionDepth :: nat where
  "kMaxConditionDepth = 64"

definition SkipSpace :: "condition_reader \<Rightarrow> condition_reader" where
  "SkipSpace r = r\<lparr>cr_rest := dropWhile is_space (cr_rest r)\<rparr>"

definition ReadWord :: "condition_reader \<Rightarrow> string \<times> condition_reader" where
  "ReadWord r =
     (let r = SkipSpace r in
      (map to_lower (takeWhile IsIdentifierPart (cr_rest r)),
       r\<lparr>cr_rest := dropWhile IsIdentifierPart (cr_rest r)\<rparr>))"

definition AtCharacter :: "char \<Rightarrow> condition_reader \<Rightarrow> bool \<times> condition_reader" where
  "AtCharacter c r = (let r = SkipSpace r in (cr_rest r \<noteq> [] \<and> hd (cr_rest r) = c, r))"

definition Step :: "condition_reader \<Rightarrow> condition_reader" where
  "Step r = r\<lparr>cr_rest := drop 1 (cr_rest r)\<rparr>"

definition EnterCondition :: "condition_reader \<Rightarrow> condition_reader" where
  "EnterCondition r = r\<lparr>cr_depth := cr_depth r + 1\<rparr>"

definition LeaveCondition :: "condition_reader \<Rightarrow> condition_reader" where
  "LeaveCondition r = r\<lparr>cr_depth := cr_depth r - 1\<rparr>"

definition CloseGroup :: "condition_reader \<Rightarrow> condition_reader" where
  "CloseGroup r = (case AtCharacter (CHR '')'') r of (closed, r') \<Rightarrow> if closed then Step r' else r')"

fun ReadPrimary :: "nat \<Rightarrow> condition_reader \<Rightarrow> lex_error + bool \<times> condition_reader"
  and ReadAnd :: "nat \<Rightarrow> condition_reader \<Rightarrow> lex_error + bool \<times> condition_reader"
  and ReadAndLoop :: "nat \<Rightarrow> bool \<Rightarrow> condition_reader \<Rightarrow> lex_error + bool \<times> condition_reader"
  and ReadOr :: "nat \<Rightarrow> condition_reader \<Rightarrow> lex_error + bool \<times> condition_reader"
  and ReadOrLoop :: "nat \<Rightarrow> bool \<Rightarrow> condition_reader \<Rightarrow> lex_error + bool \<times> condition_reader" where
  "ReadPrimary 0 r = Inl LexFuel"
| "ReadPrimary (Suc n) r =
     (if kMaxConditionDepth < cr_depth r + 1 then
        Inl (LexError ''a #if condition nests too deeply'')
      else
        let (open, r1) = AtCharacter (CHR ''('') (SkipSpace (EnterCondition r)) in
        if open then
          andThen (ReadOr n (Step r1)) (\<lambda>(inner, r2). Inr (inner, LeaveCondition (CloseGroup r2)))
        else
          let mark = r1; (word, r2) = ReadWord r1; r3 = LeaveCondition r2 in
          if word = ''not'' then andThen (ReadPrimary n r3) (\<lambda>(v, r4). Inr (\<not> v, r4))
          else if word = ''true'' then Inr (True, r3)
          else if word = [] then Inr (False, r3\<lparr>cr_rest := drop 1 (cr_rest mark)\<rparr>)
          else Inr (False, r3))"
| "ReadAnd 0 r = Inl LexFuel"
| "ReadAnd (Suc n) r = andThen (ReadPrimary n r) (\<lambda>(v, r1). ReadAndLoop n v r1)"
| "ReadAndLoop 0 v r = Inl LexFuel"
| "ReadAndLoop (Suc n) v r =
     (let (word, r1) = ReadWord r in
      if word \<noteq> ''and'' then Inr (v, r)
      else andThen (ReadPrimary n r1) (\<lambda>(p, r2). ReadAndLoop n (p \<and> v) r2))"
| "ReadOr 0 r = Inl LexFuel"
| "ReadOr (Suc n) r = andThen (ReadAnd n r) (\<lambda>(v, r1). ReadOrLoop n v r1)"
| "ReadOrLoop 0 v r = Inl LexFuel"
| "ReadOrLoop (Suc n) v r =
     (let (word, r1) = ReadWord r in
      if word \<noteq> ''or'' then Inr (v, r)
      else andThen (ReadAnd n r1) (\<lambda>(p, r2). ReadOrLoop n (p \<or> v) r2))"

definition Evaluate :: "string \<Rightarrow> lex_error + bool" where
  "Evaluate s =
     andThen (ReadOr (3 * length s + 3) \<lparr>cr_rest = s, cr_depth = 0\<rparr>) (\<lambda>(v, r). Inr v)"

section \<open>The live tokens\<close>

text \<open>The vector \<open>keeping\<close> is a list whose head is the vector's back.\<close>

fun ApplyLoop :: "bool list \<Rightarrow> token list \<Rightarrow> lex_error + token list" where
  "ApplyLoop keeping [] = Inr []"
| "ApplyLoop keeping (t # ts) =
     (if tk_kind t = Directive then
        (if starts_with (tk_text t) ''if'' then
           andThen (Evaluate (drop 2 (tk_text t))) (\<lambda>b. ApplyLoop (b # keeping) ts)
         else if tk_text t = ''else'' \<and> keeping \<noteq> [] then
           ApplyLoop ((\<not> hd keeping) # tl keeping) ts
         else if tk_text t = ''endif'' \<and> keeping \<noteq> [] then ApplyLoop (tl keeping) ts
         else ApplyLoop keeping ts)
      else if list_all (\<lambda>k. k) keeping then
        andThen (ApplyLoop keeping ts) (\<lambda>live. Inr (t # live))
      else ApplyLoop keeping ts)"

definition ApplyDirectives :: "token list \<Rightarrow> lex_error + token list" where
  "ApplyDirectives = ApplyLoop []"

definition Tokenize :: "string \<Rightarrow> lex_error + token list" where
  "Tokenize source = andThen (Run source) ApplyDirectives"

section \<open>The reader returns\<close>

lemma cr_simps [simp]:
  "cr_rest (EnterCondition r) = cr_rest r" "cr_rest (LeaveCondition r) = cr_rest r"
  "cr_rest (Step r) = drop 1 (cr_rest r)"
  "cr_rest (SkipSpace r) = dropWhile is_space (cr_rest r)"
  "cr_depth (EnterCondition r) = cr_depth r + 1" "cr_depth (LeaveCondition r) = cr_depth r - 1"
  "cr_depth (Step r) = cr_depth r" "cr_depth (SkipSpace r) = cr_depth r"
  by (simp_all add: EnterCondition_def LeaveCondition_def Step_def SkipSpace_def)

lemma length_dropWhile: "length (dropWhile p xs) \<le> length xs"
  by (rule length_dropWhile_le)

lemma AtCharacter_rest:
  "AtCharacter c r = (b, r') \<Longrightarrow> cr_rest r' = dropWhile is_space (cr_rest r)"
  by (auto simp: AtCharacter_def Let_def)

lemma AtCharacter_True:
  "AtCharacter c r = (True, r') \<Longrightarrow> cr_rest r' \<noteq> []"
  by (auto simp: AtCharacter_def Let_def)

lemma length_word_dropWhile:
  "length (takeWhile p xs) + length (dropWhile p xs) = length xs"
  by (metis length_append takeWhile_dropWhile_id)

lemma ReadWord_length:
  assumes "ReadWord r = (word, r')"
  shows "length word + length (cr_rest r') \<le> length (cr_rest r)"
proof -
  let ?s = "dropWhile is_space (cr_rest r)"
  have "length word + length (cr_rest r') = length ?s"
    using assms length_word_dropWhile [of IsIdentifierPart ?s] by (auto simp: ReadWord_def Let_def)
  then show ?thesis using length_dropWhile [of is_space "cr_rest r"] by simp
qed

lemma CloseGroup_length [simp]: "length (cr_rest (CloseGroup r)) \<le> length (cr_rest r)"
  by (auto simp: CloseGroup_def AtCharacter_def Let_def intro: le_trans [OF diff_le_self length_dropWhile]
      length_dropWhile)

lemma condition_shrinks [shrink_intros]:
  "ReadPrimary n r = Inr (v', r') \<Longrightarrow> length (cr_rest r') \<le> length (cr_rest r)"
  "ReadAnd n r = Inr (v', r') \<Longrightarrow> length (cr_rest r') \<le> length (cr_rest r)"
  "ReadAndLoop n v r = Inr (v', r') \<Longrightarrow> length (cr_rest r') \<le> length (cr_rest r)"
  "ReadOr n r = Inr (v', r') \<Longrightarrow> length (cr_rest r') \<le> length (cr_rest r)"
  "ReadOrLoop n v r = Inr (v', r') \<Longrightarrow> length (cr_rest r') \<le> length (cr_rest r)"
proof (induction n arbitrary: v r v' r')
  case (Suc n)
  note drop_le = length_dropWhile [of is_space]
  {
    case 1
    obtain b r1 where at: "AtCharacter (CHR ''('') (SkipSpace (EnterCondition r)) = (b, r1)" by fastforce
    then have r1: "length (cr_rest r1) \<le> length (cr_rest r)"
      using AtCharacter_rest [OF at] drop_le by (metis cr_simps(1,4) le_trans)
    obtain w r2 where w: "ReadWord r1 = (w, r2)" by fastforce
    then have r2: "length (cr_rest r2) \<le> length (cr_rest r1)" using ReadWord_length by fastforce
    show ?case
      using 1 at w r1 r2
      by (auto simp: Let_def split: if_splits prod.splits dest!: Suc.IH(1) Suc.IH(4)
          intro!: le_trans [OF CloseGroup_length])
  next
    case 2
    then show ?case by (auto dest!: Suc.IH(1) Suc.IH(3))
  next
    case 3
    then show ?case
      by (auto simp: Let_def split: if_splits prod.splits dest!: Suc.IH(1) Suc.IH(3) ReadWord_length)
  next
    case 4
    then show ?case by (auto dest!: Suc.IH(2) Suc.IH(5))
  next
    case 5
    then show ?case
      by (auto simp: Let_def split: if_splits prod.splits dest!: Suc.IH(2) Suc.IH(5) ReadWord_length)
  }
qed simp_all

text \<open>Enough fuel: three units per remaining character, and one per level of the grammar.\<close>

lemma condition_fuel:
  "3 * length (cr_rest r) + 1 \<le> n \<Longrightarrow> ReadPrimary n r \<noteq> Inl LexFuel"
  "3 * length (cr_rest r) + 2 \<le> n \<Longrightarrow> ReadAnd n r \<noteq> Inl LexFuel"
  "3 * length (cr_rest r) + 1 \<le> n \<Longrightarrow> ReadAndLoop n v r \<noteq> Inl LexFuel"
  "3 * length (cr_rest r) + 3 \<le> n \<Longrightarrow> ReadOr n r \<noteq> Inl LexFuel"
  "3 * length (cr_rest r) + 1 \<le> n \<Longrightarrow> ReadOrLoop n v r \<noteq> Inl LexFuel"
proof (induction n arbitrary: v r)
  case (Suc n)
  {
    case 1
    obtain b r1 where at: "AtCharacter (CHR ''('') (SkipSpace (EnterCondition r)) = (b, r1)" by fastforce
    then have r1: "length (cr_rest r1) \<le> length (cr_rest r)"
      using AtCharacter_rest [OF at] length_dropWhile [of is_space]
      by (metis cr_simps(1,4) le_trans)
    obtain w r2 where w: "ReadWord r1 = (w, r2)" by fastforce
    then have r2: "length w + length (cr_rest r2) \<le> length (cr_rest r1)" by (rule ReadWord_length)
    have group: "ReadOr n (Step r1) \<noteq> Inl LexFuel" if b
      using that at AtCharacter_True [of "CHR ''(''" "SkipSpace (EnterCondition r)" r1] r1 1
      by (intro Suc.IH(4)) (cases "cr_rest r1", auto)
    have neg: "ReadPrimary n (LeaveCondition r2) \<noteq> Inl LexFuel" if "w = ''not''"
      using that r1 r2 1 by (intro Suc.IH(1)) auto
    show ?case using at w group neg by (auto simp: Let_def andThen_Inl_iff)
  next
    case 2
    have "ReadPrimary n r \<noteq> Inl LexFuel" using 2 by (intro Suc.IH(1)) simp
    moreover have "ReadAndLoop n v' r' \<noteq> Inl LexFuel" if "ReadPrimary n r = Inr (v', r')" for v' r'
      using condition_shrinks(1) [OF that] 2 by (intro Suc.IH(3)) linarith
    ultimately show ?case by (auto simp: andThen_Inl_iff)
  next
    case 3
    obtain w r1 where w: "ReadWord r = (w, r1)" by fastforce
    show ?case
    proof (cases "w = ''and''")
      case True
      with ReadWord_length [OF w] have len: "3 + length (cr_rest r1) \<le> length (cr_rest r)" by simp
      have "ReadPrimary n r1 \<noteq> Inl LexFuel" using 3 len by (intro Suc.IH(1)) linarith
      moreover have "ReadAndLoop n v' r' \<noteq> Inl LexFuel" if "ReadPrimary n r1 = Inr (p, r')" for p v' r'
        using condition_shrinks(1) [OF that] 3 len by (intro Suc.IH(3)) linarith
      ultimately show ?thesis using w by (auto simp: andThen_Inl_iff)
    qed (use w in simp)
  next
    case 4
    have "ReadAnd n r \<noteq> Inl LexFuel" using 4 by (intro Suc.IH(2)) simp
    moreover have "ReadOrLoop n v' r' \<noteq> Inl LexFuel" if "ReadAnd n r = Inr (v', r')" for v' r'
      using condition_shrinks(2) [OF that] 4 by (intro Suc.IH(5)) linarith
    ultimately show ?case by (auto simp: andThen_Inl_iff)
  next
    case 5
    obtain w r1 where w: "ReadWord r = (w, r1)" by fastforce
    show ?case
    proof (cases "w = ''or''")
      case True
      with ReadWord_length [OF w] have len: "2 + length (cr_rest r1) \<le> length (cr_rest r)" by simp
      have "ReadAnd n r1 \<noteq> Inl LexFuel" using 5 len by (intro Suc.IH(2)) linarith
      moreover have "ReadOrLoop n v' r' \<noteq> Inl LexFuel" if "ReadAnd n r1 = Inr (p, r')" for p v' r'
        using condition_shrinks(2) [OF that] 5 len by (intro Suc.IH(5)) linarith
      ultimately show ?thesis using w by (auto simp: andThen_Inl_iff)
    qed (use w in simp)
  }
qed simp_all

text \<open>The one error of the reader.\<close>

abbreviation condition_failure :: "lex_error set" where
  "condition_failure \<equiv> {LexFuel, LexError ''a #if condition nests too deeply''}"

lemma condition_errors:
  "ReadPrimary n r = Inl e \<Longrightarrow> e \<in> condition_failure"
  "ReadAnd n r = Inl e \<Longrightarrow> e \<in> condition_failure"
  "ReadAndLoop n v r = Inl e \<Longrightarrow> e \<in> condition_failure"
  "ReadOr n r = Inl e \<Longrightarrow> e \<in> condition_failure"
  "ReadOrLoop n v r = Inl e \<Longrightarrow> e \<in> condition_failure"
proof (induction n arbitrary: v r)
  case (Suc n)
  {
    case 1
    then show ?case
      by (auto simp: Let_def andThen_Inl_iff split: prod.splits if_splits dest!: Suc.IH(1) Suc.IH(4))
  next
    case 2
    then show ?case by (auto simp: andThen_Inl_iff split: prod.splits dest!: Suc.IH(1) Suc.IH(3))
  next
    case 3
    then show ?case
      by (auto simp: Let_def andThen_Inl_iff split: prod.splits if_splits dest!: Suc.IH(1) Suc.IH(3))
  next
    case 4
    then show ?case by (auto simp: andThen_Inl_iff split: prod.splits dest!: Suc.IH(2) Suc.IH(5))
  next
    case 5
    then show ?case
      by (auto simp: Let_def andThen_Inl_iff split: prod.splits if_splits dest!: Suc.IH(2) Suc.IH(5))
  }
qed simp_all

lemmas condition_reader_simps =
  ReadPrimary.simps ReadAnd.simps ReadAndLoop.simps ReadOr.simps ReadOrLoop.simps

declare condition_reader_simps [simp del]

text \<open>More fuel does not change a result.\<close>

lemma condition_fuel_step:
  "ReadPrimary n r \<noteq> Inl LexFuel \<Longrightarrow> ReadPrimary (Suc n) r = ReadPrimary n r"
  "ReadAnd n r \<noteq> Inl LexFuel \<Longrightarrow> ReadAnd (Suc n) r = ReadAnd n r"
  "ReadAndLoop n v r \<noteq> Inl LexFuel \<Longrightarrow> ReadAndLoop (Suc n) v r = ReadAndLoop n v r"
  "ReadOr n r \<noteq> Inl LexFuel \<Longrightarrow> ReadOr (Suc n) r = ReadOr n r"
  "ReadOrLoop n v r \<noteq> Inl LexFuel \<Longrightarrow> ReadOrLoop (Suc n) v r = ReadOrLoop n v r"
proof (induction n arbitrary: v r)
  case (Suc n)
  note step = Suc.IH
  have cong: "andThen a f \<noteq> Inl LexFuel \<Longrightarrow> (a \<noteq> Inl LexFuel \<Longrightarrow> a' = a) \<Longrightarrow>
      (\<And>x. a = Inr x \<Longrightarrow> f x \<noteq> Inl LexFuel \<Longrightarrow> g x = f x) \<Longrightarrow> andThen a' g = andThen a f"
    for a a' :: "lex_error + 'x" and f g :: "'x \<Rightarrow> lex_error + 'y"
    by (cases a) auto
  {
    case 1
    then show ?case
      unfolding ReadPrimary.simps(2) [of "Suc n" r] ReadPrimary.simps(2) [of n r]
      by (auto simp: Let_def split: prod.splits intro!: cong step(1) step(4))
  next
    case 2
    then show ?case
      unfolding ReadAnd.simps(2) [of "Suc n" r] ReadAnd.simps(2) [of n r]
      by (auto intro!: cong step(1) step(3) split: prod.splits)
  next
    case 3
    then show ?case
      unfolding ReadAndLoop.simps(2) [of "Suc n" v r] ReadAndLoop.simps(2) [of n v r]
      by (auto simp: Let_def intro!: cong step(1) step(3) split: prod.splits)
  next
    case 4
    then show ?case
      unfolding ReadOr.simps(2) [of "Suc n" r] ReadOr.simps(2) [of n r]
      by (auto intro!: cong step(2) step(5) split: prod.splits)
  next
    case 5
    then show ?case
      unfolding ReadOrLoop.simps(2) [of "Suc n" v r] ReadOrLoop.simps(2) [of n v r]
      by (auto simp: Let_def intro!: cong step(2) step(5) split: prod.splits)
  }
qed (simp_all add: condition_reader_simps)

section \<open>What a condition means\<close>

text \<open>
  The language of conditions as a datatype, its meaning (no symbol is ever defined, so a
  name other than \<^verbatim>\<open>true\<close> is false) and its text with the parentheses its precedence
  needs: level 0 is a disjunction, level 1 a conjunction, level 2 a primary.
\<close>

datatype condition =
    CTrue
  | CName string
  | CNot condition
  | CAnd condition condition
  | COr condition condition

fun holds :: "condition \<Rightarrow> bool" where
  "holds CTrue = True"
| "holds (CName w) = False"
| "holds (CNot a) = (\<not> holds a)"
| "holds (CAnd a b) = (holds a \<and> holds b)"
| "holds (COr a b) = (holds a \<or> holds b)"

definition bracketed :: "bool \<Rightarrow> string \<Rightarrow> string" where
  "bracketed b s = (if b then ''('' @ s @ '')'' else s)"

fun show_condition :: "nat \<Rightarrow> condition \<Rightarrow> string" where
  "show_condition l CTrue = ''true''"
| "show_condition l (CName w) = w"
| "show_condition l (CNot a) = ''not '' @ show_condition 2 a"
| "show_condition l (CAnd a b) =
     bracketed (1 < l) (show_condition 1 a @ '' and '' @ show_condition 2 b)"
| "show_condition l (COr a b) =
     bracketed (0 < l) (show_condition 0 a @ '' or '' @ show_condition 1 b)"

text \<open>How many primaries are open at once while the text is read.\<close>

fun nesting :: "nat \<Rightarrow> condition \<Rightarrow> nat" where
  "nesting l CTrue = 1"
| "nesting l (CName w) = 1"
| "nesting l (CNot a) = max 1 (nesting 2 a)"
| "nesting l (CAnd a b) = (if 1 < l then 1 else 0) + max (nesting 1 a) (nesting 2 b)"
| "nesting l (COr a b) = (if 0 < l then 1 else 0) + max (nesting 0 a) (nesting 1 b)"

fun well_named :: "condition \<Rightarrow> bool" where
  "well_named CTrue = True"
| "well_named (CName w) =
     (w \<noteq> [] \<and> list_all IsIdentifierPart w \<and>
      map to_lower w \<notin> {''not'', ''true'', ''and'', ''or''})"
| "well_named (CNot a) = well_named a"
| "well_named (CAnd a b) = (well_named a \<and> well_named b)"
| "well_named (COr a b) = (well_named a \<and> well_named b)"

definition ends_word :: "string \<Rightarrow> bool" where
  "ends_word t \<longleftrightarrow> t = [] \<or> \<not> IsIdentifierPart (hd t)"

abbreviation reading :: "string \<Rightarrow> nat \<Rightarrow> condition_reader" where
  "reading s d \<equiv> \<lparr>cr_rest = s, cr_depth = d\<rparr>"

lemma identifier_char:
  "IsIdentifierPart c \<Longrightarrow> \<not> is_space c \<and> c \<noteq> CHR ''('' \<and> c \<noteq> CHR '')''"
  by (auto simp: IsIdentifierPart_def char_class_defs)

lemma space_chars [simp]:
  "is_space CHR '' ''" "\<not> is_space CHR ''(''" "\<not> is_space CHR '')''"
  "\<not> IsIdentifierPart CHR '' ''" "\<not> IsIdentifierPart CHR '')''" "\<not> IsIdentifierPart CHR ''(''"
  by (simp_all add: IsIdentifierPart_def char_class_defs)

lemma skip_word:
  "w \<noteq> [] \<Longrightarrow> list_all IsIdentifierPart w \<Longrightarrow> dropWhile is_space (w @ t) = w @ t"
  by (cases w) (auto simp: identifier_char)

lemma ReadWord_word:
  assumes "list_all IsIdentifierPart w" "w \<noteq> []" "ends_word t"
  shows "ReadWord (reading (w @ t) d) = (map to_lower w, reading t d)"
    and "ReadWord (reading (CHR '' '' # w @ t) d) = (map to_lower w, reading t d)"
proof -
  have "takeWhile IsIdentifierPart (w @ t) = w" "dropWhile IsIdentifierPart (w @ t) = t"
    using assms by (cases t; auto simp: ends_word_def list_all_iff takeWhile_append2 dropWhile_append2)+
  then show "ReadWord (reading (w @ t) d) = (map to_lower w, reading t d)"
    and "ReadWord (reading (CHR '' '' # w @ t) d) = (map to_lower w, reading t d)"
    using assms by (auto simp: ReadWord_def Let_def SkipSpace_def skip_word)
qed

lemma ReadWord_stop [simp]: "fst (ReadWord (reading (CHR '')'' # t) d)) = []"
  by (simp add: ReadWord_def SkipSpace_def Let_def)

lemma ReadWord_Nil [simp]: "fst (ReadWord (reading [] d)) = []"
  by (simp add: ReadWord_def SkipSpace_def Let_def)

lemma keyword_letters [simp]:
  "IsIdentifierPart CHR ''n''" "IsIdentifierPart CHR ''o''"
  "IsIdentifierPart CHR ''t''" "IsIdentifierPart CHR ''r''"
  "IsIdentifierPart CHR ''u''" "IsIdentifierPart CHR ''e''"
  "IsIdentifierPart CHR ''a''" "IsIdentifierPart CHR ''d''"
  "to_lower CHR ''n'' = CHR ''n''" "to_lower CHR ''o'' = CHR ''o''"
  "to_lower CHR ''t'' = CHR ''t''" "to_lower CHR ''r'' = CHR ''r''"
  "to_lower CHR ''u'' = CHR ''u''" "to_lower CHR ''e'' = CHR ''e''"
  "to_lower CHR ''a'' = CHR ''a''" "to_lower CHR ''d'' = CHR ''d''"
  by (simp_all add: IsIdentifierPart_def char_class_defs)

lemma read_space:
  "ReadPrimary n (reading (CHR '' '' # s) d) = ReadPrimary n (reading s d)"
  "ReadAnd n (reading (CHR '' '' # s) d) = ReadAnd n (reading s d)"
proof -
  show "ReadPrimary n (reading (CHR '' '' # s) d) = ReadPrimary n (reading s d)" for n
    by (cases n) (simp_all add: condition_reader_simps SkipSpace_def EnterCondition_def)
  then show "ReadAnd n (reading (CHR '' '' # s) d) = ReadAnd n (reading s d)"
    by (cases n) (simp_all add: condition_reader_simps)
qed

lemma primary_word:
  assumes "list_all IsIdentifierPart w" "w \<noteq> []" "ends_word t" "d < 64"
  shows "ReadPrimary (Suc n) (reading (w @ t) d) =
    (if map to_lower w = ''not'' then
       andThen (ReadPrimary n (reading t d)) (\<lambda>(v, r). Inr (\<not> v, r))
     else Inr (map to_lower w = ''true'', reading t d))"
proof -
  obtain c w' where w: "w = c # w'" using assms(2) by (cases w) auto
  have "AtCharacter (CHR ''('') (SkipSpace (EnterCondition (reading (w @ t) d))) = (False, reading (w @ t) (d + 1))"
    using assms identifier_char [of c] w
    by (auto simp: AtCharacter_def Let_def SkipSpace_def EnterCondition_def)
  then show ?thesis
    using assms ReadWord_word(1) [OF assms(1-3), of "d + 1"]
    by (auto simp: condition_reader_simps kMaxConditionDepth_def Let_def LeaveCondition_def)
qed

lemma primary_group:
  assumes "d < 64" and "yields (\<lambda>n. ReadOr n (reading (s @ '')'' @ t) (d + 1))) (v, reading ('')'' @ t) (d + 1))"
  shows "yields (\<lambda>n. ReadPrimary n (reading (''('' @ s @ '')'' @ t) d)) (v, reading t d)"
proof (rule yields_andThen)
  show "ReadPrimary (Suc m) (reading (''('' @ s @ '')'' @ t) d) =
      andThen (ReadOr m (reading (s @ '')'' @ t) (d + 1))) (\<lambda>(inner, r2). Inr (inner, LeaveCondition (CloseGroup r2)))" for m
    using assms(1)
    by (simp add: condition_reader_simps kMaxConditionDepth_def AtCharacter_def Let_def SkipSpace_def
        EnterCondition_def Step_def)
  show "yields (\<lambda>n. ReadOr n (reading (s @ '')'' @ t) (d + 1))) (v, reading ('')'' @ t) (d + 1))" by fact
qed (auto simp: CloseGroup_def AtCharacter_def Let_def SkipSpace_def Step_def LeaveCondition_def yields_def)

text \<open>
  What reading the text of \<open>c\<close> in front of \<open>t\<close> does at each level: a primary is read whole;
  at the other levels the loop of the level goes on with the value of \<open>c\<close>.
\<close>

definition reads_primary :: "condition \<Rightarrow> bool" where
  "reads_primary c \<longleftrightarrow> (\<forall>t d. ends_word t \<longrightarrow> d + nesting 2 c \<le> 64 \<longrightarrow>
     yields (\<lambda>n. ReadPrimary n (reading (show_condition 2 c @ t) d)) (holds c, reading t d))"

definition reads_and :: "condition \<Rightarrow> bool" where
  "reads_and c \<longleftrightarrow> (\<forall>t d x. ends_word t \<longrightarrow> d + nesting 1 c \<le> 64 \<longrightarrow>
     yields (\<lambda>n. ReadAndLoop n (holds c) (reading t d)) x \<longrightarrow>
     yields (\<lambda>n. ReadAnd n (reading (show_condition 1 c @ t) d)) x)"

definition reads_or :: "condition \<Rightarrow> bool" where
  "reads_or c \<longleftrightarrow> (\<forall>t d x. ends_word t \<longrightarrow> fst (ReadWord (reading t d)) \<noteq> ''and'' \<longrightarrow>
     d + nesting 0 c \<le> 64 \<longrightarrow>
     yields (\<lambda>n. ReadOrLoop n (holds c) (reading t d)) x \<longrightarrow>
     yields (\<lambda>n. ReadOr n (reading (show_condition 0 c @ t) d)) x)"

lemma reads_andD:
  "reads_and c \<Longrightarrow> ends_word t \<Longrightarrow> d + nesting 1 c \<le> 64 \<Longrightarrow>
   yields (\<lambda>n. ReadAndLoop n (holds c) (reading t d)) x \<Longrightarrow>
   yields (\<lambda>n. ReadAnd n (reading (show_condition 1 c @ t) d)) x"
  unfolding reads_and_def by blast

lemma reads_orD:
  "reads_or c \<Longrightarrow> ends_word t \<Longrightarrow> fst (ReadWord (reading t d)) \<noteq> ''and'' \<Longrightarrow>
   d + nesting 0 c \<le> 64 \<Longrightarrow> yields (\<lambda>n. ReadOrLoop n (holds c) (reading t d)) x \<Longrightarrow>
   yields (\<lambda>n. ReadOr n (reading (show_condition 0 c @ t) d)) x"
  unfolding reads_or_def by blast

lemma loop_stops:
  "fst (ReadWord r) \<noteq> ''and'' \<Longrightarrow> yields (\<lambda>n. ReadAndLoop n v r) (v, r)"
  "fst (ReadWord r) \<noteq> ''or'' \<Longrightarrow> yields (\<lambda>n. ReadOrLoop n v r) (v, r)"
  by (rule yields_const, auto simp: condition_reader_simps Let_def split: prod.splits)+

lemma reads_and_primary:
  assumes "reads_primary c" "show_condition 1 c = show_condition 2 c" "nesting 1 c = nesting 2 c"
  shows "reads_and c"
  unfolding reads_and_def
proof (intro allI impI)
  fix t d x
  assume "ends_word t" "d + nesting 1 c \<le> 64"
    and loop: "yields (\<lambda>n. ReadAndLoop n (holds c) (reading t d)) x"
  then have "yields (\<lambda>n. ReadPrimary n (reading (show_condition 1 c @ t) d)) (holds c, reading t d)"
    using assms by (simp add: reads_primary_def)
  then show "yields (\<lambda>n. ReadAnd n (reading (show_condition 1 c @ t) d)) x"
    by (rule yields_andThen [rotated]) (use loop in \<open>auto simp: condition_reader_simps\<close>)
qed

lemma reads_or_and:
  assumes "reads_and c" "show_condition 0 c = show_condition 1 c" "nesting 0 c = nesting 1 c"
  shows "reads_or c"
  unfolding reads_or_def
proof (intro allI impI)
  fix t d x
  assume "ends_word t" "d + nesting 0 c \<le> 64" "fst (ReadWord (reading t d)) \<noteq> ''and''"
    and loop: "yields (\<lambda>n. ReadOrLoop n (holds c) (reading t d)) x"
  then have "yields (\<lambda>n. ReadAnd n (reading (show_condition 0 c @ t) d)) (holds c, reading t d)"
    using assms loop_stops(1) by (simp add: reads_and_def)
  then show "yields (\<lambda>n. ReadOr n (reading (show_condition 0 c @ t) d)) x"
    by (rule yields_andThen [rotated]) (use loop in \<open>auto simp: condition_reader_simps\<close>)
qed

lemma reads_primary_group:
  assumes "reads_or c" "show_condition 2 c = ''('' @ show_condition 0 c @ '')''"
    "nesting 2 c = 1 + nesting 0 c"
  shows "reads_primary c"
  unfolding reads_primary_def
proof (intro allI impI)
  fix t d
  assume "ends_word t" "d + nesting 2 c \<le> 64"
  then have "yields (\<lambda>n. ReadOr n (reading (show_condition 0 c @ '')'' @ t) (d + 1)))
      (holds c, reading ('')'' @ t) (d + 1))"
    using assms loop_stops(2) [of "reading ('')'' @ t) (d + 1)"]
    by (simp add: reads_or_def ends_word_def)
  then show "yields (\<lambda>n. ReadPrimary n (reading (show_condition 2 c @ t) d)) (holds c, reading t d)"
    using primary_group [of d "show_condition 0 c" t "holds c"] assms \<open>d + nesting 2 c \<le> 64\<close>
    by simp
qed

lemma reads_word:
  assumes "well_named (CName w)"
  shows "reads_primary (CName w)"
  using assms unfolding reads_primary_def
  by (auto intro!: yields_const simp: primary_word)

lemma reads_true: "reads_primary CTrue"
  unfolding reads_primary_def
  using primary_word [of "''true''"] by (auto intro!: yields_const)

lemma reads_not:
  assumes "reads_primary a"
  shows "reads_primary (CNot a)"
  unfolding reads_primary_def
proof (intro allI impI)
  fix t d
  assume t: "ends_word t" "d + nesting 2 (CNot a) \<le> 64"
  show "yields (\<lambda>n. ReadPrimary n (reading (show_condition 2 (CNot a) @ t) d)) (holds (CNot a), reading t d)"
  proof (rule yields_andThen)
    show "ReadPrimary (Suc m) (reading (show_condition 2 (CNot a) @ t) d) =
        andThen (ReadPrimary m (reading (show_condition 2 a @ t) d)) (\<lambda>(v, r). Inr (\<not> v, r))" for m
      using t primary_word [of "''not''" "CHR '' '' # show_condition 2 a @ t" d m]
      by (simp add: ends_word_def read_space)
    show "yields (\<lambda>n. ReadPrimary n (reading (show_condition 2 a @ t) d)) (holds a, reading t d)"
      using assms t by (simp add: reads_primary_def)
  qed (auto simp: yields_def)
qed

lemma reads_and_And:
  assumes a: "reads_and a" and b: "reads_primary b"
  shows "reads_and (CAnd a b)"
  unfolding reads_and_def
proof (intro allI impI)
  fix t d x
  assume t: "ends_word t" "d + nesting 1 (CAnd a b) \<le> 64"
    and loop: "yields (\<lambda>n. ReadAndLoop n (holds (CAnd a b)) (reading t d)) x"
  let ?t = "'' and '' @ show_condition 2 b @ t"
  have "yields (\<lambda>n. ReadAndLoop n (holds a) (reading ?t d)) x"
  proof (rule yields_andThen)
    show "ReadAndLoop (Suc m) (holds a) (reading ?t d) =
        andThen (ReadPrimary m (reading (show_condition 2 b @ t) d))
          (\<lambda>(p, r2). ReadAndLoop m (p \<and> holds a) r2)" for m
      using ReadWord_word(2) [of "''and''" "CHR '' '' # show_condition 2 b @ t" d]
      by (simp add: condition_reader_simps ends_word_def read_space)
    show "yields (\<lambda>n. ReadPrimary n (reading (show_condition 2 b @ t) d)) (holds b, reading t d)"
      using b t by (simp add: reads_primary_def)
  qed (use loop in \<open>simp add: conj_commute\<close>)
  then have "yields (\<lambda>n. ReadAnd n (reading (show_condition 1 a @ ?t) d)) x"
    using t by (intro reads_andD [OF a]) (simp_all add: ends_word_def)
  then show "yields (\<lambda>n. ReadAnd n (reading (show_condition 1 (CAnd a b) @ t) d)) x"
    by (simp add: bracketed_def)
qed

lemma reads_or_Or:
  assumes a: "reads_or a" and b: "reads_and b"
  shows "reads_or (COr a b)"
  unfolding reads_or_def
proof (intro allI impI)
  fix t d x
  assume t: "ends_word t" "d + nesting 0 (COr a b) \<le> 64"
    and stop: "fst (ReadWord (reading t d)) \<noteq> ''and''"
    and loop: "yields (\<lambda>n. ReadOrLoop n (holds (COr a b)) (reading t d)) x"
  let ?t = "'' or '' @ show_condition 1 b @ t"
  have word: "ReadWord (reading ?t d) = (''or'', reading (CHR '' '' # show_condition 1 b @ t) d)"
    using ReadWord_word(2) [of "''or''" "CHR '' '' # show_condition 1 b @ t" d]
    by (simp add: ends_word_def)
  have "yields (\<lambda>n. ReadOrLoop n (holds a) (reading ?t d)) x"
  proof (rule yields_andThen)
    show "ReadOrLoop (Suc m) (holds a) (reading ?t d) =
        andThen (ReadAnd m (reading (show_condition 1 b @ t) d))
          (\<lambda>(p, r2). ReadOrLoop m (p \<or> holds a) r2)" for m
      using word by (simp add: condition_reader_simps read_space)
    show "yields (\<lambda>n. ReadAnd n (reading (show_condition 1 b @ t) d)) (holds b, reading t d)"
      using b t loop_stops(1) [OF stop] by (simp add: reads_and_def)
  qed (use loop in \<open>simp add: disj_commute\<close>)
  then have "yields (\<lambda>n. ReadOr n (reading (show_condition 0 a @ ?t) d)) x"
    using t word by (intro reads_orD [OF a]) (simp_all add: ends_word_def)
  then show "yields (\<lambda>n. ReadOr n (reading (show_condition 0 (COr a b) @ t) d)) x"
    by (simp add: bracketed_def)
qed

lemma reads_all: "well_named c \<Longrightarrow> reads_primary c \<and> reads_and c \<and> reads_or c"
proof (induction c)
  case CTrue
  then show ?case using reads_true by (simp add: reads_and_primary reads_or_and)
next
  case (CName w)
  then show ?case using reads_word by (simp add: reads_and_primary reads_or_and)
next
  case (CNot a)
  then show ?case using reads_not by (simp add: reads_and_primary reads_or_and)
next
  case (CAnd a b)
  then have "reads_and (CAnd a b)" by (simp add: reads_and_And)
  moreover from this have "reads_or (CAnd a b)" by (simp add: reads_or_and bracketed_def)
  ultimately show ?case by (simp add: reads_primary_group bracketed_def)
next
  case (COr a b)
  then have or_level: "reads_or (COr a b)" by (simp add: reads_or_Or)
  then have "reads_primary (COr a b)" by (simp add: reads_primary_group bracketed_def)
  then show ?case using or_level by (simp add: reads_and_primary bracketed_def)
qed

lemma ReadOr_fuel_le:
  assumes "ReadOr n r \<noteq> Inl LexFuel" "n \<le> m"
  shows "ReadOr m r = ReadOr n r"
  using assms(2) by (induction m rule: dec_induct) (use assms(1) in \<open>auto simp: condition_fuel_step\<close>)

lemma Evaluate_yields:
  assumes "yields (\<lambda>n. ReadOr n (reading s 0)) (v, r)"
  shows "Evaluate s = Inr v"
proof -
  let ?n = "3 * length s + 3"
  from assms obtain k where k: "\<forall>m \<ge> k. ReadOr m (reading s 0) = Inr (v, r)"
    by (auto simp: yields_def)
  have "ReadOr ?n (reading s 0) \<noteq> Inl LexFuel" by (rule condition_fuel) simp
  then have "ReadOr (max k ?n) (reading s 0) = ReadOr ?n (reading s 0)"
    by (rule ReadOr_fuel_le) simp
  moreover from k have "ReadOr (max k ?n) (reading s 0) = Inr (v, r)" by simp
  ultimately have "ReadOr ?n (reading s 0) = Inr (v, r)" by metis
  then show ?thesis by (simp add: Evaluate_def del: mult_Suc_right)
qed

lemma Evaluate_never_fuel: "Evaluate s \<noteq> Inl LexFuel"
  using condition_fuel(4) [of "reading s 0" "3 * length s + 3"]
  by (auto simp: Evaluate_def andThen_Inl_iff)

section \<open>What the live tokens are\<close>

text \<open>
  A token stream with properly nested directives, as a tree: plain tokens, and regions of
  an \<^verbatim>\<open>#if\<close> token, its tokens, possibly an \<^verbatim>\<open>#else\<close> with its own, and an \<^verbatim>\<open>#endif\<close>.
\<close>

datatype region =
    Plain token
  | Region token "region list" "(token \<times> region list) option" token

fun flatten :: "region \<Rightarrow> token list" where
  "flatten (Plain t) = [t]"
| "flatten (Region i as els e) =
     i # concat (map flatten as) @
     (case els of None \<Rightarrow> [] | Some (l, bs) \<Rightarrow> l # concat (map flatten bs)) @ [e]"

fun well_nested :: "region \<Rightarrow> bool" where
  "well_nested (Plain t) = (tk_kind t \<noteq> Directive)"
| "well_nested (Region i as els e) =
     (tk_kind i = Directive \<and> starts_with (tk_text i) ''if'' \<and>
      isl (Evaluate (drop 2 (tk_text i))) = False \<and>
      list_all well_nested as \<and> tk_kind e = Directive \<and> tk_text e = ''endif'' \<and>
      (case els of None \<Rightarrow> True
       | Some (l, bs) \<Rightarrow> tk_kind l = Directive \<and> tk_text l = ''else'' \<and> list_all well_nested bs))"

text \<open>The tokens a region stands for: the live branch of each condition.\<close>

definition condition_of :: "token \<Rightarrow> bool" where
  "condition_of i = projr (Evaluate (drop 2 (tk_text i)))"

fun select :: "region \<Rightarrow> token list" where
  "select (Plain t) = [t]"
| "select (Region i as els e) =
     (if condition_of i then concat (map select as)
      else (case els of None \<Rightarrow> [] | Some (l, bs) \<Rightarrow> concat (map select bs)))"

definition live :: "bool list \<Rightarrow> token list \<Rightarrow> token list" where
  "live ks ts = (if list_all (\<lambda>k. k) ks then ts else [])"

lemma live_simps [simp]:
  "live (True # ks) ts = live ks ts" "live (False # ks) ts = []" "live ks [] = []"
  "live ks (ts @ us) = live ks ts @ live ks us" "live [] ts = ts"
  by (simp_all add: live_def)

lemma ApplyLoop_plain:
  "tk_kind t \<noteq> Directive \<Longrightarrow>
   ApplyLoop ks (t # ts) = andThen (ApplyLoop ks ts) (\<lambda>r. Inr (live ks [t] @ r))"
  by (cases "ApplyLoop ks ts") (auto simp: live_def)

lemma andThen_append:
  "andThen (andThen r (\<lambda>r. Inr (ys @ r))) (\<lambda>r. Inr (xs @ r)) = andThen r (\<lambda>r. Inr ((xs @ ys) @ r))"
  by (cases r) simp_all

definition passes :: "token list \<Rightarrow> token list \<Rightarrow> bool" where
  "passes from to \<longleftrightarrow>
     (\<forall>ks ts. ApplyLoop ks (from @ ts) = andThen (ApplyLoop ks ts) (\<lambda>r. Inr (live ks to @ r)))"

lemma andThen_Inr_id [simp]: "andThen r Inr = r"
  by (cases r) simp_all

lemma passes_concat:
  "(\<And>x. x \<in> set xs \<Longrightarrow> passes (f x) (g x)) \<Longrightarrow> passes (concat (map f xs)) (concat (map g xs))"
proof (induction xs)
  case (Cons x xs)
  then have "passes (f x) (g x)" "passes (concat (map f xs)) (concat (map g xs))" by simp_all
  then show ?case by (simp add: passes_def andThen_append)
qed (simp add: passes_def)

lemma passes_region: "well_nested r \<Longrightarrow> passes (flatten r) (select r)"
proof (induction r rule: flatten.induct)
  case (1 t)
  then show ?case by (simp add: passes_def ApplyLoop_plain del: ApplyLoop.simps(2))
next
  case (2 i as els e)
  let ?b = "condition_of i"
  have as: "passes (concat (map flatten as)) (concat (map select as))"
    using 2 by (intro passes_concat) (auto simp: list_all_iff)
  have i: "ApplyLoop ks (i # ts) = ApplyLoop (?b # ks) ts" for ks ts
    using 2 by (cases "Evaluate (drop 2 (tk_text i))") (auto simp: condition_of_def)
  have e: "ApplyLoop (k # ks) (e # ts) = ApplyLoop ks ts" for k ks ts
    using 2 by (simp add: starts_with_def)
  show ?case
  proof (cases els)
    case None
    then show ?thesis using as i e by (auto simp: passes_def live_def)
  next
    case (Some lbs)
    obtain l bs where lbs: "lbs = (l, bs)" by fastforce
    have l: "ApplyLoop (k # ks) (l # ts) = ApplyLoop ((\<not> k) # ks) ts" for k ks ts
      using 2 Some lbs by (simp add: starts_with_def)
    have bs: "passes (concat (map flatten bs)) (concat (map select bs))"
      using 2 Some lbs by (intro passes_concat) (auto simp: list_all_iff)
    show ?thesis using as bs i e l Some lbs by (auto simp: passes_def live_def)
  qed
qed

lemma ApplyDirectives_nested:
  assumes "list_all well_nested rs"
  shows "ApplyDirectives (concat (map flatten rs)) = Inr (concat (map select rs))"
proof -
  have "passes (concat (map flatten rs)) (concat (map select rs))"
    using assms by (intro passes_concat passes_region) (auto simp: list_all_iff)
  then have "ApplyLoop [] (concat (map flatten rs) @ []) =
      andThen (ApplyLoop [] []) (\<lambda>r. Inr (live [] (concat (map select rs)) @ r))"
    unfolding passes_def by blast
  then show ?thesis by (simp add: ApplyDirectives_def)
qed

section \<open>The errors of the lexer\<close>

abbreviation lexical_errors :: "lex_error set" where
  "lexical_errors \<equiv> LexError ` {''unterminated quoted identifier'', ''unterminated string'',
     ''a #if condition nests too deeply''}"

lemma Evaluate_errors: "Evaluate s = Inl e \<Longrightarrow> e \<in> lexical_errors"
  using Evaluate_never_fuel [of s] condition_errors(4) [of "3 * length s + 3" "reading s 0" e]
  by (auto simp: Evaluate_def andThen_Inl_iff)

lemma Next_errors: "Next s = Inl e \<Longrightarrow> e \<in> lexical_errors"
  by (auto simp: Next_def LexQuotedIdentifier_def LexString_def Let_def split: prod.splits if_splits)

lemma RunLoop_errors: "RunLoop tokens s = Inl e \<Longrightarrow> e \<in> lexical_errors"
proof (induction tokens s rule: RunLoop.induct)
  case (1 tokens s)
  then show ?case
    using Next_errors [of "SkipTrivia s" e]
    by (cases "Next (SkipTrivia s)") (auto simp: RunLoop_case [of tokens s] split: if_splits)
qed

lemma ApplyLoop_errors: "ApplyLoop keeping ts = Inl e \<Longrightarrow> e \<in> lexical_errors"
proof (induction ts arbitrary: keeping)
  case (Cons t ts)
  then show ?case by (force simp: andThen_Inl_iff dest: Evaluate_errors split: if_splits)
qed simp

lemma Tokenize_errors: "Tokenize source = Inl e \<Longrightarrow> e \<in> lexical_errors"
  by (auto simp: Tokenize_def Run_def ApplyDirectives_def andThen_Inl_iff
      dest!: RunLoop_errors ApplyLoop_errors)

section \<open>Properties\<close>

text \<open>
  C18: tokenizing returns for every source: it yields tokens, or one of the three lexical
  errors the code throws (the condition reader never runs out of the fuel it is given).
\<close>

theorem tokenize_returns:
  "(\<exists>ts. Tokenize source = Inr ts) \<or>
   Tokenize source \<in> Inl ` LexError ` {''unterminated quoted identifier'', ''unterminated string'',
     ''a #if condition nests too deeply''}"
  using Tokenize_errors [of source] by (cases "Tokenize source") auto

text \<open>
  C12: the condition reading computes the meaning of a condition: the text of every condition
  whose names are not reserved words, with at most 64 primaries open at once, evaluates to
  its truth value, with \<open>not\<close> binding tighter than \<open>and\<close> and \<open>and\<close> tighter than \<open>or\<close>.
\<close>

theorem evaluate_condition:
  assumes "well_named c" "nesting 0 c \<le> 64"
  shows "Evaluate (show_condition 0 c) = Inr (holds c)"
proof (rule Evaluate_yields)
  show "yields (\<lambda>n. ReadOr n (reading (show_condition 0 c) 0)) (holds c, reading [] 0)"
    using reads_orD [of c "[]" 0] reads_all [OF assms(1)] assms(2)
      loop_stops(2) [of "reading [] 0" "holds c"]
    by (simp add: ends_word_def)
qed


theorem evaluate_condition_witness:
  "Evaluate ''not (true and x) or y and true'' = Inr True"
  using evaluate_condition [of "COr (CNot (CAnd CTrue (CName ''x''))) (CAnd (CName ''y'') CTrue)"]
  by (simp add: bracketed_def IsIdentifierPart_def char_class_defs)

text \<open>
  C14: a token stream whose directives are properly nested keeps exactly the tokens of the
  live branch of every region, however deep the regions are nested, and none of the directives.
\<close>

theorem live_branches:
  assumes "list_all well_nested rs"
  shows "ApplyDirectives (concat (map flatten rs)) = Inr (concat (map select rs))"
  by (rule ApplyDirectives_nested [OF assms])

abbreviation directive :: "string \<Rightarrow> token" where
  "directive s \<equiv> \<lparr>tk_kind = Directive, tk_text = s, tk_line = 1, tk_column = 1\<rparr>"

abbreviation word :: "string \<Rightarrow> token" where
  "word s \<equiv> \<lparr>tk_kind = Identifier, tk_text = s, tk_line = 1, tk_column = 1\<rparr>"

theorem live_branches_witness:
  "ApplyDirectives
     [word ''a'', directive ''if  CLEAN'', word ''b'', directive ''if  not X'', word ''c'',
      directive ''endif'', directive ''else'', word ''d'', directive ''endif''] =
   Inr [word ''a'', word ''d'']"
proof -
  let ?inner = "Region (directive ''if  not X'') [Plain (word ''c'')] None (directive ''endif'')"
  let ?outer = "Region (directive ''if  CLEAN'') [Plain (word ''b''), ?inner]
      (Some (directive ''else'', [Plain (word ''d'')])) (directive ''endif'')"
  have clean: "Evaluate ''  CLEAN'' = Inr False" and x: "Evaluate ''  not X'' = Inr True"
    by code_simp+
  have "list_all well_nested [Plain (word ''a''), ?outer]"
    using clean x by (simp add: starts_with_def)
  from live_branches [OF this] clean show ?thesis by (simp add: condition_of_def)
qed

text \<open>
  an inactive region that is never closed drops every token after it, the
  \<open>EndOfFile\<close> token the scanner ends every stream with included, so the stream the parser
  gets need not end with that token.
\<close>

theorem unclosed_region_drops_end:
  assumes "tk_kind i = Directive" "starts_with (tk_text i) ''if''"
    and "Evaluate (drop 2 (tk_text i)) = Inr False"
    and "\<forall>t \<in> set ts. tk_kind t \<noteq> Directive"
  shows "ApplyDirectives (i # ts) = Inr []"
proof -
  have "ApplyLoop [False] ts = Inr []" using assms(4) by (induction ts) simp_all
  then show ?thesis using assms(1-3) by (simp add: ApplyDirectives_def)
qed

theorem unclosed_region_drops_end_witness:
  "ApplyDirectives [directive ''if  X'', word ''a'',
     \<lparr>tk_kind = EndOfFile, tk_text = [], tk_line = 2, tk_column = 1\<rparr>] = Inr []"
proof -
  have "Evaluate ''  X'' = Inr False" by code_simp
  then show ?thesis by (intro unclosed_region_drops_end) (simp_all add: starts_with_def)
qed

end
