(* ===== verification/Expressions.thy ===== *)
theory Expressions
  imports Lexer
begin

text \<open>
  AL expressions: the tree of \<^verbatim>\<open>src/src/al/Expr.h\<close> and the expression half of \<open>Reader\<close> in
  \<^verbatim>\<open>src/src/al/Statements.cpp\<close>, a precedence-climbing recursive descent parser with a limit on
  how deep \<open>ReadExpression\<close> nests.

  The reader's \<open>tokens_\<close> and \<open>position_\<close> are modelled by \<open>rd_rest\<close>, the tokens from
  \<open>position_\<close> on: a position at or behind the end is the empty list, which is all the code
  can see of it. The functions take fuel; \<open>expression_fuel\<close> is the amount the code's callers
  are given here, and \<open>expression_enough_fuel\<close> shows that no input exhausts it.
\<close>

section \<open>Trees\<close>

datatype ExprKind =
    StringLiteral
  | NumberLiteral
  | TemporalLiteral
  | NameExpr
  | ScopeExpr
  | CallExpr
  | BinaryExpr
  | UnaryExpr
  | SetExpr
  | RangeExpr
  | IndexExpr

datatype Expr = Expr (ex_kind: ExprKind) (ex_text: string) (ex_children: "Expr list")

datatype parse_error = ParseError string | ParseFuel

text \<open>The default of the struct, \<open>Expr{}\<close>: no expression.\<close>

definition NoExpr :: Expr where
  "NoExpr = Expr NameExpr [] []"

section \<open>The reader\<close>

record reader =
  rd_rest :: "token list"
  rd_depth :: nat

definition kMaxDepth :: nat where
  "kMaxDepth = 128"

definition kLevels :: "(nat \<times> string) list" where
  "kLevels =
     [(1, ''=''), (1, ''<>''), (1, ''<''), (1, ''<=''), (1, ''>''), (1, ''>=''), (1, ''is''),
      (1, ''as''), (2, ''+''), (2, ''-''), (2, ''or''), (3, ''*''), (3, ''/''), (3, ''div''),
      (3, ''mod''), (3, ''and''), (3, ''xor''), (4, ''in''), (4, ''is''), (4, ''as'')]"

definition kEnd :: token where
  "kEnd = \<lparr>tk_kind = EndOfFile, tk_text = [], tk_line = 0, tk_column = 0\<rparr>"

definition Peek :: "nat \<Rightarrow> reader \<Rightarrow> token" where
  "Peek ahead r = (if ahead < length (rd_rest r) then rd_rest r ! ahead else kEnd)"

definition AtEnd :: "reader \<Rightarrow> bool" where
  "AtEnd r \<longleftrightarrow> rd_rest r = []"

definition AtKeyword :: "string \<Rightarrow> reader \<Rightarrow> bool" where
  "AtKeyword w r \<longleftrightarrow> IsKeyword (Peek 0 r) w"

definition AtPunctuation :: "string \<Rightarrow> reader \<Rightarrow> bool" where
  "AtPunctuation p r \<longleftrightarrow> IsPunctuation (Peek 0 r) p"

definition AdvanceToken :: "reader \<Rightarrow> reader" where
  "AdvanceToken r = r\<lparr>rd_rest := tl (rd_rest r)\<rparr>"

definition Expect :: "string \<Rightarrow> reader \<Rightarrow> parse_error + reader" where
  "Expect what r =
     (if AtKeyword what r \<or> AtPunctuation what r then Inr (AdvanceToken r)
      else Inl (ParseError (''expected '' @ [quote_char] @ what @ [quote_char] @ '' but found '' @
        [quote_char] @ tk_text (Peek 0 r) @ [quote_char] @ '' on line '' @ digits_of (tk_line (Peek 0 r)))))"

definition PrecedenceOf :: "token \<Rightarrow> nat" where
  "PrecedenceOf t =
     (case find (\<lambda>(precedence, w). IsKeyword t w \<or> IsPunctuation t w) kLevels of
        Some (precedence, w) \<Rightarrow> precedence
      | None \<Rightarrow> 0)"

section \<open>Scopes\<close>

text \<open>The loop over the names behind \<open>::\<close>.\<close>

function ScopeLoop :: "bool \<Rightarrow> string \<Rightarrow> reader \<Rightarrow> string \<times> reader" where
  "ScopeLoop qualified t r =
     (if AtPunctuation ''.'' r \<and> 2 < length (rd_rest r) \<and>
         tk_kind (rd_rest r ! 1) \<noteq> Punctuation \<and>
         (tk_kind (rd_rest r ! 2) \<noteq> Punctuation \<or> tk_text (rd_rest r ! 2) \<noteq> ''('')
      then let r1 = AdvanceToken r; name = tk_text (Peek 0 r1) in
        ScopeLoop qualified (if qualified then t @ ''.'' @ name else name) (AdvanceToken r1)
      else (t, r))"
  by pat_completeness auto
termination
  by (relation "measure (\<lambda>(q, t, r). length (rd_rest r))") (auto simp: AdvanceToken_def)

declare ScopeLoop.simps [simp del]

definition ReadScope :: "Expr \<Rightarrow> bool \<Rightarrow> reader \<Rightarrow> Expr \<times> reader" where
  "ReadScope base qualified r =
     (let r1 = AdvanceToken r; (t, r2) = ScopeLoop qualified (tk_text (Peek 0 r1)) (AdvanceToken r1)
      in (Expr ScopeExpr t [base], r2))"

section \<open>Expressions\<close>

definition Enter :: "reader \<Rightarrow> reader" where
  "Enter r = r\<lparr>rd_depth := rd_depth r + 1\<rparr>"

definition Leave :: "reader \<Rightarrow> reader" where
  "Leave r = r\<lparr>rd_depth := rd_depth r - 1\<rparr>"

definition SkipComma :: "reader \<Rightarrow> reader" where
  "SkipComma r = (if AtPunctuation '','' r then AdvanceToken r else r)"

text \<open>The \<open>switch\<close> of \<open>ReadPrimary\<close> on a token that opens no bracket.\<close>

definition Atom :: "token \<Rightarrow> Expr" where
  "Atom t =
     (case tk_kind t of
        StringToken \<Rightarrow> Expr StringLiteral (tk_text t) []
      | IntegerToken \<Rightarrow> Expr NumberLiteral (tk_text t) []
      | DecimalToken \<Rightarrow> Expr NumberLiteral (tk_text t) []
      | DateTimeToken \<Rightarrow> Expr TemporalLiteral (tk_text t) []
      | _ \<Rightarrow> Expr NameExpr (tk_text t) [])"

function (sequential) ReadTernary :: "nat \<Rightarrow> reader \<Rightarrow> parse_error + Expr \<times> reader"
  and ReadExpression :: "nat \<Rightarrow> nat \<Rightarrow> reader \<Rightarrow> parse_error + Expr \<times> reader"
  and ExpressionLoop :: "nat \<Rightarrow> nat \<Rightarrow> Expr \<Rightarrow> reader \<Rightarrow> parse_error + Expr \<times> reader"
  and ReadUnary :: "nat \<Rightarrow> reader \<Rightarrow> parse_error + Expr \<times> reader"
  and ReadPostfix :: "nat \<Rightarrow> reader \<Rightarrow> parse_error + Expr \<times> reader"
  and PostfixLoop :: "nat \<Rightarrow> bool \<Rightarrow> Expr \<Rightarrow> reader \<Rightarrow> parse_error + Expr \<times> reader"
  and ArgumentsLoop :: "nat \<Rightarrow> string \<Rightarrow> Expr list \<Rightarrow> reader \<Rightarrow> parse_error + Expr list \<times> reader"
  and ReadAtom :: "nat \<Rightarrow> reader \<Rightarrow> parse_error + Expr \<times> reader"
  and SetLoop :: "nat \<Rightarrow> Expr list \<Rightarrow> reader \<Rightarrow> parse_error + Expr list \<times> reader" where
  "ReadTernary 0 r = Inl ParseFuel"
| "ReadTernary (Suc n) r =
     andThen (ReadExpression n 1 r) (\<lambda>(condition, r1).
       if \<not> AtPunctuation ''?'' r1 then Inr (condition, r1)
       else andThen (ReadTernary n (AdvanceToken r1)) (\<lambda>(whenTrue, r2).
         if \<not> AtPunctuation '':'' r2 then Inl (ParseError (''a conditional expression needs its '' @ [quote_char, CHR '':'', quote_char]))
         else andThen (ReadTernary n (AdvanceToken r2)) (\<lambda>(whenFalse, r3).
           Inr (Expr BinaryExpr ''?:'' [condition, whenTrue, whenFalse], r3))))"
| "ReadExpression 0 minimum r = Inl ParseFuel"
| "ReadExpression (Suc n) minimum r =
     (if kMaxDepth < rd_depth r + 1 then Inl (ParseError ''an expression nests too deeply'')
      else andThen (ReadUnary n (Enter r)) (\<lambda>(left, r1).
        andThen (ExpressionLoop n minimum left r1) (\<lambda>(e, r2). Inr (e, Leave r2))))"
| "ExpressionLoop 0 minimum left r = Inl ParseFuel"
| "ExpressionLoop (Suc n) minimum left r =
     (if AtEnd r then Inr (left, r)
      else let precedence = PrecedenceOf (Peek 0 r) in
        if precedence = 0 \<or> precedence < minimum then Inr (left, r)
        else andThen (ReadExpression n (precedence + 1) (AdvanceToken r)) (\<lambda>(right, r1).
          ExpressionLoop n minimum (Expr BinaryExpr (tk_text (Peek 0 r)) [left, right]) r1))"
| "ReadUnary 0 r = Inl ParseFuel"
| "ReadUnary (Suc n) r =
     (if AtKeyword ''not'' r \<or> AtPunctuation ''-'' r \<or> AtPunctuation ''+'' r
      then andThen (ReadUnary n (AdvanceToken r)) (\<lambda>(e, r1).
        Inr (Expr UnaryExpr (tk_text (Peek 0 r)) [e], r1))
      else ReadPostfix n r)"
| "ReadPostfix 0 r = Inl ParseFuel"
| "ReadPostfix (Suc n) r =
     andThen (ReadAtom n r) (\<lambda>(v, r1). PostfixLoop n (AtKeyword ''Database'' r) v r1)"
| "PostfixLoop 0 databaseScope v r = Inl ParseFuel"
| "PostfixLoop (Suc n) databaseScope v r =
     (if AtEnd r then Inr (v, r)
      else if AtPunctuation ''::'' r then
        (case ReadScope v (databaseScope \<and> ex_kind v = NameExpr \<and> ex_children v = []) r of (e, r1) \<Rightarrow>
           PostfixLoop n databaseScope e r1)
      else if AtPunctuation ''.'' r then
        let r1 = AdvanceToken r; member = Expr NameExpr (tk_text (Peek 0 r1)) [] in
        PostfixLoop n databaseScope (Expr BinaryExpr ''.'' [v, member]) (AdvanceToken r1)
      else if AtPunctuation ''['' r then
        andThen (ArgumentsLoop n '']'' [v] (AdvanceToken r)) (\<lambda>(children, r1).
          PostfixLoop n databaseScope (Expr IndexExpr [] children) r1)
      else if AtPunctuation ''('' r then
        andThen (ArgumentsLoop n '')'' [v] (AdvanceToken r)) (\<lambda>(children, r1).
          PostfixLoop n databaseScope (Expr CallExpr [] children) r1)
      else Inr (v, r))"
| "ArgumentsLoop 0 closing children r = Inl ParseFuel"
| "ArgumentsLoop (Suc n) closing children r =
     (if \<not> AtEnd r \<and> \<not> AtPunctuation closing r then
        andThen (ReadTernary n r) (\<lambda>(e, r1).
          ArgumentsLoop n closing (children @ [e]) (SkipComma r1))
      else andThen (Expect closing r) (\<lambda>r1. Inr (children, r1)))"
| "ReadAtom 0 r = Inl ParseFuel"
| "ReadAtom (Suc n) r =
     (if AtPunctuation ''['' r then
        andThen (SetLoop n [] (AdvanceToken r)) (\<lambda>(children, r1). Inr (Expr SetExpr [] children, r1))
      else if AtPunctuation ''('' r then
        andThen (ReadTernary n (AdvanceToken r)) (\<lambda>(inner, r1).
          andThen (Expect '')'' r1) (\<lambda>r2. Inr (inner, r2)))
      else Inr (Atom (Peek 0 r), AdvanceToken r))"
| "SetLoop 0 children r = Inl ParseFuel"
| "SetLoop (Suc n) children r =
     (if \<not> AtEnd r \<and> \<not> AtPunctuation '']'' r then
        andThen (ReadTernary n r) (\<lambda>(item, r1).
          if AtPunctuation ''..'' r1 then
            andThen (ReadTernary n (AdvanceToken r1)) (\<lambda>(upper, r2).
              SetLoop n (children @ [Expr RangeExpr [] [item, upper]]) (SkipComma r2))
          else SetLoop n (children @ [item]) (SkipComma r1))
      else andThen (Expect '']'' r) (\<lambda>r1. Inr (children, r1)))"

  by pat_completeness safe
termination
  by (relation "measure (case_sum (case_sum (case_sum fst fst) (case_sum fst fst))
      (case_sum (case_sum fst fst) (case_sum fst (case_sum fst fst))))") simp_all

lemmas expression_reader_simps =
  ReadTernary.simps ReadExpression.simps ExpressionLoop.simps ReadUnary.simps ReadPostfix.simps
  PostfixLoop.simps ArgumentsLoop.simps ReadAtom.simps SetLoop.simps

declare expression_reader_simps [simp del]

definition expression_fuel :: "reader \<Rightarrow> nat" where
  "expression_fuel r = 8 * length (rd_rest r) + 8"

text \<open>The two entry points the statement reader calls, with their fuel.\<close>

definition Ternary :: "reader \<Rightarrow> parse_error + Expr \<times> reader" where
  "Ternary r = ReadTernary (expression_fuel r) r"

definition Postfix :: "reader \<Rightarrow> parse_error + Expr \<times> reader" where
  "Postfix r = ReadPostfix (expression_fuel r) r"

section \<open>Reading consumes tokens\<close>

lemma rd_simps [simp]:
  "rd_rest (AdvanceToken r) = tl (rd_rest r)"
  "rd_depth (AdvanceToken r) = rd_depth r"
  "rd_rest (Enter r) = rd_rest r" "rd_depth (Enter r) = rd_depth r + 1"
  "rd_rest (Leave r) = rd_rest r" "rd_depth (Leave r) = rd_depth r - 1"
  by (simp_all add: AdvanceToken_def Enter_def Leave_def)

lemma AtEnd_iff [simp]: "AtEnd r \<longleftrightarrow> rd_rest r = []"
  by (simp add: AtEnd_def)

lemma not_at_end:
  "AtPunctuation p r \<Longrightarrow> rd_rest r \<noteq> []" "AtKeyword w r \<Longrightarrow> rd_rest r \<noteq> []"
  by (auto simp: AtPunctuation_def AtKeyword_def Peek_def IsPunctuation_def IsKeyword_def kEnd_def
      split: if_splits)

lemma SkipComma_length: "length (rd_rest (SkipComma r)) \<le> length (rd_rest r)"
  by (simp add: SkipComma_def)

lemma Expect_length:
  "Expect what r = Inr r' \<Longrightarrow> length (rd_rest r') \<le> length (rd_rest r) - 1"
  by (auto simp: Expect_def split: if_splits)

lemma ScopeLoop_length:
  "ScopeLoop q t r = (t', r') \<Longrightarrow> length (rd_rest r') \<le> length (rd_rest r)"
proof (induction q t r arbitrary: t' r' rule: ScopeLoop.induct)
  case (1 q t r)
  show ?case
  proof (rule ccontr)
    assume "\<not> length (rd_rest r') \<le> length (rd_rest r)"
    with 1 show False
      by (subst (asm) (2) ScopeLoop.simps) (fastforce simp: Let_def split: if_splits)
  qed
qed

lemma ReadScope_length:
  "ReadScope v q r = (e, r') \<Longrightarrow> length (rd_rest r') \<le> length (rd_rest r) - 1"
  by (auto simp: ReadScope_def Let_def split: prod.splits dest!: ScopeLoop_length)

lemma expression_shrinks [shrink_intros]:
  "ReadTernary n r = Inr (e, r') \<Longrightarrow> length (rd_rest r') \<le> length (rd_rest r) - 1"
  "ReadExpression n minimum r = Inr (e, r') \<Longrightarrow> length (rd_rest r') \<le> length (rd_rest r) - 1"
  "ExpressionLoop n minimum left r = Inr (e, r') \<Longrightarrow> length (rd_rest r') \<le> length (rd_rest r)"
  "ReadUnary n r = Inr (e, r') \<Longrightarrow> length (rd_rest r') \<le> length (rd_rest r) - 1"
  "ReadPostfix n r = Inr (e, r') \<Longrightarrow> length (rd_rest r') \<le> length (rd_rest r) - 1"
  "PostfixLoop n d v r = Inr (e, r') \<Longrightarrow> length (rd_rest r') \<le> length (rd_rest r)"
  "ArgumentsLoop n c es r = Inr (es', r') \<Longrightarrow> length (rd_rest r') \<le> length (rd_rest r)"
  "ReadAtom n r = Inr (e, r') \<Longrightarrow> length (rd_rest r') \<le> length (rd_rest r) - 1"
  "SetLoop n es r = Inr (es', r') \<Longrightarrow> length (rd_rest r') \<le> length (rd_rest r)"
proof (induction n arbitrary: r e r' minimum left d v c es es')
  case (Suc n)
  note [simp] = expression_reader_simps(2,4,6,8,10,12,14,16,18)
  {
    case 1
    then show ?case by (fastforce split: if_splits dest!: Suc.IH(1) Suc.IH(2))
  next
    case 2
    then show ?case by (fastforce split: if_splits dest!: Suc.IH(4) Suc.IH(3))
  next
    case 3
    then show ?case by (fastforce simp: Let_def split: if_splits dest!: Suc.IH(2) Suc.IH(3))
  next
    case 4
    then show ?case by (fastforce split: if_splits dest!: Suc.IH(4) Suc.IH(5))
  next
    case 5
    then show ?case by (fastforce split: if_splits dest!: Suc.IH(8) Suc.IH(6))
  next
    case 6
    then show ?case
      by (fastforce simp: Let_def split: if_splits prod.splits dest!: Suc.IH(6) Suc.IH(7) ReadScope_length)
  next
    case 7
    then show ?case
      by (fastforce split: if_splits dest!: Suc.IH(7) Suc.IH(1) Expect_length
          dest: le_trans [OF _ SkipComma_length])
  next
    case 8
    then show ?case by (fastforce split: if_splits dest!: Suc.IH(1) Suc.IH(9) Expect_length)
  next
    case 9
    then show ?case
      by (fastforce split: if_splits dest!: Suc.IH(1) Suc.IH(9) Expect_length
          dest: le_trans [OF _ SkipComma_length])
  }
qed (simp_all add: expression_reader_simps)

section \<open>Enough fuel\<close>

text \<open>Eight units per token, and one per level of the grammar entered without a token.\<close>

lemma SkipComma_le: "length (rd_rest r) \<le> k \<Longrightarrow> length (rd_rest (SkipComma r)) \<le> k"
  using SkipComma_length le_trans by blast

lemma Expect_fuel [simp]: "Expect what r \<noteq> Inl ParseFuel"
  by (simp add: Expect_def)

lemma expression_enough_fuel:
  "8 * length (rd_rest r) + 5 \<le> n \<Longrightarrow> ReadTernary n r \<noteq> Inl ParseFuel"
  "8 * length (rd_rest r) + 4 \<le> n \<Longrightarrow> ReadExpression n minimum r \<noteq> Inl ParseFuel"
  "8 * length (rd_rest r) + 1 \<le> n \<Longrightarrow> ExpressionLoop n minimum left r \<noteq> Inl ParseFuel"
  "8 * length (rd_rest r) + 3 \<le> n \<Longrightarrow> ReadUnary n r \<noteq> Inl ParseFuel"
  "8 * length (rd_rest r) + 2 \<le> n \<Longrightarrow> ReadPostfix n r \<noteq> Inl ParseFuel"
  "8 * length (rd_rest r) + 1 \<le> n \<Longrightarrow> PostfixLoop n d v r \<noteq> Inl ParseFuel"
  "8 * length (rd_rest r) + 6 \<le> n \<Longrightarrow> ArgumentsLoop n c es r \<noteq> Inl ParseFuel"
  "8 * length (rd_rest r) + 1 \<le> n \<Longrightarrow> ReadAtom n r \<noteq> Inl ParseFuel"
  "8 * length (rd_rest r) + 6 \<le> n \<Longrightarrow> SetLoop n es r \<noteq> Inl ParseFuel"
proof (induction n arbitrary: r minimum left d v c es)
  case (Suc n)
  note simps = expression_reader_simps(2,4,6,8,10,12,14,16,18)
  have pos: "rd_rest r \<noteq> [] \<Longrightarrow> 0 < length (rd_rest r)" for r by simp
  {
    case 1
    have "ReadExpression n 1 r \<noteq> Inl ParseFuel" using 1 by (intro Suc.IH(2)) (simp del: length_greater_0_conv)
    moreover have "ReadTernary n (AdvanceToken r') \<noteq> Inl ParseFuel"
      if "AtPunctuation p r'" "length (rd_rest r') \<le> length (rd_rest r)" for r' p
      using 1 that pos [OF not_at_end(1) [OF that(1)]] by (intro Suc.IH(1)) (simp del: length_greater_0_conv)
    moreover have "length (rd_rest r2) \<le> length (rd_rest r)"
      if "ReadExpression n 1 r = Inr (e, r1)" "ReadTernary n (AdvanceToken r1) = Inr (e', r2)" for e r1 e' r2
      using expression_shrinks(2) [OF that(1)] expression_shrinks(1) [OF that(2)] by simp
    moreover have "length (rd_rest r1) \<le> length (rd_rest r)"
      if "ReadExpression n 1 r = Inr (e, r1)" for e r1
      using expression_shrinks(2) [OF that] by simp
    ultimately show ?case by (auto simp: simps andThen_Inl_iff)
  next
    case 2
    have "ReadUnary n (Enter r) \<noteq> Inl ParseFuel" using 2 by (intro Suc.IH(4)) (simp del: length_greater_0_conv)
    moreover have "ExpressionLoop n minimum left r' \<noteq> Inl ParseFuel"
      if "length (rd_rest r') \<le> length (rd_rest r) - 1" for left r'
      using 2 that by (intro Suc.IH(3)) (simp del: length_greater_0_conv)
    ultimately show ?case
      by (auto simp: simps andThen_Inl_iff dest!: expression_shrinks(4))
  next
    case 3
    have "ReadExpression n p (AdvanceToken r) \<noteq> Inl ParseFuel" if "rd_rest r \<noteq> []" for p
      using 3 pos [OF that] by (intro Suc.IH(2)) (simp del: length_greater_0_conv)
    moreover have "ExpressionLoop n minimum left r' \<noteq> Inl ParseFuel"
      if "length (rd_rest r') \<le> length (rd_rest r) - 1 - 1" "rd_rest r \<noteq> []" for left r'
      using 3 that(1) pos [OF that(2)] by (intro Suc.IH(3)) (simp del: length_greater_0_conv)
    ultimately show ?case
      by (auto simp: simps andThen_Inl_iff Let_def dest!: expression_shrinks(2))
  next
    case 4
    have "ReadUnary n (AdvanceToken r) \<noteq> Inl ParseFuel" if "rd_rest r \<noteq> []"
      using 4 pos [OF that] by (intro Suc.IH(4)) (simp del: length_greater_0_conv)
    moreover have "ReadPostfix n r \<noteq> Inl ParseFuel" using 4 by (intro Suc.IH(5)) (simp del: length_greater_0_conv)
    ultimately show ?case
      by (auto simp: simps andThen_Inl_iff dest: not_at_end)
  next
    case 5
    have "ReadAtom n r \<noteq> Inl ParseFuel" using 5 by (intro Suc.IH(8)) (simp del: length_greater_0_conv)
    moreover have "PostfixLoop n d v r' \<noteq> Inl ParseFuel"
      if "length (rd_rest r') \<le> length (rd_rest r) - 1" for d v r'
      using 5 that by (intro Suc.IH(6)) (simp del: length_greater_0_conv)
    ultimately show ?case
      by (auto simp: simps andThen_Inl_iff dest!: expression_shrinks(8))
  next
    case 6
    have loop: "PostfixLoop n d v r' \<noteq> Inl ParseFuel"
      if "length (rd_rest r') \<le> length (rd_rest r) - 1" "rd_rest r \<noteq> []" for v r'
      using 6 that(1) pos [OF that(2)] by (intro Suc.IH(6)) (simp del: length_greater_0_conv)
    have "ArgumentsLoop n c es (AdvanceToken r) \<noteq> Inl ParseFuel" if "rd_rest r \<noteq> []" for c es
      using 6 pos [OF that] by (intro Suc.IH(7)) (simp del: length_greater_0_conv)
    with loop show ?case
      by (auto simp: simps andThen_Inl_iff Let_def split: prod.splits
          dest!: expression_shrinks(7) ReadScope_length)
  next
    case 7
    have "ReadTernary n r \<noteq> Inl ParseFuel" using 7 by (intro Suc.IH(1)) (simp del: length_greater_0_conv)
    moreover have "ArgumentsLoop n c es (SkipComma r') \<noteq> Inl ParseFuel"
      if "length (rd_rest r') \<le> length (rd_rest r) - 1" "rd_rest r \<noteq> []" for es r'
      using 7 SkipComma_le [OF that(1)] pos [OF that(2)] by (intro Suc.IH(7)) (simp del: length_greater_0_conv)
    ultimately show ?case
      by (auto simp: simps andThen_Inl_iff dest!: expression_shrinks(1))
  next
    case 8
    have "SetLoop n es (AdvanceToken r) \<noteq> Inl ParseFuel" if "rd_rest r \<noteq> []" for es
      using 8 pos [OF that] by (intro Suc.IH(9)) (simp del: length_greater_0_conv)
    moreover have "ReadTernary n (AdvanceToken r) \<noteq> Inl ParseFuel" if "rd_rest r \<noteq> []"
      using 8 pos [OF that] by (intro Suc.IH(1)) (simp del: length_greater_0_conv)
    ultimately show ?case
      by (auto simp: simps andThen_Inl_iff dest: not_at_end)
  next
    case 9
    have "ReadTernary n r \<noteq> Inl ParseFuel" using 9 by (intro Suc.IH(1)) (simp del: length_greater_0_conv)
    moreover have "ReadTernary n (AdvanceToken r') \<noteq> Inl ParseFuel"
      if "length (rd_rest r') \<le> length (rd_rest r) - 1" "rd_rest r \<noteq> []" for r'
      using 9 that(1) pos [OF that(2)] by (intro Suc.IH(1)) (simp del: length_greater_0_conv)
    moreover have "SetLoop n es (SkipComma r') \<noteq> Inl ParseFuel"
      if "length (rd_rest r') \<le> length (rd_rest r) - 1" "rd_rest r \<noteq> []" for es r'
      using 9 SkipComma_le [OF that(1)] pos [OF that(2)] by (intro Suc.IH(9)) (simp del: length_greater_0_conv)
    ultimately show ?case
      by (auto simp: simps andThen_Inl_iff dest!: expression_shrinks(1))
  }
qed simp_all

text \<open>More fuel does not change a result.\<close>

lemma expression_fuel_step:
  "ReadTernary n r \<noteq> Inl ParseFuel \<Longrightarrow> ReadTernary (Suc n) r = ReadTernary n r"
  "ReadExpression n minimum r \<noteq> Inl ParseFuel \<Longrightarrow> ReadExpression (Suc n) minimum r = ReadExpression n minimum r"
  "ExpressionLoop n minimum left r \<noteq> Inl ParseFuel \<Longrightarrow>
     ExpressionLoop (Suc n) minimum left r = ExpressionLoop n minimum left r"
  "ReadUnary n r \<noteq> Inl ParseFuel \<Longrightarrow> ReadUnary (Suc n) r = ReadUnary n r"
  "ReadPostfix n r \<noteq> Inl ParseFuel \<Longrightarrow> ReadPostfix (Suc n) r = ReadPostfix n r"
  "PostfixLoop n d v r \<noteq> Inl ParseFuel \<Longrightarrow> PostfixLoop (Suc n) d v r = PostfixLoop n d v r"
  "ArgumentsLoop n c es r \<noteq> Inl ParseFuel \<Longrightarrow> ArgumentsLoop (Suc n) c es r = ArgumentsLoop n c es r"
  "ReadAtom n r \<noteq> Inl ParseFuel \<Longrightarrow> ReadAtom (Suc n) r = ReadAtom n r"
  "SetLoop n es r \<noteq> Inl ParseFuel \<Longrightarrow> SetLoop (Suc n) es r = SetLoop n es r"
proof (induction n arbitrary: r minimum left d v c es)
  case (Suc n)
  note simps = expression_reader_simps(2,4,6,8,10,12,14,16,18)
  note step = Suc.IH
  have cong: "andThen a f \<noteq> Inl ParseFuel \<Longrightarrow> (a \<noteq> Inl ParseFuel \<Longrightarrow> a' = a) \<Longrightarrow>
      (\<And>x. a = Inr x \<Longrightarrow> f x \<noteq> Inl ParseFuel \<Longrightarrow> g x = f x) \<Longrightarrow> andThen a' g = andThen a f"
    for a a' :: "parse_error + 'x" and f g :: "'x \<Rightarrow> parse_error + 'y"
    by (cases a) auto
  {
    case 1
    then show ?case
      unfolding simps(1) [of "Suc n" r] simps(1) [of n r]
      by (auto intro!: cong step(1) step(2) split: if_splits prod.splits)
  next
    case 2
    then show ?case
      unfolding simps(2) [of "Suc n" minimum r] simps(2) [of n minimum r]
      by (auto intro!: cong step(3) step(4) split: if_splits prod.splits)
  next
    case 3
    then show ?case
      unfolding simps(3) [of "Suc n" minimum left r] simps(3) [of n minimum left r]
      by (auto simp: Let_def intro!: cong step(2) step(3) split: if_splits prod.splits)
  next
    case 4
    then show ?case
      unfolding simps(4) [of "Suc n" r] simps(4) [of n r]
      by (auto intro!: cong step(4) step(5) split: if_splits prod.splits)
  next
    case 5
    then show ?case
      unfolding simps(5) [of "Suc n" r] simps(5) [of n r]
      by (auto intro!: cong step(6) step(8) split: if_splits prod.splits)
  next
    case 6
    then show ?case
      unfolding simps(6) [of "Suc n" d v r] simps(6) [of n d v r]
      by (auto simp: Let_def intro!: cong step(6) step(7) split: if_splits prod.splits)
  next
    case 7
    then show ?case
      unfolding simps(7) [of "Suc n" c es r] simps(7) [of n c es r]
      by (auto intro!: cong step(1) step(7) split: if_splits prod.splits)
  next
    case 8
    then show ?case
      unfolding simps(8) [of "Suc n" r] simps(8) [of n r]
      by (auto intro!: cong step(1) step(9) split: if_splits prod.splits)
  next
    case 9
    then show ?case
      unfolding simps(9) [of "Suc n" es r] simps(9) [of n es r]
      by (auto intro!: cong step(1) step(9) split: if_splits prod.splits)
  }
qed (simp_all add: expression_reader_simps)

end
