(* ===== verification/ExpressionText.thy ===== *)
theory ExpressionText
  imports Expressions
begin

text \<open>
  The round trip of expressions: \<open>show_expr\<close> writes an expression tree as tokens, with
  parentheses only where the precedence of \<open>kLevels\<close> asks for them, and the reader of
  \<^verbatim>\<open>src/src/al/Statements.cpp\<close> reads the same tree back. The grammar's levels are numbered
  0 for the conditional, 1 to 4 for the binary operators, 5 for the prefixes, 6 for the
  postfixes and 7 for the atoms.
\<close>

section \<open>Writing an expression\<close>

definition tok :: "token_kind \<Rightarrow> string \<Rightarrow> token" where
  "tok k t = \<lparr>tk_kind = k, tk_text = t, tk_line = 1, tk_column = 1\<rparr>"

abbreviation punct :: "string \<Rightarrow> token" where
  "punct \<equiv> tok Punctuation"

text \<open>The words the readers look for: a name spelled like one is written quoted.\<close>

definition reserved :: "string list" where
  "reserved =
     [''is'', ''as'', ''or'', ''div'', ''mod'', ''and'', ''xor'', ''in'', ''not'', ''database'', ''begin'',
      ''repeat'', ''while'', ''for'', ''foreach'', ''case'', ''with'', ''exit'', ''continue'', ''break'', ''if'',
      ''asserterror'', ''end'', ''until'', ''else'']"

definition name_token :: "string \<Rightarrow> token" where
  "name_token t = tok (if map to_lower t \<in> set reserved then QuotedIdentifier else Identifier) t"

definition op_token :: "string \<Rightarrow> token" where
  "op_token t = tok (if t \<noteq> [] \<and> is_alpha (hd t) then Identifier else Punctuation) t"

definition brackets :: "bool \<Rightarrow> token list \<Rightarrow> token list" where
  "brackets b ts = (if b then punct ''('' # ts @ [punct '')''] else ts)"

fun separated :: "token list list \<Rightarrow> token list" where
  "separated [] = []"
| "separated [ts] = ts"
| "separated (ts # rest) = ts @ punct '','' # separated rest"

fun level :: "Expr \<Rightarrow> nat" where
  "level (Expr k t es) =
     (case k of
        BinaryExpr \<Rightarrow> if t = ''?:'' then 0 else if t = ''.'' then 6 else PrecedenceOf (op_token t)
      | UnaryExpr \<Rightarrow> 5
      | ScopeExpr \<Rightarrow> 6
      | CallExpr \<Rightarrow> 6
      | IndexExpr \<Rightarrow> 6
      | RangeExpr \<Rightarrow> 0
      | _ \<Rightarrow> 7)"

text \<open>The names behind a scope would be read into it, so a scope before a postfix has brackets.\<close>

definition base_level :: "Expr \<Rightarrow> nat" where
  "base_level e = (if ex_kind e = ScopeExpr then 7 else 6)"

fun show_expr :: "nat \<Rightarrow> Expr \<Rightarrow> token list" where
  "show_expr l (Expr k t es) =
     brackets (level (Expr k t es) < l)
      (case k of
         StringLiteral \<Rightarrow> [tok StringToken t]
       | NumberLiteral \<Rightarrow> [tok IntegerToken t]
       | TemporalLiteral \<Rightarrow> [tok DateTimeToken t]
       | NameExpr \<Rightarrow> [name_token t]
       | ScopeExpr \<Rightarrow> (case es of [b] \<Rightarrow> show_expr (base_level b) b @ [punct ''::'', name_token t] | _ \<Rightarrow> [])
       | CallExpr \<Rightarrow> (case es of
             b # as \<Rightarrow> show_expr (base_level b) b @ punct ''('' # separated (map (show_expr 0) as) @ [punct '')'']
           | [] \<Rightarrow> [])
       | IndexExpr \<Rightarrow> (case es of
             b # as \<Rightarrow> show_expr (base_level b) b @ punct ''['' # separated (map (show_expr 0) as) @ [punct '']'']
           | [] \<Rightarrow> [])
       | BinaryExpr \<Rightarrow> (case es of
             [a, b, c] \<Rightarrow> show_expr 1 a @ punct ''?'' # show_expr 0 b @ punct '':'' # show_expr 0 c
           | [a, b] \<Rightarrow>
               if t = ''.'' then show_expr (base_level a) a @ [punct ''.'', name_token (ex_text b)]
               else show_expr (PrecedenceOf (op_token t)) a @ op_token t #
                 show_expr (PrecedenceOf (op_token t) + 1) b
           | _ \<Rightarrow> [])
       | UnaryExpr \<Rightarrow> (case es of [a] \<Rightarrow> op_token t # show_expr 5 a | _ \<Rightarrow> [])
       | SetExpr \<Rightarrow> punct ''['' # separated (map (show_expr 0) es) @ [punct '']'']
       | RangeExpr \<Rightarrow> (case es of [a, b] \<Rightarrow> show_expr 0 a @ punct ''..'' # show_expr 0 b | _ \<Rightarrow> []))"

text \<open>The trees the reader builds of well-formed input: the right number of children and texts.\<close>

abbreviation is_range :: "Expr \<Rightarrow> bool" where
  "is_range e \<equiv> ex_kind e = RangeExpr"

fun well_formed :: "Expr \<Rightarrow> bool" where
  "well_formed (Expr k t es) =
     (list_all well_formed es \<and>
      (k = SetExpr \<or> list_all (\<lambda>e. \<not> is_range e) es) \<and>
      (case k of
         ScopeExpr \<Rightarrow> length es = 1
       | CallExpr \<Rightarrow> t = [] \<and> es \<noteq> []
       | IndexExpr \<Rightarrow> t = [] \<and> es \<noteq> []
       | BinaryExpr \<Rightarrow>
           t = ''?:'' \<and> length es = 3 \<or>
           t = ''.'' \<and> length es = 2 \<and> es ! 1 = Expr NameExpr (ex_text (es ! 1)) [] \<or>
           0 < PrecedenceOf (op_token t) \<and> length es = 2
       | UnaryExpr \<Rightarrow> length es = 1 \<and> (map to_lower t = ''not'' \<or> t = ''-'' \<or> t = ''+'')
       | SetExpr \<Rightarrow> t = []
       | RangeExpr \<Rightarrow> t = [] \<and> length es = 2
       | _ \<Rightarrow> es = []))"

text \<open>How deep \<open>ReadExpression\<close> nests while the written expression is read.\<close>

fun nest :: "nat \<Rightarrow> Expr \<Rightarrow> nat" where
  "nest l (Expr k t es) =
     (if k = BinaryExpr \<and> t = ''?:'' then
        (case es of [a, b, c] \<Rightarrow> max (1 + nest 1 a) (max (nest 0 b) (nest 0 c)) | _ \<Rightarrow> 0)
      else if k = RangeExpr then foldr max (map (nest 0) es) 0
      else
        (if l = 0 \<or> level (Expr k t es) < l then 1 else 0) +
        (case es of
           [] \<Rightarrow> 0
         | b # as \<Rightarrow>
             if k = SetExpr then foldr max (map (nest 0) es) 0
             else if k = UnaryExpr then nest 5 b
             else if k = BinaryExpr \<and> t \<noteq> ''.'' then
               (case as of
                  [c] \<Rightarrow> max (nest (PrecedenceOf (op_token t)) b) (1 + nest (PrecedenceOf (op_token t) + 1) c)
                | _ \<Rightarrow> 0)
             else if k = BinaryExpr then nest (base_level b) b
             else max (nest (base_level b) b) (foldr max (map (nest 0) as) 0)))"

declare show_expr.simps [simp del] nest.simps [simp del] well_formed.simps [simp del]

section \<open>Tokens at the reader\<close>

abbreviation rd :: "token list \<Rightarrow> nat \<Rightarrow> reader" where
  "rd ts d \<equiv> \<lparr>rd_rest = ts, rd_depth = d\<rparr>"

definition head :: "token list \<Rightarrow> token" where
  "head ts = (case ts of [] \<Rightarrow> kEnd | t # _ \<Rightarrow> t)"

lemma head_simps [simp]: "head [] = kEnd" "head (t # ts) = t"
  by (simp_all add: head_def)

lemma at_head [simp]:
  "Peek 0 (rd ts d) = head ts"
  "AtKeyword w (rd ts d) = IsKeyword (head ts) w"
  "AtPunctuation p (rd ts d) = IsPunctuation (head ts) p"
  "AdvanceToken (rd (t # ts) d) = rd ts d"
  "Enter (rd ts d) = rd ts (d + 1)"
  "Leave (rd ts d) = rd ts (d - 1)"
  by (cases ts; simp add: Peek_def AtKeyword_def AtPunctuation_def AdvanceToken_def Enter_def Leave_def)+

lemma tok_simps [simp]:
  "tk_kind (tok k t) = k" "tk_text (tok k t) = t"
  "IsPunctuation (tok k t) p \<longleftrightarrow> k = Punctuation \<and> t = p"
  "IsPunctuation kEnd p = False" "IsKeyword kEnd w = False"
  by (auto simp: tok_def IsPunctuation_def IsKeyword_def kEnd_def)

lemma keyword_tok: "IsKeyword (tok k t) w \<longleftrightarrow> k = Identifier \<and> map to_lower t = map to_lower w"
  by (auto simp: IsKeyword_def dest: map_eq_imp_length_eq)

lemma keyword_punct [simp]: "\<not> IsKeyword (punct p) w"
  by (simp add: IsKeyword_def)

lemma op_token_text [simp]: "tk_text (op_token t) = t" "tk_text (name_token t) = t"
  by (simp_all add: op_token_def name_token_def)

lemma Precedence_le: "PrecedenceOf t \<le> 4"
  by (auto simp: PrecedenceOf_def kLevels_def)

lemma Precedence_kEnd [simp]: "PrecedenceOf kEnd = 0"
  by (simp add: PrecedenceOf_def kLevels_def)

lemma Precedence_stops [simp]:
  "PrecedenceOf (punct '')'') = 0" "PrecedenceOf (punct '']'') = 0" "PrecedenceOf (punct '','') = 0"
  "PrecedenceOf (punct ''?'') = 0" "PrecedenceOf (punct '':'') = 0" "PrecedenceOf (punct ''..'') = 0"
  "PrecedenceOf (punct '';'') = 0"
  by (simp_all add: PrecedenceOf_def kLevels_def)

lemma Precedence_postfix:
  "PrecedenceOf (punct ''::'') = 0" "PrecedenceOf (punct ''.'') = 0"
  "PrecedenceOf (punct ''['') = 0" "PrecedenceOf (punct ''('') = 0"
  by (simp_all add: PrecedenceOf_def kLevels_def)

text \<open>What may follow an expression: no postfix, no operator the reader would go on with.\<close>

definition stop_postfix :: "token list \<Rightarrow> bool" where
  "stop_postfix ts \<longleftrightarrow> (\<forall>p \<in> {''::'', ''.'', ''['', ''(''}. \<not> IsPunctuation (head ts) p)"

definition stop_all :: "token list \<Rightarrow> bool" where
  "stop_all ts \<longleftrightarrow> stop_postfix ts \<and> PrecedenceOf (head ts) = 0 \<and> \<not> IsPunctuation (head ts) ''?''"

lemma stop_all_punct [simp]:
  "stop_all (punct '')'' # ts)" "stop_all (punct '']'' # ts)" "stop_all (punct '','' # ts)"
  "stop_all (punct '':'' # ts)" "stop_all (punct ''..'' # ts)" "stop_all (punct '';'' # ts)"
  "stop_all []"
  by (simp_all add: stop_all_def stop_postfix_def)

lemma stop_postfix_op:
  "0 < PrecedenceOf (op_token t) \<Longrightarrow> stop_postfix (op_token t # ts)"
  using Precedence_postfix by (auto simp: stop_postfix_def op_token_def)

section \<open>The first token of an expression\<close>

definition starter :: "token \<Rightarrow> bool" where
  "starter t \<longleftrightarrow> (tk_kind t = Punctuation \<longrightarrow> tk_text t \<in> {''('', ''['', ''-'', ''+''}) \<and>
     (tk_kind t = Identifier \<longrightarrow> map to_lower (tk_text t) \<notin> set reserved - {''not''})"

definition plain :: "token \<Rightarrow> bool" where
  "plain t \<longleftrightarrow> (tk_kind t = Punctuation \<longrightarrow> tk_text t \<in> {''('', ''[''}) \<and>
     (tk_kind t = Identifier \<longrightarrow> map to_lower (tk_text t) \<notin> set reserved)"

lemma plain_starter: "plain t \<Longrightarrow> starter t"
  by (auto simp: plain_def starter_def)

lemma plain_tokens [simp]:
  "plain (punct ''('')" "plain (punct ''['')" "plain (name_token t)"
  "k \<notin> {Punctuation, Identifier} \<Longrightarrow> plain (tok k t)"
  by (auto simp: plain_def name_token_def)

lemma lower_alpha: "to_lower c = CHR ''n'' \<Longrightarrow> is_alpha c"
  by (auto simp: to_lower_def is_alpha_def is_lower_def code_def split: if_splits)

lemma not_token: "map to_lower t = ''not'' \<Longrightarrow> op_token t = tok Identifier t"
  by (auto simp: op_token_def lower_alpha)

lemma sign_token [simp]: "op_token ''-'' = punct ''-''" "op_token ''+'' = punct ''+''"
  by (simp_all add: op_token_def char_class_defs)

lemma starter_unary:
  "map to_lower t = ''not'' \<or> t = ''-'' \<or> t = ''+'' \<Longrightarrow> starter (op_token t)"
  by (auto simp: starter_def not_token)

lemma show_brackets: "show_expr l e = brackets (level e < l) (show_expr 0 e)"
  by (cases e) (simp add: show_expr.simps [of _ "ex_kind e" "ex_text e" "ex_children e"] brackets_def
      show_expr.simps)

lemma show_above: "level e < l \<Longrightarrow> show_expr l e = punct ''('' # show_expr 0 e @ [punct '')'']"
  by (subst show_brackets) (simp add: brackets_def)

lemma show_below: "l \<le> level e \<Longrightarrow> show_expr l e = show_expr 0 e"
  by (subst show_brackets) (simp add: brackets_def)

lemma show_same: "(level e < l \<longleftrightarrow> level e < l') \<Longrightarrow> show_expr l e = show_expr l' e"
  using show_brackets [of l e] show_brackets [of l' e] by simp

lemma nest_bracket: "level e < l \<Longrightarrow> nest l e = nest 0 e"
  by (cases e) (simp add: nest.simps)

lemma nest_level:
  "0 < l \<Longrightarrow> l \<le> level e \<Longrightarrow> \<not> is_range e \<Longrightarrow> nest 0 e = 1 + nest l e"
  by (cases e) (auto simp: nest.simps)

lemma nest_same: "0 < l \<Longrightarrow> 0 < l' \<Longrightarrow> (level e < l \<longleftrightarrow> level e < l') \<Longrightarrow> nest l e = nest l' e"
  by (cases e) (auto simp: nest.simps)

lemma first_token:
  assumes "well_formed e"
  shows "\<exists>x xs. show_expr l e = x # xs \<and> starter x \<and> (6 \<le> l \<longrightarrow> plain x)"
  using assms
proof (induction e arbitrary: l)
  case (Expr k t es)
  show ?case
  proof (cases "level (Expr k t es) < l")
    case True
    then show ?thesis by (simp add: show_above plain_starter)
  next
    case False
    have base: "\<exists>x xs. show_expr l' b = x # xs \<and> starter x \<and> (6 \<le> l' \<longrightarrow> plain x)" if "b \<in> set es" for b l'
      using Expr that by (auto simp: well_formed.simps list_all_iff)
    have six: "6 \<le> base_level b" for b by (simp add: base_level_def)
    have prec: "PrecedenceOf (op_token t) < 6" using Precedence_le [of "op_token t"] by simp
    show ?thesis
      using False Expr.prems base [of "es ! 0" "base_level (es ! 0)"] six [of "es ! 0"]
        base [of "es ! 0" 1] base [of "es ! 0" "PrecedenceOf (op_token t)"] base [of "es ! 0" 0]
        prec starter_unary [of t]
      by (cases k)
        (auto simp: show_expr.simps well_formed.simps brackets_def plain_starter numeral_2_eq_2
          numeral_3_eq_3 length_Suc_conv neq_Nil_conv split: if_splits)
  qed
qed

section \<open>Reading back, level by level\<close>

text \<open>
  One statement per level of the grammar. Those of the levels with a loop (postfixes, binary
  operators) speak of the loop that goes on behind the expression, so that they can be chained.
\<close>

definition reads_ternary :: "Expr \<Rightarrow> bool" where
  "reads_ternary e \<longleftrightarrow> (\<forall>t d. d + nest 0 e \<le> 128 \<longrightarrow> stop_all t \<longrightarrow>
     yields (\<lambda>n. ReadTernary n (rd (show_expr 0 e @ t) d)) (e, rd t d))"

definition reads_chain :: "nat \<Rightarrow> Expr \<Rightarrow> bool" where
  "reads_chain l e \<longleftrightarrow> (\<forall>m t d x. m \<le> l \<longrightarrow> d + nest l e \<le> 128 \<longrightarrow> stop_postfix t \<longrightarrow>
     PrecedenceOf (head t) \<le> l \<longrightarrow> yields (\<lambda>n. ExpressionLoop n m e (rd t d)) x \<longrightarrow>
     yields (\<lambda>n. andThen (ReadUnary n (rd (show_expr l e @ t) d)) (\<lambda>(v, r). ExpressionLoop n m v r)) x)"

definition reads_unary :: "Expr \<Rightarrow> bool" where
  "reads_unary e \<longleftrightarrow> (\<forall>t d. d + nest 5 e \<le> 128 \<longrightarrow> stop_postfix t \<longrightarrow>
     yields (\<lambda>n. ReadUnary n (rd (show_expr 5 e @ t) d)) (e, rd t d))"

definition reads_postfix :: "nat \<Rightarrow> Expr \<Rightarrow> bool" where
  "reads_postfix l e \<longleftrightarrow> (\<forall>t d x. d + nest l e \<le> 128 \<longrightarrow>
     (ex_kind e = ScopeExpr \<longrightarrow> l = 6 \<longrightarrow> \<not> IsPunctuation (head t) ''.'') \<longrightarrow>
     yields (\<lambda>n. PostfixLoop n False e (rd t d)) x \<longrightarrow>
     yields (\<lambda>n. ReadPostfix n (rd (show_expr l e @ t) d)) x)"

definition reads_atom :: "Expr \<Rightarrow> bool" where
  "reads_atom e \<longleftrightarrow> (\<forall>t d. d + nest 7 e \<le> 128 \<longrightarrow>
     yields (\<lambda>n. ReadAtom n (rd (show_expr 7 e @ t) d)) (e, rd t d))"

definition reads_all :: "Expr \<Rightarrow> bool" where
  "reads_all e \<longleftrightarrow> reads_ternary e \<and> (\<forall>l. 1 \<le> l \<longrightarrow> l \<le> 5 \<longrightarrow> reads_chain l e) \<and> reads_unary e \<and>
     reads_postfix 6 e \<and> reads_postfix 7 e \<and> reads_atom e"

lemmas reads_defs = reads_ternary_def reads_chain_def reads_unary_def reads_postfix_def reads_atom_def

lemma reads_chainD:
  "reads_chain l e \<Longrightarrow> m \<le> l \<Longrightarrow> d + nest l e \<le> 128 \<Longrightarrow> stop_postfix t \<Longrightarrow>
   PrecedenceOf (head t) \<le> l \<Longrightarrow> yields (\<lambda>n. ExpressionLoop n m e (rd t d)) x \<Longrightarrow>
   yields (\<lambda>n. andThen (ReadUnary n (rd (show_expr l e @ t) d)) (\<lambda>(v, r). ExpressionLoop n m v r)) x"
  unfolding reads_chain_def by blast

lemma PostfixLoop_stops:
  "stop_postfix t \<Longrightarrow> yields (\<lambda>n. PostfixLoop n q e (rd t d)) (e, rd t d)"
  by (rule yields_const) (auto simp: expression_reader_simps stop_postfix_def)

lemma ExpressionLoop_stops:
  "PrecedenceOf (head t) < m \<Longrightarrow> yields (\<lambda>n. ExpressionLoop n m e (rd t d)) (e, rd t d)"
  by (rule yields_const) (auto simp: expression_reader_simps Let_def)

lemma ReadExpression_chain:
  assumes "reads_chain l e" "m \<le> l" "d + 1 + nest l e \<le> 128" "stop_postfix t" "PrecedenceOf (head t) < m"
  shows "yields (\<lambda>n. ReadExpression n m (rd (show_expr l e @ t) d)) (e, rd t d)"
proof -
  have "yields (\<lambda>n. andThen (ReadUnary n (rd (show_expr l e @ t) (d + 1))) (\<lambda>(v, r). ExpressionLoop n m v r))
      (e, rd t (d + 1))"
    using assms(1) [unfolded reads_chain_def, rule_format, of m "d + 1" t "(e, rd t (d + 1))"]
      assms(2-5) ExpressionLoop_stops [OF assms(5), of e "d + 1"] by simp
  then have reads: "yields (\<lambda>n. andThen (andThen (ReadUnary n (rd (show_expr l e @ t) (d + 1)))
      (\<lambda>(v, r). ExpressionLoop n m v r)) (\<lambda>(e, r2). Inr (e, Leave r2))) (e, rd t d)"
    by (rule yields_bind) (simp add: yields_ret)
  have eq: "ReadExpression (Suc n) m (rd (show_expr l e @ t) d) =
      andThen (andThen (ReadUnary n (rd (show_expr l e @ t) (d + 1)))
        (\<lambda>(v, r). ExpressionLoop n m v r)) (\<lambda>(e, r2). Inr (e, Leave r2))" for n
    using assms(3) by (simp add: ReadExpression.simps(2) kMaxDepth_def andThen_assoc case_prod_unfold)
  show ?thesis by (rule yields_step [OF eq reads])
qed

lemma chain_ternary:
  assumes "reads_chain 1 e" "1 \<le> level e" "\<not> is_range e"
  shows "reads_ternary e"
  unfolding reads_ternary_def
proof (intro allI impI)
  fix t d
  assume d: "d + nest 0 e \<le> 128" and t: "stop_all t"
  have "yields (\<lambda>n. ReadExpression n 1 (rd (show_expr 1 e @ t) d)) (e, rd t d)"
    using d t nest_level [of 1 e] assms
    by (intro ReadExpression_chain) (auto simp: stop_all_def)
  then have "yields (\<lambda>n. ReadExpression n 1 (rd (show_expr 0 e @ t) d)) (e, rd t d)"
    using show_below [OF assms(2)] by simp
  then have "yields (\<lambda>n. ReadTernary (Suc n) (rd (show_expr 0 e @ t) d)) (e, rd t d)"
    unfolding ReadTernary.simps(2) by (rule yields_bind) (use t in \<open>simp add: stop_all_def yields_ret\<close>)
  then show "yields (\<lambda>n. ReadTernary n (rd (show_expr 0 e @ t) d)) (e, rd t d)"
    by (rule yields_step [OF refl])
qed

lemma ternary_atom:
  assumes "reads_ternary e" "level e < 7"
  shows "reads_atom e"
  unfolding reads_atom_def
proof (intro allI impI)
  fix t d
  assume d: "d + nest 7 e \<le> 128"
  then have inner: "yields (\<lambda>n. ReadTernary n (rd (show_expr 0 e @ punct '')'' # t) d)) (e, rd (punct '')'' # t) d)"
    using assms by (simp add: reads_ternary_def nest_bracket)
  have eq: "ReadAtom (Suc n) (rd (show_expr 7 e @ t) d) =
      andThen (ReadTernary n (rd (show_expr 0 e @ punct '')'' # t) d))
        (\<lambda>(inner, r1). andThen (Expect '')'' r1) (\<lambda>r2. Inr (inner, r2)))" for n
    by (simp add: ReadAtom.simps(2) show_above [OF assms(2)])
  show "yields (\<lambda>n. ReadAtom n (rd (show_expr 7 e @ t) d)) (e, rd t d)"
    by (rule yields_andThen [OF eq inner]) (simp add: Expect_def yields_ret)
qed

lemma keyword_lower: "IsKeyword t w \<Longrightarrow> tk_kind t = Identifier \<and> map to_lower (tk_text t) = map to_lower w"
  by (simp add: IsKeyword_def)

lemma lower_words:
  "map to_lower ''Database'' = ''database''" "map to_lower ''not'' = ''not''"
  by code_simp+

lemma plain_database: "plain t \<Longrightarrow> \<not> IsKeyword t ''Database''"
  using keyword_lower [of t "''Database''"] unfolding lower_words plain_def
  by (auto simp: reserved_def)

lemma atom_postfix:
  assumes "reads_atom e" "level e \<noteq> 6 \<or> l = 7" "l = 6 \<or> l = 7" "well_formed e"
  shows "reads_postfix l e"
  unfolding reads_postfix_def
proof (intro allI impI)
  fix t d x
  assume d: "d + nest l e \<le> 128" and loop: "yields (\<lambda>n. PostfixLoop n False e (rd t d)) x"
  have same: "level e < l \<longleftrightarrow> level e < 7" using assms by auto
  from first_token [OF assms(4), of l] assms(3) obtain y ys where y: "show_expr l e = y # ys" "plain y" by auto
  have atom: "yields (\<lambda>n. ReadAtom n (rd (show_expr l e @ t) d)) (e, rd t d)"
    using assms(1,3) d nest_same [of l 7 e] show_same [of e l 7] same by (auto simp: reads_atom_def)
  have eq: "ReadPostfix (Suc n) (rd (show_expr l e @ t) d) =
      andThen (ReadAtom n (rd (show_expr l e @ t) d)) (\<lambda>(v, r). PostfixLoop n False v r)" for n
    using y plain_database [OF y(2)] by (simp add: expression_reader_simps)
  show "yields (\<lambda>n. ReadPostfix n (rd (show_expr l e @ t) d)) x"
    by (rule yields_andThen [OF eq atom]) (use loop in simp)
qed

lemma plain_prefix: "plain t \<Longrightarrow> \<not> IsKeyword t ''not'' \<and> \<not> IsPunctuation t ''-'' \<and> \<not> IsPunctuation t ''+''"
  using keyword_lower [of t "''not''"] unfolding lower_words plain_def
  by (auto simp: reserved_def IsPunctuation_def)

lemma postfix_unary:
  assumes "reads_postfix 6 e" "level e \<noteq> 5" "well_formed e"
  shows "reads_unary e"
  unfolding reads_unary_def
proof (intro allI impI)
  fix t d
  assume d: "d + nest 5 e \<le> 128" and t: "stop_postfix t"
  have same: "level e < 5 \<longleftrightarrow> level e < 6" using assms by auto
  have nest: "nest 5 e = nest 6 e" and shw: "show_expr 5 e = show_expr 6 e"
    using same by (auto intro: nest_same show_same)
  from first_token [OF assms(3), of 6] obtain y ys where y: "show_expr 6 e = y # ys" "plain y" by auto
  have "yields (\<lambda>n. ReadPostfix n (rd (show_expr 6 e @ t) d)) (e, rd t d)"
    using assms(1) d nest t PostfixLoop_stops [OF t, of False e d]
    by (auto simp: reads_postfix_def stop_postfix_def)
  then show "yields (\<lambda>n. ReadUnary n (rd (show_expr 5 e @ t) d)) (e, rd t d)"
    by (rule yields_step [rotated])
      (use shw y plain_prefix [OF y(2)] in \<open>auto simp: expression_reader_simps\<close>)
qed

lemma unary_chain:
  assumes "reads_unary e" "level e < l \<or> 5 \<le> level e" "1 \<le> l" "l \<le> 5"
  shows "reads_chain l e"
proof -
  have same: "level e < l \<longleftrightarrow> level e < 5" using assms(2,4) by auto
  have "nest l e = nest 5 e" "show_expr l e = show_expr 5 e"
    using same assms(3) by (auto intro: nest_same show_same)
  then show ?thesis
    using assms(1) unfolding reads_chain_def reads_unary_def
    by (auto intro!: yields_bind [where h = "\<lambda>n (v, r). ExpressionLoop n m v r" for m])
qed

text \<open>From the level an expression is written at without brackets to all the others.\<close>

lemma reads_all_atom:
  assumes "reads_atom e" "level e = 7" "well_formed e" "\<not> is_range e"
  shows "reads_all e"
proof -
  have post: "reads_postfix 6 e" "reads_postfix 7 e" using assms by (auto intro: atom_postfix)
  then have un: "reads_unary e" using assms by (auto intro: postfix_unary)
  then have chain: "reads_chain l e" if "1 \<le> l" "l \<le> 5" for l
    using assms(2) that by (auto intro: unary_chain)
  then have "reads_ternary e" using assms by (auto intro: chain_ternary)
  with post un chain assms show ?thesis by (simp add: reads_all_def)
qed

lemma reads_all_ternary:
  assumes "reads_ternary e" "level e < 5" "well_formed e"
    and low: "\<And>l. 1 \<le> l \<Longrightarrow> l \<le> level e \<Longrightarrow> reads_chain l e"
  shows "reads_all e"
proof -
  have atom: "reads_atom e" using assms by (auto intro: ternary_atom)
  then have post: "reads_postfix 6 e" "reads_postfix 7 e" using assms by (auto intro: atom_postfix)
  then have un: "reads_unary e" using assms by (auto intro: postfix_unary)
  have chain: "reads_chain l e" if "1 \<le> l" "l \<le> 5" for l
    using that low unary_chain [OF un _ that] by (cases "level e < l") auto
  with post un chain atom assms show ?thesis by (simp add: reads_all_def)
qed

lemma reads_all_unary:
  assumes "reads_unary e" "level e = 5" "well_formed e" "\<not> is_range e"
  shows "reads_all e"
proof -
  have chain: "reads_chain l e" if "1 \<le> l" "l \<le> 5" for l
    using assms that by (auto intro: unary_chain)
  then have tern: "reads_ternary e" using assms by (auto intro: chain_ternary)
  then have atom: "reads_atom e" using assms by (auto intro: ternary_atom)
  then have post: "reads_postfix 6 e" "reads_postfix 7 e" using assms by (auto intro: atom_postfix)
  with tern chain atom assms show ?thesis by (simp add: reads_all_def)
qed

lemma reads_all_postfix:
  assumes "reads_postfix 6 e" "level e = 6" "well_formed e" "\<not> is_range e"
  shows "reads_all e"
proof -
  have un: "reads_unary e" using assms by (auto intro: postfix_unary)
  then have chain: "reads_chain l e" if "1 \<le> l" "l \<le> 5" for l
    using assms(2) that by (auto intro: unary_chain)
  then have tern: "reads_ternary e" using assms by (auto intro: chain_ternary)
  then have atom: "reads_atom e" using assms by (auto intro: ternary_atom)
  then have "reads_postfix 7 e" using assms by (auto intro: atom_postfix)
  with un tern chain atom assms show ?thesis by (simp add: reads_all_def)
qed

lemma reads_all_chain:
  assumes "\<And>l. 1 \<le> l \<Longrightarrow> l \<le> level e \<Longrightarrow> reads_chain l e" "1 \<le> level e" "level e < 5"
    "well_formed e" "\<not> is_range e"
  shows "reads_all e"
  using assms by (auto intro!: reads_all_ternary chain_ternary)

section \<open>Lists of expressions\<close>

lemma separated_Cons:
  "separated (x # xs) = x @ (if xs = [] then [] else punct '','' # separated xs)"
  by (cases xs) auto

lemma foldr_max_ge: "e \<in> set es \<Longrightarrow> (f e :: nat) \<le> foldr max (map f es) 0"
  by (induction es) auto

lemma SkipComma_separated:
  assumes "\<not> IsPunctuation c '',''"
  shows "SkipComma (rd ((if es = [] then [] else punct '','' # separated es) @ c # t) d) =
    rd (separated es @ c # t) d"
  using assms by (auto simp: SkipComma_def)

lemma starter_closes:
  "starter x \<Longrightarrow> \<not> IsPunctuation x '']''" "starter x \<Longrightarrow> \<not> IsPunctuation x '')''"
  by (auto simp: starter_def IsPunctuation_def)

lemma stop_all_separated:
  assumes "stop_all (c # t)"
  shows "stop_all ((if es = [] then [] else punct '','' # ts) @ c # t)"
  using assms by auto

lemma ArgumentsLoop_reads:
  assumes "closing \<in> {'']'', '')''}" "\<forall>e \<in> set es. well_formed e \<and> reads_ternary e \<and> d + nest 0 e \<le> 128"
  shows "yields (\<lambda>n. ArgumentsLoop n closing acc (rd (separated (map (show_expr 0) es) @ punct closing # t) d))
    (acc @ es, rd t d)"
  using assms(2)
proof (induction es arbitrary: acc)
  case Nil
  show ?case
    using assms(1) by (intro yields_const) (auto simp: ArgumentsLoop.simps(2) Expect_def)
next
  case (Cons e es)
  let ?more = "if map (show_expr 0) es = [] then [] else punct '','' # separated (map (show_expr 0) es)"
  from Cons.prems obtain y ys where y: "show_expr 0 e = y # ys" "starter y"
    using first_token [of e 0] by auto
  have stop: "stop_all (?more @ punct closing # t)"
    using assms(1) by (intro stop_all_separated) auto
  have eq: "ArgumentsLoop (Suc n) closing acc (rd (show_expr 0 e @ ?more @ punct closing # t) d) =
      andThen (ReadTernary n (rd (show_expr 0 e @ ?more @ punct closing # t) d))
        (\<lambda>(e, r1). ArgumentsLoop n closing (acc @ [e]) (SkipComma r1))" for n
    using y starter_closes [OF y(2)] assms(1) by (auto simp: ArgumentsLoop.simps(2))
  have e: "yields (\<lambda>n. ReadTernary n (rd (show_expr 0 e @ ?more @ punct closing # t) d))
      (e, rd (?more @ punct closing # t) d)"
    using Cons.prems stop by (auto simp: reads_ternary_def)
  have "SkipComma (rd (?more @ punct closing # t) d) = rd (separated (map (show_expr 0) es) @ punct closing # t) d"
    using assms(1) by (intro SkipComma_separated) auto
  then have "yields (\<lambda>n. ArgumentsLoop n closing acc (rd (show_expr 0 e @ ?more @ punct closing # t) d))
      (acc @ e # es, rd t d)"
    using Cons.IH [of "acc @ [e]"] Cons.prems by (intro yields_andThen [OF eq e]) simp
  then show ?case by (simp add: separated_Cons)
qed

definition reads_item :: "Expr \<Rightarrow> bool" where
  "reads_item e \<longleftrightarrow>
     (if is_range e then \<exists>a b. e = Expr RangeExpr [] [a, b] \<and> reads_ternary a \<and> reads_ternary b
      else reads_ternary e)"

lemma show_range: "show_expr 0 (Expr RangeExpr [] [a, b]) = show_expr 0 a @ punct ''..'' # show_expr 0 b"
  by (simp add: show_expr.simps brackets_def)

lemma SetLoop_reads:
  assumes "\<forall>e \<in> set es. well_formed e \<and> reads_item e \<and> d + nest 0 e \<le> 128"
  shows "yields (\<lambda>n. SetLoop n acc (rd (separated (map (show_expr 0) es) @ punct '']'' # t) d))
    (acc @ es, rd t d)"
  using assms
proof (induction es arbitrary: acc)
  case Nil
  show ?case by (intro yields_const) (auto simp: SetLoop.simps(2) Expect_def)
next
  case (Cons e es)
  obtain R where R: "R = (if es = [] then [] else punct '','' # separated (map (show_expr 0) es)) @ punct '']'' # t"
    by blast
  from Cons.prems obtain y ys where y: "show_expr 0 e = y # ys" "starter y"
    using first_token [of e 0] by auto
  have stop: "stop_all R" and dots: "\<not> IsPunctuation (head R) ''..''"
    by (auto simp: R)
  have skip: "SkipComma (rd R d) = rd (separated (map (show_expr 0) es) @ punct '']'' # t) d"
    using SkipComma_separated [of "punct '']''" "map (show_expr 0) es" t d] by (simp add: R)
  have rest: "yields (\<lambda>n. SetLoop n (acc @ [e]) (SkipComma (rd R d))) (acc @ e # es, rd t d)"
    using Cons.IH [of "acc @ [e]"] Cons.prems skip by simp
  have eq: "SetLoop (Suc n) acc (rd (show_expr 0 e @ R) d) =
      andThen (ReadTernary n (rd (show_expr 0 e @ R) d)) (\<lambda>(item, r1).
          if AtPunctuation ''..'' r1 then
            andThen (ReadTernary n (AdvanceToken r1)) (\<lambda>(upper, r2).
              SetLoop n (acc @ [Expr RangeExpr [] [item, upper]]) (SkipComma r2))
          else SetLoop n (acc @ [item]) (SkipComma r1))" for n
    using y starter_closes [OF y(2)] by (simp add: SetLoop.simps(2))
  have "yields (\<lambda>n. SetLoop n acc (rd (show_expr 0 e @ R) d)) (acc @ e # es, rd t d)"
  proof (cases "is_range e")
    case True
    with Cons.prems obtain a b where e: "e = Expr RangeExpr [] [a, b]" "reads_ternary a" "reads_ternary b"
      by (auto simp: reads_item_def)
    have d: "d + nest 0 a \<le> 128" "d + nest 0 b \<le> 128" using Cons.prems e(1) by (auto simp: nest.simps)
    have a: "yields (\<lambda>n. ReadTernary n (rd (show_expr 0 e @ R) d)) (a, rd (punct ''..'' # show_expr 0 b @ R) d)"
      using e d by (simp add: show_range reads_ternary_def)
    have b: "yields (\<lambda>n. ReadTernary n (rd (show_expr 0 b @ R) d)) (b, rd R d)"
      using e d stop by (simp add: reads_ternary_def)
    have "yields (\<lambda>n. andThen (ReadTernary n (rd (show_expr 0 b @ R) d)) (\<lambda>(upper, r2).
        SetLoop n (acc @ [Expr RangeExpr [] [a, upper]]) (SkipComma r2))) (acc @ e # es, rd t d)"
      by (rule yields_bind [OF b]) (use rest e in simp)
    then show ?thesis by - (rule yields_step, rule eq, rule yields_bind [OF a], simp)
  next
    case False
    then have e: "yields (\<lambda>n. ReadTernary n (rd (show_expr 0 e @ R) d)) (e, rd R d)"
      using Cons.prems stop by (simp add: reads_ternary_def reads_item_def)
    show ?thesis by (rule yields_step, rule eq, rule yields_bind [OF e], simp add: rest dots)
  qed
  then show ?case by (simp add: separated_Cons R)
qed

section \<open>Every kind of expression\<close>

lemma atom_kinds:
  "reads_atom (Expr StringLiteral t [])" "reads_atom (Expr NumberLiteral t [])"
  "reads_atom (Expr TemporalLiteral t [])" "reads_atom (Expr NameExpr t [])"
  by (auto simp: reads_atom_def show_expr.simps brackets_def name_token_def ReadAtom.simps(2) Atom_def
      intro!: yields_const)

lemma atom_set:
  assumes "\<forall>e \<in> set es. well_formed e \<and> reads_item e"
  shows "reads_atom (Expr SetExpr [] es)"
  unfolding reads_atom_def
proof (intro allI impI)
  fix t d
  assume d: "d + nest 7 (Expr SetExpr [] es) \<le> 128"
  let ?ts = "separated (map (show_expr 0) es) @ punct '']'' # t"
  have "d + nest 0 e \<le> 128" if "e \<in> set es" for e
    using that d foldr_max_ge [of e es "nest 0"] by (cases es) (auto simp: nest.simps)
  with assms have set_loop: "yields (\<lambda>n. SetLoop n [] (rd ?ts d)) ([] @ es, rd t d)"
    by (intro SetLoop_reads) auto
  have eq: "ReadAtom (Suc n) (rd (show_expr 7 (Expr SetExpr [] es) @ t) d) =
      andThen (SetLoop n [] (rd ?ts d)) (\<lambda>(children, r1). Inr (Expr SetExpr [] children, r1))" for n
    by (simp add: ReadAtom.simps(2) show_expr.simps brackets_def)
  show "yields (\<lambda>n. ReadAtom n (rd (show_expr 7 (Expr SetExpr [] es) @ t) d)) (Expr SetExpr [] es, rd t d)"
    by (rule yields_step, rule eq, rule yields_bind [OF set_loop]) (simp add: yields_ret)
qed

lemma base_reads: "reads_all b \<Longrightarrow> reads_postfix (base_level b) b"
  by (simp add: reads_all_def base_level_def)

text \<open>A postfix behind its base: what is left is a step of the loop.\<close>

lemma postfix_kinds:
  assumes "reads_all b" "show_expr 6 e = show_expr (base_level b) b @ ts"
    and "nest (base_level b) b \<le> nest 6 e" "ts \<noteq> []"
    and step: "\<And>t d x. d + nest 6 e \<le> 128 \<Longrightarrow> (ex_kind e = ScopeExpr \<Longrightarrow> \<not> IsPunctuation (head t) ''.'') \<Longrightarrow>
      yields (\<lambda>n. PostfixLoop n False e (rd t d)) x \<Longrightarrow>
      yields (\<lambda>n. PostfixLoop n False b (rd (ts @ t) d)) x"
  shows "reads_postfix 6 e"
  unfolding reads_postfix_def
proof (intro allI impI)
  fix t d x
  assume d: "d + nest 6 e \<le> 128"
    and dot: "ex_kind e = ScopeExpr \<longrightarrow> 6 = (6 :: nat) \<longrightarrow> \<not> IsPunctuation (head t) ''.''"
    and loop: "yields (\<lambda>n. PostfixLoop n False e (rd t d)) x"
  have "yields (\<lambda>n. PostfixLoop n False b (rd (ts @ t) d)) x" using step d dot loop by blast
  then show "yields (\<lambda>n. ReadPostfix n (rd (show_expr 6 e @ t) d)) x"
    using base_reads [OF assms(1), unfolded reads_postfix_def, rule_format, of d "ts @ t" x] d assms(2,3)
    by (auto simp: base_level_def split: if_splits)
qed

lemma postfix_call:
  assumes "reads_all b" "\<forall>e \<in> set es. well_formed e \<and> reads_ternary e"
    and "(k, opening, closing) \<in> {(CallExpr, ''('', '')''), (IndexExpr, ''['', '']'')}"
  shows "reads_postfix 6 (Expr k [] (b # es))"
proof (rule postfix_kinds [OF assms(1)])
  let ?e = "Expr k [] (b # es)"
  show "show_expr 6 ?e = show_expr (base_level b) b @
      punct opening # separated (map (show_expr 0) es) @ [punct closing]"
    using assms(3) by (auto simp: show_expr.simps brackets_def)
  have nest: "nest 6 ?e = max (nest (base_level b) b) (foldr max (map (nest 0) es) 0)"
    using assms(3) by (auto simp: nest.simps)
  then show "nest (base_level b) b \<le> nest 6 ?e" by simp
  fix t d x
  assume d: "d + nest 6 ?e \<le> 128" and loop: "yields (\<lambda>n. PostfixLoop n False ?e (rd t d)) x"
  let ?ts = "separated (map (show_expr 0) es) @ punct closing # t"
  have "d + nest 0 e \<le> 128" if "e \<in> set es" for e
    using that d foldr_max_ge [of e es "nest 0"] nest by simp
  with assms have args: "yields (\<lambda>n. ArgumentsLoop n closing [b] (rd ?ts d)) ([b] @ es, rd t d)"
    by (intro ArgumentsLoop_reads) auto
  have eq: "PostfixLoop (Suc n) False b (rd (punct opening # ?ts) d) =
      andThen (ArgumentsLoop n closing [b] (rd ?ts d)) (\<lambda>(children, r1).
        PostfixLoop n False (Expr k [] children) r1)" for n
    using assms(3) by (auto simp: PostfixLoop.simps(2))
  have "yields (\<lambda>n. PostfixLoop n False b (rd (punct opening # ?ts) d)) x"
    by (rule yields_step, rule eq, rule yields_bind [OF args]) (use loop in simp)
  then show "yields (\<lambda>n. PostfixLoop n False b
      (rd ((punct opening # separated (map (show_expr 0) es) @ [punct closing]) @ t) d)) x" by simp
qed simp

lemma postfix_scope:
  assumes "reads_all b"
  shows "reads_postfix 6 (Expr ScopeExpr s [b])"
proof (rule postfix_kinds [OF assms])
  let ?e = "Expr ScopeExpr s [b]"
  show "show_expr 6 ?e = show_expr (base_level b) b @ [punct ''::'', name_token s]"
    by (simp add: show_expr.simps brackets_def)
  show "nest (base_level b) b \<le> nest 6 ?e" by (simp add: nest.simps)
  fix t d x
  assume dot: "ex_kind ?e = ScopeExpr \<Longrightarrow> \<not> IsPunctuation (head t) ''.''"
    and loop: "yields (\<lambda>n. PostfixLoop n False ?e (rd t d)) x"
  have eq: "PostfixLoop (Suc n) False b (rd (punct ''::'' # name_token s # t) d) = PostfixLoop n False ?e (rd t d)" for n
    using dot by (simp add: PostfixLoop.simps(2) ReadScope_def Let_def ScopeLoop.simps [of False s "rd t d"])
  show "yields (\<lambda>n. PostfixLoop n False b (rd ([punct ''::'', name_token s] @ t) d)) x"
    by (rule yields_step [OF _ loop]) (simp add: eq)
qed simp

lemma postfix_member:
  assumes "reads_all b"
  shows "reads_postfix 6 (Expr BinaryExpr ''.'' [b, Expr NameExpr m []])"
proof (rule postfix_kinds [OF assms])
  let ?e = "Expr BinaryExpr ''.'' [b, Expr NameExpr m []]"
  show "show_expr 6 ?e = show_expr (base_level b) b @ [punct ''.'', name_token m]"
    by (simp add: show_expr.simps brackets_def)
  show "nest (base_level b) b \<le> nest 6 ?e" by (simp add: nest.simps)
  fix t d x
  assume loop: "yields (\<lambda>n. PostfixLoop n False ?e (rd t d)) x"
  have eq: "PostfixLoop (Suc n) False b (rd (punct ''.'' # name_token m # t) d) = PostfixLoop n False ?e (rd t d)" for n
    by (simp add: PostfixLoop.simps(2) Let_def)
  show "yields (\<lambda>n. PostfixLoop n False b (rd ([punct ''.'', name_token m] @ t) d)) x"
    by (rule yields_step [OF _ loop]) (simp add: eq)
qed simp

lemma unary_kind:
  assumes "reads_unary a" "map to_lower s = ''not'' \<or> s = ''-'' \<or> s = ''+''"
  shows "reads_unary (Expr UnaryExpr s [a])"
  unfolding reads_unary_def
proof (intro allI impI)
  fix t d
  assume d: "d + nest 5 (Expr UnaryExpr s [a]) \<le> 128" and t: "stop_postfix t"
  have a: "yields (\<lambda>n. ReadUnary n (rd (show_expr 5 a @ t) d)) (a, rd t d)"
    using assms(1) d t by (auto simp: reads_unary_def nest.simps)
  have at: "IsKeyword (op_token s) ''not'' \<or> IsPunctuation (op_token s) ''-'' \<or> IsPunctuation (op_token s) ''+''"
    using assms(2)
  proof (elim disjE)
    assume "map to_lower s = ''not''"
    then show ?thesis using not_token [of s] lower_words(2) by (metis keyword_tok)
  qed simp_all
  have eq: "ReadUnary (Suc n) (rd (show_expr 5 (Expr UnaryExpr s [a]) @ t) d) =
      andThen (ReadUnary n (rd (show_expr 5 a @ t) d)) (\<lambda>(e, r1). Inr (Expr UnaryExpr s [e], r1))" for n
    using at by (simp add: ReadUnary.simps(2) show_expr.simps [of _ UnaryExpr] brackets_def)
  show "yields (\<lambda>n. ReadUnary n (rd (show_expr 5 (Expr UnaryExpr s [a]) @ t) d)) (Expr UnaryExpr s [a], rd t d)"
    by (rule yields_step, rule eq, rule yields_bind [OF a]) (simp add: yields_ret)
qed

lemma Precedence_punct: "PrecedenceOf (op_token ''?:'') = 0" "PrecedenceOf (op_token ''.'') = 0"
  by (simp_all add: op_token_def PrecedenceOf_def kLevels_def char_class_defs)

lemma binary_kind:
  assumes "reads_all a" "reads_all b" "1 \<le> l" "l \<le> PrecedenceOf (op_token s)"
  shows "reads_chain l (Expr BinaryExpr s [a, b])"
  unfolding reads_chain_def
proof (intro allI impI)
  fix m t d x
  let ?e = "Expr BinaryExpr s [a, b]" and ?p = "PrecedenceOf (op_token s)"
  assume m: "m \<le> l" and d: "d + nest l ?e \<le> 128" and t: "stop_postfix t" "PrecedenceOf (head t) \<le> l"
    and loop: "yields (\<lambda>n. ExpressionLoop n m ?e (rd t d)) x"
  have s: "s \<noteq> ''?:''" "s \<noteq> ''.''" using assms(3,4) Precedence_punct by auto
  have p: "1 \<le> ?p" "?p \<le> 4" using assms Precedence_le [of "op_token s"] by auto
  have shw: "show_expr l ?e = show_expr ?p a @ op_token s # show_expr (?p + 1) b"
    using assms(4) s by (simp add: show_expr.simps [of _ BinaryExpr] brackets_def)
  have nest: "nest l ?e = max (nest ?p a) (1 + nest (?p + 1) b)"
    using assms(3,4) s by (simp add: nest.simps [of _ BinaryExpr])
  have b: "yields (\<lambda>n. ReadExpression n (?p + 1) (rd (show_expr (?p + 1) b @ t) d)) (b, rd t d)"
    using assms p d nest t by (intro ReadExpression_chain) (auto simp: reads_all_def)
  have eq: "ExpressionLoop (Suc n) m a (rd (op_token s # show_expr (?p + 1) b @ t) d) =
      andThen (ReadExpression n (?p + 1) (rd (show_expr (?p + 1) b @ t) d)) (\<lambda>(right, r1).
        ExpressionLoop n m (Expr BinaryExpr s [a, right]) r1)" for n
    using p m assms(4) by (simp add: ExpressionLoop.simps(2) Let_def)
  have "yields (\<lambda>n. ExpressionLoop n m a (rd (op_token s # show_expr (?p + 1) b @ t) d)) x"
    by (rule yields_step, rule eq, rule yields_bind [OF b]) (use loop in simp)
  moreover have "reads_chain ?p a" using assms(1) p by (simp add: reads_all_def)
  ultimately have "yields (\<lambda>n. andThen (ReadUnary n (rd (show_expr ?p a @ op_token s # show_expr (?p + 1) b @ t) d))
      (\<lambda>(v, r). ExpressionLoop n m v r)) x"
    using m assms(4) d nest stop_postfix_op [of s] p by (intro reads_chainD) auto
  then show "yields (\<lambda>n. andThen (ReadUnary n (rd (show_expr l ?e @ t) d)) (\<lambda>(v, r). ExpressionLoop n m v r)) x"
    by (simp add: shw)
qed

lemma ternary_kind:
  assumes "reads_all c" "reads_all a" "reads_all b"
  shows "reads_ternary (Expr BinaryExpr ''?:'' [c, a, b])"
  unfolding reads_ternary_def
proof (intro allI impI)
  fix t d
  let ?e = "Expr BinaryExpr ''?:'' [c, a, b]"
  let ?then = "show_expr 0 a @ punct '':'' # show_expr 0 b @ t"
  assume d: "d + nest 0 ?e \<le> 128" and t: "stop_all t"
  have nest: "nest 0 ?e = max (1 + nest 1 c) (max (nest 0 a) (nest 0 b))"
    by (simp add: nest.simps [of _ BinaryExpr])
  have q: "stop_postfix (punct ''?'' # ?then)" by (simp add: stop_postfix_def)
  have c: "yields (\<lambda>n. ReadExpression n 1 (rd (show_expr 1 c @ punct ''?'' # ?then) d)) (c, rd (punct ''?'' # ?then) d)"
    using assms d nest q by (intro ReadExpression_chain) (auto simp: reads_all_def)
  have a: "yields (\<lambda>n. ReadTernary n (rd ?then d)) (a, rd (punct '':'' # show_expr 0 b @ t) d)"
    using assms d nest by (auto simp: reads_all_def reads_ternary_def)
  have b: "yields (\<lambda>n. ReadTernary n (rd (show_expr 0 b @ t) d)) (b, rd t d)"
    using assms d nest t by (auto simp: reads_all_def reads_ternary_def)
  have b': "yields (\<lambda>n. andThen (ReadTernary n (rd (show_expr 0 b @ t) d))
      (\<lambda>(whenFalse, r3). Inr (Expr BinaryExpr ''?:'' [c, a, whenFalse], r3))) (?e, rd t d)"
    by (rule yields_bind [OF b]) (simp add: yields_ret)
  have ab: "yields (\<lambda>n. andThen (ReadTernary n (rd ?then d)) (\<lambda>(whenTrue, r2).
         if \<not> AtPunctuation '':'' r2 then Inl (ParseError (''a conditional expression needs its '' @ [quote_char, CHR '':'', quote_char]))
         else andThen (ReadTernary n (AdvanceToken r2)) (\<lambda>(whenFalse, r3).
           Inr (Expr BinaryExpr ''?:'' [c, whenTrue, whenFalse], r3)))) (?e, rd t d)"
    by (rule yields_bind [OF a]) (use b' in simp)
  have "yields (\<lambda>n. ReadTernary (Suc n) (rd (show_expr 1 c @ punct ''?'' # ?then) d)) (?e, rd t d)"
    unfolding ReadTernary.simps(2) by (rule yields_bind [OF c]) (use ab in simp)
  then have "yields (\<lambda>n. ReadTernary n (rd (show_expr 1 c @ punct ''?'' # ?then) d)) (?e, rd t d)"
    by (rule yields_step [OF refl])
  then show "yields (\<lambda>n. ReadTernary n (rd (show_expr 0 ?e @ t) d)) (?e, rd t d)"
    by (simp add: show_expr.simps [of _ BinaryExpr] brackets_def)
qed

lemma reads_well_formed:
  "well_formed e \<Longrightarrow> (if is_range e then reads_item e else reads_all e)"
proof (induction e)
  case (Expr k s es)
  let ?e = "Expr k s es"
  have item: "reads_item e" if "e \<in> set es" for e
    using Expr.IH [OF that] Expr.prems that
    by (auto simp: well_formed.simps list_all_iff reads_item_def reads_all_def split: if_splits)
  have wf: "well_formed e" if "e \<in> set es" for e
    using Expr.prems that by (auto simp: well_formed.simps list_all_iff)
  have all: "reads_all e" if "e \<in> set es" "k \<noteq> SetExpr" for e
    using Expr.IH [OF that(1)] Expr.prems that
    by (auto simp: well_formed.simps list_all_iff split: if_splits)
  have tern: "reads_ternary e" if "e \<in> set es" "k \<noteq> SetExpr" for e
    using all [OF that] by (simp add: reads_all_def)
  have binary: "reads_all ?e" if k: "k = BinaryExpr"
  proof -
    consider (cond) c a b where "s = ''?:''" "es = [c, a, b]"
      | (member) b m where "s = ''.''" "es = [b, Expr NameExpr m []]"
      | (op) a b where "0 < PrecedenceOf (op_token s)" "es = [a, b]"
      using Expr.prems k
      by (auto simp: well_formed.simps numeral_2_eq_2 numeral_3_eq_3 length_Suc_conv)
    then show ?thesis
    proof cases
      case cond
      then show ?thesis
        using all k Expr.prems by (intro reads_all_ternary) (auto intro!: ternary_kind)
    next
      case member
      then show ?thesis
        using all k Expr.prems by (intro reads_all_postfix) (auto intro!: postfix_member)
    next
      case op
      then have "s \<noteq> ''?:''" "s \<noteq> ''.''" using Precedence_punct by auto
      then show ?thesis
        using op all k Expr.prems Precedence_le [of "op_token s"]
        by (intro reads_all_chain) (auto intro!: binary_kind)
    qed
  qed
  show ?case
  proof (cases k)
    case UnaryExpr
    then obtain a where es: "es = [a]" and prefix: "map to_lower s = ''not'' \<or> s = ''-'' \<or> s = ''+''"
      using Expr.prems by (fastforce simp: well_formed.simps length_Suc_conv)
    have "reads_unary a" using all [of a] es UnaryExpr by (simp add: reads_all_def)
    then have "reads_unary ?e" unfolding UnaryExpr es using prefix by (rule unary_kind)
    then show ?thesis using UnaryExpr Expr.prems by (auto intro: reads_all_unary)
  next
    case SetExpr
    then show ?thesis
      using item wf Expr.prems by (auto simp: well_formed.simps intro!: reads_all_atom atom_set)
  next
    case ScopeExpr
    then obtain b where es: "es = [b]" using Expr.prems by (auto simp: well_formed.simps length_Suc_conv)
    have "reads_postfix 6 (Expr k s es)"
      unfolding es ScopeExpr using all [of b] es ScopeExpr by (intro postfix_scope) auto
    then show ?thesis using ScopeExpr Expr.prems by (auto intro!: reads_all_postfix)
  next
    case CallExpr
    then obtain b as where es: "es = b # as" "s = []"
      using Expr.prems by (auto simp: well_formed.simps neq_Nil_conv)
    have "reads_postfix 6 (Expr k s es)"
      unfolding es by (rule postfix_call) (use CallExpr es all tern wf in auto)
    then show ?thesis using CallExpr Expr.prems by (auto intro!: reads_all_postfix)
  next
    case IndexExpr
    then obtain b as where es: "es = b # as" "s = []"
      using Expr.prems by (auto simp: well_formed.simps neq_Nil_conv)
    have "reads_postfix 6 (Expr k s es)"
      unfolding es by (rule postfix_call) (use IndexExpr es all tern wf in auto)
    then show ?thesis using IndexExpr Expr.prems by (auto intro!: reads_all_postfix)
  next
    case RangeExpr
    then show ?thesis
      using tern Expr.prems
      by (auto simp: well_formed.simps reads_item_def numeral_2_eq_2 length_Suc_conv)
  qed (use Expr.prems binary atom_kinds in \<open>auto simp: well_formed.simps intro!: reads_all_atom\<close>)
qed

section \<open>The entry points\<close>

lemma Ternary_never_fuel: "Ternary r \<noteq> Inl ParseFuel"
  unfolding Ternary_def expression_fuel_def by (rule expression_enough_fuel) simp

lemma Postfix_never_fuel: "Postfix r \<noteq> Inl ParseFuel"
  unfolding Postfix_def expression_fuel_def by (rule expression_enough_fuel) simp

lemma Ternary_yields: "yields (\<lambda>n. ReadTernary n r) x \<Longrightarrow> Ternary r = Inr x"
  using Ternary_never_fuel [of r] unfolding Ternary_def
  by (rule yields_fuel [of "\<lambda>n. ReadTernary n r" x ParseFuel, rotated 2]) (auto intro: expression_fuel_step)

lemma Postfix_yields: "yields (\<lambda>n. ReadPostfix n r) x \<Longrightarrow> Postfix r = Inr x"
  using Postfix_never_fuel [of r] unfolding Postfix_def
  by (rule yields_fuel [of "\<lambda>n. ReadPostfix n r" x ParseFuel, rotated 2]) (auto intro: expression_fuel_step)

text \<open>An expression a statement may hold: well formed, and within the nesting limit.\<close>

definition fits :: "Expr \<Rightarrow> bool" where
  "fits e \<longleftrightarrow> well_formed e \<and> \<not> is_range e \<and> nest 0 e \<le> kMaxDepth"

lemma Ternary_reads:
  assumes "well_formed e" "\<not> is_range e" "d + nest 0 e \<le> 128" "stop_all t"
  shows "Ternary (rd (show_expr 0 e @ t) d) = Inr (e, rd t d)"
  using reads_well_formed [OF assms(1)] assms(2-4)
  by (intro Ternary_yields) (auto simp: reads_all_def reads_ternary_def)

lemma Ternary_fits: "fits e \<Longrightarrow> stop_all t \<Longrightarrow> Ternary (rd (show_expr 0 e @ t) 0) = Inr (e, rd t 0)"
  by (intro Ternary_reads) (auto simp: fits_def kMaxDepth_def)

lemma Postfix_reads:
  assumes "well_formed e" "\<not> is_range e" "d + nest 6 e \<le> 128" "stop_postfix t"
  shows "Postfix (rd (show_expr 6 e @ t) d) = Inr (e, rd t d)"
proof (rule Postfix_yields)
  have "reads_postfix 6 e" using reads_well_formed [OF assms(1)] assms(2) by (simp add: reads_all_def)
  then show "yields (\<lambda>n. ReadPostfix n (rd (show_expr 6 e @ t) d)) (e, rd t d)"
    using assms(3,4) PostfixLoop_stops [OF assms(4), of False e d]
    by (auto simp: reads_postfix_def stop_postfix_def)
qed

text \<open>An opening bracket at the limit: \<open>5 * n + 3\<close> units of fuel reach it.\<close>

lemma deep_brackets:
  assumes "kMaxDepth \<le> d + n" "5 * n + 3 \<le> k"
  shows "ReadTernary k (rd (replicate n (punct ''('') @ t) d) =
    Inl (ParseError ''an expression nests too deeply'')"
  using assms
proof (induction n arbitrary: d k)
  case 0
  then obtain j where "k = Suc (Suc j)" by (cases k; cases "k - 1") auto
  with 0 show ?case by (simp add: ReadTernary.simps(2) ReadExpression.simps(2))
next
  case (Suc n)
  then obtain j where k: "k = Suc (Suc (Suc (Suc (Suc j))))" and j: "5 * n + 3 \<le> j"
    by (cases k; cases "k - 1"; cases "k - 2"; cases "k - 3"; cases "k - 4") auto
  show ?case
  proof (cases "kMaxDepth \<le> d")
    case True
    then show ?thesis by (simp add: k ReadTernary.simps(2) ReadExpression.simps(2))
  next
    case False
    have "ReadTernary j (rd (replicate n (punct ''('') @ t) (d + 1)) =
        Inl (ParseError ''an expression nests too deeply'')"
      using Suc.prems j by (intro Suc.IH) auto
    then show ?thesis
      using False by (simp add: k ReadTernary.simps(2) ReadExpression.simps(2) ReadUnary.simps(2)
          ReadPostfix.simps(2) ReadAtom.simps(2))
  qed
qed

section \<open>Properties\<close>

text \<open>
  C2: reading an expression back: every well-formed tree, written with the parentheses the
  precedences ask for and nesting at most 128 deep, is read back as the same tree, whatever
  follows it that cannot go on an expression. So the precedence-climbing loop groups operators
  by \<open>kLevels\<close> and to the left, prefixes bind tighter than operators and postfixes tighter
  than prefixes, and the conditional is the loosest and groups to the right.
\<close>

theorem expression_roundtrip:
  assumes "well_formed e" "\<not> is_range e" "d + nest 0 e \<le> kMaxDepth" "stop_all t"
  shows "Ternary (rd (show_expr 0 e @ t) d) = Inr (e, rd t d)"
  using Ternary_reads assms by (simp add: kMaxDepth_def)

text \<open>The tree of \<^verbatim>\<open>not a.b(1, -c) and (x = y ? [1..5] : z) - u - v\<close>.\<close>

abbreviation sample_expr :: Expr where
  "sample_expr \<equiv>
     (let n = \<lambda>s. Expr NameExpr s []; lit = \<lambda>s. Expr NumberLiteral s [];
          binary = \<lambda>s a b. Expr BinaryExpr s [a, b] in
      binary ''-''
       (binary ''-''
         (binary ''and''
           (Expr UnaryExpr ''not'' [Expr CallExpr [] [binary ''.'' (n ''a'') (n ''b''), lit ''1'', Expr UnaryExpr ''-'' [n ''c'']]])
           (Expr BinaryExpr ''?:'' [binary ''='' (n ''x'') (n ''y''),
             Expr SetExpr [] [Expr RangeExpr [] [lit ''1'', lit ''5'']], n ''z'']))
         (n ''u''))
       (n ''v''))"

theorem expression_roundtrip_witness:
  "Ternary (rd (show_expr 0 sample_expr @ [punct '';'']) 0) = Inr (sample_expr, rd [punct '';''] 0)"
proof (rule expression_roundtrip)
  show "well_formed sample_expr" by code_simp
  show "\<not> is_range sample_expr" by simp
  show "0 + nest 0 sample_expr \<le> kMaxDepth" by code_simp
qed simp

text \<open>
  the nesting limit: at \<open>128 - d\<close> or more opening brackets, where \<open>d\<close> expressions are open
  already, the reader throws \<open>an expression nests too deeply\<close>, whatever the brackets hold.
\<close>

theorem expression_depth_limit:
  assumes "kMaxDepth \<le> d + n"
  shows "Ternary (rd (replicate n (punct ''('') @ t) d) = Inl (ParseError ''an expression nests too deeply'')"
  unfolding Ternary_def expression_fuel_def by (rule deep_brackets [OF assms]) simp

theorem expression_depth_limit_witness:
  "Ternary (rd (replicate 128 (punct ''('') @ []) 0) = Inl (ParseError ''an expression nests too deeply'')"
  by (rule expression_depth_limit) (simp add: kMaxDepth_def)

end
