(* ===== verification/Statements.thy ===== *)
theory Statements
  imports ExpressionText
begin

text \<open>
  AL statements: the tree of \<^verbatim>\<open>src/src/al/Expr.h\<close> and the statement half of \<open>Reader\<close> in
  \<^verbatim>\<open>src/src/al/Statements.cpp\<close>, up to \<open>ParseStatements\<close>. The functions take fuel, one unit
  per call; \<open>statement_enough_fuel\<close> shows that what \<open>ParseStatements\<close> gives them is enough.
\<close>

section \<open>Trees\<close>

datatype StmtKind =
    ExpressionStmt
  | IfStmt
  | BlockStmt
  | RepeatStmt
  | WhileStmt
  | ForStmt
  | ForEachStmt
  | CaseStmt
  | CaseBranchStmt
  | WithStmt
  | ExitStmt
  | BreakStmt
  | ContinueStmt
  | AssertErrorStmt

datatype Stmt =
  Stmt (st_kind: StmtKind) (st_expression: Expr) (st_labels: "Expr list") (st_body: "Stmt list")
    (st_otherwise: "Stmt list") (st_descending: bool)

section \<open>The reader\<close>

definition SkipSemicolons :: "reader \<Rightarrow> reader" where
  "SkipSemicolons r = r\<lparr>rd_rest := dropWhile (\<lambda>t. IsPunctuation t '';'') (rd_rest r)\<rparr>"

definition assignments :: "string list" where
  "assignments = ['':='', ''+='', ''-='', ''*='', ''/='']"

text \<open>An expression statement: an expression, and the right side of an assignment to it.\<close>

definition ReadValue :: "reader \<Rightarrow> parse_error + Stmt \<times> reader" where
  "ReadValue r =
     andThen (Ternary r) (\<lambda>(v, r1).
       case find (\<lambda>a. AtPunctuation a r1) assignments of
         None \<Rightarrow> Inr (Stmt ExpressionStmt v [] [] [] False, r1)
       | Some assignment \<Rightarrow> andThen (Ternary (AdvanceToken r1)) (\<lambda>(right, r2).
           Inr (Stmt ExpressionStmt (Expr BinaryExpr assignment [v, right]) [] [] [] False, r2)))"

text \<open>\<open>continue\<close> and \<open>break\<close> are names where what follows uses them as one.\<close>

definition UsedAsName :: "reader \<Rightarrow> bool" where
  "UsedAsName r \<longleftrightarrow>
     IsPunctuation (Peek 1 r) '':='' \<or> IsPunctuation (Peek 1 r) ''.'' \<or>
     IsPunctuation (Peek 1 r) ''('' \<or> IsPunctuation (Peek 1 r) ''[''"

definition ReadExit :: "reader \<Rightarrow> parse_error + Stmt \<times> reader" where
  "ReadExit r =
     (if AtPunctuation ''('' r then
        andThen (Ternary (AdvanceToken r)) (\<lambda>(e, r1).
          andThen (Expect '')'' r1) (\<lambda>r2. Inr (Stmt ExitStmt e [] [] [] False, r2)))
      else Inr (Stmt ExitStmt NoExpr [] [] [] False, r))"

text \<open>The labels of a case branch, up to its colon.\<close>

lemma Ternary_length: "Ternary r = Inr (e, r') \<Longrightarrow> length (rd_rest r') \<le> length (rd_rest r) - 1"
  unfolding Ternary_def by (rule expression_shrinks)

lemma Postfix_length: "Postfix r = Inr (e, r') \<Longrightarrow> length (rd_rest r') \<le> length (rd_rest r) - 1"
  unfolding Postfix_def by (rule expression_shrinks)

function LabelLoop :: "Expr list \<Rightarrow> reader \<Rightarrow> parse_error + Expr list \<times> reader" where
  "LabelLoop labels r =
     (if \<not> AtEnd r \<and> \<not> AtPunctuation '':'' r then
        andThen (Ternary r) (\<lambda>(label, r1).
          if AtPunctuation ''..'' r1 then
            andThen (Ternary (AdvanceToken r1)) (\<lambda>(upper, r2).
              LabelLoop (labels @ [Expr RangeExpr [] [label, upper]]) (SkipComma r2))
          else LabelLoop (labels @ [label]) (SkipComma r1))
      else Inr (labels, r))"
  by pat_completeness auto
termination
proof (relation "measure (\<lambda>(labels, r). length (rd_rest r))", simp)
  fix labels r p label r1 q upper r2
  assume r: "\<not> AtEnd r \<and> \<not> AtPunctuation '':'' r" "Ternary r = Inr p" "(label, r1) = p"
    and u: "Ternary (AdvanceToken r1) = Inr q" "(upper, r2) = q"
  have "length (rd_rest (SkipComma r2)) \<le> length (rd_rest r1)"
    using SkipComma_length [of r2] Ternary_length [of "AdvanceToken r1" upper r2] u by simp
  also have "\<dots> \<le> length (rd_rest r) - 1" using Ternary_length r by metis
  finally show "((labels @ [Expr RangeExpr [] [label, upper]], SkipComma r2), (labels, r))
      \<in> measure (\<lambda>(labels, r). length (rd_rest r))"
    using r(1) by (cases "rd_rest r") auto
next
  fix labels r p label r1
  assume r: "\<not> AtEnd r \<and> \<not> AtPunctuation '':'' r" "Ternary r = Inr p" "(label, r1) = p"
  have "length (rd_rest (SkipComma r1)) \<le> length (rd_rest r1)" by (rule SkipComma_length)
  also have "\<dots> \<le> length (rd_rest r) - 1" using Ternary_length r by metis
  finally have "length (rd_rest (SkipComma r1)) \<le> length (rd_rest r) - 1" .
  then show "((labels @ [label], SkipComma r1), (labels, r)) \<in> measure (\<lambda>(labels, r). length (rd_rest r))"
    using r(1) by (cases "rd_rest r") auto
qed

declare LabelLoop.simps [simp del]

function (sequential) ReadBlock :: "nat \<Rightarrow> reader \<Rightarrow> parse_error + Stmt list \<times> reader"
  and ReadStatement :: "nat \<Rightarrow> reader \<Rightarrow> parse_error + Stmt \<times> reader"
  and ReadFor :: "nat \<Rightarrow> reader \<Rightarrow> parse_error + Stmt \<times> reader"
  and ReadForEach :: "nat \<Rightarrow> reader \<Rightarrow> parse_error + Stmt \<times> reader"
  and ReadCase :: "nat \<Rightarrow> reader \<Rightarrow> parse_error + Stmt \<times> reader"
  and CaseLoop :: "nat \<Rightarrow> reader \<Rightarrow> parse_error + Stmt list \<times> reader"
  and ReadIf :: "nat \<Rightarrow> reader \<Rightarrow> parse_error + Stmt \<times> reader" where
  "ReadBlock 0 r = Inl ParseFuel"
| "ReadBlock (Suc n) r =
     (if \<not> AtEnd r \<and> \<not> AtKeyword ''end'' r \<and> \<not> AtKeyword ''until'' r then
        andThen (ReadStatement n r) (\<lambda>(s, r1).
          andThen (ReadBlock n (SkipSemicolons r1)) (\<lambda>(ss, r2). Inr (s # ss, r2)))
      else Inr ([], r))"
| "ReadStatement 0 r = Inl ParseFuel"
| "ReadStatement (Suc n) r =
     (if AtKeyword ''begin'' r then
        andThen (ReadBlock n (AdvanceToken r)) (\<lambda>(body, r1).
          andThen (Expect ''end'' r1) (\<lambda>r2. Inr (Stmt BlockStmt NoExpr [] body [] False, r2)))
      else if AtKeyword ''repeat'' r then
        andThen (ReadBlock n (AdvanceToken r)) (\<lambda>(body, r1).
          andThen (Expect ''until'' r1) (\<lambda>r2.
            andThen (Ternary r2) (\<lambda>(e, r3). Inr (Stmt RepeatStmt e [] body [] False, r3))))
      else if AtKeyword ''while'' r then
        andThen (Ternary (AdvanceToken r)) (\<lambda>(e, r1).
          andThen (Expect ''do'' r1) (\<lambda>r2.
            andThen (ReadStatement n r2) (\<lambda>(s, r3). Inr (Stmt WhileStmt e [] [s] [] False, r3))))
      else if AtKeyword ''for'' r then ReadFor n r
      else if AtKeyword ''foreach'' r then ReadForEach n r
      else if AtKeyword ''case'' r then ReadCase n r
      else if AtKeyword ''with'' r then
        andThen (Ternary (AdvanceToken r)) (\<lambda>(e, r1).
          andThen (Expect ''do'' r1) (\<lambda>r2.
            andThen (ReadStatement n r2) (\<lambda>(s, r3). Inr (Stmt WithStmt e [] [s] [] False, r3))))
      else if AtKeyword ''exit'' r then ReadExit (AdvanceToken r)
      else if AtKeyword ''continue'' r \<and> \<not> UsedAsName r then
        Inr (Stmt ContinueStmt NoExpr [] [] [] False, AdvanceToken r)
      else if AtKeyword ''break'' r \<and> \<not> UsedAsName r then
        Inr (Stmt BreakStmt NoExpr [] [] [] False, AdvanceToken r)
      else if AtKeyword ''if'' r then ReadIf n r
      else if AtKeyword ''asserterror'' r then
        andThen (ReadStatement n (AdvanceToken r)) (\<lambda>(s, r1).
          Inr (Stmt AssertErrorStmt NoExpr [] [s] [] False, r1))
      else ReadValue r)"
| "ReadFor 0 r = Inl ParseFuel"
| "ReadFor (Suc n) r =
     andThen (Expect ''for'' r) (\<lambda>r1. andThen (Postfix r1) (\<lambda>(counter, r2).
       andThen (Expect '':='' r2) (\<lambda>r3. andThen (Ternary r3) (\<lambda>(start, r4).
         andThen (if AtKeyword ''downto'' r4 then Inr (True, AdvanceToken r4)
                  else andThen (Expect ''to'' r4) (\<lambda>r5. Inr (False, r5))) (\<lambda>(descending, r5).
           andThen (Ternary r5) (\<lambda>(bound, r6). andThen (Expect ''do'' r6) (\<lambda>r7.
             andThen (ReadStatement n r7) (\<lambda>(s, r8).
               Inr (Stmt ForStmt (Expr BinaryExpr '':='' [counter, start]) [bound] [s] [] descending, r8)))))))))"
| "ReadForEach 0 r = Inl ParseFuel"
| "ReadForEach (Suc n) r =
     andThen (Expect ''foreach'' r) (\<lambda>r1. andThen (Postfix r1) (\<lambda>(e, r2).
       andThen (Expect ''in'' r2) (\<lambda>r3. andThen (Ternary r3) (\<lambda>(collection, r4).
         andThen (Expect ''do'' r4) (\<lambda>r5. andThen (ReadStatement n r5) (\<lambda>(s, r6).
           Inr (Stmt ForEachStmt e [collection] [s] [] False, r6)))))))"
| "ReadCase 0 r = Inl ParseFuel"
| "ReadCase (Suc n) r =
     andThen (Expect ''case'' r) (\<lambda>r1. andThen (Ternary r1) (\<lambda>(e, r2).
       andThen (Expect ''of'' r2) (\<lambda>r3. andThen (CaseLoop n r3) (\<lambda>(branches, r4).
         andThen (if AtKeyword ''else'' r4 then ReadBlock n (AdvanceToken r4) else Inr ([], r4)) (\<lambda>(otherwise, r5).
           andThen (Expect ''end'' r5) (\<lambda>r6.
             Inr (Stmt CaseStmt e [] branches otherwise False, r6)))))))"
| "CaseLoop 0 r = Inl ParseFuel"
| "CaseLoop (Suc n) r =
     (if \<not> AtEnd r \<and> \<not> AtKeyword ''end'' r \<and> \<not> AtKeyword ''else'' r then
        andThen (LabelLoop [] r) (\<lambda>(labels, r1). andThen (Expect '':'' r1) (\<lambda>r2.
          andThen (ReadStatement n r2) (\<lambda>(s, r3).
            andThen (CaseLoop n (SkipSemicolons r3)) (\<lambda>(branches, r4).
              Inr (Stmt CaseBranchStmt NoExpr labels [s] [] False # branches, r4)))))
      else Inr ([], r))"
| "ReadIf 0 r = Inl ParseFuel"
| "ReadIf (Suc n) r =
     andThen (Expect ''if'' r) (\<lambda>r1. andThen (Ternary r1) (\<lambda>(e, r2).
       andThen (Expect ''then'' r2) (\<lambda>r3. andThen (ReadStatement n r3) (\<lambda>(s, r4).
         if \<not> AtPunctuation '';'' r4 \<and> AtKeyword ''else'' r4 then
           andThen (ReadStatement n (AdvanceToken r4)) (\<lambda>(s', r5).
             Inr (Stmt IfStmt e [] [s] [s'] False, r5))
         else Inr (Stmt IfStmt e [] [s] [] False, SkipSemicolons r4)))))"
  by pat_completeness safe
termination
  by (relation "measure (case_sum (case_sum fst (case_sum fst fst)) (case_sum (case_sum fst fst) (case_sum fst fst)))")
    simp_all

lemmas statement_reader_simps =
  ReadBlock.simps ReadStatement.simps ReadFor.simps ReadForEach.simps ReadCase.simps CaseLoop.simps
  ReadIf.simps

declare statement_reader_simps [simp del]

definition ParseStatements :: "token list \<Rightarrow> parse_error + Stmt list" where
  "ParseStatements tokens =
     andThen (ReadBlock (4 * length tokens + 4) \<lparr>rd_rest = tokens, rd_depth = 0\<rparr>) (\<lambda>(ss, r). Inr ss)"

section \<open>Reading consumes tokens\<close>

lemma SkipSemicolons_length: "length (rd_rest (SkipSemicolons r)) \<le> length (rd_rest r)"
  by (simp add: SkipSemicolons_def length_dropWhile_le)

lemma LabelLoop_length:
  "LabelLoop labels r = Inr (ls, r') \<Longrightarrow> length (rd_rest r') \<le> length (rd_rest r)"
proof (induction labels r arbitrary: ls r' rule: LabelLoop.induct)
  case (1 labels r)
  show ?case
  proof (cases "\<not> AtEnd r \<and> \<not> AtPunctuation '':'' r")
    case True
    with "1.prems" obtain label r1 where label: "Ternary r = Inr (label, r1)"
      by (subst (asm) LabelLoop.simps) auto
    have r1: "length (rd_rest r1) \<le> length (rd_rest r) - 1" by (rule Ternary_length [OF label])
    show ?thesis
    proof (cases "AtPunctuation ''..'' r1")
      case range: True
      with "1.prems" True label obtain upper r2 where upper: "Ternary (AdvanceToken r1) = Inr (upper, r2)"
        and rec: "LabelLoop (labels @ [Expr RangeExpr [] [label, upper]]) (SkipComma r2) = Inr (ls, r')"
        by (subst (asm) LabelLoop.simps) auto
      have "length (rd_rest r') \<le> length (rd_rest (SkipComma r2))"
        using "1.IH"(1) [OF True label refl range upper refl rec] .
      then show ?thesis
        using r1 Ternary_length [OF upper] SkipComma_length [of r2] by simp
    next
      case False
      with "1.prems" True label have "LabelLoop (labels @ [label]) (SkipComma r1) = Inr (ls, r')"
        by (subst (asm) LabelLoop.simps) auto
      then have "length (rd_rest r') \<le> length (rd_rest (SkipComma r1))"
        using "1.IH"(2) [OF True label refl False] by blast
      then show ?thesis using r1 SkipComma_length [of r1] by simp
    qed
  qed (use "1.prems" in \<open>auto simp: LabelLoop.simps [of labels r] split: if_splits\<close>)
qed

lemma ReadValue_length: "ReadValue r = Inr (s, r') \<Longrightarrow> length (rd_rest r') \<le> length (rd_rest r) - 1"
  by (fastforce simp: ReadValue_def split: option.splits dest!: Ternary_length)

lemma ReadExit_length: "ReadExit r = Inr (s, r') \<Longrightarrow> length (rd_rest r') \<le> length (rd_rest r)"
  by (fastforce simp: ReadExit_def split: if_splits dest!: Ternary_length Expect_length)

lemma Expect_progress:
  "Expect what r = Inr r' \<Longrightarrow> rd_rest r \<noteq> [] \<and> length (rd_rest r') \<le> length (rd_rest r) - 1"
  using Expect_length not_at_end by (fastforce simp: Expect_def split: if_splits)

lemmas statement_lengths =
  Ternary_length Postfix_length Expect_progress LabelLoop_length ReadValue_length ReadExit_length

lemma Skip_le: "length (rd_rest r) \<le> k \<Longrightarrow> length (rd_rest (SkipSemicolons r)) \<le> k"
  using SkipSemicolons_length le_trans by blast

lemma statement_shrinks [shrink_intros]:
  "ReadBlock n r = Inr (ss, r') \<Longrightarrow> length (rd_rest r') \<le> length (rd_rest r)"
  "ReadStatement n r = Inr (s, r') \<Longrightarrow> length (rd_rest r') \<le> length (rd_rest r) - 1"
  "ReadFor n r = Inr (s, r') \<Longrightarrow> length (rd_rest r') \<le> length (rd_rest r) - 1"
  "ReadForEach n r = Inr (s, r') \<Longrightarrow> length (rd_rest r') \<le> length (rd_rest r) - 1"
  "ReadCase n r = Inr (s, r') \<Longrightarrow> length (rd_rest r') \<le> length (rd_rest r) - 1"
  "CaseLoop n r = Inr (ss, r') \<Longrightarrow> length (rd_rest r') \<le> length (rd_rest r)"
  "ReadIf n r = Inr (s, r') \<Longrightarrow> length (rd_rest r') \<le> length (rd_rest r) - 1"
proof (induction n arbitrary: r s ss r')
  case (Suc n)
  note simps = statement_reader_simps(2,4,6,8,10,12,14)
  note skip = le_trans [OF _ SkipSemicolons_length]
  {
    case 1
    then show ?case
      by (auto simp: simps split: if_splits dest!: Suc.IH(1,2) dest: skip)
  next
    case 2
    then show ?case
      by (auto simp: simps split: if_splits dest!: Suc.IH statement_lengths)
  next
    case 3
    then show ?case by (auto simp: simps split: if_splits dest!: Suc.IH(2) statement_lengths)
  next
    case 4
    then show ?case by (auto simp: simps split: if_splits dest!: Suc.IH(2) statement_lengths)
  next
    case 5
    then show ?case by (auto simp: simps split: if_splits dest!: Suc.IH(1) Suc.IH(6) statement_lengths)
  next
    case 6
    then show ?case
      by (auto simp: simps split: if_splits dest!: Suc.IH(2,6) statement_lengths)
        (meson SkipSemicolons_length diff_le_self le_trans)
  next
    case 7
    then show ?case
      by (auto simp: simps split: if_splits dest!: Suc.IH(2) statement_lengths intro!: Skip_le)
  }
qed (simp_all add: statement_reader_simps)

section \<open>Enough fuel\<close>

lemma LabelLoop_never_fuel: "LabelLoop labels r \<noteq> Inl ParseFuel"
proof (induction labels r rule: LabelLoop.induct)
  case (1 labels r)
  then show ?case
    by (subst LabelLoop.simps) (auto simp: andThen_Inl_iff Ternary_never_fuel)
qed

lemma ReadValue_never_fuel: "ReadValue r \<noteq> Inl ParseFuel"
  by (auto simp: ReadValue_def andThen_Inl_iff Ternary_never_fuel split: option.splits)

lemma ReadExit_never_fuel: "ReadExit r \<noteq> Inl ParseFuel"
  by (auto simp: ReadExit_def andThen_Inl_iff Ternary_never_fuel)

lemmas statement_never_fuel [simp] =
  Ternary_never_fuel Postfix_never_fuel LabelLoop_never_fuel ReadValue_never_fuel ReadExit_never_fuel

text \<open>Three units per token, and one per level of the grammar entered without a token.\<close>

lemma statement_enough_fuel:
  "3 * length (rd_rest r) + 3 \<le> n \<Longrightarrow> ReadBlock n r \<noteq> Inl ParseFuel"
  "3 * length (rd_rest r) + 2 \<le> n \<Longrightarrow> ReadStatement n r \<noteq> Inl ParseFuel"
  "3 * length (rd_rest r) + 1 \<le> n \<Longrightarrow> ReadFor n r \<noteq> Inl ParseFuel"
  "3 * length (rd_rest r) + 1 \<le> n \<Longrightarrow> ReadForEach n r \<noteq> Inl ParseFuel"
  "3 * length (rd_rest r) + 1 \<le> n \<Longrightarrow> ReadCase n r \<noteq> Inl ParseFuel"
  "3 * length (rd_rest r) + 1 \<le> n \<Longrightarrow> CaseLoop n r \<noteq> Inl ParseFuel"
  "3 * length (rd_rest r) + 1 \<le> n \<Longrightarrow> ReadIf n r \<noteq> Inl ParseFuel"
proof (induction n arbitrary: r)
  case (Suc n)
  note simps = statement_reader_simps(2,4,6,8,10,12,14)
  have pos: "rd_rest r \<noteq> [] \<Longrightarrow> 0 < length (rd_rest r)" for r by simp
  have expect: "rd_rest r \<noteq> []" if "Expect w r = Inr r'" for w r r'
    using that not_at_end by (auto simp: Expect_def split: if_splits)
  {
    case 1
    have "ReadStatement n r \<noteq> Inl ParseFuel" using 1 by (intro Suc.IH(2)) simp
    moreover have "ReadBlock n (SkipSemicolons r') \<noteq> Inl ParseFuel"
      if "length (rd_rest r') \<le> length (rd_rest r) - 1" "rd_rest r \<noteq> []" for r'
      using 1 Skip_le [OF that(1)] pos [OF that(2)] by (intro Suc.IH(1)) (simp del: length_greater_0_conv)
    ultimately show ?case
      by (auto simp: simps andThen_Inl_iff dest!: statement_shrinks(2))
  next
    case 2
    have "ReadBlock n (AdvanceToken r) \<noteq> Inl ParseFuel" if "rd_rest r \<noteq> []"
      using 2 pos [OF that] by (intro Suc.IH(1)) (simp del: length_greater_0_conv)
    moreover have "ReadStatement n (AdvanceToken r) \<noteq> Inl ParseFuel" if "rd_rest r \<noteq> []"
      using 2 pos [OF that] by (intro Suc.IH(2)) (simp del: length_greater_0_conv)
    moreover have "ReadStatement n r2 \<noteq> Inl ParseFuel"
      if "Ternary (AdvanceToken r) = Inr (e, r1)" "Expect w r1 = Inr r2" for w e r1 r2
    proof -
      have "0 < length (rd_rest r1)" using expect [OF that(2)] by simp
      then show ?thesis
        using 2 Ternary_length [OF that(1)] Expect_length [OF that(2)]
        by (intro Suc.IH(2)) (simp del: length_greater_0_conv)
    qed
    moreover have "ReadFor n r \<noteq> Inl ParseFuel" "ReadForEach n r \<noteq> Inl ParseFuel"
      "ReadCase n r \<noteq> Inl ParseFuel" "ReadIf n r \<noteq> Inl ParseFuel"
      using 2 by (auto intro!: Suc.IH)
    ultimately show ?case
      by (auto simp: simps andThen_Inl_iff dest: not_at_end)
  next
    case 3
    have "ReadStatement n r' \<noteq> Inl ParseFuel"
      if "length (rd_rest r') \<le> length (rd_rest r) - 1" "rd_rest r \<noteq> []" for r'
      using 3 that(1) pos [OF that(2)] by (intro Suc.IH(2)) (simp del: length_greater_0_conv)
    then show ?case
      by (auto simp: simps andThen_Inl_iff dest!: statement_lengths split: if_splits)
  next
    case 4
    have "ReadStatement n r' \<noteq> Inl ParseFuel"
      if "length (rd_rest r') \<le> length (rd_rest r) - 1" "rd_rest r \<noteq> []" for r'
      using 4 that(1) pos [OF that(2)] by (intro Suc.IH(2)) (simp del: length_greater_0_conv)
    then show ?case
      by (auto simp: simps andThen_Inl_iff dest!: statement_lengths)
  next
    case 5
    have "CaseLoop n r' \<noteq> Inl ParseFuel" "ReadBlock n r' \<noteq> Inl ParseFuel"
      if "length (rd_rest r') \<le> length (rd_rest r) - 1" "rd_rest r \<noteq> []" for r'
      using 5 that(1) pos [OF that(2)]
      by (intro Suc.IH(6), simp del: length_greater_0_conv, intro Suc.IH(1), simp del: length_greater_0_conv)
    then show ?case
      by (auto simp: simps andThen_Inl_iff dest!: statement_lengths statement_shrinks(6) split: if_splits)
  next
    case 6
    have "ReadStatement n r' \<noteq> Inl ParseFuel" "CaseLoop n (SkipSemicolons r') \<noteq> Inl ParseFuel"
      if "length (rd_rest r') \<le> length (rd_rest r) - 1" "rd_rest r \<noteq> []" for r'
      using 6 that(1) pos [OF that(2)] Skip_le [OF that(1)]
      by (intro Suc.IH(2), simp del: length_greater_0_conv, intro Suc.IH(6), simp del: length_greater_0_conv)
    then show ?case
      by (auto simp: simps andThen_Inl_iff dest!: statement_lengths statement_shrinks(2))
  next
    case 7
    have "ReadStatement n r' \<noteq> Inl ParseFuel"
      if "length (rd_rest r') \<le> length (rd_rest r) - 1" "rd_rest r \<noteq> []" for r'
      using 7 that(1) pos [OF that(2)] by (intro Suc.IH(2)) (simp del: length_greater_0_conv)
    then show ?case
      by (auto simp: simps andThen_Inl_iff dest!: statement_lengths statement_shrinks(2) split: if_splits)
  }
qed simp_all

text \<open>More fuel does not change a result.\<close>

lemma statement_fuel_step:
  "ReadBlock n r \<noteq> Inl ParseFuel \<Longrightarrow> ReadBlock (Suc n) r = ReadBlock n r"
  "ReadStatement n r \<noteq> Inl ParseFuel \<Longrightarrow> ReadStatement (Suc n) r = ReadStatement n r"
  "ReadFor n r \<noteq> Inl ParseFuel \<Longrightarrow> ReadFor (Suc n) r = ReadFor n r"
  "ReadForEach n r \<noteq> Inl ParseFuel \<Longrightarrow> ReadForEach (Suc n) r = ReadForEach n r"
  "ReadCase n r \<noteq> Inl ParseFuel \<Longrightarrow> ReadCase (Suc n) r = ReadCase n r"
  "CaseLoop n r \<noteq> Inl ParseFuel \<Longrightarrow> CaseLoop (Suc n) r = CaseLoop n r"
  "ReadIf n r \<noteq> Inl ParseFuel \<Longrightarrow> ReadIf (Suc n) r = ReadIf n r"
proof (induction n arbitrary: r)
  case (Suc n)
  note simps = statement_reader_simps(2,4,6,8,10,12,14)
  note step = Suc.IH
  have cong: "andThen a f \<noteq> Inl ParseFuel \<Longrightarrow> (a \<noteq> Inl ParseFuel \<Longrightarrow> a' = a) \<Longrightarrow>
      (\<And>x. a = Inr x \<Longrightarrow> f x \<noteq> Inl ParseFuel \<Longrightarrow> g x = f x) \<Longrightarrow> andThen a' g = andThen a f"
    for a a' :: "parse_error + 'x" and f g :: "'x \<Rightarrow> parse_error + 'y"
    by (cases a) auto
  have if_cong: "(if p then a else b) \<noteq> Inl ParseFuel \<Longrightarrow> (p \<Longrightarrow> a \<noteq> Inl ParseFuel \<Longrightarrow> a' = a) \<Longrightarrow>
      (\<not> p \<Longrightarrow> b \<noteq> Inl ParseFuel \<Longrightarrow> b' = b) \<Longrightarrow> (if p then a' else b') = (if p then a else b)"
    for p and a a' b b' :: "parse_error + 'x" by (cases p) auto
  have cong2: "andThen a (\<lambda>(x, y). f x y) \<noteq> Inl ParseFuel \<Longrightarrow> (a \<noteq> Inl ParseFuel \<Longrightarrow> a' = a) \<Longrightarrow>
      (\<And>x y. f x y \<noteq> Inl ParseFuel \<Longrightarrow> g x y = f x y) \<Longrightarrow>
      andThen a' (\<lambda>(x, y). g x y) = andThen a (\<lambda>(x, y). f x y)"
    for a a' :: "parse_error + 'x \<times> 'y" and f g :: "'x \<Rightarrow> 'y \<Rightarrow> parse_error + 'z"
    by (cases a) auto
  {
    case 1
    then show ?case
      unfolding simps(1) [of "Suc n" r] simps(1) [of n r]
      by - (rule refl | erule if_cong | erule cong2 | erule cong | erule step)+
  next
    case 2
    then show ?case
      unfolding simps(2) [of "Suc n" r] simps(2) [of n r]
      by - (rule refl | erule if_cong | erule cong2 | erule cong | erule step)+
  next
    case 3
    then show ?case
      unfolding simps(3) [of "Suc n" r] simps(3) [of n r]
      by - (rule refl | erule if_cong | erule cong2 | erule cong | erule step)+
  next
    case 4
    then show ?case
      unfolding simps(4) [of "Suc n" r] simps(4) [of n r]
      by - (rule refl | erule if_cong | erule cong2 | erule cong | erule step)+
  next
    case 5
    then show ?case
      unfolding simps(5) [of "Suc n" r] simps(5) [of n r]
      by - (rule refl | erule if_cong | erule cong2 | erule cong | erule step)+
  next
    case 6
    then show ?case
      unfolding simps(6) [of "Suc n" r] simps(6) [of n r]
      by - (rule refl | erule if_cong | erule cong2 | erule cong | erule step)+
  next
    case 7
    then show ?case
      unfolding simps(7) [of "Suc n" r] simps(7) [of n r]
      by - (rule refl | erule if_cong | erule cong2 | erule cong | erule step)+
  }
qed (simp_all add: statement_reader_simps)

lemma ParseStatements_never_fuel: "ParseStatements ts \<noteq> Inl ParseFuel"
proof -
  have "ReadBlock (4 * length ts + 4) \<lparr>rd_rest = ts, rd_depth = 0\<rparr> \<noteq> Inl ParseFuel"
    by (rule statement_enough_fuel) simp
  then show ?thesis by (auto simp: ParseStatements_def andThen_Inl_iff simp del: mult_Suc_right)
qed

end
