(* ===== verification/StatementText.thy ===== *)
theory StatementText
  imports Statements
begin

text \<open>
  The round trip of statements: \<open>show_stmt\<close> writes a statement tree as tokens, and
  \<open>ParseStatements\<close> of \<^verbatim>\<open>src/src/al/Statements.cpp\<close> reads a written list of statements back.
  The trees excluded by \<open>wf_stmt\<close> are those no text can have: an \<open>if\<close> with an \<open>else\<close> whose
  branch ends in an \<open>if\<close> without one, and a \<open>case\<close> with an \<open>else\<close> whose last branch the
  reader would give that \<open>else\<close> to (\<open>nested_if_steals_case_else\<close> shows it does).
\<close>

section \<open>Writing a statement\<close>

abbreviation kw :: "string \<Rightarrow> token" where
  "kw \<equiv> tok Identifier"

definition show_value :: "Expr \<Rightarrow> token list" where
  "show_value e =
     (if ex_kind e = BinaryExpr \<and> ex_text e \<in> set assignments
      then show_expr 0 (ex_children e ! 0) @ punct (ex_text e) # show_expr 0 (ex_children e ! 1)
      else show_expr 0 e)"

fun show_stmt :: "Stmt \<Rightarrow> token list" where
  "show_stmt (Stmt k e ls body els down) =
     (case k of
        ExpressionStmt \<Rightarrow> show_value e
      | BlockStmt \<Rightarrow> kw ''begin'' # concat (map (\<lambda>s. show_stmt s @ [punct '';'']) body) @ [kw ''end'']
      | RepeatStmt \<Rightarrow> kw ''repeat'' # concat (map (\<lambda>s. show_stmt s @ [punct '';'']) body) @ kw ''until'' # show_expr 0 e
      | WhileStmt \<Rightarrow> kw ''while'' # show_expr 0 e @ kw ''do'' # concat (map show_stmt body)
      | ForStmt \<Rightarrow> kw ''for'' # show_expr 6 (ex_children e ! 0) @ punct '':='' # show_expr 0 (ex_children e ! 1) @
          kw (if down then ''downto'' else ''to'') # concat (map (show_expr 0) ls) @ kw ''do'' # concat (map show_stmt body)
      | ForEachStmt \<Rightarrow> kw ''foreach'' # show_expr 6 e @ kw ''in'' # concat (map (show_expr 0) ls) @
          kw ''do'' # concat (map show_stmt body)
      | CaseStmt \<Rightarrow> kw ''case'' # show_expr 0 e @ kw ''of'' # concat (map show_stmt body) @
          (if els = [] then [] else kw ''else'' # concat (map (\<lambda>s. show_stmt s @ [punct '';'']) els)) @ [kw ''end'']
      | CaseBranchStmt \<Rightarrow> separated (map (show_expr 0) ls) @ punct '':'' # concat (map show_stmt body) @ [punct '';'']
      | WithStmt \<Rightarrow> kw ''with'' # show_expr 0 e @ kw ''do'' # concat (map show_stmt body)
      | ExitStmt \<Rightarrow> kw ''exit'' # (if e = NoExpr then [] else punct ''('' # show_expr 0 e @ [punct '')''])
      | BreakStmt \<Rightarrow> [kw ''break'']
      | ContinueStmt \<Rightarrow> [kw ''continue'']
      | AssertErrorStmt \<Rightarrow> kw ''asserterror'' # concat (map show_stmt body)
      | IfStmt \<Rightarrow> kw ''if'' # show_expr 0 e @ kw ''then'' # concat (map show_stmt body) @
          (if els = [] then [] else kw ''else'' # concat (map show_stmt els)))"

definition show_block :: "Stmt list \<Rightarrow> token list" where
  "show_block ss = concat (map (\<lambda>s. show_stmt s @ [punct '';'']) ss)"

text \<open>
  A statement that ends in an \<open>if\<close> without \<open>else\<close> (that \<open>if\<close> takes the semicolon behind it), and
  one that takes an \<open>else\<close> behind that semicolon.
\<close>

abbreviation tail_kind :: "StmtKind \<Rightarrow> bool" where
  "tail_kind k \<equiv> k \<in> {WhileStmt, ForStmt, ForEachStmt, WithStmt, AssertErrorStmt}"

fun ends_open :: "Stmt \<Rightarrow> bool" where
  "ends_open (Stmt k e ls body els down) =
     (k = IfStmt \<and> (els = [] \<or> list_ex ends_open els) \<or> tail_kind k \<and> list_ex ends_open body)"

fun steals :: "Stmt \<Rightarrow> bool" where
  "steals (Stmt k e ls body els down) =
     (k = IfStmt \<and> (if els = [] then list_ex ends_open body else list_ex steals els) \<or>
      tail_kind k \<and> list_ex steals body)"

text \<open>The trees the reader builds.\<close>

abbreviation is_branch :: "Stmt \<Rightarrow> bool" where
  "is_branch s \<equiv> st_kind s = CaseBranchStmt"

definition value_fits :: "Expr \<Rightarrow> bool" where
  "value_fits e \<longleftrightarrow>
     (if ex_kind e = BinaryExpr \<and> ex_text e \<in> set assignments
      then length (ex_children e) = 2 \<and> list_all fits (ex_children e) else fits e)"

definition postfix_fits :: "Expr \<Rightarrow> bool" where
  "postfix_fits e \<longleftrightarrow> well_formed e \<and> \<not> is_range e \<and> nest 6 e \<le> kMaxDepth"

definition label_fits :: "Expr \<Rightarrow> bool" where
  "label_fits e \<longleftrightarrow> well_formed e \<and> nest 0 e \<le> kMaxDepth"

fun wf_stmt :: "Stmt \<Rightarrow> bool" where
  "wf_stmt (Stmt k e ls body els down) =
     (list_all wf_stmt body \<and> list_all wf_stmt els \<and>
      list_all (\<lambda>s. is_branch s \<longleftrightarrow> k = CaseStmt) body \<and> list_all (\<lambda>s. \<not> is_branch s) els \<and>
      (k \<noteq> ForStmt \<longrightarrow> \<not> down) \<and>
      (k \<notin> {ForStmt, ForEachStmt, CaseBranchStmt} \<longrightarrow> ls = []) \<and>
      (k \<notin> {IfStmt, CaseStmt} \<longrightarrow> els = []) \<and>
      (k \<notin> {BlockStmt, RepeatStmt, CaseStmt} \<longrightarrow> length body = (if k \<in> {ExpressionStmt, ExitStmt, BreakStmt, ContinueStmt} then 0 else 1)) \<and>
      (k \<in> {BlockStmt, CaseBranchStmt, BreakStmt, ContinueStmt, AssertErrorStmt} \<longrightarrow> e = NoExpr) \<and>
      (k \<in> {RepeatStmt, WhileStmt, WithStmt, CaseStmt, ExitStmt, IfStmt} \<longrightarrow> fits e) \<and>
      (case k of
         ExpressionStmt \<Rightarrow> value_fits e
       | ForStmt \<Rightarrow> ex_kind e = BinaryExpr \<and> ex_text e = '':='' \<and> length (ex_children e) = 2 \<and>
           postfix_fits (ex_children e ! 0) \<and> fits (ex_children e ! 1) \<and> length ls = 1 \<and> list_all fits ls
       | ForEachStmt \<Rightarrow> postfix_fits e \<and> length ls = 1 \<and> list_all fits ls
       | CaseStmt \<Rightarrow> els \<noteq> [] \<longrightarrow> body \<noteq> [] \<longrightarrow> \<not> list_ex steals (st_body (last body))
       | CaseBranchStmt \<Rightarrow> list_all label_fits ls
       | IfStmt \<Rightarrow> length els \<le> 1 \<and> (els \<noteq> [] \<longrightarrow> \<not> list_ex ends_open body)
       | _ \<Rightarrow> True))"

declare show_stmt.simps [simp del] ends_open.simps [simp del] steals.simps [simp del] wf_stmt.simps [simp del]

section \<open>Keywords\<close>

lemma lower_chars [simp]:
  "to_lower (CHR ''a'') = CHR ''a''" "to_lower (CHR ''b'') = CHR ''b''" "to_lower (CHR ''c'') = CHR ''c''"
  "to_lower (CHR ''d'') = CHR ''d''" "to_lower (CHR ''e'') = CHR ''e''" "to_lower (CHR ''f'') = CHR ''f''"
  "to_lower (CHR ''g'') = CHR ''g''" "to_lower (CHR ''h'') = CHR ''h''" "to_lower (CHR ''i'') = CHR ''i''"
  "to_lower (CHR ''k'') = CHR ''k''" "to_lower (CHR ''l'') = CHR ''l''" "to_lower (CHR ''n'') = CHR ''n''"
  "to_lower (CHR ''o'') = CHR ''o''" "to_lower (CHR ''p'') = CHR ''p''" "to_lower (CHR ''r'') = CHR ''r''"
  "to_lower (CHR ''s'') = CHR ''s''" "to_lower (CHR ''t'') = CHR ''t''" "to_lower (CHR ''u'') = CHR ''u''"
  "to_lower (CHR ''w'') = CHR ''w''" "to_lower (CHR ''x'') = CHR ''x''" "to_lower (CHR ''m'') = CHR ''m''"
  "to_lower (CHR ''v'') = CHR ''v''"
  by code_simp+

lemma keyword_kw: "IsKeyword (kw a) w \<longleftrightarrow> map to_lower a = map to_lower w"
  by (simp add: keyword_tok)

lemma Expect_kw [simp]: "Expect w (rd (kw w # ts) d) = Inr (rd ts d)"
  by (simp add: Expect_def keyword_kw)

lemma Expect_punct [simp]: "Expect p (rd (punct p # ts) d) = Inr (rd ts d)"
  by (simp add: Expect_def)

lemma Precedence_kw:
  "PrecedenceOf (kw ''do'') = 0" "PrecedenceOf (kw ''of'') = 0" "PrecedenceOf (kw ''then'') = 0"
  "PrecedenceOf (kw ''to'') = 0" "PrecedenceOf (kw ''downto'') = 0" "PrecedenceOf (kw ''else'') = 0"
  "PrecedenceOf (kw ''until'') = 0" "PrecedenceOf (kw ''end'') = 0"
  by code_simp+

lemma stop_kw:
  "w \<in> {''do'', ''of'', ''then'', ''to'', ''downto'', ''else'', ''until'', ''end''} \<Longrightarrow> stop_all (kw w # ts)"
  using Precedence_kw by (auto simp: stop_all_def stop_postfix_def)

lemma stop_postfix_kw [simp]: "stop_postfix (kw w # ts)"
  by (simp add: stop_postfix_def)

lemma starter_keyword:
  "starter x \<Longrightarrow> map to_lower w \<in> set reserved - {''not''} \<Longrightarrow> \<not> IsKeyword x w"
  using keyword_lower [of x w] by (auto simp: starter_def)

text \<open>The first token of a statement.\<close>

definition opener :: "token \<Rightarrow> bool" where
  "opener x \<longleftrightarrow> \<not> IsPunctuation x '';'' \<and> \<not> IsKeyword x ''end'' \<and> \<not> IsKeyword x ''until'' \<and> \<not> IsKeyword x ''else''"

lemma opener_kw:
  "w \<in> {''begin'', ''repeat'', ''while'', ''for'', ''foreach'', ''case'', ''with'', ''exit'', ''continue'', ''break'',
     ''if'', ''asserterror''} \<Longrightarrow> opener (kw w)"
  by (auto simp: opener_def keyword_kw)

lemma starter_opener: "starter x \<Longrightarrow> opener x"
  using starter_keyword [of x "''end''"] starter_keyword [of x "''until''"] starter_keyword [of x "''else''"]
  by (auto simp: opener_def starter_def reserved_def IsPunctuation_def)

lemma value_first:
  assumes "value_fits e"
  shows "\<exists>x xs. show_value e = x # xs \<and> starter x"
proof (cases "ex_kind e = BinaryExpr \<and> ex_text e \<in> set assignments")
  case True
  then have "well_formed (ex_children e ! 0)"
    using assms by (auto simp: value_fits_def fits_def list_all_iff)
  from first_token [OF this, of 0] show ?thesis using True by (auto simp: show_value_def)
next
  case False
  then have "well_formed e" using assms by (auto simp: value_fits_def fits_def split: if_splits)
  from first_token [OF this, of 0] show ?thesis using False by (auto simp: show_value_def)
qed

lemma stmt_first:
  assumes "wf_stmt s" "\<not> is_branch s"
  shows "\<exists>x xs. show_stmt s = x # xs \<and> opener x"
proof (cases s)
  case (Stmt k e ls body els down)
  then show ?thesis
    using assms value_first [of e] starter_opener
    by (cases k) (auto simp: show_stmt.simps wf_stmt.simps opener_kw)
qed

section \<open>Reading back\<close>

text \<open>
  What may stand behind a statement, and what the reader leaves of it: a semicolon, which an
  open \<open>if\<close> takes, or the \<open>else\<close> of an enclosing \<open>if\<close>.
\<close>

definition follow :: "Stmt \<Rightarrow> token list \<Rightarrow> token list \<Rightarrow> bool" where
  "follow s t r \<longleftrightarrow>
     (\<exists>u. t = punct '';'' # u \<and> \<not> IsPunctuation (head u) '';'' \<and>
        (steals s \<longrightarrow> \<not> IsKeyword (head u) ''else'') \<and> r = (if ends_open s then u else t)) \<or>
     (\<exists>u. t = kw ''else'' # u \<and> \<not> ends_open s \<and> r = t)"

definition reads_stmt :: "Stmt \<Rightarrow> bool" where
  "reads_stmt s \<longleftrightarrow> (\<forall>t r. follow s t r \<longrightarrow>
     yields (\<lambda>n. ReadStatement n (rd (show_stmt s @ t) 0)) (s, rd r 0))"

lemma follow_same:
  "ends_open s' = ends_open s \<Longrightarrow> steals s' = steals s \<Longrightarrow> follow s t r \<Longrightarrow> follow s' t r"
  by (auto simp: follow_def)

lemma follow_stop: "follow s t r \<Longrightarrow> stop_all t"
  by (auto simp: follow_def stop_kw)

lemma follow_no_punct:
  "follow s t r \<Longrightarrow> p \<noteq> '';'' \<Longrightarrow> \<not> IsPunctuation (head t) p"
  by (auto simp: follow_def)

lemma follow_closed: "follow s t r \<Longrightarrow> \<not> ends_open s \<Longrightarrow> r = t"
  by (auto simp: follow_def)

lemma SkipSemicolons_rd:
  "\<not> IsPunctuation (head u) '';'' \<Longrightarrow> SkipSemicolons (rd u d) = rd u d"
  "\<not> IsPunctuation (head u) '';'' \<Longrightarrow> SkipSemicolons (rd (punct '';'' # u) d) = rd u d"
  by (auto simp: SkipSemicolons_def head_def split: list.splits)

lemma yields_from: "(\<And>n. f (Suc n) = Inr x) \<Longrightarrow> yields f x"
  by (rule yields_const)

text \<open>Lists of statements.\<close>

definition block_stop :: "token list \<Rightarrow> bool" where
  "block_stop t \<longleftrightarrow> t = [] \<or> (\<exists>u. t = kw ''end'' # u) \<or> (\<exists>u. t = kw ''until'' # u)"

lemma block_stop_head:
  "block_stop t \<Longrightarrow> \<not> IsPunctuation (head t) '';'' \<and> \<not> IsKeyword (head t) ''else''"
  by (auto simp: block_stop_def keyword_kw)

lemma show_block_simps [simp]:
  "show_block [] = []" "show_block (s # ss) = show_stmt s @ punct '';'' # show_block ss"
  by (simp_all add: show_block_def)

lemma block_head:
  assumes "\<forall>s \<in> set ss. wf_stmt s \<and> \<not> is_branch s" "block_stop t"
  shows "\<not> IsPunctuation (head (show_block ss @ t)) '';'' \<and> \<not> IsKeyword (head (show_block ss @ t)) ''else''"
proof (cases ss)
  case (Cons s ss')
  with assms(1) stmt_first [of s] obtain x xs where "show_stmt s = x # xs" "opener x" by auto
  then show ?thesis using Cons by (auto simp: opener_def)
qed (use block_stop_head [OF assms(2)] in simp)

lemma ReadBlock_reads:
  assumes "\<forall>s \<in> set ss. wf_stmt s \<and> \<not> is_branch s \<and> reads_stmt s" "block_stop t"
  shows "yields (\<lambda>n. ReadBlock n (rd (show_block ss @ t) 0)) (ss, rd t 0)"
  using assms(1)
proof (induction ss)
  case Nil
  show ?case
    using assms(2) by (intro yields_from) (auto simp: ReadBlock.simps(2) block_stop_def keyword_kw)
next
  case (Cons s ss)
  let ?u = "show_block ss @ t"
  let ?r = "if ends_open s then ?u else punct '';'' # ?u"
  have u: "\<not> IsPunctuation (head ?u) '';'' \<and> \<not> IsKeyword (head ?u) ''else''"
    using Cons.prems assms(2) by (intro block_head) auto
  then have "follow s (punct '';'' # ?u) ?r" by (simp add: follow_def)
  then have s: "yields (\<lambda>n. ReadStatement n (rd (show_stmt s @ punct '';'' # ?u) 0)) (s, rd ?r 0)"
    using Cons.prems by (simp add: reads_stmt_def)
  from Cons.prems stmt_first [of s] obtain x xs where x: "show_stmt s = x # xs" "opener x" by auto
  have eq: "ReadBlock (Suc n) (rd (show_stmt s @ punct '';'' # ?u) 0) =
      andThen (ReadStatement n (rd (show_stmt s @ punct '';'' # ?u) 0)) (\<lambda>(s, r1).
        andThen (ReadBlock n (SkipSemicolons r1)) (\<lambda>(ss, r2). Inr (s # ss, r2)))" for n
    using x by (simp add: ReadBlock.simps(2) opener_def)
  have "yields (\<lambda>n. ReadBlock n (rd ?u 0)) (ss, rd t 0)" using Cons by simp
  then have rest: "yields (\<lambda>n. andThen (ReadBlock n (SkipSemicolons (rd ?r 0))) (\<lambda>(ss, r2). Inr (s # ss, r2)))
      (s # ss, rd t 0)"
    using u by (auto simp: SkipSemicolons_rd yields_ret intro: yields_bind)
  have "yields (\<lambda>n. ReadBlock n (rd (show_stmt s @ punct '';'' # ?u) 0)) (s # ss, rd t 0)"
    by (rule yields_step, rule eq, rule yields_bind [OF s]) (use rest in simp)
  then show ?case by simp
qed

text \<open>The labels of a branch.\<close>

lemma LabelLoop_reads:
  assumes "\<forall>e \<in> set ls. label_fits e"
  shows "LabelLoop acc (rd (separated (map (show_expr 0) ls) @ punct '':'' # t) 0) =
    Inr (acc @ ls, rd (punct '':'' # t) 0)"
  using assms
proof (induction ls arbitrary: acc)
  case Nil
  show ?case by (subst LabelLoop.simps) simp
next
  case (Cons e ls)
  obtain R where R: "R = (if ls = [] then [] else punct '','' # separated (map (show_expr 0) ls)) @ punct '':'' # t"
    by blast
  from Cons.prems obtain y ys where y: "show_expr 0 e = y # ys" "starter y"
    using first_token [of e 0] by (auto simp: label_fits_def)
  then have colon: "\<not> IsPunctuation y '':''" by (auto simp: starter_def IsPunctuation_def)
  have stop: "stop_all R" and dots: "\<not> IsPunctuation (head R) ''..''" by (auto simp: R)
  have skip: "SkipComma (rd R 0) = rd (separated (map (show_expr 0) ls) @ punct '':'' # t) 0"
    using SkipComma_separated [of "punct '':''" "map (show_expr 0) ls" t 0] by (simp add: R)
  have wf: "well_formed e" "nest 0 e \<le> 128" using Cons.prems by (auto simp: label_fits_def kMaxDepth_def)
  have "LabelLoop acc (rd (show_expr 0 e @ R) 0) = LabelLoop (acc @ [e]) (SkipComma (rd R 0))"
  proof (cases "is_range e")
    case True
    with wf obtain a b where e: "e = Expr RangeExpr [] [a, b]" "well_formed a" "well_formed b"
      "\<not> is_range a" "\<not> is_range b" "nest 0 a \<le> 128" "nest 0 b \<le> 128"
      by (cases e) (auto simp: well_formed.simps nest.simps numeral_2_eq_2 length_Suc_conv)
    have "Ternary (rd (show_expr 0 a @ punct ''..'' # show_expr 0 b @ R) 0) =
        Inr (a, rd (punct ''..'' # show_expr 0 b @ R) 0)"
      using e by (intro Ternary_reads) auto
    then have a: "Ternary (rd (show_expr 0 e @ R) 0) = Inr (a, rd (punct ''..'' # show_expr 0 b @ R) 0)"
      by (simp add: e(1) show_range)
    have b: "Ternary (rd (show_expr 0 b @ R) 0) = Inr (b, rd R 0)"
      using e stop by (intro Ternary_reads) auto
    show ?thesis
      using a b y colon by (subst LabelLoop.simps) (simp add: e(1) [symmetric])
  next
    case False
    then have "Ternary (rd (show_expr 0 e @ R) 0) = Inr (e, rd R 0)"
      using wf stop by (intro Ternary_reads) auto
    then show ?thesis using y colon dots by (subst LabelLoop.simps) simp
  qed
  then show ?case using Cons.IH [of "acc @ [e]"] Cons.prems skip by (simp add: separated_Cons R)
qed

text \<open>The branches of a case.\<close>

lemma show_branch:
  "show_stmt (Stmt CaseBranchStmt e ls [s] els down) =
     separated (map (show_expr 0) ls) @ punct '':'' # show_stmt s @ [punct '';'']"
  by (simp add: show_stmt.simps)

lemma wf_branch:
  assumes "wf_stmt b" "is_branch b"
  obtains ls s where "b = Stmt CaseBranchStmt NoExpr ls [s] [] False" "\<forall>e \<in> set ls. label_fits e"
    "wf_stmt s" "\<not> is_branch s"
  using assms by (cases b) (auto simp: wf_stmt.simps list_all_iff length_Suc_conv)

lemma branch_first:
  assumes "wf_stmt b" "is_branch b"
  shows "\<exists>x xs. show_stmt b = x # xs \<and> opener x"
proof -
  from assms obtain ls s where b: "b = Stmt CaseBranchStmt NoExpr ls [s] [] False" "\<forall>e \<in> set ls. label_fits e"
    by (rule wf_branch)
  show ?thesis
  proof (cases ls)
    case Nil
    then show ?thesis using b by (simp add: show_branch opener_def)
  next
    case (Cons l ls')
    then have "well_formed l" using b by (simp add: label_fits_def)
    from first_token [OF this, of 0] show ?thesis
      using b Cons by (auto simp: show_branch separated_Cons starter_opener)
  qed
qed

definition case_stop :: "Stmt list \<Rightarrow> token list \<Rightarrow> bool" where
  "case_stop bs t \<longleftrightarrow> (\<exists>u. t = kw ''end'' # u) \<or> (\<exists>u. t = kw ''else'' # u) \<and> (bs = [] \<or> \<not> list_ex steals (st_body (last bs)))"

lemma CaseLoop_reads:
  assumes "\<forall>b \<in> set bs. wf_stmt b \<and> is_branch b \<and> (\<forall>s \<in> set (st_body b). reads_stmt s)" "case_stop bs t"
  shows "yields (\<lambda>n. CaseLoop n (rd (concat (map show_stmt bs) @ t) 0)) (bs, rd t 0)"
  using assms
proof (induction bs)
  case Nil
  then show ?case by (intro yields_from) (auto simp: CaseLoop.simps(2) case_stop_def keyword_kw)
next
  case (Cons b bs)
  let ?u = "concat (map show_stmt bs) @ t"
  from Cons.prems(1) obtain ls s where b: "b = Stmt CaseBranchStmt NoExpr ls [s] [] False"
    and ls: "\<forall>e \<in> set ls. label_fits e" and s: "wf_stmt s" "\<not> is_branch s" "reads_stmt s"
    using wf_branch [of b] by auto
  let ?r = "if ends_open s then ?u else punct '';'' # ?u"
  have u: "\<not> IsPunctuation (head ?u) '';'' \<and> (steals s \<longrightarrow> \<not> IsKeyword (head ?u) ''else'')"
  proof (cases bs)
    case Nil
    then show ?thesis using Cons.prems(2) b by (auto simp: case_stop_def keyword_kw)
  next
    case (Cons b' bs')
    then obtain x xs where "show_stmt b' = x # xs" "opener x"
      using Cons.prems(1) branch_first [of b'] by auto
    then show ?thesis using Cons by (auto simp: opener_def)
  qed
  then have "follow s (punct '';'' # ?u) ?r" by (simp add: follow_def)
  then have stmt: "yields (\<lambda>n. ReadStatement n (rd (show_stmt s @ punct '';'' # ?u) 0)) (s, rd ?r 0)"
    using s by (simp add: reads_stmt_def)
  from Cons.prems(1) branch_first [of b] obtain x xs where x: "show_stmt b = x # xs" "opener x" by auto
  have labels: "LabelLoop [] (rd (show_stmt b @ ?u) 0) = Inr (ls, rd (punct '':'' # show_stmt s @ punct '';'' # ?u) 0)"
    using LabelLoop_reads [OF ls, of "[]"] by (simp add: b show_branch)
  then have labels': "LabelLoop [] (rd (x # xs @ ?u) 0) = Inr (ls, rd (punct '':'' # show_stmt s @ punct '';'' # ?u) 0)"
    using x by simp
  have eq: "CaseLoop (Suc n) (rd (x # xs @ ?u) 0) =
      andThen (ReadStatement n (rd (show_stmt s @ punct '';'' # ?u) 0)) (\<lambda>(s, r3).
        andThen (CaseLoop n (SkipSemicolons r3)) (\<lambda>(branches, r4).
          Inr (Stmt CaseBranchStmt NoExpr ls [s] [] False # branches, r4)))" for n
    using x(2) by (simp add: CaseLoop.simps(2) opener_def labels')
  have "case_stop bs t" using Cons.prems(2) by (auto simp: case_stop_def split: if_splits)
  then have "yields (\<lambda>n. CaseLoop n (rd ?u 0)) (bs, rd t 0)" using Cons by simp
  then have rest: "yields (\<lambda>n. andThen (CaseLoop n (SkipSemicolons (rd ?r 0))) (\<lambda>(branches, r4).
      Inr (Stmt CaseBranchStmt NoExpr ls [s] [] False # branches, r4))) (b # bs, rd t 0)"
    using u by (auto simp: SkipSemicolons_rd yields_ret b intro: yields_bind)
  have "yields (\<lambda>n. CaseLoop n (rd (x # xs @ ?u) 0)) (b # bs, rd t 0)"
    by (rule yields_step, rule eq, rule yields_bind [OF stmt]) (use rest in simp)
  then show ?case using x by simp
qed

section \<open>Every kind of statement\<close>

lemma reads_value:
  assumes "value_fits e"
  shows "reads_stmt (Stmt ExpressionStmt e [] [] [] False)"
  unfolding reads_stmt_def
proof (intro allI impI)
  fix t r
  let ?s = "Stmt ExpressionStmt e [] [] [] False"
  assume follow: "follow ?s t r"
  then have r: "r = t" by (auto simp: follow_def ends_open.simps)
  have none: "find (\<lambda>a. IsPunctuation (head t) a) assignments = None"
    using follow_no_punct [OF follow] by (auto simp: assignments_def)
  have stop: "stop_all t" using follow by (rule follow_stop)
  obtain x xs where x: "show_value e = x # xs" "starter x" using value_first [OF assms] by blast
  have "ReadValue (rd (show_value e @ t) 0) = Inr (?s, rd t 0)"
  proof (cases "ex_kind e = BinaryExpr \<and> ex_text e \<in> set assignments")
    case True
    with assms obtain a b where e: "e = Expr BinaryExpr (ex_text e) [a, b]" "fits a" "fits b"
      by (cases e) (auto simp: value_fits_def numeral_2_eq_2 length_Suc_conv)
    have op: "find (\<lambda>a. IsPunctuation (punct (ex_text e)) a) assignments = Some (ex_text e)"
      and stop_op: "stop_all (punct (ex_text e) # show_expr 0 b @ t)"
      using True by (auto simp: assignments_def stop_all_def stop_postfix_def PrecedenceOf_def kLevels_def)
    have "show_value e = show_expr 0 a @ punct (ex_text e) # show_expr 0 b"
      by (subst e(1)) (use True in \<open>simp add: show_value_def\<close>)
    then show ?thesis
      using Ternary_fits [OF e(2) stop_op] Ternary_fits [OF e(3) stop] op e(1) by (simp add: ReadValue_def)
  next
    case False
    then have "fits e" "show_value e = show_expr 0 e"
      using assms by (auto simp: value_fits_def show_value_def split: if_splits)
    then show ?thesis using Ternary_fits [OF _ stop] none by (simp add: ReadValue_def)
  qed
  moreover have "ReadStatement (Suc n) (rd (x # xs @ t) 0) = ReadValue (rd (x # xs @ t) 0)" for n
    using starter_keyword [OF x(2)] by (simp add: ReadStatement.simps(2) reserved_def)
  ultimately show "yields (\<lambda>n. ReadStatement n (rd (show_stmt ?s @ t) 0)) (?s, rd r 0)"
    using x r by (intro yields_from) (simp add: show_stmt.simps)
qed

text \<open>A statement that ends in another: what is left after its head is a step of the reader.\<close>

lemma reads_tail:
  assumes "reads_stmt b" "ends_open s = ends_open b" "steals s = steals b"
    and step: "\<And>t z. stop_all t \<Longrightarrow> yields (\<lambda>n. andThen (ReadStatement n (rd (show_stmt b @ t) 0)) (\<lambda>(x, r). Inr (f x, r))) z \<Longrightarrow>
      yields (\<lambda>n. ReadStatement n (rd (show_stmt s @ t) 0)) z"
    and "f b = s"
  shows "reads_stmt s"
  unfolding reads_stmt_def
proof (intro allI impI)
  fix t r
  assume follow: "follow s t r"
  then have "follow b t r" using assms(2,3) by (auto intro: follow_same)
  then have "yields (\<lambda>n. ReadStatement n (rd (show_stmt b @ t) 0)) (b, rd r 0)"
    using assms(1) by (simp add: reads_stmt_def)
  then have "yields (\<lambda>n. andThen (ReadStatement n (rd (show_stmt b @ t) 0)) (\<lambda>(x, r). Inr (f x, r))) (s, rd r 0)"
    using assms(5) by (auto simp: yields_ret intro: yields_bind)
  then show "yields (\<lambda>n. ReadStatement n (rd (show_stmt s @ t) 0)) (s, rd r 0)"
    by (rule step [OF follow_stop [OF follow]])
qed

lemma reads_loops:
  assumes "reads_stmt b" "fits e" "(k, w) \<in> {(WhileStmt, ''while''), (WithStmt, ''with'')}"
  shows "reads_stmt (Stmt k e [] [b] [] False)"
proof (rule reads_tail [OF assms(1)])
  fix t z
  let ?s = "Stmt k e [] [b] [] False"
  assume z: "yields (\<lambda>n. andThen (ReadStatement n (rd (show_stmt b @ t) 0)) (\<lambda>(x, r). Inr (Stmt k e [] [x] [] False, r))) z"
  have "Ternary (rd (show_expr 0 e @ kw ''do'' # show_stmt b @ t) 0) = Inr (e, rd (kw ''do'' # show_stmt b @ t) 0)"
    by (rule Ternary_fits [OF assms(2)]) (simp add: stop_kw)
  then have "ReadStatement (Suc n) (rd (show_stmt ?s @ t) 0) =
      andThen (ReadStatement n (rd (show_stmt b @ t) 0)) (\<lambda>(x, r). Inr (Stmt k e [] [x] [] False, r))" for n
    using assms(3) by (elim insertE emptyE Pair_inject; simp add: show_stmt.simps ReadStatement.simps(2) keyword_kw)
  then show "yields (\<lambda>n. ReadStatement n (rd (show_stmt ?s @ t) 0)) z" by (rule yields_step [OF _ z])
qed (use assms(3) in \<open>auto simp: ends_open.simps steals.simps\<close>)

lemma reads_asserterror:
  assumes "reads_stmt b"
  shows "reads_stmt (Stmt AssertErrorStmt NoExpr [] [b] [] False)"
proof (rule reads_tail [OF assms(1)])
  fix t z
  let ?s = "Stmt AssertErrorStmt NoExpr [] [b] [] False"
  assume z: "yields (\<lambda>n. andThen (ReadStatement n (rd (show_stmt b @ t) 0))
    (\<lambda>(x, r). Inr (Stmt AssertErrorStmt NoExpr [] [x] [] False, r))) z"
  have "ReadStatement (Suc n) (rd (show_stmt ?s @ t) 0) =
      andThen (ReadStatement n (rd (show_stmt b @ t) 0)) (\<lambda>(x, r). Inr (Stmt AssertErrorStmt NoExpr [] [x] [] False, r))" for n
    by (simp add: show_stmt.simps ReadStatement.simps(2) keyword_kw)
  then show "yields (\<lambda>n. ReadStatement n (rd (show_stmt ?s @ t) 0)) z" by (rule yields_step [OF _ z])
qed (auto simp: ends_open.simps steals.simps)

lemma Postfix_fits: "postfix_fits e \<Longrightarrow> stop_postfix t \<Longrightarrow> Postfix (rd (show_expr 6 e @ t) 0) = Inr (e, rd t 0)"
  by (intro Postfix_reads) (auto simp: postfix_fits_def kMaxDepth_def)

lemma reads_for:
  assumes "reads_stmt b" "postfix_fits c" "fits a" "fits l"
  shows "reads_stmt (Stmt ForStmt (Expr BinaryExpr '':='' [c, a]) [l] [b] [] down)"
proof (rule reads_tail [OF assms(1)])
  fix t z
  let ?s = "Stmt ForStmt (Expr BinaryExpr '':='' [c, a]) [l] [b] [] down"
  let ?do = "kw ''do'' # show_stmt b @ t" and ?to = "kw (if down then ''downto'' else ''to'')"
  let ?rest = "show_expr 6 c @ punct '':='' # show_expr 0 a @ ?to # show_expr 0 l @ ?do"
  assume z: "yields (\<lambda>n. andThen (ReadStatement n (rd (show_stmt b @ t) 0))
    (\<lambda>(x, r). Inr (Stmt ForStmt (Expr BinaryExpr '':='' [c, a]) [l] [x] [] down, r))) z"
  have c: "Postfix (rd ?rest 0) = Inr (c, rd (punct '':='' # show_expr 0 a @ ?to # show_expr 0 l @ ?do) 0)"
    by (rule Postfix_fits [OF assms(2)]) (simp add: stop_postfix_def)
  have a: "Ternary (rd (show_expr 0 a @ ?to # show_expr 0 l @ ?do) 0) = Inr (a, rd (?to # show_expr 0 l @ ?do) 0)"
    by (rule Ternary_fits [OF assms(3)]) (simp add: stop_kw)
  have l: "Ternary (rd (show_expr 0 l @ ?do) 0) = Inr (l, rd ?do 0)"
    by (rule Ternary_fits [OF assms(4)]) (simp add: stop_kw)
  have shw: "show_stmt ?s @ t = kw ''for'' # ?rest" by (simp add: show_stmt.simps)
  have loop: "ReadFor (Suc n) (rd (kw ''for'' # ?rest) 0) =
      andThen (ReadStatement n (rd (show_stmt b @ t) 0))
        (\<lambda>(x, r). Inr (Stmt ForStmt (Expr BinaryExpr '':='' [c, a]) [l] [x] [] down, r))" for n
    using c a l by (cases down) (simp_all add: ReadFor.simps(2) keyword_kw)
  have stmt: "ReadStatement (Suc n) (rd (kw ''for'' # ?rest) 0) = ReadFor n (rd (kw ''for'' # ?rest) 0)" for n
    by (simp add: ReadStatement.simps(2) keyword_kw)
  show "yields (\<lambda>n. ReadStatement n (rd (show_stmt ?s @ t) 0)) z"
    unfolding shw by (rule yields_step [OF stmt yields_step [OF loop z]])
qed (auto simp: ends_open.simps steals.simps)

lemma reads_foreach:
  assumes "reads_stmt b" "postfix_fits c" "fits l"
  shows "reads_stmt (Stmt ForEachStmt c [l] [b] [] False)"
proof (rule reads_tail [OF assms(1)])
  fix t z
  let ?s = "Stmt ForEachStmt c [l] [b] [] False"
  let ?do = "kw ''do'' # show_stmt b @ t"
  let ?rest = "show_expr 6 c @ kw ''in'' # show_expr 0 l @ ?do"
  assume z: "yields (\<lambda>n. andThen (ReadStatement n (rd (show_stmt b @ t) 0))
    (\<lambda>(x, r). Inr (Stmt ForEachStmt c [l] [x] [] False, r))) z"
  have c: "Postfix (rd ?rest 0) = Inr (c, rd (kw ''in'' # show_expr 0 l @ ?do) 0)"
    by (rule Postfix_fits [OF assms(2)]) simp
  have l: "Ternary (rd (show_expr 0 l @ ?do) 0) = Inr (l, rd ?do 0)"
    by (rule Ternary_fits [OF assms(3)]) (simp add: stop_kw)
  have shw: "show_stmt ?s @ t = kw ''foreach'' # ?rest" by (simp add: show_stmt.simps)
  have each: "ReadForEach (Suc n) (rd (kw ''foreach'' # ?rest) 0) =
      andThen (ReadStatement n (rd (show_stmt b @ t) 0)) (\<lambda>(x, r). Inr (Stmt ForEachStmt c [l] [x] [] False, r))" for n
    using c l by (simp add: ReadForEach.simps(2))
  have stmt: "ReadStatement (Suc n) (rd (kw ''foreach'' # ?rest) 0) = ReadForEach n (rd (kw ''foreach'' # ?rest) 0)" for n
    by (simp add: ReadStatement.simps(2) keyword_kw)
  show "yields (\<lambda>n. ReadStatement n (rd (show_stmt ?s @ t) 0)) z"
    unfolding shw by (rule yields_step [OF stmt yields_step [OF each z]])
qed (auto simp: ends_open.simps steals.simps)

lemma reads_if_else:
  assumes "reads_stmt b" "\<not> ends_open b" "reads_stmt c" "fits e"
  shows "reads_stmt (Stmt IfStmt e [] [b] [c] False)"
proof (rule reads_tail [OF assms(3)])
  fix t z
  let ?s = "Stmt IfStmt e [] [b] [c] False"
  let ?else = "kw ''else'' # show_stmt c @ t"
  let ?rest = "show_expr 0 e @ kw ''then'' # show_stmt b @ ?else"
  assume z: "yields (\<lambda>n. andThen (ReadStatement n (rd (show_stmt c @ t) 0))
    (\<lambda>(x, r). Inr (Stmt IfStmt e [] [b] [x] False, r))) z"
  have e: "Ternary (rd ?rest 0) = Inr (e, rd (kw ''then'' # show_stmt b @ ?else) 0)"
    by (rule Ternary_fits [OF assms(4)]) (simp add: stop_kw)
  have "follow b ?else ?else" using assms(2) by (simp add: follow_def)
  then have b: "yields (\<lambda>n. ReadStatement n (rd (show_stmt b @ ?else) 0)) (b, rd ?else 0)"
    using assms(1) by (simp add: reads_stmt_def)
  have shw: "show_stmt ?s @ t = kw ''if'' # ?rest" by (simp add: show_stmt.simps)
  have if_: "ReadIf (Suc n) (rd (kw ''if'' # ?rest) 0) = andThen (ReadStatement n (rd (show_stmt b @ ?else) 0)) (\<lambda>(s, r4).
      if \<not> AtPunctuation '';'' r4 \<and> AtKeyword ''else'' r4 then
        andThen (ReadStatement n (AdvanceToken r4)) (\<lambda>(s', r5). Inr (Stmt IfStmt e [] [s] [s'] False, r5))
      else Inr (Stmt IfStmt e [] [s] [] False, SkipSemicolons r4))" for n
    using e by (simp add: ReadIf.simps(2))
  have "yields (\<lambda>n. ReadIf n (rd (kw ''if'' # ?rest) 0)) z"
    by (rule yields_step, rule if_, rule yields_bind [OF b]) (use z in \<open>simp add: keyword_kw\<close>)
  then show "yields (\<lambda>n. ReadStatement n (rd (show_stmt ?s @ t) 0)) z"
    unfolding shw by (rule yields_step [rotated]) (simp add: ReadStatement.simps(2) keyword_kw)
qed (auto simp: ends_open.simps steals.simps)

lemma steals_open: "steals b \<longrightarrow> ends_open b"
  by (induction b) (auto simp: steals.simps ends_open.simps list_ex_iff)

lemma reads_if:
  assumes "reads_stmt b" "fits e"
  shows "reads_stmt (Stmt IfStmt e [] [b] [] False)"
  unfolding reads_stmt_def
proof (intro allI impI)
  fix t r
  let ?s = "Stmt IfStmt e [] [b] [] False"
  let ?rest = "show_expr 0 e @ kw ''then'' # show_stmt b @ t"
  assume "follow ?s t r"
  then obtain u where t: "t = punct '';'' # u" "r = u" "\<not> IsPunctuation (head u) '';''"
    and open_else: "ends_open b \<longrightarrow> \<not> IsKeyword (head u) ''else''"
    by (auto simp: follow_def ends_open.simps steals.simps)
  let ?r = "if ends_open b then u else t"
  have "steals b \<longrightarrow> ends_open b"
    by (rule steals_open)
  then have "follow b t ?r" using t open_else by (auto simp: follow_def)
  then have b: "yields (\<lambda>n. ReadStatement n (rd (show_stmt b @ t) 0)) (b, rd ?r 0)"
    using assms(1) by (simp add: reads_stmt_def)
  have e: "Ternary (rd ?rest 0) = Inr (e, rd (kw ''then'' # show_stmt b @ t) 0)"
    by (rule Ternary_fits [OF assms(2)]) (simp add: stop_kw)
  have if_: "ReadIf (Suc n) (rd (kw ''if'' # ?rest) 0) = andThen (ReadStatement n (rd (show_stmt b @ t) 0)) (\<lambda>(s, r4).
      if \<not> AtPunctuation '';'' r4 \<and> AtKeyword ''else'' r4 then
        andThen (ReadStatement n (AdvanceToken r4)) (\<lambda>(s', r5). Inr (Stmt IfStmt e [] [s] [s'] False, r5))
      else Inr (Stmt IfStmt e [] [s] [] False, SkipSemicolons r4))" for n
    using e by (simp add: ReadIf.simps(2))
  have "yields (\<lambda>n. ReadIf n (rd (kw ''if'' # ?rest) 0)) (?s, rd r 0)"
    by (rule yields_step, rule if_, rule yields_bind [OF b])
      (use t open_else in \<open>auto simp: SkipSemicolons_rd yields_ret\<close>)
  moreover have "show_stmt ?s @ t = kw ''if'' # ?rest" by (simp add: show_stmt.simps)
  ultimately show "yields (\<lambda>n. ReadStatement n (rd (show_stmt ?s @ t) 0)) (?s, rd r 0)"
    by (auto simp: ReadStatement.simps(2) keyword_kw intro: yields_step [rotated])
qed

lemma reads_simple:
  assumes "\<not> ends_open s"
    and "\<And>t. stop_all t \<Longrightarrow> \<not> IsPunctuation (head t) ''('' \<Longrightarrow> \<not> IsPunctuation (head t) '':='' \<Longrightarrow>
      yields (\<lambda>n. ReadStatement n (rd (show_stmt s @ t) 0)) (s, rd t 0)"
  shows "reads_stmt s"
  unfolding reads_stmt_def
proof (intro allI impI)
  fix t r
  assume follow: "follow s t r"
  have "yields (\<lambda>n. ReadStatement n (rd (show_stmt s @ t) 0)) (s, rd t 0)"
    using follow_stop [OF follow] follow_no_punct [OF follow] by (intro assms(2)) auto
  then show "yields (\<lambda>n. ReadStatement n (rd (show_stmt s @ t) 0)) (s, rd r 0)"
    using follow_closed [OF follow assms(1)] by simp
qed

lemma reads_block:
  assumes "\<forall>s \<in> set ss. wf_stmt s \<and> \<not> is_branch s \<and> reads_stmt s"
  shows "reads_stmt (Stmt BlockStmt NoExpr [] ss [] False)"
proof (rule reads_simple)
  fix t
  let ?s = "Stmt BlockStmt NoExpr [] ss [] False"
  have body: "yields (\<lambda>n. ReadBlock n (rd (show_block ss @ kw ''end'' # t) 0)) (ss, rd (kw ''end'' # t) 0)"
    by (rule ReadBlock_reads [OF assms]) (simp add: block_stop_def)
  have eq: "ReadStatement (Suc n) (rd (show_stmt ?s @ t) 0) =
      andThen (ReadBlock n (rd (show_block ss @ kw ''end'' # t) 0)) (\<lambda>(body, r1).
        andThen (Expect ''end'' r1) (\<lambda>r2. Inr (Stmt BlockStmt NoExpr [] body [] False, r2)))" for n
    by (simp add: show_stmt.simps show_block_def ReadStatement.simps(2) keyword_kw)
  show "yields (\<lambda>n. ReadStatement n (rd (show_stmt ?s @ t) 0)) (?s, rd t 0)"
    by (rule yields_step, rule eq, rule yields_bind [OF body]) (simp add: yields_ret)
qed (simp add: ends_open.simps)

lemma reads_repeat:
  assumes "\<forall>s \<in> set ss. wf_stmt s \<and> \<not> is_branch s \<and> reads_stmt s" "fits e"
  shows "reads_stmt (Stmt RepeatStmt e [] ss [] False)"
proof (rule reads_simple)
  fix t
  let ?s = "Stmt RepeatStmt e [] ss [] False" and ?until = "kw ''until'' # show_expr 0 e @ t"
  assume "stop_all t"
  then have e: "Ternary (rd (show_expr 0 e @ t) 0) = Inr (e, rd t 0)" by (rule Ternary_fits [OF assms(2)])
  have body: "yields (\<lambda>n. ReadBlock n (rd (show_block ss @ ?until) 0)) (ss, rd ?until 0)"
    by (rule ReadBlock_reads [OF assms(1)]) (simp add: block_stop_def)
  have eq: "ReadStatement (Suc n) (rd (show_stmt ?s @ t) 0) =
      andThen (ReadBlock n (rd (show_block ss @ ?until) 0)) (\<lambda>(body, r1).
        andThen (Expect ''until'' r1) (\<lambda>r2.
          andThen (Ternary r2) (\<lambda>(e, r3). Inr (Stmt RepeatStmt e [] body [] False, r3))))" for n
    by (simp add: show_stmt.simps show_block_def ReadStatement.simps(2) keyword_kw)
  show "yields (\<lambda>n. ReadStatement n (rd (show_stmt ?s @ t) 0)) (?s, rd t 0)"
    by (rule yields_step, rule eq, rule yields_bind [OF body]) (simp add: yields_ret e)
qed (simp add: ends_open.simps)

lemma reads_case:
  assumes "\<forall>b \<in> set bs. wf_stmt b \<and> is_branch b \<and> (\<forall>s \<in> set (st_body b). reads_stmt s)" "fits e"
    and "\<forall>s \<in> set els. wf_stmt s \<and> \<not> is_branch s \<and> reads_stmt s"
    and "els \<noteq> [] \<longrightarrow> bs \<noteq> [] \<longrightarrow> \<not> list_ex steals (st_body (last bs))"
  shows "reads_stmt (Stmt CaseStmt e [] bs els False)"
proof (rule reads_simple)
  fix t
  let ?s = "Stmt CaseStmt e [] bs els False"
  let ?close = "kw ''end'' # t"
  let ?else = "(if els = [] then [] else kw ''else'' # show_block els) @ ?close"
  let ?rest = "show_expr 0 e @ kw ''of'' # concat (map show_stmt bs) @ ?else"
  have e: "Ternary (rd ?rest 0) = Inr (e, rd (kw ''of'' # concat (map show_stmt bs) @ ?else) 0)"
    by (rule Ternary_fits [OF assms(2)]) (simp add: stop_kw)
  have branches: "yields (\<lambda>n. CaseLoop n (rd (concat (map show_stmt bs) @ ?else) 0)) (bs, rd ?else 0)"
    by (rule CaseLoop_reads [OF assms(1)]) (use assms(4) in \<open>auto simp: case_stop_def\<close>)
  have block: "yields (\<lambda>n. ReadBlock n (rd (show_block els @ ?close) 0)) (els, rd ?close 0)"
    by (rule ReadBlock_reads [OF assms(3)]) (simp add: block_stop_def)
  have otherwise: "yields (\<lambda>n. if AtKeyword ''else'' (rd ?else 0) then ReadBlock n (AdvanceToken (rd ?else 0))
      else Inr ([], rd ?else 0)) (els, rd ?close 0)"
    using block by (auto simp: keyword_kw yields_ret)
  have tail: "yields (\<lambda>n. andThen (if AtKeyword ''else'' (rd ?else 0) then ReadBlock n (AdvanceToken (rd ?else 0))
      else Inr ([], rd ?else 0)) (\<lambda>(otherwise, r5).
        andThen (Expect ''end'' r5) (\<lambda>r6. Inr (Stmt CaseStmt e [] bs otherwise False, r6)))) (?s, rd t 0)"
    by (rule yields_bind [OF otherwise]) (simp add: yields_ret)
  have eq: "ReadCase (Suc n) (rd (kw ''case'' # ?rest) 0) =
      andThen (CaseLoop n (rd (concat (map show_stmt bs) @ ?else) 0)) (\<lambda>(branches, r4).
         andThen (if AtKeyword ''else'' r4 then ReadBlock n (AdvanceToken r4) else Inr ([], r4)) (\<lambda>(otherwise, r5).
           andThen (Expect ''end'' r5) (\<lambda>r6. Inr (Stmt CaseStmt e [] branches otherwise False, r6))))" for n
    using e by (simp only: ReadCase.simps(2) Expect_kw andThen_simps case_prod_conv)
  have "yields (\<lambda>n. ReadCase n (rd (kw ''case'' # ?rest) 0)) (?s, rd t 0)"
    by (rule yields_step, rule eq, rule yields_bind [OF branches]) (use tail in \<open>simp only: case_prod_conv\<close>)
  moreover have "show_stmt ?s @ t = kw ''case'' # ?rest" by (simp add: show_stmt.simps show_block_def)
  ultimately show "yields (\<lambda>n. ReadStatement n (rd (show_stmt ?s @ t) 0)) (?s, rd t 0)"
    by (simp only:) (rule yields_step [rotated], assumption, simp add: ReadStatement.simps(2) keyword_kw)
qed (simp add: ends_open.simps)

lemma reads_exit:
  assumes "fits e"
  shows "reads_stmt (Stmt ExitStmt e [] [] [] False)"
proof (rule reads_simple)
  fix t
  let ?s = "Stmt ExitStmt e [] [] [] False"
  assume t: "\<not> IsPunctuation (head t) ''(''"
  have e: "Ternary (rd (show_expr 0 e @ punct '')'' # t) 0) = Inr (e, rd (punct '')'' # t) 0)"
    by (rule Ternary_fits [OF assms]) simp
  show "yields (\<lambda>n. ReadStatement n (rd (show_stmt ?s @ t) 0)) (?s, rd t 0)"
    by (rule yields_from) (use t e in \<open>simp add: show_stmt.simps ReadStatement.simps(2) keyword_kw ReadExit_def\<close>)
qed (simp add: ends_open.simps)

lemma reads_jumps:
  "reads_stmt (Stmt BreakStmt NoExpr [] [] [] False)" "reads_stmt (Stmt ContinueStmt NoExpr [] [] [] False)"
proof -
  have next_token: "Peek 1 (rd (x # t) d) = head t" for x t d
    by (cases t) (simp_all add: Peek_def)
  have name: "\<not> UsedAsName (rd (x # t) 0)" if "stop_all t" "\<not> IsPunctuation (head t) '':=''" for x t
    using that by (auto simp: UsedAsName_def next_token stop_all_def stop_postfix_def simp del: One_nat_def)
  show "reads_stmt (Stmt BreakStmt NoExpr [] [] [] False)"
    by (rule reads_simple) (auto simp: ends_open.simps show_stmt.simps ReadStatement.simps(2) keyword_kw name
        intro!: yields_from)
  show "reads_stmt (Stmt ContinueStmt NoExpr [] [] [] False)"
    by (rule reads_simple) (auto simp: ends_open.simps show_stmt.simps ReadStatement.simps(2) keyword_kw name
        intro!: yields_from)
qed

lemma reads_wf:
  "wf_stmt s \<Longrightarrow> (if is_branch s then \<forall>x \<in> set (st_body s). reads_stmt x else reads_stmt s)"
proof (induction s)
  case (Stmt k e ls body els down)
  let ?s = "Stmt k e ls body els down"
  note wf = Stmt.prems [unfolded wf_stmt.simps list_all_iff]
  have child: "wf_stmt x" if "x \<in> set body \<or> x \<in> set els" for x
    using that wf by (elim conjE) blast
  have other: "\<not> is_branch x \<and> reads_stmt x" if "x \<in> set els" for x
  proof -
    have "\<not> is_branch x" using that wf by (elim conjE) blast
    then show ?thesis using that Stmt.IH(2) [of x] child [of x] by simp
  qed
  have body: "if is_branch x then \<forall>y \<in> set (st_body x). reads_stmt y else reads_stmt x" if "x \<in> set body" for x
    using that Stmt.IH(1) [of x] child [of x] by blast
  have branch: "is_branch x \<longleftrightarrow> k = CaseStmt" if "x \<in> set body" for x
    using that wf by (elim conjE) blast
  have inner: "\<not> is_branch x \<and> reads_stmt x" if "x \<in> set body" "k \<noteq> CaseStmt" for x
    using that body [of x] branch [of x] by simp
  have single: "\<exists>b. body = [b] \<and> reads_stmt b" if "k \<in> {WhileStmt, WithStmt, ForStmt, ForEachStmt, AssertErrorStmt, IfStmt}"
  proof -
    from wf have "k \<notin> {BlockStmt, RepeatStmt, CaseStmt} \<longrightarrow>
        length body = (if k \<in> {ExpressionStmt, ExitStmt, BreakStmt, ContinueStmt} then 0 else 1)"
      by (elim conjE)
    with that have "length body = 1" by auto
    then obtain b where "body = [b]" by (auto simp: length_Suc_conv)
    then show ?thesis using inner [of b] that by auto
  qed
  show ?case
  proof (cases k)
    case ExpressionStmt
    then show ?thesis using wf by (auto intro: reads_value)
  next
    case IfStmt
    with single obtain b where b: "body = [b]" "reads_stmt b" by auto
    show ?thesis
    proof (cases els)
      case Nil
      then show ?thesis using wf b IfStmt by (auto intro: reads_if)
    next
      case (Cons c cs)
      then show ?thesis using wf b other [of c] IfStmt by (auto intro!: reads_if_else)
    qed
  next
    case BlockStmt
    then show ?thesis using wf child inner by (auto intro!: reads_block)
  next
    case RepeatStmt
    then show ?thesis using wf child inner by (auto intro!: reads_repeat)
  next
    case WhileStmt
    then show ?thesis using wf single by (auto intro!: reads_loops)
  next
    case WithStmt
    then show ?thesis using wf single by (auto intro!: reads_loops)
  next
    case ForStmt
    then obtain c a l where "e = Expr BinaryExpr '':='' [c, a]" "ls = [l]"
      using wf by (cases e) (auto simp: numeral_2_eq_2 length_Suc_conv)
    then show ?thesis using ForStmt wf single by (auto intro!: reads_for)
  next
    case ForEachStmt
    then show ?thesis using wf single by (auto simp: length_Suc_conv intro!: reads_foreach)
  next
    case CaseStmt
    then show ?thesis using wf child body other by (auto intro!: reads_case)
  next
    case CaseBranchStmt
    then show ?thesis using inner by auto
  next
    case ExitStmt
    then show ?thesis using wf by (auto intro!: reads_exit)
  next
    case AssertErrorStmt
    then show ?thesis using wf single by (auto intro!: reads_asserterror)
  qed (use wf reads_jumps in auto)
qed

lemma ReadBlock_parses:
  assumes "yields (\<lambda>n. ReadBlock n (rd ts 0)) (ss, r)"
  shows "ParseStatements ts = Inr ss"
proof -
  have "ReadBlock (4 * length ts + 4) (rd ts 0) = Inr (ss, r)"
  proof (rule yields_fuel [where f = "\<lambda>n. ReadBlock n (rd ts 0)", OF assms])
    show "ReadBlock (Suc n) (rd ts 0) = ReadBlock n (rd ts 0)" if "ReadBlock n (rd ts 0) \<noteq> Inl ParseFuel" for n
      by (rule statement_fuel_step(1) [OF that])
    show "ReadBlock (4 * length ts + 4) (rd ts 0) \<noteq> Inl ParseFuel" by (rule statement_enough_fuel) simp
  qed
  then show ?thesis by (simp only: ParseStatements_def andThen_simps case_prod_conv)
qed

lemma ReadBlock_program:
  assumes "list_all (\<lambda>s. wf_stmt s \<and> \<not> is_branch s) ss" "block_stop t"
  shows "ParseStatements (show_block ss @ t) = Inr ss"
proof -
  have "\<forall>s \<in> set ss. wf_stmt s \<and> \<not> is_branch s \<and> reads_stmt s"
    using assms(1) reads_wf by (fastforce simp: list_all_iff)
  from ReadBlock_parses [OF ReadBlock_reads [OF this assms(2)]] show ?thesis .
qed

section \<open>Properties\<close>

text \<open>
  C1: reading statements back: every list of well-formed statements, each followed by a
  semicolon, is read back as the same trees, with every block, loop, case, branch, label and
  range where it was, and every \<open>else\<close> at the \<open>if\<close> or the \<open>case\<close> it was written for.
\<close>

theorem statements_roundtrip:
  assumes "list_all (\<lambda>s. wf_stmt s \<and> \<not> is_branch s) ss"
  shows "ParseStatements (show_block ss) = Inr ss"
  using ReadBlock_program [OF assms, of "[]"] by (simp add: block_stop_def)

abbreviation name :: "string \<Rightarrow> Expr" where
  "name s \<equiv> Expr NameExpr s []"

abbreviation call :: "string \<Rightarrow> Stmt" where
  "call s \<equiv> Stmt ExpressionStmt (Expr CallExpr [] [name s]) [] [] [] False"

text \<open>
  \<^verbatim>\<open>for i := 1 to n do if a then begin x += i; end else while b do f();
  case x of 1..3, y: if a then f(); else repeat exit(x); until b; end;\<close>
\<close>

abbreviation sample_program :: "Stmt list" where
  "sample_program \<equiv>
     [Stmt ForStmt (Expr BinaryExpr '':='' [name ''i'', Expr NumberLiteral ''1'' []]) [name ''n'']
        [Stmt IfStmt (name ''a'') []
          [Stmt BlockStmt NoExpr [] [Stmt ExpressionStmt (Expr BinaryExpr ''+='' [name ''x'', name ''i'']) [] [] [] False] [] False]
          [Stmt WhileStmt (name ''b'') [] [call ''f''] [] False] False] [] False,
      Stmt CaseStmt (name ''x'') []
        [Stmt CaseBranchStmt NoExpr
           [Expr RangeExpr [] [Expr NumberLiteral ''1'' [], Expr NumberLiteral ''3'' []], name ''y'']
           [Stmt IfStmt (name ''a'') [] [call ''f''] [] False] [] False]
        [Stmt RepeatStmt (name ''b'') [] [Stmt ExitStmt (name ''x'') [] [] [] False] [] False] False]"

theorem statements_roundtrip_witness:
  "ParseStatements (show_block sample_program) = Inr sample_program"
proof (rule statements_roundtrip)
  show "list_all (\<lambda>s. wf_stmt s \<and> \<not> is_branch s) sample_program" by code_simp
qed

text \<open>
  parsing statements returns for every token list: it yields statements or a parse error
  of the code, and the model never runs out of the fuel it is given.
\<close>

theorem parse_statements_return:
  "(\<exists>ss. ParseStatements ts = Inr ss) \<or> (\<exists>m. ParseStatements ts = Inl (ParseError m))"
  using ParseStatements_never_fuel [of ts]
  by (cases "ParseStatements ts"; cases "projl (ParseStatements ts)") auto

text \<open>
  at the top level an \<open>end\<close> or \<open>until\<close> that closes nothing ends the reading without an
  error: the statements before it are returned and every token behind it is dropped.
\<close>

theorem stray_end_drops_rest:
  assumes "list_all (\<lambda>s. wf_stmt s \<and> \<not> is_branch s) ss" "w = ''end'' \<or> w = ''until''"
  shows "ParseStatements (show_block ss @ kw w # lost) = Inr ss"
  using assms by (intro ReadBlock_program) (auto simp: block_stop_def)

theorem stray_end_drops_rest_witness:
  "ParseStatements (show_block [call ''f''] @ kw ''end'' # show_block [call ''g'']) = Inr [call ''f'']"
proof (rule stray_end_drops_rest)
  show "list_all (\<lambda>s. wf_stmt s \<and> \<not> is_branch s) [call ''f'']" by code_simp
qed simp

text \<open>
  a branch of a \<open>case\<close> that ends in nested \<open>if\<close>s takes the \<open>else\<close> of the \<open>case\<close>: in
  \<^verbatim>\<open>case x of y: if a then if b then f(); else g(); end;\<close> the inner \<open>if\<close> consumes the semicolon
  that ends the branch, so the outer \<open>if\<close> no longer sees it and reads the \<open>else\<close> as its own.
\<close>

theorem nested_if_steals_case_else:
  "ParseStatements
     ([kw ''case'', kw ''x'', kw ''of'', kw ''y'', punct '':'', kw ''if'', kw ''a'', kw ''then'', kw ''if'', kw ''b'',
       kw ''then'', kw ''f'', punct ''('', punct '')'', punct '';'', kw ''else'', kw ''g'', punct ''('', punct '')'',
       punct '';'', kw ''end'', punct '';'']) =
   Inr [Stmt CaseStmt (name ''x'') []
     [Stmt CaseBranchStmt NoExpr [name ''y'']
       [Stmt IfStmt (name ''a'') [] [Stmt IfStmt (name ''b'') [] [call ''f''] [] False] [call ''g''] False] [] False] [] False]"
  by code_simp

end
