(* ===== verification/Wide.thy ===== *)
theory Wide
  imports Prelude
begin

unbundle bit_operations_syntax

text \<open>
  The 192-bit integer \<open>U192\<close> of \<^verbatim>\<open>src/src/net/Decimal.cpp\<close>: three 64-bit limbs, the lowest
  first. A limb is a natural number below \<open>2 ^ 64\<close> and a \<open>U128\<close> one below \<open>2 ^ 128\<close>, with every
  truncation of the code written out as \<open>mod\<close>; the code's loops over the limbs are recursions
  over the list. Each operation is shown to compute on the integer the limbs stand for
  (\<open>wide_value\<close>) and to keep the limbs in range (\<open>limbs_ok\<close>).
\<close>

section \<open>The operations\<close>

type_synonym u192 = "nat list"

definition kLimbBits :: nat where
  "kLimbBits = 64"

abbreviation kLimb :: nat where
  "kLimb \<equiv> 2 ^ 64"

definition FromU128 :: "nat \<Rightarrow> u192" where
  "FromU128 v = [v mod kLimb, v div 2 ^ kLimbBits mod kLimb, 0]"

definition ZeroWide :: u192 where
  "ZeroWide = [0, 0, 0]"

definition FitsU128 :: "u192 \<Rightarrow> bool" where
  "FitsU128 w \<longleftrightarrow> w ! 2 = 0"

definition ToU128 :: "u192 \<Rightarrow> nat" where
  "ToU128 w = (w ! 1 * 2 ^ kLimbBits mod 2 ^ 128) OR (w ! 0)"

definition Bit :: "nat \<Rightarrow> u192 \<Rightarrow> bool" where
  "Bit i w \<longleftrightarrow> (w ! (i div kLimbBits) div 2 ^ (i mod kLimbBits)) AND 1 \<noteq> 0"

definition ShiftLeft1 :: "u192 \<Rightarrow> u192" where
  "ShiftLeft1 w =
     [w ! 0 * 2 mod kLimb,
      (w ! 1 * 2 mod kLimb) OR (w ! 0 div 2 ^ 63),
      (w ! 2 * 2 mod kLimb) OR (w ! 1 div 2 ^ 63)]"

definition SetBit :: "nat \<Rightarrow> u192 \<Rightarrow> u192" where
  "SetBit i w = w[i div kLimbBits := w ! (i div kLimbBits) OR (2 ^ (i mod kLimbBits))]"

fun Increment :: "u192 \<Rightarrow> u192" where
  "Increment [] = []"
| "Increment (limb # ws) =
     (let limb = (limb + 1) mod kLimb in if limb \<noteq> 0 then limb # ws else limb # Increment ws)"

fun TimesTenLoop :: "nat \<Rightarrow> u192 \<Rightarrow> u192 \<times> nat" where
  "TimesTenLoop carry [] = ([], carry)"
| "TimesTenLoop carry (limb # ws) =
     (let t = (limb * 10 + carry) mod 2 ^ 128; (out, c) = TimesTenLoop (t div 2 ^ kLimbBits) ws
      in (t mod kLimb # out, c))"

definition TimesTen :: "u192 \<Rightarrow> bool \<times> u192" where
  "TimesTen w = (case TimesTenLoop 0 w of (out, carry) \<Rightarrow> (carry = 0, out))"

fun DivModSmall :: "nat \<Rightarrow> u192 \<Rightarrow> u192 \<times> nat" where
  "DivModSmall d [] = ([], 0)"
| "DivModSmall d (limb # ws) =
     (let (q, r) = DivModSmall d ws; cur = (r * 2 ^ kLimbBits mod 2 ^ 128) OR limb
      in (cur div d mod kLimb # q, cur mod d))"

fun CompareWide :: "u192 \<Rightarrow> u192 \<Rightarrow> ordering" where
  "CompareWide (a # as) (b # bs) =
     (case CompareWide as bs of
        Ord_equal \<Rightarrow> if a \<noteq> b then (if a < b then Ord_less else Ord_greater) else Ord_equal
      | c \<Rightarrow> c)"
| "CompareWide _ _ = Ord_equal"

fun AddLoop :: "nat \<Rightarrow> u192 \<Rightarrow> u192 \<Rightarrow> u192" where
  "AddLoop carry (a # as) (b # bs) =
     (let t = (a + b + carry) mod 2 ^ 128 in t mod kLimb # AddLoop (t div 2 ^ kLimbBits) as bs)"
| "AddLoop carry _ _ = []"

definition AddWide :: "u192 \<Rightarrow> u192 \<Rightarrow> u192" where
  "AddWide = AddLoop 0"

fun SubLoop :: "nat \<Rightarrow> u192 \<Rightarrow> u192 \<Rightarrow> u192" where
  "SubLoop borrow (lhs # as) (rhs # bs) =
     (size_sub (size_sub lhs rhs) borrow #
      SubLoop (if lhs < rhs \<or> lhs = rhs \<and> borrow = 1 \<or> rhs < lhs \<and> size_sub lhs rhs < borrow then 1 else 0) as bs)"
| "SubLoop borrow _ _ = []"

definition SubWide :: "u192 \<Rightarrow> u192 \<Rightarrow> u192" where
  "SubWide = SubLoop 0"

definition MultipliedBy :: "u192 \<Rightarrow> nat \<Rightarrow> u192" where
  "MultipliedBy w b =
     (let a = ToU128 w;
          a0 = a mod kLimb; a1 = a div 2 ^ kLimbBits mod kLimb;
          b0 = b mod kLimb; b1 = b div 2 ^ kLimbBits mod kLimb;
          p00 = a0 * b0 mod 2 ^ 128; p01 = a0 * b1 mod 2 ^ 128;
          p10 = a1 * b0 mod 2 ^ 128; p11 = a1 * b1 mod 2 ^ 128;
          mid = (p00 div 2 ^ kLimbBits + p01 mod kLimb + p10 mod kLimb) mod 2 ^ 128
      in [p00 mod kLimb, mid mod kLimb,
          (mid div 2 ^ kLimbBits + p01 div 2 ^ kLimbBits + p10 div 2 ^ kLimbBits + p11) mod 2 ^ 128 mod kLimb])"

text \<open>The loop of \<open>DividedBy\<close>, from bit \<open>i - 1\<close> down to bit 0.\<close>

fun DivideLoop :: "nat \<Rightarrow> u192 \<Rightarrow> u192 \<Rightarrow> u192 \<Rightarrow> u192 \<Rightarrow> u192 \<times> u192" where
  "DivideLoop 0 w divisor q r = (q, r)"
| "DivideLoop (Suc i) w divisor q r =
     (let r = ShiftLeft1 r; r = (if Bit i w then r[0 := r ! 0 OR 1] else r) in
      if CompareWide r divisor \<noteq> Ord_less
      then DivideLoop i w divisor (SetBit i q) (SubWide r divisor)
      else DivideLoop i w divisor q r)"

definition DividedBy :: "u192 \<Rightarrow> u192 \<Rightarrow> u192 \<times> u192" where
  "DividedBy w divisor = DivideLoop 192 w divisor ZeroWide ZeroWide"

section \<open>The integer the limbs stand for\<close>

fun wide_value :: "u192 \<Rightarrow> nat" where
  "wide_value [] = 0"
| "wide_value (limb # ws) = limb + kLimb * wide_value ws"

definition limbs_ok :: "u192 \<Rightarrow> bool" where
  "limbs_ok w \<longleftrightarrow> (\<forall>limb \<in> set w. limb < kLimb)"

abbreviation wide_ok :: "u192 \<Rightarrow> bool" where
  "wide_ok w \<equiv> length w = 3 \<and> limbs_ok w"

lemma limbs_ok_simps [simp]:
  "limbs_ok []" "limbs_ok (limb # ws) \<longleftrightarrow> limb < kLimb \<and> limbs_ok ws"
  by (auto simp: limbs_ok_def)

lemma wide_value_less: "limbs_ok w \<Longrightarrow> wide_value w < kLimb ^ length w"
proof (induction w)
  case (Cons limb ws)
  then have "kLimb * (wide_value ws + 1) \<le> kLimb * kLimb ^ length ws" by (intro mult_le_mono2) simp
  then show ?case using Cons.prems by simp
qed simp

lemma wide_cases: "length w = 3 \<Longrightarrow> (\<And>a b c. w = [a, b, c] \<Longrightarrow> P) \<Longrightarrow> P"
  by (auto simp: numeral_3_eq_3 length_Suc_conv)

lemma wide_ok_less: "wide_ok w \<Longrightarrow> wide_value w < 2 ^ 192"
  using wide_value_less [of w] by (simp add: power_mult [symmetric])

text \<open>An \<open>OR\<close> of numbers without common bits is their sum.\<close>

lemma or_shifted: "b < 2 ^ n \<Longrightarrow> (a * 2 ^ n) OR b = a * 2 ^ n + (b :: nat)"
proof -
  assume "b < 2 ^ n"
  then have "take_bit n b = b" by (simp add: take_bit_eq_mod)
  moreover have "push_bit n a AND take_bit n b = 0"
    by (rule bit_eqI) (auto simp: bit_and_iff bit_push_bit_iff bit_take_bit_iff)
  ultimately show ?thesis using disjunctive_add_eq_or [of "push_bit n a" b] by (simp add: push_bit_eq_mult)
qed

section \<open>The operations on the integer\<close>

lemma FromU128_value [simp]: "v < 2 ^ 128 \<Longrightarrow> wide_value (FromU128 v) = v"
proof -
  assume "v < 2 ^ 128"
  then have "v div 2 ^ 64 < 2 ^ 64" by (simp add: less_mult_imp_div_less)
  then show ?thesis by (simp add: FromU128_def kLimbBits_def)
qed

lemma FromU128_ok [simp]: "wide_ok (FromU128 v)"
  by (simp add: FromU128_def)

lemma ZeroWide_simps [simp]: "wide_value ZeroWide = 0" "wide_ok ZeroWide"
  by (simp_all add: ZeroWide_def)

lemma FitsU128_iff: "wide_ok w \<Longrightarrow> FitsU128 w \<longleftrightarrow> wide_value w < 2 ^ 128"
proof -
  assume "wide_ok w"
  then obtain a b c where w: "w = [a, b, c]" "a < kLimb" "b < kLimb" using wide_cases by (metis limbs_ok_simps(2))
  then have "a + kLimb * b < 2 ^ 128" by simp
  then show ?thesis using w by (auto simp: FitsU128_def)
qed

lemma ToU128_value: "wide_ok w \<Longrightarrow> ToU128 w = wide_value w mod 2 ^ 128"
proof -
  assume "wide_ok w"
  then obtain a b c where w: "w = [a, b, c]" "a < kLimb" "b < kLimb" using wide_cases by (metis limbs_ok_simps(2))
  have "b * 2 ^ 64 mod 2 ^ 128 = b * 2 ^ 64" using w by simp
  then have "ToU128 w = b * 2 ^ 64 + a" using w or_shifted [of a 64 b] by (simp add: ToU128_def kLimbBits_def)
  moreover have "wide_value w = (b * 2 ^ 64 + a) + 2 ^ 128 * c" using w by simp
  moreover have "b * 2 ^ 64 + a < 2 ^ 128" using w by simp
  ultimately show ?thesis by simp
qed

lemma Bit_value:
  assumes "wide_ok w" "i < 192"
  shows "Bit i w \<longleftrightarrow> odd (wide_value w div 2 ^ i)"
proof -
  obtain a b c where w: "w = [a, b, c]" and l: "a < kLimb" "b < kLimb"
    using assms(1) wide_cases by (metis limbs_ok_simps(2))
  have bit: "Bit i w \<longleftrightarrow> odd (w ! (i div 64) div 2 ^ (i mod 64))"
    by (simp add: Bit_def kLimbBits_def and_one_eq odd_iff_mod_2_eq_one)
  have split: "odd ((x + kLimb * y) div 2 ^ j) \<longleftrightarrow> odd (x div 2 ^ j)" if "j < 64" for x y j
  proof -
    have e: "kLimb * y = 2 ^ j * (2 ^ (64 - j) * y)"
      using that by (simp only: mult.assoc [symmetric] power_add [symmetric]) simp
    have "(x + kLimb * y) div 2 ^ j = 2 ^ (64 - j) * y + x div 2 ^ j"
      unfolding e by (rule div_mult_self2) simp
    moreover have "even (2 ^ (64 - j) * y)" using that by simp
    ultimately show ?thesis by simp
  qed
  have up: "(x + kLimb * y) div 2 ^ (64 + j) = y div 2 ^ j" if "x < kLimb" for x y j
    using that by (simp add: power_add div_mult2_eq)
  consider "i < 64" | "64 \<le> i" "i < 128" | "128 \<le> i" by linarith
  then show ?thesis
  proof cases
    case 1
    then show ?thesis using bit split [OF 1, of a "b + kLimb * c"] by (simp add: w)
  next
    case 2
    then obtain k where k: "i = 64 + k" by (auto simp: le_iff_add)
    have "odd (wide_value w div 2 ^ i) \<longleftrightarrow> odd ((b + kLimb * c) div 2 ^ k)"
      using up [OF l(1), of "b + kLimb * c" k] by (simp add: w k)
    then show ?thesis using 2 bit split [of k b c] by (simp add: w k)
  next
    case 3
    then obtain k where k: "i = 64 + (64 + k)" by (metis le_iff_add numeral_Bit0 add.assoc)
    have "wide_value w div 2 ^ i = c div 2 ^ k"
      using up [OF l(1), of "b + kLimb * c" "64 + k"] up [OF l(2), of c k] by (simp add: w k)
    moreover have "(128 + k) mod 64 = k"
    proof -
      have "k < 64" using k assms(2) by simp
      then have "(k + 2 * 64) mod 64 = k" by (simp only: mod_mult_self1 mod_less)
      then show ?thesis by (simp add: add.commute)
    qed
    ultimately show ?thesis using assms(2) bit by (simp add: w k)
  qed
qed

lemma Bit_0: "wide_ok w \<Longrightarrow> Bit 0 w \<longleftrightarrow> odd (wide_value w)"
  by (simp add: Bit_value)

lemma half_limb: "a < kLimb \<Longrightarrow> a * 2 = (a div 2 ^ 63) * kLimb + a * 2 mod kLimb \<and> a div 2 ^ 63 < 2"
proof -
  assume a: "a < kLimb"
  have "a * 2 div kLimb = a div 2 ^ 63" using div_mult_mult2 [of 2 a "2 ^ 63"] by simp
  then have "a * 2 = (a div 2 ^ 63) * kLimb + a * 2 mod kLimb" by (metis div_mult_mod_eq)
  moreover have "a div 2 ^ 63 < 2" using a by (intro less_mult_imp_div_less) simp
  ultimately show ?thesis ..
qed

lemma even_below: "even (e :: nat) \<Longrightarrow> e < kLimb \<Longrightarrow> b < 2 \<Longrightarrow> e + b < kLimb"
  by (elim evenE) simp

lemma or_even: "even a \<Longrightarrow> b < 2 \<Longrightarrow> a OR b = a + (b :: nat)"
  using or_shifted [of b 1 "a div 2"] by auto

lemma carry_limbs:
  "a2 = x * K + a' \<Longrightarrow> b2 = y * K + b' \<Longrightarrow> c2 = z * K + c' \<Longrightarrow>
   a2 + K * (b2 + K * c2) = a' + K * ((b' + x) + K * (c' + y)) + K * (K * (K * z))"
  for a2 b2 c2 a' b' c' x y z K :: nat
  by (simp add: algebra_simps)

lemma ShiftLeft1_value:
  assumes "wide_ok w"
  shows "wide_value (ShiftLeft1 w) = 2 * wide_value w mod 2 ^ 192" and "wide_ok (ShiftLeft1 w)"
proof -
  obtain a b c where w: "w = [a, b, c]" and l: "a < kLimb" "b < kLimb" "c < kLimb"
    using assms wide_cases by (metis limbs_ok_simps(2))
  have even: "even (x * 2 mod kLimb)" for x :: nat by (simp add: dvd_mod)
  have shift: "ShiftLeft1 w = [a * 2 mod kLimb, b * 2 mod kLimb + a div 2 ^ 63, c * 2 mod kLimb + b div 2 ^ 63]"
    using half_limb [OF l(1)] half_limb [OF l(2)] even by (simp add: ShiftLeft1_def w or_even)
  have limbs: "b * 2 mod kLimb + a div 2 ^ 63 < kLimb" "c * 2 mod kLimb + b div 2 ^ 63 < kLimb"
    using half_limb [OF l(1)] half_limb [OF l(2)] even_below [OF even [of b]] even_below [OF even [of c]]
    by auto
  then show "wide_ok (ShiftLeft1 w)" by (simp add: shift)
  let ?v = "wide_value (ShiftLeft1 w)"
  have "a * 2 + kLimb * (b * 2 + kLimb * (c * 2)) = ?v + kLimb * (kLimb * (kLimb * (c div 2 ^ 63)))"
    unfolding shift wide_value.simps mult_0_right add_0_right
    using half_limb [OF l(1)] half_limb [OF l(2)] half_limb [OF l(3)] by (intro carry_limbs) blast+
  then have "2 * wide_value w = ?v + 2 ^ 192 * (c div 2 ^ 63)" by (simp add: w)
  moreover have "?v < 2 ^ 192" using \<open>wide_ok (ShiftLeft1 w)\<close> by (rule wide_ok_less)
  ultimately show "?v = 2 * wide_value w mod 2 ^ 192" by simp
qed

lemma Increment_value:
  "limbs_ok w \<Longrightarrow> wide_value (Increment w) = (wide_value w + 1) mod kLimb ^ length w"
  "limbs_ok w \<Longrightarrow> limbs_ok (Increment w)"
  "length (Increment w) = length w"
proof (induction w)
  case (Cons limb ws)
  {
    case 1
    show ?case
    proof (cases "limb + 1 = kLimb")
      case True
      then have "wide_value (Increment (limb # ws)) = kLimb * ((wide_value ws + 1) mod kLimb ^ length ws)"
        using Cons 1 by simp
      also have "\<dots> = (kLimb * (wide_value ws + 1)) mod (kLimb * kLimb ^ length ws)"
        by (simp only: mult_mod_right)
      also have "kLimb * (wide_value ws + 1) = wide_value (limb # ws) + 1" using True by simp
      finally show ?thesis by simp
    next
      case False
      with 1 have limb: "limb + 1 < kLimb" by simp
      have "limbs_ok ((limb + 1) # ws)" using limb 1 by simp
      then have "wide_value ((limb + 1) # ws) < kLimb ^ length (limb # ws)"
        using wide_value_less by fastforce
      then show ?thesis using limb by (simp add: Let_def)
    qed
  next
    case 2
    then show ?case using Cons by (auto simp: Let_def)
  next
    case 3
    then show ?case using Cons by (auto simp: Let_def)
  }
qed simp_all

lemma TimesTenLoop_value:
  assumes "limbs_ok w" "carry < 10" "TimesTenLoop carry w = (out, c)"
  shows "wide_value out + kLimb ^ length w * c = wide_value w * 10 + carry \<and>
    limbs_ok out \<and> length out = length w \<and> c < 10"
  using assms
proof (induction w arbitrary: carry out)
  case (Cons limb ws)
  let ?t = "limb * 10 + carry"
  have t: "?t mod 2 ^ 128 = ?t" using Cons.prems by simp
  obtain out' where out': "TimesTenLoop (?t div kLimb) ws = (out', c)" and out: "out = ?t mod kLimb # out'"
    using Cons.prems(3) t by (auto simp: Let_def kLimbBits_def split: prod.splits)
  have "?t div kLimb < 10" using Cons.prems(1,2) by (intro less_mult_imp_div_less) simp
  with Cons.IH [OF _ this out'] Cons.prems
  have IH: "wide_value out' + kLimb ^ length ws * c = wide_value ws * 10 + ?t div kLimb" "limbs_ok out'"
    "length out' = length ws" "c < 10" by auto
  have "wide_value out + kLimb ^ length (limb # ws) * c =
      ?t mod kLimb + kLimb * (wide_value out' + kLimb ^ length ws * c)"
    by (simp add: out algebra_simps)
  also have "\<dots> = ?t + kLimb * (wide_value ws * 10)"
    unfolding IH(1) using div_mult_mod_eq [of ?t kLimb] by (simp only: algebra_simps)
  also have "\<dots> = wide_value (limb # ws) * 10 + carry" by simp
  finally show ?case using IH(2-4) by (simp add: out)
qed simp

lemma TimesTen_value:
  assumes "wide_ok w" "TimesTen w = (fits, out)"
  shows "wide_ok out" and "fits \<longleftrightarrow> wide_value w * 10 < 2 ^ 192" and "fits \<Longrightarrow> wide_value out = wide_value w * 10"
proof -
  obtain c where c: "TimesTenLoop 0 w = (out, c)" "fits = (c = 0)"
    using assms(2) by (auto simp: TimesTen_def split: prod.splits)
  from TimesTenLoop_value [OF _ _ c(1)] assms(1)
  have out: "wide_value out + kLimb ^ 3 * c = wide_value w * 10" "wide_ok out" by auto
  have k: "kLimb ^ 3 = (2 ^ 192 :: nat)" by simp
  have less: "wide_value out < 2 ^ 192" using out(2) by (rule wide_ok_less)
  show "wide_ok out" by fact
  show "fits \<longleftrightarrow> wide_value w * 10 < 2 ^ 192" using out(1) less c(2) unfolding k by (cases c) auto
  show "wide_value out = wide_value w * 10" if fits using out(1) c(2) that by simp
qed

lemma DivModSmall_value:
  assumes "limbs_ok w" "0 < d" "d \<le> kLimb" "DivModSmall d w = (q, r)"
  shows "wide_value q = wide_value w div d \<and> r = wide_value w mod d \<and> limbs_ok q \<and> length q = length w"
  using assms(1,4)
proof (induction w arbitrary: q r)
  case (Cons limb ws)
  obtain q' r' where rec: "DivModSmall d ws = (q', r')" by fastforce
  with Cons have IH: "wide_value q' = wide_value ws div d" "r' = wide_value ws mod d" "limbs_ok q'"
    "length q' = length ws" by auto
  let ?cur = "r' * kLimb + limb"
  have r': "r' < d" using IH(2) assms(2) by simp
  have "r' * kLimb < kLimb * kLimb" using r' assms(3) by (intro mult_strict_right_mono) simp_all
  then have small: "r' * kLimb mod 2 ^ 128 = r' * kLimb" by simp
  have cur: "(r' * 2 ^ kLimbBits mod 2 ^ 128) OR limb = ?cur"
    using Cons.prems(1) small or_shifted [of limb 64 r'] by (simp add: kLimbBits_def)
  have "?cur < kLimb * d"
  proof -
    have "(r' + 1) * kLimb \<le> d * kLimb" using r' by (intro mult_le_mono1) simp
    then show ?thesis using Cons.prems(1) by (simp add: mult.commute)
  qed
  then have fits: "?cur div d < kLimb" by (rule less_mult_imp_div_less)
  then have q: "q = ?cur div d # q'" and r: "r = ?cur mod d"
    using Cons.prems(2) rec cur by (auto simp: Let_def)
  let ?v = "wide_value ws"
  have v: "wide_value (limb # ws) = kLimb * (?v div d) * d + ?cur"
  proof -
    have "kLimb * ?v = kLimb * (?v div d * d + r')" using IH(2) by simp
    then show ?thesis by (simp only: wide_value.simps algebra_simps)
  qed
  have "wide_value (limb # ws) div d = kLimb * (?v div d) + ?cur div d"
    unfolding v using assms(2) by (simp add: div_mult_self3)
  moreover have "wide_value (limb # ws) mod d = ?cur mod d" unfolding v by simp
  ultimately show ?case using q r fits IH by simp
qed simp

lemma CompareWide_value:
  "length a = length b \<Longrightarrow> limbs_ok a \<Longrightarrow> limbs_ok b \<Longrightarrow>
   CompareWide a b = spaceship (wide_value a) (wide_value b)"
proof (induction a b rule: list_induct2)
  case (Cons x xs y ys)
  let ?a = "wide_value xs" and ?b = "wide_value ys"
  have x: "x < kLimb" "y < kLimb" and rec: "CompareWide xs ys = spaceship ?a ?b" using Cons by auto
  have less: "kLimb * u + p < kLimb * v + q" if "u < v" "p < kLimb" for u v p q :: nat
  proof -
    have "kLimb * (u + 1) \<le> kLimb * v" using that(1) by (intro mult_le_mono2) simp
    then show ?thesis using that(2) by simp
  qed
  consider "?a < ?b" | "?a = ?b" | "?b < ?a" by linarith
  then show ?case
    by cases (use rec less [of ?a ?b x y] less [of ?b ?a y x] x in \<open>auto simp: spaceship_def\<close>)
qed (simp add: spaceship_def)

lemma limb_mod: "b < K \<Longrightarrow> (b + K * s) mod (K * M) = b + K * (s mod M)" for b K s M :: nat
  by (simp add: mod_mult2_eq)

lemma AddLoop_value:
  "length a = length b \<Longrightarrow> limbs_ok a \<Longrightarrow> limbs_ok b \<Longrightarrow> carry \<le> 1 \<Longrightarrow>
   wide_value (AddLoop carry a b) = (wide_value a + wide_value b + carry) mod kLimb ^ length a \<and>
   limbs_ok (AddLoop carry a b) \<and> length (AddLoop carry a b) = length a"
proof (induction a b arbitrary: carry rule: list_induct2)
  case (Cons x xs y ys)
  let ?t = "x + y + carry"
  have x: "x < kLimb" "y < kLimb" using Cons.prems by auto
  have t: "?t mod 2 ^ 128 = ?t" using x Cons.prems(3) by simp
  have "?t < kLimb * 2" using x Cons.prems(3) by simp
  then have c: "?t div kLimb \<le> 1" using less_mult_imp_div_less [of ?t 2 kLimb] by (simp add: mult.commute)
  note IH = Cons.IH [OF _ _ c]
  have eq: "AddLoop carry (x # xs) (y # ys) = ?t mod kLimb # AddLoop (?t div kLimb) xs ys"
    using t by (simp add: Let_def kLimbBits_def)
  let ?s = "wide_value xs + wide_value ys + ?t div kLimb"
  have "wide_value (x # xs) + wide_value (y # ys) + carry = ?t + kLimb * (wide_value xs + wide_value ys)"
    by (simp add: algebra_simps)
  also have "\<dots> = ?t mod kLimb + kLimb * ?s"
    using div_mult_mod_eq [of ?t kLimb] by (simp only: algebra_simps)
  also have "\<dots> mod (kLimb * kLimb ^ length xs) = ?t mod kLimb + kLimb * (?s mod kLimb ^ length xs)"
    by (rule limb_mod) simp
  finally show ?case using IH Cons.prems unfolding eq by simp
qed simp

lemma AddWide_value:
  assumes "wide_ok a" "wide_ok b"
  shows "wide_ok (AddWide a b)" and "wide_value a + wide_value b < 2 ^ 192 \<Longrightarrow>
    wide_value (AddWide a b) = wide_value a + wide_value b"
  using AddLoop_value [of a b 0] assms by (simp_all add: AddWide_def power_mult [symmetric])

lemma borrow_limb:
  assumes "lhs < kLimb" "rhs < kLimb" "borrow \<le> 1"
  shows "lhs + kLimb * (if lhs < rhs \<or> lhs = rhs \<and> borrow = 1 \<or> rhs < lhs \<and> size_sub lhs rhs < borrow then 1 else 0) =
      rhs + borrow + size_sub (size_sub lhs rhs) borrow" and "size_sub (size_sub lhs rhs) borrow < kLimb"
  using assms by (auto simp: size_sub_def)

lemma SubLoop_value:
  "length a = length b \<Longrightarrow> limbs_ok a \<Longrightarrow> limbs_ok b \<Longrightarrow> borrow \<le> 1 \<Longrightarrow>
   wide_value b + borrow \<le> wide_value a \<Longrightarrow>
   wide_value (SubLoop borrow a b) + wide_value b + borrow = wide_value a \<and>
   limbs_ok (SubLoop borrow a b) \<and> length (SubLoop borrow a b) = length a"
proof (induction a b arbitrary: borrow rule: list_induct2)
  case (Cons x xs y ys)
  let ?d = "size_sub (size_sub x y) borrow"
  obtain c where c: "c = (if x < y \<or> x = y \<and> borrow = 1 \<or> y < x \<and> size_sub x y < borrow then 1 else 0 :: nat)"
    by blast
  have limb: "x + kLimb * c = y + borrow + ?d" "?d < kLimb"
    using borrow_limb [of x y borrow] Cons.prems c by auto
  have eq: "SubLoop borrow (x # xs) (y # ys) = ?d # SubLoop c xs ys" by (simp add: c)
  have below: "wide_value ys + c \<le> wide_value xs"
  proof (rule ccontr)
    assume "\<not> wide_value ys + c \<le> wide_value xs"
    then have "kLimb * (wide_value xs + 1) \<le> kLimb * (wide_value ys + c)" by (intro mult_le_mono2) simp
    then show False using Cons.prems(4) limb by (simp add: algebra_simps)
  qed
  have "c \<le> 1" by (simp add: c)
  with Cons.IH [OF _ _ this below] Cons.prems
  have IH: "wide_value (SubLoop c xs ys) + wide_value ys + c = wide_value xs"
    "limbs_ok (SubLoop c xs ys)" "length (SubLoop c xs ys) = length xs" by auto
  have "kLimb * (wide_value (SubLoop c xs ys) + wide_value ys + c) = kLimb * wide_value xs"
    by (simp only: IH(1))
  then show ?case using limb IH unfolding eq by (simp add: algebra_simps)
qed simp

lemma SubWide_value:
  assumes "wide_ok a" "wide_ok b" "wide_value b \<le> wide_value a"
  shows "wide_ok (SubWide a b)" and "wide_value (SubWide a b) = wide_value a - wide_value b"
  using SubLoop_value [of a b 0] assms by (auto simp: SubWide_def)

lemma mod_power_cancel: "m \<le> n \<Longrightarrow> a mod 2 ^ n mod 2 ^ m = (a mod 2 ^ m :: nat)"
  by (simp add: mod_mod_cancel le_imp_power_dvd)

lemma MultipliedBy_value:
  assumes "wide_ok w" "b < 2 ^ 128"
  shows "wide_value (MultipliedBy w b) = (wide_value w mod 2 ^ 128) * b mod 2 ^ 192"
    and "wide_ok (MultipliedBy w b)"
proof -
  obtain a where a: "a = wide_value w mod 2 ^ 128" by blast
  have less: "a < 2 ^ 128" by (simp add: a)
  obtain a0 a1 b0 b1 where parts: "a0 = a mod kLimb" "a1 = a div kLimb" "b0 = b mod kLimb" "b1 = b div kLimb"
    by blast
  have l: "a0 < kLimb" "b0 < kLimb" "a1 < kLimb" "b1 < kLimb"
    using less assms(2) by (auto simp: parts intro!: less_mult_imp_div_less)
  have sum: "a = a0 + kLimb * a1" "b = b0 + kLimb * b1" by (simp_all add: parts)
  have prod: "x * y mod 2 ^ 128 = x * y" if "x < kLimb" "y < kLimb" for x y
    using mult_strict_mono [OF that] by simp
  obtain p00 p01 p10 p11 where p: "p00 = a0 * b0" "p01 = a0 * b1" "p10 = a1 * b0" "p11 = a1 * b1" by blast
  have pm: "p00 mod 2 ^ 128 = p00" "p01 mod 2 ^ 128 = p01" "p10 mod 2 ^ 128 = p10" "p11 mod 2 ^ 128 = p11"
    unfolding p by (intro prod l)+
  let ?mid = "p00 div kLimb + p01 mod kLimb + p10 mod kLimb"
  let ?high = "?mid div kLimb + p01 div kLimb + p10 div kLimb + p11"
  have "p00 div kLimb < kLimb" using mult_strict_mono [OF l(1,2)] by (intro less_mult_imp_div_less) (simp add: p)
  moreover have "p01 mod kLimb < kLimb" "p10 mod kLimb < kLimb" by simp_all
  ultimately have "?mid < 2 ^ 128" by simp
  then have mid: "?mid mod 2 ^ 128 = ?mid" by simp
  have r: "MultipliedBy w b = [p00 mod kLimb, ?mid mod kLimb, ?high mod kLimb]"
    using l by (simp only: MultipliedBy_def Let_def ToU128_value [OF assms(1)] a [symmetric] kLimbBits_def
        parts [symmetric] mod_less p [symmetric] pm mid mod_power_cancel [of 64 128] numeral_le_iff le_num_simps)
  have "a * b = p00 + kLimb * (p01 + p10 + kLimb * p11)"
    unfolding sum p by (simp add: algebra_simps)
  also have "\<dots> = p00 mod kLimb + kLimb * (p00 div kLimb + (p01 + p10 + kLimb * p11))"
    using div_mult_mod_eq [of p00 kLimb] by (simp only: algebra_simps)
  also have "p00 div kLimb + (p01 + p10 + kLimb * p11) = ?mid mod kLimb + kLimb * ?high"
    using div_mult_mod_eq [of ?mid kLimb] div_mult_mod_eq [of p01 kLimb] div_mult_mod_eq [of p10 kLimb]
    by (simp only: algebra_simps)
  finally have ab: "a * b = p00 mod kLimb + kLimb * (?mid mod kLimb + kLimb * ?high)" .
  have k: "(2 :: nat) ^ 192 = kLimb * (kLimb * kLimb)" by simp
  have "a * b mod 2 ^ 192 = p00 mod kLimb + kLimb * (?mid mod kLimb + kLimb * (?high mod kLimb))"
    unfolding ab k by (subst limb_mod, simp, subst limb_mod, simp_all)
  then show "wide_value (MultipliedBy w b) = (wide_value w mod 2 ^ 128) * b mod 2 ^ 192"
    by (simp only: r a wide_value.simps mult_0_right add_0_right)
  show "wide_ok (MultipliedBy w b)" by (simp add: r)
qed

text \<open>Setting a bit that is not set adds its value.\<close>

lemma or_bit:
  assumes "x < 2 ^ n" "k < n" "\<not> odd (x div 2 ^ k)"
  shows "x OR (2 ^ k) = x + (2 ^ k :: nat)" and "x OR (2 ^ k) < (2 ^ n :: nat)"
proof -
  have "\<not> bit x k" using assms(3) by (simp add: bit_iff_odd)
  then have "x AND (2 ^ k) = 0" by (intro bit_eqI) (auto simp: bit_and_iff bit_exp_iff)
  then show "x OR (2 ^ k) = x + (2 ^ k :: nat)" by (simp add: disjunctive_add_eq_or)
  have "take_bit n x = x" "take_bit n (2 ^ k) = (2 ^ k :: nat)"
    using assms(1,2) by (simp_all add: take_bit_nat_eq_self)
  then have "take_bit n (x OR (2 ^ k)) = x OR (2 ^ k)" by (simp only: take_bit_or)
  then show "x OR (2 ^ k) < (2 ^ n :: nat)"
    by (metis mod_less_divisor take_bit_eq_mod zero_less_numeral zero_less_power)
qed

lemma SetBit_value:
  assumes "wide_ok w" "i < 192" "\<not> odd (wide_value w div 2 ^ i)"
  shows "wide_value (SetBit i w) = wide_value w + 2 ^ i" and "wide_ok (SetBit i w)"
proof -
  let ?j = "i div 64" and ?k = "i mod 64"
  obtain a b c where w: "w = [a, b, c]" and l: "a < kLimb" "b < kLimb" "c < kLimb"
    using assms(1) wide_cases by (metis limbs_ok_simps(2))
  have j: "?j < 3" and k: "?k < 64" using assms(2) by (auto intro: less_mult_imp_div_less)
  have "\<not> Bit i w" using Bit_value [OF assms(1,2)] assms(3) by simp
  then have bit: "\<not> odd (w ! ?j div 2 ^ ?k)"
    by (simp add: Bit_def kLimbBits_def and_one_eq odd_iff_mod_2_eq_one)
  have "w ! ?j \<in> set w" using j assms(1) by simp
  then have limb: "w ! ?j < 2 ^ 64" using assms(1) unfolding limbs_ok_def by blast
  note set = or_bit [OF limb k bit]
  have i: "(2 :: nat) ^ i = kLimb ^ ?j * 2 ^ ?k"
  proof -
    have "i = 64 * ?j + ?k" by simp
    then have "(2 :: nat) ^ i = 2 ^ (64 * ?j + ?k)" by (rule arg_cong)
    then show ?thesis by (simp only: power_add power_mult)
  qed
  have eq: "SetBit i w = w[?j := w ! ?j + 2 ^ ?k]" by (simp add: SetBit_def kLimbBits_def set(1))
  have cases: "?j = 0 \<or> ?j = 1 \<or> ?j = 2" using j by linarith
  show "wide_value (SetBit i w) = wide_value w + 2 ^ i"
    using cases unfolding eq i by (elim disjE) (simp_all add: w algebra_simps)
  show "wide_ok (SetBit i w)"
    using cases set(2) l unfolding eq set(1) by (elim disjE) (simp_all add: w)
qed

lemma odd_multiple: "\<not> odd (2 ^ Suc i * m div (2 ^ i :: nat))"
  by (simp add: mult.assoc)

lemma DivideLoop_value:
  assumes "wide_ok w" "wide_ok d" "0 < wide_value d" "wide_value d \<le> 2 ^ 191" "i \<le> 192"
    and "wide_ok q" "wide_ok r" "wide_value r < wide_value d" "wide_value q = 2 ^ i * m"
    and "wide_value w div 2 ^ i = m * wide_value d + wide_value r"
    and "DivideLoop i w d q r = (q', r')"
  shows "wide_value q' = wide_value w div wide_value d \<and> wide_value r' = wide_value w mod wide_value d \<and>
    wide_ok q' \<and> wide_ok r'"
  using assms(5-)
proof (induction i arbitrary: q r m)
  case 0
  then have "wide_value w = wide_value q' * wide_value d + wide_value r'" "wide_value r' < wide_value d" by simp_all
  then show ?case using 0 by simp
next
  case (Suc i)
  let ?V = "wide_value w" and ?D = "wide_value d"
  let ?b = "?V div 2 ^ i mod 2"
  have half: "?V div 2 ^ i = 2 * (m * ?D + wide_value r) + ?b"
  proof -
    have "?V div 2 ^ Suc i = ?V div 2 ^ i div 2" by (simp only: power_Suc2 div_mult2_eq)
    then have "?V div 2 ^ i = 2 * (?V div 2 ^ Suc i) + ?b" by simp
    then show ?thesis using Suc.prems(6) by simp
  qed
  have i: "i < 192" using Suc.prems(1) by simp
  have double: "2 * wide_value r + 1 < 2 ^ 192" using Suc.prems(4) assms(4) by simp
  let ?r = "ShiftLeft1 r"
  have r: "wide_value ?r = 2 * wide_value r" "wide_ok ?r"
    using ShiftLeft1_value [OF Suc.prems(3)] double by simp_all
  let ?r1 = "if Bit i w then ?r[0 := ?r ! 0 OR 1] else ?r"
  have r1: "wide_value ?r1 = 2 * wide_value r + ?b \<and> wide_ok ?r1"
  proof (cases "Bit i w")
    case True
    then have b: "?b = 1" using Bit_value [OF assms(1) i] by (simp add: odd_iff_mod_2_eq_one)
    obtain x y z where xyz: "?r = [x, y, z]" "x < kLimb" using r(2) wide_cases by (metis limbs_ok_simps(2))
    have "even (x + kLimb * (y + kLimb * z))" using r(1) xyz by (metis dvd_triv_left wide_value.simps add_0_right mult_0_right)
    then have even: "even x" by simp
    have "x OR 1 = x + 1" using or_even [OF even, of 1] by simp
    moreover have "x + 1 < kLimb" using even_below [OF even xyz(2), of 1] by simp
    ultimately show ?thesis using True b r xyz by simp
  next
    case False
    then have "?b = 0" using Bit_value [OF assms(1) i] by (simp add: even_iff_mod_2_eq_zero)
    then show ?thesis using False r by simp
  qed
  have cmp: "CompareWide ?r1 d = spaceship (2 * wide_value r + ?b) ?D"
    using CompareWide_value [of ?r1 d] r1 assms(2) by simp
  have q: "\<not> odd (wide_value q div 2 ^ i)" unfolding Suc.prems(5) by (rule odd_multiple)
  note bit = SetBit_value [OF Suc.prems(2) i q]
  show ?case
  proof (cases "?D \<le> 2 * wide_value r + ?b")
    case True
    then have "CompareWide ?r1 d \<noteq> Ord_less" unfolding cmp by (simp add: spaceship_def)
    then have step: "DivideLoop i w d (SetBit i q) (SubWide ?r1 d) = (q', r')"
      using Suc.prems(7) unfolding DivideLoop.simps Let_def by (simp only: if_P simp_thms)
    have le: "wide_value d \<le> wide_value ?r1" using True r1 by simp
    have sub: "wide_ok (SubWide ?r1 d)" "wide_value (SubWide ?r1 d) = 2 * wide_value r + ?b - ?D"
      using SubWide_value [OF _ assms(2) le] r1 by auto
    show ?thesis
    proof (rule Suc.IH [OF _ bit(2) sub(1) _ _ _ step, of "2 * m + 1"])
      show "i \<le> 192" using i by simp
      show "wide_value (SubWide ?r1 d) < wide_value d" using sub(2) Suc.prems(4) by simp
      show "wide_value (SetBit i q) = 2 ^ i * (2 * m + 1)" using bit(1) Suc.prems(5) by (simp add: algebra_simps)
      show "?V div 2 ^ i = (2 * m + 1) * ?D + wide_value (SubWide ?r1 d)"
        using half True sub(2) by (simp add: algebra_simps)
    qed
  next
    case False
    then have "CompareWide ?r1 d = Ord_less" unfolding cmp by (simp add: spaceship_def)
    then have step: "DivideLoop i w d q ?r1 = (q', r')"
      using Suc.prems(7) unfolding DivideLoop.simps Let_def by (simp only: if_False simp_thms)
    show ?thesis
    proof (rule Suc.IH [OF _ Suc.prems(2) _ _ _ _ step, of "2 * m"])
      show "i \<le> 192" using i by simp
      show "wide_ok ?r1" using r1 by blast
      show "wide_value ?r1 < wide_value d" using r1 False by simp
      show "wide_value q = 2 ^ i * (2 * m)" using Suc.prems(5) by simp
      show "?V div 2 ^ i = 2 * m * ?D + wide_value ?r1" using half r1 by (simp add: algebra_simps)
    qed
  qed
qed

lemma DividedBy_value:
  assumes "wide_ok w" "wide_ok d" "0 < wide_value d" "wide_value d \<le> 2 ^ 191" "DividedBy w d = (q, r)"
  shows "wide_value q = wide_value w div wide_value d" "wide_value r = wide_value w mod wide_value d"
    and "wide_ok q" "wide_ok r"
proof -
  have "wide_value w div 2 ^ 192 = 0" using wide_ok_less [OF assms(1)] by (rule div_less)
  then have "wide_value q = wide_value w div wide_value d \<and> wide_value r = wide_value w mod wide_value d \<and>
      wide_ok q \<and> wide_ok r"
    using assms by (intro DivideLoop_value [of w d 192 ZeroWide ZeroWide 0]) (simp_all add: DividedBy_def)
  then show "wide_value q = wide_value w div wide_value d" "wide_value r = wide_value w mod wide_value d"
    "wide_ok q" "wide_ok r" by blast+
qed

end
