(* ===== verification/Decimal.thy ===== *)
theory Decimal
  imports Wide Complex_Main
begin

text \<open>
  AL's Decimal, \<^verbatim>\<open>src/src/net/Decimal.cpp\<close> and \<^verbatim>\<open>src/include/type/Decimal.h\<close>: a 96-bit mantissa, a scale
  up to 28 and a sign, with the rounding, alignment, parsing, printing and arithmetic of the code.
  A \<open>U128\<close> is a natural number with its truncations written out, a \<open>std::uint8_t\<close> scale a natural
  number; \<open>decimal_ok\<close> is the invariant all operations keep.
\<close>

section \<open>The representation\<close>

datatype decimal_error = DecimalError string

record decimal =
  dm_units :: nat
  dm_scale :: nat
  dm_negative :: bool

definition MakeDecimal :: "nat \<Rightarrow> nat \<Rightarrow> bool \<Rightarrow> decimal" where
  "MakeDecimal units scale negative = \<lparr>dm_units = units, dm_scale = scale, dm_negative = negative\<rparr>"

definition kMaxScale :: nat where
  "kMaxScale = 28"

definition kMaxUnits :: nat where
  "kMaxUnits = 2 ^ 96 - 1"

definition kAlSignificantLimit :: nat where
  "kAlSignificantLimit = 999999999999999999"

definition ZeroDecimal :: decimal where
  "ZeroDecimal = MakeDecimal 0 0 False"

definition IsZero :: "decimal \<Rightarrow> bool" where
  "IsZero d \<longleftrightarrow> dm_units d = 0"

definition IsNegative :: "decimal \<Rightarrow> bool" where
  "IsNegative d \<longleftrightarrow> dm_negative d \<and> dm_units d \<noteq> 0"

text \<open>The constructor from \<open>std::int64_t\<close>: the magnitude of the lowest value is not negated in 64 bits.\<close>

definition DecimalOfInt :: "int \<Rightarrow> decimal" where
  "DecimalOfInt v = MakeDecimal (if v < 0 then nat (- (v + 1)) + 1 else nat v) 0 (v < 0)"

definition MaxValue :: decimal where
  "MaxValue = MakeDecimal kMaxUnits 0 False"

definition MinValue :: decimal where
  "MinValue = MakeDecimal kMaxUnits 0 True"

section \<open>Rounding\<close>

record rounding_tail =
  rt_digit :: nat
  rt_sticky :: bool

definition NoTail :: rounding_tail where
  "NoTail = \<lparr>rt_digit = 0, rt_sticky = False\<rparr>"

definition Prepend :: "nat \<Rightarrow> rounding_tail \<Rightarrow> rounding_tail" where
  "Prepend digit t = \<lparr>rt_digit = digit, rt_sticky = (rt_sticky t \<or> rt_digit t \<noteq> 0)\<rparr>"

definition AppendTail :: "nat \<Rightarrow> rounding_tail \<Rightarrow> rounding_tail" where
  "AppendTail digit t = t\<lparr>rt_sticky := rt_sticky t \<or> digit \<noteq> 0\<rparr>"

definition Increments :: "rounding_tail \<Rightarrow> u192 \<Rightarrow> bool" where
  "Increments t v \<longleftrightarrow> 5 < rt_digit t \<or> rt_digit t = 5 \<and> (rt_sticky t \<or> Bit 0 v)"

definition FitsMantissa :: "u192 \<Rightarrow> bool" where
  "FitsMantissa v \<longleftrightarrow> FitsU128 v \<and> ToU128 v \<le> kMaxUnits"

text \<open>The loop of \<open>FitToUnits\<close>: its result is the units and the scale it leaves.\<close>

fun FitToUnits :: "u192 \<Rightarrow> nat \<Rightarrow> rounding_tail \<Rightarrow> decimal_error + nat \<times> nat" where
  "FitToUnits v scale tail =
     (let rounded = (if Increments tail v then Increment v else v) in
      if scale \<le> kMaxScale \<and> FitsMantissa v \<and> FitsMantissa rounded then Inr (ToU128 rounded, scale)
      else if scale = 0 then Inl (DecimalError ''Decimal: overflow beyond 2^96 - 1'')
      else (case DivModSmall 10 v of (q, r) \<Rightarrow> FitToUnits q (scale - 1) (Prepend r tail)))"

declare FitToUnits.simps [simp del]

fun StripLoop :: "nat \<Rightarrow> nat \<Rightarrow> nat \<times> nat" where
  "StripLoop units scale =
     (if 0 < scale \<and> units mod 10 = 0 then StripLoop (units div 10) (scale - 1) else (units, scale))"

declare StripLoop.simps [simp del]

definition StripTrailingZeros :: "nat \<Rightarrow> nat \<Rightarrow> nat \<times> nat" where
  "StripTrailingZeros units scale =
     (case StripLoop units scale of (units, scale) \<Rightarrow> (units, if units = 0 then 0 else scale))"

text \<open>One of the two loops of \<open>Align\<close>.\<close>

function AlignLoop :: "u192 \<Rightarrow> nat \<Rightarrow> nat \<Rightarrow> decimal_error + u192 \<times> nat" where
  "AlignLoop a sa sb =
     (if sa < sb then
        (case TimesTen a of (fits, t) \<Rightarrow>
           if \<not> fits then Inl (DecimalError ''Decimal: overflow while aligning magnitudes'')
           else AlignLoop t (sa + 1) sb)
      else Inr (a, sa))"
  by pat_completeness auto
termination
  by (relation "measure (\<lambda>(a, sa, sb). sb - sa)") auto

declare AlignLoop.simps [simp del]

definition Align :: "u192 \<Rightarrow> nat \<Rightarrow> u192 \<Rightarrow> nat \<Rightarrow> decimal_error + u192 \<times> nat \<times> u192 \<times> nat" where
  "Align a sa b sb =
     andThen (AlignLoop a sa sb) (\<lambda>(a, sa). andThen (AlignLoop b sb sa) (\<lambda>(b, sb). Inr (a, sa, b, sb)))"

section \<open>Parsing and printing\<close>

definition AppendDecimalDigit :: "nat \<Rightarrow> nat \<Rightarrow> decimal_error + nat" where
  "AppendDecimalDigit units digit =
     (if (kMaxUnits - digit) div 10 < units then Inl (DecimalError ''Decimal: overflow while parsing'')
      else Inr (units * 10 + digit))"

record parsed_magnitude =
  pm_units :: nat
  pm_scale :: nat
  pm_dropping :: bool
  pm_tail :: rounding_tail

definition NoMagnitude :: parsed_magnitude where
  "NoMagnitude = \<lparr>pm_units = 0, pm_scale = 0, pm_dropping = False, pm_tail = NoTail\<rparr>"

definition AppendDigit :: "nat \<Rightarrow> bool \<Rightarrow> parsed_magnitude \<Rightarrow> decimal_error + parsed_magnitude" where
  "AppendDigit digit fractional m =
     (if pm_dropping m then Inr (m\<lparr>pm_tail := AppendTail digit (pm_tail m)\<rparr>)
      else if fractional \<and> (pm_scale m = kMaxScale \<or> (kMaxUnits - digit) div 10 < pm_units m) then
        Inr (m\<lparr>pm_dropping := True, pm_tail := Prepend digit (pm_tail m)\<rparr>)
      else andThen (AppendDecimalDigit (pm_units m) digit) (\<lambda>units.
        Inr (m\<lparr>pm_units := units, pm_scale := (if fractional then pm_scale m + 1 else pm_scale m)\<rparr>)))"

definition FinishMagnitude :: "bool \<Rightarrow> parsed_magnitude \<Rightarrow> decimal_error + decimal" where
  "FinishMagnitude negative m =
     andThen (FitToUnits (FromU128 (pm_units m)) (pm_scale m) (pm_tail m)) (\<lambda>(units, scale).
       Inr (MakeDecimal units scale (negative \<and> units \<noteq> 0)))"

fun U128Digits :: "nat \<Rightarrow> string" where
  "U128Digits v = (if v = 0 then [] else digit_char (v mod 10) # U128Digits (v div 10))"

declare U128Digits.simps [simp del]

definition U128ToString :: "nat \<Rightarrow> string" where
  "U128ToString v = (if v = 0 then ''0'' else rev (U128Digits v))"

definition ToInvariantString :: "decimal \<Rightarrow> string" where
  "ToInvariantString d =
     (let digits = U128ToString (dm_units d); scale = dm_scale d;
          digits = (if scale \<noteq> 0 \<and> length digits \<le> scale
                    then replicate (scale + 1 - length digits) (CHR ''0'') @ digits else digits);
          digits = (if scale \<noteq> 0
                    then take (length digits - scale) digits @ ''.'' @ drop (length digits - scale) digits
                    else digits)
      in (if IsNegative d then ''-'' else []) @ digits)"

text \<open>The loop over the characters; the flags are \<open>seenDigit\<close> and \<open>seenPoint\<close>.\<close>

fun ParseLoop :: "bool \<Rightarrow> bool \<Rightarrow> parsed_magnitude \<Rightarrow> string \<Rightarrow> decimal_error + bool \<times> parsed_magnitude" where
  "ParseLoop seenDigit seenPoint m [] = Inr (seenDigit, m)"
| "ParseLoop seenDigit seenPoint m (c # cs) =
     (if c = CHR ''.'' then
        (if seenPoint then Inl (DecimalError ''Decimal: second decimal point'')
         else ParseLoop seenDigit True m cs)
      else if \<not> is_digit c then Inl (DecimalError ''Decimal: not a number'')
      else andThen (AppendDigit (digit_value c) seenPoint m) (\<lambda>m. ParseLoop True seenPoint m cs))"

definition FromInvariantString :: "string \<Rightarrow> decimal_error + decimal" where
  "FromInvariantString t =
     (let t = dropWhile is_space t;
          signed = t \<noteq> [] \<and> (hd t = CHR ''+'' \<or> hd t = CHR ''-'');
          neg = (signed \<and> hd t = CHR ''-'');
          t = (if signed then tl t else t)
      in andThen (ParseLoop False False NoMagnitude t) (\<lambda>(seenDigit, m).
           if \<not> seenDigit then Inl (DecimalError ''Decimal: no digit'') else FinishMagnitude neg m))"

section \<open>Arithmetic\<close>

definition AbsDecimal :: "decimal \<Rightarrow> decimal" where
  "AbsDecimal d = MakeDecimal (dm_units d) (dm_scale d) False"

definition Trimmed :: "decimal \<Rightarrow> decimal" where
  "Trimmed d =
     (case StripTrailingZeros (dm_units d) (dm_scale d) of (units, scale) \<Rightarrow>
        MakeDecimal units scale (dm_negative d))"

definition Negate :: "decimal \<Rightarrow> decimal" where
  "Negate d = MakeDecimal (dm_units d) (dm_scale d) (dm_units d \<noteq> 0 \<and> \<not> dm_negative d)"

definition AddDecimal :: "decimal \<Rightarrow> decimal \<Rightarrow> decimal_error + decimal" where
  "AddDecimal x y =
     andThen (Align (FromU128 (dm_units x)) (dm_scale x) (FromU128 (dm_units y)) (dm_scale y)) (\<lambda>(a, sa, b, sb).
       let (sum, neg) =
         (if dm_negative x = dm_negative y then (AddWide a b, dm_negative x)
          else if CompareWide a b \<noteq> Ord_less then (SubWide a b, dm_negative x)
          else (SubWide b a, dm_negative y))
       in andThen (FitToUnits sum sa NoTail) (\<lambda>(units, scale).
            Inr (MakeDecimal units scale (neg \<and> units \<noteq> 0))))"

definition SubtractDecimal :: "decimal \<Rightarrow> decimal \<Rightarrow> decimal_error + decimal" where
  "SubtractDecimal x y = AddDecimal x (Negate y)"

definition kSmallMantissaLimit :: nat where
  "kSmallMantissaLimit = 2 ^ 32 - 1"

definition kSmallProductScaleLimit :: nat where
  "kSmallProductScaleLimit = kMaxScale + 19"

definition MultiplyDecimal :: "decimal \<Rightarrow> decimal \<Rightarrow> decimal_error + decimal" where
  "MultiplyDecimal x y =
     (let p = MultipliedBy (FromU128 (dm_units x)) (dm_units y);
          scale = (dm_scale x + dm_scale y) mod 256;
          small = (dm_units x \<le> kSmallMantissaLimit \<and> dm_units y \<le> kSmallMantissaLimit)
      in if small \<and> kSmallProductScaleLimit < scale \<or> \<not> small \<and> p = ZeroWide then Inr ZeroDecimal
         else andThen (FitToUnits p scale NoTail) (\<lambda>(units, scale).
           Inr (MakeDecimal units scale (dm_negative x \<noteq> dm_negative y \<and> units \<noteq> 0))))"

definition RemainderDecimal :: "decimal \<Rightarrow> decimal \<Rightarrow> decimal_error + decimal" where
  "RemainderDecimal x y =
     (if dm_units y = 0 then Inl (DecimalError ''Decimal: modulo by zero'')
      else if dm_units x = 0 then Inr x
      else andThen (Align (FromU128 (dm_units x)) (dm_scale x) (FromU128 (dm_units y)) (dm_scale y))
        (\<lambda>(dividend, dividendScale, divisor, divisorScale).
          if CompareWide dividend divisor = Ord_less then Inr x
          else (case DividedBy dividend divisor of (q, remainder) \<Rightarrow>
            if \<not> FitsU128 remainder \<or> kMaxUnits < ToU128 remainder
            then Inl (DecimalError ''Decimal: remainder exceeds the 96-bit mantissa'')
            else let units = ToU128 remainder in
              Inr (MakeDecimal units dividendScale (dm_negative x \<and> units \<noteq> 0)))))"

definition DivisionTail :: "nat \<Rightarrow> nat \<Rightarrow> rounding_tail" where
  "DivisionTail remainder divisor =
     (let twice = remainder * 2 mod 2 ^ 128 in
      if divisor \<le> twice then Prepend (5 + (if divisor < twice then 1 else 0)) NoTail
      else AppendTail (if remainder \<noteq> 0 then 1 else 0) NoTail)"

text \<open>The loop that brings down digits of the quotient.\<close>

function QuotientLoop :: "nat \<Rightarrow> int \<Rightarrow> nat \<Rightarrow> nat \<Rightarrow> bool \<Rightarrow> decimal_error + int \<times> nat \<times> nat \<times> bool" where
  "QuotientLoop denominator scale q remainder expanded =
     (if scale < int kMaxScale \<and> (scale < 0 \<or> remainder \<noteq> 0) then
        let numerator = remainder * 10 mod 2 ^ 128;
            next_quotient = (q * 10 + numerator div denominator) mod 2 ^ 128
        in if kMaxUnits < next_quotient then
             (if scale < 0 then Inl (DecimalError ''Decimal: overflow while scaling the quotient'')
              else Inr (scale, q, remainder, expanded))
           else QuotientLoop denominator (scale + 1) next_quotient (numerator mod denominator)
             (expanded \<or> numerator mod denominator \<noteq> 0)
      else Inr (scale, q, remainder, expanded))"
  by pat_completeness auto
termination
  by (relation "measure (\<lambda>(d, scale, q, r, e). nat (int kMaxScale - scale))") auto

declare QuotientLoop.simps [simp del]

definition DivideDecimal :: "decimal \<Rightarrow> decimal \<Rightarrow> decimal_error + decimal" where
  "DivideDecimal x y =
     (if dm_units y = 0 then Inl (DecimalError ''Decimal: division by zero'')
      else let denominator = dm_units y; remainder = dm_units x mod denominator in
        andThen (QuotientLoop denominator (int (dm_scale x) - int (dm_scale y)) (dm_units x div denominator)
            remainder (remainder \<noteq> 0)) (\<lambda>(scale, q, remainder, expanded).
          andThen (FitToUnits (FromU128 q) (nat (scale mod 256)) (DivisionTail remainder denominator))
            (\<lambda>(units, scale).
              let negative = (dm_negative x \<noteq> dm_negative y \<and> units \<noteq> 0);
                  (units, scale) = (if expanded then StripTrailingZeros units scale else (units, scale))
              in Inr (MakeDecimal units scale negative))))"

definition CompareDecimal :: "decimal \<Rightarrow> decimal \<Rightarrow> decimal_error + ordering" where
  "CompareDecimal x y =
     (if dm_units x = 0 \<and> dm_units y = 0 then Inr Ord_equal
      else if IsNegative x \<noteq> IsNegative y then Inr (if IsNegative x then Ord_less else Ord_greater)
      else andThen (Align (FromU128 (dm_units x)) (dm_scale x) (FromU128 (dm_units y)) (dm_scale y))
        (\<lambda>(a, sa, b, sb).
          let c = CompareWide a b in Inr (if \<not> IsNegative x then c else flip_ordering c)))"

end
