(* ===== verification/DecimalRounding.thy ===== *)
theory DecimalRounding
  imports Decimal
begin

text \<open>
  What the roundings of \<^verbatim>\<open>src/src/net/Decimal.cpp\<close> compute: \<open>FitToUnits\<close> drops digits until the
  mantissa fits and rounds the exact value half to even, the tail of dropped digits standing for
  the fraction it was made of; \<open>Align\<close> is exact for every pair of decimals. From these follow the
  laws of addition, multiplication, division and comparison on exact fractions.
\<close>

section \<open>Rounding half to even\<close>

definition round_even :: "nat \<Rightarrow> nat \<Rightarrow> nat" where
  "round_even n d =
     (let q = n div d; r = n mod d in if d < 2 * r \<or> 2 * r = d \<and> odd q then q + 1 else q)"

lemma round_even_1 [simp]: "round_even n 1 = n" "round_even n (Suc 0) = n"
  by (simp_all add: round_even_def)

lemma round_even_exact [simp]: "0 < d \<Longrightarrow> round_even (n * d) d = n"
  by (simp add: round_even_def)

lemma round_even_cancel: "0 < k \<Longrightarrow> round_even (k * n) (k * d) = round_even n d"
  by (auto simp: round_even_def Let_def mult_mod_right [symmetric] mult.left_commute [of 2])

lemma round_even_ge: "n div d \<le> round_even n d"
  by (simp add: round_even_def Let_def)

text \<open>It is a nearest integer: the error is at most half.\<close>

lemma round_even_nearest:
  assumes "0 < d"
  shows "2 * n \<le> 2 * d * round_even n d + d" and "2 * d * round_even n d \<le> 2 * n + d"
proof -
  have n: "n = d * (n div d) + n mod d" by simp
  have r: "n mod d < d" using assms by simp
  have "2 * n \<le> 2 * d * round_even n d + d \<and> 2 * d * round_even n d \<le> 2 * n + d"
  proof (cases "d < 2 * (n mod d) \<or> 2 * (n mod d) = d \<and> odd (n div d)")
    case True
    then have "round_even n d = n div d + 1" by (simp add: round_even_def Let_def)
    then have e: "2 * d * round_even n d = 2 * (d * (n div d)) + 2 * d" by (simp add: algebra_simps)
    show ?thesis unfolding e using n r True by linarith
  next
    case False
    then have "round_even n d = n div d" by (auto simp: round_even_def Let_def)
    then have e: "2 * d * round_even n d = 2 * (d * (n div d))" by simp
    show ?thesis unfolding e using n r False by linarith
  qed
  then show "2 * n \<le> 2 * d * round_even n d + d" "2 * d * round_even n d \<le> 2 * n + d" by blast+
qed

section \<open>The tail of dropped digits\<close>

text \<open>
  A tail stands for the fraction \<open>n / d\<close> below one: it says whether the fraction is zero and how
  it compares with one half, which is all a rounding asks.
\<close>

definition tail_means :: "rounding_tail \<Rightarrow> nat \<Rightarrow> nat \<Rightarrow> bool" where
  "tail_means t n d \<longleftrightarrow> n < d \<and>
     (5 < rt_digit t \<or> rt_digit t = 5 \<and> rt_sticky t \<longleftrightarrow> d < 2 * n) \<and>
     (rt_digit t = 5 \<and> \<not> rt_sticky t \<longleftrightarrow> 2 * n = d) \<and>
     (rt_digit t \<noteq> 0 \<or> rt_sticky t \<longleftrightarrow> n \<noteq> 0)"

lemma NoTail_means [simp]: "0 < d \<Longrightarrow> tail_means NoTail 0 d"
  by (simp add: tail_means_def NoTail_def)

lemma half_cases: "k \<le> 4 * d \<Longrightarrow> n < d \<Longrightarrow> 2 * (k + n) < 10 * d"
  "6 * d \<le> k \<Longrightarrow> n < d \<Longrightarrow> 10 * d < 2 * (k + n)" for k n d :: nat
  by presburger+

lemma Prepend_means:
  assumes "tail_means t n d" "digit < 10"
  shows "tail_means (Prepend digit t) (digit * d + n) (10 * d)"
proof -
  from assms(1) have n: "n < d" and zero: "rt_sticky t \<or> rt_digit t \<noteq> 0 \<longleftrightarrow> n \<noteq> 0"
    by (auto simp: tail_means_def)
  have d: "(digit + 1) * d \<le> 10 * d" using assms(2) by (intro mult_le_mono1) simp
  have less: "digit * d + n < 10 * d" using n d unfolding distrib_right by linarith
  have cases: "10 * d < 2 * (digit * d + n) \<longleftrightarrow> 5 < digit \<or> digit = 5 \<and> n \<noteq> 0"
    "2 * (digit * d + n) = 10 * d \<longleftrightarrow> digit = 5 \<and> n = 0"
  proof -
    consider "digit \<le> 4" | "digit = 5" | "6 \<le> digit" by linarith
    then have "(10 * d < 2 * (digit * d + n) \<longleftrightarrow> 5 < digit \<or> digit = 5 \<and> n \<noteq> 0) \<and>
        (2 * (digit * d + n) = 10 * d \<longleftrightarrow> digit = 5 \<and> n = 0)"
    proof cases
      case 1
      then have "digit * d \<le> 4 * d" by (rule mult_le_mono1)
      then have "2 * (digit * d + n) < 10 * d" using n by (rule half_cases)
      then show ?thesis using 1 by simp
    next
      case 2
      then show ?thesis by simp
    next
      case 3
      then have "6 * d \<le> digit * d" by (rule mult_le_mono1)
      then have "10 * d < 2 * (digit * d + n)" using n by (rule half_cases)
      then show ?thesis using 3 by simp
    qed
    then show "10 * d < 2 * (digit * d + n) \<longleftrightarrow> 5 < digit \<or> digit = 5 \<and> n \<noteq> 0"
      "2 * (digit * d + n) = 10 * d \<longleftrightarrow> digit = 5 \<and> n = 0" by blast+
  qed
  have "digit * d + n \<noteq> 0 \<longleftrightarrow> digit \<noteq> 0 \<or> n \<noteq> 0" using n by auto
  then show ?thesis using less cases zero by (auto simp: tail_means_def Prepend_def)
qed

lemma DivisionTail_means:
  assumes "r < d" "d < 2 ^ 127"
  shows "tail_means (DivisionTail r d) r d"
proof -
  have "r * 2 mod 2 ^ 128 = r * 2" using assms by simp
  then show ?thesis
    using assms(1) by (auto simp: DivisionTail_def Let_def tail_means_def Prepend_def AppendTail_def NoTail_def)
qed

lemma Increments_rounds:
  assumes "tail_means t n d" "wide_ok v"
  shows "wide_value v + (if Increments t v then 1 else 0) = round_even (wide_value v * d + n) d"
proof -
  have n: "n < d" using assms(1) by (simp add: tail_means_def)
  then have "(wide_value v * d + n) div d = wide_value v" "(wide_value v * d + n) mod d = n" by simp_all
  then show ?thesis
    using assms(1) Bit_0 [OF assms(2)] by (auto simp: round_even_def Let_def Increments_def tail_means_def)
qed

section \<open>Fitting to the mantissa\<close>

text \<open>
  \<open>N / (D * 10 ^ s)\<close> rounded to the mantissa: the largest scale, at most \<open>s\<close> and 28, at which the
  rounded value fits; no scale at all is an overflow.
\<close>

definition fits_at :: "nat \<Rightarrow> nat \<Rightarrow> nat \<Rightarrow> nat \<Rightarrow> bool" where
  "fits_at N D s s' \<longleftrightarrow> s' \<le> s \<and> s' \<le> kMaxScale \<and> round_even N (D * 10 ^ (s - s')) \<le> kMaxUnits"

definition rounded_to :: "nat \<Rightarrow> nat \<Rightarrow> nat \<Rightarrow> nat \<times> nat \<Rightarrow> bool" where
  "rounded_to N D s = (\<lambda>(u, s'). fits_at N D s s' \<and> u = round_even N (D * 10 ^ (s - s')) \<and>
     (\<forall>s''. s' < s'' \<longrightarrow> \<not> fits_at N D s s''))"

lemma FitsMantissa_iff: "wide_ok v \<Longrightarrow> FitsMantissa v \<longleftrightarrow> wide_value v \<le> kMaxUnits"
  by (auto simp: FitsMantissa_def FitsU128_iff ToU128_value kMaxUnits_def)

lemma ToU128_small: "wide_ok v \<Longrightarrow> wide_value v \<le> kMaxUnits \<Longrightarrow> ToU128 v = wide_value v"
  by (simp add: ToU128_value kMaxUnits_def)

lemma fits_at_up: "s' \<le> s \<Longrightarrow> fits_at N (D * 10) s s' \<longleftrightarrow> fits_at N D (Suc s) s'"
  by (simp add: fits_at_def Suc_diff_le mult.assoc)

lemma Increment_wide:
  "wide_ok v \<Longrightarrow> wide_value v + 1 < 2 ^ 192 \<Longrightarrow>
     wide_ok (Increment v) \<and> wide_value (Increment v) = wide_value v + 1"
  by (simp add: Increment_value)

lemma DivModSmall_wide:
  assumes "wide_ok v" "DivModSmall 10 v = (q, r)"
  shows "wide_ok q" "wide_value q = wide_value v div 10" "r = wide_value v mod 10"
  using DivModSmall_value [of v 10 q r] assms by auto

lemma fit_here:
  assumes "wide_ok v" "tail_means t n d" "R = (if Increments t v then Increment v else v)"
  shows "FitsMantissa v \<and> FitsMantissa R \<longleftrightarrow> round_even (wide_value v * d + n) d \<le> kMaxUnits"
    and "FitsMantissa v \<and> FitsMantissa R \<Longrightarrow> ToU128 R = round_even (wide_value v * d + n) d"
proof -
  note val = Increments_rounds [OF assms(2,1)]
  have "(FitsMantissa v \<and> FitsMantissa R \<longleftrightarrow> round_even (wide_value v * d + n) d \<le> kMaxUnits) \<and>
    (FitsMantissa v \<and> FitsMantissa R \<longrightarrow> ToU128 R = round_even (wide_value v * d + n) d)"
  proof (cases "FitsMantissa v")
    case True
    then have "wide_value v \<le> kMaxUnits" using assms(1) by (simp add: FitsMantissa_iff)
    then have "wide_value v + 1 < 2 ^ 192" by (simp add: kMaxUnits_def)
    then have R: "wide_ok R" "wide_value R = round_even (wide_value v * d + n) d"
      using Increment_wide [OF assms(1)] assms(1) val unfolding assms(3) by (auto split: if_splits)
    show ?thesis using True R by (auto simp: FitsMantissa_iff ToU128_small)
  next
    case False
    then have "kMaxUnits < wide_value v" using assms(1) by (simp add: FitsMantissa_iff)
    then have "kMaxUnits < round_even (wide_value v * d + n) d" unfolding val [symmetric] by simp
    then show ?thesis using False by simp
  qed
  then show "FitsMantissa v \<and> FitsMantissa R \<longleftrightarrow> round_even (wide_value v * d + n) d \<le> kMaxUnits"
    "FitsMantissa v \<and> FitsMantissa R \<Longrightarrow> ToU128 R = round_even (wide_value v * d + n) d" by blast+
qed

lemma FitToUnits_step:
  assumes "wide_ok v" "tail_means t n d" "N = wide_value v * d + n"
  shows "FitToUnits v s t =
     (if s \<le> kMaxScale \<and> round_even N d \<le> kMaxUnits then Inr (round_even N d, s)
      else if s = 0 then Inl (DecimalError ''Decimal: overflow beyond 2^96 - 1'')
      else (case DivModSmall 10 v of (q, r) \<Rightarrow> FitToUnits q (s - 1) (Prepend r t)))"
proof -
  obtain R where R: "R = (if Increments t v then Increment v else v)" by blast
  show ?thesis
    using fit_here [OF assms(1,2) R] unfolding assms(3)
    by (subst FitToUnits.simps, simp only: Let_def R [symmetric]) auto
qed

lemma FitToUnits_rounds:
  assumes "wide_ok v" "tail_means t n d" "N = wide_value v * d + n"
  shows "case FitToUnits v s t of
      Inr r \<Rightarrow> rounded_to N d s r
    | Inl e \<Rightarrow> e = DecimalError ''Decimal: overflow beyond 2^96 - 1'' \<and> (\<forall>s'. \<not> fits_at N d s s')"
  using assms
proof (induction s arbitrary: v t n d)
  case 0
  show ?case unfolding FitToUnits_step [OF 0] by (auto simp: rounded_to_def fits_at_def)
next
  case (Suc s)
  obtain q r where qr: "DivModSmall 10 v = (q, r)" by fastforce
  note q = DivModSmall_wide [OF Suc.prems(1) qr]
  have r: "r < 10" "wide_ok q" and v: "wide_value v = wide_value q * 10 + r"
    using q by simp_all
  have N: "N = wide_value q * (10 * d) + (r * d + n)"
    unfolding Suc.prems(3) v by (simp add: algebra_simps)
  have IH: "case FitToUnits q s (Prepend r t) of
      Inr r \<Rightarrow> rounded_to N (10 * d) s r
    | Inl e \<Rightarrow> e = DecimalError ''Decimal: overflow beyond 2^96 - 1'' \<and> (\<forall>s'. \<not> fits_at N (10 * d) s s')"
    by (rule Suc.IH [OF r(2) Prepend_means [OF Suc.prems(2) r(1)] N])
  have top: "fits_at N d (Suc s) s' \<longleftrightarrow>
     fits_at N (10 * d) s s' \<or> s' = Suc s \<and> Suc s \<le> kMaxScale \<and> round_even N d \<le> kMaxUnits" for s'
    using fits_at_up [of s' s N d] by (cases "s' = Suc s") (auto simp: fits_at_def mult.commute le_Suc_eq)
  show ?case
  proof (cases "Suc s \<le> kMaxScale \<and> round_even N d \<le> kMaxUnits")
    case True
    then show ?thesis unfolding FitToUnits_step [OF Suc.prems] by (auto simp: rounded_to_def fits_at_def)
  next
    case False
    then have e: "FitToUnits v (Suc s) t = FitToUnits q s (Prepend r t)"
      unfolding FitToUnits_step [OF Suc.prems] by (simp only: if_False) (simp add: qr)
    have same: "fits_at N d (Suc s) s' \<longleftrightarrow> fits_at N (10 * d) s s'" for s' using top False by blast
    have power: "round_even N (10 * d * 10 ^ (s - s')) = round_even N (d * 10 ^ (Suc s - s'))" if "s' \<le> s" for s'
      using that by (simp add: Suc_diff_le mult.assoc mult.left_commute [of d 10])
    have "rounded_to N (10 * d) s r' \<Longrightarrow> rounded_to N d (Suc s) r'" for r'
    proof (induction r')
      case (Pair u s')
      then have "s' \<le> s" by (simp add: rounded_to_def fits_at_def)
      with Pair power show ?case by (simp add: rounded_to_def same)
    qed
    then show ?thesis using IH unfolding e by (auto simp: same split: sum.splits)
  qed
qed

section \<open>Values\<close>

definition dec_value :: "decimal \<Rightarrow> rat" where
  "dec_value d = (if dm_negative d then - 1 else 1) * (of_nat (dm_units d) / 10 ^ dm_scale d)"

definition decimal_ok :: "decimal \<Rightarrow> bool" where
  "decimal_ok d \<longleftrightarrow> dm_units d \<le> kMaxUnits \<and> dm_scale d \<le> kMaxScale \<and> (dm_negative d \<longrightarrow> dm_units d \<noteq> 0)"

text \<open>A nearest integer, the even one at a tie, and the result a bounded mantissa rounds a number to.\<close>

definition round_half_even :: "rat \<Rightarrow> nat" where
  "round_half_even q =
     (let f = nat \<lfloor>q\<rfloor>; r = q - of_nat f in if 1 / 2 < r \<or> r = 1 / 2 \<and> odd f then f + 1 else f)"

definition rounds_at :: "rat \<Rightarrow> nat \<Rightarrow> nat" where
  "rounds_at q s = round_half_even (\<bar>q\<bar> * 10 ^ s)"

definition rounds_to :: "rat \<Rightarrow> nat \<Rightarrow> decimal_error + decimal \<Rightarrow> bool" where
  "rounds_to q s r \<longleftrightarrow> (case r of
     Inr d \<Rightarrow> dm_scale d \<le> s \<and> decimal_ok d \<and> dm_units d = rounds_at q (dm_scale d) \<and>
       (dm_negative d \<longleftrightarrow> q < 0 \<and> dm_units d \<noteq> 0) \<and>
       (\<forall>s'. dm_scale d < s' \<and> s' \<le> s \<and> s' \<le> kMaxScale \<longrightarrow> kMaxUnits < rounds_at q s')
   | Inl e \<Rightarrow> e = DecimalError ''Decimal: overflow beyond 2^96 - 1'' \<and>
       (\<forall>s'. s' \<le> s \<and> s' \<le> kMaxScale \<longrightarrow> kMaxUnits < rounds_at q s'))"

lemma half_fraction:
  fixes m d :: nat
  assumes "0 < d"
  shows "(1 / 2 < (of_nat m / of_nat d :: rat)) = (d < 2 * m)"
    "((of_nat m / of_nat d :: rat) = 1 / 2) = (2 * m = d)"
proof -
  have "(of_nat d < 2 * (of_nat m :: rat)) = (d < 2 * m)" "(2 * (of_nat m :: rat) = of_nat d) = (2 * m = d)"
    using of_nat_less_iff [of d "2 * m", where 'a = rat] of_nat_eq_iff [of "2 * m" d, where 'a = rat] by simp_all
  moreover have "(1 / 2 < (of_nat m / of_nat d :: rat)) = (of_nat d < 2 * (of_nat m :: rat))"
    "((of_nat m / of_nat d :: rat) = 1 / 2) = (2 * (of_nat m :: rat) = of_nat d)"
    using assms by (auto simp: field_simps)
  ultimately show "(1 / 2 < (of_nat m / of_nat d :: rat)) = (d < 2 * m)"
    "((of_nat m / of_nat d :: rat) = 1 / 2) = (2 * m = d)" by blast+
qed

lemma round_even_rat:
  assumes "0 < d"
  shows "round_half_even (of_nat n / of_nat d) = round_even n d"
proof -
  have f: "nat \<lfloor>of_nat n / of_nat d :: rat\<rfloor> = n div d" by (simp add: floor_divide_of_nat_eq)
  have n: "(of_nat n :: rat) = of_nat d * of_nat (n div d) + of_nat (n mod d)"
    by (metis mult_div_mod_eq of_nat_add of_nat_mult)
  have r: "of_nat n / of_nat d - of_nat (n div d) = (of_nat (n mod d) / of_nat d :: rat)"
    unfolding n using assms by (simp add: field_simps)
  have c: "(1 / 2 < (of_nat (n mod d) / of_nat d :: rat)) = (d < 2 * (n mod d))"
    "((of_nat (n mod d) / of_nat d :: rat) = 1 / 2) = (2 * (n mod d) = d)"
    using half_fraction [OF assms, of "n mod d"] by blast+
  show ?thesis unfolding round_half_even_def round_even_def f Let_def r c by simp
qed

text \<open>The rounded value is within half a unit of its last place.\<close>

lemma round_half_even_nearest: "0 \<le> q \<Longrightarrow> 2 * \<bar>of_nat (round_half_even q) - q\<bar> \<le> 1"
proof -
  assume "0 \<le> q"
  then have f: "of_nat (nat \<lfloor>q\<rfloor>) \<le> q" "q < of_nat (nat \<lfloor>q\<rfloor>) + 1" by (simp_all, linarith)
  then show ?thesis by (auto simp: round_half_even_def Let_def abs_if)
qed

lemma round_half_even_of_nat [simp]: "round_half_even (of_nat n) = n"
  by (simp add: round_half_even_def)

section \<open>Alignment\<close>

lemma AlignLoop_value:
  assumes "wide_ok a" "wide_value a * 10 ^ (sb - sa) < 2 ^ 192"
  shows "\<exists>a'. AlignLoop a sa sb = Inr (a', max sa sb) \<and> wide_ok a' \<and> wide_value a' = wide_value a * 10 ^ (sb - sa)"
  using assms
proof (induction "sb - sa" arbitrary: a sa)
  case 0
  then show ?case by (subst AlignLoop.simps) simp
next
  case (Suc n)
  obtain fits t where t: "TimesTen a = (fits, t)" by fastforce
  have less: "sa < sb" and n: "n = sb - (sa + 1)" using Suc.hyps(2) by simp_all
  have power: "(10 :: nat) ^ (sb - sa) = 10 * 10 ^ (sb - (sa + 1))"
    using less by (metis Suc_diff_Suc Suc_eq_plus1 power_Suc)
  have "wide_value a * 10 * 1 \<le> wide_value a * 10 * 10 ^ (sb - (sa + 1))" by (rule mult_le_mono2) simp
  then have "wide_value a * 10 < 2 ^ 192" using Suc.prems(2) unfolding power by (simp only: mult.assoc)
  with TimesTen_value [OF Suc.prems(1) t] have fits: fits "wide_ok t" "wide_value t = wide_value a * 10"
    by blast+
  obtain a' where a': "AlignLoop t (sa + 1) sb = Inr (a', max (sa + 1) sb)" "wide_ok a'"
    "wide_value a' = wide_value t * 10 ^ (sb - (sa + 1))"
    using Suc.hyps(1) [OF n fits(2)] Suc.prems(2) unfolding fits(3) power by (auto simp: mult.assoc)
  then show ?case
    using less fits t unfolding power by (subst AlignLoop.simps) (simp add: max_def mult.assoc)
qed

lemma aligned_less: "u \<le> kMaxUnits \<Longrightarrow> s \<le> kMaxScale \<Longrightarrow> u * 10 ^ (s - s') < 2 ^ 191"
proof -
  assume u: "u \<le> kMaxUnits" and s: "s \<le> kMaxScale"
  have "(10 :: nat) ^ (s - s') \<le> 10 ^ 28" using s by (intro power_increasing) (simp_all add: kMaxScale_def)
  with u have "u * 10 ^ (s - s') \<le> kMaxUnits * 10 ^ 28" by (rule mult_le_mono)
  also have "\<dots> < 2 ^ 191" by (simp add: kMaxUnits_def)
  finally show ?thesis .
qed

lemma units_less: "u \<le> kMaxUnits \<Longrightarrow> u < 2 ^ 128"
  by (simp add: kMaxUnits_def)

text \<open>Any two decimals align without overflow, exactly.\<close>

lemma Align_value:
  assumes "decimal_ok x" "decimal_ok y"
  shows "\<exists>a b. Align (FromU128 (dm_units x)) (dm_scale x) (FromU128 (dm_units y)) (dm_scale y) =
      Inr (a, max (dm_scale x) (dm_scale y), b, max (dm_scale x) (dm_scale y)) \<and>
    wide_ok a \<and> wide_ok b \<and>
    wide_value a = dm_units x * 10 ^ (dm_scale y - dm_scale x) \<and> wide_value a < 2 ^ 191 \<and>
    wide_value b = dm_units y * 10 ^ (dm_scale x - dm_scale y) \<and> wide_value b < 2 ^ 191"
proof -
  let ?sx = "dm_scale x" and ?sy = "dm_scale y"
  have ok: "dm_units x \<le> kMaxUnits" "?sx \<le> kMaxScale" "dm_units y \<le> kMaxUnits" "?sy \<le> kMaxScale"
    using assms by (simp_all add: decimal_ok_def)
  note less = aligned_less [OF ok(1,4), of ?sx] aligned_less [OF ok(3,2), of ?sy]
  note val = FromU128_value [OF units_less [OF ok(1)]] FromU128_value [OF units_less [OF ok(3)]]
  obtain a where a: "AlignLoop (FromU128 (dm_units x)) ?sx ?sy = Inr (a, max ?sx ?sy)" "wide_ok a"
    "wide_value a = dm_units x * 10 ^ (?sy - ?sx)"
    using AlignLoop_value [OF FromU128_ok, of "dm_units x" ?sy ?sx] less(1) unfolding val by auto
  have minus: "max ?sx ?sy - ?sy = ?sx - ?sy" by simp
  obtain b where b: "AlignLoop (FromU128 (dm_units y)) ?sy (max ?sx ?sy) = Inr (b, max ?sx ?sy)" "wide_ok b"
    "wide_value b = dm_units y * 10 ^ (?sx - ?sy)"
    using AlignLoop_value [OF FromU128_ok, of "dm_units y" "max ?sx ?sy" ?sy] less(2)
    unfolding val minus by (auto simp: max.commute)
  show ?thesis using a b less by (auto simp: Align_def)
qed

end
