(* ===== verification/DecimalArithmetic.thy ===== *)
theory DecimalArithmetic
  imports DecimalRounding
begin

text \<open>
  The laws of Decimal's operators in \<^verbatim>\<open>src/src/net/Decimal.cpp\<close> on exact fractions: a sum, a product
  and a quotient are the exact results rounded half to even at the largest scale that fits, the
  comparison is that of the fractions, the remainder is exact, and every operator keeps \<open>decimal_ok\<close>.
\<close>

section \<open>Rounding a fraction to a decimal\<close>

lemma rounds_at_fraction:
  assumes "\<bar>q\<bar> * 10 ^ s = of_nat N / of_nat d" "0 < d" "s' \<le> s"
  shows "rounds_at q s' = round_even N (d * 10 ^ (s - s'))"
proof -
  have "(10 :: rat) ^ s = 10 ^ s' * 10 ^ (s - s')" using assms(3) by (simp flip: power_add)
  then have "\<bar>q\<bar> * 10 ^ s' = of_nat N / of_nat (d * 10 ^ (s - s'))"
    using assms(1,2) by (simp add: field_simps)
  then show ?thesis using assms(2) by (simp add: rounds_at_def round_even_rat del: of_nat_mult)
qed

lemma FitToUnits_rounds_to:
  assumes "wide_ok v" "tail_means t n d" "0 < d"
    and q: "\<bar>q\<bar> * 10 ^ s = of_nat (wide_value v * d + n) / of_nat d"
    and neg: "q \<noteq> 0 \<Longrightarrow> neg \<longleftrightarrow> q < 0"
  shows "rounds_to q s (andThen (FitToUnits v s t) (\<lambda>(u, s'). Inr (MakeDecimal u s' (neg \<and> u \<noteq> 0))))"
proof -
  note at = rounds_at_fraction [OF q \<open>0 < d\<close>]
  have fits: "fits_at (wide_value v * d + n) d s s' \<longleftrightarrow> s' \<le> s \<and> s' \<le> kMaxScale \<and> \<not> kMaxUnits < rounds_at q s'" for s'
    using at by (auto simp: fits_at_def not_less)
  have zero: "rounds_at 0 s' = 0" for s' by (simp add: rounds_at_def round_half_even_def)
  show ?thesis
  proof (cases "FitToUnits v s t")
    case (Inl e)
    then show ?thesis
      using FitToUnits_rounds [OF assms(1,2) refl, of s] by (auto simp: rounds_to_def fits)
  next
    case (Inr r)
    obtain u s' where r: "r = (u, s')" by fastforce
    have R: "fits_at (wide_value v * d + n) d s s'" "u = rounds_at q s'"
      "\<forall>s''. s' < s'' \<longrightarrow> \<not> fits_at (wide_value v * d + n) d s s''"
      using FitToUnits_rounds [OF assms(1,2) refl, of s] at
      by (auto simp: Inr r rounded_to_def fits_at_def)
    have "u \<noteq> 0 \<Longrightarrow> q \<noteq> 0" using zero [of s'] R(2) by auto
    then have "neg \<and> u \<noteq> 0 \<longleftrightarrow> q < 0 \<and> u \<noteq> 0" using neg by blast
    then show ?thesis
      using R by (auto simp: Inr r rounds_to_def fits MakeDecimal_def decimal_ok_def)
  qed
qed

section \<open>Values at a common scale\<close>

definition signed :: "bool \<Rightarrow> nat \<Rightarrow> rat" where
  "signed neg n = (if neg then - of_nat n else of_nat n)"

lemma dec_value_at:
  assumes "dm_scale d \<le> s"
  shows "dec_value d = signed (dm_negative d) (dm_units d * 10 ^ (s - dm_scale d)) / 10 ^ s"
proof -
  have "(10 :: rat) ^ s = 10 ^ dm_scale d * 10 ^ (s - dm_scale d)" using assms by (simp flip: power_add)
  then show ?thesis by (simp add: dec_value_def signed_def)
qed

lemma dec_value_zero_iff: "dec_value d = 0 \<longleftrightarrow> dm_units d = 0"
  by (simp add: dec_value_def)

lemma dec_value_neg_iff: "decimal_ok d \<Longrightarrow> dec_value d < 0 \<longleftrightarrow> dm_negative d"
  by (auto simp: dec_value_def decimal_ok_def divide_less_0_iff)

lemma IsNegative_iff: "decimal_ok d \<Longrightarrow> IsNegative d \<longleftrightarrow> dm_negative d"
  by (auto simp: IsNegative_def decimal_ok_def)

lemma abs_dec_value: "\<bar>dec_value d\<bar> = of_nat (dm_units d) / 10 ^ dm_scale d"
  by (simp add: dec_value_def)

lemma decimal_ok_units: "decimal_ok d \<Longrightarrow> dm_units d < 2 ^ 96"
  by (simp add: decimal_ok_def kMaxUnits_def)

lemma FromU128_units [simp]: "decimal_ok d \<Longrightarrow> wide_value (FromU128 (dm_units d)) = dm_units d"
  unfolding decimal_ok_def using FromU128_value [OF units_less] by blast

section \<open>Addition\<close>

lemma Negate_value: "dec_value (Negate d) = - dec_value d" if "decimal_ok d"
  using that by (auto simp: Negate_def MakeDecimal_def dec_value_def decimal_ok_def)

lemma Negate_ok [invariant_intros]: "decimal_ok d \<Longrightarrow> decimal_ok (Negate d)"
  by (auto simp: Negate_def MakeDecimal_def decimal_ok_def)

lemma signed_sum:
  fixes A B :: nat
  shows "(if p = q then of_nat (A + B) else if B \<le> A then of_nat (A - B) else of_nat (B - A)) =
      \<bar>signed p A + signed q B\<bar>"
    "signed p A + signed q B \<noteq> 0 \<Longrightarrow>
      (if p = q then p else if B \<le> A then p else q) \<longleftrightarrow> signed p A + signed q B < 0"
  by (auto simp: signed_def of_nat_diff abs_if not_le)

lemma AddDecimal_rounds:
  assumes "decimal_ok x" "decimal_ok y"
  shows "rounds_to (dec_value x + dec_value y) (max (dm_scale x) (dm_scale y)) (AddDecimal x y)"
proof -
  let ?s = "max (dm_scale x) (dm_scale y)"
  obtain a b where ab: "Align (FromU128 (dm_units x)) (dm_scale x) (FromU128 (dm_units y)) (dm_scale y) = Inr (a, ?s, b, ?s)"
    and ok: "wide_ok a" "wide_ok b"
    and A: "wide_value a = dm_units x * 10 ^ (dm_scale y - dm_scale x)" "wide_value a < 2 ^ 191"
    and B: "wide_value b = dm_units y * 10 ^ (dm_scale x - dm_scale y)" "wide_value b < 2 ^ 191"
    using Align_value [OF assms] by blast
  let ?neg = "if dm_negative x = dm_negative y then dm_negative x else if wide_value b \<le> wide_value a then dm_negative x else dm_negative y"
  let ?sum = "if dm_negative x = dm_negative y then AddWide a b else if wide_value b \<le> wide_value a then SubWide a b else SubWide b a"
  have minus: "?s - dm_scale x = dm_scale y - dm_scale x" "?s - dm_scale y = dm_scale x - dm_scale y" by simp_all
  have v: "dec_value x + dec_value y =
      (signed (dm_negative x) (wide_value a) + signed (dm_negative y) (wide_value b)) / 10 ^ ?s"
    using dec_value_at [of x ?s] dec_value_at [of y ?s] unfolding A B minus by (simp add: add_divide_distrib)
  have nat: "wide_value a + wide_value b < 2 ^ 192" using A(2) B(2) by simp
  have sum: "wide_ok ?sum" "wide_value ?sum = (if dm_negative x = dm_negative y then wide_value a + wide_value b
     else if wide_value b \<le> wide_value a then wide_value a - wide_value b else wide_value b - wide_value a)"
    using AddWide_value [OF ok] SubWide_value [OF ok] SubWide_value [OF ok(2,1)] nat by simp_all
  have "of_nat (wide_value ?sum) = \<bar>signed (dm_negative x) (wide_value a) + signed (dm_negative y) (wide_value b)\<bar>"
    unfolding sum(2) signed_sum(1) [symmetric] by simp
  then have q: "\<bar>dec_value x + dec_value y\<bar> * 10 ^ ?s = of_nat (wide_value ?sum * 1 + 0) / of_nat 1"
    unfolding v by simp
  have neg: "dec_value x + dec_value y \<noteq> 0 \<Longrightarrow> ?neg \<longleftrightarrow> dec_value x + dec_value y < 0"
    using signed_sum(2) [of "dm_negative x" "wide_value a" "dm_negative y" "wide_value b"] unfolding v
    by (simp add: divide_less_0_iff)
  have "AddDecimal x y = andThen (FitToUnits ?sum ?s NoTail) (\<lambda>(u, s'). Inr (MakeDecimal u s' (?neg \<and> u \<noteq> 0)))"
    using CompareWide_value [of a b] ok by (auto simp: AddDecimal_def ab not_le not_less)
  then show ?thesis using FitToUnits_rounds_to [OF sum(1) NoTail_means _ q neg] by simp
qed

section \<open>The best decimal\<close>

text \<open>
  The nearest decimal a mantissa of 96 bits has for a fraction: rounded half to even at some scale,
  and at every larger scale it is either no better, being exact, or does not fit.
\<close>

definition best_decimal :: "rat \<Rightarrow> decimal \<Rightarrow> bool" where
  "best_decimal q d \<longleftrightarrow> decimal_ok d \<and> (\<exists>s \<le> kMaxScale. dec_value d = sgn q * of_nat (rounds_at q s) / 10 ^ s \<and>
     rounds_at q s \<le> kMaxUnits \<and>
     (\<forall>s'. s < s' \<and> s' \<le> kMaxScale \<longrightarrow> dec_value d = q \<or> kMaxUnits < rounds_at q s'))"

definition best_result :: "rat \<Rightarrow> decimal_error + decimal \<Rightarrow> bool" where
  "best_result q r \<longleftrightarrow> (case r of Inr d \<Rightarrow> best_decimal q d | Inl e \<Rightarrow> kMaxUnits < rounds_at q 0)"

lemma round_half_even_ge: "nat \<lfloor>q\<rfloor> \<le> round_half_even q"
  by (simp add: round_half_even_def Let_def)

lemma rounds_at_too_large:
  assumes "kMaxUnits < nat \<lfloor>\<bar>q\<bar> * 10 ^ t\<rfloor>" "t \<le> s"
  shows "kMaxUnits < rounds_at q s"
proof -
  have "(10 :: rat) ^ t \<le> 10 ^ s" using assms(2) by (intro power_increasing) simp_all
  then have "\<bar>q\<bar> * 10 ^ t \<le> \<bar>q\<bar> * 10 ^ s" by (rule mult_left_mono) simp
  then have "nat \<lfloor>\<bar>q\<bar> * 10 ^ t\<rfloor> \<le> nat \<lfloor>\<bar>q\<bar> * 10 ^ s\<rfloor>" by (intro nat_mono floor_mono)
  then show ?thesis using assms(1) round_half_even_ge [of "\<bar>q\<bar> * 10 ^ s"] unfolding rounds_at_def by linarith
qed

lemma dec_value_signed:
  "(dm_negative d \<longleftrightarrow> q < 0 \<and> dm_units d \<noteq> 0) \<Longrightarrow> dm_units d = rounds_at q (dm_scale d) \<Longrightarrow>
     dec_value d = sgn q * of_nat (rounds_at q (dm_scale d)) / 10 ^ dm_scale d"
  by (cases "q = 0") (auto simp: dec_value_def sgn_if rounds_at_def round_half_even_def)

text \<open>How a rounding at a limited scale is the best: nothing is lost above that scale.\<close>

lemma rounds_to_best:
  assumes r: "rounds_to q S (Inr d)"
    and top: "kMaxScale \<le> S \<or> (\<exists>N. \<bar>q\<bar> * 10 ^ S = of_nat N) \<or> kMaxUnits < nat \<lfloor>\<bar>q\<bar> * 10 ^ Suc S\<rfloor>"
  shows "best_decimal q d"
proof -
  let ?s = "dm_scale d"
  have d: "?s \<le> S" "decimal_ok d" "dm_units d = rounds_at q ?s" "dm_negative d \<longleftrightarrow> q < 0 \<and> dm_units d \<noteq> 0"
    and above: "\<And>s'. ?s < s' \<Longrightarrow> s' \<le> S \<Longrightarrow> s' \<le> kMaxScale \<Longrightarrow> kMaxUnits < rounds_at q s'"
    using r by (auto simp: rounds_to_def)
  note v = dec_value_signed [OF d(4,3)]
  have "dec_value d = q \<or> kMaxUnits < rounds_at q s'" if s': "?s < s'" "s' \<le> kMaxScale" for s'
  proof (cases "s' \<le> S")
    case True
    then show ?thesis using above s' by blast
  next
    case False
    from top show ?thesis
    proof (elim disjE exE)
      assume "kMaxScale \<le> S"
      then show ?thesis using False s' by simp
    next
      fix N assume N: "\<bar>q\<bar> * 10 ^ S = of_nat N"
      show ?thesis
      proof (cases "?s = S")
        case True
        then have "of_nat (rounds_at q ?s) = \<bar>q\<bar> * 10 ^ ?s" using N by (simp add: rounds_at_def)
        then have "dec_value d = sgn q * \<bar>q\<bar>" unfolding v by simp
        then show ?thesis by (simp add: sgn_mult_abs)
      next
        case below: False
        then have "kMaxUnits < rounds_at q S" using above [of S] d(1) s' False by simp
        then have "kMaxUnits < nat \<lfloor>\<bar>q\<bar> * 10 ^ S\<rfloor>" using N by (simp add: rounds_at_def)
        then show ?thesis using rounds_at_too_large [of q S s'] False by simp
      qed
    next
      assume "kMaxUnits < nat \<lfloor>\<bar>q\<bar> * 10 ^ Suc S\<rfloor>"
      then show ?thesis using rounds_at_too_large [of q "Suc S" s'] False by simp
    qed
  qed
  moreover have "?s \<le> kMaxScale" "rounds_at q ?s \<le> kMaxUnits" using d by (auto simp: decimal_ok_def)
  ultimately show ?thesis unfolding best_decimal_def using d(2) v by blast
qed

lemma rounds_to_best_result:
  assumes "rounds_to q S r"
    "kMaxScale \<le> S \<or> (\<exists>N. \<bar>q\<bar> * 10 ^ S = of_nat N) \<or> kMaxUnits < nat \<lfloor>\<bar>q\<bar> * 10 ^ Suc S\<rfloor>"
  shows "best_result q r"
  using assms rounds_to_best [of q S] by (auto simp: best_result_def rounds_to_def split: sum.splits)

text \<open>Half a unit of the last place bounds the error.\<close>

lemma best_decimal_error:
  assumes "best_decimal q d"
  shows "\<exists>s \<le> kMaxScale. 2 * \<bar>dec_value d - q\<bar> * 10 ^ s \<le> 1"
proof -
  obtain s where s: "s \<le> kMaxScale" "dec_value d = sgn q * of_nat (rounds_at q s) / 10 ^ s"
    using assms by (auto simp: best_decimal_def)
  have "(dec_value d - q) * 10 ^ s = sgn q * (of_nat (rounds_at q s) - \<bar>q\<bar> * 10 ^ s)"
    unfolding s(2) by (simp add: field_simps abs_sgn)
  then have "\<bar>(dec_value d - q) * 10 ^ s\<bar> = \<bar>sgn q * (of_nat (rounds_at q s) - \<bar>q\<bar> * 10 ^ s)\<bar>" by simp
  then have "\<bar>dec_value d - q\<bar> * 10 ^ s = \<bar>sgn q\<bar> * \<bar>of_nat (rounds_at q s) - \<bar>q\<bar> * 10 ^ s\<bar>"
    unfolding abs_mult by simp
  also have "\<dots> \<le> \<bar>of_nat (rounds_at q s) - \<bar>q\<bar> * 10 ^ s\<bar>" by (simp add: abs_sgn_eq)
  finally have "\<bar>dec_value d - q\<bar> * 10 ^ s \<le> \<bar>of_nat (rounds_at q s) - \<bar>q\<bar> * 10 ^ s\<bar>" .
  then show ?thesis
    using s(1) round_half_even_nearest [of "\<bar>q\<bar> * 10 ^ s"] unfolding rounds_at_def by (intro exI [of _ s]) simp
qed

section \<open>The operators\<close>

lemma AddDecimal_best_result:
  assumes "decimal_ok x" "decimal_ok y"
  shows "best_result (dec_value x + dec_value y) (AddDecimal x y)"
proof (rule rounds_to_best_result [OF AddDecimal_rounds [OF assms]], rule disjI2, rule disjI1)
  let ?s = "max (dm_scale x) (dm_scale y)"
  have "\<exists>N. \<bar>signed p A + signed r B\<bar> = of_nat N" for p A r B
    by (metis signed_sum(1))
  moreover have "\<bar>dec_value x + dec_value y\<bar> * 10 ^ ?s =
      \<bar>signed (dm_negative x) (dm_units x * 10 ^ (?s - dm_scale x)) +
       signed (dm_negative y) (dm_units y * 10 ^ (?s - dm_scale y))\<bar>"
    using dec_value_at [of x ?s] dec_value_at [of y ?s] by (simp add: add_divide_distrib [symmetric])
  ultimately show "\<exists>N. \<bar>dec_value x + dec_value y\<bar> * 10 ^ ?s = of_nat N" by metis
qed

lemma SubtractDecimal_best_result:
  assumes "decimal_ok x" "decimal_ok y"
  shows "best_result (dec_value x - dec_value y) (SubtractDecimal x y)"
  using AddDecimal_best_result [OF assms(1) Negate_ok [OF assms(2)]]
  by (simp add: SubtractDecimal_def Negate_value [OF assms(2)])

lemma ZeroDecimal_best:
  assumes "rounds_at q kMaxScale = 0"
  shows "best_decimal q ZeroDecimal"
  using assms
  by (auto simp: best_decimal_def decimal_ok_def ZeroDecimal_def MakeDecimal_def dec_value_def intro!: exI [of _ kMaxScale])

lemma round_half_even_small: "0 \<le> q \<Longrightarrow> q < 1 / 2 \<Longrightarrow> round_half_even q = 0"
proof -
  assume q: "0 \<le> q" "q < 1 / 2"
  then have "\<lfloor>q\<rfloor> = 0" by linarith
  then show ?thesis using q by (simp add: round_half_even_def)
qed

lemma small_product:
  assumes "A \<le> 2 ^ 64" "48 \<le> s"
  shows "round_half_even (of_nat A / 10 ^ s * 10 ^ 28) = 0"
proof -
  have "s = 28 + (s - 28)" using assms(2) by simp
  then have "(10 :: rat) ^ s = 10 ^ 28 * 10 ^ (s - 28)" by (metis power_add)
  then have e: "of_nat A / 10 ^ s * 10 ^ 28 = (of_nat A / 10 ^ (s - 28) :: rat)" by simp
  have "(10 :: rat) ^ 20 \<le> 10 ^ (s - 28)" using assms(2) by (intro power_increasing) simp_all
  moreover have "(of_nat A :: rat) \<le> 2 ^ 64" using assms(1) of_nat_le_iff [of A "2 ^ 64", where 'a = rat] by simp
  ultimately have "2 * (of_nat A :: rat) < 10 ^ (s - 28)" by simp
  then have "of_nat A / 10 ^ (s - 28) < (1 / 2 :: rat)" by (simp add: field_simps)
  moreover have "0 \<le> (of_nat A / 10 ^ (s - 28) :: rat)" by simp
  ultimately show ?thesis unfolding e by (intro round_half_even_small)
qed

lemma MultiplyDecimal_best_result:
  assumes "decimal_ok x" "decimal_ok y"
  shows "best_result (dec_value x * dec_value y) (MultiplyDecimal x y)"
proof -
  let ?p = "MultipliedBy (FromU128 (dm_units x)) (dm_units y)" and ?s = "dm_scale x + dm_scale y"
  let ?small = "dm_units x \<le> kSmallMantissaLimit \<and> dm_units y \<le> kSmallMantissaLimit"
  have s: "?s mod 256 = ?s" using assms by (simp add: decimal_ok_def kMaxScale_def)
  have less: "dm_units x < 2 ^ 96" "dm_units y < 2 ^ 96" using assms by (blast intro: decimal_ok_units)+
  then have "dm_units x * dm_units y < 2 ^ 96 * 2 ^ 96" by (intro mult_strict_mono) simp_all
  then have prod: "dm_units x * dm_units y < 2 ^ 192" by simp
  have p: "wide_ok ?p" "wide_value ?p = dm_units x * dm_units y"
    using MultipliedBy_value [OF FromU128_ok, of "dm_units y" "dm_units x"] less prod assms by simp_all
  have v: "\<bar>dec_value x * dec_value y\<bar> = of_nat (dm_units x * dm_units y) / 10 ^ ?s"
    by (simp add: abs_mult abs_dec_value power_add)
  show ?thesis
  proof (cases "?small \<and> kSmallProductScaleLimit < ?s \<or> \<not> ?small \<and> ?p = ZeroWide")
    case True
    have "rounds_at (dec_value x * dec_value y) kMaxScale = 0"
      using True
    proof
      assume small: "?small \<and> kSmallProductScaleLimit < ?s"
      then have "dm_units x * dm_units y \<le> (2 ^ 32 - 1) * (2 ^ 32 - 1)"
        by (intro mult_le_mono) (simp_all add: kSmallMantissaLimit_def)
      then have "dm_units x * dm_units y \<le> 2 ^ 64" by simp
      then show ?thesis
        using small_product [of "dm_units x * dm_units y" ?s] small unfolding rounds_at_def v
        by (simp add: kSmallProductScaleLimit_def kMaxScale_def)
    next
      assume "\<not> ?small \<and> ?p = ZeroWide"
      then have "dm_units x * dm_units y = 0" using p(2) by simp
      then show ?thesis unfolding rounds_at_def v by (simp only: of_nat_0 div_0 mult_zero_left) (simp add: round_half_even_small)
    qed
    then have "best_decimal (dec_value x * dec_value y) ZeroDecimal" by (rule ZeroDecimal_best)
    then show ?thesis using True by (simp add: MultiplyDecimal_def Let_def s best_result_def)
  next
    case False
    have q: "\<bar>dec_value x * dec_value y\<bar> * 10 ^ ?s = of_nat (wide_value ?p * 1 + 0) / of_nat 1"
      unfolding v p(2) by simp
    have neg: "dec_value x * dec_value y \<noteq> 0 \<Longrightarrow>
        dm_negative x \<noteq> dm_negative y \<longleftrightarrow> dec_value x * dec_value y < 0"
      using dec_value_neg_iff [OF assms(1)] dec_value_neg_iff [OF assms(2)]
      by (auto simp: mult_less_0_iff)
    have e: "MultiplyDecimal x y = andThen (FitToUnits ?p ?s NoTail)
        (\<lambda>(u, s'). Inr (MakeDecimal u s' (dm_negative x \<noteq> dm_negative y \<and> u \<noteq> 0)))"
      using False unfolding MultiplyDecimal_def Let_def s by (simp only: if_False)
    show ?thesis
      by (rule rounds_to_best_result [of _ ?s])
        (use FitToUnits_rounds_to [OF p(1) NoTail_means _ q neg] q in \<open>auto simp: e\<close>)
  qed
qed

section \<open>Trailing zeros\<close>

lemma StripLoop_value:
  "StripLoop u s = (u', s') \<Longrightarrow> s' \<le> s \<and> u = u' * 10 ^ (s - s') \<and> (s' = 0 \<or> u' mod 10 \<noteq> 0)"
proof (induction u s rule: StripLoop.induct)
  case (1 u s)
  show ?case
  proof (cases "0 < s \<and> u mod 10 = 0")
    case True
    then have "StripLoop (u div 10) (s - 1) = (u', s')" using 1(2) by (subst (asm) StripLoop.simps) simp
    then have IH: "s' \<le> s - 1" "u div 10 = u' * 10 ^ (s - 1 - s')" "s' = 0 \<or> u' mod 10 \<noteq> 0"
      using 1(1) True by blast+
    have "u = 10 * (u div 10)" using True by (metis add.right_neutral mult_div_mod_eq)
    also have "\<dots> = u' * 10 ^ (Suc (s - 1 - s'))" unfolding IH(2) by simp
    also have "Suc (s - 1 - s') = s - s'" using True IH(1) by linarith
    finally show ?thesis using IH by auto
  next
    case False
    then have "(u', s') = (u, s)" using 1(2) by (subst (asm) StripLoop.simps) (simp split: if_splits)
    then show ?thesis using False by auto
  qed
qed

lemma StripTrailingZeros_value:
  assumes "StripTrailingZeros u s = (u', s')"
  shows "s' \<le> s" "(of_nat u' :: rat) / 10 ^ s' = of_nat u / 10 ^ s" "u' \<le> u" "u' = 0 \<longleftrightarrow> u = 0"
    "s' = 0 \<or> u' mod 10 \<noteq> 0"
proof -
  obtain s1 where s1: "StripLoop u s = (u', s1)" "s' = (if u' = 0 then 0 else s1)"
    using assms by (auto simp: StripTrailingZeros_def split: prod.splits)
  note v = StripLoop_value [OF s1(1)]
  have "(10 :: rat) ^ s = 10 ^ s1 * 10 ^ (s - s1)" using v by (simp flip: power_add)
  then have "(of_nat u' :: rat) / 10 ^ s1 = of_nat u / 10 ^ s" using v by simp
  then show "s' \<le> s" "(of_nat u' :: rat) / 10 ^ s' = of_nat u / 10 ^ s" "u' \<le> u" "u' = 0 \<longleftrightarrow> u = 0"
    "s' = 0 \<or> u' mod 10 \<noteq> 0"
    using v s1(2) by auto
qed

lemma Trimmed_ok [invariant_intros]: "decimal_ok d \<Longrightarrow> decimal_ok (Trimmed d)"
proof -
  assume "decimal_ok d"
  obtain u s where us: "StripTrailingZeros (dm_units d) (dm_scale d) = (u, s)" by fastforce
  show "decimal_ok (Trimmed d)"
    using StripTrailingZeros_value [OF us] \<open>decimal_ok d\<close>
    by (auto simp: Trimmed_def us MakeDecimal_def decimal_ok_def)
qed

lemma Trimmed_value: "dec_value (Trimmed d) = dec_value d"
  by (auto simp: Trimmed_def MakeDecimal_def dec_value_def split: prod.splits dest!: StripTrailingZeros_value(2))

section \<open>Comparison and remainder\<close>

lemma CompareDecimal_value:
  assumes "decimal_ok x" "decimal_ok y"
  shows "CompareDecimal x y = Inr (spaceship (dec_value x) (dec_value y))"
proof -
  let ?s = "max (dm_scale x) (dm_scale y)"
  obtain a b where ab: "Align (FromU128 (dm_units x)) (dm_scale x) (FromU128 (dm_units y)) (dm_scale y) = Inr (a, ?s, b, ?s)"
    and ok: "wide_ok a" "wide_ok b"
    and A: "wide_value a = dm_units x * 10 ^ (dm_scale y - dm_scale x)"
    and B: "wide_value b = dm_units y * 10 ^ (dm_scale x - dm_scale y)"
    using Align_value [OF assms] by blast
  have minus: "?s - dm_scale x = dm_scale y - dm_scale x" "?s - dm_scale y = dm_scale x - dm_scale y" by simp_all
  have v: "dec_value x = signed (dm_negative x) (wide_value a) / 10 ^ ?s"
    "dec_value y = signed (dm_negative y) (wide_value b) / 10 ^ ?s"
    using dec_value_at [of x ?s] dec_value_at [of y ?s] unfolding A B minus by simp_all
  have zero: "wide_value a = 0 \<longleftrightarrow> dm_units x = 0" "wide_value b = 0 \<longleftrightarrow> dm_units y = 0" using A B by simp_all
  have neg: "dm_negative x \<Longrightarrow> wide_value a \<noteq> 0" "dm_negative y \<Longrightarrow> wide_value b \<noteq> 0"
    using assms zero by (auto simp: decimal_ok_def)
  have cmp: "spaceship (dec_value x) (dec_value y) =
      spaceship (signed (dm_negative x) (wide_value a)) (signed (dm_negative y) (wide_value b))"
    unfolding v by (simp add: spaceship_def divide_less_cancel)
  have "CompareWide a b = spaceship (wide_value a) (wide_value b)" using CompareWide_value [of a b] ok by simp
  then have "CompareDecimal x y = Inr (if dm_units x = 0 \<and> dm_units y = 0 then Ord_equal
      else if dm_negative x \<noteq> dm_negative y then (if dm_negative x then Ord_less else Ord_greater)
      else if dm_negative x then spaceship (wide_value b) (wide_value a) else spaceship (wide_value a) (wide_value b))"
    by (auto simp: CompareDecimal_def ab IsNegative_iff [OF assms(1)] IsNegative_iff [OF assms(2)] spaceship_flip)
  also have "\<dots> = Inr (spaceship (signed (dm_negative x) (wide_value a)) (signed (dm_negative y) (wide_value b)))"
    using neg zero
    by (cases "dm_negative x"; cases "dm_negative y") (auto simp: spaceship_def signed_def)
  finally show ?thesis unfolding cmp .
qed

lemma nat_rem_rat:
  fixes A B :: nat
  assumes "B \<noteq> 0"
  shows "(of_nat A / 10 ^ s :: rat) = of_nat (A div B) * (of_nat B / 10 ^ s) + of_nat (A mod B) / 10 ^ s"
proof -
  have "(of_nat A :: rat) = of_nat (A div B) * of_nat B + of_nat (A mod B)"
    by (metis div_mult_mod_eq of_nat_add of_nat_mult)
  then show ?thesis by (simp add: add_divide_distrib)
qed

text \<open>The remainder is exact: what is left of the magnitude after whole divisors, with the dividend's sign.\<close>

definition remainder_of :: "rat \<Rightarrow> rat \<Rightarrow> rat \<Rightarrow> bool" where
  "remainder_of x y r \<longleftrightarrow> (\<exists>k. \<bar>x\<bar> = of_nat k * \<bar>y\<bar> + \<bar>r\<bar>) \<and> \<bar>r\<bar> < \<bar>y\<bar> \<and> (r = 0 \<or> (r < 0 \<longleftrightarrow> x < 0))"

lemma RemainderDecimal_value:
  assumes "decimal_ok x" "decimal_ok y" "dm_units y \<noteq> 0"
  shows "case RemainderDecimal x y of
      Inr r \<Rightarrow> decimal_ok r \<and> remainder_of (dec_value x) (dec_value y) (dec_value r)
    | Inl e \<Rightarrow> e = DecimalError ''Decimal: remainder exceeds the 96-bit mantissa'' \<and>
        (\<forall>r. decimal_ok r \<longrightarrow> dm_scale r = max (dm_scale x) (dm_scale y) \<longrightarrow>
           \<not> remainder_of (dec_value x) (dec_value y) (dec_value r))"
proof -
  let ?s = "max (dm_scale x) (dm_scale y)"
  obtain a b where ab: "Align (FromU128 (dm_units x)) (dm_scale x) (FromU128 (dm_units y)) (dm_scale y) = Inr (a, ?s, b, ?s)"
    and ok: "wide_ok a" "wide_ok b"
    and A: "wide_value a = dm_units x * 10 ^ (dm_scale y - dm_scale x)"
    and B: "wide_value b = dm_units y * 10 ^ (dm_scale x - dm_scale y)" "wide_value b < 2 ^ 191"
    using Align_value [OF assms(1,2)] by blast
  let ?A = "wide_value a" and ?B = "wide_value b"
  have minus: "?s - dm_scale x = dm_scale y - dm_scale x" "?s - dm_scale y = dm_scale x - dm_scale y" by simp_all
  have v: "\<bar>dec_value x\<bar> = of_nat ?A / 10 ^ ?s" "\<bar>dec_value y\<bar> = of_nat ?B / 10 ^ ?s"
    using dec_value_at [of x ?s] dec_value_at [of y ?s] unfolding A B(1) minus by (simp_all add: signed_def)
  have b0: "?B \<noteq> 0" using assms(3) B(1) by simp
  show ?thesis
  proof (cases "dm_units x = 0 \<or> ?A < ?B")
    case True
    then have "\<bar>dec_value x\<bar> < \<bar>dec_value y\<bar>"
    proof
      assume "dm_units x = 0"
      then show ?thesis using assms(3) unfolding abs_dec_value by simp
    next
      assume "?A < ?B"
      then show ?thesis unfolding v by (simp add: divide_less_cancel)
    qed
    then have rem: "remainder_of (dec_value x) (dec_value y) (dec_value x)"
      unfolding remainder_of_def by (auto intro!: exI [of _ 0])
    have "RemainderDecimal x y = Inr x"
      using True assms(3) CompareWide_value [of a b] ok by (auto simp: RemainderDecimal_def ab)
    then show ?thesis using rem assms(1) by simp
  next
    case False
    obtain q r where qr: "DividedBy a b = (q, r)" by fastforce
    have "?B \<le> 2 ^ 191" using B(2) by (rule less_imp_le)
    note D = DividedBy_value [OF ok _ this qr]
    have r: "wide_value r = ?A mod ?B" "wide_ok r" using D b0 by blast+
    have less: "?A mod ?B < ?B" using b0 by simp
    show ?thesis
    proof (cases "?A mod ?B \<le> kMaxUnits")
      case True
      let ?r = "MakeDecimal (?A mod ?B) ?s (dm_negative x \<and> ?A mod ?B \<noteq> 0)"
      have "FitsMantissa r" "ToU128 r = ?A mod ?B" using True r by (simp_all add: FitsMantissa_iff ToU128_small)
      then have e: "RemainderDecimal x y = Inr ?r"
        using False assms(3) CompareWide_value [of a b] ok
        by (auto simp: RemainderDecimal_def ab qr FitsMantissa_def not_le Let_def)
      have rok: "decimal_ok ?r" using True assms(1,2) by (auto simp: decimal_ok_def MakeDecimal_def)
      have "\<bar>dec_value ?r\<bar> = of_nat (?A mod ?B) / 10 ^ ?s" by (simp add: abs_dec_value MakeDecimal_def)
      moreover from this have "\<bar>dec_value ?r\<bar> < \<bar>dec_value y\<bar>"
        unfolding v using less by (simp add: divide_less_cancel)
      moreover have "dec_value ?r = 0 \<or> (dec_value ?r < 0 \<longleftrightarrow> dec_value x < 0)"
        unfolding dec_value_neg_iff [OF rok] dec_value_neg_iff [OF assms(1)] dec_value_zero_iff
        by (auto simp: MakeDecimal_def)
      ultimately show ?thesis
        using nat_rem_rat [OF b0, of ?A ?s] rok unfolding e remainder_of_def v by auto
    next
      case big: False
      then have "\<not> FitsMantissa r" using r by (simp add: FitsMantissa_iff)
      then have e: "RemainderDecimal x y = Inl (DecimalError ''Decimal: remainder exceeds the 96-bit mantissa'')"
        using False assms(3) CompareWide_value [of a b] ok
        by (auto simp: RemainderDecimal_def ab qr FitsMantissa_def not_le Let_def)
      have "\<not> remainder_of (dec_value x) (dec_value y) (dec_value z)" if z: "decimal_ok z" "dm_scale z = ?s" for z
      proof
        assume "remainder_of (dec_value x) (dec_value y) (dec_value z)"
        then obtain k where k: "\<bar>dec_value x\<bar> = of_nat k * \<bar>dec_value y\<bar> + \<bar>dec_value z\<bar>" "\<bar>dec_value z\<bar> < \<bar>dec_value y\<bar>"
          by (auto simp: remainder_of_def)
        then have "(of_nat ?A :: rat) / 10 ^ ?s = of_nat (k * ?B + dm_units z) / 10 ^ ?s"
          "(of_nat (dm_units z) :: rat) / 10 ^ ?s < of_nat ?B / 10 ^ ?s"
          unfolding v abs_dec_value [of z] z(2) by (simp_all add: add_divide_distrib)
        then have "(of_nat ?A :: rat) = of_nat (k * ?B + dm_units z)" "(of_nat (dm_units z) :: rat) < of_nat ?B"
          by (simp_all add: divide_less_cancel)
        then have "?A = k * ?B + dm_units z" "dm_units z < ?B" by (simp_all only: of_nat_eq_iff of_nat_less_iff)
        then have "?A mod ?B = dm_units z" by simp
        then show False using big z(1) by (simp add: decimal_ok_def)
      qed
      then show ?thesis unfolding e by simp
    qed
  qed
qed

section \<open>Division\<close>

text \<open>
  The loop keeps \<open>quotient * denominator + remainder\<close> equal to the dividend shifted by the digits
  brought down.
\<close>

lemma QuotientLoop_value:
  assumes "r < D" "D \<le> kMaxUnits" "q \<le> kMaxUnits" "scale \<le> int kMaxScale" "r \<noteq> 0 \<longrightarrow> e"
  shows "case QuotientLoop D scale q r e of
      Inr (s', q', r', e') \<Rightarrow> scale \<le> s' \<and> 0 \<le> s' \<and> s' \<le> int kMaxScale \<and> r' < D \<and> q' \<le> kMaxUnits \<and>
        q' * D + r' = (q * D + r) * 10 ^ nat (s' - scale) \<and>
        (s' = int kMaxScale \<or> r' = 0 \<or> kMaxUnits < (q' * D + r') * 10 div D)
    | Inl err \<Rightarrow> err = DecimalError ''Decimal: overflow while scaling the quotient'' \<and> scale < 0 \<and>
        (\<exists>k \<le> nat (- scale). kMaxUnits < (q * D + r) * 10 ^ k div D)"
  using assms
proof (induction D scale q r e rule: QuotientLoop.induct)
  case (1 D scale q r e)
  show ?case
  proof (cases "scale < int kMaxScale \<and> (scale < 0 \<or> r \<noteq> 0)")
    case False
    have "QuotientLoop D scale q r e = Inr (scale, q, r, e)"
      by (subst QuotientLoop.simps, rule if_not_P, rule False)
    then show ?thesis using False "1.prems" by auto
  next
    case True
    let ?n = "r * 10"
    let ?q = "q * 10 + ?n div D" and ?r = "?n mod D"
    have D: "0 < D" using "1.prems"(1) by simp
    have r10: "?n div D < 10" using "1.prems"(1) by (simp add: less_mult_imp_div_less mult.commute)
    have nums: "r * 10 mod 2 ^ 128 = ?n" "?q mod 2 ^ 128 = ?q"
      using "1.prems"(1-3) r10 by (simp_all add: kMaxUnits_def)
    have step: "?q * D + ?r = (q * D + r) * 10"
      using div_mult_mod_eq [of ?n D] by (simp add: algebra_simps)
    have quot: "?q = (q * D + r) * 10 div D"
      unfolding step [symmetric] using D by (simp add: div_mult_self1)
    show ?thesis
    proof (cases "kMaxUnits < ?q")
      case over: True
      then have e: "QuotientLoop D scale q r e = (if scale < 0
          then Inl (DecimalError ''Decimal: overflow while scaling the quotient'') else Inr (scale, q, r, e))"
        using True by (subst QuotientLoop.simps) (simp only: Let_def nums, simp)
      show ?thesis
      proof (cases "scale < 0")
        case neg: True
        have "kMaxUnits < (q * D + r) * 10 ^ 1 div D" using over unfolding quot by simp
        moreover have "1 \<le> nat (- scale)" using neg by simp
        ultimately show ?thesis unfolding e using neg by auto
      next
        case False
        then show ?thesis using over "1.prems" unfolding e quot by auto
      qed
    next
      case False
      let ?loop = "QuotientLoop D (scale + 1) ?q ?r (e \<or> ?r \<noteq> 0)"
      have e: "QuotientLoop D scale q r e = ?loop"
        using True False by (subst QuotientLoop.simps) (simp only: Let_def nums, simp)
      have "?r < D" using D by simp
      then have IH: "case ?loop of
          Inr (s', q', r', e') \<Rightarrow> scale + 1 \<le> s' \<and> 0 \<le> s' \<and> s' \<le> int kMaxScale \<and> r' < D \<and> q' \<le> kMaxUnits \<and>
            q' * D + r' = (?q * D + ?r) * 10 ^ nat (s' - (scale + 1)) \<and>
            (s' = int kMaxScale \<or> r' = 0 \<or> kMaxUnits < (q' * D + r') * 10 div D)
        | Inl err \<Rightarrow> err = DecimalError ''Decimal: overflow while scaling the quotient'' \<and> scale + 1 < 0 \<and>
            (\<exists>k \<le> nat (- (scale + 1)). kMaxUnits < (?q * D + ?r) * 10 ^ k div D)"
        using "1.IH" [OF True refl refl, unfolded nums] False True "1.prems" by simp
      show ?thesis
      proof (cases ?loop)
        case (Inl err)
        then obtain k where k: "k \<le> nat (- (scale + 1))" "kMaxUnits < (?q * D + ?r) * 10 ^ k div D"
          and err: "err = DecimalError ''Decimal: overflow while scaling the quotient''" "scale + 1 < 0"
          using IH by auto
        have "(?q * D + ?r) * 10 ^ k = (q * D + r) * 10 ^ Suc k"
          unfolding step by (simp only: power_Suc mult.assoc)
        with k(2) have "kMaxUnits < (q * D + r) * 10 ^ Suc k div D" by (simp only:)
        moreover have "Suc k \<le> nat (- scale)" using k(1) err(2) by simp
        ultimately show ?thesis using err unfolding e Inl by auto
      next
        case (Inr res)
        obtain s' q' r' e' where res: "res = (s', q', r', e')" by (cases res) auto
        have R: "scale + 1 \<le> s'" "0 \<le> s'" "s' \<le> int kMaxScale" "r' < D" "q' \<le> kMaxUnits"
          "q' * D + r' = (?q * D + ?r) * 10 ^ nat (s' - (scale + 1))"
          "s' = int kMaxScale \<or> r' = 0 \<or> kMaxUnits < (q' * D + r') * 10 div D"
          using IH unfolding Inr res sum.case prod.case by blast+
        have "nat (s' - scale) = Suc (nat (s' - (scale + 1)))" using R(1) by simp
        then have "q' * D + r' = (q * D + r) * 10 ^ nat (s' - scale)" unfolding R(6) step by simp
        moreover have "scale \<le> s'" using R(1) by simp
        ultimately show ?thesis using R(2-5,7) unfolding e Inr res sum.case prod.case by blast
      qed
    qed
  qed
qed

lemma best_decimal_cong:
  "best_decimal q d \<Longrightarrow> dec_value d' = dec_value d \<Longrightarrow> decimal_ok d' \<Longrightarrow> best_decimal q d'"
  by (simp add: best_decimal_def)

lemma floor_fraction_at:
  assumes "\<bar>q\<bar> * 10 ^ s = of_nat N / of_nat D"
  shows "nat \<lfloor>\<bar>q\<bar> * 10 ^ (s + k)\<rfloor> = N * 10 ^ k div D"
proof -
  have "\<bar>q\<bar> * 10 ^ (s + k) = of_nat (N * 10 ^ k) / of_nat D" using assms by (simp add: power_add mult.assoc [symmetric])
  then show ?thesis by (simp only: floor_divide_of_nat_eq nat_int)
qed

lemma DivideDecimal_best_result:
  assumes "decimal_ok x" "decimal_ok y" "dm_units y \<noteq> 0"
  shows "best_result (dec_value x / dec_value y) (DivideDecimal x y)"
proof -
  let ?D = "dm_units y" and ?v = "dec_value x / dec_value y"
  let ?scale = "int (dm_scale x) - int (dm_scale y)" and ?r = "dm_units x mod dm_units y"
  let ?loop = "QuotientLoop ?D ?scale (dm_units x div ?D) ?r (?r \<noteq> 0)"
  have D: "0 < ?D" "?D \<le> kMaxUnits" and U: "dm_units x \<le> kMaxUnits" using assms by (simp_all add: decimal_ok_def)
  have Q: "dm_units x div ?D \<le> kMaxUnits" using U div_le_dividend le_trans by blast
  have S: "?scale \<le> int kMaxScale" using assms by (simp add: decimal_ok_def)
  have R: "?r < ?D" using D(1) by simp
  have units: "dm_units x div ?D * ?D + ?r = dm_units x" by simp
  have frac: "\<bar>?v\<bar> * 10 ^ s = of_nat (dm_units x * 10 ^ nat (int s - ?scale)) / of_nat ?D"
    if "?scale \<le> int s" for s
  proof -
    have "nat (int s - ?scale) + dm_scale x = s + dm_scale y" using that by simp
    then have p: "(10 :: rat) ^ nat (int s - ?scale) * 10 ^ dm_scale x = 10 ^ s * 10 ^ dm_scale y"
      by (simp flip: power_add)
    show ?thesis using D(1) p by (simp add: abs_divide abs_dec_value field_simps)
  qed
  note L = QuotientLoop_value [OF R D(2) Q S, of "?r \<noteq> 0", unfolded units]
  have def: "DivideDecimal x y = andThen ?loop (\<lambda>(scale, q, remainder, expanded).
      andThen (FitToUnits (FromU128 q) (nat (scale mod 256)) (DivisionTail remainder ?D)) (\<lambda>(units, scale).
        let negative = (dm_negative x \<noteq> dm_negative y \<and> units \<noteq> 0);
            (units, scale) = (if expanded then StripTrailingZeros units scale else (units, scale))
        in Inr (MakeDecimal units scale negative)))"
    using assms(3) by (simp add: DivideDecimal_def Let_def)
  show ?thesis
  proof (cases ?loop)
    case (Inl err)
    with L obtain k where k: "k \<le> nat (- ?scale)" "kMaxUnits < dm_units x * 10 ^ k div ?D" and neg: "?scale < 0"
      by auto
    have "dm_units x * 10 ^ k div ?D \<le> dm_units x * 10 ^ nat (- ?scale) div ?D"
      using k(1) by (intro div_le_mono mult_le_mono2 power_increasing) simp_all
    moreover have "nat \<lfloor>\<bar>?v\<bar> * 10 ^ (0 + 0)\<rfloor> = dm_units x * 10 ^ nat (- ?scale) * 10 ^ 0 div ?D"
      using neg by (intro floor_fraction_at) (subst frac; simp)
    ultimately have "kMaxUnits < nat \<lfloor>\<bar>?v\<bar> * 10 ^ 0\<rfloor>" using k(2) by simp
    then have "kMaxUnits < rounds_at ?v 0" by (rule rounds_at_too_large) simp
    then show ?thesis unfolding def Inl by (simp only: andThen_simps sum.case best_result_def)
  next
    case (Inr res)
    obtain s' q r e where res: "res = (s', q, r, e)" by (cases res) auto
    obtain s where s': "s' = int s" using L nonneg_int_cases [of s'] unfolding Inr res by auto
    have s: "?scale \<le> int s" "s \<le> kMaxScale" "r < ?D" "q \<le> kMaxUnits"
      "q * ?D + r = dm_units x * 10 ^ nat (int s - ?scale)"
      "s = kMaxScale \<or> r = 0 \<or> kMaxUnits < (q * ?D + r) * 10 div ?D"
      using L unfolding Inr res s' sum.case prod.case zle_int of_nat_eq_iff by blast+
    have small: "nat (s' mod 256) = s" using s(2) unfolding s' by (simp add: kMaxScale_def)
    have D127: "?D < 2 ^ 127" using D(2) by (simp add: kMaxUnits_def)
    have q: "wide_value (FromU128 q) = q" using s(4) by (rule FromU128_value [OF units_less])
    have v: "\<bar>?v\<bar> * 10 ^ s = of_nat (wide_value (FromU128 q) * ?D + r) / of_nat ?D"
      using frac [OF s(1)] unfolding q s(5) .
    have neg: "?v \<noteq> 0 \<Longrightarrow> dm_negative x \<noteq> dm_negative y \<longleftrightarrow> ?v < 0"
      using dec_value_neg_iff [OF assms(1)] dec_value_neg_iff [OF assms(2)] by (auto simp: divide_less_0_iff)
    let ?fit = "andThen (FitToUnits (FromU128 q) s (DivisionTail r ?D))
      (\<lambda>(u, s'). Inr (MakeDecimal u s' (dm_negative x \<noteq> dm_negative y \<and> u \<noteq> 0)))"
    have rounds: "rounds_to ?v s ?fit"
      by (rule FitToUnits_rounds_to [OF FromU128_ok DivisionTail_means [OF s(3) D127] D(1) v neg])
    have "kMaxScale \<le> s \<or> (\<exists>N. \<bar>?v\<bar> * 10 ^ s = of_nat N) \<or> kMaxUnits < nat \<lfloor>\<bar>?v\<bar> * 10 ^ Suc s\<rfloor>"
      using s(6)
    proof (elim disjE)
      assume "r = 0"
      then have "\<bar>?v\<bar> * 10 ^ s = of_nat q" using v D(1) unfolding q by simp
      then show ?thesis by blast
    next
      assume "kMaxUnits < (q * ?D + r) * 10 div ?D"
      moreover have "nat \<lfloor>\<bar>?v\<bar> * 10 ^ (s + 1)\<rfloor> = (q * ?D + r) * 10 ^ 1 div ?D"
        using v unfolding q by (rule floor_fraction_at)
      ultimately show ?thesis by simp
    qed simp
    with rounds have best: "best_result ?v ?fit" by (rule rounds_to_best_result)
    show ?thesis
    proof (cases "FitToUnits (FromU128 q) s (DivisionTail r ?D)")
      case fit: (Inl err)
      then show ?thesis using best unfolding def Inr res by (simp add: small)
    next
      case fit: (Inr us)
      obtain u t where us: "us = (u, t)" by fastforce
      let ?d = "MakeDecimal u t (dm_negative x \<noteq> dm_negative y \<and> u \<noteq> 0)"
      have d: "best_decimal ?v ?d" using best by (simp add: fit us best_result_def)
      have strip: "MakeDecimal u' t' (dm_negative x \<noteq> dm_negative y \<and> u \<noteq> 0) = Trimmed ?d"
        if "StripTrailingZeros u t = (u', t')" for u' t'
        using that by (simp add: Trimmed_def MakeDecimal_def)
      obtain u' t' where ut: "StripTrailingZeros u t = (u', t')" by fastforce
      have "DivideDecimal x y = Inr (if e then Trimmed ?d else ?d)"
        using strip [OF ut] unfolding def Inr res by (simp add: small fit us ut Let_def)
      moreover have "best_decimal ?v (Trimmed ?d)"
        using d Trimmed_value Trimmed_ok by (intro best_decimal_cong [OF d]) (auto simp: best_decimal_def)
      ultimately show ?thesis using d by (simp add: best_result_def)
    qed
  qed
qed

section \<open>Properties\<close>

lemma sample_ok: "decimal_ok (MakeDecimal 1 0 False)" "decimal_ok (MakeDecimal 30 1 True)"
  by (simp_all add: decimal_ok_def MakeDecimal_def kMaxUnits_def kMaxScale_def)

lemma sample_values:
  "dec_value (MakeDecimal 1 0 False) = 1" "dec_value (MakeDecimal 30 1 True) = - 3"
  "max (dm_scale (MakeDecimal 1 0 False)) (dm_scale (MakeDecimal 30 1 True)) = 1"
  "dm_units (MakeDecimal 30 1 True) = 30"
  by (simp_all add: MakeDecimal_def dec_value_def)

text \<open>
  C31: The sum, the difference, the product and the quotient of two decimals are the best decimal for
  the exact rational result: rounded half to even at the largest scale the 96-bit mantissa holds, or
  exact; an overflow is reported only when the result rounded to an integer exceeds the mantissa.
\<close>

theorem decimal_arithmetic:
  assumes "decimal_ok x" "decimal_ok y"
  shows "best_result (dec_value x + dec_value y) (AddDecimal x y) \<and>
    best_result (dec_value x - dec_value y) (SubtractDecimal x y) \<and>
    best_result (dec_value x * dec_value y) (MultiplyDecimal x y) \<and>
    (if dm_units y = 0 then DivideDecimal x y = Inl (DecimalError ''Decimal: division by zero'')
     else best_result (dec_value x / dec_value y) (DivideDecimal x y))"
  using AddDecimal_best_result [OF assms] SubtractDecimal_best_result [OF assms]
    MultiplyDecimal_best_result [OF assms] DivideDecimal_best_result [OF assms]
  by (simp add: DivideDecimal_def)

lemma decimal_arithmetic_witness:
  "best_result (dec_value (MakeDecimal 1 0 False) / dec_value (MakeDecimal 30 1 True))
     (DivideDecimal (MakeDecimal 1 0 False) (MakeDecimal 30 1 True))"
  using decimal_arithmetic [OF sample_ok] by (simp add: MakeDecimal_def)

text \<open>
  C32: Comparing two decimals never fails and is the comparison of the fractions they stand for,
  whatever their scales and signs.
\<close>

theorem decimal_compare:
  assumes "decimal_ok x" "decimal_ok y"
  shows "CompareDecimal x y = Inr (spaceship (dec_value x) (dec_value y))"
  by (rule CompareDecimal_value [OF assms])

lemma decimal_compare_witness:
  "CompareDecimal (MakeDecimal 1 0 False) (MakeDecimal 30 1 True) = Inr Ord_greater"
  using decimal_compare [OF sample_ok]
  by (simp add: MakeDecimal_def dec_value_def spaceship_def)

text \<open>
  The remainder is exact: the dividend's magnitude less a whole number of divisors, smaller than
  the divisor and with the dividend's sign; it is refused only when no decimal of the common scale is
  the remainder.
\<close>

theorem decimal_remainder:
  assumes "decimal_ok x" "decimal_ok y" "dm_units y \<noteq> 0"
  shows "case RemainderDecimal x y of
      Inr r \<Rightarrow> decimal_ok r \<and> remainder_of (dec_value x) (dec_value y) (dec_value r)
    | Inl e \<Rightarrow> e = DecimalError ''Decimal: remainder exceeds the 96-bit mantissa'' \<and>
        (\<forall>r. decimal_ok r \<longrightarrow> dm_scale r = max (dm_scale x) (dm_scale y) \<longrightarrow>
           \<not> remainder_of (dec_value x) (dec_value y) (dec_value r))"
  by (rule RemainderDecimal_value [OF assms])

lemma decimal_remainder_witness:
  "case RemainderDecimal (MakeDecimal 1 0 False) (MakeDecimal 30 1 True) of
      Inr r \<Rightarrow> decimal_ok r \<and> remainder_of 1 (- 3) (dec_value r)
    | Inl e \<Rightarrow> e = DecimalError ''Decimal: remainder exceeds the 96-bit mantissa'' \<and>
        (\<forall>r. decimal_ok r \<longrightarrow> dm_scale r = 1 \<longrightarrow> \<not> remainder_of 1 (- 3) (dec_value r))"
  using decimal_remainder [OF sample_ok] unfolding sample_values by simp

end
