(* ===== verification/AlDecimal.thy ===== *)
theory AlDecimal
  imports DecimalArithmetic
begin

text \<open>
  The AL side of \<^verbatim>\<open>src/src/net/Decimal.cpp\<close>: the eighteen-digit policy of
  \<^verbatim>\<open>src/include/type/AlDecimalArithmetic.h\<close>, the \<open>Round\<close> overloads and the conversion to a 32-bit
  integer. Normalising keeps the invariant, is idempotent and moves a value by at most half a unit of
  its last kept digit below the saturation; \<open>Round\<close> returns a whole number of precision steps.
\<close>

section \<open>Eighteen significant digits\<close>

text \<open>The loop that finds how many digits to drop; its state is \<open>divisor\<close> and \<open>dropped\<close>.\<close>

function DivisorLoop :: "nat \<Rightarrow> nat \<Rightarrow> nat \<Rightarrow> nat \<times> nat" where
  "DivisorLoop units divisor dropped =
     (if kAlSignificantLimit < units div divisor then DivisorLoop units (divisor * 10) (dropped + 1)
      else (divisor, dropped))"
  by pat_completeness auto
termination
proof (relation "measure (\<lambda>(units, divisor, dropped). units div divisor)", simp, clarsimp)
  fix units divisor :: nat
  assume "kAlSignificantLimit < units div divisor"
  then have "0 < units div divisor" by simp
  then have "units div divisor div 10 < units div divisor" by simp
  then show "units div (divisor * 10) < units div divisor" by (simp only: div_mult2_eq)
qed

declare DivisorLoop.simps [simp del]

definition AlMaximumUnits :: nat where
  "AlMaximumUnits = (case DivisorLoop kMaxUnits 1 0 of (divisor, dropped) \<Rightarrow> kMaxUnits div divisor * divisor)"

text \<open>The loop that restores the dropped places of an integer multiplies once per place.\<close>

definition Normalize :: "decimal \<Rightarrow> decimal" where
  "Normalize v =
     (let units = dm_units v in
      if units \<le> kAlSignificantLimit then v
      else (case DivisorLoop units 1 0 of (divisor, dropped) \<Rightarrow>
        let retained = units div divisor;
            retained = (if divisor div 2 \<le> units mod divisor then retained + 1 else retained)
        in if dropped \<le> dm_scale v
           then Trimmed (MakeDecimal retained (dm_scale v - dropped) (IsNegative v))
           else let retained = ((\<lambda>r. r * 10) ^^ (dropped - dm_scale v)) retained;
                    retained = (if kMaxUnits < retained then AlMaximumUnits else retained)
                in MakeDecimal retained 0 (IsNegative v)))"

definition AlAdd :: "decimal \<Rightarrow> decimal \<Rightarrow> decimal_error + decimal" where
  "AlAdd left right = andThen (AddDecimal (Normalize left) (Normalize right)) (\<lambda>r. Inr (Normalize r))"

definition AlSubtract :: "decimal \<Rightarrow> decimal \<Rightarrow> decimal_error + decimal" where
  "AlSubtract left right = andThen (SubtractDecimal (Normalize left) (Normalize right)) (\<lambda>r. Inr (Normalize r))"

definition AlMultiply :: "decimal \<Rightarrow> decimal \<Rightarrow> decimal_error + decimal" where
  "AlMultiply left right = andThen (MultiplyDecimal (Normalize left) (Normalize right)) (\<lambda>r. Inr (Normalize r))"

definition AlDivide :: "decimal \<Rightarrow> decimal \<Rightarrow> decimal_error + decimal" where
  "AlDivide left right = andThen (DivideDecimal (Normalize left) (Normalize right)) (\<lambda>r. Inr (Normalize r))"

definition AlRemainder :: "decimal \<Rightarrow> decimal \<Rightarrow> decimal_error + decimal" where
  "AlRemainder left right = andThen (RemainderDecimal (Normalize left) (Normalize right)) (\<lambda>r. Inr (Normalize r))"

definition AlCompare :: "decimal \<Rightarrow> decimal \<Rightarrow> decimal_error + ordering" where
  "AlCompare left right = CompareDecimal (Normalize left) (Normalize right)"

section \<open>Round\<close>

datatype round_direction = Nearest | Up | Down

definition kHalf :: decimal where
  "kHalf = MakeDecimal 5 1 False"

definition TruncateMagnitude :: "decimal \<Rightarrow> decimal" where
  "TruncateMagnitude d = MakeDecimal (((\<lambda>u. u div 10) ^^ dm_scale d) (dm_units d)) 0 False"

definition Round :: "decimal \<Rightarrow> decimal \<Rightarrow> round_direction \<Rightarrow> decimal_error + decimal" where
  "Round number p direction =
     (if IsZero p then Inl (DecimalError ''Round: precision is zero'')
      else if IsNegative p then Inl (DecimalError ''Round: precision must be positive'')
      else andThen (DivideDecimal (AbsDecimal number) p) (\<lambda>quotient.
        let steps = TruncateMagnitude quotient in
        andThen (SubtractDecimal quotient steps) (\<lambda>fraction.
        andThen (case direction of
            Nearest \<Rightarrow> andThen (CompareDecimal fraction kHalf) (\<lambda>c.
              if c \<noteq> Ord_less then AddDecimal steps (DecimalOfInt 1) else Inr steps)
          | Up \<Rightarrow> if \<not> IsZero fraction then AddDecimal steps (DecimalOfInt 1) else Inr steps
          | Down \<Rightarrow> Inr steps) (\<lambda>steps.
        andThen (MultiplyDecimal steps p) (\<lambda>result.
          Inr (if IsNegative number then Negate result else result))))))"

definition RoundText :: "decimal \<Rightarrow> decimal \<Rightarrow> string \<Rightarrow> decimal_error + decimal" where
  "RoundText number precision direction =
     (if direction = ''='' then Round number precision Nearest
      else if direction = ''>'' then Round number precision Up
      else if direction = ''<'' then Round number precision Down
      else Inl (DecimalError (''Round: Direction takes only '=', '>' and '<'' @ [CHR 0x27])))"

text \<open>The overload with no precision; the direction's default is \<open>Nearest\<close>.\<close>

definition RoundDefault :: "decimal \<Rightarrow> decimal_error + decimal" where
  "RoundDefault number = andThen (FromInvariantString ''0.01'') (\<lambda>p. Round number p Nearest)"

text \<open>The conversion operator to \<open>std::int32_t\<close>.\<close>

definition ToInt32 :: "decimal \<Rightarrow> decimal_error + int" where
  "ToInt32 d =
     andThen (Round d (DecimalOfInt 1) Nearest) (\<lambda>whole.
       let units = ((\<lambda>u. u div 10) ^^ dm_scale whole) (dm_units whole) in
       if 2 ^ 31 - 1 + (if dm_negative whole then 1 else 0) < units
       then Inl (DecimalError (ToInvariantString d @ '' does not fit an Integer''))
       else Inr (if dm_negative whole then - int units else int units))"

section \<open>Normalising\<close>

lemma DivisorLoop_value:
  assumes "DivisorLoop units divisor dropped = (divisor', dropped')" "0 < divisor"
  shows "dropped \<le> dropped' \<and> divisor' = divisor * 10 ^ (dropped' - dropped) \<and>
    units div divisor' \<le> kAlSignificantLimit \<and>
    (\<forall>k. dropped + k < dropped' \<longrightarrow> kAlSignificantLimit < units div (divisor * 10 ^ k))"
  using assms
proof (induction units divisor dropped rule: DivisorLoop.induct)
  case (1 units divisor dropped)
  show ?case
  proof (cases "kAlSignificantLimit < units div divisor")
    case True
    then have "DivisorLoop units (divisor * 10) (dropped + 1) = (divisor', dropped')"
      using 1(2) by (subst (asm) DivisorLoop.simps) simp
    moreover have pos: "0 < divisor * 10" using 1(3) by simp
    ultimately have IH: "dropped + 1 \<le> dropped'" "divisor' = divisor * 10 * 10 ^ (dropped' - (dropped + 1))"
      "units div divisor' \<le> kAlSignificantLimit"
      "\<forall>k. dropped + 1 + k < dropped' \<longrightarrow> kAlSignificantLimit < units div (divisor * 10 * 10 ^ k)"
      using 1(1) [OF True _ pos] by blast+
    have "dropped' - dropped = Suc (dropped' - (dropped + 1))" using IH(1) by simp
    then have d: "divisor' = divisor * 10 ^ (dropped' - dropped)" using IH(2) by (simp only: power_Suc mult.assoc)
    have "kAlSignificantLimit < units div (divisor * 10 ^ k)" if "dropped + k < dropped'" for k
    proof (cases k)
      case 0
      then show ?thesis using True by simp
    next
      case (Suc j)
      then show ?thesis using IH(4) that by (simp add: mult.assoc)
    qed
    then show ?thesis using IH(1,3) d by simp
  next
    case False
    then have "(divisor', dropped') = (divisor, dropped)" using 1(2) by (subst (asm) DivisorLoop.simps) simp
    then show ?thesis using False by simp
  qed
qed

text \<open>The digits dropped from a mantissa too large, and what is kept, rounded half up.\<close>

lemma DivisorLoop_dropped:
  assumes "DivisorLoop units 1 0 = (divisor, dropped)"
  shows "divisor = 10 ^ dropped" "units div 10 ^ dropped \<le> kAlSignificantLimit"
    "\<And>k. k < dropped \<Longrightarrow> kAlSignificantLimit < units div 10 ^ k"
    "kAlSignificantLimit < units \<longleftrightarrow> 0 < dropped"
proof -
  note v = DivisorLoop_value [OF assms zero_less_one]
  show "divisor = 10 ^ dropped" "units div 10 ^ dropped \<le> kAlSignificantLimit"
    and k: "\<And>k. k < dropped \<Longrightarrow> kAlSignificantLimit < units div 10 ^ k" using v by auto
  show "kAlSignificantLimit < units \<longleftrightarrow> 0 < dropped"
    using k [of 0] v by (cases dropped) auto
qed

definition kept_digits :: "nat \<Rightarrow> nat \<Rightarrow> nat" where
  "kept_digits units dropped =
     (if 10 ^ dropped div 2 \<le> units mod 10 ^ dropped then units div 10 ^ dropped + 1 else units div 10 ^ dropped)"

lemma iterate_times_ten: "((\<lambda>r. r * 10) ^^ n) m = m * (10 ^ n :: nat)"
  by (induction n) simp_all

lemma AlMaximumUnits_value: "AlMaximumUnits = 792281625142643375 * 10 ^ 11"
proof -
  obtain d n where dn: "DivisorLoop kMaxUnits 1 0 = (d, n)" by fastforce
  note v = DivisorLoop_dropped [OF dn]
  have "\<not> 11 < n" using v(3) [of 11] by (auto simp: kMaxUnits_def kAlSignificantLimit_def)
  moreover have "\<not> n < 11"
  proof
    assume "n < 11"
    then have "(10 :: nat) ^ n \<le> 10 ^ 10" by (intro power_increasing) simp_all
    then have "kMaxUnits div 10 ^ 10 \<le> kMaxUnits div 10 ^ n" by (rule div_le_mono2 [rotated]) simp
    then show False using v(2) by (simp add: kMaxUnits_def kAlSignificantLimit_def)
  qed
  ultimately have "n = 11" by simp
  then show ?thesis unfolding AlMaximumUnits_def dn prod.case v(1) by (simp add: kMaxUnits_def)
qed

lemma Normalize_cases:
  obtains (same) "dm_units d \<le> kAlSignificantLimit" "Normalize d = d"
  | (dropped) dropped where "kAlSignificantLimit < dm_units d" "0 < dropped"
      "dm_units d div 10 ^ dropped \<le> kAlSignificantLimit"
      "\<And>k. k < dropped \<Longrightarrow> kAlSignificantLimit < dm_units d div 10 ^ k"
      "Normalize d = (if dropped \<le> dm_scale d
         then Trimmed (MakeDecimal (kept_digits (dm_units d) dropped) (dm_scale d - dropped) (IsNegative d))
         else let r = kept_digits (dm_units d) dropped * 10 ^ (dropped - dm_scale d) in
           MakeDecimal (if kMaxUnits < r then AlMaximumUnits else r) 0 (IsNegative d))"
proof (cases "dm_units d \<le> kAlSignificantLimit")
  case True
  then show ?thesis by (intro that(1)) (simp_all add: Normalize_def)
next
  case False
  obtain dv n where dn: "DivisorLoop (dm_units d) 1 0 = (dv, n)" by fastforce
  note v = DivisorLoop_dropped [OF dn]
  show ?thesis
  proof (rule that(2) [of n])
    show "kAlSignificantLimit < dm_units d" "0 < n" "dm_units d div 10 ^ n \<le> kAlSignificantLimit"
      "\<And>k. k < n \<Longrightarrow> kAlSignificantLimit < dm_units d div 10 ^ k"
      using False v by (simp_all add: not_le)
    show "Normalize d = (if n \<le> dm_scale d
         then Trimmed (MakeDecimal (kept_digits (dm_units d) n) (dm_scale d - n) (IsNegative d))
         else let r = kept_digits (dm_units d) n * 10 ^ (n - dm_scale d) in
           MakeDecimal (if kMaxUnits < r then AlMaximumUnits else r) 0 (IsNegative d))"
      unfolding Normalize_def Let_def if_not_P [OF False] dn prod.case iterate_times_ten v(1) kept_digits_def ..
  qed
qed

lemma kept_digits_bounds:
  assumes "0 < dropped" "units div 10 ^ dropped \<le> kAlSignificantLimit"
    "kAlSignificantLimit < units div 10 ^ (dropped - 1)"
  shows "10 ^ 17 \<le> kept_digits units dropped" "kept_digits units dropped \<le> 10 ^ 18"
proof -
  have "units div 10 ^ dropped = units div 10 ^ (dropped - 1) div 10"
    using assms(1) by (metis Suc_diff_1 div_mult2_eq power_Suc2)
  then have "10 ^ 17 \<le> units div 10 ^ dropped" using assms(3) by (simp add: kAlSignificantLimit_def)
  then show "10 ^ 17 \<le> kept_digits units dropped" "kept_digits units dropped \<le> 10 ^ 18"
    using assms(2) unfolding kept_digits_def by (simp_all add: kAlSignificantLimit_def)
qed

lemma kept_digits_between:
  assumes "dm_units d div 10 ^ n \<le> kAlSignificantLimit" "0 < n"
    "\<And>k. k < n \<Longrightarrow> kAlSignificantLimit < dm_units d div 10 ^ k"
  shows "10 ^ 17 \<le> kept_digits (dm_units d) n" "kept_digits (dm_units d) n \<le> 10 ^ 18"
  using kept_digits_bounds [OF assms(2,1)] assms(2) assms(3) [of "n - 1"] by simp_all

lemma Normalize_ok [invariant_intros]:
  assumes "decimal_ok d"
  shows "decimal_ok (Normalize d)"
proof (cases rule: Normalize_cases [of d])
  case same
  then show ?thesis using assms by simp
next
  case (dropped n)
  note k = kept_digits_between [OF dropped(3,2,4)]
  have "decimal_ok (MakeDecimal (kept_digits (dm_units d) n) (dm_scale d - n) (IsNegative d))"
    using k assms by (auto simp: decimal_ok_def MakeDecimal_def kMaxUnits_def)
  moreover have "AlMaximumUnits \<le> kMaxUnits" "AlMaximumUnits \<noteq> 0"
    by (simp_all add: AlMaximumUnits_value kMaxUnits_def)
  ultimately show ?thesis
    using k(1) unfolding dropped(5)
    by (auto simp: Trimmed_ok Let_def) (auto simp: decimal_ok_def MakeDecimal_def)
qed

lemma Normalize_integer:
  assumes "dm_units d = m * 10 ^ j" "m \<le> kAlSignificantLimit" "dm_scale d = 0" "decimal_ok d"
  shows "Normalize d = d"
proof (cases rule: Normalize_cases [of d])
  case (dropped n)
  have "n \<le> j"
  proof (rule ccontr)
    assume "\<not> n \<le> j"
    then have "kAlSignificantLimit < dm_units d div 10 ^ j" by (intro dropped(4)) simp
    then show False using assms(1,2) by simp
  qed
  then have "(10 :: nat) ^ n dvd dm_units d" unfolding assms(1) by (simp add: le_imp_power_dvd)
  moreover have "0 < (10 :: nat) ^ n div 2"
    using dropped(2) by (cases n) simp_all
  ultimately have "kept_digits (dm_units d) n * 10 ^ n = dm_units d" by (simp add: kept_digits_def)
  then have "Normalize d = MakeDecimal (dm_units d) 0 (IsNegative d)"
    using dropped(2) assms(3,4) unfolding dropped(5) by (simp add: Let_def decimal_ok_def)
  then show ?thesis using assms(3) IsNegative_iff [OF assms(4)] by (simp add: MakeDecimal_def)
qed

lemma Normalize_small: "dm_units d \<le> kAlSignificantLimit \<Longrightarrow> Normalize d = d"
  by (simp add: Normalize_def)

lemma power18: "m \<le> 10 ^ 18 \<Longrightarrow> m \<le> kAlSignificantLimit \<or> m = 1 * 10 ^ 18" for m :: nat
  by (auto simp: kAlSignificantLimit_def)

lemma integer_digits:
  assumes "m \<le> 10 ^ 18"
  shows "\<exists>m' j'. m * 10 ^ j = m' * 10 ^ j' \<and> m' \<le> kAlSignificantLimit"
  using power18 [OF assms]
proof
  assume "m = 1 * 10 ^ 18"
  then have "m * 10 ^ j = 1 * 10 ^ (18 + j)" by (simp add: power_add)
  then show ?thesis by (intro exI [of _ 1] exI [of _ "18 + j"]) (simp add: kAlSignificantLimit_def)
qed blast

lemma Normalize_idem:
  assumes "decimal_ok d"
  shows "Normalize (Normalize d) = Normalize d"
proof (cases rule: Normalize_cases [of d])
  case (dropped n)
  let ?k = "kept_digits (dm_units d) n"
  note k = kept_digits_between [OF dropped(3,2,4)]
  have ok: "decimal_ok (Normalize d)" using assms by (rule Normalize_ok)
  have "(\<exists>m j. dm_units (Normalize d) = m * 10 ^ j \<and> m \<le> kAlSignificantLimit) \<and> dm_scale (Normalize d) = 0 \<or>
      dm_units (Normalize d) \<le> kAlSignificantLimit"
  proof (cases "n \<le> dm_scale d")
    case True
    obtain u t where ut: "StripTrailingZeros ?k (dm_scale d - n) = (u, t)" by fastforce
    then have N: "Normalize d = MakeDecimal u t (IsNegative d)"
      using True unfolding dropped(5) by (simp add: Trimmed_def MakeDecimal_def)
    note v = StripTrailingZeros_value [OF ut]
    have "u \<le> 10 ^ 18" using v(3) k(2) by simp
    then show ?thesis
    proof (cases "u \<le> kAlSignificantLimit")
      case False
      with power18 [OF \<open>u \<le> 10 ^ 18\<close>] have u: "u = 1 * 10 ^ 18" by blast
      then have "u mod 10 = 0" by simp
      then have "t = 0" using v(5) by simp
      then show ?thesis using u unfolding N MakeDecimal_def
        by (intro disjI1 conjI exI [of _ 1] exI [of _ 18]) (simp_all add: kAlSignificantLimit_def)
    qed (simp add: N MakeDecimal_def)
  next
    case False
    have "\<exists>m j. AlMaximumUnits = m * 10 ^ j \<and> m \<le> kAlSignificantLimit"
      unfolding AlMaximumUnits_value kAlSignificantLimit_def by (intro exI conjI) (rule refl, simp)
    then show ?thesis
      using False integer_digits [OF k(2), of "n - dm_scale d"] unfolding dropped(5)
      by (simp add: MakeDecimal_def Let_def)
  qed
  then show ?thesis using Normalize_integer [OF _ _ _ ok] Normalize_small by blast
qed simp

text \<open>How far normalising moves a value.\<close>

lemma half_up:
  fixes K :: nat
  shows "K = (if h \<le> r then a + D else a) \<Longrightarrow> u = a + r \<Longrightarrow> r < D \<Longrightarrow> 2 * h = D \<Longrightarrow>
    2 * u \<le> 2 * K + D \<and> 2 * K \<le> 2 * u + D"
  by (auto split: if_splits)

lemma kept_digits_near:
  assumes "0 < n"
  shows "2 * u \<le> 2 * (kept_digits u n * 10 ^ n) + 10 ^ n" "2 * (kept_digits u n * 10 ^ n) \<le> 2 * u + 10 ^ n"
proof -
  let ?D = "(10 :: nat) ^ n"
  have u: "u = u div ?D * ?D + u mod ?D" by (simp only: div_mult_mod_eq)
  have r: "u mod ?D < ?D" by simp
  have even: "2 * (?D div 2) = ?D" using assms by (cases n) simp_all
  have "kept_digits u n * ?D = (if ?D div 2 \<le> u mod ?D then u div ?D * ?D + ?D else u div ?D * ?D)"
    by (simp add: kept_digits_def algebra_simps)
  from half_up [OF this u r even]
  show "2 * u \<le> 2 * (kept_digits u n * ?D) + ?D" "2 * (kept_digits u n * ?D) \<le> 2 * u + ?D" by blast+
qed

lemma saturated:
  assumes "u \<le> kMaxUnits" "u div 10 ^ n \<le> kAlSignificantLimit" "0 < n"
    "\<And>k. k < n \<Longrightarrow> kAlSignificantLimit < u div 10 ^ k"
    "kMaxUnits < kept_digits u n * 10 ^ (n - s)" "kept_digits u n \<le> 10 ^ 18" "s < n"
  shows "n = 11" "s = 0" "u div 10 ^ 11 = 792281625142643375"
proof -
  have "n \<le> 11"
  proof (rule ccontr)
    assume "\<not> n \<le> 11"
    then have "kAlSignificantLimit < u div 10 ^ 11" by (intro assms(4)) simp
    moreover have "u div 10 ^ 11 \<le> kMaxUnits div 10 ^ 11" using assms(1) by (rule div_le_mono)
    ultimately show False by (simp add: kAlSignificantLimit_def kMaxUnits_def)
  qed
  moreover have "11 \<le> n - s"
  proof (rule ccontr)
    assume "\<not> 11 \<le> n - s"
    then have "(10 :: nat) ^ (n - s) \<le> 10 ^ 10" by (intro power_increasing) simp_all
    then have "kept_digits u n * 10 ^ (n - s) \<le> 10 ^ 18 * 10 ^ 10" using assms(6) by (intro mult_le_mono)
    then show False using assms(5) by (simp add: kMaxUnits_def)
  qed
  ultimately show n: "n = 11" and s: "s = 0" by simp_all
  have "792281625142643375 < kept_digits u n" using assms(5) unfolding n s by (simp add: kMaxUnits_def)
  moreover have "kept_digits u n \<le> u div 10 ^ 11 + 1" unfolding n by (simp add: kept_digits_def)
  moreover have "u div 10 ^ 11 \<le> kMaxUnits div 10 ^ 11" using assms(1) by (rule div_le_mono)
  moreover have "kMaxUnits div 10 ^ 11 = 792281625142643375" by (simp add: kMaxUnits_def)
  ultimately show "u div 10 ^ 11 = 792281625142643375" by linarith
qed

lemma Normalize_rounds:
  assumes "decimal_ok d" "kAlSignificantLimit < dm_units d"
  shows "\<exists>n m. 0 < n \<and> 10 ^ 17 \<le> m \<and> m \<le> 10 ^ 18 \<and>
    dec_value (Normalize d) = signed (dm_negative d) m * 10 ^ n / 10 ^ dm_scale d \<and>
    (2 * \<bar>int (dm_units d) - int (m * 10 ^ n)\<bar> \<le> 10 ^ n \<or>
     n = 11 \<and> dm_scale d = 0 \<and> m = 792281625142643375 \<and> dm_units d div 10 ^ 11 = m)"
proof (cases rule: Normalize_cases [of d])
  case same
  then show ?thesis using assms(2) by simp
next
  case (dropped n)
  let ?k = "kept_digits (dm_units d) n" and ?s = "dm_scale d"
  note k = kept_digits_between [OF dropped(3,2,4)]
  have near: "2 * \<bar>int (dm_units d) - int (?k * 10 ^ n)\<bar> \<le> 10 ^ n"
  proof -
    have "2 * int (dm_units d) \<le> 2 * int (?k * 10 ^ n) + int (10 ^ n)"
      "2 * int (?k * 10 ^ n) \<le> 2 * int (dm_units d) + int (10 ^ n)"
      using kept_digits_near [OF dropped(2), of "dm_units d"] by linarith+
    then show ?thesis by (simp add: abs_if)
  qed
  have neg: "IsNegative d = dm_negative d" using IsNegative_iff [OF assms(1)] .
  show ?thesis
  proof (cases "?s < n \<and> kMaxUnits < ?k * 10 ^ (n - ?s)")
    case True
    have U: "dm_units d \<le> kMaxUnits" using assms(1) by (simp add: decimal_ok_def)
    note sat = saturated [OF U dropped(3,2,4) _ k(2), of ?s]
    have s: "n = 11" "?s = 0" "dm_units d div 10 ^ 11 = 792281625142643375" using sat True by simp_all
    have "dec_value (Normalize d) = signed (dm_negative d) 792281625142643375 * 10 ^ n / 10 ^ ?s"
      using True s unfolding dropped(5) neg
      by (simp add: dec_value_def MakeDecimal_def signed_def AlMaximumUnits_value)
    then show ?thesis using s by (intro exI [of _ n] exI [of _ 792281625142643375]) simp
  next
    case False
    have "dec_value (Normalize d) = signed (dm_negative d) ?k * 10 ^ n / 10 ^ ?s"
    proof (cases "n \<le> ?s")
      case True
      have "?s = n + (?s - n)" using True by simp
      then have "(10 :: rat) ^ ?s = 10 ^ n * 10 ^ (?s - n)" by (metis power_add)
      then show ?thesis using True unfolding dropped(5) neg
        by (simp add: Trimmed_value) (simp add: dec_value_def MakeDecimal_def signed_def)
    next
      case less: False
      have "n = ?s + (n - ?s)" using less by simp
      then have "(10 :: rat) ^ n = 10 ^ ?s * 10 ^ (n - ?s)" by (metis power_add)
      then show ?thesis using False less unfolding dropped(5) neg
        by (simp add: Let_def dec_value_def MakeDecimal_def signed_def)
    qed
    then show ?thesis using near dropped(2) k by blast
  qed
qed

section \<open>Rounding to steps\<close>

lemma iterate_div_ten: "((\<lambda>u. u div 10) ^^ n) u = (u div 10 ^ n :: nat)"
  by (induction n) (simp_all add: div_mult2_eq [symmetric] mult.commute)

lemma TruncateMagnitude_value:
  "dm_units (TruncateMagnitude d) = dm_units d div 10 ^ dm_scale d" "dm_scale (TruncateMagnitude d) = 0"
  "\<not> dm_negative (TruncateMagnitude d)"
  by (simp_all add: TruncateMagnitude_def MakeDecimal_def iterate_div_ten)

lemma TruncateMagnitude_floor:
  assumes "\<not> dm_negative d"
  shows "dec_value (TruncateMagnitude d) = of_int \<lfloor>dec_value d\<rfloor>"
proof -
  have "\<lfloor>dec_value d\<rfloor> = int (dm_units d div 10 ^ dm_scale d)"
    using assms floor_divide_of_nat_eq [of "dm_units d" "10 ^ dm_scale d", where 'a = rat]
    by (simp add: dec_value_def)
  then show ?thesis by (simp add: dec_value_def [of "TruncateMagnitude d"] TruncateMagnitude_value)
qed

lemma TruncateMagnitude_ok: "decimal_ok d \<Longrightarrow> decimal_ok (TruncateMagnitude d)"
  by (auto simp: decimal_ok_def TruncateMagnitude_value intro: le_trans [OF div_le_dividend])

text \<open>A number the mantissa holds at the wider of two scales is added without rounding.\<close>

lemma rounds_to_exact:
  assumes "rounds_to q s r" "\<bar>q\<bar> * 10 ^ s = of_nat N" "N \<le> kMaxUnits" "s \<le> kMaxScale"
  shows "\<exists>d. r = Inr d \<and> decimal_ok d \<and> dec_value d = q \<and> dm_scale d = s"
proof -
  have at: "rounds_at q s = N" using assms(2) by (simp add: rounds_at_def)
  obtain d where d: "r = Inr d"
    using assms(1,3,4) at by (cases r) (auto simp: rounds_to_def)
  have D: "dm_scale d \<le> s" "decimal_ok d" "dm_units d = rounds_at q (dm_scale d)"
    "dm_negative d \<longleftrightarrow> q < 0 \<and> dm_units d \<noteq> 0"
    "dm_scale d < s \<longrightarrow> kMaxUnits < rounds_at q s"
    using assms(1,4) by (auto simp: rounds_to_def d)
  have s: "dm_scale d = s" using D(1,5) assms(3) at by force
  have "dec_value d = sgn q * of_nat N / 10 ^ s" using dec_value_signed [OF D(4,3)] at s by simp
  also have "\<dots> = sgn q * \<bar>q\<bar>" using assms(2) by (metis nonzero_mult_div_cancel_right times_divide_eq_right power_not_zero zero_neq_numeral)
  also have "\<dots> = q" by (simp add: sgn_mult_abs)
  finally show ?thesis using d D(2) s by blast
qed

lemma fraction_exact:
  assumes "decimal_ok q" "\<not> dm_negative q"
  shows "\<exists>f. SubtractDecimal q (TruncateMagnitude q) = Inr f \<and> decimal_ok f \<and>
    dec_value f = dec_value q - of_int \<lfloor>dec_value q\<rfloor>"
proof -
  let ?t = "TruncateMagnitude q" and ?s = "dm_scale q"
  have ok: "decimal_ok (Negate ?t)" "decimal_ok ?t" using assms(1) by (simp_all add: TruncateMagnitude_ok Negate_ok)
  have v: "dec_value q + dec_value (Negate ?t) = dec_value q - of_int \<lfloor>dec_value q\<rfloor>"
    by (simp add: Negate_value [OF ok(2)] TruncateMagnitude_floor [OF assms(2)])
  have scale: "max ?s (dm_scale (Negate ?t)) = ?s" by (simp add: Negate_def MakeDecimal_def TruncateMagnitude_value)
  have r: "rounds_to (dec_value q - of_int \<lfloor>dec_value q\<rfloor>) ?s (SubtractDecimal q ?t)"
    using AddDecimal_rounds [OF assms(1) ok(1)] unfolding v scale SubtractDecimal_def .
  let ?N = "dm_units q mod 10 ^ ?s"
  have "(of_nat (dm_units q) :: rat) = of_nat (dm_units q div 10 ^ ?s * 10 ^ ?s + ?N)"
    by (simp only: div_mult_mod_eq)
  then have "(of_nat (dm_units q) :: rat) = of_nat (dm_units q div 10 ^ ?s) * 10 ^ ?s + of_nat ?N"
    by (simp only: of_nat_add of_nat_mult of_nat_power of_nat_numeral)
  moreover have "\<lfloor>dec_value q\<rfloor> = int (dm_units q div 10 ^ ?s)"
    using assms(2) floor_divide_of_nat_eq [of "dm_units q" "10 ^ ?s", where 'a = rat] by (simp add: dec_value_def)
  ultimately have f: "dec_value q - of_int \<lfloor>dec_value q\<rfloor> = of_nat ?N / 10 ^ ?s"
    using assms(2) by (simp add: dec_value_def add_divide_distrib)
  have N: "?N \<le> kMaxUnits" and s: "?s \<le> kMaxScale"
    using assms(1) by (auto simp: decimal_ok_def intro: le_trans [OF mod_less_eq_dividend])
  have "\<bar>dec_value q - of_int \<lfloor>dec_value q\<rfloor>\<bar> * 10 ^ ?s = of_nat ?N" unfolding f by simp
  from rounds_to_exact [OF r this N s] show ?thesis by blast
qed

text \<open>How many steps of the precision each direction takes.\<close>

fun steps_of :: "round_direction \<Rightarrow> rat \<Rightarrow> int" where
  "steps_of Nearest q = \<lfloor>q + 1 / 2\<rfloor>"
| "steps_of Up q = \<lceil>q\<rceil>"
| "steps_of Down q = \<lfloor>q\<rfloor>"

lemma one_more_step:
  assumes "decimal_ok q" "\<not> dm_negative q" "dec_value q \<noteq> of_int \<lfloor>dec_value q\<rfloor>"
  shows "\<exists>d. AddDecimal (TruncateMagnitude q) (DecimalOfInt 1) = Inr d \<and> decimal_ok d \<and>
    dec_value d = of_int (\<lfloor>dec_value q\<rfloor> + 1)"
proof -
  let ?t = "TruncateMagnitude q" and ?n = "dm_units q div 10 ^ dm_scale q"
  have one: "decimal_ok (DecimalOfInt 1)" "dec_value (DecimalOfInt 1) = 1" "dm_scale (DecimalOfInt 1) = 0"
    by (simp_all add: DecimalOfInt_def MakeDecimal_def decimal_ok_def dec_value_def kMaxUnits_def)
  have t: "decimal_ok ?t" "dec_value ?t = of_int \<lfloor>dec_value q\<rfloor>" "dm_scale ?t = 0"
    using assms by (simp_all add: TruncateMagnitude_ok TruncateMagnitude_floor TruncateMagnitude_value)
  have v: "dec_value ?t = of_nat ?n" by (simp add: dec_value_def TruncateMagnitude_value)
  have "dm_scale q \<noteq> 0"
  proof
    assume "dm_scale q = 0"
    then have "dec_value q = of_nat (dm_units q)" using assms(2) by (simp add: dec_value_def)
    then show False using assms(3) by (metis floor_of_nat of_int_of_nat_eq)
  qed
  then have "(10 :: nat) ^ 1 \<le> 10 ^ dm_scale q" by (intro power_increasing) simp_all
  then have "?n \<le> dm_units q div 10" by (intro div_le_mono2) simp_all
  also have "\<dots> \<le> kMaxUnits div 10" using assms(1) by (intro div_le_mono) (simp add: decimal_ok_def)
  finally have n: "?n + 1 \<le> kMaxUnits" by (simp add: kMaxUnits_def)
  have r: "rounds_to (dec_value ?t + 1) 0 (AddDecimal ?t (DecimalOfInt 1))"
    using AddDecimal_rounds [OF t(1) one(1)] by (simp add: one t(3))
  have "\<bar>dec_value ?t + 1\<bar> * 10 ^ 0 = of_nat (?n + 1)" unfolding v by simp
  from rounds_to_exact [OF r this n] show ?thesis using t(2) by auto
qed

lemma floor_half:
  fixes q :: rat
  shows "of_int \<lfloor>q\<rfloor> + 1 / 2 \<le> q \<Longrightarrow> \<lfloor>q + 1 / 2\<rfloor> = \<lfloor>q\<rfloor> + 1"
    "q < of_int \<lfloor>q\<rfloor> + 1 / 2 \<Longrightarrow> \<lfloor>q + 1 / 2\<rfloor> = \<lfloor>q\<rfloor>"
    "q \<noteq> of_int \<lfloor>q\<rfloor> \<Longrightarrow> \<lceil>q\<rceil> = \<lfloor>q\<rfloor> + 1" "q = of_int \<lfloor>q\<rfloor> \<Longrightarrow> \<lceil>q\<rceil> = \<lfloor>q\<rfloor>"
proof -
  show "of_int \<lfloor>q\<rfloor> + 1 / 2 \<le> q \<Longrightarrow> \<lfloor>q + 1 / 2\<rfloor> = \<lfloor>q\<rfloor> + 1" by (rule floor_unique) (simp, linarith)
  show "q < of_int \<lfloor>q\<rfloor> + 1 / 2 \<Longrightarrow> \<lfloor>q + 1 / 2\<rfloor> = \<lfloor>q\<rfloor>" by (rule floor_unique) linarith+
  show "q \<noteq> of_int \<lfloor>q\<rfloor> \<Longrightarrow> \<lceil>q\<rceil> = \<lfloor>q\<rfloor> + 1" by (rule ceiling_unique) (simp, linarith)+
  show "q = of_int \<lfloor>q\<rfloor> \<Longrightarrow> \<lceil>q\<rceil> = \<lfloor>q\<rfloor>" by (metis ceiling_of_int)
qed

lemma best_negate:
  assumes "best_result q r"
  shows "best_result (- q) (andThen r (\<lambda>d. Inr (Negate d)))"
proof -
  have at: "rounds_at (- q) s = rounds_at q s" for s by (simp add: rounds_at_def)
  show ?thesis
  proof (cases r)
    case (Inr d)
    then have "best_decimal q d" "decimal_ok d" using assms by (simp_all add: best_result_def best_decimal_def)
    then show ?thesis unfolding best_result_def Inr
      by (simp add: best_decimal_def Negate_ok Negate_value at sgn_minus)
  qed (use assms in \<open>simp add: best_result_def at\<close>)
qed

text \<open>The steps \<open>Round\<close> counts, and the whole of it when the quotient is known.\<close>

lemma Round_quotient:
  assumes n: "decimal_ok n" and p: "decimal_ok p" "dm_units p \<noteq> 0" "\<not> dm_negative p"
    and q: "DivideDecimal (AbsDecimal n) p = Inr q" "decimal_ok q" "\<not> dm_negative q"
  shows "best_result ((if dm_negative n then - 1 else 1) * (of_int (steps_of dir (dec_value q)) * dec_value p))
    (Round n p dir)"
proof -
  let ?t = "TruncateMagnitude q"
  obtain f where f: "SubtractDecimal q ?t = Inr f" "decimal_ok f"
    "dec_value f = dec_value q - of_int \<lfloor>dec_value q\<rfloor>"
    using fraction_exact [OF q(2,3)] by blast
  have half: "decimal_ok kHalf" "dec_value kHalf = 1 / 2"
    by (simp_all add: kHalf_def MakeDecimal_def decimal_ok_def dec_value_def kMaxUnits_def kMaxScale_def)
  note t = TruncateMagnitude_ok [OF q(2)] TruncateMagnitude_floor [OF q(3)]
  have zero: "IsZero f \<longleftrightarrow> dec_value q = of_int \<lfloor>dec_value q\<rfloor>"
    using dec_value_zero_iff [of f] f(3) by (auto simp: IsZero_def)
  have cmp: "CompareDecimal f kHalf = Inr (spaceship (dec_value f) (1 / 2))"
    using CompareDecimal_value [OF f(2) half(1)] by (simp add: half(2))
  let ?steps = "case dir of
      Nearest \<Rightarrow> andThen (CompareDecimal f kHalf) (\<lambda>c.
        if c \<noteq> Ord_less then AddDecimal ?t (DecimalOfInt 1) else Inr ?t)
    | Up \<Rightarrow> if \<not> IsZero f then AddDecimal ?t (DecimalOfInt 1) else Inr ?t
    | Down \<Rightarrow> Inr ?t"
  have "\<exists>d. ?steps = Inr d \<and> decimal_ok d \<and> dec_value d = of_int (steps_of dir (dec_value q))"
  proof (cases dir)
    case Nearest
    show ?thesis
    proof (cases "of_int \<lfloor>dec_value q\<rfloor> + 1 / 2 \<le> dec_value q")
      case True
      then have "dec_value q \<noteq> of_int \<lfloor>dec_value q\<rfloor>" by linarith
      from one_more_step [OF q(2,3) this] show ?thesis
        using True f(3) by (auto simp: Nearest cmp floor_half(1) simp del: of_int_add)
    next
      case False
      then show ?thesis using t f(3) by (simp add: Nearest cmp floor_half(2))
    qed
  next
    case Up
    show ?thesis
    proof (cases "dec_value q = of_int \<lfloor>dec_value q\<rfloor>")
      case True
      then show ?thesis using t by (simp add: Up zero floor_half(4))
    next
      case False
      from one_more_step [OF q(2,3) this] show ?thesis
        using False by (simp add: Up zero floor_half(3) del: of_int_add)
    qed
  qed (use t in simp)
  then obtain d where d: "?steps = Inr d" "decimal_ok d" "dec_value d = of_int (steps_of dir (dec_value q))"
    by blast
  have prod: "best_result (of_int (steps_of dir (dec_value q)) * dec_value p) (MultiplyDecimal d p)"
    using MultiplyDecimal_best_result [OF d(2) p(1)] by (simp add: d(3))
  have "\<not> IsZero p" "\<not> IsNegative p" using p by (simp_all add: IsZero_def IsNegative_def)
  then have "Round n p dir = andThen (MultiplyDecimal d p) (\<lambda>r. Inr (if dm_negative n then Negate r else r))"
    unfolding Round_def IsNegative_iff [OF n] by (simp only: if_False q(1) andThen_simps Let_def f(1) d(1))
  then show ?thesis using prod best_negate [OF prod]
    by (cases "MultiplyDecimal d p") auto
qed

text \<open>A value some decimal holds is its own best decimal.\<close>

lemma round_half_even_le: "0 \<le> q \<Longrightarrow> q \<le> of_nat N \<Longrightarrow> round_half_even q \<le> N"
proof -
  assume q: "0 \<le> q" "q \<le> of_nat N"
  then have f: "nat \<lfloor>q\<rfloor> \<le> N" by linarith
  show ?thesis
  proof (cases "nat \<lfloor>q\<rfloor> = N")
    case True
    then have "q = of_nat N" using q by linarith
    then show ?thesis by simp
  next
    case False
    then show ?thesis using f by (auto simp: round_half_even_def Let_def)
  qed
qed

lemma rounds_at_value:
  assumes "dm_scale x \<le> s"
  shows "rounds_at (dec_value x) s = dm_units x * 10 ^ (s - dm_scale x)"
proof -
  have "(10 :: rat) ^ s = 10 ^ dm_scale x * 10 ^ (s - dm_scale x)" using assms by (simp flip: power_add)
  then have "\<bar>dec_value x\<bar> * 10 ^ s = of_nat (dm_units x * 10 ^ (s - dm_scale x))" by (simp add: abs_dec_value)
  then show ?thesis unfolding rounds_at_def by (simp only: round_half_even_of_nat)
qed

lemma best_representable:
  assumes "decimal_ok x" "best_result (dec_value x) r"
  shows "\<exists>d. r = Inr d \<and> decimal_ok d \<and> dec_value d = dec_value x"
proof -
  let ?v = "dec_value x"
  have "\<bar>?v\<bar> \<le> of_nat (dm_units x)" using power_increasing [of 0 "dm_scale x" "10 :: rat"]
    by (simp add: abs_dec_value field_simps mult_le_cancel_left1)
  then have "rounds_at ?v 0 \<le> dm_units x" unfolding rounds_at_def by (intro round_half_even_le) simp_all
  then have "\<not> kMaxUnits < rounds_at ?v 0" using assms(1) by (simp add: decimal_ok_def)
  then obtain d where d: "r = Inr d" "best_decimal ?v d"
    using assms(2) by (cases r) (simp_all add: best_result_def)
  obtain s where s: "dec_value d = sgn ?v * of_nat (rounds_at ?v s) / 10 ^ s"
    "\<forall>s'. s < s' \<and> s' \<le> kMaxScale \<longrightarrow> dec_value d = ?v \<or> kMaxUnits < rounds_at ?v s'"
    using d(2) by (auto simp: best_decimal_def)
  have "dec_value d = ?v"
  proof (cases "s < dm_scale x")
    case True
    then show ?thesis using s(2) [rule_format, of "dm_scale x"] assms(1) rounds_at_value [of x "dm_scale x"]
      by (auto simp: decimal_ok_def)
  next
    case False
    then have at: "rounds_at ?v s = dm_units x * 10 ^ (s - dm_scale x)" by (intro rounds_at_value) simp
    have "(10 :: rat) ^ s = 10 ^ dm_scale x * 10 ^ (s - dm_scale x)" using False by (simp flip: power_add)
    then have "dec_value d = sgn ?v * \<bar>?v\<bar>" unfolding s(1) at by (simp add: abs_dec_value)
    then show ?thesis by (simp add: sgn_mult_abs)
  qed
  then show ?thesis using d by (auto simp: best_decimal_def)
qed

lemma abs_decimal:
  assumes "decimal_ok n"
  shows "decimal_ok (AbsDecimal n)" "dec_value (AbsDecimal n) = \<bar>dec_value n\<bar>"
  using assms by (auto simp: AbsDecimal_def MakeDecimal_def decimal_ok_def dec_value_def)

lemma best_nonneg: "best_decimal q d \<Longrightarrow> 0 \<le> q \<Longrightarrow> \<not> dm_negative d"
proof
  assume d: "best_decimal q d" "0 \<le> q" "dm_negative d"
  then have "dec_value d < 0" using dec_value_neg_iff [of d] by (auto simp: best_decimal_def)
  moreover have "0 \<le> dec_value d" using d(1,2) by (auto simp: best_decimal_def sgn_if)
  ultimately show False by simp
qed

text \<open>A multiple of the precision is left alone by every direction.\<close>

lemma Round_multiple:
  assumes n: "decimal_ok n" and p: "decimal_ok p" "dm_units p \<noteq> 0" "\<not> dm_negative p"
    and k: "\<bar>dec_value n\<bar> = of_nat k * dec_value p" "k \<le> kMaxUnits"
  shows "\<exists>r. Round n p dir = Inr r \<and> decimal_ok r \<and> dec_value r = dec_value n"
proof -
  have p0: "dec_value p \<noteq> 0" using p(2) by (simp add: dec_value_zero_iff)
  let ?k = "MakeDecimal k 0 False"
  have kok: "decimal_ok ?k" "dec_value ?k = of_nat k" using k(2) by (simp_all add: decimal_ok_def MakeDecimal_def dec_value_def)
  have "\<bar>dec_value n\<bar> / dec_value p = dec_value ?k" unfolding k(1) kok(2) using p0 by simp
  then have "best_result (dec_value ?k) (DivideDecimal (AbsDecimal n) p)"
    using DivideDecimal_best_result [OF abs_decimal(1) [OF n] p(1,2)] abs_decimal(2) [OF n] by simp
  then obtain q where q: "DivideDecimal (AbsDecimal n) p = Inr q" "decimal_ok q" "dec_value q = of_nat k"
    using best_representable [OF kok(1)] kok(2) by auto
  have pos: "\<not> dm_negative q" using dec_value_neg_iff [OF q(2)] q(3) by simp
  have steps: "(of_int (steps_of dir (dec_value q)) :: rat) = of_nat k"
    using floor_half(2,4) [of "dec_value q"] unfolding q(3) by (cases dir) simp_all
  have "(if dm_negative n then - 1 else 1) * (of_nat k * dec_value p) = dec_value n"
    unfolding k(1) [symmetric] using dec_value_neg_iff [OF n] by (simp add: abs_if)
  then have "best_result (dec_value n) (Round n p dir)"
    using Round_quotient [OF n p q(1,2) pos, of dir] unfolding steps by simp
  from best_representable [OF n this] show ?thesis .
qed

lemma Round_result:
  assumes n: "decimal_ok n" and p: "decimal_ok p" "dm_units p \<noteq> 0" "\<not> dm_negative p"
  shows "(\<exists>q. best_decimal (\<bar>dec_value n\<bar> / dec_value p) q \<and>
      best_result ((if dm_negative n then - 1 else 1) * (of_int (steps_of dir (dec_value q)) * dec_value p))
        (Round n p dir)) \<or>
    kMaxUnits < rounds_at (\<bar>dec_value n\<bar> / dec_value p) 0 \<and> (\<exists>e. Round n p dir = Inl e)"
proof (cases "DivideDecimal (AbsDecimal n) p")
  case (Inl e)
  have "IsZero p = False" "IsNegative p = False" using p by (simp_all add: IsZero_def IsNegative_def)
  then have "Round n p dir = Inl e" unfolding Round_def by (simp add: Inl)
  then show ?thesis
    using DivideDecimal_best_result [OF abs_decimal(1) [OF n] p(1,2)] unfolding Inl abs_decimal(2) [OF n]
    by (simp add: best_result_def)
next
  case (Inr q)
  have best: "best_decimal (\<bar>dec_value n\<bar> / dec_value p) q"
    using DivideDecimal_best_result [OF abs_decimal(1) [OF n] p(1,2)] unfolding Inr abs_decimal(2) [OF n]
    by (simp add: best_result_def)
  have "0 \<le> dec_value p" using dec_value_neg_iff [OF p(1)] p(3) by simp
  then have "\<not> dm_negative q" using best_nonneg [OF best] by simp
  moreover have "decimal_ok q" using best by (simp add: best_decimal_def)
  ultimately show ?thesis using Round_quotient [OF n p Inr] best by blast
qed

section \<open>The conversion to an Integer\<close>

lemma half_up_integer:
  assumes "decimal_ok d"
  shows "\<exists>w. Round d (DecimalOfInt 1) Nearest = Inr w \<and> decimal_ok w \<and>
    dec_value w = (if dm_negative d then - 1 else 1) * of_int \<lfloor>\<bar>dec_value d\<bar> + 1 / 2\<rfloor>"
proof -
  have one: "decimal_ok (DecimalOfInt 1)" "dec_value (DecimalOfInt 1) = 1" "dm_units (DecimalOfInt 1) \<noteq> 0"
    "\<not> dm_negative (DecimalOfInt 1)"
    by (simp_all add: DecimalOfInt_def MakeDecimal_def decimal_ok_def dec_value_def kMaxUnits_def)
  let ?sg = "if dm_negative d then - 1 else (1 :: rat)" and ?f = "\<lfloor>\<bar>dec_value d\<bar> + 1 / 2\<rfloor>"
  have "best_result (dec_value (AbsDecimal d)) (DivideDecimal (AbsDecimal d) (DecimalOfInt 1))"
    using DivideDecimal_best_result [OF abs_decimal(1) [OF assms] one(1,3)] one(2) by simp
  then obtain q where q: "DivideDecimal (AbsDecimal d) (DecimalOfInt 1) = Inr q" "decimal_ok q"
    "dec_value q = \<bar>dec_value d\<bar>"
    using best_representable [OF abs_decimal(1) [OF assms]] abs_decimal(2) [OF assms] by auto
  have pos: "\<not> dm_negative q" using dec_value_neg_iff [OF q(2)] q(3) by simp
  have best: "best_result (?sg * of_int ?f) (Round d (DecimalOfInt 1) Nearest)"
    using Round_quotient [OF assms one(1,3,4) q(1,2) pos, of Nearest] by (simp add: one(2) q(3))
  have f0: "0 \<le> ?f" by (simp add: le_floor_iff)
  have "\<bar>dec_value d\<bar> \<le> of_nat (dm_units d)" using power_increasing [of 0 "dm_scale d" "10 :: rat"]
    by (simp add: abs_dec_value field_simps mult_le_cancel_left1)
  then have "?f \<le> int (dm_units d)" by linarith
  then have f: "nat ?f \<le> kMaxUnits" using assms f0 unfolding decimal_ok_def by linarith
  obtain m where m: "m = nat ?f" by blast
  have unit: "(of_int ?f :: rat) = of_nat m" using f0 by (simp add: m)
  let ?w = "MakeDecimal m 0 (dm_negative d \<and> m \<noteq> 0)"
  have w: "decimal_ok ?w" "dec_value ?w = ?sg * of_int ?f"
    using f unfolding unit m [symmetric] by (auto simp: decimal_ok_def MakeDecimal_def dec_value_def)
  from best_representable [OF w(1)] best show ?thesis unfolding w(2) by blast
qed

lemma integer_units:
  assumes "dec_value w = of_int i" "decimal_ok w"
  shows "int (dm_units w div 10 ^ dm_scale w) = \<bar>i\<bar>" "dm_negative w \<longleftrightarrow> i < 0"
proof -
  have "(of_nat (dm_units w) :: rat) / 10 ^ dm_scale w = of_int \<bar>i\<bar>" using assms(1) abs_dec_value [of w] by simp
  then have "(of_nat (dm_units w) :: rat) / of_nat (10 ^ dm_scale w) = of_int \<bar>i\<bar>" by simp
  then have "\<lfloor>(of_nat (dm_units w) :: rat) / of_nat (10 ^ dm_scale w)\<rfloor> = \<bar>i\<bar>" by (simp only: floor_of_int)
  then show "int (dm_units w div 10 ^ dm_scale w) = \<bar>i\<bar>" by (simp only: floor_divide_of_nat_eq)
  show "dm_negative w \<longleftrightarrow> i < 0" using dec_value_neg_iff [OF assms(2)] assms(1) by simp
qed

lemma ToInt32_value:
  assumes "decimal_ok d"
  defines "i \<equiv> (if dm_negative d then - \<lfloor>\<bar>dec_value d\<bar> + 1 / 2\<rfloor> else \<lfloor>\<bar>dec_value d\<bar> + 1 / 2\<rfloor>)"
  shows "ToInt32 d = (if - (2 ^ 31) \<le> i \<and> i < 2 ^ 31 then Inr i
    else Inl (DecimalError (ToInvariantString d @ '' does not fit an Integer'')))"
proof -
  obtain w where w: "Round d (DecimalOfInt 1) Nearest = Inr w" "decimal_ok w" "dec_value w = of_int i"
    using half_up_integer [OF assms(1)] unfolding i_def by (auto split: if_splits)
  note u = integer_units [OF w(3,2)]
  have T: "ToInt32 d = (let units = dm_units w div 10 ^ dm_scale w in
      if 2 ^ 31 - 1 + (if dm_negative w then 1 else 0) < units
      then Inl (DecimalError (ToInvariantString d @ '' does not fit an Integer''))
      else Inr (if dm_negative w then - int units else int units))"
    by (simp add: ToInt32_def w(1) iterate_div_ten)
  obtain m where m: "m = dm_units w div 10 ^ dm_scale w" by blast
  have "int m = \<bar>i\<bar>" using u(1) unfolding m .
  then show ?thesis unfolding T m [symmetric] u(2) Let_def by (auto simp: abs_if)
qed

section \<open>Properties\<close>

text \<open>
  Normalising keeps the representation invariant, is idempotent, leaves mantissas of eighteen
  digits alone and otherwise keeps seventeen or eighteen digits of the value, within half a unit of
  the last one kept, save for the saturation at the largest eighteen-digit multiple.
\<close>

theorem normalize_significance:
  assumes "decimal_ok d"
  shows "decimal_ok (Normalize d) \<and> Normalize (Normalize d) = Normalize d \<and>
    (if dm_units d \<le> kAlSignificantLimit then Normalize d = d
     else \<exists>n m. 0 < n \<and> 10 ^ 17 \<le> m \<and> m \<le> 10 ^ 18 \<and>
       dec_value (Normalize d) = signed (dm_negative d) m * 10 ^ n / 10 ^ dm_scale d \<and>
       (2 * \<bar>int (dm_units d) - int (m * 10 ^ n)\<bar> \<le> 10 ^ n \<or>
        n = 11 \<and> dm_scale d = 0 \<and> m = 792281625142643375 \<and> dm_units d div 10 ^ 11 = m))"
  using Normalize_ok [OF assms] Normalize_idem [OF assms] Normalize_small [of d] Normalize_rounds [OF assms]
  by simp

lemma normalize_significance_witness:
  "decimal_ok (Normalize MaxValue) \<and> Normalize (Normalize MaxValue) = Normalize MaxValue"
  using normalize_significance [of MaxValue] by (simp add: MaxValue_def decimal_ok_def MakeDecimal_def)

text \<open>
  \<open>Round\<close> divides by the precision, counts the steps its direction asks for in that quotient
  (nearest with ties away from zero, the ceiling or the floor), and returns the best decimal for that
  many steps of the precision with the number's sign; it fails only on an overflow.
\<close>

theorem round_steps:
  assumes "decimal_ok n" "decimal_ok p" "dm_units p \<noteq> 0" "\<not> dm_negative p"
  shows "(\<exists>q. best_decimal (\<bar>dec_value n\<bar> / dec_value p) q \<and>
      best_result ((if dm_negative n then - 1 else 1) * (of_int (steps_of dir (dec_value q)) * dec_value p))
        (Round n p dir)) \<or>
    kMaxUnits < rounds_at (\<bar>dec_value n\<bar> / dec_value p) 0 \<and> (\<exists>e. Round n p dir = Inl e)"
  by (rule Round_result [OF assms])

lemma round_steps_witness:
  "(\<exists>q. best_decimal (3 / 1) q \<and>
      best_result (- 1 * (of_int (steps_of Up (dec_value q)) * 1)) (Round (MakeDecimal 30 1 True) (MakeDecimal 1 0 False) Up)) \<or>
    kMaxUnits < rounds_at (3 / 1) 0 \<and> (\<exists>e. Round (MakeDecimal 30 1 True) (MakeDecimal 1 0 False) Up = Inl e)"
  using round_steps [OF sample_ok(2,1), of Up] by (simp add: MakeDecimal_def dec_value_def)

text \<open>
  A number that is a multiple of the precision comes back from \<open>Round\<close> with its value unchanged,
  in every direction.
\<close>

theorem round_multiple:
  assumes "decimal_ok n" "decimal_ok p" "dm_units p \<noteq> 0" "\<not> dm_negative p"
    "\<bar>dec_value n\<bar> = of_nat k * dec_value p" "k \<le> kMaxUnits"
  shows "\<exists>r. Round n p dir = Inr r \<and> decimal_ok r \<and> dec_value r = dec_value n"
  by (rule Round_multiple [OF assms])

lemma round_multiple_witness:
  "\<exists>r. Round (MakeDecimal 30 1 True) (MakeDecimal 1 0 False) Down = Inr r \<and> decimal_ok r \<and> dec_value r = - 3"
  using round_multiple [OF sample_ok(2,1), of 3 Down] by (simp add: MakeDecimal_def dec_value_def kMaxUnits_def)

text \<open>
  The conversion to a 32-bit integer rounds half away from zero and succeeds exactly when the
  rounded value is in the range of the type; nothing wraps.
\<close>

theorem to_int32_in_range:
  assumes "decimal_ok d"
    "i = (if dm_negative d then - \<lfloor>\<bar>dec_value d\<bar> + 1 / 2\<rfloor> else \<lfloor>\<bar>dec_value d\<bar> + 1 / 2\<rfloor>)"
  shows "ToInt32 d = (if - (2 ^ 31) \<le> i \<and> i < 2 ^ 31 then Inr i
    else Inl (DecimalError (ToInvariantString d @ '' does not fit an Integer'')))"
  using ToInt32_value [OF assms(1)] by (simp add: assms(2))

lemma to_int32_in_range_witness: "ToInt32 (MakeDecimal 30 1 True) = Inr (- 3)"
proof -
  have "\<lfloor>7 / 2 :: rat\<rfloor> = 3" by (rule floor_unique) simp_all
  then have "- 3 = (if dm_negative (MakeDecimal 30 1 True)
      then - \<lfloor>\<bar>dec_value (MakeDecimal 30 1 True)\<bar> + 1 / 2\<rfloor>
      else \<lfloor>\<bar>dec_value (MakeDecimal 30 1 True)\<bar> + 1 / 2\<rfloor>)"
    unfolding sample_values by (simp add: MakeDecimal_def)
  from to_int32_in_range [OF sample_ok(2) this] show ?thesis by simp
qed

end
