(* ===== verification/DecimalText.thy ===== *)
theory DecimalText
  imports AlDecimal
begin

text \<open>
  The notation of Decimal: \<open>FromInvariantString\<close> of \<^verbatim>\<open>src/src/net/Decimal.cpp\<close> reads every written
  number as its best decimal, however many digits it has, and reads back exactly, scale included,
  what \<open>ToInvariantString\<close> writes.
\<close>

section \<open>Digits kept and dropped\<close>

lemma digits_value_append: "digits_value (s @ t) = digits_value s * 10 ^ length t + digits_value t"
proof (induction t rule: rev_induct)
  case (snoc c t)
  have "digits_value (s @ t @ [c]) = digits_value (s @ t) * 10 + digit_value c"
    by (simp flip: append_assoc)
  then show ?case using snoc by (simp add: algebra_simps)
qed simp

lemma AppendTail_means:
  assumes "tail_means t n d" "digit < 10" "even d"
  shows "tail_means (AppendTail digit t) (n * 10 + digit) (10 * d)"
proof -
  obtain k where k: "d = 2 * k" using assms(3) by blast
  have n: "n < d" using assms(1) by (simp add: tail_means_def)
  have less: "n * 10 + digit < 10 * d" using n assms(2) by simp
  have cases: "10 * d < 2 * (n * 10 + digit) \<longleftrightarrow> d < 2 * n \<or> 2 * n = d \<and> digit \<noteq> 0"
    "2 * (n * 10 + digit) = 10 * d \<longleftrightarrow> 2 * n = d \<and> digit = 0"
    using assms(2) unfolding k by (cases n k rule: linorder_cases; simp; linarith)+
  show ?thesis using assms(1) less cases by (auto simp: tail_means_def AppendTail_def)
qed

text \<open>What the digits read so far, with value \<open>N\<close> and \<open>s\<close> of them behind the point, have become.\<close>

definition holds :: "parsed_magnitude \<Rightarrow> nat \<Rightarrow> nat \<Rightarrow> bool" where
  "holds m N s \<longleftrightarrow> pm_units m \<le> kMaxUnits \<and> pm_scale m \<le> kMaxScale \<and>
     (if pm_dropping m
      then (\<exists>k n. pm_scale m + Suc k = s \<and> N = pm_units m * 10 ^ Suc k + n \<and>
        tail_means (pm_tail m) n (10 ^ Suc k) \<and> (pm_scale m = kMaxScale \<or> kMaxUnits < N div 10 ^ k))
      else pm_units m = N \<and> pm_scale m = s \<and> pm_tail m = NoTail)"

lemma holds_none: "holds NoMagnitude 0 0"
  by (simp add: holds_def NoMagnitude_def)

lemma exceeds_iff:
  assumes "digit < 10"
  shows "(kMaxUnits - digit) div 10 < units \<longleftrightarrow> kMaxUnits < units * 10 + digit"
proof -
  have "digit \<le> kMaxUnits" using assms by (simp add: kMaxUnits_def)
  then show ?thesis by (auto simp: div_less_iff_less_mult less_diff_conv2)
qed

lemma AppendDigit_holds:
  assumes "holds m N s" "digit < 10" "fractional \<or> s = 0"
  shows "case AppendDigit digit fractional m of
      Inr m' \<Rightarrow> holds m' (N * 10 + digit) (if fractional then Suc s else s)
    | Inl e \<Rightarrow> s = 0 \<and> \<not> fractional \<and> kMaxUnits < N * 10 + digit"
proof (cases "pm_dropping m")
  case True
  then obtain k n where k: "pm_scale m + Suc k = s" "N = pm_units m * 10 ^ Suc k + n"
    "tail_means (pm_tail m) n (10 ^ Suc k)" "pm_scale m = kMaxScale \<or> kMaxUnits < N div 10 ^ k"
    using assms(1) by (auto simp: holds_def)
  have f: fractional using assms(3) k(1) by auto
  have "tail_means (AppendTail digit (pm_tail m)) (n * 10 + digit) (10 * 10 ^ Suc k)"
    by (rule AppendTail_means [OF k(3) assms(2)]) simp
  moreover have "(N * 10 + digit) div 10 ^ Suc k = N div 10 ^ k"
    using assms(2) by (simp add: div_mult2_eq)
  moreover have "N * 10 + digit = pm_units m * 10 ^ Suc (Suc k) + (n * 10 + digit)" using k(2) by simp
  ultimately have "\<exists>j n'. pm_scale m + Suc j = Suc s \<and> N * 10 + digit = pm_units m * 10 ^ Suc j + n' \<and>
      tail_means (AppendTail digit (pm_tail m)) n' (10 ^ Suc j) \<and>
      (pm_scale m = kMaxScale \<or> kMaxUnits < (N * 10 + digit) div 10 ^ j)"
    using k(1,4) by - (rule exI [of _ "Suc k"], rule exI [of _ "n * 10 + digit"], simp only: power_Suc, simp)
  then show ?thesis using True f assms(1) by (auto simp: AppendDigit_def holds_def)
next
  case False
  then have m: "pm_units m = N" "pm_scale m = s" "pm_tail m = NoTail" "N \<le> kMaxUnits" "s \<le> kMaxScale"
    using assms(1) by (simp_all add: holds_def)
  note over = exceeds_iff [OF assms(2), of N]
  show ?thesis
  proof (cases "fractional \<and> (s = kMaxScale \<or> kMaxUnits < N * 10 + digit)")
    case True
    have "tail_means (Prepend digit NoTail) (digit * 1 + 0) (10 * 1)"
      by (rule Prepend_means [OF NoTail_means assms(2)]) simp
    then show ?thesis using True False m over by (simp add: AppendDigit_def holds_def)
  next
    case keep: False
    show ?thesis
    proof (cases "kMaxUnits < N * 10 + digit")
      case True
      then show ?thesis using keep False m over assms(3) by (auto simp: AppendDigit_def AppendDecimalDigit_def)
    next
      case fits: False
      then show ?thesis using keep False m over by (auto simp: AppendDigit_def AppendDecimalDigit_def holds_def)
    qed
  qed
qed

section \<open>Reading\<close>

lemma digit_not_point: "is_digit c \<Longrightarrow> c \<noteq> CHR ''.''"
  by (auto simp: is_digit_def code_def)

text \<open>A run of digits is taken in, or the whole part alone exceeds the mantissa.\<close>

lemma ParseLoop_digits:
  assumes "\<forall>c \<in> set ds. is_digit c" "holds m (digits_value ps) s" "point \<or> s = 0"
  shows "(\<exists>m'. holds m' (digits_value (ps @ ds)) (if point then s + length ds else s) \<and>
      ParseLoop seen point m (ds @ rest) = ParseLoop (seen \<or> ds \<noteq> []) point m' rest) \<or>
    \<not> point \<and> (\<exists>e. ParseLoop seen point m (ds @ rest) = Inl e) \<and>
      (\<exists>as bs. ds = as @ bs \<and> kMaxUnits < digits_value (ps @ as))"
  using assms
proof (induction ds arbitrary: seen m ps s)
  case Nil
  then show ?case by auto
next
  case (Cons c ds)
  have c: "is_digit c" "c \<noteq> CHR ''.''" "digit_value c < 10" using Cons.prems(1) digit_not_point by auto
  have step: "digits_value (ps @ [c]) = digits_value ps * 10 + digit_value c" by simp
  note A = AppendDigit_holds [OF Cons.prems(2) c(3) Cons.prems(3)]
  show ?case
  proof (cases "AppendDigit (digit_value c) point m")
    case (Inl e)
    then have "\<not> point \<and> kMaxUnits < digits_value (ps @ [c])" using A by simp
    moreover have "ParseLoop seen point m ((c # ds) @ rest) = Inl e" using c by (simp add: Inl)
    moreover have "c # ds = [c] @ ds" by simp
    ultimately show ?thesis by blast
  next
    case (Inr m')
    let ?s = "if point then Suc s else s"
    have h: "holds m' (digits_value (ps @ [c])) ?s" "point \<or> ?s = 0" using A Cons.prems(3) by (auto simp: Inr)
    have e: "ParseLoop seen point m ((c # ds) @ rest) = ParseLoop True point m' (ds @ rest)"
      using c by (simp add: Inr)
    have len: "(if point then ?s + length ds else ?s) = (if point then s + length (c # ds) else s)" by simp
    have app: "(ps @ [c]) @ as = ps @ (c # as)" for as by simp
    have more: "(\<exists>as bs. ds = as @ bs \<and> kMaxUnits < digits_value (ps @ (c # as))) \<Longrightarrow>
        \<exists>as bs. c # ds = as @ bs \<and> kMaxUnits < digits_value (ps @ as)"
      by (metis append_Cons)
    have "\<forall>c \<in> set ds. is_digit c" using Cons.prems(1) by simp
    from Cons.IH [OF this h, of True] show ?thesis using more unfolding e len app by auto
  qed
qed

text \<open>What \<open>Finish\<close> makes of the digits: the best decimal, and exactly them when nothing was dropped.\<close>

lemma FinishMagnitude_best:
  assumes "holds m N s"
  shows "best_result ((if neg then - 1 else 1) * (of_nat N / 10 ^ s)) (FinishMagnitude neg m)"
    and "N \<le> kMaxUnits \<Longrightarrow> s \<le> kMaxScale \<Longrightarrow>
      FinishMagnitude neg m = Inr (MakeDecimal N s (neg \<and> N \<noteq> 0))"
proof -
  let ?q = "(if neg then - 1 else 1) * (of_nat N / 10 ^ s :: rat)"
  let ?v = "FromU128 (pm_units m)" and ?s = "pm_scale m"
  have m: "pm_units m \<le> kMaxUnits" "?s \<le> kMaxScale" using assms by (simp_all add: holds_def)
  have v: "wide_value ?v = pm_units m" using FromU128_value [OF units_less [OF m(1)]] .
  obtain k n where k: "?s + k = s" "N = pm_units m * 10 ^ k + n" "tail_means (pm_tail m) n (10 ^ k)"
    "k = 0 \<or> ?s = kMaxScale \<or> kMaxUnits < N div 10 ^ (k - 1)" "k = 0 \<longrightarrow> \<not> pm_dropping m \<and> pm_tail m = NoTail \<and> n = 0"
  proof (cases "pm_dropping m")
    case True
    then obtain k n where "?s + Suc k = s" "N = pm_units m * 10 ^ Suc k + n"
      "tail_means (pm_tail m) n (10 ^ Suc k)" "?s = kMaxScale \<or> kMaxUnits < N div 10 ^ k"
      using assms by (auto simp: holds_def)
    then show ?thesis by (intro that [of "Suc k" n]) simp_all
  next
    case False
    then show ?thesis using assms by (intro that [of 0 0]) (simp_all add: holds_def)
  qed
  have q: "\<bar>?q\<bar> * 10 ^ ?s = of_nat (wide_value ?v * 10 ^ k + n) / of_nat (10 ^ k)"
    unfolding v k(2) [symmetric] k(1) [symmetric] by (simp add: power_add)
  have neg: "?q \<noteq> 0 \<Longrightarrow> neg \<longleftrightarrow> ?q < 0" by (cases "N = 0") (auto simp: divide_less_0_iff)
  have e: "FinishMagnitude neg m = andThen (FitToUnits ?v ?s (pm_tail m)) (\<lambda>(u, s'). Inr (MakeDecimal u s' (neg \<and> u \<noteq> 0)))"
    by (simp add: FinishMagnitude_def)
  have r: "rounds_to ?q ?s (FinishMagnitude neg m)"
    unfolding e by (rule FitToUnits_rounds_to [OF FromU128_ok k(3) _ q neg]) simp
  have "kMaxScale \<le> ?s \<or> (\<exists>N. \<bar>?q\<bar> * 10 ^ ?s = of_nat N) \<or> kMaxUnits < nat \<lfloor>\<bar>?q\<bar> * 10 ^ Suc ?s\<rfloor>"
  proof (cases "k = 0")
    case True
    then have "\<bar>?q\<bar> * 10 ^ ?s = of_nat (pm_units m)" using q k(5) v by simp
    then show ?thesis by blast
  next
    case False
    have kk: "s = Suc ?s + (k - 1)" using False k(1) by simp
    have "\<bar>?q\<bar> * 10 ^ Suc ?s = of_nat N / of_nat (10 ^ (k - 1))" unfolding kk by (simp add: power_add)
    then have "nat \<lfloor>\<bar>?q\<bar> * 10 ^ Suc ?s\<rfloor> = N div 10 ^ (k - 1)" by (simp only: floor_divide_of_nat_eq nat_int)
    then show ?thesis using k(4) False by auto
  qed
  with r show "best_result ?q (FinishMagnitude neg m)" by (rule rounds_to_best_result)
  assume N: "N \<le> kMaxUnits" "s \<le> kMaxScale"
  have "k = 0"
  proof (rule ccontr)
    assume "k \<noteq> 0"
    then have "kMaxUnits < N div 10 ^ (k - 1)" using k(1,4) N(2) by simp
    then show False using N(1) le_trans [OF div_le_dividend N(1)] by (simp add: not_le [symmetric])
  qed
  then have k0: "pm_units m = N" "?s = s" "pm_tail m = NoTail" using k by simp_all
  have "\<not> Increments NoTail ?v" by (simp add: Increments_def NoTail_def)
  moreover have "FitsMantissa ?v" "ToU128 ?v = N"
    using m(1) v k0(1) by (simp_all add: FitsMantissa_iff ToU128_small)
  ultimately have "FitToUnits ?v ?s (pm_tail m) = Inr (N, s)"
    using N(2) unfolding k0 by (subst FitToUnits.simps) (simp add: Let_def)
  then show "FinishMagnitude neg m = Inr (MakeDecimal N s (neg \<and> N \<noteq> 0))" unfolding e by simp
qed

section \<open>Whole texts\<close>

text \<open>An optional sign, digits, and digits behind a point; white space may go before.\<close>

definition written :: "string \<Rightarrow> string \<Rightarrow> string \<Rightarrow> bool \<Rightarrow> string \<Rightarrow> string" where
  "written ws sign whole point places = ws @ sign @ whole @ (if point then CHR ''.'' # places else [])"

definition well_written :: "string \<Rightarrow> string \<Rightarrow> string \<Rightarrow> bool \<Rightarrow> string \<Rightarrow> bool" where
  "well_written ws sign whole point places \<longleftrightarrow>
     (\<forall>c \<in> set ws. is_space c) \<and> sign \<in> {[], ''+'', ''-''} \<and>
     (\<forall>c \<in> set (whole @ places). is_digit c) \<and> whole @ places \<noteq> [] \<and> (point \<or> places = [])"

definition written_value :: "string \<Rightarrow> string \<Rightarrow> string \<Rightarrow> rat" where
  "written_value sign whole places =
     (if sign = ''-'' then - 1 else 1) * (of_nat (digits_value (whole @ places)) / 10 ^ length places)"

lemma no_sign: "is_digit c \<or> c = CHR ''.'' \<Longrightarrow> c \<noteq> CHR ''+'' \<and> c \<noteq> CHR ''-'' \<and> \<not> is_space c"
  by (auto simp: is_digit_def is_space_def code_def)

lemma sign_no_space: "\<not> is_space CHR ''+''" "\<not> is_space CHR ''-''"
  by (simp_all add: is_space_def code_def)

lemma sign_taken:
  assumes "dropWhile is_space t = sign @ body" "sign = [] \<or> sign = ''+'' \<or> sign = ''-''" "body \<noteq> []"
    "hd body \<noteq> CHR ''+''" "hd body \<noteq> CHR ''-''"
  shows "FromInvariantString t = andThen (ParseLoop False False NoMagnitude body) (\<lambda>(seenDigit, m).
    if \<not> seenDigit then Inl (DecimalError ''Decimal: no digit'') else FinishMagnitude (sign = ''-'') m)"
proof -
  let ?signed = "sign @ body \<noteq> [] \<and> (hd (sign @ body) = CHR ''+'' \<or> hd (sign @ body) = CHR ''-'')"
  have "(?signed \<and> hd (sign @ body) = CHR ''-'') = (sign = ''-'')"
    "(if ?signed then tl (sign @ body) else sign @ body) = body"
    using assms(2-5) by (elim disjE; simp)+
  then show ?thesis by (simp only: FromInvariantString_def Let_def assms(1))
qed

lemma FromInvariantString_written:
  assumes "well_written ws sign whole point places"
  shows "FromInvariantString (written ws sign whole point places) =
    andThen (ParseLoop False False NoMagnitude (whole @ (if point then CHR ''.'' # places else []))) (\<lambda>(seenDigit, m).
      if \<not> seenDigit then Inl (DecimalError ''Decimal: no digit'') else FinishMagnitude (sign = ''-'') m)"
proof -
  let ?body = "whole @ (if point then CHR ''.'' # places else [])"
  have ne: "?body \<noteq> []" using assms by (auto simp: well_written_def)
  then have h: "is_digit (hd ?body) \<or> hd ?body = CHR ''.''"
    using assms by (cases whole) (auto simp: well_written_def split: if_splits)
  note hd = no_sign [OF h]
  have drop: "dropWhile is_space (written ws sign whole point places) = sign @ ?body"
  proof -
    have "dropWhile is_space (sign @ ?body) = sign @ ?body"
      using assms hd ne sign_no_space
      by (cases ?body) (auto simp: well_written_def)
    then show ?thesis using assms by (simp add: written_def dropWhile_append2 well_written_def)
  qed
  have sign: "sign = [] \<or> sign = ''+'' \<or> sign = ''-''" using assms by (auto simp: well_written_def)
  show ?thesis using sign_taken [OF drop sign ne] hd by blast
qed

lemma digits_value_prefix: "digits_value as \<le> digits_value (as @ bs) div 10 ^ length bs"
  by (simp add: digits_value_append less_eq_div_iff_mult_less_eq)

lemma large_value:
  assumes "kMaxUnits < digits_value as" "whole = as @ bs"
  shows "kMaxUnits < rounds_at (written_value sign whole places) 0"
proof -
  have v: "\<bar>written_value sign whole places\<bar> * 10 ^ 0 = of_nat (digits_value (whole @ places)) / of_nat (10 ^ length places)"
    by (simp add: written_value_def abs_mult)
  have "digits_value as \<le> digits_value whole div 10 ^ length bs" unfolding assms(2) by (rule digits_value_prefix)
  then have "digits_value as \<le> digits_value whole" using div_le_dividend le_trans by blast
  also have "\<dots> \<le> digits_value (whole @ places) div 10 ^ length places" by (rule digits_value_prefix)
  finally have "kMaxUnits < nat \<lfloor>\<bar>written_value sign whole places\<bar> * 10 ^ 0\<rfloor>"
    using assms(1) unfolding v by (simp only: floor_divide_of_nat_eq nat_int)
  then show ?thesis by (rule rounds_at_too_large) simp
qed

lemma parse_cases:
  assumes "well_written ws sign whole point places"
  obtains (read) m where "holds m (digits_value (whole @ places)) (length places)"
      "FromInvariantString (written ws sign whole point places) = FinishMagnitude (sign = ''-'') m"
  | (large) e where "FromInvariantString (written ws sign whole point places) = Inl e"
      "kMaxUnits < rounds_at (written_value sign whole places) 0"
proof -
  let ?tail = "if point then CHR ''.'' # places else []"
  have digits: "\<forall>c \<in> set whole. is_digit c" "\<forall>c \<in> set places. is_digit c" "whole @ places \<noteq> []" "point \<or> places = []"
    using assms by (auto simp: well_written_def)
  note F = FromInvariantString_written [OF assms]
  have none: "holds NoMagnitude (digits_value []) 0" by (simp add: holds_none)
  from ParseLoop_digits [OF digits(1) none, of False False ?tail]
  consider (ok) m where "holds m (digits_value whole) 0"
      "ParseLoop False False NoMagnitude (whole @ ?tail) = ParseLoop (whole \<noteq> []) False m ?tail"
    | (bad) e as bs where "ParseLoop False False NoMagnitude (whole @ ?tail) = Inl e" "whole = as @ bs"
        "kMaxUnits < digits_value as"
    by auto
  then show ?thesis
  proof cases
    case bad
    have "FromInvariantString (written ws sign whole point places) = Inl e" unfolding F bad(1) by simp
    then show ?thesis using large_value [OF bad(3,2)] by (rule large)
  next
    case ok
    show ?thesis
    proof (cases point)
      case False
      then have "places = []" "whole \<noteq> []" using digits by auto
      then have "FromInvariantString (written ws sign whole point places) = FinishMagnitude (sign = ''-'') m"
        using ok False unfolding F by simp
      then show ?thesis using ok(1) \<open>places = []\<close> by (intro read) simp_all
    next
      case True
      have dig: "holds m (digits_value whole) (0 :: nat)" "True \<or> (0 :: nat) = 0" using ok(1) by simp_all
      obtain m' where m': "holds m' (digits_value (whole @ places)) (length places)"
        "ParseLoop (whole \<noteq> []) True m (places @ []) = ParseLoop (whole \<noteq> [] \<or> places \<noteq> []) True m' []"
        using ParseLoop_digits [OF digits(2) dig, of "whole \<noteq> []" "[]"] by auto
      have "ParseLoop False False NoMagnitude (whole @ ?tail) = Inr (True, m')"
        using ok(2) m'(2) True digits(3) by auto
      then have "FromInvariantString (written ws sign whole point places) = FinishMagnitude (sign = ''-'') m'"
        unfolding F by simp
      then show ?thesis using m'(1) by (intro read)
    qed
  qed
qed

lemma FromInvariantString_best:
  assumes "well_written ws sign whole point places"
  shows "best_result (written_value sign whole places) (FromInvariantString (written ws sign whole point places))"
  using assms
proof (cases rule: parse_cases)
  case (read m)
  then show ?thesis using FinishMagnitude_best(1) [OF read(1), of "sign = ''-''"] by (simp add: written_value_def)
next
  case (large e)
  then show ?thesis by (simp add: best_result_def)
qed

lemma FromInvariantString_exact:
  assumes "well_written ws sign whole point places" "digits_value (whole @ places) \<le> kMaxUnits"
    "length places \<le> kMaxScale"
  shows "FromInvariantString (written ws sign whole point places) =
    Inr (MakeDecimal (digits_value (whole @ places)) (length places) (sign = ''-'' \<and> digits_value (whole @ places) \<noteq> 0))"
  using assms(1)
proof (cases rule: parse_cases)
  case (read m)
  then show ?thesis using FinishMagnitude_best(2) [OF read(1) assms(2,3)] by simp
next
  case (large e)
  have "\<bar>written_value sign whole places\<bar> \<le> of_nat (digits_value (whole @ places))"
    using power_increasing [of 0 "length places" "10 :: rat"]
    by (simp add: written_value_def abs_mult field_simps mult_le_cancel_left1)
  then have "rounds_at (written_value sign whole places) 0 \<le> digits_value (whole @ places)"
    unfolding rounds_at_def by (intro round_half_even_le) simp_all
  then show ?thesis using large(2) assms(2) by simp
qed

section \<open>Printing\<close>

lemma U128ToString_digits: "U128ToString v = digits_of v"
proof -
  have "0 < v \<Longrightarrow> rev (U128Digits v) = digits_of v"
  proof (induction v rule: digits_of.induct)
    case (1 v)
    show ?case
    proof (cases "v < 10")
      case True
      then show ?thesis using 1(2) by (simp add: U128Digits.simps [of v] U128Digits.simps [of 0] digits_of.simps [of v])
    next
      case False
      then show ?thesis using 1 by (simp add: U128Digits.simps [of v] digits_of.simps [of v])
    qed
  qed
  moreover have "digit_char 0 = CHR ''0''"
    using digit_char_value [of "CHR ''0''"] by (simp add: is_digit_def digit_value_def code_def)
  then have "digits_of 0 = ''0''" by (simp add: digits_of.simps [of 0])
  ultimately show ?thesis by (simp add: U128ToString_def)
qed

lemma ToInvariantString_written:
  assumes "decimal_ok d"
  shows "\<exists>whole places. ToInvariantString d =
      written [] (if dm_negative d then ''-'' else []) whole (dm_scale d \<noteq> 0) places \<and>
    well_written [] (if dm_negative d then ''-'' else []) whole (dm_scale d \<noteq> 0) places \<and>
    digits_value (whole @ places) = dm_units d \<and> length places = dm_scale d"
proof -
  let ?ds = "digits_of (dm_units d)" and ?s = "dm_scale d"
  obtain pad where pad: "pad = (if ?s \<noteq> 0 \<and> length ?ds \<le> ?s
      then replicate (?s + 1 - length ?ds) (CHR ''0'') @ ?ds else ?ds)" by blast
  let ?w = "take (length pad - ?s) pad" and ?f = "drop (length pad - ?s) pad"
  have digits: "\<forall>c \<in> set (?w @ ?f). is_digit c"
    using digits_of_digits [of "dm_units d"] by (auto simp: pad is_digit_def code_def split: if_splits)
  have val: "digits_value (?w @ ?f) = dm_units d" by (simp add: pad digits_value_zeros)
  have "?s \<noteq> 0 \<longrightarrow> ?s < length pad" by (simp add: pad)
  then have len: "length ?f = ?s" by (cases "?s = 0") simp_all
  have ne: "?w @ ?f \<noteq> []" by (simp add: pad)
  have point: "?s \<noteq> 0 \<or> ?f = []" by (cases "?s = 0") simp_all
  have "ToInvariantString d = written [] (if dm_negative d then ''-'' else []) ?w (?s \<noteq> 0) ?f"
    unfolding ToInvariantString_def U128ToString_digits IsNegative_iff [OF assms] written_def Let_def pad [symmetric]
    by simp
  moreover have "well_written [] (if dm_negative d then ''-'' else []) ?w (?s \<noteq> 0) ?f"
    unfolding well_written_def using digits ne point by (intro conjI) (simp_all del: append_take_drop_id)
  ultimately show ?thesis using val len by blast
qed

lemma invariant_string_roundtrip:
  assumes "decimal_ok d"
  shows "FromInvariantString (ToInvariantString d) = Inr d"
proof -
  obtain whole places where w: "ToInvariantString d =
      written [] (if dm_negative d then ''-'' else []) whole (dm_scale d \<noteq> 0) places"
    "well_written [] (if dm_negative d then ''-'' else []) whole (dm_scale d \<noteq> 0) places"
    "digits_value (whole @ places) = dm_units d" "length places = dm_scale d"
    using ToInvariantString_written [OF assms] by blast
  have "FromInvariantString (ToInvariantString d) =
    Inr (MakeDecimal (dm_units d) (dm_scale d) ((if dm_negative d then ''-'' else []) = ''-'' \<and> dm_units d \<noteq> 0))"
    unfolding w(1) using FromInvariantString_exact [OF w(2)] assms unfolding w(3,4) by (simp add: decimal_ok_def)
  then show ?thesis using assms by (auto simp: decimal_ok_def MakeDecimal_def)
qed

section \<open>Properties\<close>

text \<open>
  C33: A decimal written in the invariant notation is read back as the same decimal: mantissa, scale
  and sign.
\<close>

theorem decimal_roundtrip:
  assumes "decimal_ok d"
  shows "FromInvariantString (ToInvariantString d) = Inr d"
  by (rule invariant_string_roundtrip [OF assms])

lemma decimal_roundtrip_witness:
  "FromInvariantString (ToInvariantString (MakeDecimal 30 1 True)) = Inr (MakeDecimal 30 1 True)"
  by (rule decimal_roundtrip [OF sample_ok(2)])

text \<open>
  C34: Any number of digits before and behind the point is read as the best decimal for the number
  written, however many of the digits the mantissa cannot hold; only a whole part too large is refused.
\<close>

theorem decimal_parse_best:
  assumes "well_written ws sign whole point places"
  shows "best_result (written_value sign whole places) (FromInvariantString (written ws sign whole point places))"
  by (rule FromInvariantString_best [OF assms])

lemma decimal_parse_best_witness:
  "best_result (written_value ''-'' ''12'' ''50'') (FromInvariantString ('' -12.50''))"
  using decimal_parse_best [of "'' ''" "''-''" "''12''" True "''50''"]
  by (simp add: well_written_def written_def is_space_def is_digit_def code_def)

end
