(* ===== verification/Date.thy ===== *)
theory Date
  imports Prelude "HOL-Library.Signed_Division" "HOL-Library.Word"
begin

text \<open>
  AL's Date, \<^verbatim>\<open>src/include/type/Date.h\<close>: the civil calendar of its namespace \<open>calendar\<close>, the serial
  that orders the undefined date, every day and its closing date, the ISO week, and day arithmetic.
  The code's \<open>int\<close> values stay far inside 32 bits for every date of its range; they are integers here,
  with C++'s truncating \<open>/\<close> and \<open>%\<close> written \<open>sdiv\<close> and \<open>smod\<close>. Months and days are \<open>unsigned\<close>.
\<close>

unbundle bit_operations_syntax

section \<open>The civil calendar\<close>

definition kDaysPerEra :: int where
  "kDaysPerEra = 146097"

definition kYearsPerEra :: int where
  "kYearsPerEra = 400"

definition kEraToEpoch :: int where
  "kEraToEpoch = 719468"

definition DaysFromCivil :: "int \<Rightarrow> nat \<Rightarrow> nat \<Rightarrow> int" where
  "DaysFromCivil y m d =
     (let y = y - (if m \<le> 2 then 1 else 0);
          era = (if 0 \<le> y then y else y - (kYearsPerEra - 1)) sdiv kYearsPerEra;
          yoe = nat (y - era * kYearsPerEra);
          doy = (153 * (if 2 < m then m - 3 else m + 9) + 2) div 5 + d - 1;
          doe = yoe * 365 + yoe div 4 - yoe div 100 + doy
      in era * kDaysPerEra + int doe - kEraToEpoch)"

record civil =
  cv_year :: int
  cv_month :: nat
  cv_day :: nat

definition CivilFromDays :: "int \<Rightarrow> civil" where
  "CivilFromDays days =
     (let z = days + kEraToEpoch;
          era = (if 0 \<le> z then z else z - (kDaysPerEra - 1)) sdiv kDaysPerEra;
          doe = nat (z - era * kDaysPerEra);
          yoe = (doe - doe div 1460 + doe div 36524 - doe div 146096) div 365;
          y = int yoe + era * kYearsPerEra;
          doy = doe - (365 * yoe + yoe div 4 - yoe div 100);
          mp = (5 * doy + 2) div 153;
          d = doy - (153 * mp + 2) div 5 + 1;
          m = (if mp < 10 then mp + 3 else mp - 9)
      in \<lparr>cv_year = y + (if m \<le> 2 then 1 else 0), cv_month = m, cv_day = d\<rparr>)"

definition IsLeapYear :: "int \<Rightarrow> bool" where
  "IsLeapYear y \<longleftrightarrow> y smod 4 = 0 \<and> y smod 100 \<noteq> 0 \<or> y smod kYearsPerEra = 0"

text \<open>\<open>kLengths.at(m)\<close> raises for a month above twelve: no value.\<close>

definition LastDayOfMonth :: "int \<Rightarrow> nat \<Rightarrow> nat option" where
  "LastDayOfMonth y m =
     (let kLengths = [0, 31, 28, 31, 30, 31, 30, 31, 31, 30, 31, 30, 31] in
      if m = 2 \<and> IsLeapYear y then Some 29
      else if m < length kLengths then Some (kLengths ! m) else None)"

definition IsRealDate :: "int \<Rightarrow> nat \<Rightarrow> nat \<Rightarrow> bool" where
  "IsRealDate y m d \<longleftrightarrow> 1 \<le> m \<and> m \<le> 12 \<and> 1 \<le> d \<and> d \<le> the (LastDayOfMonth y m)"

section \<open>The serial\<close>

datatype date = Date (serial: int)

definition kFirstYear :: int where
  "kFirstYear = 1753"

definition kLastYear :: int where
  "kLastYear = 9999"

definition kEpoch :: int where
  "kEpoch = DaysFromCivil kFirstYear 1 1"

definition kLastDayIndex :: int where
  "kLastDayIndex = DaysFromCivil kLastYear 12 31 - kEpoch"

definition Undefined :: date where
  "Undefined = Date 0"

definition IsUndefined :: "date \<Rightarrow> bool" where
  "IsUndefined d \<longleftrightarrow> serial d = 0"

definition FromYmd :: "int \<Rightarrow> nat \<Rightarrow> nat \<Rightarrow> date" where
  "FromYmd year month day =
     (if \<not> IsRealDate year month day \<or> year < kFirstYear \<or> kLastYear < year then Undefined
      else Date ((DaysFromCivil year month day - kEpoch + 1) * 2))"

definition Closing :: "date \<Rightarrow> date" where
  "Closing d = (if IsUndefined d then d else Date (serial d OR 1))"

definition Normal :: "date \<Rightarrow> date" where
  "Normal d = (if IsUndefined d then d else Date (serial d AND NOT 1))"

definition FromDaysSinceFirst :: "int \<Rightarrow> date" where
  "FromDaysSinceFirst days = (if days < 0 \<or> kLastDayIndex < days then Undefined else Date ((days + 1) * 2))"

definition DaysSinceFirst :: "date \<Rightarrow> int" where
  "DaysSinceFirst d = (if IsUndefined d then - 1 else serial d sdiv 2 - 1)"

definition IsClosing :: "date \<Rightarrow> bool" where
  "IsClosing d \<longleftrightarrow> \<not> IsUndefined d \<and> serial d AND 1 \<noteq> 0"

definition Days :: "date \<Rightarrow> int" where
  "Days d = kEpoch + serial d sdiv 2 - 1"

definition CivilOf :: "date \<Rightarrow> civil" where
  "CivilOf d = CivilFromDays (Days d)"

definition YearOf :: "date \<Rightarrow> int" where
  "YearOf d = (if IsUndefined d then 0 else cv_year (CivilOf d))"

definition MonthOf :: "date \<Rightarrow> int" where
  "MonthOf d = (if IsUndefined d then 0 else int (cv_month (CivilOf d)))"

definition DayOf :: "date \<Rightarrow> int" where
  "DayOf d = (if IsUndefined d then 0 else int (cv_day (CivilOf d)))"

section \<open>Weeks\<close>

definition DayOfWeek :: "date \<Rightarrow> int" where
  "DayOfWeek d = (if IsUndefined d then 0 else (Days d smod 7 + 7 + 3) smod 7 + 1)"

definition ThursdayOfWeek :: "date \<Rightarrow> int" where
  "ThursdayOfWeek d = Days d + (4 - DayOfWeek d)"

definition WeekYear :: "date \<Rightarrow> int" where
  "WeekYear d = (if IsUndefined d then 0 else cv_year (CivilFromDays (ThursdayOfWeek d)))"

definition WeekNo :: "date \<Rightarrow> int" where
  "WeekNo d =
     (if IsUndefined d then 0
      else (ThursdayOfWeek d - DaysFromCivil (WeekYear d) 1 1) sdiv 7 + 1)"

section \<open>Text and arithmetic\<close>

text \<open>A number padded with zeros on the left, \<open>{:04}\<close> and \<open>{:02}\<close>.\<close>

definition Padded :: "nat \<Rightarrow> nat \<Rightarrow> string" where
  "Padded width n = (let s = digits_of n in replicate (width - length s) (CHR ''0'') @ s)"

definition DateToInvariantString :: "date \<Rightarrow> string" where
  "DateToInvariantString d =
     (if IsUndefined d then []
      else Padded 4 (nat (YearOf d)) @ ''-'' @ Padded 2 (nat (MonthOf d)) @ ''-'' @ Padded 2 (nat (DayOf d)))"

definition DateDifference :: "date \<Rightarrow> date \<Rightarrow> int" where
  "DateDifference left right = DaysSinceFirst (Normal left) - DaysSinceFirst (Normal right)"

definition DatePlus :: "date \<Rightarrow> int \<Rightarrow> date" where
  "DatePlus left days = FromDaysSinceFirst (DaysSinceFirst (Normal left) + days)"

definition DateMinus :: "date \<Rightarrow> int \<Rightarrow> date" where
  "DateMinus left days = FromDaysSinceFirst (DaysSinceFirst (Normal left) - days)"

text \<open>The ordering of the class, \<open>operator<=>\<close> on the serial.\<close>

instantiation date :: linorder
begin

definition less_eq_date :: "date \<Rightarrow> date \<Rightarrow> bool" where
  "a \<le> b \<longleftrightarrow> serial a \<le> serial b"

definition less_date :: "date \<Rightarrow> date \<Rightarrow> bool" where
  "a < b \<longleftrightarrow> serial a < serial b"

instance
  by standard (auto simp: less_eq_date_def less_date_def intro: date.expand)

end

section \<open>The calendar is right\<close>

lemma sdiv_floor:
  assumes "0 < k"
  shows "(if 0 \<le> y then y else y - (k - 1)) sdiv k = y div (k :: int)"
proof (cases "0 \<le> y")
  case True
  then show ?thesis using assms by (simp add: signed_divide_int_def sgn_if)
next
  case False
  have y: "y = k * (y div k) + y mod k" "0 \<le> y mod k" "y mod k < k" using assms by simp_all
  have "(k - 1 - y) div k = - (y div k)"
    by (rule int_div_pos_eq [where r = "k - 1 - y mod k"]) (use y in \<open>simp_all add: algebra_simps\<close>)
  then show ?thesis using assms False by (simp add: signed_divide_int_def sgn_if)
qed

lemma sdiv_pos: "0 \<le> y \<Longrightarrow> 0 < k \<Longrightarrow> y sdiv k = y div (k :: int)"
  by (simp add: signed_divide_int_def sgn_if)

lemma smod_dvd: "y smod k = 0 \<longleftrightarrow> (k :: int) dvd y"
  by (auto simp: signed_modulo_int_def sgn_0_0 mod_eq_0_iff_dvd)

lemma IsLeapYear_iff: "IsLeapYear y \<longleftrightarrow> 4 dvd y \<and> \<not> 100 dvd y \<or> 400 dvd y"
  by (simp add: IsLeapYear_def smod_dvd kYearsPerEra_def)

text \<open>Years of an era count from March; \<open>year_days\<close> is the days before one.\<close>

definition year_days :: "nat \<Rightarrow> nat" where
  "year_days y = y * 365 + y div 4 - y div 100"

definition month_start :: "nat \<Rightarrow> nat" where
  "month_start m = (153 * (if 2 < m then m - 3 else m + 9) + 2) div 5"

lemma DaysFromCivil_eq:
  "DaysFromCivil y m d =
     (let y = y - (if m \<le> 2 then 1 else 0) in
      y div 400 * 146097 + int (year_days (nat (y mod 400)) + (month_start m + d - 1)) - 719468)"
proof -
  have "y - y div 400 * 400 = y mod 400" for y :: int by (simp add: minus_div_mult_eq_mod)
  then show ?thesis
    unfolding DaysFromCivil_def kYearsPerEra_def kDaysPerEra_def kEraToEpoch_def Let_def
      sdiv_floor [OF zero_less_numeral] year_days_def month_start_def by simp
qed

definition leap_after :: "nat \<Rightarrow> bool" where
  "leap_after y \<longleftrightarrow> 4 dvd y + 1 \<and> \<not> 100 dvd y + 1 \<or> 400 dvd y + 1"

lemma year_split:
  assumes "y < 400"
  obtains c q r where "y = 100 * c + 4 * q + r" "c \<le> 3" "q \<le> 24" "r \<le> 3"
    "year_days y = 36524 * c + 1461 * q + 365 * r" "leap_after y \<Longrightarrow> r = 3 \<and> (q = 24 \<longrightarrow> c = 3)"
proof -
  let ?c = "y div 100" and ?q = "y mod 100 div 4" and ?r = "y mod 4"
  have y: "y = 100 * ?c + y mod 100" by simp
  have m: "y mod 100 = 4 * ?q + y mod 100 mod 4" by simp
  have r: "y mod 100 mod 4 = ?r" by (rule mod_mod_cancel) simp
  obtain c q r where abs: "c = ?c" "q = ?q" "r = ?r" by blast
  have parts: "y = 100 * c + 4 * q + r" using y m r unfolding abs by linarith
  have b: "c \<le> 3" "q \<le> 24" "r \<le> 3"
    using assms unfolding abs by (simp_all add: less_Suc_eq_le [symmetric] div_less_iff_less_mult)
  have d4: "y div 4 = 25 * c + q"
    by (rule div_nat_eqI) (use parts b in simp_all)
  have days: "year_days y = 36524 * c + 1461 * q + 365 * r"
    unfolding year_days_def d4 abs(1) [symmetric] using parts by linarith
  have "r = 3 \<and> (q = 24 \<longrightarrow> c = 3)" if leap: "leap_after y"
  proof
    have "(4 :: nat) dvd 400" by simp
    with leap have "4 dvd y + 1" unfolding leap_after_def by (blast intro: dvd_trans)
    then have "(y + 1) mod 4 = 0" by simp
    then show r3: "r = 3" unfolding abs by presburger
    show "q = 24 \<longrightarrow> c = 3"
    proof
      assume "q = 24"
      then have e: "y + 1 = 100 * (c + 1)" using parts r3 by simp
      then have "400 dvd y + 1" using leap unfolding leap_after_def by (metis dvd_triv_left)
      then have "400 \<le> y + 1" by (intro dvd_imp_le) simp_all
      then show "c = 3" using e b(1) by presburger
    qed
  qed
  with parts b days show ?thesis by (rule that)
qed

lemma year_of_era:
  assumes "y < 400" "t \<le> 365" "t = 365 \<Longrightarrow> leap_after y" "n = year_days y + t"
  shows "(n - n div 1460 + n div 36524 - n div 146096) div 365 = y" "n < 146097"
proof -
  obtain c q r where y: "y = 100 * c + 4 * q + r" and b: "c \<le> 3" "q \<le> 24" "r \<le> 3"
    and days: "year_days y = 36524 * c + 1461 * q + 365 * r"
    and leap: "leap_after y \<Longrightarrow> r = 3 \<and> (q = 24 \<longrightarrow> c = 3)"
    by (rule year_split [OF assms(1)]) blast
  have n: "n = 36524 * c + 1461 * q + 365 * r + t" using assms(4) days by simp
  obtain w where w: "w = 24 * c + q + 365 * r + t" by blast
  obtain s :: nat where s: "s = (if 1460 \<le> w then 1 else 0)" by blast
  have wb: "w < 2920" using b assms(2) unfolding w by linarith
  have d1: "n div 1460 = 25 * c + q + s"
    by (rule div_nat_eqI) (use n w wb in \<open>auto simp: s split: if_splits\<close>)
  obtain v where v: "v = 1461 * q + 365 * r + t" by blast
  have vb: "v \<le> 36524" using b assms(2) unfolding v by linarith
  have last: "v = 36524 \<Longrightarrow> c = 3"
  proof -
    assume "v = 36524"
    then have "q = 24" "r = 3" "t = 365" using b assms(2) unfolding v by linarith+
    then show "c = 3" using leap assms(3) by blast
  qed
  obtain e :: nat where e: "e = (if v = 36524 then 1 else 0)" by blast
  have nv: "n = 36524 * c + v" using n v by simp
  have d2: "n div 36524 = c + e"
    by (rule div_nat_eqI) (use nv vb in \<open>auto simp: e split: if_splits\<close>)
  have d3: "n div 146096 = e"
    by (rule div_nat_eqI) (use nv vb last b(1) in \<open>auto simp: e split: if_splits\<close>)
  have "t = 365 \<Longrightarrow> s = 1" using leap assms(3) unfolding s w by auto
  then have ts: "t < 365 + s" using assms(2) by (cases "t = 365") auto
  have st: "s \<le> t" using b unfolding s w by (auto split: if_splits)
  have num: "n - (25 * c + q + s) + (c + e) - e = 365 * y + (t - s)"
    using n y st by linarith
  show "(n - n div 1460 + n div 36524 - n div 146096) div 365 = y"
    unfolding d1 d2 d3 num using ts st by simp
  show "n < 146097" using nv vb b(1) last by (cases "c = 3") simp_all
qed

lemma month_of_year:
  assumes "1 \<le> m" "m \<le> 12" "1 \<le> d" "d \<le> 31" "m \<in> {4, 6, 9, 11} \<longrightarrow> d \<le> 30" "m = 2 \<longrightarrow> d \<le> 29"
    "t = month_start m + d - 1"
  shows "(5 * t + 2) div 153 = (if 2 < m then m - 3 else m + 9)"
    "t - (153 * (if 2 < m then m - 3 else m + 9) + 2) div 5 + 1 = d" "t \<le> 365" "t = 365 \<Longrightarrow> m = 2 \<and> d = 29"
    "m \<le> 2 \<longleftrightarrow> 306 \<le> t"
proof -
  have "m = 1 \<or> m = 2 \<or> m = 3 \<or> m = 4 \<or> m = 5 \<or> m = 6 \<or> m = 7 \<or> m = 8 \<or> m = 9 \<or> m = 10 \<or> m = 11 \<or> m = 12"
    using assms(1,2) by presburger
  then have "(5 * t + 2) div 153 = (if 2 < m then m - 3 else m + 9) \<and>
    t - (153 * (if 2 < m then m - 3 else m + 9) + 2) div 5 + 1 = d \<and> t \<le> 365 \<and> (t = 365 \<longrightarrow> m = 2 \<and> d = 29) \<and>
    (m \<le> 2 \<longleftrightarrow> 306 \<le> t)"
    using assms(3-7) by (elim disjE) (auto simp: month_start_def intro!: div_nat_eqI)
  then show "(5 * t + 2) div 153 = (if 2 < m then m - 3 else m + 9)"
    "t - (153 * (if 2 < m then m - 3 else m + 9) + 2) div 5 + 1 = d" "t \<le> 365" "t = 365 \<Longrightarrow> m = 2 \<and> d = 29"
    "m \<le> 2 \<longleftrightarrow> 306 \<le> t"
    by blast+
qed

text \<open>The days before the first of March of a year, over the integers.\<close>

definition march_days :: "int \<Rightarrow> int" where
  "march_days y = 365 * y + y div 4 - y div 100 + y div 400"

lemma march_days_era: "y div 400 * 146097 + int (year_days (nat (y mod 400))) = march_days y"
proof -
  obtain e r where er: "e = y div 400" "r = nat (y mod 400)" by blast
  have r: "r < 400" "y mod 400 = int r" unfolding er by simp_all
  have y: "y = 400 * e + int r" unfolding er by simp
  have d: "y div 4 = 100 * e + int r div 4" "y div 100 = 4 * e + int r div 100"
    unfolding y by (subst add.commute, simp add: div_mult_self2 [of _ _, symmetric])+
  have "r div 100 \<le> r * 365 + r div 4" by (simp add: trans_le_add1 le_trans [OF div_le_dividend])
  then have "int (year_days r) = 365 * int r + int r div 4 - int r div 100"
    by (simp add: year_days_def of_nat_diff zdiv_int)
  then show ?thesis
    unfolding march_days_def d er(2) [symmetric] er(1) [symmetric] using y by (simp add: algebra_simps)
qed

lemma DaysFromCivil_march:
  "DaysFromCivil y m d = march_days (y - (if m \<le> 2 then 1 else 0)) + int (month_start m + d - 1) - 719468"
  unfolding DaysFromCivil_eq Let_def using march_days_era [of "y - (if m \<le> 2 then 1 else 0)"] by simp

lemma div_Suc_int:
  fixes y k :: int
  assumes "0 < k"
  shows "(y + 1) div k = y div k + (if k dvd y + 1 then 1 else 0)"
proof -
  let ?q = "(y + 1) div k" and ?r = "(y + 1) mod k"
  have e: "y + 1 = k * ?q + ?r" and r: "0 \<le> ?r" "?r < k" using assms by simp_all
  show ?thesis
  proof (cases "k dvd y + 1")
    case True
    then have "?r = 0" by simp
    then have "y = k * (?q - 1) + (k - 1)" using e by (simp add: algebra_simps)
    then have "y div k = ?q - 1" by (rule int_div_pos_eq) (use assms in simp_all)
    then show ?thesis using True by simp
  next
    case False
    then have "?r \<noteq> 0" by (simp add: dvd_eq_mod_eq_0)
    then have "y = k * ?q + (?r - 1)" "0 \<le> ?r - 1" "?r - 1 < k" using e r by linarith+
    then have "y div k = ?q" by (rule int_div_pos_eq)
    then show ?thesis using False by simp
  qed
qed

lemma march_days_Suc: "march_days y = march_days (y - 1) + (if IsLeapYear y then 366 else 365)"
proof -
  have d: "y div k = (y - 1) div k + (if k dvd y then 1 else 0)" if "0 < k" for k
    using div_Suc_int [OF that, of "y - 1"] by simp
  have "400 dvd y \<Longrightarrow> 100 dvd y" "100 dvd y \<Longrightarrow> 4 dvd y" by (auto elim!: dvd_trans [rotated])
  then show ?thesis
    unfolding march_days_def IsLeapYear_iff d [of 4, simplified] d [of 100, simplified] d [of 400, simplified]
    by (auto simp: algebra_simps)
qed

section \<open>Real dates\<close>

lemma LastDayOfMonth_value:
  "1 \<le> m \<Longrightarrow> m \<le> 12 \<Longrightarrow> LastDayOfMonth y m = Some (if m = 2 then if IsLeapYear y then 29 else 28
     else if m \<in> {4, 6, 9, 11} then 30 else 31)"
proof -
  assume "1 \<le> m" "m \<le> 12"
  then have "m = 1 \<or> m = 2 \<or> m = 3 \<or> m = 4 \<or> m = 5 \<or> m = 6 \<or> m = 7 \<or> m = 8 \<or> m = 9 \<or> m = 10 \<or> m = 11 \<or> m = 12"
    by presburger
  then show ?thesis by (elim disjE) (simp_all add: LastDayOfMonth_def)
qed

lemma IsRealDate_iff:
  "IsRealDate y m d \<longleftrightarrow> 1 \<le> m \<and> m \<le> 12 \<and> 1 \<le> d \<and>
     d \<le> (if m = 2 then if IsLeapYear y then 29 else 28 else if m \<in> {4, 6, 9, 11} then 30 else 31)"
  unfolding IsRealDate_def using LastDayOfMonth_value [of m y] by auto

lemma leap_after_iff: "leap_after (nat (y mod 400)) \<longleftrightarrow> IsLeapYear (y + 1)"
proof -
  obtain n where n: "n = nat (y mod 400)" by blast
  then have "int n = y mod 400" by simp
  then have N: "int (n + 1) = (y + 1) - 400 * (y div 400)"
    using minus_mult_div_eq_mod [of y 400] by linarith
  have "int k dvd int (n + 1) \<longleftrightarrow> int k dvd y + 1" if "int k dvd 400" for k :: nat
    unfolding N using dvd_add_left_iff [of "int k" "- (400 * (y div 400))" "y + 1"] dvd_mult2 [OF that] by simp
  from this [of 4] this [of 100] this [of 400] show ?thesis
    unfolding leap_after_def IsLeapYear_iff n [symmetric] int_dvd_int_iff by simp
qed

text \<open>Months counted from March and the day within the year.\<close>

lemma CivilFromDays_march:
  assumes "1 \<le> m" "m \<le> 12" "1 \<le> d" "d \<le> 31" "m \<in> {4, 6, 9, 11} \<longrightarrow> d \<le> 30"
    "m = 2 \<longrightarrow> d \<le> (if IsLeapYear (y + 1) then 29 else 28)"
  shows "CivilFromDays (march_days y + int (month_start m + d - 1) - 719468) =
    \<lparr>cv_year = y + (if m \<le> 2 then 1 else 0), cv_month = m, cv_day = d\<rparr>"
proof -
  obtain t where t: "t = month_start m + d - 1" by blast
  have "m = 2 \<longrightarrow> d \<le> 29" using assms(6) by (auto split: if_splits)
  note M = month_of_year [OF assms(1-5) this t]
  let ?y = "nat (y mod 400)" and ?e = "y div 400"
  obtain n where n: "n = year_days ?y + t" by blast
  have "leap_after ?y" if "t = 365" using M(4) [OF that] assms(6) unfolding leap_after_iff by (auto split: if_splits)
  from year_of_era [OF _ M(3) this n]
  have Y: "(n - n div 1460 + n div 36524 - n div 146096) div 365 = ?y" "n < 146097" by simp_all
  have z: "march_days y + int t = ?e * 146097 + int n" unfolding march_days_era [symmetric] n by simp
  then have zd: "(march_days y + int t) div 146097 = ?e" using Y(2) by simp
  have zm: "nat (march_days y + int t - ?e * 146097) = n" using z by simp
  have doy: "n - (365 * ?y + ?y div 4 - ?y div 100) = t"
    unfolding n year_days_def by (simp only: mult.commute [of 365] diff_add_inverse)
  have y: "int ?y + ?e * 400 = y" by simp
  have mp: "(if 2 < m then m - 3 else m + 9) < 10 \<longleftrightarrow> 2 < m"
    "(if (if 2 < m then m - 3 else m + 9) < 10 then (if 2 < m then m - 3 else m + 9) + 3
      else (if 2 < m then m - 3 else m + 9) - 9) = m"
    using assms(1,2) by auto
  show ?thesis
    unfolding CivilFromDays_def t [symmetric] kEraToEpoch_def kDaysPerEra_def kYearsPerEra_def Let_def
    by (simp only: diff_add_cancel sdiv_floor [OF zero_less_numeral] zd zm Y(1) doy M(1,2) y mp(2))
qed

lemma CivilFromDays_DaysFromCivil:
  assumes "IsRealDate y m d"
  shows "CivilFromDays (DaysFromCivil y m d) = \<lparr>cv_year = y, cv_month = m, cv_day = d\<rparr>"
proof -
  let ?y = "y - (if m \<le> 2 then 1 else 0)"
  have "CivilFromDays (DaysFromCivil y m d) =
      \<lparr>cv_year = ?y + (if m \<le> 2 then 1 else 0), cv_month = m, cv_day = d\<rparr>"
    unfolding DaysFromCivil_march
    by (rule CivilFromDays_march) (use assms in \<open>auto simp: IsRealDate_iff split: if_splits\<close>)
  then show ?thesis by simp
qed

text \<open>Every day count is some real date's.\<close>

lemma year_days_Suc: "year_days (Suc y) = year_days y + 365 + (if 4 dvd Suc y then 1 else 0) - (if 100 dvd Suc y then 1 else 0)"
proof -
  have d: "Suc y div k = (if k dvd Suc y then Suc (y div k) else y div k)" for k :: nat
    by (simp add: div_Suc mod_eq_0_iff_dvd)
  have le: "y div 100 \<le> y div 4" by (rule div_le_mono2) simp_all
  show ?thesis unfolding year_days_def d using le by auto
qed

lemma year_exists:
  assumes "n < 146097"
  shows "\<exists>y t. y < 400 \<and> n = year_days y + t \<and> t \<le> 365 \<and> (t = 365 \<longrightarrow> leap_after y)"
proof -
  have "\<exists>y < 400. year_days y \<le> n \<and> (y = 399 \<or> n < year_days (Suc y))"
  proof (rule ccontr)
    assume none: "\<not> ?thesis"
    have "y < 400 \<Longrightarrow> year_days y \<le> n" for y
    proof (induction y)
      case (Suc y)
      then have "year_days y \<le> n" "y < 400" "y \<noteq> 399" by simp_all
      then show ?case using none by (meson not_le)
    qed (simp add: year_days_def)
    from this [of 399] show False using none by auto
  qed
  then obtain y where y: "y < 400" "year_days y \<le> n" "y = 399 \<or> n < year_days (Suc y)" by blast
  have leap: "leap_after y" if "year_days (Suc y) = year_days y + 366 \<or> y = 399"
  proof -
    have "100 dvd Suc y \<Longrightarrow> 4 dvd Suc y" by (auto elim!: dvd_trans [rotated])
    then show ?thesis using that unfolding year_days_Suc leap_after_def by (auto split: if_splits)
  qed
  have "n \<le> year_days y + 365 \<and> (n = year_days y + 365 \<longrightarrow> leap_after y)"
    using y(3)
  proof
    assume "y = 399"
    moreover have "year_days 399 = 145731" by (simp add: year_days_def)
    ultimately show ?thesis using assms leap by auto
  next
    assume "n < year_days (Suc y)"
    then show ?thesis using leap unfolding year_days_Suc by (auto split: if_splits)
  qed
  then show ?thesis using y by (intro exI [of _ y] exI [of _ "n - year_days y"]) auto
qed

lemma month_exists:
  assumes "t \<le> 365"
  shows "\<exists>m d. 1 \<le> m \<and> m \<le> 12 \<and> 1 \<le> d \<and> d \<le> 31 \<and> (m \<in> {4, 6, 9, 11} \<longrightarrow> d \<le> 30) \<and>
    (m = 2 \<longrightarrow> d \<le> (if t = 365 then 29 else 28)) \<and> t = month_start m + d - 1"
proof -
  have starts: "month_start 3 = 0" "month_start 4 = 31" "month_start 5 = 61" "month_start 6 = 92" "month_start 7 = 122"
    "month_start 8 = 153" "month_start 9 = 184" "month_start 10 = 214" "month_start 11 = 245" "month_start 12 = 275"
    "month_start 1 = 306" "month_start 2 = 337"
    by (simp_all add: month_start_def)
  have P: "?thesis" if "1 \<le> m" "m \<le> 12" "1 \<le> d" "d \<le> 31" "m \<in> {4, 6, 9, 11} \<longrightarrow> d \<le> 30"
    "m = 2 \<longrightarrow> d \<le> (if t = 365 then 29 else 28)" "t = month_start m + d - 1" for m d
    using that by blast
  have c3: ?thesis if "0 \<le> t" "t < 31"
    by (rule P [of 3 "t - 0 + 1"]) (use that in \<open>simp_all add: starts starts(11) [simplified]\<close>)
  have c4: ?thesis if "31 \<le> t" "t < 61"
    by (rule P [of 4 "t - 31 + 1"]) (use that in \<open>simp_all add: starts starts(11) [simplified]\<close>)
  have c5: ?thesis if "61 \<le> t" "t < 92"
    by (rule P [of 5 "t - 61 + 1"]) (use that in \<open>simp_all add: starts starts(11) [simplified]\<close>)
  have c6: ?thesis if "92 \<le> t" "t < 122"
    by (rule P [of 6 "t - 92 + 1"]) (use that in \<open>simp_all add: starts starts(11) [simplified]\<close>)
  have c7: ?thesis if "122 \<le> t" "t < 153"
    by (rule P [of 7 "t - 122 + 1"]) (use that in \<open>simp_all add: starts starts(11) [simplified]\<close>)
  have c8: ?thesis if "153 \<le> t" "t < 184"
    by (rule P [of 8 "t - 153 + 1"]) (use that in \<open>simp_all add: starts starts(11) [simplified]\<close>)
  have c9: ?thesis if "184 \<le> t" "t < 214"
    by (rule P [of 9 "t - 184 + 1"]) (use that in \<open>simp_all add: starts starts(11) [simplified]\<close>)
  have c10: ?thesis if "214 \<le> t" "t < 245"
    by (rule P [of 10 "t - 214 + 1"]) (use that in \<open>simp_all add: starts starts(11) [simplified]\<close>)
  have c11: ?thesis if "245 \<le> t" "t < 275"
    by (rule P [of 11 "t - 245 + 1"]) (use that in \<open>simp_all add: starts starts(11) [simplified]\<close>)
  have c12: ?thesis if "275 \<le> t" "t < 306"
    by (rule P [of 12 "t - 275 + 1"]) (use that in \<open>simp_all add: starts starts(11) [simplified]\<close>)
  have c1: ?thesis if "306 \<le> t" "t < 337"
    by (rule P [of 1 "t - 306 + 1"]) (use that in \<open>simp_all add: starts starts(11) [simplified]\<close>)
  have c2: ?thesis if "337 \<le> t" by (rule P [of 2 "t - 337 + 1"]) (use that assms in \<open>auto simp: starts\<close>)
  have e1: ?thesis if "306 \<le> t"
    by (cases "t < 337", rule c1 [OF that], assumption, rule c2, simp)
  have e12: ?thesis if "275 \<le> t"
    by (cases "t < 306", rule c12 [OF that], assumption, rule e1, simp)
  have e11: ?thesis if "245 \<le> t"
    by (cases "t < 275", rule c11 [OF that], assumption, rule e12, simp)
  have e10: ?thesis if "214 \<le> t"
    by (cases "t < 245", rule c10 [OF that], assumption, rule e11, simp)
  have e9: ?thesis if "184 \<le> t"
    by (cases "t < 214", rule c9 [OF that], assumption, rule e10, simp)
  have e8: ?thesis if "153 \<le> t"
    by (cases "t < 184", rule c8 [OF that], assumption, rule e9, simp)
  have e7: ?thesis if "122 \<le> t"
    by (cases "t < 153", rule c7 [OF that], assumption, rule e8, simp)
  have e6: ?thesis if "92 \<le> t"
    by (cases "t < 122", rule c6 [OF that], assumption, rule e7, simp)
  have e5: ?thesis if "61 \<le> t"
    by (cases "t < 92", rule c5 [OF that], assumption, rule e6, simp)
  have e4: ?thesis if "31 \<le> t"
    by (cases "t < 61", rule c4 [OF that], assumption, rule e5, simp)
  show ?thesis by (cases "t < 31", rule c3, simp, assumption, rule e4, simp)
qed

lemma real_date_exists: "\<exists>y m d. IsRealDate y m d \<and> DaysFromCivil y m d = days"
proof -
  obtain z where z: "z = days + 719468" by blast
  let ?e = "z div 146097" and ?n = "nat (z mod 146097)"
  have "z mod 146097 < 146097" "0 \<le> z mod 146097" by simp_all
  then have "?n < 146097" by linarith
  then obtain yoe t where y: "yoe < 400" "?n = year_days yoe + t" "t \<le> 365" "t = 365 \<longrightarrow> leap_after yoe"
    using year_exists by blast
  obtain m d where m: "1 \<le> m" "m \<le> 12" "1 \<le> d" "d \<le> 31" "m \<in> {4, 6, 9, 11} \<longrightarrow> d \<le> 30"
    "m = 2 \<longrightarrow> d \<le> (if t = 365 then 29 else 28)" "t = month_start m + d - 1"
    using month_exists [OF y(3)] by blast
  let ?y = "400 * ?e + int yoe"
  have yy: "?y div 400 = ?e" "nat (?y mod 400) = yoe" using y(1) by simp_all
  have "leap_after yoe \<longleftrightarrow> IsLeapYear (?y + 1)" using leap_after_iff [of ?y] unfolding yy(2) .
  then have "IsRealDate (?y + (if m \<le> 2 then 1 else 0)) m d"
    unfolding IsRealDate_iff using m y(4) by (auto split: if_splits)
  moreover have "DaysFromCivil (?y + (if m \<le> 2 then 1 else 0)) m d = days"
  proof -
    have "march_days ?y = ?e * 146097 + int (year_days yoe)" using march_days_era [of ?y] unfolding yy by simp
    moreover have "z = ?e * 146097 + int (year_days yoe + t)" using y(2) by (metis Euclidean_Rings.pos_mod_sign div_mult_mod_eq nat_0_le zero_less_numeral)
    ultimately show ?thesis
      unfolding DaysFromCivil_march add_diff_cancel_right' m(7) [symmetric] using z by simp
  qed
  ultimately show ?thesis by blast
qed

lemma DaysFromCivil_CivilFromDays:
  "IsRealDate (cv_year (CivilFromDays days)) (cv_month (CivilFromDays days)) (cv_day (CivilFromDays days))"
  "DaysFromCivil (cv_year (CivilFromDays days)) (cv_month (CivilFromDays days)) (cv_day (CivilFromDays days)) = days"
proof -
  obtain y m d where "IsRealDate y m d" "DaysFromCivil y m d = days" using real_date_exists by blast
  moreover from this have "CivilFromDays days = \<lparr>cv_year = y, cv_month = m, cv_day = d\<rparr>"
    using CivilFromDays_DaysFromCivil by blast
  ultimately show "IsRealDate (cv_year (CivilFromDays days)) (cv_month (CivilFromDays days)) (cv_day (CivilFromDays days))"
    "DaysFromCivil (cv_year (CivilFromDays days)) (cv_month (CivilFromDays days)) (cv_day (CivilFromDays days)) = days"
    by simp_all
qed

end
