(* ===== verification/DateFacts.thy ===== *)
theory DateFacts
  imports Date
begin

text \<open>
  What holds of the dates of \<^verbatim>\<open>src/include/type/Date.h\<close>: the day count and the civil calendar are
  inverse and count one by one, the serial orders each day before its closing date before the next
  day, the ISO week is the week of its Thursday, and day arithmetic is that of the day counts.
\<close>

section \<open>Counting days\<close>

definition next_day :: "civil \<Rightarrow> civil" where
  "next_day c =
     (if Some (cv_day c) \<noteq> LastDayOfMonth (cv_year c) (cv_month c) then c\<lparr>cv_day := cv_day c + 1\<rparr>
      else if cv_month c < 12 then c\<lparr>cv_month := cv_month c + 1, cv_day := 1\<rparr>
      else \<lparr>cv_year = cv_year c + 1, cv_month = 1, cv_day = 1\<rparr>)"

lemma month_starts:
  "month_start 3 = 0" "month_start 4 = 31" "month_start 5 = 61" "month_start 6 = 92" "month_start 7 = 122"
  "month_start 8 = 153" "month_start 9 = 184" "month_start 10 = 214" "month_start 11 = 245" "month_start 12 = 275"
  "month_start (Suc 0) = 306" "month_start 2 = 337" "month_start (Suc (Suc 0)) = 337"
  by (simp_all add: month_start_def)

lemma twelve_months:
  assumes "1 \<le> m" "m \<le> 12"
  shows "m = 1 \<or> m = 2 \<or> m = 3 \<or> m = 4 \<or> m = 5 \<or> m = 6 \<or> m = 7 \<or> m = 8 \<or> m = 9 \<or> m = 10 \<or> m = 11 \<or> m = (12 :: nat)"
  using assms by presburger

lemma next_month:
  assumes "1 \<le> m" "m < 12" "LastDayOfMonth y m = Some d"
  shows "DaysFromCivil y (m + 1) 1 = DaysFromCivil y m d + 1"
proof -
  have "1 \<le> m" "m \<le> 12" using assms by simp_all
  from twelve_months [OF this] show ?thesis
    using assms LastDayOfMonth_value [OF \<open>1 \<le> m\<close> \<open>m \<le> 12\<close>, of y] march_days_Suc [of y]
    by (elim disjE) (simp_all add: DaysFromCivil_march month_starts split: if_splits)
qed

lemma next_year: "DaysFromCivil (y + 1) 1 1 = DaysFromCivil y 12 31 + 1"
  by (simp add: DaysFromCivil_march month_starts)

lemma DaysFromCivil_next_day:
  assumes "IsRealDate (cv_year c) (cv_month c) (cv_day c)" "next_day c = n"
  shows "IsRealDate (cv_year n) (cv_month n) (cv_day n)"
    "DaysFromCivil (cv_year n) (cv_month n) (cv_day n) = DaysFromCivil (cv_year c) (cv_month c) (cv_day c) + 1"
proof -
  let ?y = "cv_year c" and ?m = "cv_month c" and ?d = "cv_day c"
  have m: "1 \<le> ?m" "?m \<le> 12" "1 \<le> ?d" using assms(1) by (simp_all add: IsRealDate_def)
  obtain l where l: "LastDayOfMonth ?y ?m = Some l" using LastDayOfMonth_value [OF m(1,2)] by blast
  have d: "?d \<le> l" using assms(1) l by (simp add: IsRealDate_def)
  have "IsRealDate (cv_year n) (cv_month n) (cv_day n) \<and>
    DaysFromCivil (cv_year n) (cv_month n) (cv_day n) = DaysFromCivil ?y ?m ?d + 1"
  proof (cases "?d = l")
    case False
    then have "n = c\<lparr>cv_day := ?d + 1\<rparr>" using assms(2) l by (simp add: next_day_def)
    then show ?thesis using m d False l by (simp add: IsRealDate_def DaysFromCivil_march)
  next
    case True
    show ?thesis
    proof (cases "?m < 12")
      case less: True
      then have n: "n = c\<lparr>cv_month := ?m + 1, cv_day := 1\<rparr>" using True assms(2) l by (simp add: next_day_def)
      have "1 \<le> ?m + 1" "?m + 1 \<le> 12" using less by simp_all
      from LastDayOfMonth_value [OF this] show ?thesis
        using next_month [OF m(1) less l] True less unfolding n by (simp add: IsRealDate_def)
    next
      case False
      then have m12: "?m = 12" using m(2) by simp
      then have l31: "l = 31" using l LastDayOfMonth_value [OF m(1,2)] by simp
      have n: "n = \<lparr>cv_year = ?y + 1, cv_month = 1, cv_day = 1\<rparr>"
        using False True assms(2) l by (simp add: next_day_def)
      show ?thesis unfolding n using next_year [of ?y] True l31 m12 by (simp add: IsRealDate_iff)
    qed
  qed
  then show "IsRealDate (cv_year n) (cv_month n) (cv_day n)"
    "DaysFromCivil (cv_year n) (cv_month n) (cv_day n) = DaysFromCivil ?y ?m ?d + 1" by blast+
qed

section \<open>The years in order\<close>

lemma march_days_less: "march_days y + 365 * int k \<le> march_days (y + int k)"
proof (induction k)
  case (Suc k)
  have "march_days (y + int (Suc k)) = march_days (y + int k) + (if IsLeapYear (y + int (Suc k)) then 366 else 365)"
    using march_days_Suc [of "y + int (Suc k)"] by simp
  then show ?case using Suc by (simp split: if_splits)
qed simp

definition new_year :: "int \<Rightarrow> int" where
  "new_year y = DaysFromCivil y 1 1"

lemma new_year_eq: "new_year y = march_days (y - 1) + 306 - 719468"
  by (simp add: new_year_def DaysFromCivil_march month_starts)

lemma new_year_Suc: "new_year y + 365 \<le> new_year (y + 1)" "new_year (y + 1) \<le> new_year y + 366"
  using march_days_Suc [of y] by (simp_all add: new_year_eq split: if_splits)

lemma new_year_mono: "y \<le> y' \<Longrightarrow> new_year y \<le> new_year y'"
  using march_days_less [of "y - 1" "nat (y' - y)"] by (simp add: new_year_eq)

lemma in_year:
  assumes "IsRealDate y m d"
  shows "new_year y \<le> DaysFromCivil y m d" "DaysFromCivil y m d < new_year (y + 1)"
proof -
  have m: "1 \<le> m" "m \<le> 12" using assms by (simp_all add: IsRealDate_def)
  have "new_year y \<le> DaysFromCivil y m d \<and> DaysFromCivil y m d < new_year (y + 1)"
    using twelve_months [OF m] assms march_days_Suc [of y]
    by (elim disjE) (simp_all add: new_year_eq DaysFromCivil_march month_starts IsRealDate_iff split: if_splits)
  then show "new_year y \<le> DaysFromCivil y m d" "DaysFromCivil y m d < new_year (y + 1)" by blast+
qed

lemma year_of_days:
  "new_year (cv_year (CivilFromDays days)) \<le> days" "days < new_year (cv_year (CivilFromDays days) + 1)"
  using in_year [OF DaysFromCivil_CivilFromDays(1) [of days]] unfolding DaysFromCivil_CivilFromDays(2) by blast+

lemma year_unique:
  assumes "new_year y \<le> days" "days < new_year (y + 1)"
  shows "cv_year (CivilFromDays days) = y"
proof (rule ccontr)
  let ?y = "cv_year (CivilFromDays days)"
  assume "?y \<noteq> y"
  then consider "?y + 1 \<le> y" | "y + 1 \<le> ?y" by linarith
  then show False
  proof cases
    case 1
    then show False using new_year_mono [OF 1] year_of_days(2) [of days] assms(1) by linarith
  next
    case 2
    then show False using new_year_mono [OF 2] year_of_days(1) [of days] assms(2) by linarith
  qed
qed

lemma kEpoch_value: "kEpoch = - 79257"
  by (simp add: kEpoch_def kFirstYear_def DaysFromCivil_march march_days_def month_starts)

lemma kLastDayIndex_value: "kLastDayIndex = 3012153"
  by (simp add: kLastDayIndex_def kLastYear_def kEpoch_value DaysFromCivil_march march_days_def month_starts)

lemma year_range:
  "new_year 1753 = kEpoch" "new_year 10000 = kEpoch + kLastDayIndex + 1"
  by (simp_all add: new_year_eq march_days_def kEpoch_value kLastDayIndex_value)

section \<open>Serials\<close>

definition date_ok :: "date \<Rightarrow> bool" where
  "date_ok d \<longleftrightarrow> serial d = 0 \<or> 2 \<le> serial d \<and> serial d \<le> 2 * kLastDayIndex + 3"

lemma or_one: "(s :: int) OR 1 = s + (if even s then 1 else 0)"
  by (simp add: or_one_eq)

lemma and_not_one: "(s :: int) AND NOT 1 = s - (if even s then 0 else 1)"
proof -
  have "(s AND NOT 1) + (s AND 1) = (s AND NOT 1) OR (s AND 1)"
    by (rule disjunctive_add) (auto simp: bit_simps)
  also have "\<dots> = s" by (rule bit_eqI) (auto simp: bit_simps)
  finally show ?thesis by (auto simp: and_one_eq mod_2_eq_odd)
qed

definition normal_date :: "int \<Rightarrow> date" where
  "normal_date i = Date ((i + 1) * 2)"

definition closing_date :: "int \<Rightarrow> date" where
  "closing_date i = Date ((i + 1) * 2 + 1)"

text \<open>A date that is defined is a day of the range, normal or closing.\<close>

lemma date_cases:
  assumes "date_ok d"
  obtains (none) "d = Undefined"
  | (normal) i where "0 \<le> i" "i \<le> kLastDayIndex" "d = normal_date i"
  | (closing) i where "0 \<le> i" "i \<le> kLastDayIndex" "d = closing_date i"
proof (cases "serial d = 0")
  case True
  then have "d = Undefined" by (cases d) (simp add: Undefined_def)
  then show ?thesis by (rule none)
next
  case False
  then have d: "2 \<le> serial d" "serial d \<le> 2 * kLastDayIndex + 3" using assms by (auto simp: date_ok_def)
  let ?i = "serial d div 2 - 1"
  have i: "0 \<le> ?i" "?i \<le> kLastDayIndex" using d by linarith+
  have e: "serial d = (?i + 1) * 2 + serial d mod 2" by simp
  show ?thesis
  proof (cases "even (serial d)")
    case True
    then have "d = normal_date ?i" using e by (cases d) (simp add: normal_date_def)
    with i show ?thesis by (rule normal)
  next
    case False
    then have "serial d mod 2 = 1" by (simp add: odd_iff_mod_2_eq_one)
    then have "d = closing_date ?i" using e by (cases d) (simp add: closing_date_def)
    with i show ?thesis by (rule closing)
  qed
qed

lemma serial_parts:
  "0 \<le> i \<Longrightarrow> serial (normal_date i) sdiv 2 = i + 1" "0 \<le> i \<Longrightarrow> serial (closing_date i) sdiv 2 = i + 1"
  by (simp_all add: normal_date_def closing_date_def sdiv_pos)

lemma defined_dates:
  "0 \<le> i \<Longrightarrow> \<not> IsUndefined (normal_date i)" "0 \<le> i \<Longrightarrow> \<not> IsUndefined (closing_date i)"
  by (simp_all add: normal_date_def closing_date_def IsUndefined_def)

lemma Normal_simps:
  "Normal Undefined = Undefined" "0 \<le> i \<Longrightarrow> Normal (normal_date i) = normal_date i"
  "0 \<le> i \<Longrightarrow> Normal (closing_date i) = normal_date i"
proof -
  show "Normal Undefined = Undefined" by (simp add: Normal_def IsUndefined_def Undefined_def)
  assume "0 \<le> i"
  note d = defined_dates [OF this]
  show "Normal (normal_date i) = normal_date i" "Normal (closing_date i) = normal_date i"
    using d unfolding Normal_def and_not_one by (simp_all add: normal_date_def closing_date_def)
qed

lemma Closing_simps:
  "Closing Undefined = Undefined" "0 \<le> i \<Longrightarrow> Closing (normal_date i) = closing_date i"
  "0 \<le> i \<Longrightarrow> Closing (closing_date i) = closing_date i"
proof -
  show "Closing Undefined = Undefined" by (simp add: Closing_def IsUndefined_def Undefined_def)
  assume "0 \<le> i"
  note d = defined_dates [OF this]
  show "Closing (normal_date i) = closing_date i" "Closing (closing_date i) = closing_date i"
    using d unfolding Closing_def or_one by (simp_all add: normal_date_def closing_date_def)
qed

lemma FromDaysSinceFirst_simps:
  "0 \<le> i \<Longrightarrow> i \<le> kLastDayIndex \<Longrightarrow> FromDaysSinceFirst i = normal_date i"
  "i < 0 \<or> kLastDayIndex < i \<Longrightarrow> FromDaysSinceFirst i = Undefined"
  by (auto simp: FromDaysSinceFirst_def normal_date_def)

lemma DaysSinceFirst_simps:
  "DaysSinceFirst Undefined = - 1" "0 \<le> i \<Longrightarrow> DaysSinceFirst (normal_date i) = i"
  "0 \<le> i \<Longrightarrow> DaysSinceFirst (closing_date i) = i"
  using serial_parts [of i] defined_dates [of i]
  by (simp_all add: DaysSinceFirst_def) (simp add: IsUndefined_def Undefined_def)

lemma DaysSinceFirst_range:
  "date_ok d \<Longrightarrow> d \<noteq> Undefined \<Longrightarrow> 0 \<le> DaysSinceFirst d \<and> DaysSinceFirst d \<le> kLastDayIndex"
  by (erule date_cases) (simp_all add: DaysSinceFirst_simps)

lemma FromDaysSinceFirst_ok [invariant_intros]: "date_ok (FromDaysSinceFirst i)"
  by (auto simp: FromDaysSinceFirst_def date_ok_def Undefined_def)

lemma Normal_ok [invariant_intros]: "date_ok d \<Longrightarrow> date_ok (Normal d)"
  by (erule date_cases)
    (simp_all add: Normal_simps, simp_all add: date_ok_def Undefined_def normal_date_def)

lemma Closing_ok [invariant_intros]: "date_ok d \<Longrightarrow> date_ok (Closing d)"
  by (erule date_cases)
    (simp_all add: Closing_simps, simp_all add: date_ok_def Undefined_def closing_date_def)

lemma FromDays_DaysSinceFirst: "date_ok d \<Longrightarrow> FromDaysSinceFirst (DaysSinceFirst d) = Normal d"
  by (erule date_cases) (simp_all add: DaysSinceFirst_simps Normal_simps FromDaysSinceFirst_simps)

lemma DaysSinceFirst_FromDays: "0 \<le> i \<Longrightarrow> i \<le> kLastDayIndex \<Longrightarrow> DaysSinceFirst (FromDaysSinceFirst i) = i"
  by (simp add: FromDaysSinceFirst_simps DaysSinceFirst_simps)

lemma FromDays_defined: "0 \<le> i \<Longrightarrow> i \<le> kLastDayIndex \<Longrightarrow> \<not> IsUndefined (FromDaysSinceFirst i)"
  by (simp add: FromDaysSinceFirst_simps defined_dates)

lemma IsUndefined_iff: "IsUndefined d \<longleftrightarrow> d = Undefined"
  by (cases d) (simp add: IsUndefined_def Undefined_def)

section \<open>Civil dates\<close>

lemma Days_eq: "date_ok d \<Longrightarrow> d \<noteq> Undefined \<Longrightarrow> Days d = kEpoch + DaysSinceFirst d"
  by (erule date_cases) (simp_all add: Days_def DaysSinceFirst_simps serial_parts)

lemma FromYmd_days:
  assumes "IsRealDate y m d" "kFirstYear \<le> y" "y \<le> kLastYear"
  shows "FromYmd y m d = FromDaysSinceFirst (DaysFromCivil y m d - kEpoch)"
    "0 \<le> DaysFromCivil y m d - kEpoch" "DaysFromCivil y m d - kEpoch \<le> kLastDayIndex"
proof -
  have "new_year 1753 \<le> new_year y" "new_year (y + 1) \<le> new_year 10000"
    using assms(2,3) by (auto intro!: new_year_mono simp: kFirstYear_def kLastYear_def)
  then show "0 \<le> DaysFromCivil y m d - kEpoch" "DaysFromCivil y m d - kEpoch \<le> kLastDayIndex"
    using in_year [OF assms(1)] year_range by linarith+
  then show "FromYmd y m d = FromDaysSinceFirst (DaysFromCivil y m d - kEpoch)"
    using assms by (simp add: FromYmd_def FromDaysSinceFirst_simps normal_date_def)
qed

lemma FromYmd_ok [invariant_intros]: "date_ok (FromYmd y m d)"
proof (cases "IsRealDate y m d \<and> kFirstYear \<le> y \<and> y \<le> kLastYear")
  case True
  then show ?thesis using FromYmd_days(1) [of y m d] by (simp add: FromDaysSinceFirst_ok)
next
  case False
  then have "FromYmd y m d = Undefined" by (auto simp: FromYmd_def)
  then show ?thesis by (simp add: date_ok_def Undefined_def)
qed

lemma FromYmd_parts:
  assumes "IsRealDate y m d" "kFirstYear \<le> y" "y \<le> kLastYear"
  shows "YearOf (FromYmd y m d) = y" "MonthOf (FromYmd y m d) = int m" "DayOf (FromYmd y m d) = int d"
    "FromYmd y m d \<noteq> Undefined" "DaysSinceFirst (FromYmd y m d) = DaysFromCivil y m d - kEpoch"
proof -
  note F = FromYmd_days [OF assms]
  have def: "\<not> IsUndefined (FromYmd y m d)" unfolding F(1) using F(2,3) by (rule FromDays_defined)
  then show "FromYmd y m d \<noteq> Undefined" by (simp add: IsUndefined_iff)
  then have "Days (FromYmd y m d) = kEpoch + DaysSinceFirst (FromYmd y m d)"
    by (intro Days_eq FromYmd_ok)
  also show D: "DaysSinceFirst (FromYmd y m d) = DaysFromCivil y m d - kEpoch"
    unfolding F(1) using F(2,3) by (rule DaysSinceFirst_FromDays)
  finally have "CivilOf (FromYmd y m d) = \<lparr>cv_year = y, cv_month = m, cv_day = d\<rparr>"
    using CivilFromDays_DaysFromCivil [OF assms(1)] by (simp add: CivilOf_def)
  then show "YearOf (FromYmd y m d) = y" "MonthOf (FromYmd y m d) = int m" "DayOf (FromYmd y m d) = int d"
    using def by (simp_all add: YearOf_def MonthOf_def DayOf_def)
qed

lemma CivilOf_real:
  assumes "date_ok d" "d \<noteq> Undefined"
  shows "IsRealDate (cv_year (CivilOf d)) (cv_month (CivilOf d)) (cv_day (CivilOf d))"
    "kFirstYear \<le> cv_year (CivilOf d)" "cv_year (CivilOf d) \<le> kLastYear"
    "FromYmd (cv_year (CivilOf d)) (cv_month (CivilOf d)) (cv_day (CivilOf d)) = Normal d"
proof -
  show real: "IsRealDate (cv_year (CivilOf d)) (cv_month (CivilOf d)) (cv_day (CivilOf d))"
    unfolding CivilOf_def by (rule DaysFromCivil_CivilFromDays)
  have days: "Days d = kEpoch + DaysSinceFirst d" "0 \<le> DaysSinceFirst d" "DaysSinceFirst d \<le> kLastDayIndex"
    using assms Days_eq DaysSinceFirst_range by blast+
  have y: "new_year (cv_year (CivilOf d)) \<le> Days d" "Days d < new_year (cv_year (CivilOf d) + 1)"
    unfolding CivilOf_def by (rule year_of_days)+
  show low: "kFirstYear \<le> cv_year (CivilOf d)"
  proof (rule ccontr)
    assume "\<not> ?thesis"
    then have "new_year (cv_year (CivilOf d) + 1) \<le> new_year 1753" by (intro new_year_mono) (simp add: kFirstYear_def)
    then show False using y(2) days year_range(1) by linarith
  qed
  show high: "cv_year (CivilOf d) \<le> kLastYear"
  proof (rule ccontr)
    assume "\<not> ?thesis"
    then have "new_year 10000 \<le> new_year (cv_year (CivilOf d))" by (intro new_year_mono) (simp add: kLastYear_def)
    then show False using y(1) days year_range(2) by linarith
  qed
  have "DaysFromCivil (cv_year (CivilOf d)) (cv_month (CivilOf d)) (cv_day (CivilOf d)) = Days d"
    unfolding CivilOf_def by (rule DaysFromCivil_CivilFromDays)
  then show "FromYmd (cv_year (CivilOf d)) (cv_month (CivilOf d)) (cv_day (CivilOf d)) = Normal d"
    using FromYmd_days(1) [OF real low high] FromDays_DaysSinceFirst [OF assms(1)] days(1) by simp
qed

section \<open>Weeks\<close>

lemma smod_shift: "(n smod 7 + 7 + 3) smod 7 = (n + 3) mod (7 :: int)"
proof -
  have r: "- 7 < n smod 7" "\<exists>k. n smod 7 = n - 7 * k"
  proof -
    show "\<exists>k. n smod 7 = n - 7 * k" by (metis minus_mult_sdiv_eq_smod)
    show "- 7 < n smod 7"
      by (cases "0 \<le> n") (auto simp: signed_modulo_int_def sgn_if intro: less_le_trans [of _ 0])
  qed
  then obtain k where k: "n smod 7 = n - 7 * k" by blast
  have "0 \<le> n smod 7 + 7 + 3" using r(1) by simp
  then have "(n smod 7 + 7 + 3) smod 7 = (n smod 7 + 7 + 3) mod 7"
    by (simp add: signed_modulo_int_def sgn_if)
  moreover have "n smod 7 + 7 + 3 = (n + 3) + 7 * (1 - k)" unfolding k by (simp add: algebra_simps)
  ultimately show ?thesis by (simp only: mod_mult_self2)
qed

lemma DayOfWeek_eq: "d \<noteq> Undefined \<Longrightarrow> DayOfWeek d = (Days d + 3) mod 7 + 1"
  unfolding DayOfWeek_def by (simp only: IsUndefined_iff if_False smod_shift)

lemma DayOfWeek_range: "d \<noteq> Undefined \<Longrightarrow> 1 \<le> DayOfWeek d \<and> DayOfWeek d \<le> 7"
  using pos_mod_sign [of 7 "Days d + 3"] pos_mod_bound [of 7 "Days d + 3"] by (simp add: DayOfWeek_eq)

text \<open>The week of a date starts on its Monday; its Thursday names the year and counts the weeks.\<close>

lemma Thursday:
  assumes "d \<noteq> Undefined"
  shows "ThursdayOfWeek d = (Days d + 3) div 7 * 7"
    "ThursdayOfWeek d - 3 \<le> Days d" "Days d \<le> ThursdayOfWeek d + 3"
proof -
  have "(Days d + 3) div 7 * 7 = Days d + 3 - (Days d + 3) mod 7" by (simp only: minus_mod_eq_div_mult)
  then show "ThursdayOfWeek d = (Days d + 3) div 7 * 7" by (simp add: ThursdayOfWeek_def DayOfWeek_eq [OF assms])
  show "ThursdayOfWeek d - 3 \<le> Days d" "Days d \<le> ThursdayOfWeek d + 3"
    using DayOfWeek_range [OF assms] by (simp_all add: ThursdayOfWeek_def)
qed

lemma seven_parts: "7 * (n div 7) \<le> n" "n < 7 * (n div 7) + 7" for n :: int
  by presburger+

lemma WeekNo_counts:
  assumes "d \<noteq> Undefined"
  shows "1 \<le> WeekNo d" "WeekNo d \<le> 53"
    "7 * (WeekNo d - 1) \<le> ThursdayOfWeek d - new_year (WeekYear d)"
    "ThursdayOfWeek d - new_year (WeekYear d) < 7 * WeekNo d"
    "new_year (WeekYear d) \<le> ThursdayOfWeek d" "ThursdayOfWeek d < new_year (WeekYear d + 1)"
proof -
  let ?t = "ThursdayOfWeek d" and ?y = "WeekYear d"
  have "?y = cv_year (CivilFromDays ?t)" using assms by (simp add: WeekYear_def IsUndefined_iff)
  then show y: "new_year ?y \<le> ?t" "?t < new_year (?y + 1)" using year_of_days by simp_all
  then have "WeekNo d = (?t - new_year ?y) div 7 + 1"
    using assms by (simp add: WeekNo_def IsUndefined_iff new_year_def sdiv_pos)
  moreover obtain q where q: "q = (?t - new_year ?y) div 7" by blast
  ultimately have "WeekNo d = q + 1" by simp
  moreover have "7 * q \<le> ?t - new_year ?y" "?t - new_year ?y < 7 * q + 7" unfolding q by (rule seven_parts)+
  ultimately show "1 \<le> WeekNo d" "WeekNo d \<le> 53" "7 * (WeekNo d - 1) \<le> ?t - new_year ?y" "?t - new_year ?y < 7 * WeekNo d"
    using y new_year_Suc(2) [of ?y] by (simp_all add: algebra_simps)
qed

section \<open>Arithmetic\<close>

lemma DatePlus_days:
  assumes "date_ok d" "d \<noteq> Undefined"
  shows "0 \<le> DaysSinceFirst d + n \<Longrightarrow> DaysSinceFirst d + n \<le> kLastDayIndex \<Longrightarrow>
      DaysSinceFirst (DatePlus d n) = DaysSinceFirst d + n \<and> DateDifference (DatePlus d n) d = n \<and>
      DateMinus (DatePlus d n) n = Normal d"
    "DaysSinceFirst d + n < 0 \<or> kLastDayIndex < DaysSinceFirst d + n \<Longrightarrow> DatePlus d n = Undefined"
proof -
  have same: "DaysSinceFirst (Normal e) = DaysSinceFirst e" if "date_ok e" for e
    using that by (cases rule: date_cases) (simp_all add: Normal_simps DaysSinceFirst_simps)
  have P: "DatePlus d n = FromDaysSinceFirst (DaysSinceFirst d + n)" by (simp add: DatePlus_def same assms)
  assume r: "0 \<le> DaysSinceFirst d + n" "DaysSinceFirst d + n \<le> kLastDayIndex"
  have D: "DaysSinceFirst (DatePlus d n) = DaysSinceFirst d + n" unfolding P by (rule DaysSinceFirst_FromDays [OF r])
  have ok: "date_ok (DatePlus d n)" unfolding P by (rule FromDaysSinceFirst_ok)
  show "DaysSinceFirst (DatePlus d n) = DaysSinceFirst d + n \<and> DateDifference (DatePlus d n) d = n \<and>
      DateMinus (DatePlus d n) n = Normal d"
    using D FromDays_DaysSinceFirst [OF assms(1)]
    by (simp add: DateDifference_def DateMinus_def same [OF ok] same [OF assms(1)])
next
  have same: "DaysSinceFirst (Normal d) = DaysSinceFirst d"
    using assms(1) by (cases rule: date_cases) (simp_all add: Normal_simps DaysSinceFirst_simps)
  assume "DaysSinceFirst d + n < 0 \<or> kLastDayIndex < DaysSinceFirst d + n"
  then show "DatePlus d n = Undefined" by (simp add: DatePlus_def same FromDaysSinceFirst_simps)
qed

section \<open>Properties\<close>


text \<open>
  The day count is the calendar's: 1 January 1970 is day zero, and the count of the day after a
  real date is one more, where the day after follows the lengths of the months and the leap years.
\<close>

theorem days_count_calendar:
  assumes "IsRealDate (cv_year c) (cv_month c) (cv_day c)"
  shows "DaysFromCivil 1970 1 1 = 0 \<and>
    DaysFromCivil (cv_year (next_day c)) (cv_month (next_day c)) (cv_day (next_day c)) =
      DaysFromCivil (cv_year c) (cv_month c) (cv_day c) + 1 \<and>
    CivilFromDays (DaysFromCivil (cv_year c) (cv_month c) (cv_day c) + 1) = next_day c"
proof -
  note N = DaysFromCivil_next_day [OF assms refl]
  have "DaysFromCivil 1970 1 1 = 0" by (simp add: DaysFromCivil_march march_days_def month_starts)
  then show ?thesis using N(2) CivilFromDays_DaysFromCivil [OF N(1)] by simp
qed

lemma days_count_calendar_witness:
  "CivilFromDays (DaysFromCivil 2000 2 28 + 1) = \<lparr>cv_year = 2000, cv_month = 2, cv_day = 29\<rparr>"
proof -
  have leap: "IsLeapYear 2000" by (simp add: IsLeapYear_iff)
  have "LastDayOfMonth 2000 2 = Some 29" by (simp add: LastDayOfMonth_value leap)
  then show ?thesis
    using days_count_calendar [of "\<lparr>cv_year = 2000, cv_month = 2, cv_day = 28\<rparr>"] leap
    by (simp add: next_day_def IsRealDate_iff)
qed

text \<open>
  The serial orders dates as AL wants it: the undefined date before every other, each day before
  its closing date, and the closing date before the next day; both dates of a day name that day.
\<close>

theorem closing_order:
  assumes "0 \<le> i" "i < kLastDayIndex"
  shows "Undefined < FromDaysSinceFirst i \<and> FromDaysSinceFirst i < Closing (FromDaysSinceFirst i) \<and>
    Closing (FromDaysSinceFirst i) < FromDaysSinceFirst (i + 1) \<and>
    IsClosing (Closing (FromDaysSinceFirst i)) \<and> \<not> IsClosing (FromDaysSinceFirst i) \<and>
    Normal (Closing (FromDaysSinceFirst i)) = FromDaysSinceFirst i \<and>
    DaysSinceFirst (Closing (FromDaysSinceFirst i)) = i \<and> DaysSinceFirst (FromDaysSinceFirst i) = i"
proof -
  have F: "FromDaysSinceFirst i = normal_date i" "FromDaysSinceFirst (i + 1) = normal_date (i + 1)"
    using assms by (simp_all add: FromDaysSinceFirst_simps)
  have "Undefined < normal_date i" "normal_date i < closing_date i" "closing_date i < normal_date (i + 1)"
    using assms by (simp_all add: less_date_def Undefined_def normal_date_def closing_date_def)
  moreover have "IsClosing (closing_date i)" "\<not> IsClosing (normal_date i)"
    using assms defined_dates [of i]
    by (simp_all add: IsClosing_def) (simp_all add: normal_date_def closing_date_def and_one_eq)
  ultimately show ?thesis
    using assms by (simp add: F Closing_simps Normal_simps DaysSinceFirst_simps)
qed

lemma closing_order_witness:
  "FromDaysSinceFirst 7 < Closing (FromDaysSinceFirst 7) \<and> Closing (FromDaysSinceFirst 7) < FromDaysSinceFirst 8"
  using closing_order [of 7] by (simp add: kLastDayIndex_value)

text \<open>
  The date built from a real year, month and day of the range is defined and answers with them;
  taking any defined date apart and building it again gives its normal date.
\<close>

theorem ymd_roundtrip:
  assumes "IsRealDate y m d" "kFirstYear \<le> y" "y \<le> kLastYear" "date_ok e" "e \<noteq> Undefined"
  shows "FromYmd y m d \<noteq> Undefined \<and> YearOf (FromYmd y m d) = y \<and> MonthOf (FromYmd y m d) = int m \<and>
    DayOf (FromYmd y m d) = int d \<and> FromYmd (YearOf e) (nat (MonthOf e)) (nat (DayOf e)) = Normal e"
  using FromYmd_parts [OF assms(1-3)] CivilOf_real(4) [OF assms(4,5)] assms(5)
  by (simp add: YearOf_def MonthOf_def DayOf_def IsUndefined_iff)

lemma ymd_roundtrip_witness: "YearOf (FromYmd 2018 3 25) = 2018 \<and> DayOf (FromYmd 2018 3 25) = 25"
  using ymd_roundtrip [of 2018 3 25 "FromDaysSinceFirst 7"]
  by (simp add: IsRealDate_iff kFirstYear_def kLastYear_def FromDaysSinceFirst_ok FromDays_defined
      kLastDayIndex_value IsUndefined_iff [symmetric])

text \<open>
  The ISO week: the weekday runs from 1 to 7 and advances with the day, and the week number, 1 to
  53, counts the Thursdays of the year the week's Thursday lies in.
\<close>

theorem iso_week:
  assumes "date_ok d" "d \<noteq> Undefined"
  shows "1 \<le> DayOfWeek d \<and> DayOfWeek d \<le> 7 \<and> (Days d - DayOfWeek d + 4) mod 7 = 0 \<and>
    1 \<le> WeekNo d \<and> WeekNo d \<le> 53 \<and>
    WeekYear d = cv_year (CivilFromDays (Days d - DayOfWeek d + 4)) \<and>
    WeekNo d = (Days d - DayOfWeek d + 4 - DaysFromCivil (WeekYear d) 1 1) div 7 + 1"
proof -
  have t: "ThursdayOfWeek d = Days d - DayOfWeek d + 4" by (simp add: ThursdayOfWeek_def)
  have "ThursdayOfWeek d mod 7 = 0" unfolding Thursday(1) [OF assms(2)] by simp
  moreover have "WeekNo d = (ThursdayOfWeek d - DaysFromCivil (WeekYear d) 1 1) div 7 + 1"
    using WeekNo_counts(5) [OF assms(2)] assms(2) by (simp add: WeekNo_def IsUndefined_iff new_year_def sdiv_pos)
  ultimately show ?thesis
    using DayOfWeek_range [OF assms(2)] WeekNo_counts [OF assms(2)] assms(2)
    by (simp add: t WeekYear_def IsUndefined_iff)
qed

lemma iso_week_witness: "1 \<le> DayOfWeek (FromDaysSinceFirst 7) \<and> WeekNo (FromDaysSinceFirst 7) \<le> 53"
proof -
  have "FromDaysSinceFirst 7 \<noteq> Undefined"
    using FromDays_defined [of 7] by (simp add: kLastDayIndex_value IsUndefined_iff)
  from iso_week [OF FromDaysSinceFirst_ok this] show ?thesis by blast
qed

text \<open>
  Adding days to a defined date moves its day count by that many, out of the range to the
  undefined date; the difference of the two is the number added, and subtracting it leads back.
\<close>

theorem date_arithmetic:
  assumes "date_ok d" "d \<noteq> Undefined"
  shows "if 0 \<le> DaysSinceFirst d + n \<and> DaysSinceFirst d + n \<le> kLastDayIndex
    then DaysSinceFirst (DatePlus d n) = DaysSinceFirst d + n \<and> DateDifference (DatePlus d n) d = n \<and>
      DateMinus (DatePlus d n) n = Normal d
    else DatePlus d n = Undefined"
  using DatePlus_days [OF assms, of n] by auto

lemma date_arithmetic_witness: "DateDifference (DatePlus (FromDaysSinceFirst 7) 5) (FromDaysSinceFirst 7) = 5"
  using date_arithmetic [of "FromDaysSinceFirst 7" 5] DaysSinceFirst_FromDays [of 7]
  by (simp add: FromDaysSinceFirst_ok FromDays_defined kLastDayIndex_value IsUndefined_iff [symmetric])

text \<open>
  Adding one day to the undefined date gives the first date of the range, because the undefined
  date counts as day minus one: the result is a plausible date, not the undefined one.
\<close>

theorem undefined_plus_one: "DatePlus Undefined 1 = FromYmd 1753 1 1 \<and> FromYmd 1753 1 1 \<noteq> Undefined"
proof -
  have real: "IsRealDate 1753 1 1" "kFirstYear \<le> 1753" "1753 \<le> kLastYear"
    by (simp_all add: IsRealDate_iff kFirstYear_def kLastYear_def)
  have "DatePlus Undefined 1 = FromDaysSinceFirst 0" by (simp add: DatePlus_def Normal_simps DaysSinceFirst_simps)
  then show ?thesis using FromYmd_days(1) [OF real] FromYmd_parts(4) [OF real] by (simp add: kEpoch_def kFirstYear_def)
qed

end
