(* ===== verification/DateFormula.thy ===== *)
theory DateFormula
  imports DateFacts
begin

text \<open>
  AL's DateFormula, \<^verbatim>\<open>src/src/net/DateFormula.cpp\<close> and \<^verbatim>\<open>src/include/type/DateFormula.h\<close>: the letter
  tables of the languages, the tokens of a formula and the three ways they are written, reading a
  formula, and calculating with it. The thread's language, \<open>Language::Current()\<close>, is an argument. A
  position in the text is the rest of it; the number of a term is unbounded where the code's \<open>int\<close>
  would overflow.
\<close>

section \<open>Letters\<close>

record letters =
  lt_current :: string
  lt_day :: string
  lt_week :: string
  lt_month :: string
  lt_quarter :: string
  lt_year :: string
  lt_weekday :: string

definition Letters :: "string \<Rightarrow> string \<Rightarrow> string \<Rightarrow> string \<Rightarrow> string \<Rightarrow> string \<Rightarrow> string \<Rightarrow> letters" where
  "Letters c d w m q y wd = \<lparr>lt_current = c, lt_day = d, lt_week = w, lt_month = m, lt_quarter = q,
     lt_year = y, lt_weekday = wd\<rparr>"

definition kInvariant :: letters where
  "kInvariant = Letters ''C'' ''D'' ''W'' ''M'' ''Q'' ''Y'' ''WD''"

definition kPacked :: letters where
  "kPacked = Letters [CHR 0x01] [CHR 0x02] [CHR 0x04] [CHR 0x05] [CHR 0x06] [CHR 0x07] [CHR 0x03]"

definition kGermanLetters :: letters where
  "kGermanLetters = Letters ''L'' ''T'' ''W'' ''M'' ''Q'' ''J'' ''WT''"

definition kDanishLetters :: letters where
  "kDanishLetters = Letters ''L'' ''D'' ''U'' ''M'' ''K'' [CHR 0xC3, CHR 0x85] ''UD''"

definition kDutchLetters :: letters where
  "kDutchLetters = Letters ''H'' ''D'' ''W'' ''M'' ''K'' ''J'' ''WD''"

definition kFrenchLetters :: letters where
  "kFrenchLetters = Letters ''C'' ''J'' ''S'' ''M'' ''T'' ''A'' ''WD''"

definition kSpanishLetters :: letters where
  "kSpanishLetters = Letters ''C'' ''D'' ''S'' ''M'' ''T'' ''A'' ''WD''"

definition kSwedishLetters :: letters where
  "kSwedishLetters = Letters ''L'' ''D'' ''V'' ''M'' ''K'' [CHR 0xC3, CHR 0x85] ''VD''"

definition kNorwegianLetters :: letters where
  "kNorwegianLetters = Letters ''L'' ''D'' ''U'' ''M'' ''K'' [CHR 0xC3, CHR 0x85] ''UD''"

definition kByLanguage :: "(int \<times> letters) list" where
  "kByLanguage =
     [(0x07, kGermanLetters), (0x06, kDanishLetters), (0x13, kDutchLetters), (0x0C, kFrenchLetters),
      (0x0A, kSpanishLetters), (0x1D, kSwedishLetters), (0x14, kNorwegianLetters)]"

definition kPrimaryLanguageMask :: int where
  "kPrimaryLanguageMask = 0x3FF"

definition LettersOf :: "int \<Rightarrow> letters" where
  "LettersOf language =
     (case map_of kByLanguage (language AND kPrimaryLanguageMask) of Some l \<Rightarrow> l | None \<Rightarrow> kInvariant)"

section \<open>Tokens at a position\<close>

definition Folded :: "char \<Rightarrow> bool \<Rightarrow> char" where
  "Folded c afterLead =
     (if afterLead
      then (if 0xA0 \<le> code c \<and> code c \<le> 0xBE \<and> code c \<noteq> 0xB7 then char_of (code c - 0x20) else c)
      else to_upper c)"

fun TokenLoop :: "bool \<Rightarrow> string \<Rightarrow> string \<Rightarrow> bool" where
  "TokenLoop afterLead s [] = True"
| "TokenLoop afterLead [] (t # ts) = False"
| "TokenLoop afterLead (c # cs) (t # ts) =
     (Folded c afterLead = t \<and> TokenLoop (code c = 0xC3) cs ts)"

definition TokenAt :: "string \<Rightarrow> string \<Rightarrow> bool" where
  "TokenAt s token \<longleftrightarrow> token \<noteq> [] \<and> TokenLoop False s token"

definition DigitAt :: "string \<Rightarrow> bool" where
  "DigitAt s \<longleftrightarrow> s \<noteq> [] \<and> is_digit (hd s)"

definition PrefixLength :: "string \<Rightarrow> string \<Rightarrow> string \<Rightarrow> nat" where
  "PrefixLength s localized invariant =
     (if TokenAt s localized then length localized else if TokenAt s invariant then length invariant else 0)"

definition kUnits :: "(char \<times> (letters \<Rightarrow> string)) list" where
  "kUnits = [(CHR ''D'', lt_day), (CHR ''W'', lt_week), (CHR ''M'', lt_month), (CHR ''Q'', lt_quarter),
     (CHR ''Y'', lt_year)]"

definition Letter :: "letters \<Rightarrow> char \<Rightarrow> string" where
  "Letter l unit = (case map_of kUnits unit of Some f \<Rightarrow> f l | None \<Rightarrow> [])"

definition UnitAtIn :: "string \<Rightarrow> letters \<Rightarrow> (char \<times> nat) option" where
  "UnitAtIn s l =
     (case List.find (\<lambda>(unit, f). TokenAt s (f l)) kUnits of
        Some (unit, f) \<Rightarrow> Some (unit, length (f l)) | None \<Rightarrow> None)"

definition UnitAtEither :: "string \<Rightarrow> letters \<Rightarrow> (char \<times> nat) option" where
  "UnitAtEither s localized =
     (case UnitAtIn s localized of Some found \<Rightarrow> Some found | None \<Rightarrow> UnitAtIn s kInvariant)"

section \<open>The tokens of a formula\<close>

datatype piece = PeriodPiece | WeekdayPiece | WeekPiece | DayOfMonthPiece | AmountPiece

record formula_token =
  ft_piece :: piece
  ft_sign :: "char option"
  ft_number :: string
  ft_unit :: char

definition FormulaToken :: "piece \<Rightarrow> char option \<Rightarrow> string \<Rightarrow> char \<Rightarrow> formula_token" where
  "FormulaToken p sign number unit = \<lparr>ft_piece = p, ft_sign = sign, ft_number = number, ft_unit = unit\<rparr>"

record refusal =
  rf_what :: string
  rf_at :: nat

definition kNotAFormula :: string where
  "kNotAFormula = ''a date formula is a sign, a number and a unit, and this character is none of them''"

lemma TokenAt_nonempty: "TokenAt s t \<Longrightarrow> s \<noteq> [] \<and> 0 < length t"
  by (cases s; cases t) (auto simp: TokenAt_def)

lemma PrefixLength_positive: "PrefixLength s l i \<noteq> 0 \<Longrightarrow> 0 < PrefixLength s l i \<and> s \<noteq> []"
  by (auto simp: PrefixLength_def dest: TokenAt_nonempty split: if_splits)

lemma UnitAtIn_positive: "UnitAtIn s l = Some (u, n) \<Longrightarrow> 0 < n \<and> s \<noteq> []"
  by (auto simp: UnitAtIn_def find_Some_iff case_prod_unfold dest!: TokenAt_nonempty split: option.splits)

lemma UnitAtEither_positive: "UnitAtEither s l = Some (u, n) \<Longrightarrow> 0 < n \<and> s \<noteq> []"
  by (auto simp: UnitAtEither_def dest: UnitAtIn_positive split: option.splits)

text \<open>
  The loop of \<open>Tokens\<close> at position \<open>at\<close>, \<open>s\<close> being the text from there. A weekday or a selector takes
  the digits behind it.
\<close>

function Tokens :: "letters \<Rightarrow> nat \<Rightarrow> char option \<Rightarrow> string \<Rightarrow> refusal + formula_token list" where
  "Tokens l at sign s =
     (if s = [] then Inr []
      else if hd s = CHR ''+'' \<or> hd s = CHR ''-'' then Tokens l (at + 1) (Some (hd s)) (tl s)
      else if is_space (hd s) then Tokens l (at + 1) sign (tl s)
      else let n = PrefixLength s (lt_weekday l) (lt_weekday kInvariant) in
        if n \<noteq> 0 \<and> DigitAt (drop n s) then
          (let digits = takeWhile is_digit (drop n s) in
           andThen (Tokens l (at + n + length digits) None (drop (n + length digits) s)) (\<lambda>ts.
             Inr (FormulaToken WeekdayPiece sign digits (CHR ''D'') # ts)))
        else let n = PrefixLength s (lt_current l) (lt_current kInvariant) in
        case (if n \<noteq> 0 then UnitAtEither (drop n s) l else None) of
          Some (unit, m) \<Rightarrow>
            andThen (Tokens l (at + n + m) None (drop (n + m) s)) (\<lambda>ts.
              Inr (FormulaToken PeriodPiece sign [] unit # ts))
        | None \<Rightarrow>
          (case UnitAtEither s l of
             Some (unit, m) \<Rightarrow>
               if (unit = CHR ''W'' \<or> unit = CHR ''D'') \<and> DigitAt (drop m s) then
                 (let digits = takeWhile is_digit (drop m s) in
                  andThen (Tokens l (at + m + length digits) None (drop (m + length digits) s)) (\<lambda>ts.
                    Inr (FormulaToken (if unit = CHR ''W'' then WeekPiece else DayOfMonthPiece) sign digits
                      (CHR ''D'') # ts)))
               else andThen (Tokens l (at + m) None (drop m s)) (\<lambda>ts.
                 Inr (FormulaToken AmountPiece sign [] unit # ts))
           | None \<Rightarrow>
             let number = takeWhile is_digit s; k = length number in
             (case UnitAtEither (drop k s) l of
                Some (unit, m) \<Rightarrow>
                  andThen (Tokens l (at + k + m) None (drop (k + m) s)) (\<lambda>ts.
                    Inr (FormulaToken AmountPiece sign number unit # ts))
              | None \<Rightarrow> Inl \<lparr>rf_what = kNotAFormula, rf_at = at + k + 1\<rparr>)))"
  by pat_completeness auto
termination
  by (relation "measure (\<lambda>(l, at, sign, s). length s)")
    (auto simp: neq_Nil_conv dest!: UnitAtEither_positive PrefixLength_positive split: if_splits)

declare Tokens.simps [simp del]

section \<open>Writing a formula\<close>

definition RenderedToken :: "letters \<Rightarrow> formula_token \<Rightarrow> string" where
  "RenderedToken l t =
     (case ft_sign t of Some c \<Rightarrow> [c] | None \<Rightarrow> []) @
     (case ft_piece t of
        PeriodPiece \<Rightarrow> lt_current l @ Letter l (ft_unit t)
      | WeekdayPiece \<Rightarrow> lt_weekday l @ ft_number t
      | WeekPiece \<Rightarrow> lt_week l @ ft_number t
      | DayOfMonthPiece \<Rightarrow> lt_day l @ ft_number t
      | AmountPiece \<Rightarrow> ft_number t @ Letter l (ft_unit t))"

definition Rendered :: "formula_token list \<Rightarrow> letters \<Rightarrow> string" where
  "Rendered tokens l = concat (map (RenderedToken l) tokens)"

definition Counted :: "string \<Rightarrow> int" where
  "Counted digits = int (digits_value digits)"

definition PackedByte :: "char \<Rightarrow> bool" where
  "PackedByte c \<longleftrightarrow> 1 \<le> code c \<and> code c \<le> 7"

definition IsPacked :: "string \<Rightarrow> bool" where
  "IsPacked s \<longleftrightarrow> list_ex PackedByte s"

definition Unpacked :: "string \<Rightarrow> string" where
  "Unpacked s = concat (map (\<lambda>c. if PackedByte c
     then [[], ''C'', ''D'', ''WD'', ''W'', ''M'', ''Q'', ''Y''] ! code c else [c]) s)"

section \<open>Moving a date\<close>

definition Boundary :: "date \<Rightarrow> char \<Rightarrow> bool \<Rightarrow> date" where
  "Boundary d unit first =
     (let year = YearOf d; month = MonthOf d in
      if unit = CHR ''D'' then d
      else if unit = CHR ''W'' then
        (let weekday = DayOfWeek d; shift = (if first then 1 - weekday else 7 - weekday) in
         FromDaysSinceFirst (DaysSinceFirst d + shift))
      else if unit = CHR ''M'' then
        (if first then FromYmd year (nat month) 1
         else let nextMonth = (if month = 12 then 1 else month + 1);
                  nextYear = (if month = 12 then year + 1 else year) in
           FromDaysSinceFirst (DaysSinceFirst (FromYmd nextYear (nat nextMonth) 1) - 1))
      else if unit = CHR ''Q'' then
        (let quarter = (month - 1) sdiv 3 in
         if first then FromYmd year (nat (quarter * 3 + 1)) 1
         else let endMonth = quarter * 3 + 3;
                  nextMonth = (if endMonth = 12 then 1 else endMonth + 1);
                  nextYear = (if endMonth = 12 then year + 1 else year) in
           FromDaysSinceFirst (DaysSinceFirst (FromYmd nextYear (nat nextMonth) 1) - 1))
      else if unit = CHR ''Y'' then (if first then FromYmd year 1 1 else FromYmd year 12 31)
      else d)"

text \<open>
  The month of \<open>AddMonths\<close> is cast to \<open>unsigned\<close>: a negative one wraps and \<open>kLengths.at\<close> throws.
\<close>

datatype calc_error = OutOfRange

definition ToUnsigned :: "int \<Rightarrow> nat" where
  "ToUnsigned i = nat (i mod 2 ^ 32)"

definition AddMonths :: "date \<Rightarrow> int \<Rightarrow> calc_error + date" where
  "AddMonths d months =
     (let total = YearOf d * 12 + MonthOf d - 1 + months;
          year = total sdiv 12;
          month = total smod 12 + 1 in
      case LastDayOfMonth year (ToUnsigned month) of
        None \<Rightarrow> Inl OutOfRange
      | Some len \<Rightarrow>
          Inr (FromYmd year (ToUnsigned month) (ToUnsigned (if DayOf d < int len then DayOf d else int len))))"

definition DayOfMonth :: "date \<Rightarrow> int \<Rightarrow> calc_error + date" where
  "DayOfMonth d day =
     (if day < 1 then Inr d
      else case LastDayOfMonth (YearOf d) (ToUnsigned (MonthOf d)) of
        None \<Rightarrow> Inl OutOfRange
      | Some len \<Rightarrow>
          Inr (FromYmd (YearOf d) (ToUnsigned (MonthOf d)) (ToUnsigned (if day < int len then day else int len))))"

definition Weekday :: "date \<Rightarrow> int \<Rightarrow> bool \<Rightarrow> date" where
  "Weekday d target backwards =
     (if target < 1 \<or> 7 < target then d
      else let today = DayOfWeek d;
        shift = (if backwards
           then (let back = (today - target) smod 7 in - (if back = 0 then 7 else back))
           else (let forward = (target - today) smod 7 in if forward = 0 then 7 else forward)) in
        FromDaysSinceFirst (DaysSinceFirst d + shift))"

section \<open>Formulas\<close>

datatype term_kind = PeriodTerm | WeekdayTerm | WeekTerm | DayOfMonthTerm | AmountTerm

record formula_term =
  tm_kind :: term_kind
  tm_unit :: char
  tm_count :: int
  tm_negative :: bool

record date_formula =
  df_terms :: "formula_term list"
  df_text :: string

definition TermOf :: "formula_token \<Rightarrow> formula_term" where
  "TermOf t =
     (let negative = (ft_sign t = Some (CHR ''-'')) in
      case ft_piece t of
        PeriodPiece \<Rightarrow> \<lparr>tm_kind = PeriodTerm, tm_unit = ft_unit t, tm_count = 0, tm_negative = negative\<rparr>
      | WeekdayPiece \<Rightarrow> \<lparr>tm_kind = WeekdayTerm, tm_unit = CHR ''D'', tm_count = Counted (ft_number t), tm_negative = negative\<rparr>
      | WeekPiece \<Rightarrow> \<lparr>tm_kind = WeekTerm, tm_unit = CHR ''W'', tm_count = Counted (ft_number t), tm_negative = negative\<rparr>
      | DayOfMonthPiece \<Rightarrow> \<lparr>tm_kind = DayOfMonthTerm, tm_unit = CHR ''D'', tm_count = Counted (ft_number t), tm_negative = negative\<rparr>
      | AmountPiece \<Rightarrow> \<lparr>tm_kind = AmountTerm, tm_unit = ft_unit t,
          tm_count = (if ft_number t = [] then 1 else Counted (ft_number t)), tm_negative = negative\<rparr>)"

definition FormulaOf :: "formula_token list \<Rightarrow> date_formula" where
  "FormulaOf tokens = \<lparr>df_terms = map TermOf tokens, df_text = Rendered tokens kInvariant\<rparr>"

definition FromText :: "int \<Rightarrow> string \<Rightarrow> refusal + date_formula" where
  "FromText language text =
     (let bracketed = (text \<noteq> [] \<and> hd text = CHR ''<'' \<and> last text = CHR ''>'');
          inner = (if bracketed then butlast (tl text) else text);
          packed = IsPacked inner;
          plain = (if packed then Unpacked inner else inner);
          localized = (if bracketed \<or> packed then kInvariant else LettersOf language) in
      andThen (Tokens localized 0 None plain) (\<lambda>tokens. Inr (FormulaOf tokens)))"

definition ToText :: "int \<Rightarrow> date_formula \<Rightarrow> string" where
  "ToText language f =
     (if map_of kByLanguage (language AND kPrimaryLanguageMask) = None then df_text f
      else case Tokens kInvariant 0 None (df_text f) of
        Inl _ \<Rightarrow> df_text f
      | Inr tokens \<Rightarrow> Rendered tokens (LettersOf language))"

definition ToStorageText :: "date_formula \<Rightarrow> string" where
  "ToStorageText f =
     (case Tokens kInvariant 0 None (df_text f) of
        Inl _ \<Rightarrow> df_text f
      | Inr tokens \<Rightarrow> Rendered tokens kPacked)"

definition CalcTerm :: "formula_term \<Rightarrow> date \<Rightarrow> calc_error + date" where
  "CalcTerm t d =
     (let signed = (if tm_negative t then - tm_count t else tm_count t) in
      case tm_kind t of
        PeriodTerm \<Rightarrow> Inr (Boundary d (tm_unit t) (tm_negative t))
      | WeekdayTerm \<Rightarrow> Inr (Weekday d (tm_count t) (tm_negative t))
      | WeekTerm \<Rightarrow>
          (let january4 = FromYmd (YearOf d) 1 4;
               firstMonday = FromDaysSinceFirst (DaysSinceFirst january4 - (DayOfWeek january4 - 1)) in
           Inr (FromDaysSinceFirst (DaysSinceFirst firstMonday + (tm_count t - 1) * 7)))
      | DayOfMonthTerm \<Rightarrow> DayOfMonth d (tm_count t)
      | AmountTerm \<Rightarrow>
          (if tm_unit t = CHR ''D'' then Inr (FromDaysSinceFirst (DaysSinceFirst d + signed))
           else if tm_unit t = CHR ''W'' then Inr (FromDaysSinceFirst (DaysSinceFirst d + signed * 7))
           else if tm_unit t = CHR ''M'' then AddMonths d signed
           else if tm_unit t = CHR ''Q'' then AddMonths d (signed * 3)
           else if tm_unit t = CHR ''Y'' then AddMonths d (signed * 12)
           else Inr d))"

fun CalcTerms :: "formula_term list \<Rightarrow> date \<Rightarrow> calc_error + date" where
  "CalcTerms [] d = Inr d"
| "CalcTerms (t # ts) d = andThen (CalcTerm t d) (CalcTerms ts)"

definition CalcDate :: "date_formula \<Rightarrow> date \<Rightarrow> calc_error + date" where
  "CalcDate f from_date = (if IsUndefined from_date then Inr from_date else CalcTerms (df_terms f) from_date)"

end
