(* ===== verification/DateFormulaFacts.thy ===== *)
theory DateFormulaFacts
  imports DateFormula
begin

text \<open>
  What holds of \<^verbatim>\<open>src/src/net/DateFormula.cpp\<close>. The interface between the letter tables and the reader
  is the locale \<open>letter_table\<close>: what \<open>Tokens\<close> relies on when it reads what \<open>Rendered\<close> wrote with the
  same table. Every table of the source is an interpretation of it, so the round trips hold in every
  language.
\<close>

section \<open>Characters\<close>









section \<open>The interface of a letter table\<close>




























section \<open>Every table of the source is one\<close>











section \<open>What the reader accepts\<close>




















section \<open>The stored form\<close>










section \<open>Formulas and their texts\<close>







section \<open>Moving dates\<close>

definition has_parts :: "date \<Rightarrow> int \<Rightarrow> nat \<Rightarrow> nat \<Rightarrow> bool" where
  "has_parts d y m k \<longleftrightarrow> YearOf d = y \<and> MonthOf d = int m \<and> DayOf d = int k \<and> IsRealDate y m k \<and>
     kFirstYear \<le> y \<and> y \<le> kLastYear \<and> 1 \<le> m \<and> m \<le> 12 \<and> 1 \<le> k \<and> Normal d = FromYmd y m k"

lemma date_parts:
  assumes "date_ok d" "d \<noteq> Undefined"
  shows "\<exists>y m k. has_parts d y m k"
proof -
  note C = CivilOf_real [OF assms]
  have "has_parts d (cv_year (CivilOf d)) (cv_month (CivilOf d)) (cv_day (CivilOf d))"
    using C assms(2) by (simp add: has_parts_def YearOf_def MonthOf_def DayOf_def IsUndefined_iff IsRealDate_def)
  then show ?thesis by blast
qed

lemma last_day:
  assumes "1 \<le> m" "m \<le> 12"
  obtains len where "LastDayOfMonth y m = Some len" "28 \<le> len" "len \<le> 31"
  using LastDayOfMonth_value [OF assms, of y] that by (auto split: if_splits)

lemma ToUnsigned_nat: "0 \<le> i \<Longrightarrow> i < 2 ^ 32 \<Longrightarrow> ToUnsigned i = nat i"
  by (simp add: ToUnsigned_def)

lemma sdiv_smod_nonneg: "0 \<le> i \<Longrightarrow> i sdiv 12 = i div 12 \<and> i smod 12 = i mod (12 :: int)"
  by (simp add: sdiv_pos signed_modulo_int_def sgn_if)

lemma AddMonths_nonneg:
  assumes "date_ok d" "d \<noteq> Undefined" "months = YearOf d * 12 + MonthOf d - 1 + n" "0 \<le> months"
    "LastDayOfMonth (months div 12) (nat (months mod 12 + 1)) = Some len"
  shows "AddMonths d n = Inr (FromYmd (months div 12) (nat (months mod 12 + 1)) (nat (min (DayOf d) (int len))))"
proof -
  obtain y m k where "has_parts d y m k" using date_parts [OF assms(1,2)] by blast
  then have d: "DayOf d = int k" "IsRealDate y m k" "1 \<le> k" "1 \<le> m" "m \<le> 12" by (simp_all add: has_parts_def)
  then have k: "k \<le> 31" using LastDayOfMonth_value [OF d(4,5), of y] by (auto simp: IsRealDate_def split: if_splits)
  have t: "YearOf d * 12 + MonthOf d - 1 + n = months" using assms(3) by simp
  have u: "ToUnsigned (months mod 12 + 1) = nat (months mod 12 + 1)"
    by (rule ToUnsigned_nat) (use pos_mod_sign [of 12 months] pos_mod_bound [of 12 months] in simp_all)
  have v: "ToUnsigned (if int k < int len then int k else int len) = nat (min (int k) (int len))"
    using k by (subst ToUnsigned_nat) (auto simp: min_def)
  show ?thesis unfolding AddMonths_def t d(1) Let_def
    using sdiv_smod_nonneg [OF assms(4)] by (simp only: u v assms(5) option.case)
qed

lemma not_in_table: "12 < m \<Longrightarrow> LastDayOfMonth y m = None"
  by (simp add: LastDayOfMonth_def)

lemma FromYmd_zero_month: "FromYmd y 0 k = Undefined"
  by (simp add: FromYmd_def IsRealDate_def)

lemma wrap_negative: "- 12 < i \<Longrightarrow> i < 0 \<Longrightarrow> i mod 2 ^ 32 = i + (2 ^ 32 :: int)"
  using mod_add_self2 [of i "2 ^ 32"] mod_pos_pos_trivial [of "i + 2 ^ 32" "2 ^ 32"] by simp

lemma AddMonths_negative:
  assumes "date_ok d" "d \<noteq> Undefined" "months = YearOf d * 12 + MonthOf d - 1 + n" "months < 0"
  shows "AddMonths d n = (if 12 dvd months \<or> 12 dvd months + 1 then Inr Undefined else Inl OutOfRange)"
proof -
  let ?m = "months smod 12 + 1"
  have t: "YearOf d * 12 + MonthOf d - 1 + n = months" using assms(3) by simp
  have s: "months smod 12 = - ((- months) mod 12)" "months sdiv 12 = - ((- months) div 12)"
    using assms(4) by (simp_all add: signed_modulo_int_def signed_divide_int_def sgn_if)
  have m: "?m \<le> 1" "- 12 < ?m" unfolding s(1)
    using pos_mod_sign [of 12 "- months"] pos_mod_bound [of 12 "- months"] by linarith+
  have year: "months sdiv 12 < kFirstYear"
    using assms(4) unfolding s(2) kFirstYear_def by (simp add: pos_imp_zdiv_nonneg_iff le_less_trans [of _ 0])
  have c: "(- months) mod 12 = 0 \<longleftrightarrow> 12 dvd months" "(- months) mod 12 = 1 \<longleftrightarrow> 12 dvd months + 1"
    by presburger+
  show ?thesis
  proof (cases "12 dvd months")
    case True
    then have "?m = 1" unfolding s(1) using c(1) by simp
    then have "ToUnsigned ?m = 1" by (simp add: ToUnsigned_def)
    moreover have "FromYmd (months sdiv 12) 1 k = Undefined" for k using year by (simp add: FromYmd_def)
    ultimately show ?thesis using True
      unfolding AddMonths_def t Let_def by (simp add: LastDayOfMonth_def)
  next
    case January: False
    show ?thesis
    proof (cases "12 dvd months + 1")
      case True
      then have "?m = 0" unfolding s(1) using c(2) by simp
      then have "ToUnsigned ?m = 0" by (simp add: ToUnsigned_def)
      then show ?thesis using True
        unfolding AddMonths_def t Let_def by (simp add: LastDayOfMonth_def FromYmd_zero_month)
    next
      case False
      then have "?m < 0" using c January m(1) unfolding s(1) by linarith
      then have "ToUnsigned ?m = nat (?m + 2 ^ 32)" unfolding ToUnsigned_def
        by (simp only: wrap_negative [OF m(2)])
      then have "LastDayOfMonth (months sdiv 12) (ToUnsigned ?m) = None"
        by (intro not_in_table) (use m(2) in simp)
      then show ?thesis using January False unfolding AddMonths_def t Let_def by simp
    qed
  qed
qed

definition month_end :: "int \<Rightarrow> int \<Rightarrow> date" where
  "month_end y m = FromDaysSinceFirst (DaysSinceFirst (FromYmd (if m = 12 then y + 1 else y)
     (nat (if m = 12 then 1 else m + 1)) 1) - 1)"

lemma month_end_ymd:
  assumes "kFirstYear \<le> y" "y \<le> kLastYear" "1 \<le> m" "m \<le> 12" "LastDayOfMonth y m = Some len" "28 \<le> len"
    "\<not> (y = kLastYear \<and> m = 12)"
  shows "month_end y (int m) = FromYmd y m len" "IsRealDate y m len"
proof -
  let ?y = "if int m = 12 then y + 1 else y" and ?m = "nat (if int m = 12 then 1 else int m + 1)"
  show real: "IsRealDate y m len" using assms(3-6) by (simp add: IsRealDate_def)
  have next_real: "IsRealDate ?y ?m 1" "kFirstYear \<le> ?y" "?y \<le> kLastYear"
    using assms(1-4,7) by (auto simp: IsRealDate_iff nat_add_distrib)
  have "DaysFromCivil ?y ?m 1 = DaysFromCivil y m len + 1"
  proof (cases "m = 12")
    case True
    then have "len = 31" using assms(5) LastDayOfMonth_value [OF assms(3,4), of y] by simp
    then show ?thesis using True next_year [of y] by simp
  next
    case False
    then have "m < 12" using assms(4) by simp
    from next_month [OF assms(3) this assms(5)] show ?thesis using False by (simp add: nat_add_distrib)
  qed
  then show "month_end y (int m) = FromYmd y m len"
    using FromYmd_parts(5) [OF next_real] FromYmd_days(1) [OF real assms(1,2)]
    by (simp only: month_end_def) (simp add: algebra_simps)
qed

lemma month_end_last: "month_end kLastYear 12 = Undefined"
proof -
  have "FromYmd (kLastYear + 1) 1 1 = Undefined" by (simp add: FromYmd_def)
  then show ?thesis by (simp add: month_end_def DaysSinceFirst_simps FromDaysSinceFirst_simps)
qed

lemma month_end_parts:
  assumes "kFirstYear \<le> y" "y \<le> kLastYear" "1 \<le> m" "m \<le> 12"
  shows "if y = kLastYear \<and> m = 12 then month_end y m = Undefined
    else YearOf (month_end y m) = y \<and> MonthOf (month_end y m) = m \<and>
      Some (nat (DayOf (month_end y m))) = LastDayOfMonth y (nat m)"
proof -
  have n: "1 \<le> nat m" "nat m \<le> 12" "int (nat m) = m" using assms(3,4) by linarith+
  obtain len where len: "LastDayOfMonth y (nat m) = Some len" "28 \<le> len" using last_day [OF n(1,2)] by blast
  show ?thesis
  proof (cases "y = kLastYear \<and> m = 12")
    case True
    then show ?thesis using month_end_last by simp
  next
    case False
    then have "\<not> (y = kLastYear \<and> nat m = 12)" using n(3) by auto
    note E = month_end_ymd [OF assms(1,2) n(1,2) len this, unfolded n(3)]
    show ?thesis using False FromYmd_parts [OF E(2) assms(1,2)] len(1) n(3) unfolding E(1) by auto
  qed
qed

lemma first_parts:
  assumes "kFirstYear \<le> y" "y \<le> kLastYear" "1 \<le> m" "m \<le> 12"
  shows "YearOf (FromYmd y (nat m) 1) = y" "MonthOf (FromYmd y (nat m) 1) = m" "DayOf (FromYmd y (nat m) 1) = 1"
proof -
  have n: "1 \<le> nat m" "nat m \<le> 12" "int (nat m) = m" using assms(3,4) by linarith+
  have "IsRealDate y (nat m) 1" using n by (simp add: IsRealDate_iff)
  from FromYmd_parts [OF this assms(1,2)] n(3) show "YearOf (FromYmd y (nat m) 1) = y"
    "MonthOf (FromYmd y (nat m) 1) = m" "DayOf (FromYmd y (nat m) 1) = 1" by simp_all
qed

lemma Boundary_month:
  "Boundary d (CHR ''M'') first = (if first then FromYmd (YearOf d) (nat (MonthOf d)) 1 else month_end (YearOf d) (MonthOf d))"
  by (simp add: Boundary_def month_end_def Let_def)

lemma Boundary_quarter:
  "Boundary d (CHR ''Q'') first = (let q = (MonthOf d - 1) sdiv 3 * 3 in
     if first then FromYmd (YearOf d) (nat (q + 1)) 1 else month_end (YearOf d) (q + 3))"
  by (simp add: Boundary_def month_end_def Let_def)

text \<open>The weekday of a day count, and the shift of \<open>Weekday\<close> when it looks forward.\<close>

lemma DayOfWeek_count:
  assumes "0 \<le> i" "i \<le> kLastDayIndex"
  shows "DayOfWeek (FromDaysSinceFirst i) = (i + 3 + kEpoch) mod 7 + 1"
proof -
  have n: "FromDaysSinceFirst i \<noteq> Undefined" using FromDays_defined [OF assms] by (simp add: IsUndefined_iff)
  show ?thesis using Days_eq [OF FromDaysSinceFirst_ok n] DaysSinceFirst_FromDays [OF assms] DayOfWeek_eq [OF n]
    by (simp add: algebra_simps)
qed

lemma DayOfWeek_days:
  assumes "date_ok d" "d \<noteq> Undefined"
  shows "DayOfWeek d = (DaysSinceFirst d + 3 + kEpoch) mod 7 + 1"
  using Days_eq [OF assms] DayOfWeek_eq [OF assms(2)] by (simp add: algebra_simps)

lemma small_smod: "- 7 < i \<Longrightarrow> i < 7 \<Longrightarrow> i smod 7 = (i :: int)"
  by (cases "0 \<le> i") (simp_all add: signed_modulo_int_def sgn_if)

lemma Weekday_shift:
  assumes "d \<noteq> Undefined" "1 \<le> target" "target \<le> 7"
  shows "Weekday d target backwards = FromDaysSinceFirst (DaysSinceFirst d +
    (if target = DayOfWeek d then (if backwards then - 7 else 7) else target - DayOfWeek d))"
proof -
  note r = DayOfWeek_range [OF assms(1)]
  have "(target - DayOfWeek d) smod 7 = target - DayOfWeek d" "(DayOfWeek d - target) smod 7 = DayOfWeek d - target"
    using r assms(2,3) by (auto intro!: small_smod)
  then show ?thesis using assms(2,3) by (simp add: Weekday_def Let_def)
qed

lemma shift_weekday:
  assumes "date_ok d" "d \<noteq> Undefined" "1 \<le> target" "target \<le> 7" "r = FromDaysSinceFirst (DaysSinceFirst d + i)"
    "0 \<le> DaysSinceFirst d + i" "DaysSinceFirst d + i \<le> kLastDayIndex" "7 dvd i - (target - DayOfWeek d)"
  shows "DayOfWeek r = target"
proof -
  from assms(8) obtain k where k: "i - (target - DayOfWeek d) = 7 * k" by (rule dvdE)
  obtain n where n: "n = DaysSinceFirst d + 3 + kEpoch" by blast
  have w: "DayOfWeek d = n mod 7 + 1" unfolding n by (rule DayOfWeek_days [OF assms(1,2)])
  have "DayOfWeek r = (n + i) mod 7 + 1" unfolding assms(5) DayOfWeek_count [OF assms(6,7)] n by (simp add: algebra_simps)
  moreover have "n + i = target - 1 + 7 * (k + n div 7)"
    using k w mult_div_mod_eq [of 7 n] by (simp only: algebra_simps)
  then have "(n + i) mod 7 = (target - 1) mod 7" by (simp only: mod_mult_self2)
  moreover have "(target - 1) mod 7 = target - 1" using assms(3,4) by simp
  ultimately show ?thesis by simp
qed

section \<open>Properties\<close>




text \<open>
  Adding months keeps the day of the month where the target month has it and takes the month's last
  day where it has not; a month outside the years of the range gives the undefined date. Before
  year zero the truncated remainder makes the month zero or negative: a January and a month zero still
  give the undefined date, every other month throws out of range.
\<close>

theorem add_months:
  assumes "date_ok d" "d \<noteq> Undefined" "months = YearOf d * 12 + MonthOf d - 1 + n"
  shows "if months < 0 then AddMonths d n = (if 12 dvd months \<or> 12 dvd months + 1 then Inr Undefined else Inl OutOfRange)
    else case AddMonths d n of Inl _ \<Rightarrow> False
    | Inr r \<Rightarrow> if kFirstYear \<le> months div 12 \<and> months div 12 \<le> kLastYear
        then YearOf r = months div 12 \<and> MonthOf r = months mod 12 + 1 \<and>
          Some (nat (DayOf r)) = map_option (min (nat (DayOf d))) (LastDayOfMonth (months div 12) (nat (months mod 12 + 1)))
        else r = Undefined"
proof (cases "months < 0")
  case True
  then show ?thesis using AddMonths_negative [OF assms True] by simp
next
  case False
  let ?y = "months div 12" and ?m = "nat (months mod 12 + 1)"
  have m: "1 \<le> ?m" "?m \<le> 12" "int ?m = months mod 12 + 1"
    using pos_mod_sign [of 12 months] pos_mod_bound [of 12 months] by linarith+
  obtain len where len: "LastDayOfMonth ?y ?m = Some len" "28 \<le> len" using last_day [OF m(1,2), of ?y] by blast
  have e: "AddMonths d n = Inr (FromYmd ?y ?m (nat (min (DayOf d) (int len))))"
    by (rule AddMonths_nonneg) (use assms False len in simp_all)
  have k: "1 \<le> DayOf d" using date_parts [OF assms(1,2)] by (auto simp: has_parts_def)
  show ?thesis
  proof (cases "kFirstYear \<le> ?y \<and> ?y \<le> kLastYear")
    case True
    have "IsRealDate ?y ?m (nat (min (DayOf d) (int len)))"
      using m(1,2) k len unfolding IsRealDate_def len(1) by (simp add: min_def le_nat_iff nat_le_iff)
    note P = FromYmd_parts [OF this conjunct1 [OF True] conjunct2 [OF True]]
    have "nat (int (nat (min (DayOf d) (int len)))) = min (nat (DayOf d)) len" using k by (simp add: min_def nat_le_iff)
    then show ?thesis using True False m(3) P(1-3) unfolding e len(1) by simp
  next
    case False
    then have "FromYmd ?y ?m (nat (min (DayOf d) (int len))) = Undefined" by (auto simp: FromYmd_def)
    then show ?thesis using False \<open>\<not> months < 0\<close> unfolding e by auto
  qed
qed

lemma add_months_witness:
  "case AddMonths (FromYmd 2024 1 31) 1 of Inl _ \<Rightarrow> False | Inr r \<Rightarrow> MonthOf r = 2 \<and> DayOf r = 29"
proof -
  have real: "IsRealDate 2024 1 31" "kFirstYear \<le> 2024" "2024 \<le> kLastYear"
    by (simp_all add: IsRealDate_iff kFirstYear_def kLastYear_def)
  note P = FromYmd_parts [OF real]
  have leap: "LastDayOfMonth 2024 2 = Some 29" by (simp add: LastDayOfMonth_def IsLeapYear_iff)
  have "0 \<le> DayOf r" for r by (simp add: DayOf_def)
  then show ?thesis
    using add_months [OF FromYmd_ok P(4), of "2024 * 12 + 1" 1] P(1-3) real(2,3)
    by (auto simp: leap split: sum.splits)
qed

text \<open>
  C37: The ends of the month and of the quarter of a defined date: the first day and the last day of
  them, except that the end of the range's last month and last quarter is the undefined date, because
  the code steps back from the first of the next month, which is out of the range.
\<close>

theorem period_boundaries:
  assumes "date_ok d" "d \<noteq> Undefined" "q = (MonthOf d - 1) div 3 * 3"
  shows "YearOf (Boundary d (CHR ''M'') True) = YearOf d \<and> MonthOf (Boundary d (CHR ''M'') True) = MonthOf d \<and>
    DayOf (Boundary d (CHR ''M'') True) = 1 \<and>
    (if YearOf d = kLastYear \<and> MonthOf d = 12 then Boundary d (CHR ''M'') False = Undefined
     else YearOf (Boundary d (CHR ''M'') False) = YearOf d \<and> MonthOf (Boundary d (CHR ''M'') False) = MonthOf d \<and>
       Some (nat (DayOf (Boundary d (CHR ''M'') False))) = LastDayOfMonth (YearOf d) (nat (MonthOf d))) \<and>
    YearOf (Boundary d (CHR ''Q'') True) = YearOf d \<and> MonthOf (Boundary d (CHR ''Q'') True) = q + 1 \<and>
    DayOf (Boundary d (CHR ''Q'') True) = 1 \<and>
    (if YearOf d = kLastYear \<and> q = 9 then Boundary d (CHR ''Q'') False = Undefined
     else YearOf (Boundary d (CHR ''Q'') False) = YearOf d \<and> MonthOf (Boundary d (CHR ''Q'') False) = q + 3 \<and>
       Some (nat (DayOf (Boundary d (CHR ''Q'') False))) = LastDayOfMonth (YearOf d) (nat (q + 3)))"
proof -
  obtain y m k where p: "has_parts d y m k" using date_parts [OF assms(1,2)] by blast
  then have y: "kFirstYear \<le> YearOf d" "YearOf d \<le> kLastYear" and m: "1 \<le> MonthOf d" "MonthOf d \<le> 12"
    by (simp_all add: has_parts_def)
  have q: "1 \<le> q + 1" "q + 1 \<le> 12" "1 \<le> q + 3" "q + 3 \<le> 12" using m unfolding assms(3) by presburger+
  have s: "(MonthOf d - 1) sdiv 3 * 3 = q" using m(1) by (simp add: assms(3) sdiv_pos)
  have e: "q = 9 \<longleftrightarrow> q + 3 = 12" by simp
  show ?thesis unfolding Boundary_month Boundary_quarter s Let_def if_True if_False simp_thms e
    by (intro conjI first_parts month_end_parts y m q)
qed

lemma period_boundaries_witness:
  "DayOf (Boundary (FromYmd 2024 2 10) (CHR ''M'') True) = 1 \<and> Boundary (FromYmd 9999 12 15) (CHR ''M'') False = Undefined"
proof -
  have a: "IsRealDate 2024 2 10" "kFirstYear \<le> 2024" "2024 \<le> kLastYear"
    and b: "IsRealDate 9999 12 15" "kFirstYear \<le> 9999" "9999 \<le> kLastYear"
    by (simp_all add: IsRealDate_iff kFirstYear_def kLastYear_def)
  have l: "kLastYear = 9999" by (simp add: kLastYear_def)
  show ?thesis
    using period_boundaries [OF FromYmd_ok FromYmd_parts(4) [OF a] refl]
      period_boundaries [OF FromYmd_ok FromYmd_parts(4) [OF b] refl]
      FromYmd_parts(1-3) [OF b] by (simp add: l)
qed

text \<open>
  The weekday term reaches the weekday asked for, at most a week away. But a forward search for a
  weekday that is earlier in the week than the date's own moves to the day before it, and a backward
  search for a later one moves forward: the truncated remainder keeps the sign of the difference.
\<close>

theorem weekday_term:
  assumes "date_ok d" "d \<noteq> Undefined" "1 \<le> target" "target \<le> 7" "7 \<le> DaysSinceFirst d"
    "DaysSinceFirst d + 7 \<le> kLastDayIndex" "r = Weekday d target backwards"
  shows "DayOfWeek r = target \<and> \<bar>DaysSinceFirst r - DaysSinceFirst d\<bar> \<le> 7 \<and>
    (target < DayOfWeek d \<longrightarrow> DaysSinceFirst r < DaysSinceFirst d) \<and>
    (DayOfWeek d < target \<longrightarrow> DaysSinceFirst d < DaysSinceFirst r) \<and>
    (target = DayOfWeek d \<longrightarrow> DaysSinceFirst r = DaysSinceFirst d + (if backwards then - 7 else 7))"
proof -
  let ?i = "if target = DayOfWeek d then (if backwards then - 7 else 7) else target - DayOfWeek d"
  note w = DayOfWeek_range [OF assms(2)]
  have r: "r = FromDaysSinceFirst (DaysSinceFirst d + ?i)" unfolding assms(7) by (rule Weekday_shift [OF assms(2-4)])
  have i: "0 \<le> DaysSinceFirst d + ?i" "DaysSinceFirst d + ?i \<le> kLastDayIndex" "7 dvd ?i - (target - DayOfWeek d)"
    using w assms(3-6) by auto
  have "DaysSinceFirst r = DaysSinceFirst d + ?i" unfolding r by (rule DaysSinceFirst_FromDays [OF i(1,2)])
  then show ?thesis using shift_weekday [OF assms(1-4) r i] w assms(3,4) by auto
qed

lemma weekday_term_witness:
  "DaysSinceFirst (Weekday (FromDaysSinceFirst 9) 1 False) < 9 \<and> DayOfWeek (Weekday (FromDaysSinceFirst 9) 1 False) = 1"
proof -
  let ?d = "FromDaysSinceFirst 9"
  have i: "(0 :: int) \<le> 9" "9 \<le> kLastDayIndex" by (simp_all add: kLastDayIndex_value)
  have d: "?d \<noteq> Undefined" using FromDays_defined [OF i] by (simp add: IsUndefined_iff)
  have c: "DaysSinceFirst ?d = 9" by (rule DaysSinceFirst_FromDays [OF i])
  have w: "DayOfWeek ?d = 3" using DayOfWeek_count [OF i] by (simp add: kEpoch_value)
  show ?thesis
    using weekday_term [OF FromDaysSinceFirst_ok d, of 1 "Weekday ?d 1 False" False] c w
    by (simp add: kLastDayIndex_value)
qed

text \<open>
  Calculating with a formula whose month end leaves the range does not stay undefined: the end of
  the last month and one day is the first date of the range, 1 January 1753.
\<close>

theorem undefined_revives:
  "CalcDate (FormulaOf [FormulaToken PeriodPiece None [] (CHR ''M''), FormulaToken AmountPiece None ''1'' (CHR ''D'')])
     (FromYmd 9999 12 15) = Inr (FromYmd 1753 1 1)"
proof -
  have b: "IsRealDate 9999 12 15" "kFirstYear \<le> 9999" "9999 \<le> kLastYear"
    by (simp_all add: IsRealDate_iff kFirstYear_def kLastYear_def)
  note P = FromYmd_parts [OF b]
  have B: "Boundary (FromYmd 9999 12 15) (CHR ''M'') False = Undefined"
    using month_end_last by (simp add: Boundary_month P kLastYear_def)
  have one: "Counted ''1'' = 1" by (simp add: Counted_def digits_value_def digit_value_def code_def)
  have real: "IsRealDate 1753 1 1" "kFirstYear \<le> 1753" "1753 \<le> kLastYear"
    by (simp_all add: IsRealDate_iff kFirstYear_def kLastYear_def)
  have first: "FromDaysSinceFirst 0 = FromYmd 1753 1 1"
    using FromYmd_days(1) [OF real] by (simp add: kEpoch_def kFirstYear_def)
  have tm: "df_terms (FormulaOf [FormulaToken PeriodPiece None [] (CHR ''M''), FormulaToken AmountPiece None ''1'' (CHR ''D'')]) =
    [\<lparr>tm_kind = PeriodTerm, tm_unit = CHR ''M'', tm_count = 0, tm_negative = False\<rparr>,
     \<lparr>tm_kind = AmountTerm, tm_unit = CHR ''D'', tm_count = 1, tm_negative = False\<rparr>]"
    by (simp add: FormulaOf_def TermOf_def FormulaToken_def one)
  show ?thesis unfolding CalcDate_def tm using P(4) first
    by (simp add: IsUndefined_iff CalcTerm_def B DaysSinceFirst_simps)
qed

end
