(* ===== verification/Filters.thy ===== *)
theory Filters
  imports DecimalText
begin

text \<open>
  AL filter expressions, \<^verbatim>\<open>src/src/rt/Filter.cpp\<close> and \<^verbatim>\<open>src/src/rt/Filter.h\<close>: parsing a filter into a
  disjunction of conjunctions of atoms, deciding whether a value satisfies it, the intervals of
  integers a filter admits, and the single value or bound a filter stands for. Positions in a text are
  the rest of it; \<open>std::int64_t\<close> is the integers, whose signed overflow C++ leaves undefined (the bounds
  at the very ends of the range).
\<close>

section \<open>Fields\<close>

datatype field_type =
    Boolean_type | Option_type | Integer_type | Decimal_type | Date_type | Time_type | Blob_type
  | DateFormula_type | BigInteger_type | Duration_type | Guid_type | DateTime_type | RecordId_type
  | TableFilter_type | Text_type | Code_type | MediaSet_type | Media_type | Enum_type

record enum_value =
  ev_ordinal :: int
  ev_name :: string
  ev_caption :: string

record field_def =
  fd_no :: int
  fd_caption :: string
  fd_type :: field_type
  fd_flowFilter :: bool
  fd_values :: "enum_value list"

section \<open>Expressions\<close>

datatype compare =
    Cmp_Equal | Cmp_NotEqual | Cmp_Less | Cmp_LessOrEqual | Cmp_Greater | Cmp_GreaterEqual | Cmp_Between | Cmp_Like
  | Cmp_NotLike

record atom =
  at_compare :: compare
  at_value :: string
  at_upper :: string
  at_openLower :: bool
  at_openUpper :: bool

type_synonym conjunction = "atom list"
type_synonym expression = "conjunction list"

definition PlainAtom :: "compare \<Rightarrow> string \<Rightarrow> atom" where
  "PlainAtom c v = \<lparr>at_compare = c, at_value = v, at_upper = [], at_openLower = False, at_openUpper = False\<rparr>"

section \<open>Texts\<close>

definition Trim :: "string \<Rightarrow> string" where
  "Trim s = rev (dropWhile is_space (rev (dropWhile is_space s)))"

definition HasWildcard :: "string \<Rightarrow> bool" where
  "HasWildcard s \<longleftrightarrow> CHR ''*'' \<in> set s \<or> CHR ''?'' \<in> set s"

text \<open>The loop of \<open>SplitOutsideQuotes\<close>: \<open>part\<close> is the text from \<open>start\<close> to the position.\<close>

fun SplitLoop :: "char \<Rightarrow> bool \<Rightarrow> nat \<Rightarrow> string \<Rightarrow> string \<Rightarrow> string list" where
  "SplitLoop sep quoted depth part [] = [part]"
| "SplitLoop sep quoted depth part (c # s) =
     (let quoted = (if c = quote_char then \<not> quoted else quoted) in
      if quoted then SplitLoop sep quoted depth (part @ [c]) s
      else let depth = (if c = CHR ''('' then depth + 1 else depth);
               depth = (if c = CHR '')'' \<and> 0 < depth then depth - 1 else depth) in
        if depth = 0 \<and> c = sep then part # SplitLoop sep quoted depth [] s
        else SplitLoop sep quoted depth (part @ [c]) s)"

definition SplitOutsideQuotes :: "string \<Rightarrow> char \<Rightarrow> string list" where
  "SplitOutsideQuotes s sep = SplitLoop sep False 0 [] s"

fun GroupLoop :: "bool \<Rightarrow> int \<Rightarrow> string \<Rightarrow> bool" where
  "GroupLoop quoted depth [] = True"
| "GroupLoop quoted depth (c # s) =
     (let quoted = (if c = quote_char then \<not> quoted else quoted) in
      if quoted then GroupLoop quoted depth s
      else let depth = (if c = CHR ''('' then depth + 1 else depth) in
        if c = CHR '')'' then (if depth - 1 = 0 \<and> s \<noteq> [] then False else GroupLoop quoted (depth - 1) s)
        else GroupLoop quoted depth s)"

definition Grouped :: "string \<Rightarrow> string option" where
  "Grouped text =
     (let s = Trim text in
      if length s < 2 \<or> hd s \<noteq> CHR ''('' \<or> last s \<noteq> CHR '')'' then None
      else if GroupLoop False 0 s then Some (butlast (tl s)) else None)"

definition Both :: "expression \<Rightarrow> expression \<Rightarrow> expression" where
  "Both left right =
     (if left = [] then right else if right = [] then left
      else concat (map (\<lambda>a. map (\<lambda>b. a @ b) right) left))"

definition Unquote :: "string \<Rightarrow> string" where
  "Unquote text =
     (let s = Trim text in
      if 2 \<le> length s \<and> hd s = quote_char \<and> last s = quote_char then butlast (tl s) else s)"

definition kOperators :: "(string \<times> compare) list" where
  "kOperators = [(''<>'', Cmp_NotEqual), (''>='', Cmp_GreaterEqual), (''<='', Cmp_LessOrEqual), (''<'', Cmp_Less),
     (''>'', Cmp_Greater), (''='', Cmp_Equal)]"

definition TakeOperator :: "string \<Rightarrow> compare \<times> string" where
  "TakeOperator text =
     (let s = Trim text in
      case List.find (\<lambda>(spelling, _). starts_with s spelling) kOperators of
        Some (spelling, compare) \<Rightarrow> (compare, Trim (drop (length spelling) s))
      | None \<Rightarrow> (Cmp_Equal, s))"

definition ReadFilterAtom :: "string \<Rightarrow> atom" where
  "ReadFilterAtom text =
     (let s = Trim text;
          s = (if starts_with s ''@'' then tl s else s);
          given = fst (TakeOperator s);
          s = snd (TakeOperator s) in
      case (if given = Cmp_Equal then find_text s ''..'' 0 else None) of
        Some dots \<Rightarrow>
          \<lparr>at_compare = Cmp_Between, at_value = Unquote (take dots s), at_upper = Unquote (drop (dots + 2) s),
           at_openLower = (Trim (take dots s) = []), at_openUpper = (Trim (drop (dots + 2) s) = [])\<rparr>
      | None \<Rightarrow>
          (let value = Unquote s;
               insensitive = starts_with value ''@'';
               value = (if insensitive then tl value else value);
               wild = (HasWildcard value \<and> (insensitive \<or> hd (Trim s) \<noteq> quote_char)) in
           PlainAtom (if given = Cmp_Equal then (if wild then Cmp_Like else Cmp_Equal)
                 else if given = Cmp_NotEqual then (if wild then Cmp_NotLike else Cmp_NotEqual)
                 else given) value))"

section \<open>Comparing values\<close>

definition SameText :: "string \<Rightarrow> string \<Rightarrow> bool" where
  "SameText a b \<longleftrightarrow> map to_lower a = map to_lower b"

text \<open>
  The loop of \<open>WildcardMatch\<close>: the rest of the pattern and of the value, and what \<open>star\<close> and \<open>mark\<close> name
  once a star was met: the pattern behind it and the rest of the value the star ends at.
\<close>

function WildcardLoop :: "string \<Rightarrow> string \<Rightarrow> (string \<times> string) option \<Rightarrow> bool" where
  "WildcardLoop p v star =
     (if v = [] then dropWhile (\<lambda>c. c = CHR ''*'') p = []
      else if p \<noteq> [] \<and> (hd p = CHR ''?'' \<or> to_lower (hd p) = to_lower (hd v)) then WildcardLoop (tl p) (tl v) star
      else if p \<noteq> [] \<and> hd p = CHR ''*'' then WildcardLoop (tl p) v (Some (tl p, v))
      else case star of
        Some (behind, mark) \<Rightarrow> WildcardLoop behind (tl mark) (Some (behind, tl mark))
      | None \<Rightarrow> False)"
  by pat_completeness auto
termination
  by (relation "measures [\<lambda>(p, v, star). max (length v) (case star of Some (_, m) \<Rightarrow> length m | None \<Rightarrow> 0),
      \<lambda>(p, v, star). length p]")
    (auto simp: max_def length_greater_0_conv [symmetric] simp del: length_greater_0_conv split: option.splits)

declare WildcardLoop.simps [simp del]

definition WildcardMatch :: "string \<Rightarrow> string \<Rightarrow> bool" where
  "WildcardMatch pattern value = WildcardLoop pattern value None"

definition Order :: "string \<Rightarrow> string \<Rightarrow> field_def \<Rightarrow> ordering" where
  "Order value against def =
     (if fd_type def \<in> {Integer_type, BigInteger_type, Option_type, Enum_type} then
        (case (stoll value, stoll against) of
           (Some left, Some right) \<Rightarrow> spaceship left right
         | _ \<Rightarrow> text_order value against)
      else if fd_type def = Decimal_type then
        (case (FromInvariantString value, FromInvariantString against) of
           (Inr left, Inr right) \<Rightarrow>
             (case CompareDecimal left right of Inr c \<Rightarrow> c | Inl _ \<Rightarrow> text_order value against)
         | _ \<Rightarrow> text_order value against)
      else text_order value against)"

definition Numeric :: "field_def \<Rightarrow> bool" where
  "Numeric def \<longleftrightarrow> fd_type def \<in> {Integer_type, BigInteger_type, Option_type, Enum_type, Decimal_type}"

definition MemberOrdinal :: "field_def \<Rightarrow> string \<Rightarrow> string" where
  "MemberOrdinal def text =
     (if list_all (\<lambda>c. c = CHR '' '') text then
        (case List.find (\<lambda>v. list_all (\<lambda>c. c = CHR '' '') (ev_name v)) (fd_values def) of
           Some v \<Rightarrow> int_text (ev_ordinal v) | None \<Rightarrow> ''0'')
      else if list_all (\<lambda>c. c \<in> set ''-0123456789'') text then text
      else let s = (if 2 \<le> length text \<and> hd text = double_quote_char \<and> last text = double_quote_char
                    then butlast (tl text) else text) in
        case List.find (\<lambda>v. SameText (ev_name v) s \<or> SameText (ev_caption v) s) (fd_values def) of
          Some v \<Rightarrow> int_text (ev_ordinal v) | None \<Rightarrow> s)"

definition Canonical :: "string \<Rightarrow> field_def \<Rightarrow> string" where
  "Canonical text def =
     (if fd_type def = Option_type \<or> fd_type def = Enum_type then MemberOrdinal def text
      else if fd_type def = Boolean_type then
        (let s = Trim text in if SameText s ''yes'' \<or> SameText s ''true'' \<or> s = ''1'' then ''1'' else ''0'')
      else text)"

definition SameValue :: "string \<Rightarrow> string \<Rightarrow> field_def \<Rightarrow> bool" where
  "SameValue value against def =
     (if Numeric def then Order value against def = Ord_equal else SameText value against)"

definition SatisfiesCanonical :: "atom \<Rightarrow> string \<Rightarrow> field_def \<Rightarrow> bool" where
  "SatisfiesCanonical a value def =
     (case at_compare a of
        Cmp_Equal \<Rightarrow> SameValue value (at_value a) def
      | Cmp_NotEqual \<Rightarrow> \<not> SameValue value (at_value a) def
      | Cmp_Like \<Rightarrow> WildcardMatch (at_value a) value
      | Cmp_NotLike \<Rightarrow> \<not> WildcardMatch (at_value a) value
      | Cmp_Less \<Rightarrow> Order value (at_value a) def = Ord_less
      | Cmp_LessOrEqual \<Rightarrow> Order value (at_value a) def \<noteq> Ord_greater
      | Cmp_Greater \<Rightarrow> Order value (at_value a) def = Ord_greater
      | Cmp_GreaterEqual \<Rightarrow> Order value (at_value a) def \<noteq> Ord_less
      | Cmp_Between \<Rightarrow>
          (at_openLower a \<or> Order value (at_value a) def \<noteq> Ord_less) \<and>
          (at_openUpper a \<or> Order value (at_upper a) def \<noteq> Ord_greater))"

definition Satisfies :: "atom \<Rightarrow> string \<Rightarrow> field_def \<Rightarrow> bool" where
  "Satisfies a value def =
     (let byName = (fd_type def = Option_type \<or> fd_type def = Enum_type \<or> fd_type def = Boolean_type) in
      if \<not> byName \<or> at_compare a = Cmp_Like \<or> at_compare a = Cmp_NotLike then SatisfiesCanonical a value def
      else SatisfiesCanonical
        (a\<lparr>at_value := Canonical (at_value a) def, at_upper := Canonical (at_upper a) def\<rparr>) (Canonical value def) def)"

section \<open>Parsing\<close>

lemma Trim_length: "length (Trim s) \<le> length s"
  unfolding Trim_def length_rev using length_dropWhile_le [of is_space] by (metis length_rev order.trans)

lemma Grouped_shorter: "Grouped s = Some t \<Longrightarrow> length t < length s"
  using Trim_length [of s] by (auto simp: Grouped_def Let_def split: if_splits)

lemma SplitLoop_length: "x \<in> set (SplitLoop sep q d part s) \<Longrightarrow> length x \<le> length part + length s"
proof (induction s arbitrary: q d part)
  case (Cons c s)
  have IH: "length x \<le> Suc (length part + length s)" if "x \<in> set (SplitLoop sep q d (part @ [c']) s)" for q d c'
    using Cons.IH [OF that] by simp
  have IH0: "length x \<le> Suc (length part + length s)" if "x \<in> set (SplitLoop sp q d [] s)" "sp = sep" for q d sp
    using Cons.IH [of q d "[]"] that by simp
  show ?case using Cons.prems
    by (auto simp: Let_def split: if_splits dest: IH IH0)
qed simp

lemma SplitOutsideQuotes_length: "x \<in> set (SplitOutsideQuotes s sep) \<Longrightarrow> length x \<le> length s"
  unfolding SplitOutsideQuotes_def using SplitLoop_length [of x sep False 0 "[]" s] by simp

function ParseFilter :: "string \<Rightarrow> expression" where
  "ParseFilter text =
     (if Trim text = [] then []
      else concat (map (\<lambda>alternative.
        foldl Both [[]] (map (\<lambda>part.
            if Trim part = [] then [[PlainAtom Cmp_Equal []]]
            else case Grouped part of Some inner \<Rightarrow> ParseFilter inner | None \<Rightarrow> [[ReadFilterAtom part]])
          (SplitOutsideQuotes alternative (CHR ''&''))))
        (SplitOutsideQuotes text (CHR ''|''))))"
  by pat_completeness auto
termination
  by (relation "measure length")
    (auto dest!: SplitOutsideQuotes_length Grouped_shorter)

declare ParseFilter.simps [simp del]

definition Matches :: "expression \<Rightarrow> string \<Rightarrow> field_def \<Rightarrow> bool" where
  "Matches e value def \<longleftrightarrow> e = [] \<or> list_ex (list_all (\<lambda>a. Satisfies a value def)) e"

section \<open>Intervals of integers\<close>

record interval =
  iv_low :: int
  iv_high :: int

definition Interval :: "int \<Rightarrow> int \<Rightarrow> interval" where
  "Interval l h = \<lparr>iv_low = l, iv_high = h\<rparr>"

definition AsInteger :: "string \<Rightarrow> int option" where
  "AsInteger s = from_chars (if s \<noteq> [] \<and> hd s = CHR ''+'' then tl s else s)"

text \<open>The merged intervals are kept last first.\<close>

definition MergeStep :: "interval list \<Rightarrow> interval \<Rightarrow> interval list" where
  "MergeStep merged next =
     (case merged of
        back # before \<Rightarrow>
          if iv_low next \<le> iv_high back + 1
          then back\<lparr>iv_high := max (iv_high back) (iv_high next)\<rparr> # before
          else next # merged
      | [] \<Rightarrow> [next])"

definition Normalised :: "interval list \<Rightarrow> interval list" where
  "Normalised intervals =
     rev (foldl MergeStep [] (sort_key iv_low (filter (\<lambda>i. \<not> iv_low i > iv_high i) intervals)))"

fun Intersected :: "interval list \<Rightarrow> interval list \<Rightarrow> interval list" where
  "Intersected (l # ls) (r # rs) =
     (let low = max (iv_low l) (iv_low r); high = min (iv_high l) (iv_high r);
          more = (if iv_high l < iv_high r then Intersected ls (r # rs) else Intersected (l # ls) rs) in
      if low \<le> high then Interval low high # more else more)"
| "Intersected _ _ = []"

definition Admitted :: "atom \<Rightarrow> interval \<Rightarrow> interval list option" where
  "Admitted a domain =
     (let bound = AsInteger (at_value a); upper = AsInteger (at_upper a) in
      case at_compare a of
        Cmp_Like \<Rightarrow> None
      | Cmp_NotLike \<Rightarrow> None
      | Cmp_Equal \<Rightarrow> map_option (\<lambda>b. [Interval b b]) bound
      | Cmp_NotEqual \<Rightarrow>
          map_option (\<lambda>b. Normalised [Interval (iv_low domain) (b - 1), Interval (b + 1) (iv_high domain)]) bound
      | Cmp_Less \<Rightarrow> map_option (\<lambda>b. Normalised [Interval (iv_low domain) (b - 1)]) bound
      | Cmp_LessOrEqual \<Rightarrow> map_option (\<lambda>b. Normalised [Interval (iv_low domain) b]) bound
      | Cmp_Greater \<Rightarrow> map_option (\<lambda>b. Normalised [Interval (b + 1) (iv_high domain)]) bound
      | Cmp_GreaterEqual \<Rightarrow> map_option (\<lambda>b. Normalised [Interval b (iv_high domain)]) bound
      | Cmp_Between \<Rightarrow>
          if \<not> at_openLower a \<and> bound = None \<or> \<not> at_openUpper a \<and> upper = None then None
          else Some (Normalised
            [Interval (if at_openLower a then iv_low domain else the bound)
               (if at_openUpper a then iv_high domain else the upper)]))"

fun Narrowed :: "interval \<Rightarrow> conjunction \<Rightarrow> interval list \<Rightarrow> interval list option" where
  "Narrowed domain [] narrowed = Some narrowed"
| "Narrowed domain (a # as) narrowed =
     (case Admitted a domain of
        None \<Rightarrow> None
      | Some one \<Rightarrow> Narrowed domain as (Intersected narrowed one))"

fun AdmittedLoop :: "interval \<Rightarrow> expression \<Rightarrow> interval list \<Rightarrow> interval list option" where
  "AdmittedLoop domain [] admitted = Some admitted"
| "AdmittedLoop domain (c # cs) admitted =
     (case Narrowed domain c [Interval (iv_low domain) (iv_high domain)] of
        None \<Rightarrow> None
      | Some narrowed \<Rightarrow> AdmittedLoop domain cs (admitted @ narrowed))"

definition IntegerIntervals :: "expression \<Rightarrow> interval \<Rightarrow> interval list option" where
  "IntegerIntervals e domain =
     (if e = [] then Some [Interval (iv_low domain) (iv_high domain)]
      else map_option Normalised (AdmittedLoop domain e []))"

definition CountOf :: "interval list \<Rightarrow> int" where
  "CountOf intervals = foldl (\<lambda>count one. count + (iv_high one - iv_low one + 1)) 0 intervals"

section \<open>The bound and the value of a filter\<close>

record field_filter =
  ff_field :: int
  ff_group :: int
  ff_text :: string

record record_filters =
  rs_filters :: "field_filter list"
  rs_group :: int

definition RangeBoundOf :: "string \<Rightarrow> bool \<Rightarrow> string + string" where
  "RangeBoundOf filter_text upper =
     (let e = ParseFilter filter_text;
          refuse = Inl (''The filter '' @ filter_text @ '' is not a range'') in
      if e = [] then Inr []
      else if length e \<noteq> 1 \<or> length (hd e) \<noteq> 1 then refuse
      else let a = hd (hd e) in
        case at_compare a of
          Cmp_Equal \<Rightarrow> Inr (at_value a)
        | Cmp_Between \<Rightarrow>
            Inr (if upper then (if at_openUpper a then [] else at_upper a)
                 else (if at_openLower a then [] else at_value a))
        | Cmp_Less \<Rightarrow> Inr (if upper then at_value a else [])
        | Cmp_LessOrEqual \<Rightarrow> Inr (if upper then at_value a else [])
        | Cmp_Greater \<Rightarrow> Inr (if upper then [] else at_value a)
        | Cmp_GreaterEqual \<Rightarrow> Inr (if upper then [] else at_value a)
        | _ \<Rightarrow> refuse)"

definition RangeBoundText :: "record_filters option \<Rightarrow> int \<Rightarrow> bool \<Rightarrow> string + string" where
  "RangeBoundText state no upper =
     (let text = (case state of
            None \<Rightarrow> []
          | Some st \<Rightarrow>
              (let own = foldl (\<lambda>t one. if ff_field one = no \<and> ff_group one = rs_group st then ff_text one else t) []
                 (rs_filters st) in
               if own = []
               then foldl (\<lambda>t one. if ff_field one = no \<and> ff_text one \<noteq> [] then ff_text one else t) own (rs_filters st)
               else own)) in
      if text = [] then Inl (''There is no filter on field '' @ int_text no)
      else RangeBoundOf text upper)"

fun SingleLoop :: "int \<Rightarrow> string option \<Rightarrow> field_filter list \<Rightarrow> string option" where
  "SingleLoop no value [] = value"
| "SingleLoop no value (one # rest) =
     (if ff_field one \<noteq> no \<or> ff_text one = [] then SingleLoop no value rest
      else let e = ParseFilter (ff_text one) in
        if length e \<noteq> 1 \<or> length (hd e) \<noteq> 1 then None
        else let a = hd (hd e) in
          if at_compare a \<noteq> Cmp_Equal \<or> HasWildcard (at_value a) then None
          else if value \<noteq> None \<and> the value \<noteq> at_value a then None
          else SingleLoop no (Some (at_value a)) rest)"

definition SingleFilterValue :: "record_filters option \<Rightarrow> int \<Rightarrow> string option" where
  "SingleFilterValue state no =
     (case state of None \<Rightarrow> None | Some st \<Rightarrow> SingleLoop no None (rs_filters st))"

text \<open>
  \<open>SeedFromFilters\<close> as the calls of \<open>EvaluateInto\<close> it makes on the record: each field with its value.
\<close>

definition SeedFromFilters :: "record_filters option \<Rightarrow> int list list \<Rightarrow> field_def list \<Rightarrow> bool \<Rightarrow> (int \<times> string) list" where
  "SeedFromFilters state keys all_fields populateAllFields =
     (let key = (if keys = [] then [] else hd keys) in
      concat (map (\<lambda>field.
        if fd_no field \<notin> set key \<and> \<not> populateAllFields then []
        else case SingleFilterValue state (fd_no field) of
          Some value \<Rightarrow> [(fd_no field, value)] | None \<Rightarrow> []) all_fields))"

end
