(* ===== verification/FilterFacts.thy ===== *)
theory FilterFacts
  imports Filters
begin

text \<open>
  What holds of \<^verbatim>\<open>src/src/rt/Filter.cpp\<close>: the wildcard match is the declarative one, the connectives of a
  filter are those of logic, and the intervals of integers are sorted, apart and exactly the values the
  filter matches.
\<close>

section \<open>Wildcards\<close>

fun glob :: "string \<Rightarrow> string \<Rightarrow> bool" where
  "glob [] v \<longleftrightarrow> v = []"
| "glob (c # p) v \<longleftrightarrow>
     (if c = CHR ''*'' then \<exists>k \<le> length v. glob p (drop k v)
      else v \<noteq> [] \<and> (c = CHR ''?'' \<or> to_lower c = to_lower (hd v)) \<and> glob p (tl v))"

lemma glob_star_suffix: "glob (CHR ''*'' # p) (drop j v) \<Longrightarrow> glob (CHR ''*'' # p) v"
proof -
  assume "glob (CHR ''*'' # p) (drop j v)"
  then obtain k where "k \<le> length (drop j v)" "glob p (drop (k + j) v)" by (auto simp: add.commute)
  then show ?thesis by (cases "k + j \<le> length v") (auto intro: exI [of _ "k + j"] exI [of _ "length v"])
qed

lemma glob_stars: "glob p [] \<longleftrightarrow> dropWhile (\<lambda>c. c = CHR ''*'') p = []"
  by (induction p) auto

lemma glob_prefix:
  "CHR ''*'' \<notin> set x \<Longrightarrow> glob (x @ p) v \<Longrightarrow> length x \<le> length v \<and> glob p (drop (length x) v)"
proof (induction x arbitrary: v)
  case (Cons c x)
  then obtain d w where v: "v = d # w" by (cases v) auto
  then have "glob (x @ p) w" using Cons.prems by (auto split: if_splits)
  with Cons.IH [of w] Cons.prems(1) show ?case by (simp add: v)
qed simp

text \<open>What the loop has gone through since the star: as many characters of the pattern, none a star.\<close>

definition star_ok :: "string \<Rightarrow> string \<Rightarrow> (string \<times> string) option \<Rightarrow> bool" where
  "star_ok p v star \<longleftrightarrow>
     (case star of None \<Rightarrow> True
      | Some (behind, mark) \<Rightarrow>
          \<exists>x y. behind = x @ p \<and> mark = y @ v \<and> length x = length y \<and> CHR ''*'' \<notin> set x)"

definition later :: "(string \<times> string) option \<Rightarrow> bool" where
  "later star \<longleftrightarrow>
     (case star of None \<Rightarrow> False
      | Some (behind, mark) \<Rightarrow> \<exists>k. 1 \<le> k \<and> k \<le> length mark \<and> glob behind (drop k mark))"

lemma later_matches:
  assumes "star_ok p v star" "later star"
  obtains k where "1 \<le> k" "k \<le> length v" "glob p (drop k v)"
proof -
  from assms(2) obtain behind mark k where star: "star = Some (behind, mark)"
    and k: "1 \<le> k" "k \<le> length mark" "glob behind (drop k mark)"
    by (auto simp: later_def split: option.splits)
  from assms(1) star obtain x y where xy: "behind = x @ p" "mark = y @ v" "length x = length y" "CHR ''*'' \<notin> set x"
    by (auto simp: star_ok_def)
  have "length x \<le> length (drop k mark) \<and> glob p (drop (length x) (drop k mark))"
    by (rule glob_prefix [OF xy(4)]) (use k(3) xy(1) in simp)
  then have g: "length x \<le> length (drop k mark)" "glob p (drop (length x) (drop k mark))" by blast+
  have e: "drop (length x) (drop k mark) = drop k v"
  proof -
    have "drop (length x) (drop k mark) = drop k (drop (length y) (y @ v))"
      unfolding drop_drop xy(2,3) by (simp add: add.commute)
    then show ?thesis by simp
  qed
  have "k \<le> length v" using g(1) k(2) xy(2,3) by simp
  with k(1) g(2) e that show ?thesis by simp
qed

lemma later_advance:
  assumes "mark \<noteq> []"
  shows "later (Some (behind, mark)) \<longleftrightarrow> glob behind (tl mark) \<or> later (Some (behind, tl mark))"
proof -
  obtain c m where m: "mark = c # m" using assms by (cases mark) auto
  have "later (Some (behind, mark)) \<longleftrightarrow> (\<exists>j \<le> length m. glob behind (drop j m))"
  proof
    assume "later (Some (behind, mark))"
    then obtain k where k: "1 \<le> k" "k \<le> length mark" "glob behind (drop k mark)" by (auto simp: later_def)
    then show "\<exists>j \<le> length m. glob behind (drop j m)" by (intro exI [of _ "k - 1"]) (cases k; simp add: m)
  next
    assume "\<exists>j \<le> length m. glob behind (drop j m)"
    then obtain j where "j \<le> length m" "glob behind (drop j m)" by blast
    then show "later (Some (behind, mark))" unfolding later_def by (auto simp: m intro!: exI [of _ "Suc j"])
  qed
  also have "\<dots> \<longleftrightarrow> glob behind m \<or> later (Some (behind, m))"
  proof
    assume "\<exists>j \<le> length m. glob behind (drop j m)"
    then obtain j where "j \<le> length m" "glob behind (drop j m)" by blast
    then show "glob behind m \<or> later (Some (behind, m))" by (cases j) (auto simp: later_def)
  next
    assume "glob behind m \<or> later (Some (behind, m))"
    then show "\<exists>j \<le> length m. glob behind (drop j m)" by (auto simp: later_def intro: exI [of _ 0])
  qed
  finally show ?thesis by (simp add: m)
qed

lemma to_lower_star: "to_lower (CHR ''*'') = to_lower d \<Longrightarrow> d = CHR ''*''"
proof -
  assume e: "to_lower (CHR ''*'') = to_lower d"
  have "code (to_lower (CHR ''*'')) = 42" by (simp add: to_lower_def is_upper_def code_def)
  then have "code (to_lower d) = 42" using e by simp
  then have "code d = 42" unfolding code_to_lower by (auto simp: is_upper_def split: if_splits)
  then have "code d = code (CHR ''*'')" by (simp add: code_def)
  then show ?thesis by (simp only: code_inject)
qed

lemma star_ok_step:
  assumes "star_ok (c # q) (d # w) star" "c \<noteq> CHR ''*''"
  shows "star_ok q w star"
proof (cases star)
  case (Some bm)
  obtain behind mark where bm: "bm = (behind, mark)" by (cases bm) blast
  from assms(1) obtain x y where xy: "behind = x @ c # q" "mark = y @ d # w" "length x = length y" "CHR ''*'' \<notin> set x"
    by (auto simp: star_ok_def Some bm)
  then show ?thesis using assms(2) unfolding star_ok_def Some bm
    by (auto intro!: exI [of _ "x @ [c]"] exI [of _ "y @ [d]"])
qed (simp add: star_ok_def)

lemma WildcardLoop_glob:
  "CHR ''*'' \<notin> set v \<Longrightarrow> (case star of None \<Rightarrow> True | Some (_, m) \<Rightarrow> CHR ''*'' \<notin> set m) \<Longrightarrow> star_ok p v star \<Longrightarrow>
    WildcardLoop p v star \<longleftrightarrow> glob p v \<or> later star"
proof (induction p v star rule: WildcardLoop.induct)
  case (1 p v star)
  show ?case
  proof (cases "v = []")
    case True
    have "\<not> later star"
      using later_matches [OF "1.prems"(3)] True by fastforce
    then show ?thesis using True by (simp add: WildcardLoop.simps glob_stars)
  next
    case v: False
    then obtain d w where vd: "v = d # w" by (cases v) auto
    show ?thesis
    proof (cases "p \<noteq> [] \<and> (hd p = CHR ''?'' \<or> to_lower (hd p) = to_lower (hd v))")
      case True
      then obtain c q where pc: "p = c # q" by (cases p) auto
      have "c \<noteq> CHR ''*''"
      proof
        assume c: "c = CHR ''*''"
        then have "to_lower (CHR ''*'') = to_lower d" using True pc vd by simp
        then have "d = CHR ''*''" by (rule to_lower_star)
        then show False using "1.prems"(1) vd by simp
      qed
      then have g: "glob p v \<longleftrightarrow> glob q w" using True pc vd by simp
      have ok: "star_ok q w star"
        using "1.prems"(3) \<open>c \<noteq> CHR ''*''\<close> unfolding pc vd by (rule star_ok_step)
      show ?thesis
        using "1.IH"(1) [OF v True] "1.prems"(1,2) ok True v \<open>c \<noteq> CHR ''*''\<close> by (subst WildcardLoop.simps) (simp add: pc vd g)
    next
      case lit: False
      show ?thesis
      proof (cases "p \<noteq> [] \<and> hd p = CHR ''*''")
        case True
        then obtain q where p: "p = CHR ''*'' # q" by (cases p) auto
        have "WildcardLoop p v star = WildcardLoop q v (Some (q, v))"
          using lit True v by (subst WildcardLoop.simps) (simp add: p)
        also have "\<dots> \<longleftrightarrow> glob q v \<or> later (Some (q, v))"
          using "1.IH"(2) [OF v lit True] "1.prems"(1) p by (simp add: star_ok_def)
        also have "\<dots> \<longleftrightarrow> glob p v"
          unfolding p later_def by (auto simp: Suc_le_eq) (metis drop0 gr0I)
        also have "\<dots> \<longleftrightarrow> glob p v \<or> later star"
        proof -
          have "glob p v" if l: "later star"
          proof -
            from later_matches [OF "1.prems"(3) l] obtain k where "glob p (drop k v)" by blast
            then show ?thesis unfolding p by (rule glob_star_suffix)
          qed
          then show ?thesis by blast
        qed
        finally show ?thesis .
      next
        case False
        have g: "\<not> glob p v" using lit False v by (cases p) auto
        show ?thesis
        proof (cases star)
          case None
          then show ?thesis using lit False v g by (subst WildcardLoop.simps) (auto simp: later_def)
        next
          case (Some bm)
          obtain behind mark where bm: "bm = (behind, mark)" by (cases bm) blast
          have m: "mark \<noteq> []" using "1.prems"(3) v by (auto simp: Some bm star_ok_def)
          have w: "WildcardLoop p v star = WildcardLoop behind (tl mark) (Some (behind, tl mark))"
            using lit False v by (subst WildcardLoop.simps) (auto simp: Some bm)
          have "CHR ''*'' \<notin> set (tl mark)" using "1.prems"(2) Some bm m by (cases mark) auto
          then have "WildcardLoop behind (tl mark) (Some (behind, tl mark)) \<longleftrightarrow>
              glob behind (tl mark) \<or> later (Some (behind, tl mark))"
            using "1.IH"(3) [OF v lit False Some bm [symmetric]] by (simp add: star_ok_def)
          then show ?thesis using w later_advance [OF m] g by (simp add: Some bm)
        qed
      qed
    qed
  qed
qed

section \<open>Intervals\<close>

definition inside :: "int \<Rightarrow> interval \<Rightarrow> bool" where
  "inside x i \<longleftrightarrow> iv_low i \<le> x \<and> x \<le> iv_high i"

definition covers :: "interval list \<Rightarrow> int \<Rightarrow> bool" where
  "covers ivs x \<longleftrightarrow> list_ex (inside x) ivs"



lemma covers_simps [simp]:
  "\<not> covers [] x" "covers (i # ivs) x \<longleftrightarrow> inside x i \<or> covers ivs x" "covers (a @ b) x \<longleftrightarrow> covers a x \<or> covers b x"
  by (simp_all add: covers_def)

lemma covers_iff: "covers ivs x \<longleftrightarrow> (\<exists>i \<in> set ivs. inside x i)"
  by (auto simp: covers_def list_ex_iff)

lemma inside_Interval [simp]: "inside x (Interval l h) \<longleftrightarrow> l \<le> x \<and> x \<le> h"
  by (simp add: inside_def Interval_def)

lemma Interval_sel [simp]: "iv_low (Interval l h) = l" "iv_high (Interval l h) = h"
  by (simp_all add: Interval_def)





lemma covers_rev [simp]: "covers (rev ivs) x \<longleftrightarrow> covers ivs x"
  by (simp add: covers_iff)








section \<open>Integers as texts\<close>









section \<open>The values an expression admits\<close>










section \<open>The connectives\<close>

text \<open>The state of the scan that looks for separators, and texts that leave it as they found it.\<close>

fun scan :: "bool \<Rightarrow> nat \<Rightarrow> string \<Rightarrow> bool \<times> nat" where
  "scan quoted depth [] = (quoted, depth)"
| "scan quoted depth (c # s) =
     (let quoted = (if c = quote_char then \<not> quoted else quoted) in
      if quoted then scan quoted depth s
      else let depth = (if c = CHR ''('' then depth + 1 else depth) in
        scan quoted (if c = CHR '')'' \<and> 0 < depth then depth - 1 else depth) s)"

definition closed_text :: "string \<Rightarrow> bool" where
  "closed_text s \<longleftrightarrow> scan False 0 s = (False, 0)"

lemma SplitLoop_nonempty: "SplitLoop sep q d part s \<noteq> []"
  by (induction s arbitrary: q d part) (simp_all add: Let_def)

lemma scan_step: "scan q d (c # s) = (case scan q d [c] of (q', d') \<Rightarrow> scan q' d' s)"
  by (simp add: Let_def)

lemma split_step:
  "SplitLoop sep q d part (c # s) =
    (case scan q d [c] of (q', d') \<Rightarrow>
      if \<not> q' \<and> d' = 0 \<and> c = sep then part # SplitLoop sep q' d' [] s else SplitLoop sep q' d' (part @ [c]) s)"
  by (simp add: Let_def)

lemma SplitLoop_append:
  "scan q d s = (q', d') \<Longrightarrow> SplitLoop sep q d part (s @ t) =
    butlast (SplitLoop sep q d part s) @ SplitLoop sep q' d' (last (SplitLoop sep q d part s)) t"
proof (induction s arbitrary: q d part)
  case (Cons c s)
  obtain q1 d1 where st: "scan q d [c] = (q1, d1)" by (cases "scan q d [c]") blast
  have sc: "scan q1 d1 s = (q', d')" using Cons.prems scan_step [of q d c s] st by simp
  note S = split_step [of sep q d _ c _, unfolded st prod.case]
  note IH = Cons.IH [OF sc]
  show ?case
  proof (cases "\<not> q1 \<and> d1 = 0 \<and> c = sep")
    case True
    then have "SplitLoop sep q d part (c # u) = part # SplitLoop sep q1 d1 [] u" for u using S by simp
    then show ?thesis using IH [of "[]"] SplitLoop_nonempty [of sep q1 d1 "[]" s] by simp
  next
    case False
    have "SplitLoop sep q d part (c # u) = SplitLoop sep q1 d1 (part @ [c]) u" for u
      unfolding S using False by (simp only: if_False)
    then show ?thesis using IH [of "part @ [c]"] by simp
  qed
qed simp

lemma Split_at:
  assumes "closed_text a" "sep \<in> {CHR ''|'', CHR ''&''}"
  shows "SplitOutsideQuotes (a @ sep # b) sep = SplitOutsideQuotes a sep @ SplitOutsideQuotes b sep"
proof -
  have "sep \<noteq> quote_char" "sep \<noteq> CHR ''(''" "sep \<noteq> CHR '')''" using assms(2) by (auto simp: quote_char_def)
  then have "SplitLoop sep False 0 p (sep # b) = p # SplitLoop sep False 0 [] b" for p by simp
  then show ?thesis
    using SplitLoop_append [of False 0 a False 0 sep "[]" "sep # b"] assms(1) SplitLoop_nonempty [of sep False 0 "[]" a]
    by (simp add: SplitOutsideQuotes_def closed_text_def append_butlast_last_id [symmetric])
qed

lemma Split_other:
  assumes "closed_text a" "SplitOutsideQuotes a (CHR ''|'') = [a]" "SplitOutsideQuotes b (CHR ''|'') = [b]"
  shows "SplitOutsideQuotes (a @ CHR ''&'' # b) (CHR ''|'') = [a @ CHR ''&'' # b]"
proof -
  have part: "SplitLoop sep q d (p @ x) s = (p @ hd (SplitLoop sep q d x s)) # tl (SplitLoop sep q d x s)" for sep q d p x s
    by (induction s arbitrary: q d p x) (auto simp: Let_def)
  have amp: "CHR ''&'' \<noteq> quote_char" by (simp add: quote_char_def)
  have "SplitLoop (CHR ''|'') False 0 a (CHR ''&'' # b) = SplitLoop (CHR ''|'') False 0 (a @ ''&'') b"
    using amp by (simp add: Let_def)
  also have "\<dots> = [a @ CHR ''&'' # b]"
    using part [of "CHR ''|''" False 0 "a @ ''&''" "[]" b] assms(3) by (simp add: SplitOutsideQuotes_def)
  finally have b: "SplitLoop (CHR ''|'') False 0 a (CHR ''&'' # b) = [a @ CHR ''&'' # b]" .
  have a: "SplitLoop (CHR ''|'') False 0 [] a = [a]" using assms(2) by (simp add: SplitOutsideQuotes_def)
  have "SplitLoop (CHR ''|'') False 0 [] (a @ CHR ''&'' # b) =
      butlast [a] @ SplitLoop (CHR ''|'') False 0 (last [a]) (CHR ''&'' # b)"
    unfolding a [symmetric] by (rule SplitLoop_append) (use assms(1) in \<open>simp add: closed_text_def\<close>)
  then show ?thesis unfolding SplitOutsideQuotes_def using b by (simp only: butlast.simps last.simps append_Nil) simp
qed

definition ReadPart :: "string \<Rightarrow> expression" where
  "ReadPart part =
     (if Trim part = [] then [[PlainAtom Cmp_Equal []]]
      else case Grouped part of Some inner \<Rightarrow> ParseFilter inner | None \<Rightarrow> [[ReadFilterAtom part]])"

definition ReadAlternative :: "string \<Rightarrow> expression" where
  "ReadAlternative alternative = foldl Both [[]] (map ReadPart (SplitOutsideQuotes alternative (CHR ''&'')))"

lemma ParseFilter_eq:
  "ParseFilter s = (if Trim s = [] then [] else concat (map ReadAlternative (SplitOutsideQuotes s (CHR ''|''))))"
  by (subst ParseFilter.simps) (simp add: ReadAlternative_def ReadPart_def cong: map_cong)

lemma Both_nonempty: "l \<noteq> [] \<Longrightarrow> Both l r \<noteq> []"
  by (auto simp: Both_def neq_Nil_conv)

lemma Both_fold_nonempty: "l \<noteq> [] \<Longrightarrow> foldl Both l rs \<noteq> []"
  by (induction rs arbitrary: l) (simp_all add: Both_nonempty)

lemma Matches_Both: "l \<noteq> [] \<Longrightarrow> Matches (Both l r) v def \<longleftrightarrow> Matches l v def \<and> Matches r v def"
proof (cases "r = []")
  case False
  assume "l \<noteq> []"
  then have "Both l r = concat (map (\<lambda>a. map (\<lambda>b. a @ b) r) l)" "Both l r \<noteq> []"
    using False Both_nonempty by (simp_all add: Both_def)
  then show ?thesis using \<open>l \<noteq> []\<close> False unfolding Matches_def by (force simp: list_ex_iff)
qed (simp add: Both_def Matches_def)

lemma Matches_fold:
  "l \<noteq> [] \<Longrightarrow> Matches (foldl Both l rs) v def \<longleftrightarrow> Matches l v def \<and> list_all (\<lambda>r. Matches r v def) rs"
proof (induction rs arbitrary: l)
  case (Cons r rs)
  then show ?case using Matches_Both [OF Cons.prems] Both_nonempty [OF Cons.prems] by simp
qed simp

lemma ReadAlternative_ok:
  "ReadAlternative s \<noteq> []"
  "Matches (ReadAlternative s) v def \<longleftrightarrow>
    list_all (\<lambda>part. Matches (ReadPart part) v def) (SplitOutsideQuotes s (CHR ''&''))"
  unfolding ReadAlternative_def
  by (simp_all add: Both_fold_nonempty Matches_fold list_all_iff) (simp add: Matches_def)

lemma Matches_concat:
  "(\<And>e. e \<in> set es \<Longrightarrow> e \<noteq> []) \<Longrightarrow> es \<noteq> [] \<Longrightarrow> Matches (concat es) v def \<longleftrightarrow> list_ex (\<lambda>e. Matches e v def) es"
proof -
  assume ne: "\<And>e. e \<in> set es \<Longrightarrow> e \<noteq> []" "es \<noteq> []"
  then have "concat es \<noteq> []" by (cases es) auto
  then have "Matches (concat es) v def \<longleftrightarrow> (\<exists>e \<in> set es. list_ex (list_all (\<lambda>a. Satisfies a v def)) e)"
    by (auto simp: Matches_def list_ex_iff)
  also have "\<dots> \<longleftrightarrow> list_ex (\<lambda>e. Matches e v def) es"
    using ne(1) by (auto simp: Matches_def list_ex_iff)
  finally show ?thesis .
qed

lemma Matches_ParseFilter:
  assumes "Trim s \<noteq> []"
  shows "Matches (ParseFilter s) v def \<longleftrightarrow>
    list_ex (\<lambda>alternative. Matches (ReadAlternative alternative) v def) (SplitOutsideQuotes s (CHR ''|''))"
proof -
  have "SplitOutsideQuotes s (CHR ''|'') \<noteq> []" by (simp add: SplitOutsideQuotes_def SplitLoop_nonempty)
  then have "Matches (concat (map ReadAlternative (SplitOutsideQuotes s (CHR ''|'')))) v def \<longleftrightarrow>
      list_ex (\<lambda>e. Matches e v def) (map ReadAlternative (SplitOutsideQuotes s (CHR ''|'')))"
    by (intro Matches_concat) (auto simp: ReadAlternative_ok(1))
  then show ?thesis using assms by (simp add: ParseFilter_eq list_ex_iff)
qed

lemma set_dropWhile_other: "(\<exists>c \<in> set (dropWhile P s). \<not> P c) \<longleftrightarrow> (\<exists>c \<in> set s. \<not> P c)"
  by (induction s) auto

lemma Trim_nonempty: "Trim s \<noteq> [] \<longleftrightarrow> (\<exists>c \<in> set s. \<not> is_space c)"
  using set_dropWhile_other [of is_space s] unfolding Trim_def by (auto simp: dropWhile_eq_Nil_conv)

section \<open>The single value of a field\<close>

lemma SingleLoop_value:
  "SingleLoop no val fs = Some w \<Longrightarrow> (val = None \<or> val = Some w) \<and>
    (\<forall>f \<in> set fs. ff_field f = no \<and> ff_text f \<noteq> [] \<longrightarrow>
      (\<exists>a. ParseFilter (ff_text f) = [[a]] \<and> at_compare a = Cmp_Equal \<and> at_value a = w))"
proof (induction fs arbitrary: val)
  case (Cons f fs)
  show ?case
  proof (cases "ff_field f \<noteq> no \<or> ff_text f = []")
    case True
    then have "SingleLoop no val fs = Some w" using Cons.prems by simp
    from Cons.IH [OF this] True show ?thesis by auto
  next
    case False
    obtain e where e: "e = ParseFilter (ff_text f)" by blast
    have l: "length e = 1" "length (hd e) = 1" and v: "at_compare (hd (hd e)) = Cmp_Equal"
      "val = None \<or> the val = at_value (hd (hd e))" "SingleLoop no (Some (at_value (hd (hd e)))) fs = Some w"
      using Cons.prems False unfolding e by (auto simp: Let_def split: if_splits)
    obtain a where a: "e = [[a]]" using l by (auto simp: length_Suc_conv)
    note v = v [unfolded a list.sel]
    from Cons.IH [OF v(3)] have w: "w = at_value a" by simp
    have p: "ParseFilter (ff_text f) = [[a]]" using a e by simp
    show ?thesis using Cons.IH [OF v(3)] v(1,2) p w by (cases val) auto
  qed
qed simp

section \<open>Properties\<close>

text \<open>
  C39: The wildcard match with its one remembered star is the declarative match, where a star stands for
  any text, a question mark for one character and every other character for itself in either case, for
  every value that has no star of its own.
\<close>

theorem wildcard_glob:
  assumes "CHR ''*'' \<notin> set v"
  shows "WildcardMatch p v \<longleftrightarrow> glob p v"
  using WildcardLoop_glob [of v None p] assms by (simp add: WildcardMatch_def star_ok_def later_def)

lemma wildcard_glob_witness: "WildcardMatch ''*b?*'' ''abc''"
  using wildcard_glob [of "''abc''" "''*b?*''"] by (simp add: exI [of _ 1] exI [of _ 0])

text \<open>
  A star of the pattern meets a star of the value as the same character before it is a wildcard, so
  the pattern that matches everything does not match a value that begins with a star.
\<close>

theorem star_value_refused: "\<not> WildcardMatch ''*'' ''*a'' \<and> glob ''*'' ''*a''"
proof -
  have "WildcardLoop ''*'' ''*a'' None = WildcardLoop [] ''a'' None" by (subst WildcardLoop.simps) simp
  moreover have "\<not> WildcardLoop [] ''a'' None" by (subst WildcardLoop.simps) simp
  moreover have "glob ''*'' ''*a''" by (simp add: exI [of _ 2])
  ultimately show ?thesis by (simp add: WildcardMatch_def)
qed

text \<open>
  C40: The bar and the ampersand of a filter are disjunction and conjunction: a value matches a filter
  of two parts joined by a bar when it matches one of them, and by an ampersand when it matches both,
  wherever the left part closes its quotes and brackets and neither has a bar of its own.
\<close>

theorem filter_connectives:
  assumes "closed_text a" "Trim a \<noteq> []" "Trim b \<noteq> []"
  shows "(Matches (ParseFilter (a @ CHR ''|'' # b)) v def \<longleftrightarrow>
      Matches (ParseFilter a) v def \<or> Matches (ParseFilter b) v def) \<and>
    (SplitOutsideQuotes a (CHR ''|'') = [a] \<and> SplitOutsideQuotes b (CHR ''|'') = [b] \<longrightarrow>
      (Matches (ParseFilter (a @ CHR ''&'' # b)) v def \<longleftrightarrow>
        Matches (ParseFilter a) v def \<and> Matches (ParseFilter b) v def))"
proof (intro conjI impI)
  have t: "Trim (a @ c # b) \<noteq> []" for c using assms(2) by (auto simp: Trim_nonempty)
  show "Matches (ParseFilter (a @ CHR ''|'' # b)) v def \<longleftrightarrow>
      Matches (ParseFilter a) v def \<or> Matches (ParseFilter b) v def"
    using Split_at [OF assms(1), of "CHR ''|''" b] by (simp add: Matches_ParseFilter t assms(2,3))
  assume one: "SplitOutsideQuotes a (CHR ''|'') = [a] \<and> SplitOutsideQuotes b (CHR ''|'') = [b]"
  then have "SplitOutsideQuotes (a @ CHR ''&'' # b) (CHR ''|'') = [a @ CHR ''&'' # b]"
    using Split_other [OF assms(1)] by blast
  then show "Matches (ParseFilter (a @ CHR ''&'' # b)) v def \<longleftrightarrow>
      Matches (ParseFilter a) v def \<and> Matches (ParseFilter b) v def"
    using one Split_at [OF assms(1), of "CHR ''&''" b]
    by (simp add: Matches_ParseFilter t assms(2,3) ReadAlternative_ok(2))
qed

lemma filter_connectives_witness:
  "\<forall>v def. Matches (ParseFilter ''1&2'') v def \<longleftrightarrow> Matches (ParseFilter ''1'') v def \<and> Matches (ParseFilter ''2'') v def"
proof (intro allI)
  fix v def
  have "closed_text ''1''" "Trim ''1'' \<noteq> []" "Trim ''2'' \<noteq> []"
    by (simp_all add: closed_text_def quote_char_def Trim_def is_space_def code_def)
  from filter_connectives [OF this, of v def]
  show "Matches (ParseFilter ''1&2'') v def \<longleftrightarrow> Matches (ParseFilter ''1'') v def \<and> Matches (ParseFilter ''2'') v def"
    by (simp add: SplitOutsideQuotes_def quote_char_def)
qed



text \<open>
  The single value a record takes over from its filters satisfies every filter on that field, in
  all groups, so a record seeded with it is inside its own filters.
\<close>

theorem seeded_value_matches:
  assumes "SingleFilterValue (Some st) no = Some w" "f \<in> set (rs_filters st)" "ff_field f = no"
    "fd_type def = Text_type \<or> fd_type def = Code_type"
  shows "Matches (ParseFilter (ff_text f)) w def"
proof (cases "ff_text f = []")
  case True
  then show ?thesis by (subst ParseFilter.simps) (simp add: Trim_def Matches_def)
next
  case False
  from SingleLoop_value [of no None "rs_filters st" w] assms(1) have
    "\<forall>f \<in> set (rs_filters st). ff_field f = no \<and> ff_text f \<noteq> [] \<longrightarrow>
      (\<exists>a. ParseFilter (ff_text f) = [[a]] \<and> at_compare a = Cmp_Equal \<and> at_value a = w)"
    by (simp add: SingleFilterValue_def)
  with assms(2,3) False obtain a where a: "ParseFilter (ff_text f) = [[a]]" "at_compare a = Cmp_Equal" "at_value a = w"
    by blast
  have "SameValue w w def" using assms(4) by (auto simp: SameValue_def Numeric_def SameText_def)
  then show ?thesis using a assms(4) by (auto simp: Matches_def Satisfies_def SatisfiesCanonical_def)
qed

lemma seeded_value_matches_witness:
  "Matches (ParseFilter ''X'') ''X'' \<lparr>fd_no = 3, fd_caption = [], fd_type = Code_type, fd_flowFilter = False, fd_values = []\<rparr>"
proof -
  have t: "Trim ''X'' = ''X''" by (simp add: Trim_def is_space_def code_def)
  have split: "SplitOutsideQuotes ''X'' c = [''X'']" if "c \<noteq> CHR ''X''" for c
    using that by (simp add: SplitOutsideQuotes_def quote_char_def)
  have "find_text ''X'' ''..'' 0 = None"
    by (simp add: find_text_def find_from.simps)
  then have "ReadFilterAtom ''X'' = PlainAtom Cmp_Equal ''X''"
    by (simp add: ReadFilterAtom_def t TakeOperator_def kOperators_def Unquote_def HasWildcard_def)
  then have p: "ParseFilter ''X'' = [[PlainAtom Cmp_Equal ''X'']]"
    by (subst ParseFilter.simps) (simp add: t split Grouped_def Both_def)
  let ?st = "\<lparr>rs_filters = [\<lparr>ff_field = 3, ff_group = 0, ff_text = ''X''\<rparr>], rs_group = 0\<rparr>"
  have "SingleFilterValue (Some ?st) 3 = Some ''X''"
    by (simp add: SingleFilterValue_def p PlainAtom_def HasWildcard_def)
  from seeded_value_matches [OF this] show ?thesis by simp
qed

end
