(* ===== verification/Clock.thy ===== *)
theory Clock
  imports DateFacts
begin

text \<open>
  AL's Time, DateTime and Duration: \<^verbatim>\<open>src/include/type/Time.h\<close>, \<^verbatim>\<open>DateTime.h\<close>, \<^verbatim>\<open>Duration.h\<close> and
  \<^verbatim>\<open>src/src/net/Clock.cpp\<close>. A time is the milliseconds of its day, a DateTime the milliseconds since the
  first day, a Duration milliseconds; zero is the undefined value of the first two. The narrowing casts
  are written out; sums are the integers, whose signed overflow C++ leaves undefined.
\<close>

section \<open>Integers\<close>

definition narrow32 :: "int \<Rightarrow> int" where
  "narrow32 i = (i + 2 ^ 31) mod 2 ^ 32 - 2 ^ 31"

lemma narrow32_id: "- (2 ^ 31) \<le> i \<Longrightarrow> i < 2 ^ 31 \<Longrightarrow> narrow32 i = i"
  by (simp add: narrow32_def)

section \<open>Time\<close>

definition kMillisecondsPerMinute :: int where
  "kMillisecondsPerMinute = 60 * 1000"

definition kMillisecondsPerHour :: int where
  "kMillisecondsPerHour = 60 * kMillisecondsPerMinute"

definition kMillisecondsPerDay :: int where
  "kMillisecondsPerDay = 24 * kMillisecondsPerHour"

record time =
  tm_milliseconds :: int

definition UndefinedTime :: time where
  "UndefinedTime = \<lparr>tm_milliseconds = 0\<rparr>"

definition TimeFromMilliseconds :: "int \<Rightarrow> time" where
  "TimeFromMilliseconds ms = \<lparr>tm_milliseconds = (if 0 \<le> ms \<and> ms < kMillisecondsPerDay then ms else 0)\<rparr>"

definition FromHms :: "int \<Rightarrow> int \<Rightarrow> int \<Rightarrow> int \<Rightarrow> time" where
  "FromHms hour minute second millisecond =
     (if hour < 0 \<or> 24 \<le> hour \<or> minute < 0 \<or> 60 \<le> minute \<or> second < 0 \<or> 60 \<le> second \<or>
         millisecond < 0 \<or> 1000 \<le> millisecond
      then UndefinedTime
      else TimeFromMilliseconds
        (hour * kMillisecondsPerHour + minute * kMillisecondsPerMinute + second * 1000 + millisecond))"

definition TimePlus :: "time \<Rightarrow> int \<Rightarrow> time" where
  "TimePlus t ms =
     (let sum = (tm_milliseconds t + ms) smod kMillisecondsPerDay in
      TimeFromMilliseconds (if sum < 0 then sum + kMillisecondsPerDay else sum))"

definition TimeMinus :: "time \<Rightarrow> int \<Rightarrow> time" where
  "TimeMinus t ms = TimePlus t (- ms)"

definition HourOf :: "time \<Rightarrow> int" where
  "HourOf t = tm_milliseconds t sdiv kMillisecondsPerHour"

definition MinuteOf :: "time \<Rightarrow> int" where
  "MinuteOf t = (tm_milliseconds t sdiv kMillisecondsPerMinute) smod 60"

definition SecondOf :: "time \<Rightarrow> int" where
  "SecondOf t = (tm_milliseconds t sdiv 1000) smod 60"

definition MillisecondOf :: "time \<Rightarrow> int" where
  "MillisecondOf t = tm_milliseconds t smod 1000"

definition TimeToInvariantString :: "time \<Rightarrow> string" where
  "TimeToInvariantString t =
     Padded 2 (nat (HourOf t)) @ '':'' @ Padded 2 (nat (MinuteOf t)) @ '':'' @ Padded 2 (nat (SecondOf t)) @ ''.'' @
     Padded 3 (nat (MillisecondOf t))"

section \<open>DateTime and Duration\<close>

record datetime =
  dt_milliseconds :: int

definition UndefinedDateTime :: datetime where
  "UndefinedDateTime = \<lparr>dt_milliseconds = 0\<rparr>"

definition CreateDateTime :: "date \<Rightarrow> time \<Rightarrow> datetime" where
  "CreateDateTime d t =
     (if IsUndefined d then UndefinedDateTime
      else \<lparr>dt_milliseconds = DaysSinceFirst d * kMillisecondsPerDay + tm_milliseconds t\<rparr>)"

definition DateTimeFromMilliseconds :: "int \<Rightarrow> datetime" where
  "DateTimeFromMilliseconds ms = \<lparr>dt_milliseconds = (if 0 < ms then ms else 0)\<rparr>"

definition DateTimeIsUndefined :: "datetime \<Rightarrow> bool" where
  "DateTimeIsUndefined d \<longleftrightarrow> dt_milliseconds d = 0"

definition DateOf :: "datetime \<Rightarrow> date" where
  "DateOf d =
     (if DateTimeIsUndefined d then Undefined
      else FromDaysSinceFirst (narrow32 (dt_milliseconds d sdiv kMillisecondsPerDay)))"

definition TimeOf :: "datetime \<Rightarrow> time" where
  "TimeOf d = TimeFromMilliseconds (narrow32 (dt_milliseconds d smod kMillisecondsPerDay))"

definition DateTimeDifference :: "datetime \<Rightarrow> datetime \<Rightarrow> int" where
  "DateTimeDifference a b = dt_milliseconds a - dt_milliseconds b"

definition DateTimePlus :: "datetime \<Rightarrow> int \<Rightarrow> datetime" where
  "DateTimePlus a duration =
     (if DateTimeIsUndefined a then a else DateTimeFromMilliseconds (dt_milliseconds a + duration))"

definition DateTimeMinus :: "datetime \<Rightarrow> int \<Rightarrow> datetime" where
  "DateTimeMinus a duration =
     (if DateTimeIsUndefined a then a else DateTimeFromMilliseconds (dt_milliseconds a - duration))"

definition DateTimeToInvariantString :: "datetime \<Rightarrow> string" where
  "DateTimeToInvariantString d =
     (if DateTimeIsUndefined d then []
      else DateToInvariantString (DateOf d) @ ''T'' @ TimeToInvariantString (TimeOf d) @ ''Z'')"

definition DurationToInvariantString :: "int \<Rightarrow> string" where
  "DurationToInvariantString duration = int_text duration"

section \<open>Facts\<close>

definition time_ok :: "time \<Rightarrow> bool" where
  "time_ok t \<longleftrightarrow> 0 \<le> tm_milliseconds t \<and> tm_milliseconds t < kMillisecondsPerDay"

lemma day_value: "kMillisecondsPerDay = 86400000"
  by (simp add: kMillisecondsPerDay_def kMillisecondsPerHour_def kMillisecondsPerMinute_def)

lemma TimeFromMilliseconds_ok [invariant_intros]: "time_ok (TimeFromMilliseconds ms)"
  by (auto simp: time_ok_def TimeFromMilliseconds_def day_value)

text \<open>The truncated remainder, moved up when it is negative, is the remainder of clock arithmetic.\<close>

lemma smod_wrap:
  assumes "0 < (k :: int)"
  shows "(if n smod k < 0 then n smod k + k else n smod k) = n mod k"
proof (cases "0 \<le> n")
  case True
  then show ?thesis using assms by (simp add: signed_modulo_int_def sgn_if not_less)
next
  case False
  obtain m where m: "m = - n" by blast
  have s: "n smod k = - (m mod k)" using False assms by (simp add: m signed_modulo_int_def sgn_if)
  show ?thesis
  proof (cases "m mod k = 0")
    case True
    then have "n mod k = 0" unfolding m by (simp add: mod_eq_0_iff_dvd)
    then show ?thesis using True by (simp add: s)
  next
    case nz: False
    have "n mod k = k - m mod k" using nz zmod_zminus1_eq_if [of m k] by (simp add: m)
    moreover have "0 < m mod k" using nz pos_mod_sign [OF assms, of m] by linarith
    ultimately show ?thesis by (simp add: s)
  qed
qed

lemma TimePlus_mod:
  shows "tm_milliseconds (TimePlus t ms) = (tm_milliseconds t + ms) mod kMillisecondsPerDay"
proof -
  have p: "0 < kMillisecondsPerDay" by (simp add: day_value)
  show ?thesis
    using pos_mod_sign [OF p] pos_mod_bound [OF p]
    unfolding TimePlus_def Let_def smod_wrap [OF p] by (simp add: TimeFromMilliseconds_def)
qed

lemma time_eq: "t = u \<longleftrightarrow> tm_milliseconds t = tm_milliseconds u" for t u :: time
  by (cases t; cases u) simp

lemma split_milliseconds:
  "n div 1000 div 60 div 60 * 3600000 + n div 1000 div 60 mod 60 * 60000 + n div 1000 mod 60 * 1000 + n mod 1000 = (n :: int)"
proof -
  obtain s m h where s: "s = n div 1000" and m: "m = s div 60" and h: "h = m div 60" by blast
  obtain x y z where x: "x = n mod 1000" and y: "y = s mod 60" and z: "z = m mod 60" by blast
  have "1000 * s + x = n" "60 * m + y = s" "60 * h + z = m"
    unfolding x y z s m h by (rule mult_div_mod_eq)+
  then have "h * 3600000 + z * 60000 + y * 1000 + x = n" by simp
  then show ?thesis unfolding x y z h m s .
qed

lemma FromHms_value:
  assumes "0 \<le> h" "h < 24" "0 \<le> m" "m < 60" "0 \<le> s" "s < 60" "0 \<le> x" "x < 1000"
    "h * 3600000 + m * 60000 + s * 1000 + x = n" "0 \<le> n" "n < 86400000"
  shows "FromHms h m s x = \<lparr>tm_milliseconds = n\<rparr>"
  using assms by (simp add: FromHms_def kMillisecondsPerHour_def kMillisecondsPerMinute_def TimeFromMilliseconds_def day_value)

text \<open>
  A time stays in its day: adding milliseconds wraps around midnight in both directions,
  subtracting what was added gives the time back, and building a time from its hour, minute, second and
  millisecond gives it back too.
\<close>

theorem time_of_day:
  assumes "time_ok t"
  shows "time_ok (TimePlus t ms) \<and> TimeMinus (TimePlus t ms) ms = t \<and>
    FromHms (HourOf t) (MinuteOf t) (SecondOf t) (MillisecondOf t) = t"
proof (intro conjI)
  show "time_ok (TimePlus t ms)" unfolding TimePlus_def Let_def by (rule TimeFromMilliseconds_ok)
  have r: "0 \<le> tm_milliseconds t" "tm_milliseconds t < kMillisecondsPerDay" using assms by (simp_all add: time_ok_def)
  show "TimeMinus (TimePlus t ms) ms = t"
    unfolding time_eq TimeMinus_def TimePlus_mod using r by (simp add: mod_simps)
  obtain n where n: "tm_milliseconds t = n" "0 \<le> n" "n < 86400000" using r by (simp add: day_value)
  have q: "n smod 1000 = n mod 1000" "(n sdiv 1000) smod 60 = n div 1000 mod 60"
    "(n sdiv 60000) smod 60 = n div 60000 mod 60" "n sdiv 3600000 = n div 3600000"
    using n(2) by (simp_all add: sdiv_pos signed_modulo_int_def sgn_if)
  have d: "n div 60000 = n div 1000 div 60" "n div 3600000 = n div 1000 div 60 div 60"
    by (simp_all only: zdiv_zmult2_eq [symmetric, OF zero_le_numeral] numeral_times_numeral semiring_norm)
  have "n div 3600000 * 3600000 + n div 60000 mod 60 * 60000 + n div 1000 mod 60 * 1000 + n mod 1000 = n"
    unfolding d by (rule split_milliseconds)
  moreover have "0 \<le> n div 3600000" "n div 3600000 < 24"
  proof -
    obtain h z where h: "h = n div 3600000" and z: "z = n mod 3600000" by blast
    have "3600000 * h + z = n" "0 \<le> z" "z < 3600000" unfolding h z by (rule mult_div_mod_eq) simp_all
    then show "0 \<le> n div 3600000" "n div 3600000 < 24" unfolding h [symmetric] using n(2,3) by linarith+
  qed
  ultimately have e: "FromHms (n div 3600000) (n div 60000 mod 60) (n div 1000 mod 60) (n mod 1000) = \<lparr>tm_milliseconds = n\<rparr>"
    using n(2,3) by (intro FromHms_value) (simp_all only: pos_mod_sign pos_mod_bound zero_less_numeral)
  have H: "HourOf t = n div 3600000" "MinuteOf t = n div 60000 mod 60" "SecondOf t = n div 1000 mod 60"
    "MillisecondOf t = n mod 1000"
    unfolding HourOf_def MinuteOf_def SecondOf_def MillisecondOf_def n(1) kMillisecondsPerHour_def kMillisecondsPerMinute_def
    by (simp_all add: q)
  have "t = \<lparr>tm_milliseconds = n\<rparr>" using n(1) by (simp add: time_eq)
  then show "FromHms (HourOf t) (MinuteOf t) (SecondOf t) (MillisecondOf t) = t" unfolding H e by (rule sym)
qed

lemma time_of_day_witness: "TimeMinus (TimePlus (FromHms 23 0 0 0) 7200000) 7200000 = FromHms 23 0 0 0"
proof -
  have "time_ok (FromHms 23 0 0 0)"
    by (simp add: FromHms_def kMillisecondsPerHour_def kMillisecondsPerMinute_def TimeFromMilliseconds_ok)
  from time_of_day [OF this] show ?thesis by blast
qed

text \<open>
  A DateTime built from a defined date and a time answers with the normal date and the time it was
  built from, except at midnight of the first day of the range, which is the undefined DateTime.
\<close>

theorem datetime_parts:
  assumes "date_ok d" "d \<noteq> Undefined" "time_ok t"
  shows "if DaysSinceFirst d = 0 \<and> tm_milliseconds t = 0 then CreateDateTime d t = UndefinedDateTime
    else DateOf (CreateDateTime d t) = Normal d \<and> TimeOf (CreateDateTime d t) = t"
proof -
  obtain i ms where i: "DaysSinceFirst d = i" and ms: "tm_milliseconds t = ms" by blast
  have r: "0 \<le> i" "i \<le> 3012153" "0 \<le> ms" "ms < 86400000"
    using DaysSinceFirst_range [OF assms(1,2)] assms(3) i ms by (simp_all add: time_ok_def day_value kLastDayIndex_value)
  let ?n = "i * 86400000 + ms"
  have c: "CreateDateTime d t = \<lparr>dt_milliseconds = ?n\<rparr>"
    using assms(2) by (simp add: CreateDateTime_def IsUndefined_iff i ms day_value)
  have div: "?n sdiv 86400000 = i" "?n smod 86400000 = ms"
    using r by (simp_all add: sdiv_pos signed_modulo_int_def sgn_if)
  show ?thesis
  proof (cases "i = 0 \<and> ms = 0")
    case True
    then show ?thesis by (simp add: c i ms UndefinedDateTime_def)
  next
    case False
    then have "?n \<noteq> 0" using r by linarith
    moreover have "narrow32 i = i" "narrow32 ms = ms" using r by (simp_all add: narrow32_id)
    ultimately show ?thesis
      using False r FromDays_DaysSinceFirst [OF assms(1)] i ms
      by (auto simp: c DateOf_def TimeOf_def DateTimeIsUndefined_def day_value div time_eq TimeFromMilliseconds_def)
  qed
qed

lemma datetime_parts_witness:
  "CreateDateTime (FromDaysSinceFirst 0) UndefinedTime = UndefinedDateTime \<and>
   TimeOf (CreateDateTime (FromDaysSinceFirst 5) (FromHms 8 30 0 0)) = FromHms 8 30 0 0"
proof -
  have d: "FromDaysSinceFirst 0 \<noteq> Undefined" "FromDaysSinceFirst 5 \<noteq> Undefined"
    "DaysSinceFirst (FromDaysSinceFirst 0) = 0" "DaysSinceFirst (FromDaysSinceFirst 5) = 5"
    using FromDays_defined [of 0] FromDays_defined [of 5] DaysSinceFirst_FromDays [of 0] DaysSinceFirst_FromDays [of 5]
    by (simp_all add: kLastDayIndex_value IsUndefined_iff)
  have t: "time_ok UndefinedTime" by (simp add: time_ok_def UndefinedTime_def day_value)
  have u: "time_ok (FromHms 8 30 0 0)"
    by (simp add: FromHms_def kMillisecondsPerHour_def kMillisecondsPerMinute_def TimeFromMilliseconds_ok)
  show ?thesis
    using datetime_parts [OF FromDaysSinceFirst_ok d(1) t] datetime_parts [OF FromDaysSinceFirst_ok d(2) u] d(3,4)
    by (simp add: UndefinedTime_def)
qed

end
