(* ===== verification/Records.thy ===== *)
theory Records
  imports FilterFacts Clock DecimalArithmetic
begin

text \<open>
  A record and its fields: \<^verbatim>\<open>src/src/rt/Record.cpp\<close>, \<^verbatim>\<open>src/include/meta/TableDef.h\<close>, \<^verbatim>\<open>EnumDef.h\<close>,
  \<^verbatim>\<open>src/src/rt/RecordOrder.cpp\<close> and \<^verbatim>\<open>src/src/rt/RecordFilter.cpp\<close>. A record's memory is a cell per field
  number. The cells of Guid, RecordId, DateFormula, TableFilter, Media and MediaSet fields are what the
  code reads of them: the text shown, the text stored and whether the value is blank.
\<close>

section \<open>Tables and cells\<close>

record table_def =
  td_caption :: string
  td_fields :: "field_def list"
  td_keys :: "int list list"

datatype cell =
    IntegerCell int | BooleanCell bool | OrdinalCell int | DecimalCell decimal | DateCell date | TimeCell time
  | DateTimeCell datetime | DurationCell int | TextCell string | BlobCell "nat list"
  | RenderedCell string string bool

type_synonym row = "int \<Rightarrow> cell"

record al_error =
  ae_text :: string
  ae_code :: string

definition Error :: "string \<Rightarrow> string \<Rightarrow> al_error" where
  "Error text c = \<lparr>ae_text = text, ae_code = c\<rparr>"

text \<open>The binary searches of \<open>Field\<close> and \<open>ValueOf\<close>.\<close>

function SearchLoop :: "('a \<Rightarrow> int) \<Rightarrow> 'a list \<Rightarrow> int \<Rightarrow> nat \<Rightarrow> nat \<Rightarrow> 'a option" where
  "SearchLoop key xs k low high =
     (if low < high then
        (let mid = low + (high - low) div 2 in
         if key (xs ! mid) = k then Some (xs ! mid)
         else if key (xs ! mid) < k then SearchLoop key xs k (mid + 1) high
         else SearchLoop key xs k low mid)
      else None)"
  by pat_completeness auto
termination
  by (relation "measure (\<lambda>(key, xs, k, low, high). high - low)") auto

declare SearchLoop.simps [simp del]

definition Field :: "table_def \<Rightarrow> int \<Rightarrow> field_def option" where
  "Field table no = SearchLoop fd_no (td_fields table) no 0 (length (td_fields table))"

definition FieldsAreSorted :: "table_def \<Rightarrow> bool" where
  "FieldsAreSorted table \<longleftrightarrow>
     list_all (\<lambda>i. fd_no (td_fields table ! (i - 1)) < fd_no (td_fields table ! i)) [1..<length (td_fields table)]"

definition ValueOf :: "enum_value list \<Rightarrow> int \<Rightarrow> enum_value option" where
  "ValueOf values ordinal =
     (if ordinal < 0 then None
      else let position = nat ordinal in
        if position < length values \<and> ev_ordinal (values ! position) = ordinal then Some (values ! position)
        else SearchLoop ev_ordinal values ordinal 0 (length values))"

definition MemberText :: "field_def \<Rightarrow> int \<Rightarrow> string" where
  "MemberText def ordinal =
     (case ValueOf (fd_values def) ordinal of
        None \<Rightarrow> int_text ordinal
      | Some v \<Rightarrow> (if ev_caption v = [] then ev_name v else ev_caption v))"

section \<open>Fields as texts\<close>

definition hex_digit :: "nat \<Rightarrow> char" where
  "hex_digit n = (if n < 10 then char_of (48 + n) else char_of (87 + n))"

definition hex_byte :: "nat \<Rightarrow> string" where
  "hex_byte b = [hex_digit (b div 16), hex_digit (b mod 16)]"

definition FieldText :: "row \<Rightarrow> field_def \<Rightarrow> string" where
  "FieldText r def =
     (case r (fd_no def) of
        TextCell s \<Rightarrow> s
      | DecimalCell d \<Rightarrow> ToInvariantString d
      | DateCell d \<Rightarrow> DateToInvariantString d
      | TimeCell t \<Rightarrow> TimeToInvariantString t
      | DateTimeCell d \<Rightarrow> DateTimeToInvariantString d
      | RenderedCell shown _ _ \<Rightarrow> shown
      | IntegerCell i \<Rightarrow> int_text i
      | BooleanCell b \<Rightarrow> (if b then ''Yes'' else ''No'')
      | OrdinalCell i \<Rightarrow> MemberText def i
      | BlobCell bytes \<Rightarrow> CHR 0x5C # ''x'' @ concat (map hex_byte bytes)
      | DurationCell ms \<Rightarrow> DurationToInvariantString ms)"

definition DateStorageText :: "date \<Rightarrow> string" where
  "DateStorageText d =
     (if IsUndefined d then ''1753-01-01 00:00:00''
      else Padded 4 (nat (YearOf d)) @ ''-'' @ Padded 2 (nat (MonthOf d)) @ ''-'' @ Padded 2 (nat (DayOf d)) @ '' '' @
        (if IsClosing d then ''23:59:59'' else ''00:00:00''))"

definition DateTimeStorageText :: "datetime \<Rightarrow> string" where
  "DateTimeStorageText d =
     (if DateTimeIsUndefined d then ''1753-01-01 00:00:00.000''
      else DateToInvariantString (DateOf d) @ '' '' @ TimeToInvariantString (TimeOf d))"

definition StorageText :: "row \<Rightarrow> field_def \<Rightarrow> string" where
  "StorageText r def =
     (case r (fd_no def) of
        RenderedCell _ stored _ \<Rightarrow> stored
      | OrdinalCell i \<Rightarrow> int_text i
      | DateCell d \<Rightarrow> DateStorageText d
      | DateTimeCell d \<Rightarrow> DateTimeStorageText d
      | _ \<Rightarrow> FieldText r def)"

definition IsBlank :: "row \<Rightarrow> field_def \<Rightarrow> al_error + bool" where
  "IsBlank r def =
     (case r (fd_no def) of
        TextCell s \<Rightarrow> Inr (s = [])
      | DecimalCell d \<Rightarrow> Inr (dm_units d = 0)
      | DateCell d \<Rightarrow> Inr (IsUndefined d)
      | TimeCell t \<Rightarrow> Inr (tm_milliseconds t = 0)
      | DateTimeCell d \<Rightarrow> Inr (DateTimeIsUndefined d)
      | RenderedCell _ _ blank \<Rightarrow> Inr blank
      | IntegerCell i \<Rightarrow> Inr (i = 0)
      | BooleanCell b \<Rightarrow> Inr (\<not> b)
      | BlobCell bytes \<Rightarrow> Inr (bytes = [])
      | OrdinalCell i \<Rightarrow> Inr (i = 0)
      | DurationCell _ \<Rightarrow> Inl (Error ''IsBlank: no blank test for this field type yet'' []))"

section \<open>Comparing\<close>

definition bool_int :: "bool \<Rightarrow> int" where
  "bool_int b = (if b then 1 else 0)"

text \<open>The lambda \<open>compare\<close> over decimals asks \<open>operator<\<close> twice.\<close>

definition DecimalLess :: "decimal \<Rightarrow> decimal \<Rightarrow> bool" where
  "DecimalLess x y \<longleftrightarrow> CompareDecimal x y = Inr Ord_less"

definition CompareField :: "row \<Rightarrow> row \<Rightarrow> field_def \<Rightarrow> ordering" where
  "CompareField a b def =
     (case (a (fd_no def), b (fd_no def)) of
        (IntegerCell x, IntegerCell y) \<Rightarrow> spaceship x y
      | (BooleanCell x, BooleanCell y) \<Rightarrow> spaceship (bool_int x) (bool_int y)
      | (OrdinalCell x, OrdinalCell y) \<Rightarrow> spaceship x y
      | (DateCell x, DateCell y) \<Rightarrow> spaceship x y
      | (TimeCell x, TimeCell y) \<Rightarrow> spaceship (tm_milliseconds x) (tm_milliseconds y)
      | (DateTimeCell x, DateTimeCell y) \<Rightarrow> spaceship (dt_milliseconds x) (dt_milliseconds y)
      | (DecimalCell x, DecimalCell y) \<Rightarrow>
          (if DecimalLess x y then Ord_less else if DecimalLess y x then Ord_greater else Ord_equal)
      | _ \<Rightarrow> text_order (FieldText a def) (FieldText b def))"

section \<open>Messages\<close>

fun KeyTextLoop :: "row \<Rightarrow> table_def \<Rightarrow> string \<Rightarrow> int list \<Rightarrow> string \<Rightarrow> string" where
  "KeyTextLoop r table separator [] out = out"
| "KeyTextLoop r table separator (no # nos) out =
     (case Field table no of
        None \<Rightarrow> KeyTextLoop r table separator nos out
      | Some def \<Rightarrow>
          KeyTextLoop r table separator nos
            ((if out \<noteq> [] then out @ separator else out) @ fd_caption def @ ''='' @ [quote_char] @ FieldText r def @
             [quote_char]))"

definition PrimaryKeyText :: "row \<Rightarrow> table_def \<Rightarrow> string \<Rightarrow> string" where
  "PrimaryKeyText r table separator =
     (if td_keys table = [] then [] else KeyTextLoop r table separator (hd (td_keys table)) [])"

definition FieldCaption :: "table_def \<Rightarrow> int \<Rightarrow> al_error + string" where
  "FieldCaption table no =
     (case Field table no of
        None \<Rightarrow> Inl (Error ''FieldCaption: the table declares no such field'' [])
      | Some def \<Rightarrow> Inr (fd_caption def))"

text \<open>\<open>FieldError\<close> always throws: its value is the error.\<close>

definition FieldError :: "row \<Rightarrow> table_def \<Rightarrow> int \<Rightarrow> string \<Rightarrow> al_error" where
  "FieldError r table no text =
     (case Field table no of
        None \<Rightarrow> Error ''FieldError: the table declares no such field'' []
      | Some def \<Rightarrow>
          let key = PrimaryKeyText r table '','';
              place = '' in '' @ td_caption table @ (if key = [] then [] else '' '' @ key);
              kCode = ''NCLCSRTS:TableErrorStr'' in
          if text \<noteq> [] then Error (fd_caption def @ '' '' @ text @ place @ ''.'') kCode
          else case IsBlank r def of
            Inl e \<Rightarrow> e
          | Inr True \<Rightarrow> Error (''You must specify '' @ fd_caption def @ place @ ''.'') kCode
          | Inr False \<Rightarrow> Error (fd_caption def @ '' must not be '' @ FieldText r def @ place @ ''.'') kCode)"

definition TestField :: "row \<Rightarrow> table_def \<Rightarrow> int \<Rightarrow> al_error + unit" where
  "TestField r table no =
     (case Field table no of
        None \<Rightarrow> Inl (Error ''TestField: the table declares no such field'' [])
      | Some def \<Rightarrow>
          andThen (IsBlank r def) (\<lambda>blank.
          if \<not> blank then Inr ()
          else let key = PrimaryKeyText r table '', '';
                   place = '' in '' @ td_caption table @ (if key = [] then [] else '': '' @ key);
                   member = FieldText r def in
            if (fd_type def = Option_type \<or> fd_type def = Enum_type) \<and> member \<noteq> []
            then Inl (Error (fd_caption def @ '' must not be '' @ member @ place @ ''.'') ''TestField'')
            else Inl (Error (fd_caption def @ '' must have a value'' @ place @ ''. It cannot be zero or empty.'')
              ''TestField'')))"

fun SubstituteInto :: "string \<Rightarrow> string list \<Rightarrow> string" where
  "SubstituteInto [] values = []"
| "SubstituteInto [c] values = [c]"
| "SubstituteInto (c # d # s) values =
     (if c \<noteq> CHR ''%'' \<and> c \<noteq> CHR ''#'' then c # SubstituteInto (d # s) values
      else if code d < 49 \<or> 57 < code d then c # SubstituteInto (d # s) values
      else if length values \<le> code d - 49 then c # SubstituteInto (d # s) values
      else values ! (code d - 49) @ SubstituteInto s values)"

section \<open>The order of a key\<close>

record order_column =
  oc_field :: field_def
  oc_ascending :: bool

definition FindField :: "table_def \<Rightarrow> int \<Rightarrow> field_def option" where
  "FindField table no = List.find (\<lambda>def. fd_no def = no) (td_fields table)"

definition AppendColumn :: "table_def \<Rightarrow> bool \<Rightarrow> int \<Rightarrow> bool \<Rightarrow> order_column list \<Rightarrow> al_error + order_column list" where
  "AppendColumn table ascending no direction columns =
     (case FindField table no of
        None \<Rightarrow> Inl (Error (''the sort path names absent field '' @ int_text no) [])
      | Some def \<Rightarrow> Inr (columns @ [\<lparr>oc_field = def, oc_ascending = (ascending = direction)\<rparr>]))"

fun AppendSort :: "table_def \<Rightarrow> bool \<Rightarrow> (int \<times> bool) list \<Rightarrow> order_column list \<Rightarrow> al_error + order_column list" where
  "AppendSort table ascending [] columns = Inr columns"
| "AppendSort table ascending ((no, direction) # key) columns =
     andThen (AppendColumn table ascending no direction columns) (AppendSort table ascending key)"

fun AppendPrimary :: "table_def \<Rightarrow> bool \<Rightarrow> int list \<Rightarrow> order_column list \<Rightarrow> al_error + order_column list" where
  "AppendPrimary table ascending [] columns = Inr columns"
| "AppendPrimary table ascending (no # nos) columns =
     (if list_ex (\<lambda>c. fd_no (oc_field c) = no) columns then AppendPrimary table ascending nos columns
      else andThen (AppendColumn table ascending no True columns) (AppendPrimary table ascending nos))"

definition MakeOrder :: "table_def \<Rightarrow> (int \<times> bool) list \<Rightarrow> bool \<Rightarrow> al_error + order_column list" where
  "MakeOrder table key ascending =
     andThen (AppendSort table ascending key []) (\<lambda>columns.
       if td_keys table = [] then Inr columns
       else AppendPrimary table ascending (hd (td_keys table)) columns)"

fun CompareColumns :: "order_column list \<Rightarrow> row \<Rightarrow> row \<Rightarrow> ordering" where
  "CompareColumns [] left right = Ord_equal"
| "CompareColumns (c # cs) left right =
     (let compared = CompareField left right (oc_field c) in
      if compared = Ord_equal then CompareColumns cs left right
      else if oc_ascending c then compared
      else if compared = Ord_less then Ord_greater else Ord_less)"

section \<open>The filters of a record\<close>

record bound_filter =
  bf_field :: field_def
  bf_expression :: expression
  bf_crossColumn :: bool

definition kCrossColumnGroup :: int where
  "kCrossColumnGroup = - 1"

fun MakeFilter :: "table_def \<Rightarrow> field_filter list \<Rightarrow> al_error + bound_filter list" where
  "MakeFilter table [] = Inr []"
| "MakeFilter table (f # fs) =
     (case Field table (ff_field f) of
        None \<Rightarrow> Inl (Error (''the table carries no field '' @ int_text (ff_field f)) [])
      | Some def \<Rightarrow>
          if fd_flowFilter def then MakeFilter table fs
          else andThen (MakeFilter table fs) (\<lambda>rest.
            Inr (\<lparr>bf_field = def, bf_expression = ParseFilter (ff_text f),
                  bf_crossColumn = (ff_group f = kCrossColumnGroup)\<rparr> # rest)))"

fun FilterLoop :: "row \<Rightarrow> bound_filter list \<Rightarrow> bool \<Rightarrow> bool \<Rightarrow> bool" where
  "FilterLoop r [] crossColumn crossColumnHit = (\<not> crossColumn \<or> crossColumnHit)"
| "FilterLoop r (f # fs) crossColumn crossColumnHit =
     (let def = bf_field f;
          value = (if fd_type def = RecordId_type \<or> fd_type def = DateFormula_type then StorageText r def
                   else FieldText r def);
          passes = Matches (bf_expression f) value def in
      if bf_crossColumn f then FilterLoop r fs True (crossColumnHit \<or> passes)
      else if \<not> passes then False
      else FilterLoop r fs crossColumn crossColumnHit)"

definition FilterMatches :: "bound_filter list \<Rightarrow> row \<Rightarrow> bool" where
  "FilterMatches fs r = FilterLoop r fs False False"

fun MarkKeyLoop :: "row \<Rightarrow> table_def \<Rightarrow> int list \<Rightarrow> string \<Rightarrow> string" where
  "MarkKeyLoop r table [] out = out"
| "MarkKeyLoop r table (no # nos) out =
     (case Field table no of
        None \<Rightarrow> MarkKeyLoop r table nos out
      | Some def \<Rightarrow>
          MarkKeyLoop r table nos ((if out \<noteq> [] then out @ [CHR 0x1F] else out) @ FieldText r def))"

definition MarkKey :: "row \<Rightarrow> table_def \<Rightarrow> string" where
  "MarkKey r table = (if td_keys table = [] then [] else MarkKeyLoop r table (hd (td_keys table)) [])"

end
