(* ===== verification/Temporary.thy ===== *)
theory Temporary
  imports Records
begin

text \<open>
  Temporary records, \<^verbatim>\<open>src/src/rt/Temporary.cpp\<close>: rows held in memory in primary-key order, shared by the
  variables that copied them, and the view a \<open>Find\<close> selects and \<open>Next\<close> walks. The operations act on what
  \<open>Reach\<close> yields, the rows, the variable's state and its fields (\<open>held\<close>); the handles by which variables
  share rows are addresses into a heap. A thrown error is a result without a state.
\<close>

section \<open>State\<close>

record temp_table =
  tt_rows :: "row list"
  tt_version :: nat

record record_state =
  st_temporary :: "nat option"
  st_view :: "nat list"
  st_at :: nat
  st_viewVersion :: nat
  st_viewFilters :: "field_filter list"
  st_viewKey :: "(int \<times> bool) list"
  st_viewAscending :: bool
  st_viewDirty :: bool
  st_filters :: "field_filter list"
  st_key :: "(int \<times> bool) list"
  st_ascending :: bool
  st_group :: int
  st_marks :: "string set"
  st_markedOnly :: bool
  st_positioned :: bool
  st_observed :: int

definition NewState :: record_state where
  "NewState = \<lparr>st_temporary = None, st_view = [], st_at = 0, st_viewVersion = 0, st_viewFilters = [], st_viewKey = [],
     st_viewAscending = True, st_viewDirty = True, st_filters = [], st_key = [], st_ascending = True, st_group = 0,
     st_marks = {}, st_markedOnly = False, st_positioned = False, st_observed = 0\<rparr>"

record held =
  hd_temp :: temp_table
  hd_state :: record_state
  hd_row :: row

section \<open>The key\<close>

definition FieldOf :: "table_def \<Rightarrow> int \<Rightarrow> al_error + field_def" where
  "FieldOf table no =
     (case FindField table no of
        Some def \<Rightarrow> Inr def
      | None \<Rightarrow> Inl (Error (''the table carries no field '' @ int_text no) []))"

definition PrimaryKey :: "table_def \<Rightarrow> int list" where
  "PrimaryKey table = (if td_keys table = [] then [] else hd (td_keys table))"

fun Ordered :: "row \<Rightarrow> row \<Rightarrow> table_def \<Rightarrow> int list \<Rightarrow> al_error + ordering" where
  "Ordered a b table [] = Inr Ord_equal"
| "Ordered a b table (no # nos) =
     andThen (FieldOf table no) (\<lambda>def.
       let order = CompareField a b def in
       if order \<noteq> Ord_equal then Inr order else Ordered a b table nos)"

text \<open>The two lower-bound searches, over the rows and over the view.\<close>

function BoundLoop :: "(nat \<Rightarrow> 'e + bool) \<Rightarrow> nat \<Rightarrow> nat \<Rightarrow> 'e + nat" where
  "BoundLoop lower lo hi =
     (if lo < hi then
        (let middle = lo + (hi - lo) div 2 in
         andThen (lower middle) (\<lambda>b. if b then BoundLoop lower (middle + 1) hi else BoundLoop lower lo middle))
      else Inr lo)"
  by pat_completeness auto
termination
  by (relation "measure (\<lambda>(lower, lo, hi). hi - lo)") auto

declare BoundLoop.simps [simp del]

definition LowerBound :: "temp_table \<Rightarrow> table_def \<Rightarrow> row \<Rightarrow> al_error + nat" where
  "LowerBound temp table r =
     BoundLoop (\<lambda>i. andThen (Ordered (tt_rows temp ! i) r table (PrimaryKey table)) (\<lambda>c. Inr (c = Ord_less)))
       0 (length (tt_rows temp))"

definition SameKeyAt :: "temp_table \<Rightarrow> table_def \<Rightarrow> nat \<Rightarrow> row \<Rightarrow> al_error + bool" where
  "SameKeyAt temp table i r =
     (if i < length (tt_rows temp)
      then andThen (Ordered (tt_rows temp ! i) r table (PrimaryKey table)) (\<lambda>c. Inr (c = Ord_equal))
      else Inr False)"

section \<open>Reading and writing rows\<close>

definition TempInsert :: "table_def \<Rightarrow> held \<Rightarrow> al_error + (held \<times> bool)" where
  "TempInsert table h =
     andThen (LowerBound (hd_temp h) table (hd_row h)) (\<lambda>i.
     andThen (SameKeyAt (hd_temp h) table i (hd_row h)) (\<lambda>same.
       if same then Inr (h, False)
       else Inr (h\<lparr>hd_temp := \<lparr>tt_rows = take i (tt_rows (hd_temp h)) @ hd_row h # drop i (tt_rows (hd_temp h)),
         tt_version = tt_version (hd_temp h) + 1\<rparr>\<rparr>, True)))"

definition TempGet :: "table_def \<Rightarrow> held \<Rightarrow> al_error + (held \<times> bool)" where
  "TempGet table h =
     andThen (LowerBound (hd_temp h) table (hd_row h)) (\<lambda>i.
     andThen (SameKeyAt (hd_temp h) table i (hd_row h)) (\<lambda>same.
       if \<not> same then Inr (h, False) else Inr (h\<lparr>hd_row := tt_rows (hd_temp h) ! i\<rparr>, True)))"

definition TempModify :: "table_def \<Rightarrow> held \<Rightarrow> al_error + (held \<times> bool)" where
  "TempModify table h =
     andThen (LowerBound (hd_temp h) table (hd_row h)) (\<lambda>i.
     andThen (SameKeyAt (hd_temp h) table i (hd_row h)) (\<lambda>same.
       if \<not> same then Inr (h, False)
       else Inr (h\<lparr>hd_temp := \<lparr>tt_rows = (tt_rows (hd_temp h))[i := hd_row h],
         tt_version = tt_version (hd_temp h) + 1\<rparr>\<rparr>, True)))"

definition TempDelete :: "table_def \<Rightarrow> held \<Rightarrow> al_error + (held \<times> bool)" where
  "TempDelete table h =
     andThen (LowerBound (hd_temp h) table (hd_row h)) (\<lambda>i.
     andThen (SameKeyAt (hd_temp h) table i (hd_row h)) (\<lambda>same.
       if \<not> same then Inr (h, False)
       else Inr (h\<lparr>hd_temp := \<lparr>tt_rows = take i (tt_rows (hd_temp h)) @ drop (i + 1) (tt_rows (hd_temp h)),
         tt_version = tt_version (hd_temp h) + 1\<rparr>\<rparr>, True)))"

function DeleteLoop :: "bound_filter list \<Rightarrow> row list \<Rightarrow> nat \<Rightarrow> int \<Rightarrow> row list \<times> int" where
  "DeleteLoop fs rows index removed =
     (if index < length rows then
        (if FilterMatches fs (rows ! index)
         then DeleteLoop fs (take index rows @ drop (index + 1) rows) index (removed + 1)
         else DeleteLoop fs rows (index + 1) removed)
      else (rows, removed))"
  by pat_completeness auto
termination
  by (relation "measure (\<lambda>(fs, rows, index, removed). length rows - index)") auto

declare DeleteLoop.simps [simp del]

definition TempDeleteAll :: "table_def \<Rightarrow> held \<Rightarrow> al_error + (held \<times> int)" where
  "TempDeleteAll table h =
     andThen (MakeFilter table (st_filters (hd_state h))) (\<lambda>fs.
       let (rows, removed) = DeleteLoop fs (tt_rows (hd_temp h)) 0 0 in
       Inr (h\<lparr>hd_temp := \<lparr>tt_rows = rows,
         tt_version = (if removed \<noteq> 0 then tt_version (hd_temp h) + 1 else tt_version (hd_temp h))\<rparr>\<rparr>, removed))"

definition Selected :: "table_def \<Rightarrow> record_state \<Rightarrow> bound_filter list \<Rightarrow> row \<Rightarrow> bool" where
  "Selected table state fs r \<longleftrightarrow>
     (if st_markedOnly state \<and> MarkKey r table \<notin> st_marks state then False else FilterMatches fs r)"

definition TempCount :: "table_def \<Rightarrow> held \<Rightarrow> al_error + int" where
  "TempCount table h =
     andThen (MakeFilter table (st_filters (hd_state h))) (\<lambda>fs.
       Inr (foldl (\<lambda>count r. if Selected table (hd_state h) fs r then count + 1 else count) 0 (tt_rows (hd_temp h))))"

definition TempIsEmpty :: "table_def \<Rightarrow> held \<Rightarrow> al_error + bool" where
  "TempIsEmpty table h = andThen (TempCount table h) (\<lambda>n. Inr (n = 0))"

definition SumStep :: "field_def \<Rightarrow> row \<Rightarrow> decimal \<times> int \<Rightarrow> al_error + (decimal \<times> int)" where
  "SumStep def r acc =
     (case (fd_type def, r (fd_no def)) of
        (Decimal_type, DecimalCell d) \<Rightarrow>
          (case AddDecimal (fst acc) d of
             Inl (DecimalError msg) \<Rightarrow> Inl (Error msg [])
           | Inr added \<Rightarrow> Inr (added, snd acc))
      | (Integer_type, IntegerCell i) \<Rightarrow> Inr (fst acc, snd acc + i)
      | (BigInteger_type, IntegerCell i) \<Rightarrow> Inr (fst acc, snd acc + i)
      | (Duration_type, DurationCell ms) \<Rightarrow> Inr (fst acc, snd acc + ms)
      | _ \<Rightarrow> Inr acc)"

fun SumLoop :: "table_def \<Rightarrow> record_state \<Rightarrow> bound_filter list \<Rightarrow> field_def \<Rightarrow> row list \<Rightarrow> decimal \<times> int \<Rightarrow>
    al_error + (decimal \<times> int)" where
  "SumLoop table state fs def [] acc = Inr acc"
| "SumLoop table state fs def (r # rows) acc =
     (if \<not> Selected table state fs r then SumLoop table state fs def rows acc
      else andThen (SumStep def r acc) (SumLoop table state fs def rows))"

definition TempCalcSum :: "table_def \<Rightarrow> field_def \<Rightarrow> held \<Rightarrow> al_error + held" where
  "TempCalcSum table def h =
     andThen (MakeFilter table (st_filters (hd_state h))) (\<lambda>fs.
     andThen (SumLoop table (hd_state h) fs def (tt_rows (hd_temp h)) (MakeDecimal 0 0 False, 0)) (\<lambda>(dec, whole).
       Inr (case fd_type def of
          Decimal_type \<Rightarrow> h\<lparr>hd_row := (hd_row h)(fd_no def := DecimalCell dec)\<rparr>
        | Integer_type \<Rightarrow> h\<lparr>hd_row := (hd_row h)(fd_no def := IntegerCell (narrow32 whole))\<rparr>
        | BigInteger_type \<Rightarrow> h\<lparr>hd_row := (hd_row h)(fd_no def := IntegerCell whole)\<rparr>
        | Duration_type \<Rightarrow> h\<lparr>hd_row := (hd_row h)(fd_no def := DurationCell whole)\<rparr>
        | _ \<Rightarrow> h)))"

section \<open>The view\<close>

text \<open>\<open>std::ranges::stable_sort\<close> by insertion: before the first element that is not lower.\<close>

fun StableInsert :: "('a \<Rightarrow> 'a \<Rightarrow> bool) \<Rightarrow> 'a \<Rightarrow> 'a list \<Rightarrow> 'a list" where
  "StableInsert lower x [] = [x]"
| "StableInsert lower x (y # ys) = (if lower y x then y # StableInsert lower x ys else x # y # ys)"

definition StableSort :: "('a \<Rightarrow> 'a \<Rightarrow> bool) \<Rightarrow> 'a list \<Rightarrow> 'a list" where
  "StableSort lower xs = foldr (StableInsert lower) xs []"

definition Build :: "table_def \<Rightarrow> held \<Rightarrow> al_error + held" where
  "Build table h =
     (let state = hd_state h; rows = tt_rows (hd_temp h) in
      andThen (MakeFilter table (st_viewFilters state)) (\<lambda>fs.
      andThen (MakeOrder table (st_viewKey state) (st_viewAscending state)) (\<lambda>columns.
        Inr (h\<lparr>hd_state := state\<lparr>
          st_view := StableSort (\<lambda>a b. CompareColumns columns (rows ! a) (rows ! b) = Ord_less)
            (filter (\<lambda>i. Selected table state fs (rows ! i)) [0..<length rows]),
          st_viewVersion := tt_version (hd_temp h)\<rparr>\<rparr>))))"

definition Snapshot :: "table_def \<Rightarrow> held \<Rightarrow> al_error + held" where
  "Snapshot table h =
     (let state = hd_state h in
      andThen (Build table (h\<lparr>hd_state := state\<lparr>st_viewFilters := st_filters state, st_viewKey := st_key state,
        st_viewAscending := st_ascending state\<rparr>\<rparr>)) (\<lambda>h.
        Inr (h\<lparr>hd_state := (hd_state h)\<lparr>st_viewDirty := False\<rparr>\<rparr>)))"

definition Land :: "held \<Rightarrow> nat \<Rightarrow> held" where
  "Land h i = h\<lparr>hd_state := (hd_state h)\<lparr>st_at := i, st_positioned := True\<rparr>,
     hd_row := tt_rows (hd_temp h) ! (st_view (hd_state h) ! i)\<rparr>"

definition RowOf :: "held \<Rightarrow> nat \<Rightarrow> row" where
  "RowOf h i = tt_rows (hd_temp h) ! (st_view (hd_state h) ! i)"

text \<open>\<open>Refresh\<close>: the anchor is the position and whether the row was found there.\<close>

definition Refresh :: "table_def \<Rightarrow> held \<Rightarrow> al_error + (held \<times> nat \<times> bool)" where
  "Refresh table h =
     (let selectionChanged = st_viewDirty (hd_state h);
          rowsChanged = (st_viewVersion (hd_state h) \<noteq> tt_version (hd_temp h)) in
      andThen (if selectionChanged then Snapshot table h else if rowsChanged then Build table h else Inr h) (\<lambda>h.
        if \<not> selectionChanged \<and> \<not> rowsChanged \<and> st_at (hd_state h) < length (st_view (hd_state h))
        then Inr (h, st_at (hd_state h), True)
        else
          andThen (MakeOrder table (st_viewKey (hd_state h)) (st_viewAscending (hd_state h))) (\<lambda>columns.
          andThen (BoundLoop (\<lambda>i. Inr (CompareColumns columns (RowOf h i) (hd_row h) = Ord_less))
              0 (length (st_view (hd_state h)))) (\<lambda>i.
          andThen (if i < length (st_view (hd_state h))
              then andThen (Ordered (RowOf h i) (hd_row h) table (PrimaryKey table)) (\<lambda>c. Inr (c = Ord_equal))
              else Inr False) (\<lambda>same.
            Inr (h\<lparr>hd_state := (hd_state h)\<lparr>st_at := if same then i else length (st_view (hd_state h))\<rparr>\<rparr>,
              i, same))))))"

definition TempFindSet :: "table_def \<Rightarrow> held \<Rightarrow> al_error + (held \<times> bool)" where
  "TempFindSet table h =
     andThen (Snapshot table (h\<lparr>hd_state := (hd_state h)\<lparr>st_positioned := False\<rparr>\<rparr>)) (\<lambda>h.
       if st_view (hd_state h) = [] then Inr (h, False) else Inr (Land h 0, True))"

definition FindStep :: "held \<Rightarrow> order_column list \<Rightarrow> char \<Rightarrow> al_error + (held \<times> bool)" where
  "FindStep h columns step =
     (let n = length (st_view (hd_state h));
          compare = (\<lambda>i. CompareColumns columns (RowOf h i) (hd_row h));
          landAt = (\<lambda>found. case found of Some i \<Rightarrow> Inr (Land h i, True) | None \<Rightarrow> Inr (h, False)) in
      if n = 0 then Inr (h, False)
      else if step = CHR ''-'' then Inr (Land h 0, True)
      else if step = CHR ''+'' then Inr (Land h (n - 1), True)
      else if step = CHR ''='' then landAt (List.find (\<lambda>i. compare i = Ord_equal) [0..<n])
      else if step = CHR ''>'' then landAt (List.find (\<lambda>i. compare i = Ord_greater) [0..<n])
      else if step = CHR ''<'' then landAt (List.find (\<lambda>i. compare i = Ord_less) (rev [0..<n]))
      else Inl (Error (''Record.Find: '' @ [quote_char, step, quote_char] @
        '' is not one of the characters record-find-method.md declares'') []))"

fun FindLoop :: "table_def \<Rightarrow> string \<Rightarrow> order_column list \<Rightarrow> string \<Rightarrow> held \<Rightarrow> al_error + (held \<times> bool)" where
  "FindLoop table which columns [] h = Inr (h, False)"
| "FindLoop table which columns (step # steps) h =
     (if (step = CHR ''-'' \<or> step = CHR ''+'') \<and> length which \<noteq> 1
      then Inl (Error (''Record.Find: '' @ [quote_char] @ ''-'' @ [quote_char] @ '' and '' @ [quote_char] @ ''+'' @
        [quote_char] @ '' can only be used alone, and this one reads '' @ [double_quote_char] @ which @
        [double_quote_char]) [])
      else andThen (Snapshot table (h\<lparr>hd_state := (hd_state h)\<lparr>st_positioned := False\<rparr>\<rparr>)) (\<lambda>h.
        andThen (FindStep h columns step) (\<lambda>(h, found).
          if found then Inr (h, True) else FindLoop table which columns steps h)))"

definition TempFind :: "table_def \<Rightarrow> string \<Rightarrow> held \<Rightarrow> al_error + (held \<times> bool)" where
  "TempFind table which h =
     (let which = (if which = [] then ''='' else which) in
      andThen (MakeOrder table (st_key (hd_state h)) (st_ascending (hd_state h))) (\<lambda>columns.
        FindLoop table which columns which h))"

text \<open>The loop of \<open>TempNext\<close>: the position landed on last and how many steps were taken.\<close>

fun NextLoop :: "nat \<Rightarrow> bool \<Rightarrow> nat \<Rightarrow> nat \<Rightarrow> nat \<Rightarrow> int \<Rightarrow> nat \<times> int" where
  "NextLoop count backwards 0 i final taken = (final, taken)"
| "NextLoop count backwards (Suc n) i final taken =
     (if count \<le> i then (final, taken)
      else if backwards \<and> i = 0 then (i, taken + 1)
      else NextLoop count backwards n (if backwards then i - 1 else i + 1) i (taken + 1))"

definition TempNext :: "table_def \<Rightarrow> int \<Rightarrow> held \<Rightarrow> al_error + (held \<times> int)" where
  "TempNext table steps h =
     (if steps = 0 \<or> \<not> st_positioned (hd_state h) then Inr (h, 0)
      else andThen (Refresh table h) (\<lambda>(h, anchor, found).
        let start = (if 0 < steps \<and> found then anchor + 1 else anchor) in
        if steps < 0 \<and> start = 0 then Inr (h, 0)
        else let start = (if steps < 0 then start - 1 else start);
                 (final, taken) = NextLoop (length (st_view (hd_state h))) (steps < 0) (nat \<bar>steps\<bar>) start start 0 in
          Inr (if taken \<noteq> 0 then Land h final else h, if steps < 0 then - taken else taken)))"

section \<open>Variables that share rows\<close>

record record_var =
  rv_row :: row
  rv_state :: "record_state option"

type_synonym heap = "nat \<Rightarrow> temp_table option"

definition EnsureState :: "record_var \<Rightarrow> record_state" where
  "EnsureState v = (case rv_state v of Some st \<Rightarrow> st | None \<Rightarrow> NewState)"

definition TempOf :: "record_var \<Rightarrow> nat option" where
  "TempOf v = (case rv_state v of Some st \<Rightarrow> st_temporary st | None \<Rightarrow> None)"

text \<open>
  An operation on the rows a variable reaches. A variable without rows is a null dereference in the
  code, which no caller makes: no value.
\<close>

definition OnRows :: "(held \<Rightarrow> 'e + (held \<times> 'b)) \<Rightarrow> heap \<Rightarrow> record_var \<Rightarrow> ('e + (heap \<times> record_var \<times> 'b)) option" where
  "OnRows operation hp v =
     (let st = EnsureState v in
      case st_temporary st of
        None \<Rightarrow> None
      | Some a \<Rightarrow>
          (case hp a of
             None \<Rightarrow> None
           | Some temp \<Rightarrow>
               Some (andThen (operation \<lparr>hd_temp = temp, hd_state = st, hd_row = rv_row v\<rparr>) (\<lambda>(h, b).
                 Inr (hp(a \<mapsto> hd_temp h), \<lparr>rv_row = hd_row h, rv_state = Some (hd_state h)\<rparr>, b)))))"

definition RuntimeMakeTemporary :: "nat \<Rightarrow> heap \<Rightarrow> record_var \<Rightarrow> heap \<times> record_var" where
  "RuntimeMakeTemporary fresh hp v =
     (hp(fresh \<mapsto> \<lparr>tt_rows = [], tt_version = 0\<rparr>),
      v\<lparr>rv_state := Some ((EnsureState v)\<lparr>st_temporary := Some fresh, st_view := [], st_viewDirty := True,
        st_positioned := False\<rparr>)\<rparr>)"

definition RuntimeReset :: "record_var \<Rightarrow> record_var" where
  "RuntimeReset v =
     (case rv_state v of
        None \<Rightarrow> v
      | Some st \<Rightarrow>
          let keep = st_temporary st; version = st_observed st;
              cleared = (if version \<noteq> 0 then Some (NewState\<lparr>st_observed := version\<rparr>) else None) in
          v\<lparr>rv_state := (case keep of
              Some a \<Rightarrow> Some ((case cleared of Some st \<Rightarrow> st | None \<Rightarrow> NewState)\<lparr>st_temporary := Some a\<rparr>)
            | None \<Rightarrow> cleared)\<rparr>)"

definition kMaximumFilterGroup :: int where
  "kMaximumFilterGroup = 255"

definition FilterGroup :: "record_var \<Rightarrow> int" where
  "FilterGroup v = (case rv_state v of Some st \<Rightarrow> st_group st | None \<Rightarrow> 0)"

definition SetFilterGroup :: "int \<Rightarrow> record_var \<Rightarrow> record_var \<times> int" where
  "SetFilterGroup g v =
     (let was = FilterGroup v in
      (if g \<le> kMaximumFilterGroup \<and> g \<noteq> was
       then v\<lparr>rv_state := Some ((EnsureState v)\<lparr>st_group := g\<rparr>)\<rparr> else v, was))"

definition RuntimeHasFilter :: "record_var \<Rightarrow> bool" where
  "RuntimeHasFilter v \<longleftrightarrow>
     (case rv_state v of
        None \<Rightarrow> False
      | Some st \<Rightarrow> list_ex (\<lambda>f. ff_group f = st_group st \<and> ff_text f \<noteq> []) (st_filters st))"

definition RuntimeIsTemporary :: "record_var \<Rightarrow> bool" where
  "RuntimeIsTemporary v \<longleftrightarrow> TempOf v \<noteq> None"

definition RuntimeShareTemporary :: "record_var \<Rightarrow> record_var \<Rightarrow> al_error + record_var" where
  "RuntimeShareTemporary v source =
     (let sourceTemporary = (TempOf source \<noteq> None); targetTemporary = (TempOf v \<noteq> None) in
      if \<not> sourceTemporary \<or> \<not> targetTemporary then
        Inl (Error (''Record.Copy(From, true) shares temporary rows, and '' @
          (if \<not> sourceTemporary \<and> \<not> targetTemporary then ''neither record is temporary''
           else if \<not> sourceTemporary then ''the source is not temporary'' else ''the target is not temporary'') @
          (if rv_state source = None then '' (the source has no state at all)'' else [])) [])
      else Inr (v\<lparr>rv_state := Some ((EnsureState v)\<lparr>st_temporary := TempOf source, st_view := [],
        st_positioned := False\<rparr>)\<rparr>))"

definition RuntimeBorrowTemporary :: "record_var \<Rightarrow> record_var \<Rightarrow> record_var" where
  "RuntimeBorrowTemporary v source =
     (if TempOf source = None then v
      else v\<lparr>rv_state := Some ((EnsureState v)\<lparr>st_temporary := TempOf source\<rparr>)\<rparr>)"

definition RuntimeAdoptTemporary :: "record_var \<Rightarrow> record_var \<Rightarrow> record_var" where
  "RuntimeAdoptTemporary v source =
     (if TempOf source = None then v
      else v\<lparr>rv_state := Some ((EnsureState v)\<lparr>st_temporary := TempOf source, st_view := [],
        st_positioned := False\<rparr>)\<rparr>)"

end
