(* ===== verification/RecordFacts.thy ===== *)
theory RecordFacts
  imports Temporary
begin

text \<open>
  What the operations on rows rely on: \<open>CompareField\<close>, \<open>CompareColumns\<close> and \<open>Ordered\<close> are total orders
  on rows whose cells have their fields' types (locale \<open>key_order\<close>, interpreted on all three), the
  binary search over sorted rows finds what a scan finds, and \<open>Field\<close> finds what a scan of the fields finds.
\<close>

section \<open>Rows of a table\<close>

definition cell_fits :: "field_type \<Rightarrow> cell \<Rightarrow> bool" where
  "cell_fits t c =
     (case c of
        IntegerCell _ \<Rightarrow> t = Integer_type \<or> t = BigInteger_type
      | BooleanCell _ \<Rightarrow> t = Boolean_type
      | OrdinalCell _ \<Rightarrow> t = Option_type \<or> t = Enum_type
      | DecimalCell d \<Rightarrow> t = Decimal_type \<and> decimal_ok d
      | DateCell _ \<Rightarrow> t = Date_type
      | TimeCell _ \<Rightarrow> t = Time_type
      | DateTimeCell _ \<Rightarrow> t = DateTime_type
      | DurationCell _ \<Rightarrow> t = Duration_type
      | TextCell _ \<Rightarrow> t = Text_type \<or> t = Code_type
      | BlobCell _ \<Rightarrow> t = Blob_type
      | RenderedCell _ _ _ \<Rightarrow> t \<in> {Guid_type, RecordId_type, DateFormula_type, TableFilter_type, Media_type,
          MediaSet_type})"

definition field_fits :: "field_def \<Rightarrow> row \<Rightarrow> bool" where
  "field_fits def r \<longleftrightarrow> cell_fits (fd_type def) (r (fd_no def))"

definition row_fits :: "table_def \<Rightarrow> row \<Rightarrow> bool" where
  "row_fits table r \<longleftrightarrow> list_all (\<lambda>def. field_fits def r) (td_fields table)"

section \<open>Orders\<close>

text \<open>
  Where a lower bound stands, rows in order with no two of the same key, and the row of a key.
\<close>

definition key_bound :: "('r \<Rightarrow> 'r \<Rightarrow> ordering) \<Rightarrow> 'r list \<Rightarrow> 'r \<Rightarrow> nat \<Rightarrow> bool" where
  "key_bound compare rows r i \<longleftrightarrow> i \<le> length rows \<and> (\<forall>j < i. compare (rows ! j) r = Ord_less) \<and>
    (\<forall>j. i \<le> j \<and> j < length rows \<longrightarrow> compare (rows ! j) r \<noteq> Ord_less)"

definition keyed :: "('r \<Rightarrow> 'r \<Rightarrow> ordering) \<Rightarrow> 'r list \<Rightarrow> bool" where
  "keyed compare rows \<longleftrightarrow> sorted_wrt (\<lambda>a b. compare a b = Ord_less) rows"

definition row_at :: "('r \<Rightarrow> 'r \<Rightarrow> ordering) \<Rightarrow> 'r list \<Rightarrow> 'r \<Rightarrow> 'r option" where
  "row_at compare rows k = List.find (\<lambda>x. compare x k = Ord_equal) rows"

lemma in_drop: "x \<in> set (drop i xs) \<longleftrightarrow> (\<exists>j. i + j < length xs \<and> x = xs ! (i + j))"
proof
  assume "x \<in> set (drop i xs)"
  then obtain j where "j < length (drop i xs)" "drop i xs ! j = x" unfolding in_set_conv_nth by blast
  then show "\<exists>j. i + j < length xs \<and> x = xs ! (i + j)" by (intro exI [of _ j]) auto
next
  assume "\<exists>j. i + j < length xs \<and> x = xs ! (i + j)"
  then obtain j where "i + j < length xs" "x = xs ! (i + j)" by blast
  then show "x \<in> set (drop i xs)" unfolding in_set_conv_nth by (intro exI [of _ j]) auto
qed

lemma keyed_weak: "keyed compare rows \<Longrightarrow> sorted_wrt (\<lambda>a b. compare a b \<noteq> Ord_greater) rows"
  unfolding keyed_def by (erule sorted_wrt_mono_rel [rotated]) simp

locale key_order =
  fixes row_ok :: "'r \<Rightarrow> bool" and compare :: "'r \<Rightarrow> 'r \<Rightarrow> ordering"
  assumes flip: "row_ok a \<Longrightarrow> row_ok b \<Longrightarrow> compare b a = flip_ordering (compare a b)"
    and trans: "row_ok a \<Longrightarrow> row_ok b \<Longrightarrow> row_ok c \<Longrightarrow> compare a b \<noteq> Ord_greater \<Longrightarrow>
      compare b c \<noteq> Ord_greater \<Longrightarrow> compare a c \<noteq> Ord_greater"
begin

lemma refl: "row_ok a \<Longrightarrow> compare a a = Ord_equal"
  using flip [of a a] by (cases "compare a a") auto

lemma less_trans:
  assumes "row_ok a" "row_ok b" "row_ok c" "compare a b \<noteq> Ord_greater" "compare b c \<noteq> Ord_greater"
    "compare a b = Ord_less \<or> compare b c = Ord_less"
  shows "compare a c = Ord_less"
proof (cases "compare a c")
  case Ord_equal
  then have ca: "compare c a = Ord_equal" using flip [of a c] assms by simp
  then have "compare c b \<noteq> Ord_greater" using trans [of c a b] assms by simp
  moreover have "compare b a \<noteq> Ord_greater" using trans [of b c a] assms ca by simp
  ultimately show ?thesis using assms(6) flip [of b c] flip [of a b] assms(1-3) by auto
qed (use trans [OF assms(1-5)] in simp_all)

lemma equal_left:
  assumes "row_ok a" "row_ok b" "row_ok c" "compare a b = Ord_equal"
  shows "compare a c = compare b c"
proof -
  have ba: "compare b a = Ord_equal" using flip [of a b] assms by simp
  show ?thesis
  proof (cases "compare b c")
    case Ord_less
    then show ?thesis using less_trans [of a b c] assms by simp
  next
    case Ord_equal
    then have "compare c b = Ord_equal" using flip [of b c] assms by simp
    then have "compare a c \<noteq> Ord_greater" "compare c a \<noteq> Ord_greater"
      using trans [of a b c] trans [of c b a] assms Ord_equal ba by simp_all
    then show ?thesis using flip [of a c] assms Ord_equal by (cases "compare a c") auto
  next
    case Ord_greater
    then have "compare c b = Ord_less" using flip [of b c] assms by simp
    then have "compare c a = Ord_less" using less_trans [of c b a] assms ba by simp
    then show ?thesis using flip [of c a] assms Ord_greater by simp
  qed
qed

lemma equal_right:
  assumes "row_ok a" "row_ok b" "row_ok c" "compare b c = Ord_equal"
  shows "compare a b = compare a c"
  using equal_left [of b c a] flip [of b a] flip [of c a] assms by simp

lemma search:
  assumes ok: "list_all row_ok rows" "row_ok r"
    and sorted: "sorted_wrt (\<lambda>a b. compare a b \<noteq> Ord_greater) rows"
    and lower: "\<And>i. i < length rows \<Longrightarrow> lower i = Inr (compare (rows ! i) r = Ord_less)"
    and bounds: "lo \<le> hi" "hi \<le> length rows"
    and below: "\<forall>j < lo. compare (rows ! j) r = Ord_less"
    and above: "\<forall>j. hi \<le> j \<and> j < length rows \<longrightarrow> compare (rows ! j) r \<noteq> Ord_less"
  shows "\<exists>i. BoundLoop lower lo hi = Inr i \<and> key_bound compare rows r i"
  using lower bounds below above
proof (induction lower lo hi rule: BoundLoop.induct)
  case (1 lower lo hi)
  show ?case
  proof (cases "lo < hi")
    case False
    with "1.prems" show ?thesis by (subst BoundLoop.simps) (auto simp: key_bound_def)
  next
    case True
    obtain m where m: "m = lo + (hi - lo) div 2" by blast
    with True "1.prems" have mb: "lo \<le> m" "m < hi" "m < length rows" by auto
    have okm: "row_ok (rows ! j)" if "j < length rows" for j using ok(1) that by (simp add: list_all_length)
    have between: "compare (rows ! i) (rows ! j) \<noteq> Ord_greater" if "i < j" "j < length rows" for i j
      using sorted that by (simp add: sorted_wrt_iff_nth_less)
    show ?thesis
    proof (cases "compare (rows ! m) r = Ord_less")
      case less: True
      have "\<forall>j < m + 1. compare (rows ! j) r = Ord_less"
      proof (intro allI impI)
        fix j assume "j < m + 1"
        then show "compare (rows ! j) r = Ord_less"
          using less less_trans [of "rows ! j" "rows ! m" r] okm mb ok(2) between [of j m] by (cases "j = m") auto
      qed
      from "1.IH" [OF True m, of True] this show ?thesis
        using "1.prems" True mb less by (subst BoundLoop.simps) (simp add: m [symmetric] Let_def)
    next
      case ge: False
      have "\<forall>j. m \<le> j \<and> j < length rows \<longrightarrow> compare (rows ! j) r \<noteq> Ord_less"
      proof (intro allI impI notI)
        fix j assume j: "m \<le> j \<and> j < length rows" and "compare (rows ! j) r = Ord_less"
        then have "compare (rows ! m) r = Ord_less"
          using less_trans [of "rows ! m" "rows ! j" r] okm mb ok(2) between [of m j] ge by (cases "j = m") auto
        with ge show False by simp
      qed
      from "1.IH"(2) [OF True m, of False] this show ?thesis
        using "1.prems" True mb ge by (subst BoundLoop.simps) (simp add: m [symmetric] Let_def)
    qed
  qed
qed

lemma bound_found:
  assumes "list_all row_ok rows" "row_ok r" "keyed compare rows" "key_bound compare rows r i"
  shows "i < length rows \<and> compare (rows ! i) r = Ord_equal \<longleftrightarrow> (\<exists>x \<in> set rows. compare x r = Ord_equal)"
proof
  assume "\<exists>x \<in> set rows. compare x r = Ord_equal"
  then obtain j where j: "j < length rows" "compare (rows ! j) r = Ord_equal" by (auto simp: in_set_conv_nth)
  then have "i \<le> j" using assms(4) by (metis key_bound_def not_le ordering.distinct(1))
  moreover have "compare (rows ! i) r = Ord_equal" if "i < j"
  proof -
    have ok: "row_ok (rows ! i)" "row_ok (rows ! j)" using assms(1) that j by (auto simp: list_all_length)
    have "compare (rows ! i) (rows ! j) = Ord_less"
      using assms(3) that j by (simp add: keyed_def sorted_wrt_iff_nth_less)
    then have "compare (rows ! i) r = Ord_less" using equal_right [of "rows ! i" "rows ! j" r] ok assms(2) j by simp
    moreover have "compare (rows ! i) r \<noteq> Ord_less" using assms(4) that j by (simp add: key_bound_def)
    ultimately show ?thesis by simp
  qed
  ultimately show "i < length rows \<and> compare (rows ! i) r = Ord_equal" using j by (cases "i = j") auto
qed (use nth_mem in blast)

lemma keyed_distinct:
  assumes "list_all row_ok rows" "keyed compare rows" "x \<in> set rows" "y \<in> set rows" "compare x y = Ord_equal"
  shows "x = y"
proof -
  obtain i j where ij: "i < length rows" "rows ! i = x" "j < length rows" "rows ! j = y"
    using assms(3,4) by (metis in_set_conv_nth)
  have "compare (rows ! a) (rows ! b) = Ord_less" if "a < b" "b < length rows" for a b
    using assms(2) that by (simp add: keyed_def sorted_wrt_iff_nth_less)
  moreover have "compare y x = Ord_equal" using flip [of x y] assms by (simp add: list_all_iff)
  ultimately show ?thesis using ij assms(5) by (metis linorder_neqE_nat ordering.distinct(1))
qed

lemma row_at_iff:
  assumes "list_all row_ok rows" "keyed compare rows" "row_ok k"
  shows "row_at compare rows k = Some x \<longleftrightarrow> x \<in> set rows \<and> compare x k = Ord_equal"
proof
  assume "row_at compare rows k = Some x"
  then show "x \<in> set rows \<and> compare x k = Ord_equal" by (auto simp: row_at_def find_Some_iff)
next
  assume x: "x \<in> set rows \<and> compare x k = Ord_equal"
  then obtain y where y: "row_at compare rows k = Some y"
    by (cases "row_at compare rows k") (auto simp: row_at_def find_None_iff)
  then have yk: "y \<in> set rows" "compare y k = Ord_equal" by (auto simp: row_at_def find_Some_iff)
  have ok: "row_ok x" "row_ok y" using assms(1) x yk by (auto simp: list_all_iff)
  then have "compare x y = Ord_equal" using equal_left [of x k y] flip [of y k] x yk assms(3) by simp
  then show "row_at compare rows k = Some x" using keyed_distinct [OF assms(1,2)] x yk y by blast
qed

lemma row_at_put:
  assumes "list_all row_ok rows" "keyed compare rows" "keyed compare rows'" "row_ok r" "row_ok k"
    and put: "set rows' = insert r {x \<in> set rows. compare x r \<noteq> Ord_equal}"
  shows "row_at compare rows' k = (if compare r k = Ord_equal then Some r else row_at compare rows k)"
proof -
  have ok': "list_all row_ok rows'" using assms(1,4) put by (auto simp: list_all_iff)
  have other: "compare x r \<noteq> Ord_equal" if "x \<in> set rows" "compare x k = Ord_equal" "compare r k \<noteq> Ord_equal" for x
    using that equal_left [of x r k] assms(1,4,5) by (auto simp: list_all_iff)
  have "row_at compare rows' k = Some x \<longleftrightarrow>
      (if compare r k = Ord_equal then Some r else row_at compare rows k) = Some x" for x
    using row_at_iff [OF ok' assms(3,5), of x] row_at_iff [OF ok' assms(3,5), of r] row_at_iff [OF assms(1,2,5), of x]
      put other by auto
  then show ?thesis by (metis not_Some_eq)
qed

lemma row_at_remove:
  assumes "list_all row_ok rows" "keyed compare rows" "keyed compare rows'" "row_ok r" "row_ok k"
    and removed: "set rows' = {x \<in> set rows. compare x r \<noteq> Ord_equal}"
  shows "row_at compare rows' k = (if compare r k = Ord_equal then None else row_at compare rows k)"
proof -
  have ok': "list_all row_ok rows'" using assms(1) removed by (auto simp: list_all_iff)
  have same: "compare x r = Ord_equal \<longleftrightarrow> compare r k = Ord_equal" if "x \<in> set rows" "compare x k = Ord_equal" for x
    using that equal_left [of x k r] flip [of k r] assms(1,4,5) by (auto simp: list_all_iff)
  have "row_at compare rows' k = Some x \<longleftrightarrow>
      (if compare r k = Ord_equal then None else row_at compare rows k) = Some x" for x
    using row_at_iff [OF ok' assms(3,5), of x] row_at_iff [OF assms(1,2,5), of x] removed same by auto
  then show ?thesis by (metis not_Some_eq)
qed

lemma insert_keyed:
  assumes ok: "list_all row_ok rows" "row_ok r" and "keyed compare rows" and bound: "key_bound compare rows r i"
    and new: "\<forall>x \<in> set rows. compare x r \<noteq> Ord_equal"
  shows "keyed compare (take i rows @ r # drop i rows)" and "set (take i rows @ r # drop i rows) = insert r (set rows)"
proof -
  have tl: "compare x r = Ord_less" if "x \<in> set (take i rows)" for x
    using that bound by (auto simp: in_set_conv_nth key_bound_def)
  have dg: "compare r x = Ord_less" if x: "x \<in> set (drop i rows)" for x
  proof -
    obtain j where j: "i + j < length rows" "x = rows ! (i + j)" using iffD1 [OF in_drop x] by blast
    then have "compare x r \<noteq> Ord_less" using bound by (simp add: key_bound_def)
    then have "compare x r = Ord_greater" using new in_set_dropD [OF x] by (cases "compare x r") auto
    then show ?thesis using flip [of x r] in_set_dropD [OF x] ok by (simp add: list_all_iff)
  qed
  have "sorted_wrt (\<lambda>a b. compare a b = Ord_less) (take i rows @ drop i rows)" using assms(3) by (simp add: keyed_def)
  then show "keyed compare (take i rows @ r # drop i rows)" unfolding keyed_def sorted_wrt_append using tl dg by simp
  have "set rows = set (take i rows) \<union> set (drop i rows)" by (metis append_take_drop_id set_append)
  then show "set (take i rows @ r # drop i rows) = insert r (set rows)" by simp
qed

lemma others_at:
  assumes "list_all row_ok rows" "row_ok r" "keyed compare rows" "i < length rows" "compare (rows ! i) r = Ord_equal"
    "j < length rows"
  shows "compare (rows ! j) r = Ord_equal \<longleftrightarrow> j = i" "j < i \<Longrightarrow> compare (rows ! j) r = Ord_less"
    "i < j \<Longrightarrow> compare (rows ! j) r = Ord_greater"
proof -
  have ok: "row_ok (rows ! j)" "row_ok (rows ! i)" using assms by (auto simp: list_all_length)
  have k: "compare (rows ! a) (rows ! b) = Ord_less" if "a < b" "b < length rows" for a b
    using assms(3) that by (simp add: keyed_def sorted_wrt_iff_nth_less)
  have e: "compare (rows ! j) (rows ! i) = compare (rows ! j) r" using equal_right ok assms(2,5) by blast
  show l: "j < i \<Longrightarrow> compare (rows ! j) r = Ord_less" using k [of j i] e assms by simp
  show g: "i < j \<Longrightarrow> compare (rows ! j) r = Ord_greater"
    using k [of i j] e assms(6) flip [of "rows ! i" "rows ! j"] ok by simp
  show "compare (rows ! j) r = Ord_equal \<longleftrightarrow> j = i" using l g assms(5) by (cases i j rule: linorder_cases) auto
qed

lemma update_keyed:
  assumes "list_all row_ok rows" "row_ok r" "keyed compare rows" "i < length rows" "compare (rows ! i) r = Ord_equal"
  shows "keyed compare (rows[i := r])" and "set (rows[i := r]) = insert r {x \<in> set rows. compare x r \<noteq> Ord_equal}"
proof -
  note at = others_at [OF assms]
  have k: "compare (rows ! a) (rows ! b) = Ord_less" if "a < b" "b < length rows" for a b
    using assms(3) that by (simp add: keyed_def sorted_wrt_iff_nth_less)
  show "keyed compare (rows[i := r])"
    unfolding keyed_def sorted_wrt_iff_nth_less
  proof (intro allI impI)
    fix a b assume ab: "a < b" "b < length (rows[i := r])"
    then have "row_ok (rows ! b)" using assms(1) by (simp add: list_all_length)
    then have "compare r (rows ! b) = Ord_less" if "i < b" using at(3) [of b] flip [of "rows ! b" r] ab that assms(2) by simp
    then show "compare (rows[i := r] ! a) (rows[i := r] ! b) = Ord_less"
      using ab k at(2) [of a] by (cases "a = i"; cases "b = i") simp_all
  qed
  show "set (rows[i := r]) = insert r {x \<in> set rows. compare x r \<noteq> Ord_equal}"
    using at(1) assms(4) by (fastforce simp: in_set_conv_nth nth_list_update)
qed

lemma remove_keyed:
  assumes "list_all row_ok rows" "row_ok r" "keyed compare rows" "i < length rows" "compare (rows ! i) r = Ord_equal"
  shows "keyed compare (take i rows @ drop (i + 1) rows)"
    and "set (take i rows @ drop (i + 1) rows) = {x \<in> set rows. compare x r \<noteq> Ord_equal}"
proof -
  note at = others_at [OF assms]
  have split: "rows = take i rows @ rows ! i # drop (i + 1) rows" using assms(4) by (simp add: Cons_nth_drop_Suc)
  have "sorted_wrt (\<lambda>a b. compare a b = Ord_less) (take i rows @ rows ! i # drop (i + 1) rows)"
    using assms(3) split by (simp add: keyed_def)
  then show "keyed compare (take i rows @ drop (i + 1) rows)"
    unfolding keyed_def sorted_wrt_append by simp
  have "compare x r \<noteq> Ord_equal" if "x \<in> set (take i rows)" for x
    using that at(1) by (auto simp: in_set_conv_nth)
  moreover have "compare x r \<noteq> Ord_equal" if x: "x \<in> set (drop (i + 1) rows)" for x
  proof -
    obtain j where "i + 1 + j < length rows" "x = rows ! (i + 1 + j)" using iffD1 [OF in_drop x] by blast
    then show ?thesis using at(1) [of "i + 1 + j"] by simp
  qed
  moreover have "set rows = set (take i rows) \<union> insert (rows ! i) (set (drop (i + 1) rows))"
    by (subst (1) split) simp
  ultimately show "set (take i rows @ drop (i + 1) rows) = {x \<in> set rows. compare x r \<noteq> Ord_equal}"
    using assms(5) by auto
qed

end

section \<open>The order of fields and of columns\<close>

lemma key_order_by:
  assumes "\<And>a b. ok a \<Longrightarrow> ok b \<Longrightarrow> compare a b = spaceship (f a) (f b)"
  shows "key_order ok compare"
  by unfold_locales (auto simp: assms spaceship_flip)

lemma text_order_flip: "text_order b a = flip_ordering (text_order a b)"
  by (induction a b rule: text_order.induct) auto

lemma text_order_trans:
  "text_order a b \<noteq> Ord_greater \<Longrightarrow> text_order b c \<noteq> Ord_greater \<Longrightarrow> text_order a c \<noteq> Ord_greater"
proof (induction a b arbitrary: c rule: text_order.induct)
  case (4 x a y b)
  show ?case
  proof (cases c)
    case Nil
    with "4.prems" show ?thesis by simp
  next
    case (Cons z d)
    consider "code x < code y" | "code x = code y" | "code y < code x" by linarith
    then show ?thesis
    proof cases
      case 2
      then show ?thesis using "4.IH" [of d] "4.prems" Cons by (simp split: if_splits)
    qed (use "4.prems" Cons in \<open>simp_all split: if_splits\<close>)
  qed
qed (case_tac c; simp)+

lemma text_order_equal: "text_order a b = Ord_equal \<longleftrightarrow> a = b"
  by (induction a b rule: text_order.induct) (auto simp: code_inject dest: linorder_neqE_nat)

lemma key_order_text:
  assumes "\<And>a b. ok a \<Longrightarrow> ok b \<Longrightarrow> compare a b = text_order (f a) (f b)"
  shows "key_order ok compare"
proof (unfold_locales, goal_cases)
  case (1 a b)
  then show ?case using text_order_flip [of "f b" "f a"] by (simp add: assms)
next
  case (2 a b c)
  then show ?case using text_order_trans [of "f a" "f b" "f c"] by (simp add: assms)
qed

lemma DecimalLess_value:
  "decimal_ok x \<Longrightarrow> decimal_ok y \<Longrightarrow> DecimalLess x y \<longleftrightarrow> dec_value x < dec_value y"
  by (simp add: DecimalLess_def CompareDecimal_value)

lemma CompareField_decimal:
  assumes "a (fd_no def) = DecimalCell x" "b (fd_no def) = DecimalCell y" "decimal_ok x" "decimal_ok y"
  shows "CompareField a b def = spaceship (dec_value x) (dec_value y)"
  using assms by (auto simp: CompareField_def DecimalLess_value spaceship_def)

fun cell_integer :: "cell \<Rightarrow> int" where
  "cell_integer (IntegerCell i) = i"
| "cell_integer (BooleanCell b) = bool_int b"
| "cell_integer (OrdinalCell i) = i"
| "cell_integer (DateCell d) = serial d"
| "cell_integer (TimeCell t) = tm_milliseconds t"
| "cell_integer (DateTimeCell d) = dt_milliseconds d"
| "cell_integer _ = 0"

fun cell_decimal :: "cell \<Rightarrow> rat" where
  "cell_decimal (DecimalCell d) = dec_value d"
| "cell_decimal _ = 0"

lemma spaceship_serial: "spaceship x y = spaceship (serial x) (serial y)"
  by (simp add: spaceship_def less_date_def date.expand)

fun cell_kind :: "cell \<Rightarrow> nat" where
  "cell_kind (IntegerCell _) = 0"
| "cell_kind (BooleanCell _) = 1"
| "cell_kind (OrdinalCell _) = 2"
| "cell_kind (DecimalCell _) = 3"
| "cell_kind (DateCell _) = 4"
| "cell_kind (TimeCell _) = 5"
| "cell_kind (DateTimeCell _) = 6"
| "cell_kind (DurationCell _) = 7"
| "cell_kind (TextCell _) = 8"
| "cell_kind (BlobCell _) = 9"
| "cell_kind (RenderedCell _ _ _) = 10"

lemma fits_kind:
  "cell_fits t c \<Longrightarrow> cell_kind c = (case t of Integer_type \<Rightarrow> 0 | BigInteger_type \<Rightarrow> 0 | Boolean_type \<Rightarrow> 1
    | Option_type \<Rightarrow> 2 | Enum_type \<Rightarrow> 2 | Decimal_type \<Rightarrow> 3 | Date_type \<Rightarrow> 4 | Time_type \<Rightarrow> 5 | DateTime_type \<Rightarrow> 6
    | Duration_type \<Rightarrow> 7 | Text_type \<Rightarrow> 8 | Code_type \<Rightarrow> 8 | Blob_type \<Rightarrow> 9 | _ \<Rightarrow> 10)"
  by (cases c) (auto simp: cell_fits_def)

lemma fits_alike: "field_fits def a \<Longrightarrow> field_fits def b \<Longrightarrow> cell_kind (a (fd_no def)) = cell_kind (b (fd_no def))"
  by (simp add: field_fits_def fits_kind)

lemma CompareField_integer:
  assumes "fd_type def \<in> {Integer_type, BigInteger_type, Boolean_type, Option_type, Enum_type, Date_type, Time_type,
    DateTime_type}" "field_fits def a" "field_fits def b"
  shows "CompareField a b def = spaceship (cell_integer (a (fd_no def))) (cell_integer (b (fd_no def)))"
proof -
  consider x y where "a (fd_no def) = IntegerCell x" "b (fd_no def) = IntegerCell y"
    | x y where "a (fd_no def) = BooleanCell x" "b (fd_no def) = BooleanCell y"
    | x y where "a (fd_no def) = OrdinalCell x" "b (fd_no def) = OrdinalCell y"
    | x y where "a (fd_no def) = DateCell x" "b (fd_no def) = DateCell y"
    | x y where "a (fd_no def) = TimeCell x" "b (fd_no def) = TimeCell y"
    | x y where "a (fd_no def) = DateTimeCell x" "b (fd_no def) = DateTimeCell y"
    using fits_alike [OF assms(2,3)] assms(1,2)
    by (cases "a (fd_no def)"; cases "b (fd_no def)"; simp add: field_fits_def cell_fits_def)
      (elim disjE; simp)+
  then show ?thesis by cases (simp_all add: CompareField_def spaceship_serial)
qed

lemma CompareField_text:
  assumes "fd_type def \<notin> {Integer_type, BigInteger_type, Boolean_type, Option_type, Enum_type, Date_type, Time_type,
    DateTime_type, Decimal_type}" "field_fits def a" "field_fits def b"
  shows "CompareField a b def = text_order (FieldText a def) (FieldText b def)"
  using assms by (cases "a (fd_no def)") (auto simp: field_fits_def cell_fits_def CompareField_def)

lemma CompareField_order: "key_order (field_fits def) (\<lambda>a b. CompareField a b def)"
proof -
  consider "fd_type def \<in> {Integer_type, BigInteger_type, Boolean_type, Option_type, Enum_type, Date_type, Time_type,
      DateTime_type}"
    | "fd_type def = Decimal_type"
    | "fd_type def \<notin> {Integer_type, BigInteger_type, Boolean_type, Option_type, Enum_type, Date_type, Time_type,
      DateTime_type, Decimal_type}"
    by blast
  then show ?thesis
  proof cases
    case 1
    show ?thesis
      by (rule key_order_by [where f = "\<lambda>r. cell_integer (r (fd_no def))"]) (rule CompareField_integer [OF 1])
  next
    case 2
    show ?thesis
      by (rule key_order_by [where f = "\<lambda>r. cell_decimal (r (fd_no def))"])
        (use 2 in \<open>auto simp: field_fits_def cell_fits_def CompareField_decimal split: cell.splits\<close>)
  next
    case 3
    show ?thesis by (rule key_order_text [where f = "\<lambda>r. FieldText r def"]) (rule CompareField_text [OF 3])
  qed
qed

interpretation field_order: key_order "field_fits def" "\<lambda>a b. CompareField a b def" for def
  by (rule CompareField_order)

text \<open>Of two orders the second decides where the first does not; an order reversed is an order.\<close>

lemma key_order_then:
  assumes "key_order ok c" "key_order ok d"
  shows "key_order ok (\<lambda>a b. if c a b = Ord_equal then d a b else c a b)"
proof -
  have *: "(if c x z = Ord_equal then d x z else c x z) \<noteq> Ord_greater"
    if "ok x" "ok y" "ok z" and xy: "(if c x y = Ord_equal then d x y else c x y) \<noteq> Ord_greater"
      and yz: "(if c y z = Ord_equal then d y z else c y z) \<noteq> Ord_greater" for x y z
  proof (cases "c x y = Ord_equal")
    case True
    then have e: "c x z = c y z" using key_order.equal_left [OF assms(1)] that(1-3) by blast
    show ?thesis
      using key_order.trans [OF assms(2), of x y z] that True e by (auto split: if_splits)
  next
    case False
    then have l: "c x y = Ord_less" using xy by (cases "c x y") auto
    have "c x z = Ord_less"
      using key_order.less_trans [OF assms(1), of x y z] that l yz by (auto split: if_splits)
    then show ?thesis by simp
  qed
  show ?thesis
  proof (unfold_locales, goal_cases)
    case (1 a b)
    then show ?case using key_order.flip [OF assms(1), of a b] key_order.flip [OF assms(2), of a b] by simp
  next
    case (2 a b c)
    then show ?case by (rule *)
  qed
qed

lemma key_order_flip:
  assumes "key_order ok c"
  shows "key_order ok (\<lambda>a b. flip_ordering (c a b))"
proof -
  show ?thesis
  proof (unfold_locales, goal_cases)
    case (1 a b)
    then show ?case using key_order.flip [OF assms, of a b] by simp
  next
    case (2 x y z)
    then have "c z y \<noteq> Ord_greater" "c y x \<noteq> Ord_greater"
      using key_order.flip [OF assms, of x y] key_order.flip [OF assms, of y z] by auto
    then have "c z x \<noteq> Ord_greater" using key_order.trans [OF assms, of z y x] 2 by blast
    then show ?case using key_order.flip [OF assms, of z x] 2 by auto
  qed
qed

definition columns_fit :: "order_column list \<Rightarrow> row \<Rightarrow> bool" where
  "columns_fit columns r \<longleftrightarrow> list_all (\<lambda>c. field_fits (oc_field c) r) columns"

lemma key_order_mono: "key_order ok c \<Longrightarrow> (\<And>r. ok' r \<Longrightarrow> ok r) \<Longrightarrow> key_order ok' c"
  unfolding key_order_def by blast

lemma CompareColumns_order: "key_order (columns_fit columns) (CompareColumns columns)"
proof (induction columns)
  case Nil
  show ?case by unfold_locales simp_all
next
  case (Cons c cs)
  let ?ok = "columns_fit (c # cs)"
  have f: "key_order ?ok (\<lambda>a b. CompareField a b (oc_field c))"
    by (rule key_order_mono [OF CompareField_order]) (simp add: columns_fit_def)
  have r: "key_order ?ok (CompareColumns cs)" by (rule key_order_mono [OF Cons.IH]) (simp add: columns_fit_def)
  show ?case
  proof (cases "oc_ascending c")
    case True
    then have "CompareColumns (c # cs) = (\<lambda>a b. if CompareField a b (oc_field c) = Ord_equal then CompareColumns cs a b
        else CompareField a b (oc_field c))" by (auto simp: fun_eq_iff Let_def)
    then show ?thesis using key_order_then [OF f r] by simp
  next
    case False
    have "CompareColumns (c # cs) a b = (if flip_ordering (CompareField a b (oc_field c)) = Ord_equal
        then CompareColumns cs a b else flip_ordering (CompareField a b (oc_field c)))" for a b
      using False by (cases "CompareField a b (oc_field c)") simp_all
    then have "CompareColumns (c # cs) = (\<lambda>a b. if flip_ordering (CompareField a b (oc_field c)) = Ord_equal
        then CompareColumns cs a b else flip_ordering (CompareField a b (oc_field c)))" by (simp add: fun_eq_iff)
    then show ?thesis using key_order_then [OF key_order_flip [OF f] r] by simp
  qed
qed

interpretation columns: key_order "columns_fit cs" "CompareColumns cs" for cs
  by (rule CompareColumns_order)

section \<open>The key of a table\<close>

text \<open>
  A table whose key names fields it declares, each once: what the generator emits. The order of the key
  is the order of the columns \<open>key_columns\<close>, and \<open>Ordered\<close> computes it without an error.
\<close>

definition key_columns :: "table_def \<Rightarrow> order_column list" where
  "key_columns table = map (\<lambda>no. \<lparr>oc_field = the (FindField table no), oc_ascending = True\<rparr>) (PrimaryKey table)"

definition key_declared :: "table_def \<Rightarrow> bool" where
  "key_declared table \<longleftrightarrow> list_all (\<lambda>no. FindField table no \<noteq> None) (PrimaryKey table)"

abbreviation KeyOrder :: "table_def \<Rightarrow> row \<Rightarrow> row \<Rightarrow> ordering" where
  "KeyOrder table \<equiv> CompareColumns (key_columns table)"

lemma FindField_Some: "FindField table no = Some def \<Longrightarrow> def \<in> set (td_fields table) \<and> fd_no def = no"
  by (auto simp: FindField_def find_Some_iff)

lemma Ordered_key:
  assumes "key_declared table"
  shows "Ordered a b table (PrimaryKey table) = Inr (KeyOrder table a b)"
proof -
  have "Ordered a b table nos =
      Inr (CompareColumns (map (\<lambda>no. \<lparr>oc_field = the (FindField table no), oc_ascending = True\<rparr>) nos) a b)"
    if "list_all (\<lambda>no. FindField table no \<noteq> None) nos" for nos
    using that by (induction nos) (auto simp: FieldOf_def Let_def)
  then show ?thesis using assms by (simp add: key_columns_def key_declared_def)
qed

lemma row_fits_columns:
  assumes "row_fits table r" "list_all (\<lambda>c. oc_field c \<in> set (td_fields table)) columns"
  shows "columns_fit columns r"
  using assms by (auto simp: columns_fit_def row_fits_def list_all_iff)

lemma key_columns_declared:
  "key_declared table \<Longrightarrow> list_all (\<lambda>c. oc_field c \<in> set (td_fields table)) (key_columns table)"
  by (fastforce simp: key_columns_def key_declared_def list_all_iff dest: FindField_Some)

lemma KeyOrder_order: "key_declared table \<Longrightarrow> key_order (row_fits table) (KeyOrder table)"
  by (rule key_order_mono [OF CompareColumns_order]) (rule row_fits_columns [OF _ key_columns_declared])

text \<open>The columns of a sort: declared fields, among them every field of the primary key.\<close>

lemma AppendColumn_Inr:
  "AppendColumn table ascending no d columns = Inr columns' \<Longrightarrow>
    \<exists>def a. FindField table no = Some def \<and> fd_no def = no \<and> columns' = columns @ [\<lparr>oc_field = def, oc_ascending = a\<rparr>]"
  by (auto simp: AppendColumn_def dest: FindField_Some split: option.splits)

lemma AppendSort_Inr:
  "AppendSort table ascending key columns = Inr columns' \<Longrightarrow>
    \<exists>added. columns' = columns @ added \<and> list_all (\<lambda>c. FindField table (fd_no (oc_field c)) = Some (oc_field c)) added"
proof (induction table ascending key columns rule: AppendSort.induct)
  case (2 table ascending no d key columns)
  then obtain c where c: "AppendColumn table ascending no d columns = Inr c" "AppendSort table ascending key c = Inr columns'"
    by auto
  from "2.IH" [OF c] AppendColumn_Inr [OF c(1)] show ?case by fastforce
qed simp

lemma AppendPrimary_Inr:
  "AppendPrimary table ascending nos columns = Inr columns' \<Longrightarrow>
    \<exists>added. columns' = columns @ added \<and> list_all (\<lambda>c. FindField table (fd_no (oc_field c)) = Some (oc_field c)) added \<and>
      list_all (\<lambda>no. list_ex (\<lambda>c. fd_no (oc_field c) = no) columns') nos"
proof (induction table ascending nos columns rule: AppendPrimary.induct)
  case (2 table ascending no nos columns)
  show ?case
  proof (cases "list_ex (\<lambda>c. fd_no (oc_field c) = no) columns")
    case True
    with "2.IH"(1) "2.prems" show ?thesis by (fastforce simp: list_ex_iff)
  next
    case False
    with "2.prems" obtain c where c: "AppendColumn table ascending no True columns = Inr c"
      "AppendPrimary table ascending nos c = Inr columns'" by auto
    from "2.IH"(2) [OF False c] AppendColumn_Inr [OF c(1)] show ?thesis by (fastforce simp: list_ex_iff)
  qed
qed simp

lemma MakeOrder_Inr:
  assumes "MakeOrder table key ascending = Inr columns"
  shows "list_all (\<lambda>c. FindField table (fd_no (oc_field c)) = Some (oc_field c)) columns"
    and "list_all (\<lambda>no. list_ex (\<lambda>c. fd_no (oc_field c) = no) columns) (PrimaryKey table)"
proof -
  from assms obtain sort where s: "AppendSort table ascending key [] = Inr sort"
    and p: "(if td_keys table = [] then Inr sort else AppendPrimary table ascending (hd (td_keys table)) sort) = Inr columns"
    by (auto simp: MakeOrder_def)
  have sort: "list_all (\<lambda>c. FindField table (fd_no (oc_field c)) = Some (oc_field c)) sort"
    using AppendSort_Inr [OF s] by simp
  show "list_all (\<lambda>c. FindField table (fd_no (oc_field c)) = Some (oc_field c)) columns"
    "list_all (\<lambda>no. list_ex (\<lambda>c. fd_no (oc_field c) = no) columns) (PrimaryKey table)"
    using p sort AppendPrimary_Inr [of table ascending "hd (td_keys table)" sort columns]
    by (auto simp: PrimaryKey_def split: if_splits)
qed

lemma CompareColumns_equal:
  "CompareColumns columns a b = Ord_equal \<longleftrightarrow> list_all (\<lambda>c. CompareField a b (oc_field c) = Ord_equal) columns"
  by (induction columns) (auto simp: Let_def)

lemma MakeOrder_key:
  assumes "MakeOrder table key ascending = Inr columns" "key_declared table" "CompareColumns columns a b = Ord_equal"
  shows "KeyOrder table a b = Ord_equal"
proof -
  have "CompareField a b (the (FindField table no)) = Ord_equal" if no: "no \<in> set (PrimaryKey table)" for no
  proof -
    obtain c where "c \<in> set columns" "fd_no (oc_field c) = no"
      using MakeOrder_Inr(2) [OF assms(1)] no unfolding list_all_iff list_ex_iff by blast
    moreover from this have "FindField table no = Some (oc_field c)"
      using MakeOrder_Inr(1) [OF assms(1)] by (auto simp: list_all_iff)
    ultimately show ?thesis using assms(3) by (simp add: CompareColumns_equal list_all_iff)
  qed
  then show ?thesis by (simp add: CompareColumns_equal key_columns_def list_all_iff)
qed

lemma MakeOrder_fit:
  assumes "MakeOrder table key ascending = Inr columns" "row_fits table r"
  shows "columns_fit columns r"
proof (rule row_fits_columns [OF assms(2)])
  show "list_all (\<lambda>c. oc_field c \<in> set (td_fields table)) columns"
    using MakeOrder_Inr(1) [OF assms(1)] by (auto simp: list_all_iff dest: FindField_Some)
qed

section \<open>The fields of a table\<close>

lemma SearchLoop_step:
  assumes "lo < hi" and m: "m = lo + (hi - lo) div 2"
  shows "SearchLoop key xs k lo hi = (if key (xs ! m) = k then Some (xs ! m)
    else if key (xs ! m) < k then SearchLoop key xs k (m + 1) hi else SearchLoop key xs k lo m)"
  using assms(1) by (subst SearchLoop.simps) (simp add: m [symmetric] Let_def)

lemma SearchLoop_sound:
  assumes "hi \<le> length xs" "SearchLoop key xs k lo hi = Some x"
  shows "x \<in> set xs \<and> key x = k"
  using assms
proof (induction key xs k lo hi rule: SearchLoop.induct)
  case (1 key xs k lo hi)
  obtain m where m: "m = lo + (hi - lo) div 2" by blast
  have lt: "lo < hi" using "1.prems"(2) by (subst (asm) SearchLoop.simps) (simp split: if_splits)
  then have mb: "m < hi" using m by auto
  note step = "1.prems"(2) [unfolded SearchLoop_step [OF lt m]]
  consider "key (xs ! m) = k" | "key (xs ! m) \<noteq> k" "key (xs ! m) < k" | "key (xs ! m) \<noteq> k" "\<not> key (xs ! m) < k" by blast
  then show ?case
  proof cases
    case 1
    then show ?thesis using step "1.prems"(1) mb by auto
  next
    case 2
    then show ?thesis using "1.IH"(1) [OF lt m] "1.prems"(1) step by simp
  next
    case 3
    then show ?thesis using "1.IH"(2) [OF lt m] "1.prems"(1) step mb by simp
  qed
qed

lemma SearchLoop_complete:
  assumes "hi \<le> length xs" "sorted_wrt (\<lambda>x y. key x < key y) xs" "lo \<le> i" "i < hi" "key (xs ! i) = k"
  shows "SearchLoop key xs k lo hi = Some (xs ! i)"
  using assms
proof (induction key xs k lo hi rule: SearchLoop.induct)
  case (1 key xs k lo hi)
  obtain m where m: "m = lo + (hi - lo) div 2" by blast
  have lt: "lo < hi" using "1.prems" by simp
  then have mb: "m < hi" using m by auto
  have mono: "key (xs ! a) < key (xs ! b)" if "a < b" "b < hi" for a b
    using "1.prems"(1,2) that by (simp add: sorted_wrt_iff_nth_less)
  consider "m = i" | "m < i" | "i < m" by linarith
  then show ?case
  proof cases
    case 1
    then show ?thesis using "1.prems"(5) by (simp add: SearchLoop_step [OF lt m])
  next
    case 2
    then have k: "key (xs ! m) < k" using mono [of m i] "1.prems"(4,5) by simp
    then show ?thesis using "1.IH"(1) [OF lt m] "1.prems" 2 by (simp add: SearchLoop_step [OF lt m])
  next
    case 3
    then have k: "k < key (xs ! m)" using mono [of i m] "1.prems"(5) mb by simp
    then show ?thesis using "1.IH"(2) [OF lt m] "1.prems" mb 3 by (simp add: SearchLoop_step [OF lt m])
  qed
qed

text \<open>A table the generator emits: fields in the order of their numbers, its keys of fields it declares.\<close>

lemma FieldsAreSorted_wrt:
  assumes "FieldsAreSorted table"
  shows "sorted_wrt (\<lambda>x y. fd_no x < fd_no y) (td_fields table)"
proof -
  have "fd_no (td_fields table ! i) < fd_no (td_fields table ! Suc i)" if "Suc i < length (td_fields table)" for i
    using assms that by (auto simp: FieldsAreSorted_def list_all_iff dest: bspec [of _ _ "Suc i"])
  then show ?thesis by (subst sorted_wrt_iff_nth_Suc_transp) (auto intro: transpI)
qed

definition sample_field :: "int \<Rightarrow> field_type \<Rightarrow> field_def" where
  "sample_field no t = \<lparr>fd_no = no, fd_caption = ''F'', fd_type = t, fd_flowFilter = False, fd_values = []\<rparr>"

definition sample_table :: table_def where
  "sample_table = \<lparr>td_caption = ''T'', td_fields = [sample_field 1 Integer_type, sample_field 2 Text_type], td_keys = [[1]]\<rparr>"

text \<open>
  On a table whose fields are in order of their numbers the binary search of \<open>Field\<close> finds exactly
  what the scan in \<open>FindField\<close> and \<open>FieldOf\<close> finds.
\<close>

theorem field_search:
  assumes "FieldsAreSorted table"
  shows "Field table no = FindField table no \<and>
    FieldOf table no = (case Field table no of Some def \<Rightarrow> Inr def
      | None \<Rightarrow> Inl (Error (''the table carries no field '' @ int_text no) []))"
proof -
  have sorted: "sorted_wrt (\<lambda>x y. fd_no x < fd_no y) (td_fields table)" by (rule FieldsAreSorted_wrt [OF assms])
  have "Field table no = FindField table no"
  proof (cases "FindField table no")
    case None
    then have "\<forall>def \<in> set (td_fields table). fd_no def \<noteq> no" by (auto simp: FindField_def find_None_iff)
    then show ?thesis using None SearchLoop_sound [of "length (td_fields table)" "td_fields table" fd_no no 0]
      by (cases "Field table no") (auto simp: Field_def)
  next
    case (Some def)
    then obtain i where "i < length (td_fields table)" "td_fields table ! i = def" "fd_no def = no"
      by (metis FindField_Some in_set_conv_nth)
    then show ?thesis using SearchLoop_complete [OF order_refl sorted, of 0 i no] Some by (simp add: Field_def)
  qed
  then show ?thesis by (auto simp: FieldOf_def split: option.splits)
qed

lemma field_search_witness:
  "Field sample_table 2 = Some (sample_field 2 Text_type) \<and> Field sample_table 3 = None"
proof -
  have "FieldsAreSorted sample_table" by (simp add: FieldsAreSorted_def sample_table_def sample_field_def)
  from field_search [OF this, of 2] field_search [OF this, of 3] show ?thesis
    by (simp add: FindField_def sample_table_def sample_field_def)
qed

end
