(* ===== verification/TemporaryFacts.thy ===== *)
theory TemporaryFacts
  imports RecordFacts
begin

text \<open>
  The rows of a temporary record: in strict order of the primary key and of their fields' types, they
  are a map from keys to rows, and inserting, reading, modifying and deleting are the map's operations.
\<close>

section \<open>The invariant\<close>

definition temp_ok :: "table_def \<Rightarrow> temp_table \<Rightarrow> bool" where
  "temp_ok table temp \<longleftrightarrow> list_all (row_fits table) (tt_rows temp) \<and> keyed (KeyOrder table) (tt_rows temp)"

definition view_ok :: "temp_table \<Rightarrow> record_state \<Rightarrow> bool" where
  "view_ok temp state \<longleftrightarrow> st_viewVersion state \<le> tt_version temp \<and>
    (st_viewVersion state = tt_version temp \<longrightarrow> list_all (\<lambda>i. i < length (tt_rows temp)) (st_view state))"

definition held_ok :: "table_def \<Rightarrow> held \<Rightarrow> bool" where
  "held_ok table h \<longleftrightarrow> temp_ok table (hd_temp h) \<and> view_ok (hd_temp h) (hd_state h) \<and> row_fits table (hd_row h)"

text \<open>The row of a key.\<close>

definition RowOfKey :: "table_def \<Rightarrow> temp_table \<Rightarrow> row \<Rightarrow> row option" where
  "RowOfKey table temp k = row_at (KeyOrder table) (tt_rows temp) k"

lemma fits_key: "key_declared table \<Longrightarrow> row_fits table r \<Longrightarrow> columns_fit (key_columns table) r"
  by (rule row_fits_columns [OF _ key_columns_declared])

lemma temp_ok_rows:
  assumes "key_declared table" "temp_ok table temp"
  shows "list_all (columns_fit (key_columns table)) (tt_rows temp)" "keyed (KeyOrder table) (tt_rows temp)"
    "list_all (row_fits table) (tt_rows temp)"
  using assms fits_key by (auto simp: temp_ok_def list_all_iff)

text \<open>The two steps every operation starts with.\<close>

lemma LowerBound_ok:
  assumes "key_declared table" "temp_ok table temp" "row_fits table r"
  shows "\<exists>i. LowerBound temp table r = Inr i \<and> key_bound (KeyOrder table) (tt_rows temp) r i"
proof -
  note rows = temp_ok_rows [OF assms(1,2)]
  show ?thesis unfolding LowerBound_def
    by (rule columns.search [OF rows(1) fits_key [OF assms(1,3)] keyed_weak [OF rows(2)]])
      (auto simp: Ordered_key [OF assms(1)])
qed

lemma SameKeyAt_ok:
  "key_declared table \<Longrightarrow> SameKeyAt temp table i r =
    Inr (i < length (tt_rows temp) \<and> KeyOrder table (tt_rows temp ! i) r = Ord_equal)"
  by (simp add: SameKeyAt_def Ordered_key)

definition located :: "table_def \<Rightarrow> temp_table \<Rightarrow> row \<Rightarrow> nat \<Rightarrow> bool" where
  "located table temp r i \<longleftrightarrow> LowerBound temp table r = Inr i \<and> key_bound (KeyOrder table) (tt_rows temp) r i \<and>
    SameKeyAt temp table i r = Inr (RowOfKey table temp r \<noteq> None) \<and>
    (RowOfKey table temp r \<noteq> None \<longrightarrow> i < length (tt_rows temp) \<and> RowOfKey table temp r = Some (tt_rows temp ! i) \<and>
      KeyOrder table (tt_rows temp ! i) r = Ord_equal) \<and>
    (RowOfKey table temp r = None \<longrightarrow> (\<forall>x \<in> set (tt_rows temp). KeyOrder table x r \<noteq> Ord_equal))"

lemma locate:
  assumes "key_declared table" "temp_ok table temp" "row_fits table r"
  shows "\<exists>i. located table temp r i"
proof -
  obtain i where i: "LowerBound temp table r = Inr i" "key_bound (KeyOrder table) (tt_rows temp) r i"
    using LowerBound_ok [OF assms] by blast
  note ok = temp_ok_rows [OF assms(1,2)]
  have found: "i < length (tt_rows temp) \<and> KeyOrder table (tt_rows temp ! i) r = Ord_equal \<longleftrightarrow>
      (\<exists>x \<in> set (tt_rows temp). KeyOrder table x r = Ord_equal)"
    by (rule columns.bound_found [OF ok(1) fits_key [OF assms(1,3)] ok(2) i(2)])
  have none: "RowOfKey table temp r = None \<longleftrightarrow> (\<forall>x \<in> set (tt_rows temp). KeyOrder table x r \<noteq> Ord_equal)"
    by (auto simp: RowOfKey_def row_at_def find_None_iff)
  have "RowOfKey table temp r = Some (tt_rows temp ! i)"
    if "i < length (tt_rows temp)" "KeyOrder table (tt_rows temp ! i) r = Ord_equal"
    unfolding RowOfKey_def using columns.row_at_iff [OF ok(1,2) fits_key [OF assms(1,3)]] that by simp
  then show ?thesis using i found none SameKeyAt_ok [OF assms(1)] unfolding located_def by (intro exI [of _ i]) auto
qed

lemma held_parts:
  assumes "held_ok table h"
  shows "temp_ok table (hd_temp h)" "row_fits table (hd_row h)" "view_ok (hd_temp h) (hd_state h)"
  using assms by (simp_all add: held_ok_def)

section \<open>The operations on a map of rows\<close>

text \<open>A write of rows with the version counted up leaves the invariant where the rows keep theirs.\<close>

definition Wrote :: "held \<Rightarrow> row list \<Rightarrow> held" where
  "Wrote h rows = h\<lparr>hd_temp := \<lparr>tt_rows = rows, tt_version = tt_version (hd_temp h) + 1\<rparr>\<rparr>"

lemma Wrote_ok:
  assumes "held_ok table h" "list_all (row_fits table) rows" "keyed (KeyOrder table) rows"
  shows "held_ok table (Wrote h rows)"
  using assms by (simp add: held_ok_def Wrote_def temp_ok_def view_ok_def)

lemma Wrote_parts [simp]:
  "tt_rows (hd_temp (Wrote h rows)) = rows" "hd_state (Wrote h rows) = hd_state h" "hd_row (Wrote h rows) = hd_row h"
  "RowOfKey table (hd_temp (Wrote h rows)) k = row_at (KeyOrder table) rows k"
  by (simp_all add: Wrote_def RowOfKey_def)

lemma map_insert:
  assumes "key_declared table" "held_ok table h" "RowOfKey table (hd_temp h) (hd_row h) = None"
  shows "\<exists>h'. TempInsert table h = Inr (h', True) \<and> held_ok table h' \<and> hd_state h' = hd_state h \<and> hd_row h' = hd_row h \<and>
    (\<forall>k. row_fits table k \<longrightarrow> RowOfKey table (hd_temp h') k =
      (if KeyOrder table (hd_row h) k = Ord_equal then Some (hd_row h) else RowOfKey table (hd_temp h) k))"
proof -
  let ?rows = "tt_rows (hd_temp h)"
  note ok = held_parts [OF assms(2)]
  note rows = temp_ok_rows [OF assms(1) ok(1)]
  obtain i where i: "located table (hd_temp h) (hd_row h) i" using locate [OF assms(1) ok(1,2)] by blast
  let ?rows' = "take i ?rows @ hd_row h # drop i ?rows"
  have new: "\<forall>x \<in> set ?rows. KeyOrder table x (hd_row h) \<noteq> Ord_equal" and at: "key_bound (KeyOrder table) ?rows (hd_row h) i"
    using i assms(3) by (auto simp: located_def)
  note ins = columns.insert_keyed [OF rows(1) fits_key [OF assms(1) ok(2)] rows(2) at new]
  have "TempInsert table h = Inr (Wrote h ?rows', True)"
    using i assms(3) by (simp add: TempInsert_def Wrote_def located_def)
  moreover have "held_ok table (Wrote h ?rows')"
    by (rule Wrote_ok [OF assms(2) _ ins(1)]) (use ins(2) rows(3) ok(2) in \<open>simp add: list_all_iff\<close>)
  moreover have "row_at (KeyOrder table) ?rows' k =
      (if KeyOrder table (hd_row h) k = Ord_equal then Some (hd_row h) else row_at (KeyOrder table) ?rows k)"
    if "row_fits table k" for k
    by (rule columns.row_at_put [OF rows(1,2) ins(1) fits_key [OF assms(1) ok(2)] fits_key [OF assms(1) that]])
      (use ins(2) new in auto)
  ultimately show ?thesis by (intro exI [of _ "Wrote h ?rows'"]) (simp add: RowOfKey_def)
qed

lemma map_modify:
  assumes "key_declared table" "held_ok table h" "RowOfKey table (hd_temp h) (hd_row h) \<noteq> None"
  shows "\<exists>h'. TempModify table h = Inr (h', True) \<and> held_ok table h' \<and> hd_state h' = hd_state h \<and> hd_row h' = hd_row h \<and>
    (\<forall>k. row_fits table k \<longrightarrow> RowOfKey table (hd_temp h') k =
      (if KeyOrder table (hd_row h) k = Ord_equal then Some (hd_row h) else RowOfKey table (hd_temp h) k))"
proof -
  let ?rows = "tt_rows (hd_temp h)"
  note ok = held_parts [OF assms(2)]
  note rows = temp_ok_rows [OF assms(1) ok(1)]
  obtain i where i: "located table (hd_temp h) (hd_row h) i" using locate [OF assms(1) ok(1,2)] by blast
  have at: "i < length ?rows" "KeyOrder table (?rows ! i) (hd_row h) = Ord_equal" using i assms(3) by (auto simp: located_def)
  note upd = columns.update_keyed [OF rows(1) fits_key [OF assms(1) ok(2)] rows(2) at]
  have "TempModify table h = Inr (Wrote h (?rows[i := hd_row h]), True)"
    using i assms(3) by (simp add: TempModify_def Wrote_def located_def)
  moreover have "held_ok table (Wrote h (?rows[i := hd_row h]))"
    by (rule Wrote_ok [OF assms(2) _ upd(1)]) (use upd(2) rows(3) ok(2) in \<open>simp add: list_all_iff\<close>)
  moreover have "row_at (KeyOrder table) (?rows[i := hd_row h]) k =
      (if KeyOrder table (hd_row h) k = Ord_equal then Some (hd_row h) else row_at (KeyOrder table) ?rows k)"
    if "row_fits table k" for k
    by (rule columns.row_at_put [OF rows(1,2) upd(1) fits_key [OF assms(1) ok(2)] fits_key [OF assms(1) that] upd(2)])
  ultimately show ?thesis by (intro exI [of _ "Wrote h (?rows[i := hd_row h])"]) (simp add: RowOfKey_def)
qed

lemma map_delete:
  assumes "key_declared table" "held_ok table h" "RowOfKey table (hd_temp h) (hd_row h) \<noteq> None"
  shows "\<exists>h'. TempDelete table h = Inr (h', True) \<and> held_ok table h' \<and> hd_state h' = hd_state h \<and> hd_row h' = hd_row h \<and>
    (\<forall>k. row_fits table k \<longrightarrow> RowOfKey table (hd_temp h') k =
      (if KeyOrder table (hd_row h) k = Ord_equal then None else RowOfKey table (hd_temp h) k))"
proof -
  let ?rows = "tt_rows (hd_temp h)"
  note ok = held_parts [OF assms(2)]
  note rows = temp_ok_rows [OF assms(1) ok(1)]
  obtain i where i: "located table (hd_temp h) (hd_row h) i" using locate [OF assms(1) ok(1,2)] by blast
  have at: "i < length ?rows" "KeyOrder table (?rows ! i) (hd_row h) = Ord_equal" using i assms(3) by (auto simp: located_def)
  let ?rows' = "take i ?rows @ drop (i + 1) ?rows"
  note rem = columns.remove_keyed [OF rows(1) fits_key [OF assms(1) ok(2)] rows(2) at]
  have "TempDelete table h = Inr (Wrote h ?rows', True)"
    using i assms(3) by (simp add: TempDelete_def Wrote_def located_def)
  moreover have "held_ok table (Wrote h ?rows')"
    by (rule Wrote_ok [OF assms(2) _ rem(1)]) (use rem(2) rows(3) in \<open>simp add: list_all_iff\<close>)
  moreover have "row_at (KeyOrder table) ?rows' k =
      (if KeyOrder table (hd_row h) k = Ord_equal then None else row_at (KeyOrder table) ?rows k)"
    if "row_fits table k" for k
    by (rule columns.row_at_remove [OF rows(1,2) rem(1) fits_key [OF assms(1) ok(2)] fits_key [OF assms(1) that] rem(2)])
  ultimately show ?thesis by (intro exI [of _ "Wrote h ?rows'"]) (simp add: RowOfKey_def)
qed

lemma map_get:
  assumes "key_declared table" "held_ok table h"
  shows "TempGet table h = Inr (case RowOfKey table (hd_temp h) (hd_row h) of None \<Rightarrow> (h, False)
    | Some r \<Rightarrow> (h\<lparr>hd_row := r\<rparr>, True))"
proof -
  obtain i where "located table (hd_temp h) (hd_row h) i"
    using locate [OF assms(1)] held_parts [OF assms(2)] by blast
  then show ?thesis by (auto simp: TempGet_def located_def split: option.splits)
qed

lemma map_misses:
  assumes "key_declared table" "held_ok table h"
  shows "RowOfKey table (hd_temp h) (hd_row h) \<noteq> None \<Longrightarrow> TempInsert table h = Inr (h, False)"
    and "RowOfKey table (hd_temp h) (hd_row h) = None \<Longrightarrow> TempModify table h = Inr (h, False)"
    and "RowOfKey table (hd_temp h) (hd_row h) = None \<Longrightarrow> TempDelete table h = Inr (h, False)"
proof -
  obtain i where "located table (hd_temp h) (hd_row h) i"
    using locate [OF assms(1)] held_parts [OF assms(2)] by blast
  then show "RowOfKey table (hd_temp h) (hd_row h) \<noteq> None \<Longrightarrow> TempInsert table h = Inr (h, False)"
    "RowOfKey table (hd_temp h) (hd_row h) = None \<Longrightarrow> TempModify table h = Inr (h, False)"
    "RowOfKey table (hd_temp h) (hd_row h) = None \<Longrightarrow> TempDelete table h = Inr (h, False)"
    by (simp_all add: TempInsert_def TempModify_def TempDelete_def located_def)
qed

section \<open>DeleteAll and Count\<close>

lemma DeleteLoop_filter:
  "DeleteLoop fs rows index removed =
    (take index rows @ filter (\<lambda>r. \<not> FilterMatches fs r) (drop index rows),
     removed + int (length (filter (FilterMatches fs) (drop index rows))))"
proof (induction fs rows index removed rule: DeleteLoop.induct)
  case (1 fs rows index removed)
  show ?case
  proof (cases "index < length rows")
    case False
    then show ?thesis by (subst DeleteLoop.simps) simp
  next
    case True
    have d: "drop index rows = rows ! index # drop (index + 1) rows" using True by (simp add: Cons_nth_drop_Suc)
    show ?thesis
    proof (cases "FilterMatches fs (rows ! index)")
      case m: True
      have "drop index (take index rows @ drop (index + 1) rows) = drop (index + 1) rows"
        "take index (take index rows @ drop (index + 1) rows) = take index rows" using True by simp_all
      then show ?thesis using "1.IH"(1) [OF True m] True m by (subst DeleteLoop.simps) (simp add: d)
    next
      case m: False
      have "take (index + 1) rows = take index rows @ [rows ! index]" using True by (simp add: take_Suc_conv_app_nth)
      then show ?thesis using "1.IH"(2) [OF True m] True m by (subst DeleteLoop.simps) (simp add: d)
    qed
  qed
qed

lemma count_loop: "foldl (\<lambda>count r. if P r then count + 1 else count) n rows = n + int (length (filter P rows))"
  by (induction rows arbitrary: n) simp_all

lemma keyed_filter: "keyed c rows \<Longrightarrow> keyed c (filter P rows)"
  by (simp add: keyed_def sorted_wrt_filter)

lemma DeleteAll_ok:
  assumes "held_ok table h" "TempDeleteAll table h = Inr (h', removed)"
  shows "held_ok table h'"
proof -
  obtain fs where fs: "MakeFilter table (st_filters (hd_state h)) = Inr fs" using assms(2) by (auto simp: TempDeleteAll_def)
  let ?rows = "filter (\<lambda>r. \<not> FilterMatches fs r) (tt_rows (hd_temp h))"
  have rows: "list_all (row_fits table) ?rows" "keyed (KeyOrder table) ?rows"
    using held_parts [OF assms(1)] by (auto simp: temp_ok_def list_all_iff keyed_filter)
  show ?thesis
  proof (cases "filter (FilterMatches fs) (tt_rows (hd_temp h)) = []")
    case True
    then have "?rows = tt_rows (hd_temp h)" by (simp add: filter_id_conv filter_empty_conv)
    then show ?thesis using assms fs True
      by (auto simp: TempDeleteAll_def DeleteLoop_filter held_ok_def temp_ok_def view_ok_def)
  next
    case False
    then have "h' = Wrote h ?rows" using assms(2) fs by (auto simp: TempDeleteAll_def DeleteLoop_filter Wrote_def)
    then show ?thesis using Wrote_ok [OF assms(1) rows] by simp
  qed
qed

section \<open>A sample\<close>

definition sample_row :: "int \<Rightarrow> string \<Rightarrow> row" where
  "sample_row i t = (\<lambda>_. TextCell [])(1 := IntegerCell i, 2 := TextCell t)"

definition sample_held :: "row list \<Rightarrow> row \<Rightarrow> held" where
  "sample_held rows r = \<lparr>hd_temp = \<lparr>tt_rows = rows, tt_version = 0\<rparr>, hd_state = NewState, hd_row = r\<rparr>"

lemmas sample_defs = sample_field_def sample_table_def sample_row_def sample_held_def

lemma sample_declared: "key_declared sample_table"
  by (simp add: key_declared_def PrimaryKey_def FindField_def sample_defs)

lemma sample_columns: "key_columns sample_table = [\<lparr>oc_field = sample_field 1 Integer_type, oc_ascending = True\<rparr>]"
  by (simp add: key_columns_def PrimaryKey_def FindField_def sample_defs)

lemma sample_order [simp]: "KeyOrder sample_table (sample_row i s) (sample_row j t) = spaceship i j"
  by (simp add: sample_columns CompareField_def sample_field_def sample_row_def spaceship_def Let_def)

lemma sample_fits [simp]: "row_fits sample_table (sample_row i t)"
  by (simp add: row_fits_def field_fits_def cell_fits_def sample_defs)

lemma sample_held_ok:
  "sorted_wrt (<) is \<Longrightarrow> held_ok sample_table (sample_held (map (\<lambda>i. sample_row i []) is) (sample_row j t))"
  by (simp add: held_ok_def temp_ok_def view_ok_def NewState_def sample_held_def list_all_iff keyed_def sorted_wrt_map)

section \<open>Properties\<close>

text \<open>
  C8: A temporary table is a map from keys to rows: over rows in key order, inserting adds the record's row
  where its key is free, modifying and deleting act where the key is taken, getting reads the row of the
  key, each says whether it did, no other key is touched, and the order and the types of the rows are kept.
\<close>

theorem temporary_map:
  assumes "key_declared table" "held_ok table h"
  shows "\<exists>i m d. TempInsert table h = Inr (i, RowOfKey table (hd_temp h) (hd_row h) = None) \<and>
      TempModify table h = Inr (m, RowOfKey table (hd_temp h) (hd_row h) \<noteq> None) \<and>
      TempDelete table h = Inr (d, RowOfKey table (hd_temp h) (hd_row h) \<noteq> None) \<and>
      TempGet table h = Inr (case RowOfKey table (hd_temp h) (hd_row h) of None \<Rightarrow> (h, False)
        | Some r \<Rightarrow> (h\<lparr>hd_row := r\<rparr>, True)) \<and>
      held_ok table i \<and> held_ok table m \<and> held_ok table d \<and>
      (\<forall>k. row_fits table k \<longrightarrow>
        RowOfKey table (hd_temp i) k =
          (if RowOfKey table (hd_temp h) (hd_row h) = None \<and> KeyOrder table (hd_row h) k = Ord_equal
           then Some (hd_row h) else RowOfKey table (hd_temp h) k) \<and>
        RowOfKey table (hd_temp m) k =
          (if RowOfKey table (hd_temp h) (hd_row h) \<noteq> None \<and> KeyOrder table (hd_row h) k = Ord_equal
           then Some (hd_row h) else RowOfKey table (hd_temp h) k) \<and>
        RowOfKey table (hd_temp d) k =
          (if RowOfKey table (hd_temp h) (hd_row h) \<noteq> None \<and> KeyOrder table (hd_row h) k = Ord_equal
           then None else RowOfKey table (hd_temp h) k))"
proof (cases "RowOfKey table (hd_temp h) (hd_row h) = None")
  case True
  obtain i where "TempInsert table h = Inr (i, True)" "held_ok table i"
    "\<forall>k. row_fits table k \<longrightarrow> RowOfKey table (hd_temp i) k =
      (if KeyOrder table (hd_row h) k = Ord_equal then Some (hd_row h) else RowOfKey table (hd_temp h) k)"
    using map_insert [OF assms True] by blast
  then show ?thesis using True assms(2) map_misses(2,3) [OF assms True]
    by - (rule exI [of _ i], rule exI [of _ h], rule exI [of _ h], simp add: map_get [OF assms])
next
  case False
  obtain m where m: "TempModify table h = Inr (m, True)" "held_ok table m"
    "\<forall>k. row_fits table k \<longrightarrow> RowOfKey table (hd_temp m) k =
      (if KeyOrder table (hd_row h) k = Ord_equal then Some (hd_row h) else RowOfKey table (hd_temp h) k)"
    using map_modify [OF assms False] by blast
  obtain d where d: "TempDelete table h = Inr (d, True)" "held_ok table d"
    "\<forall>k. row_fits table k \<longrightarrow> RowOfKey table (hd_temp d) k =
      (if KeyOrder table (hd_row h) k = Ord_equal then None else RowOfKey table (hd_temp h) k)"
    using map_delete [OF assms False] by blast
  show ?thesis using False m d assms(2) map_misses(1) [OF assms False]
    by - (rule exI [of _ h], rule exI [of _ m], rule exI [of _ d], auto simp: map_get [OF assms])
qed

lemma temporary_map_witness:
  "\<exists>i. TempInsert sample_table (sample_held [sample_row 1 [], sample_row 3 []] (sample_row 2 ''b'')) = Inr (i, True) \<and>
    RowOfKey sample_table (hd_temp i) (sample_row 2 []) = Some (sample_row 2 ''b'') \<and>
    RowOfKey sample_table (hd_temp i) (sample_row 3 []) = Some (sample_row 3 [])"
proof -
  let ?h = "sample_held [sample_row 1 [], sample_row 3 []] (sample_row 2 ''b'')"
  have old: "RowOfKey sample_table (hd_temp ?h) (sample_row n t) =
      (if n = 1 then Some (sample_row 1 []) else if n = 3 then Some (sample_row 3 []) else None)" for n t
    by (simp add: RowOfKey_def row_at_def sample_held_def)
  have row: "hd_row ?h = sample_row 2 ''b''" by (simp add: sample_held_def)
  have "held_ok sample_table ?h" using sample_held_ok [of "[1, 3]" 2 "''b''"] by simp
  from temporary_map [OF sample_declared this, unfolded row old]
  obtain i where i: "TempInsert sample_table ?h = Inr (i, True)"
    "\<forall>k. row_fits sample_table k \<longrightarrow> RowOfKey sample_table (hd_temp i) k =
      (if KeyOrder sample_table (sample_row 2 ''b'') k = Ord_equal then Some (sample_row 2 ''b'')
       else RowOfKey sample_table (hd_temp ?h) k)" by auto
  then show ?thesis by (auto simp: old)
qed

text \<open>
  \<open>DeleteAll\<close> removes exactly the rows the filters select, leaves the others in order, returns how many
  it removed and counts the version up only when it removed one. It does not ask the marks: a record
  that shows its marked rows only loses the unmarked ones as well, while \<open>Count\<close> counts the marked only.
\<close>

theorem temporary_delete_all:
  assumes "held_ok table h" "MakeFilter table (st_filters (hd_state h)) = Inr fs"
  shows "\<exists>h'. TempDeleteAll table h = Inr (h', int (length (filter (FilterMatches fs) (tt_rows (hd_temp h))))) \<and>
    held_ok table h' \<and> hd_state h' = hd_state h \<and>
    tt_rows (hd_temp h') = filter (\<lambda>r. \<not> FilterMatches fs r) (tt_rows (hd_temp h)) \<and>
    (tt_version (hd_temp h') = tt_version (hd_temp h) \<longleftrightarrow> tt_rows (hd_temp h') = tt_rows (hd_temp h)) \<and>
    TempCount table h = Inr (int (length (filter (\<lambda>r. FilterMatches fs r \<and>
      (st_markedOnly (hd_state h) \<longrightarrow> MarkKey r table \<in> st_marks (hd_state h))) (tt_rows (hd_temp h))))) \<and>
    TempCount table h' = Inr 0 \<and> TempIsEmpty table h' = Inr True"
proof -
  let ?kept = "filter (\<lambda>r. \<not> FilterMatches fs r) (tt_rows (hd_temp h))"
  let ?n = "int (length (filter (FilterMatches fs) (tt_rows (hd_temp h))))"
  obtain h' where h': "TempDeleteAll table h = Inr (h', ?n)" and parts: "hd_state h' = hd_state h" "tt_rows (hd_temp h') = ?kept"
    "tt_version (hd_temp h') = (if ?n \<noteq> 0 then tt_version (hd_temp h) + 1 else tt_version (hd_temp h))"
    using assms(2) by (auto simp: TempDeleteAll_def DeleteLoop_filter)
  have "?kept = tt_rows (hd_temp h) \<longleftrightarrow> ?n = 0" by (auto simp: filter_id_conv filter_empty_conv)
  moreover have count: "TempCount table g = Inr (int (length (filter (\<lambda>r. FilterMatches fs r \<and>
      (st_markedOnly (hd_state h) \<longrightarrow> MarkKey r table \<in> st_marks (hd_state h))) (tt_rows (hd_temp g)))))"
    if "hd_state g = hd_state h" for g
    using assms(2) that by (auto simp: TempCount_def count_loop Selected_def intro!: arg_cong [where f = length] filter_cong)
  moreover have "TempCount table h' = Inr 0" using count [OF parts(1)] parts(2) by (auto simp: filter_empty_conv)
  ultimately show ?thesis using h' DeleteAll_ok [OF assms(1) h'] parts count [of h]
    by (intro exI [of _ h']) (simp add: TempIsEmpty_def)
qed

lemma temporary_delete_all_witness:
  "\<exists>h'. TempDeleteAll sample_table (sample_held [sample_row 1 [], sample_row 3 []] (sample_row 2 [])) = Inr (h', 2) \<and>
    tt_rows (hd_temp h') = [] \<and> tt_version (hd_temp h') \<noteq> 0"
proof -
  have ok: "held_ok sample_table (sample_held [sample_row 1 [], sample_row 3 []] (sample_row 2 []))"
    using sample_held_ok [of "[1, 3]" 2 "[]"] by simp
  have fs: "MakeFilter sample_table (st_filters (hd_state (sample_held [sample_row 1 [], sample_row 3 []] (sample_row 2 [])))) = Inr []"
    by (simp add: sample_held_def NewState_def)
  from temporary_delete_all [OF ok fs] show ?thesis
    by (auto simp: sample_held_def FilterMatches_def)
qed

end
