(* ===== verification/ViewFacts.thy ===== *)
theory ViewFacts
  imports TemporaryFacts "HOL-Library.Multiset"
begin

text \<open>
  The view a \<open>Find\<close> selects and \<open>Next\<close> walks: it holds exactly the selected rows in strict order of the
  sort, a loop over it visits each once and ends, and a walk goes on at the right row after the rows changed.
\<close>

section \<open>Sorting\<close>

context key_order
begin

lemma insert_sorted:
  assumes "row_ok x" "list_all row_ok ys" "sorted_wrt (\<lambda>a b. compare a b \<noteq> Ord_greater) ys"
  shows "sorted_wrt (\<lambda>a b. compare a b \<noteq> Ord_greater) (StableInsert (\<lambda>a b. compare a b = Ord_less) x ys) \<and>
    mset (StableInsert (\<lambda>a b. compare a b = Ord_less) x ys) = add_mset x (mset ys)"
  using assms
proof (induction ys)
  case (Cons y ys)
  let ?ins = "StableInsert (\<lambda>a b. compare a b = Ord_less) x ys"
  have IH: "sorted_wrt (\<lambda>a b. compare a b \<noteq> Ord_greater) ?ins" "mset ?ins = add_mset x (mset ys)"
    using Cons by simp_all
  show ?case
  proof (cases "compare y x = Ord_less")
    case True
    have "set ?ins = insert x (set ys)" using IH(2) by (metis set_mset_add_mset_insert set_mset_mset)
    then show ?thesis using True IH Cons.prems by simp
  next
    case False
    then have "compare x y \<noteq> Ord_greater" using flip [of x y] Cons.prems by auto
    then have "compare x z \<noteq> Ord_greater" if "z \<in> set ys" for z
      using trans [of x y z] that Cons.prems by (auto simp: list_all_iff)
    then show ?thesis using False Cons.prems \<open>compare x y \<noteq> Ord_greater\<close> by simp
  qed
qed simp

lemma sort_sorted:
  assumes "list_all row_ok xs"
  shows "sorted_wrt (\<lambda>a b. compare a b \<noteq> Ord_greater) (StableSort (\<lambda>a b. compare a b = Ord_less) xs) \<and>
    mset (StableSort (\<lambda>a b. compare a b = Ord_less) xs) = mset xs"
  using assms
proof (induction xs)
  case (Cons x xs)
  let ?s = "StableSort (\<lambda>a b. compare a b = Ord_less) xs"
  have s: "sorted_wrt (\<lambda>a b. compare a b \<noteq> Ord_greater) ?s" "mset ?s = mset xs" using Cons by simp_all
  then have "set ?s = set xs" by (metis set_mset_mset)
  then have "list_all row_ok ?s" using Cons.prems by (simp add: list_all_iff)
  from insert_sorted [OF _ this s(1), of x] s(2) Cons.prems show ?case by (simp add: StableSort_def)
qed (simp add: StableSort_def)

lemma search_all:
  assumes "list_all row_ok rows" "row_ok r" "sorted_wrt (\<lambda>a b. compare a b \<noteq> Ord_greater) rows"
    and "\<And>i. i < length rows \<Longrightarrow> lower i = Inr (compare (rows ! i) r = Ord_less)"
  shows "\<exists>i. BoundLoop lower 0 (length rows) = Inr i \<and> key_bound compare rows r i"
  by (rule search [OF assms]) auto

text \<open>Sorted elements of which no two are equal are in strict order.\<close>

lemma sorted_keyed:
  assumes "sorted_wrt (\<lambda>a b. compare a b \<noteq> Ord_greater) xs"
    "\<And>i j. i < j \<Longrightarrow> j < length xs \<Longrightarrow> compare (xs ! i) (xs ! j) \<noteq> Ord_equal"
  shows "keyed compare xs"
  unfolding keyed_def sorted_wrt_iff_nth_less
proof (intro allI impI)
  fix i j assume "i < j" "j < length xs"
  then show "compare (xs ! i) (xs ! j) = Ord_less"
    using assms by (cases "compare (xs ! i) (xs ! j)") (auto simp: sorted_wrt_iff_nth_less)
qed

lemma keyed_inj:
  assumes "list_all row_ok xs" "keyed compare xs" "i < length xs" "j < length xs" "compare (xs ! i) (xs ! j) = Ord_equal"
  shows "i = j"
proof -
  have "compare (xs ! a) (xs ! b) = Ord_less" if "a < b" "b < length xs" for a b
    using assms(2) that by (simp add: keyed_def sorted_wrt_iff_nth_less)
  moreover have "compare (xs ! j) (xs ! i) = Ord_equal"
    using flip [of "xs ! i" "xs ! j"] assms by (simp add: list_all_length)
  ultimately show ?thesis using assms(3-5) by (metis linorder_neqE_nat ordering.distinct(1))
qed

end

lemma key_order_map: "key_order ok c \<Longrightarrow> key_order (\<lambda>i. ok (f i)) (\<lambda>i j. c (f i) (f j))"
  unfolding key_order_def by blast

section \<open>Building the view\<close>

definition view_rows :: "held \<Rightarrow> row list" where
  "view_rows h = map (\<lambda>i. tt_rows (hd_temp h) ! i) (st_view (hd_state h))"

text \<open>The view is fresh: it was built from the rows as they are.\<close>

definition fresh :: "held \<Rightarrow> bool" where
  "fresh h \<longleftrightarrow> st_viewVersion (hd_state h) = tt_version (hd_temp h) \<and>
    list_all (\<lambda>i. i < length (tt_rows (hd_temp h))) (st_view (hd_state h))"

text \<open>What a view selects by some filters and an order.\<close>

definition shows_rows :: "table_def \<Rightarrow> bound_filter list \<Rightarrow> order_column list \<Rightarrow> held \<Rightarrow> bool" where
  "shows_rows table fs columns h \<longleftrightarrow> fresh h \<and> keyed (CompareColumns columns) (view_rows h) \<and>
    set (view_rows h) = {r \<in> set (tt_rows (hd_temp h)). Selected table (hd_state h) fs r}"

lemma Build_shows:
  assumes declared: "key_declared table" and ok: "temp_ok table (hd_temp h)"
    and fs: "MakeFilter table (st_viewFilters (hd_state h)) = Inr fs"
    and columns: "MakeOrder table (st_viewKey (hd_state h)) (st_viewAscending (hd_state h)) = Inr columns"
  shows "\<exists>view. Build table h = Inr (h\<lparr>hd_state := (hd_state h)\<lparr>st_view := view, st_viewVersion := tt_version (hd_temp h)\<rparr>\<rparr>) \<and>
    shows_rows table fs columns (h\<lparr>hd_state := (hd_state h)\<lparr>st_view := view, st_viewVersion := tt_version (hd_temp h)\<rparr>\<rparr>)"
proof -
  let ?rows = "tt_rows (hd_temp h)"
  let ?picked = "filter (\<lambda>i. Selected table (hd_state h) fs (?rows ! i)) [0..<length ?rows]"
  let ?c = "\<lambda>a b. CompareColumns columns (?rows ! a) (?rows ! b)"
  let ?view = "StableSort (\<lambda>a b. ?c a b = Ord_less) ?picked"
  note rows = temp_ok_rows [OF declared ok]
  have order: "key_order (\<lambda>i. columns_fit columns (?rows ! i)) ?c" by (rule key_order_map [OF CompareColumns_order])
  have fit: "list_all (\<lambda>i. columns_fit columns (?rows ! i)) ?picked"
    using rows(3) MakeOrder_fit [OF columns] by (auto simp: list_all_iff)
  note sorted = key_order.sort_sorted [OF order fit]
  have set_view: "set ?view = set ?picked" using conjunct2 [OF sorted] by (metis set_mset_mset)
  have dist: "distinct ?view" using conjunct2 [OF sorted] by (metis distinct_filter distinct_upt mset_eq_imp_distinct_iff)
  have apart: "?c (?view ! a) (?view ! b) \<noteq> Ord_equal" if "a < b" "b < length ?view" for a b
  proof
    assume "?c (?view ! a) (?view ! b) = Ord_equal"
    then have "KeyOrder table (?rows ! (?view ! a)) (?rows ! (?view ! b)) = Ord_equal"
      by (rule MakeOrder_key [OF columns declared])
    moreover have "?view ! a < length ?rows" "?view ! b < length ?rows"
      using that set_view nth_mem [of a ?view] nth_mem [of b ?view] by simp_all
    ultimately have "?view ! a = ?view ! b" using columns.keyed_inj [OF rows(1,2)] by blast
    with dist that show False by (simp add: nth_eq_iff_index_eq)
  qed
  have "keyed ?c ?view" by (rule key_order.sorted_keyed [OF order conjunct1 [OF sorted] apart])
  then have "keyed (CompareColumns columns) (map (\<lambda>i. ?rows ! i) ?view)" by (simp add: keyed_def sorted_wrt_map)
  then show ?thesis using fs columns set_view
    by (intro exI [of _ ?view]) (auto simp: Build_def shows_rows_def fresh_def view_rows_def list_all_iff Let_def
      in_set_conv_nth Selected_def image_iff)
qed

lemma shows_rows_cong:
  assumes "hd_temp h' = hd_temp h" "st_view (hd_state h') = st_view (hd_state h)"
    "st_viewVersion (hd_state h') = st_viewVersion (hd_state h)" "st_marks (hd_state h') = st_marks (hd_state h)"
    "st_markedOnly (hd_state h') = st_markedOnly (hd_state h)"
  shows "shows_rows table fs columns h' \<longleftrightarrow> shows_rows table fs columns h" "view_rows h' = view_rows h" "fresh h' \<longleftrightarrow> fresh h"
proof -
  have "Selected table (hd_state h') = Selected table (hd_state h)"
    using assms(4,5) by (simp add: fun_eq_iff Selected_def)
  then show "shows_rows table fs columns h' \<longleftrightarrow> shows_rows table fs columns h" "view_rows h' = view_rows h" "fresh h' \<longleftrightarrow> fresh h"
    using assms by (simp_all add: shows_rows_def fresh_def view_rows_def)
qed

lemma Snapshot_shows:
  assumes "key_declared table" "held_ok table h"
    and "MakeFilter table (st_filters (hd_state h)) = Inr fs"
    and "MakeOrder table (st_key (hd_state h)) (st_ascending (hd_state h)) = Inr columns"
  shows "\<exists>h'. Snapshot table h = Inr h' \<and> shows_rows table fs columns h' \<and> hd_temp h' = hd_temp h \<and> hd_row h' = hd_row h \<and>
    hd_state h' = (hd_state h)\<lparr>st_view := st_view (hd_state h'), st_viewVersion := tt_version (hd_temp h),
      st_viewFilters := st_filters (hd_state h), st_viewKey := st_key (hd_state h),
      st_viewAscending := st_ascending (hd_state h), st_viewDirty := False\<rparr>"
proof -
  let ?g = "h\<lparr>hd_state := (hd_state h)\<lparr>st_viewFilters := st_filters (hd_state h), st_viewKey := st_key (hd_state h),
    st_viewAscending := st_ascending (hd_state h)\<rparr>\<rparr>"
  have ok: "temp_ok table (hd_temp ?g)" using assms(2) by (simp add: held_ok_def)
  let ?b = "\<lambda>view. ?g\<lparr>hd_state := (hd_state ?g)\<lparr>st_view := view, st_viewVersion := tt_version (hd_temp ?g)\<rparr>\<rparr>"
  obtain view where v: "Build table ?g = Inr (?b view)" and b: "shows_rows table fs columns (?b view)"
    using Build_shows [OF assms(1) ok, of fs columns] assms(3,4) by auto
  let ?h' = "?b view\<lparr>hd_state := (hd_state (?b view))\<lparr>st_viewDirty := False\<rparr>\<rparr>"
  have "shows_rows table fs columns ?h'" using b by (subst shows_rows_cong(1) [where h = "?b view"]) simp_all
  moreover have "Snapshot table h = Inr ?h'" using v by (simp add: Snapshot_def Let_def)
  ultimately show ?thesis by (intro exI [of _ ?h']) simp
qed

section \<open>The invariant\<close>

lemma fresh_held_ok:
  "fresh h \<Longrightarrow> held_ok table h \<longleftrightarrow> temp_ok table (hd_temp h) \<and> row_fits table (hd_row h)"
  by (auto simp: fresh_def held_ok_def view_ok_def)

lemma fresh_keeps:
  "fresh s \<Longrightarrow> hd_temp s = hd_temp h \<Longrightarrow> hd_row s = hd_row h \<Longrightarrow> held_ok table h \<Longrightarrow> held_ok table s"
  by (simp add: fresh_held_ok) (simp add: held_ok_def)




lemma Land_parts [simp]:
  "hd_temp (Land h i) = hd_temp h" "st_view (hd_state (Land h i)) = st_view (hd_state h)"
  "view_rows (Land h i) = view_rows h" "st_at (hd_state (Land h i)) = i" "st_positioned (hd_state (Land h i))"
  "st_viewDirty (hd_state (Land h i)) = st_viewDirty (hd_state h)"
  "st_viewVersion (hd_state (Land h i)) = st_viewVersion (hd_state h)"
  by (simp_all add: Land_def view_rows_def)

lemma Land_row: "i < length (st_view (hd_state h)) \<Longrightarrow> hd_row (Land h i) = view_rows h ! i"
  by (simp add: Land_def view_rows_def)

lemma length_view_rows [simp]: "length (view_rows h) = length (st_view (hd_state h))"
  by (simp add: view_rows_def)

lemma RowOf_view: "i < length (st_view (hd_state h)) \<Longrightarrow> RowOf h i = view_rows h ! i"
  by (simp add: RowOf_def view_rows_def)






section \<open>Walking the view\<close>

lemma NextLoop_forward:
  "NextLoop len False n i final taken = (let k = min n (len - i) in
    if k = 0 then (final, taken) else (i + k - 1, taken + int k))"
proof (induction n arbitrary: i final taken)
  case (Suc n)
  show ?case using Suc.IH [of "i + 1" i "taken + 1"] by (cases "len \<le> i") (auto simp: Let_def min_def split: if_splits)
qed simp

lemma NextLoop_backward:
  "NextLoop len True n i final taken = (if n = 0 \<or> len \<le> i then (final, taken)
    else (i + 1 - min n (i + 1), taken + int (min n (i + 1))))"
proof (induction n arbitrary: i final taken)
  case (Suc n)
  show ?case
  proof (cases "len \<le> i \<or> i = 0")
    case False
    then show ?thesis using Suc.IH [of "i - 1" i "taken + 1"] by (auto simp: min_def)
  qed auto
qed simp



text \<open>A record on a row of its view.\<close>

definition on_row :: "held \<Rightarrow> bool" where
  "on_row h \<longleftrightarrow> fresh h \<and> \<not> st_viewDirty (hd_state h) \<and> st_positioned (hd_state h) \<and>
    st_at (hd_state h) < length (st_view (hd_state h)) \<and> hd_row h = view_rows h ! st_at (hd_state h)"

lemma Land_on_row:
  "fresh h \<Longrightarrow> \<not> st_viewDirty (hd_state h) \<Longrightarrow> i < length (st_view (hd_state h)) \<Longrightarrow> on_row (Land h i)"
  by (simp add: on_row_def Land_row) (simp add: fresh_def)

lemma Refresh_on_row: "on_row h \<Longrightarrow> Refresh table h = Inr (h, st_at (hd_state h), True)"
  by (simp add: on_row_def fresh_def Refresh_def)

lemma Next_on_row:
  assumes "on_row h"
  shows "TempNext table (int n) h = Inr (let k = min n (length (view_rows h) - st_at (hd_state h) - 1) in
      if k = 0 then (h, 0) else (Land h (st_at (hd_state h) + k), int k))"
    and "TempNext table (- int n) h = Inr (let k = min n (st_at (hd_state h)) in
      if k = 0 then (h, 0) else (Land h (st_at (hd_state h) - k), - int k))"
proof -
  have pos: "st_positioned (hd_state h)" and at: "st_at (hd_state h) < length (st_view (hd_state h))"
    using assms by (simp_all add: on_row_def)
  note r = Refresh_on_row [OF assms, of table]
  show "TempNext table (int n) h = Inr (let k = min n (length (view_rows h) - st_at (hd_state h) - 1) in
      if k = 0 then (h, 0) else (Land h (st_at (hd_state h) + k), int k))"
    using pos at by (cases "n = 0") (auto simp: TempNext_def r NextLoop_forward Let_def)
  show "TempNext table (- int n) h = Inr (let k = min n (st_at (hd_state h)) in
      if k = 0 then (h, 0) else (Land h (st_at (hd_state h) - k), - int k))"
    using pos at by (cases "n = 0"; cases "st_at (hd_state h) = 0")
      (auto simp: TempNext_def r NextLoop_backward Let_def min_def)
qed

text \<open>The rows that \<open>repeat \<dots> until Rec.Next() = 0\<close> sees, none when it does not end within the fuel.\<close>

fun Walk :: "nat \<Rightarrow> table_def \<Rightarrow> held \<Rightarrow> row list option" where
  "Walk 0 table h = None"
| "Walk (Suc n) table h =
     (case TempNext table 1 h of
        Inl _ \<Rightarrow> None
      | Inr (h', taken) \<Rightarrow>
          if taken = 0 then Some [hd_row h] else map_option ((#) (hd_row h)) (Walk n table h'))"

lemma Walk_view:
  "on_row h \<Longrightarrow> length (view_rows h) - st_at (hd_state h) \<le> n \<Longrightarrow> Walk n table h = Some (drop (st_at (hd_state h)) (view_rows h))"
proof (induction n arbitrary: h)
  case 0
  then show ?case by (simp add: on_row_def)
next
  case (Suc n)
  let ?at = "st_at (hd_state h)"
  have at: "?at < length (view_rows h)" "hd_row h = view_rows h ! ?at" "fresh h" "\<not> st_viewDirty (hd_state h)"
    using Suc.prems(1) by (simp_all add: on_row_def)
  note step1 = Next_on_row(1) [OF Suc.prems(1), of table 1, simplified]
  show ?case
  proof (cases "?at + 1 < length (view_rows h)")
    case True
    have land: "on_row (Land h (?at + 1))" using Land_on_row [OF at(3,4)] True by simp
    have "TempNext table 1 h = Inr (Land h (?at + 1), 1)" using step1 True by (simp add: Let_def)
    then show ?thesis using Suc.IH [OF land] Suc.prems(2) True at(1,2) by (simp add: Cons_nth_drop_Suc)
  next
    case False
    then have "TempNext table 1 h = Inr (h, 0)" using step1 at(1) by (simp add: Let_def)
    moreover have "drop ?at (view_rows h) = [view_rows h ! ?at]"
      using at(1) False by (simp add: Cons_nth_drop_Suc [symmetric])
    ultimately show ?thesis using at(2) by simp
  qed
qed

section \<open>A walk over rows that changed\<close>

text \<open>Rows changed since the view was built, and the record's row is one of them as it is, or gone.\<close>

definition changed :: "table_def \<Rightarrow> held \<Rightarrow> bool" where
  "changed table h \<longleftrightarrow> st_positioned (hd_state h) \<and> \<not> st_viewDirty (hd_state h) \<and>
    st_viewVersion (hd_state h) \<noteq> tt_version (hd_temp h) \<and> RowOfKey table (hd_temp h) (hd_row h) \<in> {None, Some (hd_row h)}"

lemma shows_fit:
  assumes "held_ok table h" "shows_rows table fs columns h" "MakeOrder table key ascending = Inr columns"
  shows "list_all (columns_fit columns) (view_rows h)" "columns_fit columns (hd_row h)"
  using assms held_parts [OF assms(1)] MakeOrder_fit [OF assms(3)] by (auto simp: shows_rows_def list_all_iff temp_ok_def)

lemma Refresh_changed:
  assumes declared: "key_declared table" and ok: "held_ok table h" and changed: "changed table h"
    and fs: "MakeFilter table (st_viewFilters (hd_state h)) = Inr fs"
    and columns: "MakeOrder table (st_viewKey (hd_state h)) (st_viewAscending (hd_state h)) = Inr columns"
  shows "\<exists>g i found. Refresh table h = Inr (g, i, found) \<and> shows_rows table fs columns g \<and> hd_temp g = hd_temp h \<and>
    hd_row g = hd_row h \<and> Selected table (hd_state g) fs = Selected table (hd_state h) fs \<and>
    key_bound (CompareColumns columns) (view_rows g) (hd_row h) i \<and>
    (found \<longleftrightarrow> i < length (view_rows g) \<and> KeyOrder table (view_rows g ! i) (hd_row h) = Ord_equal)"
proof -
  let ?b = "\<lambda>view. h\<lparr>hd_state := (hd_state h)\<lparr>st_view := view, st_viewVersion := tt_version (hd_temp h)\<rparr>\<rparr>"
  obtain view where v: "Build table h = Inr (?b view)" and b: "shows_rows table fs columns (?b view)"
    using Build_shows [OF declared held_parts(1) [OF ok] fs columns] by blast
  obtain b where bv: "b = ?b view" by blast
  have okb: "held_ok table b" using fresh_keeps [of b h table] b ok bv by (simp add: shows_rows_def)
  note fit = shows_fit [OF okb b [folded bv] columns]
  have row: "hd_row b = hd_row h" using bv by simp
  have "\<exists>i. BoundLoop (\<lambda>i. Inr (CompareColumns columns (RowOf b i) (hd_row b) = Ord_less) :: al_error + bool)
      0 (length (st_view (hd_state b))) = Inr i \<and> key_bound (CompareColumns columns) (view_rows b) (hd_row b) i"
    using columns.search_all [OF fit keyed_weak, of "\<lambda>i. Inr (CompareColumns columns (RowOf b i) (hd_row b) = Ord_less)"]
      b [folded bv] by (simp add: shows_rows_def RowOf_view)
  then obtain i where i: "BoundLoop (\<lambda>i. Inr (CompareColumns columns (RowOf b i) (hd_row b) = Ord_less) :: al_error + bool)
      0 (length (st_view (hd_state b))) = Inr i" "key_bound (CompareColumns columns) (view_rows b) (hd_row b) i" by blast
  let ?found = "i < length (view_rows b) \<and> KeyOrder table (view_rows b ! i) (hd_row h) = Ord_equal"
  let ?g = "b\<lparr>hd_state := (hd_state b)\<lparr>st_at := if ?found then i else length (st_view (hd_state b))\<rparr>\<rparr>"
  have cols: "MakeOrder table (st_viewKey (hd_state b)) (st_viewAscending (hd_state b)) = Inr columns" using columns bv by simp
  have same: "(if i < length (st_view (hd_state b))
      then andThen (Ordered (RowOf b i) (hd_row b) table (PrimaryKey table)) (\<lambda>c. Inr (c = Ord_equal))
      else Inr False) = Inr ?found"
    by (simp add: Ordered_key [OF declared] RowOf_view row)
  have "\<not> st_viewDirty (hd_state h)" "st_viewVersion (hd_state h) \<noteq> tt_version (hd_temp h)"
    using changed by (simp_all add: changed_def)
  then have "Refresh table h = Inr (?g, i, ?found)"
    using i(1) cols same unfolding Refresh_def v [folded bv] by (simp add: Let_def)
  moreover have "shows_rows table fs columns ?g" using b [folded bv] by (subst shows_rows_cong(1) [where h = b]) simp_all
  moreover have "view_rows ?g = view_rows b" by (simp add: view_rows_def)
  moreover have "Selected table (hd_state ?g) fs = Selected table (hd_state h) fs" using bv by (simp add: fun_eq_iff Selected_def)
  moreover have "hd_temp ?g = hd_temp h" "hd_row ?g = hd_row h" using bv by simp_all
  ultimately show ?thesis using i(2) row by (intro exI [of _ ?g] exI [of _ i] exI [of _ ?found]) simp
qed

text \<open>Where the walk stands: the rows before the anchor are lower, those from the step on are greater.\<close>

lemma anchor:
  assumes declared: "key_declared table" and ok: "held_ok table h" and changed: "changed table h"
    and g: "shows_rows table fs columns g" "hd_temp g = hd_temp h" "hd_row g = hd_row h"
    and columns: "MakeOrder table key ascending = Inr columns"
    and bound: "key_bound (CompareColumns columns) (view_rows g) (hd_row h) i"
    and found: "found \<longleftrightarrow> i < length (view_rows g) \<and> KeyOrder table (view_rows g ! i) (hd_row h) = Ord_equal"
  shows "\<forall>j < i. CompareColumns columns (view_rows g ! j) (hd_row h) = Ord_less"
    and "\<forall>j. (if found then i + 1 else i) \<le> j \<and> j < length (view_rows g) \<longrightarrow>
      CompareColumns columns (view_rows g ! j) (hd_row h) = Ord_greater"
    and "found \<longrightarrow> CompareColumns columns (view_rows g ! i) (hd_row h) = Ord_equal"
proof -
  note rows = temp_ok_rows [OF declared held_parts(1) [OF ok]]
  have okg: "held_ok table g" using fresh_keeps [OF _ g(2,3) ok] g(1) by (simp add: shows_rows_def)
  note fit = shows_fit [OF okg g(1) columns]
  show below: "\<forall>j < i. CompareColumns columns (view_rows g ! j) (hd_row h) = Ord_less" using bound by (simp add: key_bound_def)
  have same: "view_rows g ! j = hd_row h"
    if "j < length (view_rows g)" "KeyOrder table (view_rows g ! j) (hd_row h) = Ord_equal" for j
  proof -
    have "view_rows g ! j \<in> set (tt_rows (hd_temp h))" using g(1,2) nth_mem [OF that(1)] by (auto simp: shows_rows_def)
    then have "RowOfKey table (hd_temp h) (hd_row h) = Some (view_rows g ! j)"
      unfolding RowOfKey_def
      using columns.row_at_iff [OF rows(1,2) fits_key [OF declared held_parts(2) [OF ok]]] that(2) by blast
    then show ?thesis using changed by (simp add: changed_def)
  qed
  have refl: "CompareColumns columns (hd_row h) (hd_row h) = Ord_equal" using columns.refl fit(2) g(3) by simp
  then show "found \<longrightarrow> CompareColumns columns (view_rows g ! i) (hd_row h) = Ord_equal" using refl found same [of i] by auto
  show "\<forall>j. (if found then i + 1 else i) \<le> j \<and> j < length (view_rows g) \<longrightarrow>
      CompareColumns columns (view_rows g ! j) (hd_row h) = Ord_greater"
  proof (intro allI impI)
    fix j assume j: "(if found then i + 1 else i) \<le> j \<and> j < length (view_rows g)"
    then have ij: "i \<le> j" by (simp split: if_splits)
    then have ge: "CompareColumns columns (view_rows g ! j) (hd_row h) \<noteq> Ord_less" using bound j by (simp add: key_bound_def)
    show "CompareColumns columns (view_rows g ! j) (hd_row h) = Ord_greater"
    proof (cases "CompareColumns columns (view_rows g ! j) (hd_row h)")
      case Ord_equal
      then have k: "KeyOrder table (view_rows g ! j) (hd_row h) = Ord_equal" by (rule MakeOrder_key [OF columns declared])
      have "i \<noteq> j" using found j k by auto
      then have "CompareColumns columns (view_rows g ! i) (view_rows g ! j) = Ord_less"
        using ij j g(1) by (simp add: shows_rows_def keyed_def sorted_wrt_iff_nth_less)
      then have "CompareColumns columns (view_rows g ! i) (hd_row h) = Ord_less" using same [of j] j k by simp
      then show ?thesis using bound ij j by (simp add: key_bound_def)
    qed (use ge in simp_all)
  qed
qed

lemma drop_nth: "x \<in> set (drop i xs) \<Longrightarrow> \<exists>j. i \<le> j \<and> j < length xs \<and> x = xs ! j"
  using in_drop [of x i xs] by (metis le_add1)

text \<open>The rows of the view that come after and before the row a walk stands on.\<close>

lemma view_after:
  assumes g: "shows_rows table fs columns g"
    and below: "\<forall>j < i. CompareColumns columns (view_rows g ! j) r = Ord_less"
    and above: "\<forall>j. (if found then i + 1 else i) \<le> j \<and> j < length (view_rows g) \<longrightarrow>
      CompareColumns columns (view_rows g ! j) r = Ord_greater"
    and at: "found \<longrightarrow> CompareColumns columns (view_rows g ! i) r = Ord_equal"
    and len: "i \<le> length (view_rows g)"
  shows "{x \<in> set (view_rows g). CompareColumns columns x r = Ord_greater} = set (drop (if found then i + 1 else i) (view_rows g))"
    and "{x \<in> set (view_rows g). CompareColumns columns x r = Ord_less} = set (take i (view_rows g))"
proof -
  have cmp: "CompareColumns columns (view_rows g ! j) r =
      (if j < i then Ord_less else if found \<and> j = i then Ord_equal else Ord_greater)" if "j < length (view_rows g)" for j
    using below above at that by (cases "j < i"; cases "j = i"; cases found) auto
  show "{x \<in> set (view_rows g). CompareColumns columns x r = Ord_greater} = set (drop (if found then i + 1 else i) (view_rows g))"
  proof (intro set_eqI iffI)
    fix x assume "x \<in> {x \<in> set (view_rows g). CompareColumns columns x r = Ord_greater}"
    then obtain j where j: "j < length (view_rows g)" "x = view_rows g ! j" "CompareColumns columns x r = Ord_greater"
      by (auto simp: in_set_conv_nth)
    then have "(if found then i + 1 else i) \<le> j" using cmp [of j] by (auto split: if_splits)
    then show "x \<in> set (drop (if found then i + 1 else i) (view_rows g))"
      using j by (auto simp: in_drop intro!: exI [of _ "j - (if found then i + 1 else i)"])
  next
    fix x assume "x \<in> set (drop (if found then i + 1 else i) (view_rows g))"
    from drop_nth [OF this] show "x \<in> {x \<in> set (view_rows g). CompareColumns columns x r = Ord_greater}"
      using above by auto
  qed
  show "{x \<in> set (view_rows g). CompareColumns columns x r = Ord_less} = set (take i (view_rows g))"
  proof (intro set_eqI iffI)
    fix x assume "x \<in> {x \<in> set (view_rows g). CompareColumns columns x r = Ord_less}"
    then obtain j where j: "j < length (view_rows g)" "x = view_rows g ! j" "CompareColumns columns x r = Ord_less"
      by (auto simp: in_set_conv_nth)
    then have "j < i" using cmp [of j] by (auto split: if_splits)
    then show "x \<in> set (take i (view_rows g))" using j by (auto simp: in_set_conv_nth intro!: exI [of _ j])
  next
    fix x assume "x \<in> set (take i (view_rows g))"
    then show "x \<in> {x \<in> set (view_rows g). CompareColumns columns x r = Ord_less}"
      using below len by (auto simp: in_set_conv_nth)
  qed
qed

lemma first_of:
  assumes "keyed c xs" "x \<in> set (drop i xs)"
  shows "x = xs ! i \<or> c (xs ! i) x = Ord_less"
proof -
  obtain j where j: "i \<le> j" "j < length xs" "x = xs ! j" using drop_nth [OF assms(2)] by blast
  then show ?thesis using assms(1) by (cases "i = j") (simp_all add: keyed_def sorted_wrt_iff_nth_less)
qed

lemma last_of:
  assumes "keyed c xs" "i \<le> length xs" "x \<in> set (take i xs)"
  shows "x = xs ! (i - 1) \<or> c x (xs ! (i - 1)) = Ord_less"
proof -
  have "\<exists>j. j < i \<and> x = xs ! j" using assms(3) by (auto simp: in_set_conv_nth)
  then obtain j where j: "j < i" "x = xs ! j" by blast
  then show ?thesis using assms(1,2) by (cases "j = i - 1") (simp_all add: keyed_def sorted_wrt_iff_nth_less)
qed

lemma Next_changed:
  assumes "changed table h" "Refresh table h = Inr (g, i, found)" "i \<le> length (view_rows g)"
  shows "TempNext table 1 h = Inr (let start = if found then i + 1 else i in
      if start < length (view_rows g) then (Land g start, 1) else (g, 0))"
    and "TempNext table (- 1) h = Inr (if i = 0 then (g, 0) else (Land g (i - 1), - 1))"
proof -
  have pos: "st_positioned (hd_state h)" using assms(1) by (simp add: changed_def)
  show "TempNext table 1 h = Inr (let start = if found then i + 1 else i in
      if start < length (view_rows g) then (Land g start, 1) else (g, 0))"
    using pos assms(2) by (auto simp: TempNext_def Let_def NextLoop_forward)
  show "TempNext table (- 1) h = Inr (if i = 0 then (g, 0) else (Land g (i - 1), - 1))"
    using pos assms(2,3) by (auto simp: TempNext_def Let_def NextLoop_backward)
qed

lemma FindSet_shows:
  assumes "key_declared table" "held_ok table h"
    and "MakeFilter table (st_filters (hd_state h)) = Inr fs"
    and "MakeOrder table (st_key (hd_state h)) (st_ascending (hd_state h)) = Inr columns"
  shows "\<exists>h'. TempFindSet table h = Inr (h', \<exists>r \<in> set (tt_rows (hd_temp h)). Selected table (hd_state h) fs r) \<and>
    keyed (CompareColumns columns) (view_rows h') \<and>
    set (view_rows h') = {r \<in> set (tt_rows (hd_temp h)). Selected table (hd_state h) fs r} \<and>
    (if view_rows h' = [] then hd_row h' = hd_row h else on_row h' \<and> hd_row h' = hd (view_rows h')) \<and>
    hd_temp h' = hd_temp h"
proof -
  let ?g = "h\<lparr>hd_state := (hd_state h)\<lparr>st_positioned := False\<rparr>\<rparr>"
  have ok: "held_ok table ?g" using assms(2) by (simp add: held_ok_def view_ok_def)
  obtain s where s: "Snapshot table ?g = Inr s" "shows_rows table fs columns s" "hd_temp s = hd_temp h" "hd_row s = hd_row h"
    "hd_state s = (hd_state ?g)\<lparr>st_view := st_view (hd_state s), st_viewVersion := tt_version (hd_temp ?g),
      st_viewFilters := st_filters (hd_state ?g), st_viewKey := st_key (hd_state ?g),
      st_viewAscending := st_ascending (hd_state ?g), st_viewDirty := False\<rparr>"
    using Snapshot_shows [OF assms(1) ok, of fs columns] assms(3,4) by auto
  have dirty: "\<not> st_viewDirty (hd_state s)" and sel: "Selected table (hd_state s) fs = Selected table (hd_state h) fs"
    by (subst s(5), simp add: fun_eq_iff Selected_def)+
  have v: "keyed (CompareColumns columns) (view_rows s)" "fresh s"
    "set (view_rows s) = {r \<in> set (tt_rows (hd_temp h)). Selected table (hd_state h) fs r}"
    using s(2,3) sel by (simp_all add: shows_rows_def)
  have empty: "view_rows s = [] \<longleftrightarrow> st_view (hd_state s) = []" by (simp add: view_rows_def)
  show ?thesis
  proof (cases "view_rows s = []")
    case True
    then have "TempFindSet table h = Inr (s, False)" using s(1) empty by (simp add: TempFindSet_def)
    then show ?thesis using True v s(3,4) by (intro exI [of _ s]) auto
  next
    case False
    then have "TempFindSet table h = Inr (Land s 0, True)" using s(1) empty by (simp add: TempFindSet_def)
    moreover have "on_row (Land s 0)" using Land_on_row [OF v(2) dirty] False empty by simp
    moreover have "hd_row (Land s 0) = hd (view_rows s)" using Land_row [of 0 s] False empty by (simp add: hd_conv_nth)
    moreover have "\<exists>r \<in> set (tt_rows (hd_temp h)). Selected table (hd_state h) fs r" using False v(3) by (cases "view_rows s") auto
    ultimately show ?thesis using False v s(3) by (intro exI [of _ "Land s 0"]) simp
  qed
qed

lemma keyed_distinct_list:
  assumes "list_all (columns_fit columns) xs" "keyed (CompareColumns columns) xs"
  shows "distinct xs"
  unfolding distinct_conv_nth
proof (intro allI impI)
  fix i j assume "i < length xs" "j < length xs" "i \<noteq> j"
  then show "xs ! i \<noteq> xs ! j"
    using columns.keyed_inj [OF assms, of i j] columns.refl [of columns "xs ! j"] assms(1) by (auto simp: list_all_length)
qed

section \<open>Properties\<close>



text \<open>
  \<open>FindSet\<close> selects exactly the rows the filters and the marks pass, in strict order of the sort fields
  and, where those are equal, of the primary key, and puts the record on the first of them; it says
  whether there is one, and leaves the record as it was where there is none.
\<close>

theorem find_set:
  assumes "key_declared table" "held_ok table h"
    and "MakeFilter table (st_filters (hd_state h)) = Inr fs"
    and "MakeOrder table (st_key (hd_state h)) (st_ascending (hd_state h)) = Inr columns"
  shows "\<exists>h'. TempFindSet table h = Inr (h', \<exists>r \<in> set (tt_rows (hd_temp h)). Selected table (hd_state h) fs r) \<and>
    keyed (CompareColumns columns) (view_rows h') \<and>
    set (view_rows h') = {r \<in> set (tt_rows (hd_temp h)). Selected table (hd_state h) fs r} \<and>
    (if view_rows h' = [] then hd_row h' = hd_row h else on_row h' \<and> hd_row h' = hd (view_rows h')) \<and>
    hd_temp h' = hd_temp h"
  by (rule FindSet_shows [OF assms])

text \<open>
  C9: The loop \<open>if FindSet() then repeat ... until Next() = 0\<close> over rows its body leaves alone ends, and
  sees every selected row exactly once, in the order of the sort: it needs no more turns than there
  are rows.
\<close>

theorem loop_visits:
  assumes "key_declared table" "held_ok table h"
    and "MakeFilter table (st_filters (hd_state h)) = Inr fs"
    and "MakeOrder table (st_key (hd_state h)) (st_ascending (hd_state h)) = Inr columns"
    and "TempFindSet table h = Inr (h', True)" "length (tt_rows (hd_temp h)) \<le> n"
  shows "\<exists>rows. Walk n table h' = Some rows \<and> distinct rows \<and> keyed (CompareColumns columns) rows \<and>
    set rows = {r \<in> set (tt_rows (hd_temp h)). Selected table (hd_state h) fs r}"
proof -
  obtain g where g: "TempFindSet table h = Inr (g, \<exists>r \<in> set (tt_rows (hd_temp h)). Selected table (hd_state h) fs r)"
    "keyed (CompareColumns columns) (view_rows g)"
    "set (view_rows g) = {r \<in> set (tt_rows (hd_temp h)). Selected table (hd_state h) fs r}"
    "if view_rows g = [] then hd_row g = hd_row h else on_row g \<and> hd_row g = hd (view_rows g)"
    using FindSet_shows [OF assms(1-4)] by blast
  have h': "h' = g" and some: "view_rows g \<noteq> []" using g(1,3) assms(5) by auto
  have on: "on_row g" and row: "hd_row g = hd (view_rows g)" using g(4) some by auto
  have "list_all (columns_fit columns) (view_rows g)"
    using g(3) held_parts(1) [OF assms(2)] MakeOrder_fit [OF assms(4)] by (auto simp: list_all_iff temp_ok_def)
  note dist = keyed_distinct_list [OF this g(2)]
  have "st_at (hd_state g) = 0"
    using on row some nth_eq_iff_index_eq [OF dist, of 0 "st_at (hd_state g)"]
    by (cases "st_view (hd_state g)") (auto simp: on_row_def hd_conv_nth)
  moreover have "length (view_rows g) \<le> length (tt_rows (hd_temp h))"
    using g(3) distinct_card [OF dist] card_mono [of "set (tt_rows (hd_temp h))" "set (view_rows g)"]
      card_length [of "tt_rows (hd_temp h)"] by auto
  ultimately show ?thesis using Walk_view [OF on, of n table] assms(6) g(2,3) dist h' by simp
qed

lemma sample_filter: "MakeFilter sample_table (st_filters (hd_state (sample_held rows r))) = Inr []"
  by (simp add: sample_held_def NewState_def)

lemma sample_sort:
  "MakeOrder sample_table (st_key (hd_state (sample_held rows r))) (st_ascending (hd_state (sample_held rows r))) =
    Inr (key_columns sample_table)"
  by (simp add: sample_columns) (simp add: sample_held_def NewState_def MakeOrder_def AppendColumn_def FindField_def sample_table_def sample_field_def)

lemma sample_selected: "Selected table (hd_state (sample_held rows r)) [] = (\<lambda>_. True)"
  by (simp add: fun_eq_iff Selected_def sample_held_def NewState_def FilterMatches_def)

lemma find_set_witness:
  "\<exists>h'. TempFindSet sample_table (sample_held [sample_row 1 [], sample_row 3 []] (sample_row 2 [])) = Inr (h', True) \<and>
    set (view_rows h') = {sample_row 1 [], sample_row 3 []}"
proof -
  let ?h = "sample_held [sample_row 1 [], sample_row 3 []] (sample_row 2 [])"
  have ok: "held_ok sample_table ?h" using sample_held_ok [of "[1, 3]" 2 "[]"] by simp
  have "tt_rows (hd_temp ?h) = [sample_row 1 [], sample_row 3 []]" by (simp add: sample_held_def)
  then show ?thesis
    using find_set [OF sample_declared ok sample_filter sample_sort] by (auto simp: sample_selected)
qed

lemma loop_visits_witness:
  "\<exists>h' rows. TempFindSet sample_table (sample_held [sample_row 1 [], sample_row 3 []] (sample_row 2 [])) = Inr (h', True) \<and>
    Walk 2 sample_table h' = Some rows \<and> set rows = {sample_row 1 [], sample_row 3 []}"
proof -
  let ?h = "sample_held [sample_row 1 [], sample_row 3 []] (sample_row 2 [])"
  have ok: "held_ok sample_table ?h" using sample_held_ok [of "[1, 3]" 2 "[]"] by simp
  have rows: "tt_rows (hd_temp ?h) = [sample_row 1 [], sample_row 3 []]" by (simp add: sample_held_def)
  obtain h' where h': "TempFindSet sample_table ?h = Inr (h', True)"
    using FindSet_shows [OF sample_declared ok sample_filter sample_sort] by (auto simp: sample_selected rows ex_disj_distrib)
  from loop_visits [OF sample_declared ok sample_filter sample_sort h', of 2] h' show ?thesis
    by (auto simp: sample_selected rows)
qed

text \<open>
  C10: A step over rows that changed since they were selected goes on from the key of the record:
  \<open>Next()\<close> lands on the least selected row above it, \<open>Next(-1)\<close> on the greatest below, in the order the walk began
  with, and each returns zero and leaves the record when there is none, wherever the record's row is still
  in the table as the record has it, or has been deleted.
\<close>

theorem next_after_change:
  assumes "key_declared table" "held_ok table h" "changed table h"
    and "MakeFilter table (st_viewFilters (hd_state h)) = Inr fs"
    and "MakeOrder table (st_viewKey (hd_state h)) (st_viewAscending (hd_state h)) = Inr columns"
  shows "\<exists>f b. TempNext table 1 h =
      Inr (f, if \<exists>r \<in> set (tt_rows (hd_temp h)). Selected table (hd_state h) fs r \<and>
        CompareColumns columns r (hd_row h) = Ord_greater then 1 else 0) \<and>
    TempNext table (- 1) h =
      Inr (b, if \<exists>r \<in> set (tt_rows (hd_temp h)). Selected table (hd_state h) fs r \<and>
        CompareColumns columns r (hd_row h) = Ord_less then - 1 else 0) \<and>
    hd_temp f = hd_temp h \<and> hd_temp b = hd_temp h \<and>
    (let later = {r \<in> set (tt_rows (hd_temp h)). Selected table (hd_state h) fs r \<and>
        CompareColumns columns r (hd_row h) = Ord_greater} in
      if later = {} then hd_row f = hd_row h
      else hd_row f \<in> later \<and> (\<forall>r \<in> later. r = hd_row f \<or> CompareColumns columns (hd_row f) r = Ord_less)) \<and>
    (let earlier = {r \<in> set (tt_rows (hd_temp h)). Selected table (hd_state h) fs r \<and>
        CompareColumns columns r (hd_row h) = Ord_less} in
      if earlier = {} then hd_row b = hd_row h
      else hd_row b \<in> earlier \<and> (\<forall>r \<in> earlier. r = hd_row b \<or> CompareColumns columns r (hd_row b) = Ord_less))"
proof -
  obtain g i found where r: "Refresh table h = Inr (g, i, found)" and g: "shows_rows table fs columns g"
      "hd_temp g = hd_temp h" "hd_row g = hd_row h" "Selected table (hd_state g) fs = Selected table (hd_state h) fs"
      "key_bound (CompareColumns columns) (view_rows g) (hd_row h) i"
      "found \<longleftrightarrow> i < length (view_rows g) \<and> KeyOrder table (view_rows g ! i) (hd_row h) = Ord_equal"
    using Refresh_changed [OF assms] by blast
  note at = anchor [OF assms(1-3) g(1-3) assms(5) g(5,6)]
  have len: "i \<le> length (view_rows g)" using g(5) by (simp add: key_bound_def)
  note sets = view_after [OF g(1) at len]
  obtain start where start: "start = (if found then i + 1 else i)" by blast
  note step = Next_changed [OF assms(3) r len, unfolded Let_def, folded start]
  have rows: "set (view_rows g) = {r \<in> set (tt_rows (hd_temp h)). Selected table (hd_state h) fs r}"
    and keyed: "keyed (CompareColumns columns) (view_rows g)" using g(1,2,4) by (simp_all add: shows_rows_def)
  obtain later where later: "later = {r \<in> set (tt_rows (hd_temp h)). Selected table (hd_state h) fs r \<and>
      CompareColumns columns r (hd_row h) = Ord_greater}" by blast
  obtain earlier where earlier: "earlier = {r \<in> set (tt_rows (hd_temp h)). Selected table (hd_state h) fs r \<and>
      CompareColumns columns r (hd_row h) = Ord_less}" by blast
  have L: "later = set (drop start (view_rows g))" using sets(1) rows later start by auto
  have E: "earlier = set (take i (view_rows g))" using sets(2) rows earlier by auto
  have any: "(\<exists>r \<in> set (tt_rows (hd_temp h)). Selected table (hd_state h) fs r \<and>
        CompareColumns columns r (hd_row h) = Ord_greater) \<longleftrightarrow> later \<noteq> {}"
    "(\<exists>r \<in> set (tt_rows (hd_temp h)). Selected table (hd_state h) fs r \<and>
        CompareColumns columns r (hd_row h) = Ord_less) \<longleftrightarrow> earlier \<noteq> {}" using later earlier by auto
  have forward: "\<exists>f. TempNext table 1 h = Inr (f, if later \<noteq> {} then 1 else 0) \<and> hd_temp f = hd_temp h \<and>
      (if later = {} then hd_row f = hd_row h
       else hd_row f \<in> later \<and> (\<forall>r \<in> later. r = hd_row f \<or> CompareColumns columns (hd_row f) r = Ord_less))"
  proof (cases "start < length (view_rows g)")
    case True
    then have "view_rows g ! start \<in> later" using L by (auto simp: in_drop intro!: exI [of _ 0])
    then show ?thesis using step(1) True g(2) first_of [OF keyed] Land_row [of start g] L by auto
  qed (use step(1) L g(2,3) in simp)
  have backward: "\<exists>b. TempNext table (- 1) h = Inr (b, if earlier \<noteq> {} then - 1 else 0) \<and> hd_temp b = hd_temp h \<and>
      (if earlier = {} then hd_row b = hd_row h
       else hd_row b \<in> earlier \<and> (\<forall>r \<in> earlier. r = hd_row b \<or> CompareColumns columns r (hd_row b) = Ord_less))"
  proof (cases "i = 0")
    case False
    then have "view_rows g ! (i - 1) \<in> earlier" using E len by (auto simp: in_set_conv_nth intro!: exI [of _ "i - 1"])
    then show ?thesis using step(2) False g(2) last_of [OF keyed len] Land_row [of "i - 1" g] E len by auto
  qed (use step(2) E g(2,3) in simp)
  show ?thesis unfolding any later [symmetric] earlier [symmetric] Let_def using forward backward by blast
qed

definition sample_walk :: held where
  "sample_walk = \<lparr>hd_temp = \<lparr>tt_rows = [sample_row 1 [], sample_row 3 []], tt_version = 1\<rparr>,
     hd_state = NewState\<lparr>st_positioned := True, st_viewDirty := False\<rparr>, hd_row = sample_row 2 []\<rparr>"

lemma next_after_change_witness:
  "\<exists>f b. TempNext sample_table 1 sample_walk = Inr (f, 1) \<and> TempNext sample_table (- 1) sample_walk = Inr (b, - 1) \<and>
    hd_row f = sample_row 3 [] \<and> hd_row b = sample_row 1 []"
proof -
  have ok: "held_ok sample_table sample_walk"
    by (simp add: held_ok_def temp_ok_def view_ok_def sample_walk_def NewState_def keyed_def)
  have ch: "changed sample_table sample_walk"
    by (simp add: changed_def sample_walk_def NewState_def RowOfKey_def row_at_def)
  have fs: "MakeFilter sample_table (st_viewFilters (hd_state sample_walk)) = Inr []"
    by (simp add: sample_walk_def NewState_def)
  have cs: "MakeOrder sample_table (st_viewKey (hd_state sample_walk)) (st_viewAscending (hd_state sample_walk)) = Inr (key_columns sample_table)"
    using sample_sort [of "[]" undefined] by (simp add: sample_walk_def sample_held_def NewState_def)
  have sel: "Selected sample_table (hd_state sample_walk) [] = (\<lambda>_. True)"
    by (simp add: fun_eq_iff Selected_def sample_walk_def NewState_def FilterMatches_def)
  have rows: "tt_rows (hd_temp sample_walk) = [sample_row 1 [], sample_row 3 []]" "hd_row sample_walk = sample_row 2 []"
    by (simp_all add: sample_walk_def)
  have sets: "{r. (r = sample_row 1 [] \<or> r = sample_row 3 []) \<and> KeyOrder sample_table r (sample_row 2 []) = Ord_greater} = {sample_row 3 []}"
    "{r. (r = sample_row 1 [] \<or> r = sample_row 3 []) \<and> KeyOrder sample_table r (sample_row 2 []) = Ord_less} = {sample_row 1 []}"
    by (auto simp del: CompareColumns.simps)
  show ?thesis
    using next_after_change [OF sample_declared ok ch fs cs] unfolding rows sel
    by (auto simp: sets Let_def ex_disj_distrib conj_disj_distribR simp del: CompareColumns.simps)
qed

section \<open>Variables that share rows\<close>

text \<open>
  After \<open>Rec.Copy(Source, true)\<close> the two variables have one table of rows: the copy is refused unless
  both are temporary, a row the source inserts is the row the target gets by its key, and the rows of every
  other table stay as they were.
\<close>

theorem shared_rows:
  assumes "key_declared table" "TempOf source = Some a" "hp a = Some temp"
    and "held_ok table \<lparr>hd_temp = temp, hd_state = EnsureState source, hd_row = rv_row source\<rparr>"
    and "RowOfKey table temp (rv_row source) = None"
    and "row_fits table (rv_row target)" "KeyOrder table (rv_row source) (rv_row target) = Ord_equal"
  shows "case RuntimeShareTemporary target source of
      Inl _ \<Rightarrow> TempOf target = None
    | Inr shared \<Rightarrow> TempOf target \<noteq> None \<and>
        (\<exists>hp' source' hp'' shared'. OnRows (TempInsert table) hp source = Some (Inr (hp', source', True)) \<and>
          OnRows (TempGet table) hp' shared = Some (Inr (hp'', shared', True)) \<and> rv_row shared' = rv_row source \<and>
          (\<forall>b. b \<noteq> a \<longrightarrow> hp'' b = hp b))"
proof (cases "RuntimeShareTemporary target source")
  case (Inl e)
  then show ?thesis using assms(2) by (simp add: RuntimeShareTemporary_def Let_def split: if_splits)
next
  case (Inr shared)
  let ?h = "\<lparr>hd_temp = temp, hd_state = EnsureState source, hd_row = rv_row source\<rparr>"
  have st: "st_temporary (EnsureState source) = Some a"
    using assms(2) by (auto simp: TempOf_def EnsureState_def split: option.splits)
  have sh: "st_temporary (EnsureState shared) = Some a" "rv_row shared = rv_row target" "TempOf target \<noteq> None"
    using Inr assms(2) by (auto simp: RuntimeShareTemporary_def EnsureState_def Let_def split: if_splits)
  obtain i where i: "TempInsert table ?h = Inr (i, True)" "held_ok table i" "hd_state i = EnsureState source" "hd_row i = rv_row source"
    "\<forall>k. row_fits table k \<longrightarrow> RowOfKey table (hd_temp i) k =
      (if KeyOrder table (rv_row source) k = Ord_equal then Some (rv_row source) else RowOfKey table temp k)"
    using map_insert [OF assms(1,4)] assms(5) by auto
  have ins: "OnRows (TempInsert table) hp source =
      Some (Inr (hp(a \<mapsto> hd_temp i), \<lparr>rv_row = rv_row source, rv_state = Some (EnsureState source)\<rparr>, True))"
    using st assms(3) i(1,3,4) by (simp add: OnRows_def)
  let ?g = "\<lparr>hd_temp = hd_temp i, hd_state = EnsureState shared, hd_row = rv_row target\<rparr>"
  have "\<exists>n. located table (hd_temp ?g) (hd_row ?g) n" using locate [OF assms(1)] held_parts(1) [OF i(2)] assms(6) by simp
  then have "TempGet table ?g = Inr (?g\<lparr>hd_row := rv_row source\<rparr>, True)"
    using i(5) assms(6,7) by (auto simp: TempGet_def located_def)
  then have "\<exists>shared'. OnRows (TempGet table) (hp(a \<mapsto> hd_temp i)) shared = Some (Inr (hp(a \<mapsto> hd_temp i), shared', True)) \<and>
      rv_row shared' = rv_row source"
    using sh by (simp add: OnRows_def fun_upd_idem)
  then show ?thesis using Inr ins sh(3) by auto
qed

lemma shared_rows_witness:
  "\<exists>hp' v' hp'' w'. OnRows (TempInsert sample_table) ((\<lambda>_. None)(7 \<mapsto> \<lparr>tt_rows = [], tt_version = 0\<rparr>))
      \<lparr>rv_row = sample_row 2 ''b'', rv_state = Some (NewState\<lparr>st_temporary := Some 7\<rparr>)\<rparr> = Some (Inr (hp', v', True)) \<and>
    OnRows (TempGet sample_table) hp' \<lparr>rv_row = sample_row 2 [], rv_state = Some (NewState\<lparr>st_temporary := Some 7, st_view := [],
      st_positioned := False\<rparr>)\<rparr> = Some (Inr (hp'', w', True)) \<and> rv_row w' = sample_row 2 ''b''"
proof -
  let ?v = "\<lparr>rv_row = sample_row 2 ''b'', rv_state = Some (NewState\<lparr>st_temporary := Some 7\<rparr>)\<rparr>"
  let ?w = "\<lparr>rv_row = sample_row 2 [], rv_state = Some (NewState\<lparr>st_temporary := Some 8\<rparr>)\<rparr>"
  have "held_ok sample_table \<lparr>hd_temp = \<lparr>tt_rows = [], tt_version = 0\<rparr>, hd_state = EnsureState ?v, hd_row = rv_row ?v\<rparr>"
    by (simp add: held_ok_def temp_ok_def view_ok_def EnsureState_def NewState_def keyed_def)
  from shared_rows [OF sample_declared, of ?v 7 "(\<lambda>_. None)(7 \<mapsto> \<lparr>tt_rows = [], tt_version = 0\<rparr>)", OF _ _ this, of ?w]
  show ?thesis by (auto simp: TempOf_def RowOfKey_def row_at_def RuntimeShareTemporary_def EnsureState_def)
qed

end
