(* ===== verification/Transaction.thy ===== *)
theory Transaction
  imports Records
begin

text \<open>
  Transactions: \<^verbatim>\<open>src/src/rt/Transaction.cpp\<close>, \<^verbatim>\<open>Scopes.cpp\<close>, the connection of \<^verbatim>\<open>src/src/db/Connection.cpp\<close>
  and the constructs that open a scope, \<^verbatim>\<open>runtime/Error.h\<close> (\<open>Tried\<close>, \<open>AssertError\<close>), \<^verbatim>\<open>runtime/Codeunit.h\<close>
  (\<open>Run\<close>, \<open>Ok_Run\<close>) and \<^verbatim>\<open>src/src/rt/TestRunner.cpp\<close>. What libpq does with a statement is the parameter
  \<open>pq\<close>; the code a scope runs is an argument. An operation takes the session's state and gives its value or the
  exception it throws, with the state it leaves.
\<close>

section \<open>State\<close>

datatype transaction_type = UpdateNoLocks | UpdateType | SnapshotType | BrowseType | ReportType

datatype commit_behavior = CommitIgnore | CommitError

datatype error_behavior = CollectErrors

datatype pq_status = PQTRANS_IDLE | PQTRANS_ACTIVE | PQTRANS_INTRANS | PQTRANS_INERROR | PQTRANS_UNKNOWN

text \<open>What libpq does: a statement may fail with a message, and leaves the connection in a state either way.\<close>

record 'c pq =
  pq_exec :: "string \<Rightarrow> 'c \<Rightarrow> 'c \<times> string option"
  pq_transaction :: "'c \<Rightarrow> pq_status"

text \<open>The exceptions: a \<open>DatabaseError\<close>, another \<open>Error\<close>, another \<open>std::exception\<close>.\<close>

datatype failure = DatabaseFailure al_error | AlFailure al_error | OtherFailure string

record boundary =
  bd_name :: string
  bd_inconsistentBefore :: "string list"
  bd_writingBefore :: bool

record boundaries =
  bs_names :: "boundary list"
  bs_inconsistent :: "string list"
  bs_lastError :: string
  bs_cursorEpoch :: nat
  bs_isolationFloor :: nat
  bs_autoRollbackTest :: bool
  bs_writing :: bool
  bs_tryDepth :: nat
  bs_lastErrorCode :: string
  bs_issued :: nat
  bs_type :: transaction_type

text \<open>The session: its boundaries, its connection (none once closed), and what the scopes keep in it.\<close>

record 'c session =
  ss_bounds :: boundaries
  ss_connection :: "'c option"
  ss_authority :: "('c option \<Rightarrow> 'c option \<times> failure option) option"
  ss_commits :: "commit_behavior list"
  ss_errors :: "error_behavior list"
  ss_collected :: "string list"
  ss_disableWrite :: bool

type_synonym ('c, 'a) action = "'c session \<Rightarrow> (failure + 'a) \<times> 'c session"

definition bindS :: "('c, 'a) action \<Rightarrow> ('a \<Rightarrow> ('c, 'b) action) \<Rightarrow> ('c, 'b) action" where
  "bindS m f s = (case m s of (Inl e, s') \<Rightarrow> (Inl e, s') | (Inr a, s') \<Rightarrow> f a s')"

definition WithBounds :: "(boundaries \<Rightarrow> boundaries) \<Rightarrow> 'c session \<Rightarrow> 'c session" where
  "WithBounds f s = s\<lparr>ss_bounds := f (ss_bounds s)\<rparr>"

abbreviation names_of :: "'c session \<Rightarrow> boundary list" where
  "names_of s \<equiv> bs_names (ss_bounds s)"

section \<open>The connection\<close>

definition Execute :: "'c pq \<Rightarrow> string \<Rightarrow> ('c, unit) action" where
  "Execute pq sql s =
     (case ss_connection s of
        None \<Rightarrow>
          (Inl (DatabaseFailure (Error (''the connection is closed and this statement cannot run: '' @ sql) [])), s)
      | Some c \<Rightarrow>
          (case pq_exec pq sql c of
             (c', None) \<Rightarrow> (Inr (), s\<lparr>ss_connection := Some c'\<rparr>)
           | (c', Some message) \<Rightarrow>
               (Inl (DatabaseFailure (Error (message @ ''statement: '' @ sql) [])), s\<lparr>ss_connection := Some c'\<rparr>)))"

definition RunSql :: "'c pq \<Rightarrow> string \<Rightarrow> ('c, unit) action" where
  "RunSql pq sql = Execute pq sql"

definition InTransaction :: "'c pq \<Rightarrow> ('c, bool) action" where
  "InTransaction pq s =
     (case ss_connection s of
        None \<Rightarrow> (Inl (DatabaseFailure (Error ''the connection is closed'' [])), s)
      | Some c \<Rightarrow> (Inr (pq_transaction pq c = PQTRANS_INTRANS \<or> pq_transaction pq c = PQTRANS_INERROR), s))"

definition InFailedTransaction :: "'c pq \<Rightarrow> ('c, bool) action" where
  "InFailedTransaction pq s =
     (case ss_connection s of
        None \<Rightarrow> (Inl (DatabaseFailure (Error ''the connection is closed'' [])), s)
      | Some c \<Rightarrow> (Inr (pq_transaction pq c = PQTRANS_INERROR), s))"

section \<open>Boundaries\<close>

definition kFailedCommit :: string where
  "kFailedCommit = ''the transaction cannot be committed because a statement inside it failed''"

definition kLostIsolation :: string where
  "kLostIsolation = ''the test isolation transaction was lost; execution cannot continue inside this runner''"

definition NextName :: "nat \<Rightarrow> string" where
  "NextName issued = ''al_'' @ digits_of issued"

text \<open>\<open>if (!connection.InTransaction()) connection.Run("BEGIN")\<close>, in \<open>Open\<close> and \<open>Write\<close>.\<close>

definition EnsureTransaction :: "'c pq \<Rightarrow> ('c, unit) action" where
  "EnsureTransaction pq = bindS (InTransaction pq) (\<lambda>inside s. if inside then (Inr (), s) else RunSql pq ''BEGIN'' s)"

definition PushName :: "boundary \<Rightarrow> 'c session \<Rightarrow> 'c session" where
  "PushName b = WithBounds (\<lambda>bs. bs\<lparr>bs_names := bs_names bs @ [b]\<rparr>)"

definition OpenBoundary :: "'c pq \<Rightarrow> ('c, nat) action" where
  "OpenBoundary pq s =
     (if length (names_of s) < bs_isolationFloor (ss_bounds s) then (Inl (AlFailure (Error kLostIsolation [])), s)
      else
        let issued = bs_issued (ss_bounds s) + 1;
            next = \<lparr>bd_name = NextName issued, bd_inconsistentBefore = bs_inconsistent (ss_bounds s),
              bd_writingBefore = bs_writing (ss_bounds s)\<rparr> in
        bindS (EnsureTransaction pq) (\<lambda>_. bindS (RunSql pq (''SAVEPOINT '' @ bd_name next)) (\<lambda>_ s.
          (Inr (length (names_of s) + 1), PushName next s)))
          (WithBounds (\<lambda>bs. bs\<lparr>bs_issued := issued\<rparr>) s))"

definition ClearCommand :: "'c session \<Rightarrow> 'c session" where
  "ClearCommand = WithBounds (\<lambda>bs. bs\<lparr>bs_names := [], bs_inconsistent := [], bs_isolationFloor := 0,
     bs_autoRollbackTest := False, bs_writing := False, bs_tryDepth := 0, bs_type := UpdateNoLocks,
     bs_cursorEpoch := bs_cursorEpoch bs + 1\<rparr>)"

definition Rollback :: "'c pq \<Rightarrow> nat \<Rightarrow> ('c, unit) action" where
  "Rollback pq depth s =
     (if depth = 0 \<or> length (names_of s) < depth then (Inr (), s)
      else
        let b = names_of s ! (depth - 1) in
        bindS (RunSql pq (''ROLLBACK TO SAVEPOINT '' @ bd_name b)) (\<lambda>_.
        bindS (RunSql pq (''RELEASE SAVEPOINT '' @ bd_name b)) (\<lambda>_ s.
          (Inr (), WithBounds (\<lambda>bs. bs\<lparr>bs_writing := bd_writingBefore b, bs_names := take (depth - 1) (bs_names bs),
             bs_inconsistent := bd_inconsistentBefore b, bs_cursorEpoch := bs_cursorEpoch bs + 1\<rparr>) s))) s)"

definition Release :: "'c pq \<Rightarrow> nat \<Rightarrow> ('c, unit) action" where
  "Release pq depth s =
     (if depth = 0 \<or> length (names_of s) < depth then (Inr (), s)
      else
        case RunSql pq (''RELEASE SAVEPOINT '' @ bd_name (names_of s ! (depth - 1))) s of
          (Inl (DatabaseFailure refused), s') \<Rightarrow>
            bindS (Rollback pq depth) (\<lambda>_ s. (Inl (AlFailure (Error
              (''the transaction cannot be kept, a statement inside it failed and the failure was swallowed: '' @
               ae_text refused) [])), s)) s'
        | (Inl e, s') \<Rightarrow> (Inl e, s')
        | (Inr _, s') \<Rightarrow> (Inr (), WithBounds (\<lambda>bs. bs\<lparr>bs_names := take (depth - 1) (bs_names bs)\<rparr>) s'))"

definition MarkConsistent :: "string \<Rightarrow> bool \<Rightarrow> 'c session \<Rightarrow> 'c session" where
  "MarkConsistent table consistent = WithBounds (\<lambda>bs.
     bs\<lparr>bs_inconsistent :=
       (if consistent \<and> table \<in> set (bs_inconsistent bs) then remove1 table (bs_inconsistent bs)
        else if \<not> consistent \<and> table \<notin> set (bs_inconsistent bs) then bs_inconsistent bs @ [table]
        else bs_inconsistent bs)\<rparr>)"

definition Write :: "'c pq \<Rightarrow> ('c, unit) action" where
  "Write pq = bindS (EnsureTransaction pq) (\<lambda>_ s. (Inr (), WithBounds (\<lambda>bs. bs\<lparr>bs_writing := True\<rparr>) s))"

definition LockCommandCommit :: "('c, unit) action" where
  "LockCommandCommit s =
     (case ss_authority s of
        None \<Rightarrow> (Inr (), s)
      | Some lockCommit \<Rightarrow>
          (case lockCommit (ss_connection s) of
             (c, None) \<Rightarrow> (Inr (), s\<lparr>ss_connection := c\<rparr>)
           | (c, Some e) \<Rightarrow> (Inl e, s\<lparr>ss_connection := c\<rparr>)))"

fun RenewLoop :: "'c pq \<Rightarrow> boundary list \<Rightarrow> ('c, unit) action" where
  "RenewLoop pq [] s = (Inr (), s)"
| "RenewLoop pq (b # bs) s =
     bindS (RunSql pq (''SAVEPOINT '' @ bd_name b)) (\<lambda>_ s. RenewLoop pq bs (PushName b s)) s"

text \<open>The block that \<open>Commit\<close> tries: the transaction ends or the boundaries above the floor do, and they are renewed.\<close>

definition CommitTried :: "'c pq \<Rightarrow> boundary list \<Rightarrow> ('c, unit) action" where
  "CommitTried pq renewed s =
     (let floor = bs_isolationFloor (ss_bounds s) in
      bindS
        (if floor = 0 then
           bindS (InTransaction pq) (\<lambda>inside.
           bindS (\<lambda>s. if inside then bindS (RunSql pq ''COMMIT'') (\<lambda>_ s.
               (Inr (), WithBounds (\<lambda>bs. bs\<lparr>bs_cursorEpoch := bs_cursorEpoch bs + 1\<rparr>) s)) s else (Inr (), s)) (\<lambda>_ s.
             let s = WithBounds (\<lambda>bs. bs\<lparr>bs_names := [], bs_writing := False\<rparr>) s in
             if renewed \<noteq> [] then RunSql pq ''BEGIN'' s else (Inr (), s)))
         else if renewed \<noteq> [] then
           bindS (RunSql pq (''RELEASE SAVEPOINT '' @ bd_name (names_of s ! floor))) (\<lambda>_ s.
             (Inr (), WithBounds (\<lambda>bs. bs\<lparr>bs_names := take floor (bs_names bs)\<rparr>) s))
         else (\<lambda>s. (Inr (), s)))
        (\<lambda>_. bindS (RenewLoop pq renewed) (\<lambda>_ s. (Inr (), WithBounds (\<lambda>bs. bs\<lparr>bs_writing := False\<rparr>) s))) s)"

definition CommitBoundaries :: "'c pq \<Rightarrow> ('c, unit) action" where
  "CommitBoundaries pq =
     bindS LockCommandCommit (\<lambda>_ s.
       let bs = ss_bounds s; floor = bs_isolationFloor bs in
       if length (bs_names bs) < floor then (Inl (AlFailure (Error kLostIsolation [])), s)
       else bindS (InFailedTransaction pq) (\<lambda>broken s.
         if broken then (Inl (AlFailure (Error kFailedCommit [])), s)
         else if bs_inconsistent bs \<noteq> [] then
           (Inl (AlFailure (Error (''The transaction cannot be completed because it will cause inconsistencies in the '' @
              hd (bs_inconsistent bs) @ '' table. Check where and how the CONSISTENT function is used in the transaction '' @
              ''to find the error.'') [])), s)
         else
           let count = length (bs_names bs) - floor;
               renewed = map (\<lambda>k. \<lparr>bd_name = NextName (bs_issued bs + 1 + k), bd_inconsistentBefore = bs_inconsistent bs,
                 bd_writingBefore = False\<rparr>) [0..<count] in
           (case CommitTried pq renewed (WithBounds (\<lambda>bs. bs\<lparr>bs_issued := bs_issued bs + count\<rparr>) s) of
              (Inl (DatabaseFailure e), s') \<Rightarrow>
                bindS (InTransaction pq) (\<lambda>inside s.
                  (Inl (DatabaseFailure e), if inside then s
                     else WithBounds (\<lambda>bs. bs\<lparr>bs_names := [], bs_inconsistent := [], bs_writing := False,
                       bs_cursorEpoch := bs_cursorEpoch bs + 1\<rparr>) s)) s'
            | r \<Rightarrow> r)) s)"

section \<open>The last error\<close>

definition SetLastError :: "string \<Rightarrow> string \<Rightarrow> 'c session \<Rightarrow> 'c session" where
  "SetLastError text c = WithBounds (\<lambda>bs. bs\<lparr>bs_lastError := text, bs_lastErrorCode := c\<rparr>)"

definition ClearLastError :: "'c session \<Rightarrow> 'c session" where
  "ClearLastError = WithBounds (\<lambda>bs. bs\<lparr>bs_lastError := [], bs_lastErrorCode := []\<rparr>)"

definition LastErrorCode :: "'c session \<Rightarrow> string" where
  "LastErrorCode s =
     (let bs = ss_bounds s in
      if bs_lastError bs = [] then []
      else if bs_lastErrorCode bs = [] then ''Dialog'' else bs_lastErrorCode bs)"

definition EnterTry :: "'c session \<Rightarrow> 'c session" where
  "EnterTry = WithBounds (\<lambda>bs. bs\<lparr>bs_tryDepth := bs_tryDepth bs + 1\<rparr>)"

definition LeaveTry :: "'c session \<Rightarrow> 'c session" where
  "LeaveTry = WithBounds (\<lambda>bs. bs\<lparr>bs_tryDepth := size_sub (bs_tryDepth bs) 1\<rparr>)"

definition SetIsolationFloor :: "nat \<Rightarrow> 'c session \<Rightarrow> 'c session" where
  "SetIsolationFloor depth = WithBounds (\<lambda>bs. bs\<lparr>bs_isolationFloor := depth\<rparr>)"

definition SetAutoRollbackTest :: "bool \<Rightarrow> 'c session \<Rightarrow> 'c session" where
  "SetAutoRollbackTest active = WithBounds (\<lambda>bs. bs\<lparr>bs_autoRollbackTest := active\<rparr>)"

section \<open>Scopes\<close>

record scope =
  sp_depth :: nat
  sp_open :: bool

definition OpenScope :: "'c pq \<Rightarrow> ('c, scope) action" where
  "OpenScope pq = bindS (OpenBoundary pq) (\<lambda>depth s. (Inr \<lparr>sp_depth = depth, sp_open = True\<rparr>, s))"

text \<open>\<open>Scope::~Scope\<close>, with whether an exception unwinds: then a failure to roll back is only reported.\<close>

definition EndScope :: "'c pq \<Rightarrow> bool \<Rightarrow> scope \<Rightarrow> ('c, unit) action" where
  "EndScope pq unwinding scope s =
     (if \<not> sp_open scope then (Inr (), s)
      else if unwinding then (Inr (), snd (Rollback pq (sp_depth scope) s))
      else Rollback pq (sp_depth scope) s)"

definition KeepScope :: "'c pq \<Rightarrow> scope \<Rightarrow> 'c session \<Rightarrow> (failure + unit) \<times> scope \<times> 'c session" where
  "KeepScope pq scope s =
     (if \<not> sp_open scope then (Inr (), scope, s)
      else case Release pq (sp_depth scope) s of (r, s') \<Rightarrow> (r, scope\<lparr>sp_open := False\<rparr>, s'))"

definition RollbackScope :: "'c pq \<Rightarrow> scope \<Rightarrow> 'c session \<Rightarrow> (failure + unit) \<times> scope \<times> 'c session" where
  "RollbackScope pq scope s =
     (if \<not> sp_open scope then (Inr (), scope, s)
      else case Rollback pq (sp_depth scope) s of (r, s') \<Rightarrow> (r, scope\<lparr>sp_open := False\<rparr>, s'))"

definition DiscardScope :: "'c pq \<Rightarrow> string \<Rightarrow> string \<Rightarrow> scope \<Rightarrow> 'c session \<Rightarrow> (failure + unit) \<times> scope \<times> 'c session" where
  "DiscardScope pq text c scope s =
     (if \<not> sp_open scope then (Inr (), scope, s)
      else case Rollback pq (sp_depth scope) (SetLastError text c s) of (r, s') \<Rightarrow> (r, scope\<lparr>sp_open := False\<rparr>, s'))"

definition RequireWrite :: "'c pq \<Rightarrow> ('c, unit) action" where
  "RequireWrite pq s =
     (if ss_disableWrite s \<and> bs_tryDepth (ss_bounds s) \<noteq> 0 then
        (Inl (AlFailure (Error ''Database writes inside a TryFunction are disabled by runtime configuration''
          ''TryFunctionWrite'')), s)
      else Write pq s)"

definition BeginCodeunitRun :: "('c, nat) action" where
  "BeginCodeunitRun s =
     (if bs_writing (ss_bounds s) \<and> bs_isolationFloor (ss_bounds s) = 0 then
        (Inl (AlFailure (Error ''Commit the current write transaction before evaluating Codeunit.Run''
          ''CodeunitRunTransaction'')), s)
      else (Inr (length (ss_collected s)), s))"

definition EndCodeunitRun :: "'c pq \<Rightarrow> scope \<Rightarrow> nat \<Rightarrow> 'c session \<Rightarrow> (failure + unit) \<times> scope \<times> 'c session" where
  "EndCodeunitRun pq scope collected s =
     (if collected < length (ss_collected s) then RollbackScope pq scope s
      else case CommitBoundaries pq s of
        (Inl e, s') \<Rightarrow> (Inl e, scope, s')
      | (Inr _, s') \<Rightarrow> KeepScope pq scope s')"

section \<open>Commit behaviour and collected errors\<close>

definition OpenCommitScope :: "commit_behavior \<Rightarrow> 'c session \<Rightarrow> 'c session" where
  "OpenCommitScope behaviour s =
     (let standing = ss_commits s;
          behaviour = (if standing \<noteq> [] \<and> List.last standing = CommitError then CommitError else behaviour) in
      s\<lparr>ss_commits := standing @ [behaviour]\<rparr>)"

definition CloseCommitScope :: "'c session \<Rightarrow> 'c session" where
  "CloseCommitScope s = s\<lparr>ss_commits := butlast (ss_commits s)\<rparr>"

definition StandingCommit :: "'c session \<Rightarrow> commit_behavior option" where
  "StandingCommit s = (if ss_commits s = [] then None else Some (List.last (ss_commits s)))"

definition OpenErrorScope :: "error_behavior \<Rightarrow> 'c session \<Rightarrow> 'c session" where
  "OpenErrorScope behaviour s = s\<lparr>ss_errors := ss_errors s @ [behaviour]\<rparr>"

fun Aggregated :: "string list \<Rightarrow> string \<Rightarrow> string" where
  "Aggregated [] out = out"
| "Aggregated (e # es) out = Aggregated es ((if out \<noteq> [] then out @ [newline_char] else out) @ e)"

definition CloseErrorScope :: "bool \<Rightarrow> ('c, unit) action" where
  "CloseErrorScope unwinding s =
     (if ss_errors s = [] then (Inr (), s)
      else
        let s = s\<lparr>ss_errors := butlast (ss_errors s)\<rparr> in
        if ss_errors s \<noteq> [] \<or> ss_collected s = [] then (Inr (), s)
        else
          let aggregated = Aggregated (ss_collected s) []; s = s\<lparr>ss_collected := []\<rparr> in
          if \<not> unwinding then (Inl (AlFailure (Error aggregated [])), s) else (Inr (), s))"

definition CollectError :: "string \<Rightarrow> ('c, unit) action" where
  "CollectError message s =
     (if ss_errors s = [] then (Inl (AlFailure (Error message [])), s)
      else (Inr (), s\<lparr>ss_collected := ss_collected s @ [message]\<rparr>))"

text \<open>AL's \<open>Commit()\<close>.\<close>

definition AlCommit :: "'c pq \<Rightarrow> ('c, unit) action" where
  "AlCommit pq s =
     (if bs_autoRollbackTest (ss_bounds s) then
        (Inl (AlFailure (Error ''A Commit cannot be called from a test method with TransactionModel AutoRollback'' [])), s)
      else
        case StandingCommit s of
          Some CommitIgnore \<Rightarrow> (Inr (), s)
        | Some CommitError \<Rightarrow>
            (Inl (AlFailure (Error ''A Commit inside a [CommitBehavior(CommitBehavior::Error)] scope is refused'' [])), s)
        | None \<Rightarrow> CommitBoundaries pq s)"

section \<open>The constructs that open a scope\<close>

text \<open>What \<open>catch (const Error &)\<close> catches.\<close>

fun caught :: "failure \<Rightarrow> al_error option" where
  "caught (DatabaseFailure e) = Some e"
| "caught (AlFailure e) = Some e"
| "caught (OtherFailure _) = None"

text \<open>The stack unwinds through an open scope: its destructor rolls back, and the exception goes on.\<close>

definition Unwind :: "'c pq \<Rightarrow> scope \<Rightarrow> failure \<Rightarrow> ('c, 'a) action" where
  "Unwind pq scope e s = (Inl e, snd (EndScope pq True scope s))"

definition RememberError :: "al_error \<Rightarrow> 'c session \<Rightarrow> 'c session" where
  "RememberError e = SetLastError (ae_text e) (ae_code e)"

definition Tried :: "('c, unit) action \<Rightarrow> ('c, bool) action" where
  "Tried body s =
     (case body (EnterTry s) of
        (Inr _, s') \<Rightarrow> (Inr True, LeaveTry s')
      | (Inl e, s') \<Rightarrow>
          (case caught e of
             Some error \<Rightarrow> (Inr False, LeaveTry (RememberError error s'))
           | None \<Rightarrow> (Inl e, LeaveTry s')))"

definition AssertError :: "'c pq \<Rightarrow> ('c, unit) action \<Rightarrow> ('c, unit) action" where
  "AssertError pq body = bindS (OpenScope pq) (\<lambda>scope s.
     (case body s of
        (Inl e, s') \<Rightarrow>
          (case caught e of
             Some error \<Rightarrow> (case DiscardScope pq (ae_text error) (ae_code error) scope s' of (r, _, s'') \<Rightarrow> (r, s''))
           | None \<Rightarrow> Unwind pq scope e s')
      | (Inr _, s') \<Rightarrow>
          (case KeepScope pq scope s' of
             (Inl e, _, s'') \<Rightarrow> (Inl e, s'')
           | (Inr _, _, s'') \<Rightarrow>
               (Inl (AlFailure (Error ''the asserterror statement did not observe an error'' [])), s''))))"

text \<open>\<open>Codeunit::Run\<close> and \<open>Codeunit::Ok_Run\<close>, over what \<open>OnRun\<close> does.\<close>

definition CodeunitRun :: "'c pq \<Rightarrow> ('c, unit) action \<Rightarrow> ('c, bool) action" where
  "CodeunitRun pq OnRun = bindS (OpenScope pq) (\<lambda>scope s.
     (case OnRun s of
        (Inl e, s') \<Rightarrow> Unwind pq scope e s'
      | (Inr _, s') \<Rightarrow>
          (case KeepScope pq scope s' of (Inl e, _, s'') \<Rightarrow> (Inl e, s'') | (Inr _, _, s'') \<Rightarrow> (Inr True, s''))))"

definition OkRun :: "'c pq \<Rightarrow> ('c, unit) action \<Rightarrow> ('c, bool) action" where
  "OkRun pq OnRun = bindS BeginCodeunitRun (\<lambda>collected. bindS (OpenScope pq) (\<lambda>scope s.
     (let (r, scope, s') = (case OnRun s of (Inl e, s') \<Rightarrow> (Inl e, scope, s') | (Inr _, s') \<Rightarrow> EndCodeunitRun pq scope collected s') in
      case r of
        Inr _ \<Rightarrow> bindS (EndScope pq False scope) (\<lambda>_ s. (Inr True, s)) s'
      | Inl e \<Rightarrow>
          (case caught e of
             Some error \<Rightarrow>
               (case DiscardScope pq (ae_text error) (ae_code error) scope s' of
                  (Inl e', _, s'') \<Rightarrow> (Inl e', s'')
                | (Inr _, _, s'') \<Rightarrow> (Inr False, s''))
           | None \<Rightarrow> Unwind pq scope e s'))))"

section \<open>Running a test\<close>

datatype transaction_model = AutoCommitModel | AutoRollbackModel | NoneModel

datatype test_isolation = Disabled | CodeunitIsolation | FunctionIsolation

record test_method =
  tm_name :: string
  tm_model :: "transaction_model option"

record test_result =
  tr_codeunit :: string
  tr_method :: string
  tr_passed :: bool
  tr_error :: string

fun Missed :: "string list \<Rightarrow> string \<Rightarrow> string" where
  "Missed [] out = out"
| "Missed (n # ns) out = Missed ns ((if out \<noteq> [] then out @ '', '' else out) @ n)"

definition Failed :: "string \<Rightarrow> test_method \<Rightarrow> string \<Rightarrow> test_result" where
  "Failed codeunit method error = \<lparr>tr_codeunit = codeunit, tr_method = tm_name method, tr_passed = False, tr_error = error\<rparr>"

text \<open>A scope discarded, then a result; the failure to roll back goes on through the closed scope.\<close>

definition Discarded :: "'c pq \<Rightarrow> scope \<Rightarrow> string \<Rightarrow> string \<Rightarrow> 'a \<Rightarrow> ('c, 'a) action" where
  "Discarded pq scope text c a s =
     (case DiscardScope pq text c scope s of (Inl e, _, s') \<Rightarrow> (Inl e, s') | (Inr _, _, s') \<Rightarrow> (Inr a, s'))"

text \<open>
  \<open>RunOne\<close>: \<open>invoke\<close> is what installing the handlers and the method do, and gives the handlers that never ran.
  The resources, the seed and the traps of the method are not part of this state.
\<close>

definition RunOne :: "'c pq \<Rightarrow> string \<Rightarrow> test_method \<Rightarrow> ('c, string list) action \<Rightarrow> bool \<Rightarrow> ('c, test_result) action" where
  "RunOne pq codeunit method invoke commitOnSuccess s =
     bindS (OpenScope pq) (\<lambda>scope s.
       (let previous = bs_autoRollbackTest (ss_bounds s);
            autoRollback = (tm_model method = Some AutoRollbackModel);
            passed = \<lparr>tr_codeunit = codeunit, tr_method = tm_name method, tr_passed = True, tr_error = []\<rparr>;
            (r, s') =
              (case invoke (SetAutoRollbackTest autoRollback s) of
                 (Inl e, s1) \<Rightarrow>
                   (case e of
                      OtherFailure what \<Rightarrow>
                        Discarded pq scope what [] (Failed codeunit method
                          (''this case left a C++ exception rather than an AL error, which is a defect in the runtime '' @
                           ''and not in the test: '' @ what)) s1
                    | DatabaseFailure error \<Rightarrow>
                        Discarded pq scope (ae_text error) (ae_code error) (Failed codeunit method (ae_text error)) s1
                    | AlFailure error \<Rightarrow>
                        Discarded pq scope (ae_text error) (ae_code error) (Failed codeunit method (ae_text error)) s1)
               | (Inr missed, s1) \<Rightarrow>
                   if missed \<noteq> [] then
                     let error = ''The handler(s) '' @ Missed missed [] @ '' were named and never ran (board:0054)'' in
                     Discarded pq scope error [] (Failed codeunit method error) s1
                   else if autoRollback then Discarded pq scope [] [] passed s1
                   else
                     case (if commitOnSuccess then AlCommit pq s1 else (Inr (), s1)) of
                       (Inl e, s2) \<Rightarrow>
                         (case caught e of
                            Some error \<Rightarrow>
                              Discarded pq scope (ae_text error) (ae_code error) (Failed codeunit method (ae_text error)) s2
                          | None \<Rightarrow> Unwind pq scope e s2)
                     | (Inr _, s2) \<Rightarrow>
                         (case KeepScope pq scope s2 of (Inl e, _, s3) \<Rightarrow> (Inl e, s3) | (Inr _, _, s3) \<Rightarrow> (Inr passed, s3)))
        in (r, SetAutoRollbackTest previous s'))) (ClearLastError s)"

definition RunSelectedMethod :: "'c pq \<Rightarrow> string \<Rightarrow> test_method \<Rightarrow> ('c, string list) action \<Rightarrow> test_isolation \<Rightarrow>
    ('c, test_result) action" where
  "RunSelectedMethod pq codeunit method invoke isolation =
     (if isolation = FunctionIsolation then
        bindS (OpenScope pq) (\<lambda>methodIsolation s.
          (let previous = bs_isolationFloor (ss_bounds s) in
           case RunOne pq codeunit method invoke False (SetIsolationFloor (sp_depth methodIsolation) s) of
             (Inl e, s1) \<Rightarrow> Unwind pq methodIsolation e (SetIsolationFloor previous s1)
           | (Inr result, s1) \<Rightarrow>
               (case Discarded pq methodIsolation [] [] result s1 of (r, s2) \<Rightarrow> (r, SetIsolationFloor previous s2))))
      else RunOne pq codeunit method invoke
        (isolation = Disabled \<and> tm_model method \<noteq> Some NoneModel))"

end
