(* ===== verification/TransactionFacts.thy ===== *)
theory TransactionFacts
  imports Transaction
begin

text \<open>
  What the boundaries promise: they mirror the server's savepoints, a commit moves them, a scope that is
  discarded leaves the data as it was, and a test run under function isolation changes nothing at all.
  What PostgreSQL documents of its transaction statements is the locale \<open>postgres\<close>.
\<close>

section \<open>Names\<close>

lemma digits_of_inject: "digits_of m = digits_of n \<longleftrightarrow> m = n"
  by (metis digits_value_digits_of)

lemma NextName_inject [simp]: "NextName m = NextName n \<longleftrightarrow> m = n"
  by (simp add: NextName_def digits_of_inject)

section \<open>The server\<close>

text \<open>
  The transaction statements as PostgreSQL documents them, over a connection that stays up: whether a
  transaction is open and with which savepoints, each with the data it was set at, whether a statement in it
  failed, and the data. A failed transaction refuses everything but a rollback.
\<close>

locale postgres =
  fixes pq :: "'c pq"
    and stack :: "'c \<Rightarrow> (string \<times> 'd) list option"
    and failed :: "'c \<Rightarrow> bool"
    and contents :: "'c \<Rightarrow> 'd"
  assumes status: "pq_transaction pq c =
      (if stack c = None then PQTRANS_IDLE else if failed c then PQTRANS_INERROR else PQTRANS_INTRANS)"
    and begins: "stack c = None \<Longrightarrow> \<exists>c'. pq_exec pq ''BEGIN'' c = (c', None) \<and> stack c' = Some [] \<and> \<not> failed c' \<and>
      contents c' = contents c"
    and savepoint: "stack c = Some ss \<Longrightarrow> \<not> failed c \<Longrightarrow> \<exists>c'. pq_exec pq (''SAVEPOINT '' @ n) c = (c', None) \<and>
      stack c' = Some (ss @ [(n, contents c)]) \<and> \<not> failed c' \<and> contents c' = contents c"
    and release: "stack c = Some (ss @ (n, d) # ts) \<Longrightarrow> \<not> failed c \<Longrightarrow> n \<notin> fst ` set ts \<Longrightarrow>
      \<exists>c'. pq_exec pq (''RELEASE SAVEPOINT '' @ n) c = (c', None) \<and> stack c' = Some ss \<and> \<not> failed c' \<and>
      contents c' = contents c"
    and rollback_to: "stack c = Some (ss @ (n, d) # ts) \<Longrightarrow> n \<notin> fst ` set ts \<Longrightarrow>
      \<exists>c'. pq_exec pq (''ROLLBACK TO SAVEPOINT '' @ n) c = (c', None) \<and> stack c' = Some (ss @ [(n, d)]) \<and>
      \<not> failed c' \<and> contents c' = d"
    and commits: "stack c = Some ss \<Longrightarrow> \<not> failed c \<Longrightarrow> \<exists>c' r. pq_exec pq ''COMMIT'' c = (c', r) \<and> stack c' = None \<and>
      (r = None \<longrightarrow> contents c' = contents c)"
    and refuses: "stack c = Some ss \<Longrightarrow> failed c \<Longrightarrow> sql \<in> {''SAVEPOINT '' @ n, ''RELEASE SAVEPOINT '' @ n} \<Longrightarrow>
      \<exists>c' m. pq_exec pq sql c = (c', Some m) \<and> stack c' = Some ss \<and> failed c' \<and> contents c' = contents c"

section \<open>The invariant\<close>

definition mirrors :: "('c \<Rightarrow> (string \<times> 'd) list option) \<Rightarrow> 'c session \<Rightarrow> bool" where
  "mirrors stack s \<longleftrightarrow> ss_authority s = None \<and>
    (\<exists>c ks. ss_connection s = Some c \<and> map bd_name (names_of s) = map NextName ks \<and> sorted_wrt (<) ks \<and>
      list_all (\<lambda>k. k \<le> bs_issued (ss_bounds s)) ks \<and>
      (case stack c of None \<Rightarrow> names_of s = [] | Some ss \<Rightarrow> map fst ss = map bd_name (names_of s)))"

text \<open>The connection and its savepoints, where there is one.\<close>

definition conn :: "'c session \<Rightarrow> 'c" where
  "conn s = the (ss_connection s)"

definition saved :: "('c \<Rightarrow> (string \<times> 'd) list option) \<Rightarrow> 'c session \<Rightarrow> (string \<times> 'd) list" where
  "saved stack s = (case stack (conn s) of None \<Rightarrow> [] | Some ss \<Rightarrow> ss)"

lemma mirrors_parts:
  assumes "mirrors stack s"
  shows "ss_connection s = Some (conn s)" "map fst (saved stack s) = map bd_name (names_of s)"
    "distinct (map bd_name (names_of s))" "length (saved stack s) = length (names_of s)" "ss_authority s = None"
    "stack (conn s) = None \<Longrightarrow> names_of s = []"
    "bs_issued (ss_bounds s) < k \<Longrightarrow> NextName k \<notin> bd_name ` set (names_of s)"
proof -
  obtain c ks where c: "ss_connection s = Some c" and ks: "map bd_name (names_of s) = map NextName ks" "sorted_wrt (<) ks"
    "list_all (\<lambda>k. k \<le> bs_issued (ss_bounds s)) ks"
    and st: "case stack c of None \<Rightarrow> names_of s = [] | Some ss \<Rightarrow> map fst ss = map bd_name (names_of s)"
    using assms by (auto simp: mirrors_def)
  show "ss_connection s = Some (conn s)" using c by (simp add: conn_def)
  show m: "map fst (saved stack s) = map bd_name (names_of s)" using st c by (auto simp: saved_def conn_def split: option.splits)
  show "distinct (map bd_name (names_of s))"
    using ks(2) unfolding ks(1) by (simp add: distinct_map strict_sorted_iff inj_on_def)
  show "length (saved stack s) = length (names_of s)" using m by (metis length_map)
  show "ss_authority s = None" using assms by (simp add: mirrors_def)
  show "stack (conn s) = None \<Longrightarrow> names_of s = []" using st c by (simp add: conn_def)
  assume "bs_issued (ss_bounds s) < k"
  then have "k \<notin> set ks" using ks(3) by (auto simp: list_all_iff)
  moreover have "bd_name ` set (names_of s) = NextName ` set ks" using ks(1) by (metis set_map)
  ultimately show "NextName k \<notin> bd_name ` set (names_of s)" by auto
qed

lemma mirrors_take:
  assumes "mirrors stack s" "ss_authority s' = None" "ss_connection s' = Some c" "stack c = Some (take k (saved stack s))"
    "names_of s' = take k (names_of s)" "bs_issued (ss_bounds s) \<le> bs_issued (ss_bounds s')"
  shows "mirrors stack s'"
proof -
  obtain ks where ks: "map bd_name (names_of s) = map NextName ks" "sorted_wrt (<) ks"
    "list_all (\<lambda>k. k \<le> bs_issued (ss_bounds s)) ks"
    using assms(1) by (auto simp: mirrors_def)
  have "map fst (take k (saved stack s)) = map bd_name (names_of s')"
    using mirrors_parts(2) [OF assms(1)] assms(5) by (metis take_map)
  moreover have "map bd_name (names_of s') = map NextName (take k ks)" using ks(1) assms(5) by (metis take_map)
  moreover have "sorted_wrt (<) (take k ks)" using ks(2) by (metis append_take_drop_id sorted_wrt_append)
  moreover have "list_all (\<lambda>k. k \<le> bs_issued (ss_bounds s')) (take k ks)"
    using ks(3) assms(6) by (fastforce simp: list_all_iff dest: in_set_takeD)
  ultimately show ?thesis using assms(2-4) unfolding mirrors_def by (intro conjI exI [of _ c] exI [of _ "take k ks"]) simp_all
qed

lemma mirrors_push:
  assumes "mirrors stack s" "ss_authority s' = None" "ss_connection s' = Some c"
    "stack c = Some (saved stack s @ [(NextName n, d)])" "names_of s' = names_of s @ [b]" "bd_name b = NextName n"
    "bs_issued (ss_bounds s) < n" "n \<le> bs_issued (ss_bounds s')"
  shows "mirrors stack s'"
proof -
  obtain ks where ks: "map bd_name (names_of s) = map NextName ks" "sorted_wrt (<) ks"
    "list_all (\<lambda>k. k \<le> bs_issued (ss_bounds s)) ks"
    using assms(1) by (auto simp: mirrors_def)
  have "sorted_wrt (<) (ks @ [n])" using ks(2,3) assms(7) by (auto simp: sorted_wrt_append list_all_iff)
  moreover have "list_all (\<lambda>k. k \<le> bs_issued (ss_bounds s')) (ks @ [n])" using ks(3) assms(7,8) by (auto simp: list_all_iff)
  ultimately show ?thesis using assms(2-6) ks(1) mirrors_parts(2) [OF assms(1)] unfolding mirrors_def
    by (intro conjI exI [of _ c] exI [of _ "ks @ [n]"]) simp_all
qed

lemma mirrors_cong:
  assumes "mirrors stack s" "ss_authority s' = None" "ss_connection s' = ss_connection s" "names_of s' = names_of s"
    "bs_issued (ss_bounds s) \<le> bs_issued (ss_bounds s')"
  shows "mirrors stack s'"
proof -
  obtain c ks where c: "ss_connection s = Some c" "map bd_name (names_of s) = map NextName ks" "sorted_wrt (<) ks"
    "list_all (\<lambda>k. k \<le> bs_issued (ss_bounds s)) ks"
    "case stack c of None \<Rightarrow> names_of s = [] | Some ss \<Rightarrow> map fst ss = map bd_name (names_of s)"
    using assms(1) by (auto simp: mirrors_def)
  then have "list_all (\<lambda>k. k \<le> bs_issued (ss_bounds s')) ks" using assms(5) by (fastforce simp: list_all_iff)
  then show ?thesis using c assms(2-4) unfolding mirrors_def
    by (intro conjI exI [of _ c] exI [of _ ks]) (simp_all split: option.splits)
qed

text \<open>The names are numbered upwards, below a bound.\<close>

definition numbered :: "boundary list \<Rightarrow> nat \<Rightarrow> bool" where
  "numbered names n \<longleftrightarrow> (\<exists>ks. map bd_name names = map NextName ks \<and> sorted_wrt (<) ks \<and> list_all (\<lambda>k. k < n) ks)"

lemma mirrors_numbered: "mirrors stack s \<Longrightarrow> bs_issued (ss_bounds s) < n \<Longrightarrow> numbered (names_of s) n"
  by (fastforce simp: mirrors_def numbered_def list_all_iff)

lemma numbered_take: "numbered names n \<Longrightarrow> numbered (take k names) n"
  unfolding numbered_def
proof (elim exE conjE)
  fix ks assume ks: "map bd_name names = map NextName ks" "sorted_wrt (<) ks" "list_all (\<lambda>k. k < n) ks"
  have "sorted_wrt (<) (take k ks)" using ks(2) by (metis append_take_drop_id sorted_wrt_append)
  moreover have "map bd_name (take k names) = map NextName (take k ks)" using ks(1) by (metis take_map)
  moreover have "list_all (\<lambda>k. k < n) (take k ks)" using ks(3) by (auto simp: list_all_iff dest: in_set_takeD)
  ultimately show "\<exists>ks. map bd_name (take k names) = map NextName ks \<and> sorted_wrt (<) ks \<and> list_all (\<lambda>k. k < n) ks" by blast
qed

lemma numbered_snoc: "numbered names n \<Longrightarrow> bd_name b = NextName n \<Longrightarrow> numbered (names @ [b]) (n + 1)"
  unfolding numbered_def
proof (elim exE conjE)
  fix ks assume ks: "map bd_name names = map NextName ks" "sorted_wrt (<) ks" "list_all (\<lambda>k. k < n) ks" "bd_name b = NextName n"
  then show "\<exists>ks. map bd_name (names @ [b]) = map NextName ks \<and> sorted_wrt (<) ks \<and> list_all (\<lambda>k. k < n + 1) ks"
    by (intro exI [of _ "ks @ [n]"]) (auto simp: sorted_wrt_append list_all_iff)
qed

lemma mirrors_renamed:
  assumes "ss_authority s' = None" "ss_connection s' = Some c" "numbered (names_of s') n" "n \<le> bs_issued (ss_bounds s') + 1"
    "stack c = Some ss" "map fst ss = map bd_name (names_of s')"
  shows "mirrors stack s'"
  using assms by (fastforce simp: mirrors_def numbered_def list_all_iff)

lemma saved_nth:
  assumes "mirrors stack s" "0 < d" "d \<le> length (names_of s)"
  shows "saved stack s = take (d - 1) (saved stack s) @ (bd_name (names_of s ! (d - 1)), snd (saved stack s ! (d - 1))) # drop d (saved stack s)"
    and "bd_name (names_of s ! (d - 1)) \<notin> fst ` set (drop d (saved stack s))"
    and "stack (conn s) = Some (saved stack s)"
    and "stack (conn s) = Some (take (d - 1) (saved stack s) @
      (bd_name (names_of s ! (d - 1)), snd (saved stack s ! (d - 1))) # drop d (saved stack s))"
proof -
  note m = mirrors_parts [OF assms(1)]
  have len: "d - 1 < length (saved stack s)" using assms(2,3) m(4) by simp
  have "fst (saved stack s ! (d - 1)) = bd_name (names_of s ! (d - 1))"
    using m(2) len assms(2,3) by (metis One_nat_def Suc_pred less_le_trans lessI nth_map)
  then have e: "(bd_name (names_of s ! (d - 1)), snd (saved stack s ! (d - 1))) = saved stack s ! (d - 1)" by (metis prod.collapse)
  show split: "saved stack s = take (d - 1) (saved stack s) @ (bd_name (names_of s ! (d - 1)), snd (saved stack s ! (d - 1))) # drop d (saved stack s)"
    unfolding e using id_take_nth_drop [OF len] assms(2) by simp
  have "distinct (map fst (saved stack s))" using m(2,3) by simp
  then have "distinct (map fst (take (d - 1) (saved stack s) @ (bd_name (names_of s ! (d - 1)), snd (saved stack s ! (d - 1))) # drop d (saved stack s)))"
    by (subst split [symmetric])
  then show "bd_name (names_of s ! (d - 1)) \<notin> fst ` set (drop d (saved stack s))" by simp
  have "stack (conn s) \<noteq> None" using m(6) assms(2,3) by (cases "stack (conn s)") auto
  then show st: "stack (conn s) = Some (saved stack s)" by (auto simp: saved_def)
  show "stack (conn s) = Some (take (d - 1) (saved stack s) @
      (bd_name (names_of s ! (d - 1)), snd (saved stack s ! (d - 1))) # drop d (saved stack s))"
    unfolding st using split by simp
qed

lemma WithBounds_simps [simp]:
  "ss_connection (WithBounds f s) = ss_connection s" "ss_authority (WithBounds f s) = ss_authority s"
  "ss_bounds (WithBounds f s) = f (ss_bounds s)" "ss_commits (WithBounds f s) = ss_commits s"
  "ss_errors (WithBounds f s) = ss_errors s" "ss_collected (WithBounds f s) = ss_collected s"
  "ss_disableWrite (WithBounds f s) = ss_disableWrite s"
  "conn (WithBounds f s) = conn s" "saved stack (WithBounds f s) = saved stack s"
  by (simp_all add: WithBounds_def conn_def saved_def)

lemma bindS_simps [simp]:
  "m s = (Inr a, s') \<Longrightarrow> bindS m f s = f a s'"
  "m s = (Inl e, s') \<Longrightarrow> bindS m f s = (Inl e, s')"
  by (simp_all add: bindS_def)

lemma RunSql_simps:
  "ss_connection s = Some c \<Longrightarrow> pq_exec pq sql c = (c', None) \<Longrightarrow> RunSql pq sql s = (Inr (), s\<lparr>ss_connection := Some c'\<rparr>)"
  "ss_connection s = Some c \<Longrightarrow> pq_exec pq sql c = (c', Some m) \<Longrightarrow>
    RunSql pq sql s = (Inl (DatabaseFailure (Error (m @ ''statement: '' @ sql) [])), s\<lparr>ss_connection := Some c'\<rparr>)"
  by (simp_all add: RunSql_def Execute_def)

section \<open>What the operations do\<close>

text \<open>The session after an operation: its boundaries, the server's savepoints, the data.\<close>

definition stands :: "('c \<Rightarrow> (string \<times> 'd) list option) \<Rightarrow> ('c \<Rightarrow> bool) \<Rightarrow> ('c \<Rightarrow> 'd) \<Rightarrow>
    'c session \<Rightarrow> boundary list \<Rightarrow> (string \<times> 'd) list \<Rightarrow> bool \<Rightarrow> 'd \<Rightarrow> bool" where
  "stands stack failed contents s names snapshots broken d \<longleftrightarrow> mirrors stack s \<and> names_of s = names \<and>
    stack (conn s) = Some snapshots \<and> failed (conn s) = broken \<and> contents (conn s) = d"

text \<open>Nothing but the boundaries and the connection differs.\<close>

definition rest_same :: "'c session \<Rightarrow> 'c session \<Rightarrow> bool" where
  "rest_same s s' \<longleftrightarrow> ss_authority s' = ss_authority s \<and> ss_commits s' = ss_commits s \<and> ss_errors s' = ss_errors s \<and>
    ss_collected s' = ss_collected s \<and> ss_disableWrite s' = ss_disableWrite s"

section \<open>What code between the boundaries can do\<close>

text \<open>
  The effects on the session of AL code that runs inside a scope: statements that set no savepoints, changes of
  the session that leave the boundaries alone, writes, commits where they are allowed, scopes opened and
  then kept or rolled back, and one after another.
\<close>

inductive runs :: "'c pq \<Rightarrow> ('c \<Rightarrow> (string \<times> 'd) list option) \<Rightarrow> bool \<Rightarrow> 'c session \<Rightarrow> 'c session \<Rightarrow> bool"
  for pq stack commits where
  statement: "ss_connection s = Some c \<Longrightarrow> pq_exec pq sql c = (c', m) \<Longrightarrow> stack c' = stack c \<Longrightarrow>
    runs pq stack commits s (s\<lparr>ss_connection := Some c'\<rparr>)"
| aside: "names_of s' = names_of s \<Longrightarrow> bs_issued (ss_bounds s') = bs_issued (ss_bounds s) \<Longrightarrow>
    bs_isolationFloor (ss_bounds s') = bs_isolationFloor (ss_bounds s) \<Longrightarrow> ss_connection s' = ss_connection s \<Longrightarrow>
    ss_authority s' = ss_authority s \<Longrightarrow> runs pq stack commits s s'"
| writes: "runs pq stack commits s (snd (Write pq s))"
| commit: "commits \<Longrightarrow> runs pq stack commits s (snd (CommitBoundaries pq s))"
| refused: "OpenBoundary pq s = (Inl e, s') \<Longrightarrow> runs pq stack commits s s'"
| kept: "OpenBoundary pq s = (Inr d, s1) \<Longrightarrow> runs pq stack commits s1 s2 \<Longrightarrow> runs pq stack commits s (snd (Release pq d s2))"
| undone: "OpenBoundary pq s = (Inr d, s1) \<Longrightarrow> runs pq stack commits s1 s2 \<Longrightarrow> runs pq stack commits s (snd (Rollback pq d s2))"
| together: "runs pq stack commits s s1 \<Longrightarrow> runs pq stack commits s1 s2 \<Longrightarrow> runs pq stack commits s s2"

text \<open>The boundaries and the savepoints up to some depth are what they were.\<close>

definition kept_upto :: "('c \<Rightarrow> (string \<times> 'd) list option) \<Rightarrow> nat \<Rightarrow> 'c session \<Rightarrow> 'c session \<Rightarrow> bool" where
  "kept_upto stack n s s' \<longleftrightarrow> mirrors stack s' \<and> length (names_of s') = length (names_of s) \<and>
    bs_isolationFloor (ss_bounds s') = bs_isolationFloor (ss_bounds s) \<and> take n (names_of s') = take n (names_of s) \<and>
    take n (saved stack s') = take n (saved stack s)"

context postgres
begin

abbreviation "after \<equiv> stands stack failed contents"

lemma InTransaction_is: "ss_connection s = Some c \<Longrightarrow> InTransaction pq s = (Inr (stack c \<noteq> None), s)"
  by (simp add: InTransaction_def status)

lemma InFailed_is: "ss_connection s = Some c \<Longrightarrow> InFailedTransaction pq s = (Inr (stack c \<noteq> None \<and> failed c), s)"
  by (simp add: InFailedTransaction_def status)

lemma Rollback_stands:
  assumes "mirrors stack s" "0 < d" "d \<le> length (names_of s)"
  shows "\<exists>s'. Rollback pq d s = (Inr (), s') \<and>
    after s' (take (d - 1) (names_of s)) (take (d - 1) (saved stack s)) False (snd (saved stack s ! (d - 1))) \<and>
    ss_bounds s' = (ss_bounds s)\<lparr>bs_writing := bd_writingBefore (names_of s ! (d - 1)),
      bs_names := take (d - 1) (names_of s), bs_inconsistent := bd_inconsistentBefore (names_of s ! (d - 1)),
      bs_cursorEpoch := bs_cursorEpoch (ss_bounds s) + 1\<rparr> \<and>
    rest_same s s'"
proof -
  let ?n = "bd_name (names_of s ! (d - 1))"
  note m = mirrors_parts [OF assms(1)]
  note at = saved_nth [OF assms]
  obtain c1 where c1: "pq_exec pq (''ROLLBACK TO SAVEPOINT '' @ ?n) (conn s) = (c1, None)"
    "stack c1 = Some (take (d - 1) (saved stack s) @ [(?n, snd (saved stack s ! (d - 1)))])" "\<not> failed c1"
    "contents c1 = snd (saved stack s ! (d - 1))"
    using rollback_to [OF at(4,2)] by blast
  obtain c2 where c2: "pq_exec pq (''RELEASE SAVEPOINT '' @ ?n) c1 = (c2, None)"
    "stack c2 = Some (take (d - 1) (saved stack s))" "\<not> failed c2" "contents c2 = contents c1"
    using release [of c1 "take (d - 1) (saved stack s)" ?n _ "[]"] c1(2,3) by auto
  let ?s' = "WithBounds (\<lambda>bs. bs\<lparr>bs_writing := bd_writingBefore (names_of s ! (d - 1)), bs_names := take (d - 1) (bs_names bs),
    bs_inconsistent := bd_inconsistentBefore (names_of s ! (d - 1)), bs_cursorEpoch := bs_cursorEpoch bs + 1\<rparr>)
    (s\<lparr>ss_connection := Some c2\<rparr>)"
  have "Rollback pq d s = (Inr (), ?s')"
    using assms(2,3) RunSql_simps(1) [OF m(1) c1(1)] RunSql_simps(1) [OF _ c2(1), of "s\<lparr>ss_connection := Some c1\<rparr>"]
    by (simp add: Rollback_def Let_def)
  moreover have "mirrors stack ?s'" by (rule mirrors_take [OF assms(1), where k = "d - 1" and c = c2]) (simp_all add: m(5) c2(2))
  ultimately show ?thesis using c1(4) c2(2-4)
    by (intro exI [of _ ?s']) (simp add: stands_def conn_def WithBounds_def rest_same_def)
qed

lemma mirrors_same:
  "mirrors stack s \<Longrightarrow> ss_authority s' = None \<Longrightarrow> ss_connection s' = Some c \<Longrightarrow> stack c = Some (saved stack s) \<Longrightarrow>
    names_of s' = names_of s \<Longrightarrow> bs_issued (ss_bounds s) \<le> bs_issued (ss_bounds s') \<Longrightarrow> mirrors stack s'"
  by (rule mirrors_take [where k = "length (names_of s)" and c = c]) (simp_all add: mirrors_parts(4))

lemma Ensure_stands:
  assumes "mirrors stack s"
  shows "\<exists>c. EnsureTransaction pq s = (Inr (), s\<lparr>ss_connection := Some c\<rparr>) \<and> stack c = Some (saved stack s) \<and>
    contents c = contents (conn s) \<and> (failed c \<longleftrightarrow> stack (conn s) \<noteq> None \<and> failed (conn s))"
proof (cases "stack (conn s)")
  case None
  then obtain c where c: "pq_exec pq ''BEGIN'' (conn s) = (c, None)" "stack c = Some []" "\<not> failed c" "contents c = contents (conn s)"
    using begins by blast
  note m = mirrors_parts [OF assms]
  have "EnsureTransaction pq s = (Inr (), s\<lparr>ss_connection := Some c\<rparr>)"
    using InTransaction_is [OF m(1)] None RunSql_simps(1) [OF m(1) c(1)] by (simp add: EnsureTransaction_def bindS_def)
  then show ?thesis using c None by (intro exI [of _ c]) (simp add: saved_def)
next
  case (Some ss)
  note m = mirrors_parts [OF assms]
  have "EnsureTransaction pq s = (Inr (), s)"
    using InTransaction_is [OF m(1)] Some by (simp add: EnsureTransaction_def bindS_def)
  moreover have "s = s\<lparr>ss_connection := Some (conn s)\<rparr>" using m(1) by simp
  ultimately show ?thesis using Some by (intro exI [of _ "conn s"]) (simp add: saved_def)
qed

lemma Open_stands:
  assumes "mirrors stack s" "bs_isolationFloor (ss_bounds s) \<le> length (names_of s)" "stack (conn s) = None \<or> \<not> failed (conn s)"
  shows "\<exists>s' b. OpenBoundary pq s = (Inr (length (names_of s) + 1), s') \<and>
    after s' (names_of s @ [b]) (saved stack s @ [(bd_name b, contents (conn s))]) False (contents (conn s)) \<and>
    bd_inconsistentBefore b = bs_inconsistent (ss_bounds s) \<and> bd_writingBefore b = bs_writing (ss_bounds s) \<and>
    ss_bounds s' = (ss_bounds s)\<lparr>bs_names := names_of s @ [b], bs_issued := bs_issued (ss_bounds s) + 1\<rparr> \<and>
    rest_same s s'"
proof -
  let ?i = "bs_issued (ss_bounds s) + 1"
  let ?b = "\<lparr>bd_name = NextName ?i, bd_inconsistentBefore = bs_inconsistent (ss_bounds s),
    bd_writingBefore = bs_writing (ss_bounds s)\<rparr>"
  let ?s = "WithBounds (\<lambda>bs. bs\<lparr>bs_issued := ?i\<rparr>) s"
  note m = mirrors_parts [OF assms(1)]
  have ms: "mirrors stack ?s"
  proof (cases "stack (conn s)")
    case None
    then show ?thesis using assms(1) by (fastforce simp: mirrors_def list_all_iff conn_def)
  next
    case (Some ss)
    then show ?thesis using mirrors_same [OF assms(1), of ?s "conn s"] m by (simp add: saved_def)
  qed
  obtain c where c: "EnsureTransaction pq ?s = (Inr (), ?s\<lparr>ss_connection := Some c\<rparr>)" "stack c = Some (saved stack s)"
    "contents c = contents (conn s)" "\<not> failed c"
    using Ensure_stands [OF ms] assms(3) by auto
  obtain c' where c': "pq_exec pq (''SAVEPOINT '' @ NextName ?i) c = (c', None)"
    "stack c' = Some (saved stack s @ [(NextName ?i, contents c)])" "\<not> failed c'" "contents c' = contents c"
    using savepoint [OF c(2,4)] by blast
  let ?s' = "PushName ?b (?s\<lparr>ss_connection := Some c'\<rparr>)"
  have "OpenBoundary pq s = (Inr (length (names_of s) + 1), ?s')"
    using assms(2) c(1) RunSql_simps(1) [OF _ c'(1), of "?s\<lparr>ss_connection := Some c\<rparr>"] by (simp add: OpenBoundary_def Let_def)
  moreover have "mirrors stack ?s'"
    by (rule mirrors_push [OF assms(1), where n = ?i and b = ?b and c = c']) (use c'(2) m(5) in \<open>simp_all add: PushName_def\<close>)
  ultimately show ?thesis using c'(2-4) c(3)
    by (intro exI [of _ ?s'] exI [of _ ?b]) (simp add: stands_def conn_def WithBounds_def PushName_def rest_same_def)
qed

lemma Open_refused:
  assumes "mirrors stack s" "\<not> (bs_isolationFloor (ss_bounds s) \<le> length (names_of s) \<and> (stack (conn s) = None \<or> \<not> failed (conn s)))"
  shows "\<exists>e s'. OpenBoundary pq s = (Inl e, s') \<and> mirrors stack s' \<and> names_of s' = names_of s \<and> saved stack s' = saved stack s \<and>
    contents (conn s') = contents (conn s) \<and> stack (conn s') = stack (conn s) \<and> failed (conn s') = failed (conn s) \<and>
    bs_isolationFloor (ss_bounds s') = bs_isolationFloor (ss_bounds s) \<and>
    bs_inconsistent (ss_bounds s') = bs_inconsistent (ss_bounds s) \<and> bs_writing (ss_bounds s') = bs_writing (ss_bounds s) \<and>
    rest_same s s'"
proof (cases "bs_isolationFloor (ss_bounds s) \<le> length (names_of s)")
  case False
  then have "OpenBoundary pq s = (Inl (AlFailure (Error kLostIsolation [])), s)" by (simp add: OpenBoundary_def)
  then show ?thesis using assms(1) by (intro exI [of _ "AlFailure (Error kLostIsolation [])"] exI [of _ s]) (simp add: rest_same_def)
next
  case True
  let ?i = "bs_issued (ss_bounds s) + 1"
  let ?s = "WithBounds (\<lambda>bs. bs\<lparr>bs_issued := ?i\<rparr>) s"
  note m = mirrors_parts [OF assms(1)]
  obtain ss where ss: "stack (conn s) = Some ss" "failed (conn s)" using assms(2) True by auto
  obtain c' msg where c': "pq_exec pq (''SAVEPOINT '' @ NextName ?i) (conn s) = (c', Some msg)" "stack c' = Some ss" "failed c'"
    "contents c' = contents (conn s)" using refuses [OF ss] by blast
  have ens: "EnsureTransaction pq ?s = (Inr (), ?s)"
    using InTransaction_is [of ?s "conn s"] m(1) ss by (simp add: EnsureTransaction_def bindS_def)
  let ?s' = "?s\<lparr>ss_connection := Some c'\<rparr>"
  let ?e = "DatabaseFailure (Error (msg @ ''statement: '' @ ''SAVEPOINT '' @ NextName ?i) [])"
  have r: "RunSql pq (''SAVEPOINT '' @ NextName ?i) ?s = (Inl ?e, ?s')"
    using RunSql_simps(2) [OF _ c'(1), of ?s] m(1) by simp
  have "OpenBoundary pq s = (Inl ?e, ?s')"
    using True ens r by (simp add: OpenBoundary_def Let_def)
  moreover have "mirrors stack ?s'"
    by (rule mirrors_same [OF assms(1), where c = c']) (use c'(2) ss(1) m(5) in \<open>simp_all add: saved_def\<close>)
  ultimately show ?thesis using c' ss
    by (intro exI [of _ ?e] exI [of _ ?s']) (simp add: conn_def saved_def WithBounds_def rest_same_def)
qed

lemma Release_stands:
  assumes "mirrors stack s" "0 < d" "d \<le> length (names_of s)" "\<not> failed (conn s)"
  shows "\<exists>s'. Release pq d s = (Inr (), s') \<and>
    after s' (take (d - 1) (names_of s)) (take (d - 1) (saved stack s)) False (contents (conn s)) \<and>
    ss_bounds s' = (ss_bounds s)\<lparr>bs_names := take (d - 1) (names_of s)\<rparr> \<and>
    rest_same s s'"
proof -
  let ?n = "bd_name (names_of s ! (d - 1))"
  note m = mirrors_parts [OF assms(1)]
  note at = saved_nth [OF assms(1-3)]
  obtain c where c: "pq_exec pq (''RELEASE SAVEPOINT '' @ ?n) (conn s) = (c, None)"
    "stack c = Some (take (d - 1) (saved stack s))" "\<not> failed c" "contents c = contents (conn s)"
    using release [OF at(4) assms(4) at(2)] by blast
  let ?s' = "WithBounds (\<lambda>bs. bs\<lparr>bs_names := take (d - 1) (bs_names bs)\<rparr>) (s\<lparr>ss_connection := Some c\<rparr>)"
  have "Release pq d s = (Inr (), ?s')" using assms(2,3) RunSql_simps(1) [OF m(1) c(1)] by (simp add: Release_def)
  moreover have "mirrors stack ?s'" by (rule mirrors_take [OF assms(1), where k = "d - 1" and c = c]) (simp_all add: m(5) c(2))
  ultimately show ?thesis using c(2-4)
    by (intro exI [of _ ?s']) (simp add: stands_def conn_def WithBounds_def rest_same_def)
qed

lemma Release_refused:
  assumes "mirrors stack s" "0 < d" "d \<le> length (names_of s)" "failed (conn s)"
  shows "\<exists>e s'. Release pq d s = (Inl (AlFailure e), s') \<and>
    after s' (take (d - 1) (names_of s)) (take (d - 1) (saved stack s)) False (snd (saved stack s ! (d - 1))) \<and>
    bs_isolationFloor (ss_bounds s') = bs_isolationFloor (ss_bounds s) \<and> bs_issued (ss_bounds s') = bs_issued (ss_bounds s)"
proof -
  let ?n = "bd_name (names_of s ! (d - 1))"
  note m = mirrors_parts [OF assms(1)]
  note at = saved_nth [OF assms(1-3)]
  obtain c msg where c: "pq_exec pq (''RELEASE SAVEPOINT '' @ ?n) (conn s) = (c, Some msg)" "stack c = Some (saved stack s)"
    "failed c" using refuses [OF at(3) assms(4)] by blast
  let ?s = "s\<lparr>ss_connection := Some c\<rparr>"
  have ms: "mirrors stack ?s" by (rule mirrors_same [OF assms(1), where c = c]) (simp_all add: m(5) c(2))
  have sv: "saved stack ?s = saved stack s" using c(2) by (simp add: saved_def conn_def)
  obtain s' where s': "Rollback pq d ?s = (Inr (), s')"
    "after s' (take (d - 1) (names_of s)) (take (d - 1) (saved stack s)) False (snd (saved stack s ! (d - 1)))"
    "bs_isolationFloor (ss_bounds s') = bs_isolationFloor (ss_bounds s)" "bs_issued (ss_bounds s') = bs_issued (ss_bounds s)"
    using Rollback_stands [OF ms assms(2)] assms(3) sv by auto
  have "\<exists>e. Release pq d s = (Inl (AlFailure e), s')"
    using assms(2,3) RunSql_simps(2) [OF m(1) c(1)] s'(1) by (simp add: Release_def)
  then show ?thesis using s'(2-4) by blast
qed

lemma Renew_stands:
  assumes "mirrors stack s" "stack (conn s) \<noteq> None" "\<not> failed (conn s)" "numbered (names_of s) m"
    "map bd_name bs = map NextName [m..<m + length bs]" "m + length bs \<le> bs_issued (ss_bounds s) + 1"
  shows "\<exists>s'. RenewLoop pq bs s = (Inr (), s') \<and>
    after s' (names_of s @ bs) (saved stack s @ map (\<lambda>b. (bd_name b, contents (conn s))) bs) False (contents (conn s)) \<and>
    ss_bounds s' = (ss_bounds s)\<lparr>bs_names := names_of s @ bs\<rparr> \<and>
    rest_same s s'"
  using assms
proof (induction bs arbitrary: s m)
  case Nil
  then show ?case by (intro exI [of _ s]) (auto simp: stands_def saved_def rest_same_def)
next
  case (Cons b bs)
  note m = mirrors_parts [OF Cons.prems(1)]
  have st: "stack (conn s) = Some (saved stack s)" using Cons.prems(2) by (auto simp: saved_def)
  have b: "bd_name b = NextName m" and bs: "map bd_name bs = map NextName [m + 1..<m + 1 + length bs]"
    using Cons.prems(5) upt_conv_Cons [of m "m + length (b # bs)"] by (simp_all del: upt_Suc)
  obtain c where c: "pq_exec pq (''SAVEPOINT '' @ bd_name b) (conn s) = (c, None)"
    "stack c = Some (saved stack s @ [(bd_name b, contents (conn s))])" "\<not> failed c" "contents c = contents (conn s)"
    using savepoint [OF st Cons.prems(3)] by blast
  let ?s = "PushName b (s\<lparr>ss_connection := Some c\<rparr>)"
  have cn: "conn ?s = c" "names_of ?s = names_of s @ [b]" "ss_connection ?s = Some c"
    "bs_issued (ss_bounds ?s) = bs_issued (ss_bounds s)" by (simp_all add: PushName_def conn_def)
  have num: "numbered (names_of ?s) (m + 1)" unfolding cn(2) by (rule numbered_snoc [OF Cons.prems(4) b])
  have "mirrors stack ?s"
    by (rule mirrors_renamed [where stack = stack and c = c and n = "m + 1" and
        ss = "saved stack s @ [(bd_name b, contents (conn s))]"])
      (use num Cons.prems(6) cn m(2,5) c(2) in \<open>simp_all add: PushName_def\<close>)
  moreover have "saved stack ?s = saved stack s @ [(bd_name b, contents (conn s))]" using c(2) cn by (simp add: saved_def)
  moreover have "stack (conn ?s) \<noteq> None" "\<not> failed (conn ?s)" "m + 1 + length bs \<le> bs_issued (ss_bounds ?s) + 1"
    using c(2,3) cn Cons.prems(6) by simp_all
  ultimately obtain s' where s': "RenewLoop pq bs ?s = (Inr (), s')"
    "after s' (names_of s @ b # bs) (saved stack s @ (bd_name b, contents (conn s)) # map (\<lambda>b. (bd_name b, contents (conn s))) bs)
      False (contents (conn s))"
    "ss_bounds s' = (ss_bounds ?s)\<lparr>bs_names := names_of s @ b # bs\<rparr>"
    "rest_same ?s s'"
    using Cons.IH [of ?s "m + 1"] num bs cn(1,2) c(4) by auto
  have "RenewLoop pq (b # bs) s = (Inr (), s')" using s'(1) RunSql_simps(1) [OF m(1) c(1)] by simp
  moreover have "ss_bounds ?s = (ss_bounds s)\<lparr>bs_names := names_of s @ [b]\<rparr>" by (simp add: PushName_def)
  ultimately show ?case using s'(2-4)
    by (intro exI [of _ s']) (simp add: PushName_def rest_same_def)
qed

text \<open>A commit above the isolation floor.\<close>

lemma CommitTried_above:
  assumes "0 < bs_isolationFloor (ss_bounds s)"
  shows "CommitTried pq renewed s =
    bindS (if renewed \<noteq> [] then
        bindS (RunSql pq (''RELEASE SAVEPOINT '' @ bd_name (names_of s ! bs_isolationFloor (ss_bounds s)))) (\<lambda>_ s'.
          (Inr (), WithBounds (\<lambda>bs. bs\<lparr>bs_names := take (bs_isolationFloor (ss_bounds s)) (bs_names bs)\<rparr>) s'))
      else (\<lambda>s. (Inr (), s)))
    (\<lambda>_. bindS (RenewLoop pq renewed) (\<lambda>_ s. (Inr (), WithBounds (\<lambda>bs. bs\<lparr>bs_writing := False\<rparr>) s))) s"
  using assms by (simp add: CommitTried_def Let_def)

lemma CommitTried_floor:
  assumes "mirrors stack s" "0 < bs_isolationFloor (ss_bounds s)" "bs_isolationFloor (ss_bounds s) \<le> length (names_of s)"
    "\<not> failed (conn s)" "numbered (take (bs_isolationFloor (ss_bounds s)) (names_of s)) m"
    "length renewed = length (names_of s) - bs_isolationFloor (ss_bounds s)"
    "map bd_name renewed = map NextName [m..<m + length renewed]" "m + length renewed \<le> bs_issued (ss_bounds s) + 1"
  shows "\<exists>s'. CommitTried pq renewed s = (Inr (), s') \<and>
    after s' (take (bs_isolationFloor (ss_bounds s)) (names_of s) @ renewed)
      (take (bs_isolationFloor (ss_bounds s)) (saved stack s) @ map (\<lambda>b. (bd_name b, contents (conn s))) renewed)
      False (contents (conn s)) \<and>
    ss_bounds s' = (ss_bounds s)\<lparr>bs_names := take (bs_isolationFloor (ss_bounds s)) (names_of s) @ renewed, bs_writing := False\<rparr> \<and>
    rest_same s s'"
proof -
  let ?f = "bs_isolationFloor (ss_bounds s)"
  note m = mirrors_parts [OF assms(1)]
  have st: "stack (conn s) = Some (saved stack s)" using m(6) assms(2,3) by (cases "stack (conn s)") (auto simp: saved_def)
  let ?first = "if renewed \<noteq> [] then
           bindS (RunSql pq (''RELEASE SAVEPOINT '' @ bd_name (names_of s ! ?f))) (\<lambda>_ s.
             (Inr (), WithBounds (\<lambda>bs. bs\<lparr>bs_names := take ?f (bs_names bs)\<rparr>) s))
         else (\<lambda>s. (Inr (), s))"
  obtain s1 where s1: "?first s = (Inr (), s1)" and a1: "after s1 (take ?f (names_of s)) (take ?f (saved stack s)) False (contents (conn s))"
    and b1: "ss_bounds s1 = (ss_bounds s)\<lparr>bs_names := take ?f (names_of s)\<rparr>" "rest_same s s1"
  proof (cases "renewed = []")
    case True
    then have l: "take ?f (names_of s) = names_of s" "take ?f (saved stack s) = saved stack s" using assms(3,6) m(4) by simp_all
    show thesis
      by (rule that [of s]) (use True assms(1,2,4) st l in \<open>simp_all add: stands_def rest_same_def\<close>)
  next
    case False
    then have d: "0 < ?f + 1" "?f + 1 \<le> length (names_of s)" using False assms(6) by (cases renewed; simp)+
    obtain s1 where "Release pq (?f + 1) s = (Inr (), s1)"
      "after s1 (take ?f (names_of s)) (take ?f (saved stack s)) False (contents (conn s))"
      "ss_bounds s1 = (ss_bounds s)\<lparr>bs_names := take ?f (names_of s)\<rparr>" "rest_same s s1"
      using Release_stands [OF assms(1) d assms(4)] by auto
    moreover have "bindS (RunSql pq (''RELEASE SAVEPOINT '' @ bd_name (names_of s ! ?f))) (\<lambda>_ s.
        (Inr (), WithBounds (\<lambda>bs. bs\<lparr>bs_names := take ?f (bs_names bs)\<rparr>) s)) s = (Inr (), s1)"
      using \<open>Release pq (?f + 1) s = (Inr (), s1)\<close> d
      by (auto simp: Release_def bindS_def split: sum.splits failure.splits prod.splits)
    ultimately show thesis using that [of s1] False assms(2) by simp
  qed
  have n1: "names_of s1 = take ?f (names_of s)" "conn s1 = conn s1" "saved stack s1 = take ?f (saved stack s)"
    "mirrors stack s1" "stack (conn s1) \<noteq> None" "\<not> failed (conn s1)" "contents (conn s1) = contents (conn s)"
    using a1 by (auto simp: stands_def saved_def)
  have num: "numbered (names_of s1) m" using assms(5) n1(1) by simp
  have lim: "m + length renewed \<le> bs_issued (ss_bounds s1) + 1" using assms(8) b1(1) by simp
  obtain s2 where s2: "RenewLoop pq renewed s1 = (Inr (), s2)"
    "after s2 (take ?f (names_of s) @ renewed) (take ?f (saved stack s) @ map (\<lambda>b. (bd_name b, contents (conn s))) renewed)
      False (contents (conn s))"
    "ss_bounds s2 = (ss_bounds s1)\<lparr>bs_names := take ?f (names_of s) @ renewed\<rparr>" "rest_same s1 s2"
    using Renew_stands [OF n1(4-6) num assms(7) lim] unfolding n1(1,3,7) by blast
  let ?s' = "WithBounds (\<lambda>bs. bs\<lparr>bs_writing := False\<rparr>) s2"
  have "CommitTried pq renewed s = (Inr (), ?s')"
    unfolding CommitTried_above [OF assms(2)] bindS_simps(1) [where m = ?first and s = s, OF s1]
    by (rule bindS_simps(1) [where m = "RenewLoop pq renewed" and s = s1, OF s2(1)])
  moreover have "mirrors stack ?s'"
  proof -
    have "mirrors stack s2" using s2(2) by (simp add: stands_def)
    then show ?thesis by (rule mirrors_cong) (use s2(4) b1(2) m(5) in \<open>simp_all add: rest_same_def\<close>)
  qed
  ultimately show ?thesis using s2(2-4) b1
    by (intro exI [of _ ?s']) (simp add: stands_def rest_same_def)
qed

lemma Commit_refused:
  assumes "mirrors stack s"
    "length (names_of s) < bs_isolationFloor (ss_bounds s) \<or> stack (conn s) \<noteq> None \<and> failed (conn s) \<or>
      bs_inconsistent (ss_bounds s) \<noteq> []"
  shows "\<exists>e. CommitBoundaries pq s = (Inl (AlFailure e), s)"
proof -
  note m = mirrors_parts [OF assms(1)]
  have lock: "LockCommandCommit s = (Inr (), s)" using m(5) by (simp add: LockCommandCommit_def)
  show ?thesis using assms(2) InFailed_is [OF m(1)]
    by (auto simp: CommitBoundaries_def Let_def bindS_def lock)
qed

definition renewed_of :: "'x session \<Rightarrow> boundary list" where
  "renewed_of s = map (\<lambda>k. \<lparr>bd_name = NextName (bs_issued (ss_bounds s) + 1 + k), bd_inconsistentBefore = bs_inconsistent (ss_bounds s),
    bd_writingBefore = False\<rparr>) [0..<length (names_of s) - bs_isolationFloor (ss_bounds s)]"

definition issued_more :: "'x session \<Rightarrow> 'x session" where
  "issued_more s = WithBounds (\<lambda>bs. bs\<lparr>bs_issued := bs_issued bs + (length (names_of s) - bs_isolationFloor (ss_bounds s))\<rparr>) s"

lemma renewed_names:
  "map bd_name (renewed_of s) = map NextName [bs_issued (ss_bounds s) + 1..<bs_issued (ss_bounds s) + 1 + length (renewed_of s)]"
  by (rule nth_equalityI) (simp_all add: renewed_of_def del: upt_Suc)

lemma Commit_tries:
  assumes "mirrors stack s" "bs_isolationFloor (ss_bounds s) \<le> length (names_of s)" "stack (conn s) = None \<or> \<not> failed (conn s)"
    "bs_inconsistent (ss_bounds s) = []"
  shows "CommitBoundaries pq s =
    (case CommitTried pq (renewed_of s) (issued_more s) of
       (Inl (DatabaseFailure e), s') \<Rightarrow>
         bindS (InTransaction pq) (\<lambda>inside s.
           (Inl (DatabaseFailure e), if inside then s
              else WithBounds (\<lambda>bs. bs\<lparr>bs_names := [], bs_inconsistent := [], bs_writing := False,
                bs_cursorEpoch := bs_cursorEpoch bs + 1\<rparr>) s)) s'
     | r \<Rightarrow> r)"
proof -
  note m = mirrors_parts [OF assms(1)]
  have lock: "LockCommandCommit s = (Inr (), s)" using m(5) by (simp add: LockCommandCommit_def)
  have f: "InFailedTransaction pq s = (Inr False, s)" using InFailed_is [OF m(1)] assms(3) by auto
  show ?thesis using assms(2,4) unfolding CommitBoundaries_def Let_def
    by (simp add: bindS_simps(1) [where m = LockCommandCommit and s = s, OF lock] bindS_simps(1) [where m = "InFailedTransaction pq" and s = s, OF f] renewed_of_def issued_more_def)
qed

lemma issued_more_mirrors:
  assumes "mirrors stack s"
  shows "mirrors stack (issued_more s)" "conn (issued_more s) = conn s" "names_of (issued_more s) = names_of s"
    "saved stack (issued_more s) = saved stack s"
proof -
  show "mirrors stack (issued_more s)"
    by (rule mirrors_cong [OF assms]) (simp_all add: issued_more_def mirrors_parts(5) [OF assms])
qed (simp_all add: issued_more_def)

lemma Commit_floor:
  assumes "mirrors stack s" "0 < bs_isolationFloor (ss_bounds s)" "bs_isolationFloor (ss_bounds s) \<le> length (names_of s)"
  shows "\<exists>r s'. CommitBoundaries pq s = (r, s') \<and> mirrors stack s' \<and> length (names_of s') = length (names_of s) \<and>
    take (bs_isolationFloor (ss_bounds s)) (names_of s') = take (bs_isolationFloor (ss_bounds s)) (names_of s) \<and>
    take (bs_isolationFloor (ss_bounds s)) (saved stack s') = take (bs_isolationFloor (ss_bounds s)) (saved stack s) \<and>
    bs_isolationFloor (ss_bounds s') = bs_isolationFloor (ss_bounds s)"
proof (cases "stack (conn s) \<noteq> None \<and> failed (conn s) \<or> bs_inconsistent (ss_bounds s) \<noteq> []")
  case True
  then obtain e where "CommitBoundaries pq s = (Inl (AlFailure e), s)" using Commit_refused [OF assms(1)] by blast
  then show ?thesis using assms(1) by simp
next
  case False
  let ?f = "bs_isolationFloor (ss_bounds s)"
  let ?s = "issued_more s"
  note i = issued_more_mirrors [OF assms(1)]
  note m = mirrors_parts [OF assms(1)]
  have "stack (conn s) \<noteq> None" using m(6) assms(2,3) by (cases "stack (conn s)") auto
  then have ok: "\<not> failed (conn ?s)" using False i(2) by simp
  have f: "bs_isolationFloor (ss_bounds ?s) = ?f" "bs_issued (ss_bounds ?s) = bs_issued (ss_bounds s) + length (renewed_of s)"
    by (simp_all add: issued_more_def renewed_of_def)
  have len: "length (renewed_of s) = length (names_of s) - ?f" by (simp add: renewed_of_def)
  have num: "numbered (take (bs_isolationFloor (ss_bounds ?s)) (names_of ?s)) (bs_issued (ss_bounds s) + 1)"
    unfolding i(3) by (rule numbered_take [OF mirrors_numbered [OF assms(1)]]) simp
  obtain s' where s': "CommitTried pq (renewed_of s) ?s = (Inr (), s')"
    "after s' (take ?f (names_of s) @ renewed_of s)
      (take ?f (saved stack s) @ map (\<lambda>b. (bd_name b, contents (conn s))) (renewed_of s)) False (contents (conn s))"
    "ss_bounds s' = (ss_bounds ?s)\<lparr>bs_names := take ?f (names_of s) @ renewed_of s, bs_writing := False\<rparr>"
    using CommitTried_floor [OF i(1) _ _ ok num _ renewed_names] assms(2,3) f i len by auto
  have "CommitBoundaries pq s = (Inr (), s')" using Commit_tries [OF assms(1,3)] False s'(1) by simp
  moreover have "length (take ?f (saved stack s)) = ?f" "length (take ?f (names_of s)) = ?f" using assms(3) m(4) by simp_all
  moreover have "saved stack s' = take ?f (saved stack s) @ map (\<lambda>b. (bd_name b, contents (conn s))) (renewed_of s)"
    using s'(2) by (simp add: stands_def saved_def)
  ultimately show ?thesis using s'(2,3) assms(3) len f(1)
    by (intro exI [of _ "Inr ()"] exI [of _ s']) (simp add: stands_def)
qed

lemma Write_kept:
  assumes "mirrors stack s"
  shows "kept_upto stack n s (snd (Write pq s))"
proof -
  obtain c where c: "EnsureTransaction pq s = (Inr (), s\<lparr>ss_connection := Some c\<rparr>)" "stack c = Some (saved stack s)"
    using Ensure_stands [OF assms] by blast
  let ?s' = "WithBounds (\<lambda>bs. bs\<lparr>bs_writing := True\<rparr>) (s\<lparr>ss_connection := Some c\<rparr>)"
  have "Write pq s = (Inr (), ?s')" using c(1) by (simp add: Write_def bindS_def)
  moreover have "mirrors stack ?s'"
    by (rule mirrors_same [OF assms, where c = c]) (simp_all add: mirrors_parts(5) [OF assms] c(2))
  ultimately show ?thesis using c(2) by (simp add: kept_upto_def saved_def conn_def)
qed

lemma Open_kept:
  assumes "mirrors stack s" "OpenBoundary pq s = (Inr d, s1)"
  shows "d = length (names_of s) + 1" "length (names_of s1) = d" "take (length (names_of s)) (names_of s1) = names_of s"
    "take (length (names_of s)) (saved stack s1) = saved stack s" "mirrors stack s1"
    "bs_isolationFloor (ss_bounds s1) = bs_isolationFloor (ss_bounds s)"
    "bs_isolationFloor (ss_bounds s) \<le> length (names_of s)" "\<not> failed (conn s1)" "contents (conn s1) = contents (conn s)"
    "snd (saved stack s1 ! length (names_of s)) = contents (conn s)"
    "bd_inconsistentBefore (names_of s1 ! length (names_of s)) = bs_inconsistent (ss_bounds s)"
    "bd_writingBefore (names_of s1 ! length (names_of s)) = bs_writing (ss_bounds s)" "rest_same s s1"
proof -
  have ok: "bs_isolationFloor (ss_bounds s) \<le> length (names_of s) \<and> (stack (conn s) = None \<or> \<not> failed (conn s))"
    using Open_refused [OF assms(1)] assms(2) by fastforce
  then obtain s' b where o: "OpenBoundary pq s = (Inr (length (names_of s) + 1), s')"
    "after s' (names_of s @ [b]) (saved stack s @ [(bd_name b, contents (conn s))]) False (contents (conn s))"
    "ss_bounds s' = (ss_bounds s)\<lparr>bs_names := names_of s @ [b], bs_issued := bs_issued (ss_bounds s) + 1\<rparr>"
    "bd_inconsistentBefore b = bs_inconsistent (ss_bounds s)" "bd_writingBefore b = bs_writing (ss_bounds s)" "rest_same s s'"
    using Open_stands [OF assms(1)] by blast
  have e: "s' = s1" "d = length (names_of s) + 1" using o(1) assms(2) by simp_all
  have n: "names_of s1 = names_of s @ [b]" "saved stack s1 = saved stack s @ [(bd_name b, contents (conn s))]"
    using o(2) e by (simp_all add: stands_def saved_def)
  note len = mirrors_parts(4) [OF assms(1)]
  show "d = length (names_of s) + 1" "length (names_of s1) = d" "take (length (names_of s)) (names_of s1) = names_of s"
    "take (length (names_of s)) (saved stack s1) = saved stack s" "mirrors stack s1"
    "bs_isolationFloor (ss_bounds s1) = bs_isolationFloor (ss_bounds s)"
    "bs_isolationFloor (ss_bounds s) \<le> length (names_of s)" "\<not> failed (conn s1)" "contents (conn s1) = contents (conn s)"
    "snd (saved stack s1 ! length (names_of s)) = contents (conn s)"
    "bd_inconsistentBefore (names_of s1 ! length (names_of s)) = bs_inconsistent (ss_bounds s)"
    "bd_writingBefore (names_of s1 ! length (names_of s)) = bs_writing (ss_bounds s)" "rest_same s s1"
    using n len e o ok by (simp_all add: stands_def nth_append)
qed

lemma close_kept:
  assumes opened: "mirrors stack s" "OpenBoundary pq s = (Inr d, s1)" and kept: "kept_upto stack n s1 s2" and "n \<le> length (names_of s)"
    and closed: "mirrors stack s'" "names_of s' = take (d - 1) (names_of s2)" "saved stack s' = take (d - 1) (saved stack s2)"
      "bs_isolationFloor (ss_bounds s') = bs_isolationFloor (ss_bounds s2)"
  shows "kept_upto stack n s s'"
proof -
  note o = Open_kept [OF opened]
  have n: "n \<le> d - 1" using assms(4) o(1) by simp
  have "take n (names_of s2) = take n (names_of s1)" "take n (saved stack s2) = take n (saved stack s1)"
    "length (names_of s2) = d" using kept o(2) by (simp_all add: kept_upto_def)
  moreover have "take n (names_of s1) = take n (names_of s)" using o(3) assms(4) by (metis min.absorb1 take_take)
  moreover have "take n (saved stack s1) = take n (saved stack s)" using o(4) assms(4) by (metis min.absorb1 take_take)
  ultimately show ?thesis using closed kept n assms(4) o(1,6) by (simp add: kept_upto_def min_def)
qed

lemma runs_kept:
  "runs pq stack commits s s' \<Longrightarrow> mirrors stack s \<Longrightarrow> n \<le> length (names_of s) \<Longrightarrow>
    (commits \<Longrightarrow> 0 < bs_isolationFloor (ss_bounds s) \<and> bs_isolationFloor (ss_bounds s) \<le> length (names_of s) \<and>
      n \<le> bs_isolationFloor (ss_bounds s)) \<Longrightarrow> kept_upto stack n s s'"
proof (induction rule: runs.induct)
  case (statement s c sql c' m)
  have "mirrors stack (s\<lparr>ss_connection := Some c'\<rparr>)"
    using statement(1,3,4) by (auto simp: mirrors_def split: option.splits)
  then show ?case using statement(1,3) by (simp add: kept_upto_def saved_def conn_def)
next
  case (aside s' s)
  have "mirrors stack s'" by (rule mirrors_cong [OF aside(6)]) (use aside mirrors_parts(5) [OF aside(6)] in simp_all)
  then show ?case using aside by (simp add: kept_upto_def saved_def conn_def)
next
  case (writes s)
  then show ?case using Write_kept by blast
next
  case (commit s)
  then obtain r s' where c: "CommitBoundaries pq s = (r, s')" "kept_upto stack (bs_isolationFloor (ss_bounds s)) s s'"
    using Commit_floor [of s] unfolding kept_upto_def by blast
  have "n \<le> bs_isolationFloor (ss_bounds s)" using commit by blast
  then have "kept_upto stack n s s'" using c(2) unfolding kept_upto_def by (metis min.absorb1 take_take)
  then show ?case using c(1) by simp
next
  case (refused s e s')
  have "\<not> (bs_isolationFloor (ss_bounds s) \<le> length (names_of s) \<and> (stack (conn s) = None \<or> \<not> failed (conn s)))"
    using Open_stands [OF refused(2)] refused(1) by fastforce
  from Open_refused [OF refused(2) this] refused(1) show ?case by (auto simp: kept_upto_def)
next
  case (kept s d s1 s2)
  note o = Open_kept [OF kept.prems(1) kept.hyps(1)]
  have k: "kept_upto stack n s1 s2" using kept.IH o kept.prems by auto
  then have s2: "mirrors stack s2" "d \<le> length (names_of s2)" "0 < d" using o(1,2) by (simp_all add: kept_upto_def)
  show ?case
  proof (cases "failed (conn s2)")
    case False
    obtain s' where "Release pq d s2 = (Inr (), s')"
      "after s' (take (d - 1) (names_of s2)) (take (d - 1) (saved stack s2)) False (contents (conn s2))"
      "ss_bounds s' = (ss_bounds s2)\<lparr>bs_names := take (d - 1) (names_of s2)\<rparr>"
      using Release_stands [OF s2(1,3,2) False] by blast
    then show ?thesis
      using close_kept [OF kept.prems(1) kept.hyps(1) k kept.prems(2), of s'] by (simp add: stands_def saved_def)
  next
    case True
    obtain e s' where "Release pq d s2 = (Inl (AlFailure e), s')"
      "after s' (take (d - 1) (names_of s2)) (take (d - 1) (saved stack s2)) False (snd (saved stack s2 ! (d - 1)))"
      "bs_isolationFloor (ss_bounds s') = bs_isolationFloor (ss_bounds s2)"
      using Release_refused [OF s2(1,3,2) True] by blast
    then show ?thesis
      using close_kept [OF kept.prems(1) kept.hyps(1) k kept.prems(2), of s'] by (simp add: stands_def saved_def)
  qed
next
  case (undone s d s1 s2)
  note o = Open_kept [OF undone.prems(1) undone.hyps(1)]
  have k: "kept_upto stack n s1 s2" using undone.IH o undone.prems by auto
  then have s2: "mirrors stack s2" "d \<le> length (names_of s2)" "0 < d" using o(1,2) by (simp_all add: kept_upto_def)
  obtain s' where "Rollback pq d s2 = (Inr (), s')"
    "after s' (take (d - 1) (names_of s2)) (take (d - 1) (saved stack s2)) False (snd (saved stack s2 ! (d - 1)))"
    "bs_isolationFloor (ss_bounds s') = bs_isolationFloor (ss_bounds s2)"
    using Rollback_stands [OF s2(1,3,2)] by auto
  then show ?case
    using close_kept [OF undone.prems(1) undone.hyps(1) k undone.prems(2), of s'] by (simp add: stands_def saved_def)
next
  case (together s s1 s2)
  then have "kept_upto stack n s s1" by blast
  moreover from this together have "kept_upto stack n s1 s2" by (simp add: kept_upto_def)
  ultimately show ?case by (simp add: kept_upto_def)
qed

text \<open>A commit of the whole transaction.\<close>

lemma Commit_whole:
  assumes "mirrors stack s" "bs_isolationFloor (ss_bounds s) = 0" "stack (conn s) = None \<or> \<not> failed (conn s)"
    "bs_inconsistent (ss_bounds s) = []"
  shows "\<exists>r s'. CommitBoundaries pq s = (r, s') \<and> mirrors stack s' \<and>
    (case r of
       Inl _ \<Rightarrow> names_of s' = [] \<and> stack (conn s') = None \<and> \<not> bs_writing (ss_bounds s')
     | Inr _ \<Rightarrow> contents (conn s') = contents (conn s) \<and> length (names_of s') = length (names_of s) \<and>
         saved stack s' = map (\<lambda>b. (bd_name b, contents (conn s))) (names_of s') \<and> \<not> bs_writing (ss_bounds s'))"
proof -
  let ?s = "issued_more s"
  let ?new = "renewed_of s"
  note i = issued_more_mirrors [OF assms(1)]
  note m = mirrors_parts [OF assms(1)]
  note mi = mirrors_parts [OF i(1)]
  have floor: "bs_isolationFloor (ss_bounds ?s) = 0" using assms(2) by (simp add: issued_more_def)
  have issued: "bs_issued (ss_bounds ?s) = bs_issued (ss_bounds s) + length ?new"
    by (simp add: issued_more_def renewed_of_def)
  have len: "length ?new = length (names_of s)" using assms(2) by (simp add: renewed_of_def)
  note tries = Commit_tries [OF assms(1) _ assms(3,4)]
  let ?clear = "\<lambda>s. WithBounds (\<lambda>bs. bs\<lparr>bs_names := [], bs_writing := False\<rparr>) s"
  have inside: "InTransaction pq ?s = (Inr (stack (conn s) \<noteq> None), ?s)" using InTransaction_is [OF mi(1)] i(2) by simp
  show ?thesis
  proof (cases "stack (conn s)")
    case None
    then have "names_of s = []" using m(6) by simp
    then have new: "?new = []" using len by simp
    let ?t = "WithBounds (\<lambda>bs. bs\<lparr>bs_writing := False\<rparr>) (?clear ?s)"
    have "CommitTried pq ?new ?s = (Inr (), ?t)"
      using inside None floor new by (simp add: CommitTried_def bindS_def Let_def)
    then have "CommitBoundaries pq s = (Inr (), ?t)" using tries assms(2) by simp
    moreover have "mirrors stack ?t"
      by (rule mirrors_cong [OF i(1)]) (simp_all add: i(3) \<open>names_of s = []\<close> mi(5))
    ultimately show ?thesis using None i \<open>names_of s = []\<close>
      by (intro exI [of _ "Inr ()"] exI [of _ ?t]) (simp add: saved_def)
  next
    case (Some ss)
    obtain c r where c: "pq_exec pq ''COMMIT'' (conn ?s) = (c, r)" "stack c = None" "r = None \<longrightarrow> contents c = contents (conn s)"
      using commits [of "conn s" ss] Some assms(3) i(2) by auto
    let ?c = "?s\<lparr>ss_connection := Some c\<rparr>"
    show ?thesis
    proof (cases r)
      case (Some msg)
      let ?e = "Error (msg @ ''statement: '' @ ''COMMIT'') []"
      have run: "RunSql pq ''COMMIT'' ?s = (Inl (DatabaseFailure ?e), ?c)" using RunSql_simps(2) [OF mi(1)] c(1) Some by simp
      have "CommitTried pq ?new ?s = (Inl (DatabaseFailure ?e), ?c)"
        using inside \<open>stack (conn s) = Some ss\<close> floor run by (simp add: CommitTried_def bindS_def Let_def)
      moreover have "InTransaction pq ?c = (Inr False, ?c)" using InTransaction_is [of ?c c] c(2) by simp
      ultimately have r: "CommitBoundaries pq s = (Inl (DatabaseFailure ?e),
          WithBounds (\<lambda>bs. bs\<lparr>bs_names := [], bs_inconsistent := [], bs_writing := False, bs_cursorEpoch := bs_cursorEpoch bs + 1\<rparr>) ?c)"
        (is "_ = (_, ?t)") using tries assms(2) by (simp add: bindS_def)
      have "mirrors stack ?t" unfolding mirrors_def
        by (intro conjI exI [of _ c] exI [of _ "[]"]) (simp_all add: c(2) mi(5))
      then show ?thesis using r c(2) by (simp add: conn_def)
    next
      case None
      have run: "RunSql pq ''COMMIT'' ?s = (Inr (), ?c)" using RunSql_simps(1) [OF mi(1)] c(1) None by simp
      let ?d = "?clear (WithBounds (\<lambda>bs. bs\<lparr>bs_cursorEpoch := bs_cursorEpoch bs + 1\<rparr>) ?c)"
      have md: "mirrors stack ?d" "conn ?d = c" "ss_connection ?d = Some c" unfolding mirrors_def
        by (intro conjI exI [of _ c] exI [of _ "[]"], simp_all add: c(2) mi(5) conn_def)
      obtain s1 where s1: "(if ?new \<noteq> [] then RunSql pq ''BEGIN'' ?d else (Inr (), ?d)) = (Inr (), s1)"
        and m1: "mirrors stack s1" "names_of s1 = []" "saved stack s1 = []" "contents (conn s1) = contents (conn s)"
          "bs_issued (ss_bounds s1) = bs_issued (ss_bounds ?s)" "?new \<noteq> [] \<longrightarrow> stack (conn s1) \<noteq> None \<and> \<not> failed (conn s1)"
          "\<not> bs_writing (ss_bounds s1)"
      proof (cases "?new = []")
        case True
        show thesis by (rule that [of ?d]) (use True md c(2,3) None in \<open>simp_all add: saved_def\<close>)
      next
        case False
        obtain c' where c': "pq_exec pq ''BEGIN'' c = (c', None)" "stack c' = Some []" "\<not> failed c'" "contents c' = contents c"
          using begins [OF c(2)] by blast
        let ?b = "?d\<lparr>ss_connection := Some c'\<rparr>"
        have "RunSql pq ''BEGIN'' ?d = (Inr (), ?b)" by (rule RunSql_simps(1) [OF md(3) c'(1)])
        moreover have "mirrors stack ?b" unfolding mirrors_def
          by (intro conjI exI [of _ c'] exI [of _ "[]"]) (simp_all add: c'(2) mi(5))
        ultimately show thesis
          by (intro that [of ?b]) (use False c' c(3) None in \<open>simp_all add: saved_def conn_def\<close>)
      qed
      obtain s2 where s2: "RenewLoop pq ?new s1 = (Inr (), s2)" "mirrors stack s2" "names_of s2 = ?new"
        "saved stack s2 = map (\<lambda>b. (bd_name b, contents (conn s))) ?new" "contents (conn s2) = contents (conn s)"
        "bs_issued (ss_bounds s2) = bs_issued (ss_bounds ?s)"
      proof (cases "?new = []")
        case True
        show thesis by (rule that [of s1]) (use True m1 in simp_all)
      next
        case False
        have "numbered (names_of s1) (bs_issued (ss_bounds s) + 1)" by (simp add: m1(2) numbered_def)
        moreover have "bs_issued (ss_bounds s) + 1 + length ?new \<le> bs_issued (ss_bounds s1) + 1" using m1(5) issued by simp
        ultimately obtain s2 where "RenewLoop pq ?new s1 = (Inr (), s2)"
          "after s2 (names_of s1 @ ?new) (saved stack s1 @ map (\<lambda>b. (bd_name b, contents (conn s1))) ?new) False (contents (conn s1))"
          "ss_bounds s2 = (ss_bounds s1)\<lparr>bs_names := names_of s1 @ ?new\<rparr>"
          using Renew_stands [OF m1(1) _ _ _ renewed_names] m1(6) False by blast
        then show thesis by (intro that [of s2]) (use m1 in \<open>simp_all add: stands_def saved_def\<close>)
      qed
      let ?t = "WithBounds (\<lambda>bs. bs\<lparr>bs_writing := False\<rparr>) s2"
      have "CommitTried pq ?new ?s = (Inr (), ?t)"
        using inside Some floor run s1 s2(1) by (cases "?new = []") (simp_all add: CommitTried_def bindS_def Let_def)
      then have "CommitBoundaries pq s = (Inr (), ?t)" using tries assms(2) by simp
      moreover have "mirrors stack ?t" by (rule mirrors_cong [OF s2(2)]) (simp_all add: mirrors_parts(5) [OF s2(2)])
      ultimately show ?thesis using s2 len by (intro exI [of _ "Inr ()"] exI [of _ ?t]) simp
    qed
  qed
qed

text \<open>A scope that is rolled back over what ran inside it.\<close>

lemma scope_undone:
  assumes "mirrors stack s" "OpenBoundary pq s = (Inr d, s1)" "runs pq stack commits s1 s2"
    "commits \<Longrightarrow> bs_isolationFloor (ss_bounds s1) = d" "0 < d"
  shows "kept_upto stack d s1 s2"
  by (rule runs_kept [OF assms(3)]) (use Open_kept [OF assms(1,2)] assms(4,5) in simp_all)

lemma kept_whole:
  assumes "mirrors stack s" "OpenBoundary pq s = (Inr d, s1)" "kept_upto stack d s1 s2"
  shows "mirrors stack s2" "names_of s2 = names_of s1" "saved stack s2 = saved stack s1"
proof -
  note o = Open_kept [OF assms(1,2)]
  show "mirrors stack s2" "names_of s2 = names_of s1" "saved stack s2 = saved stack s1"
    using assms(3) o(2) mirrors_parts(4) [OF o(5)] mirrors_parts(4) [of stack s2] by (auto simp: kept_upto_def)
qed

lemma undone_restores:
  assumes "mirrors stack s" "OpenBoundary pq s = (Inr d, s1)"
    and k: "mirrors stack s2" "names_of s2 = names_of s1" "saved stack s2 = saved stack s1"
  shows "\<exists>s'. Rollback pq d s2 = (Inr (), s') \<and> mirrors stack s' \<and> names_of s' = names_of s \<and> saved stack s' = saved stack s \<and>
    stack (conn s') = Some (saved stack s) \<and> \<not> failed (conn s') \<and> contents (conn s') = contents (conn s) \<and>
    bs_inconsistent (ss_bounds s') = bs_inconsistent (ss_bounds s) \<and> bs_writing (ss_bounds s') = bs_writing (ss_bounds s) \<and>
    bs_isolationFloor (ss_bounds s') = bs_isolationFloor (ss_bounds s2) \<and>
    bs_lastError (ss_bounds s') = bs_lastError (ss_bounds s2) \<and> bs_lastErrorCode (ss_bounds s') = bs_lastErrorCode (ss_bounds s2) \<and>
    rest_same s2 s'"
proof -
  note o = Open_kept [OF assms(1,2)]
  obtain s' where s': "Rollback pq d s2 = (Inr (), s')"
    "after s' (take (d - 1) (names_of s2)) (take (d - 1) (saved stack s2)) False (snd (saved stack s2 ! (d - 1)))"
    "ss_bounds s' = (ss_bounds s2)\<lparr>bs_writing := bd_writingBefore (names_of s2 ! (d - 1)),
      bs_names := take (d - 1) (names_of s2), bs_inconsistent := bd_inconsistentBefore (names_of s2 ! (d - 1)),
      bs_cursorEpoch := bs_cursorEpoch (ss_bounds s2) + 1\<rparr>" "rest_same s2 s'"
    using Rollback_stands [OF k(1), of d] o(1,2) k(2) by auto
  then show ?thesis using o k by (intro exI [of _ s']) (simp add: stands_def saved_def)
qed

end

text \<open>Whatever runs, the boundaries mirror the savepoints.\<close>

context postgres
begin

lemma closed_mirrors:
  assumes "mirrors stack s"
  shows "mirrors stack (snd (Rollback pq d s))" "mirrors stack (snd (Release pq d s))"
proof -
  show "mirrors stack (snd (Rollback pq d s))"
    using Rollback_stands [OF assms, of d] assms
    by (cases "d = 0 \<or> length (names_of s) < d") (auto simp: Rollback_def stands_def)
  show "mirrors stack (snd (Release pq d s))"
  proof (cases "d = 0 \<or> length (names_of s) < d")
    case False
    then show ?thesis
      using Release_stands [OF assms, of d] Release_refused [OF assms, of d]
      by (cases "failed (conn s)") (auto simp: stands_def)
  qed (use assms in \<open>auto simp: Release_def\<close>)
qed

lemma runs_mirrors: "runs pq stack allowed s s' \<Longrightarrow> mirrors stack s \<Longrightarrow> mirrors stack s'"
proof (induction rule: runs.induct)
  case (statement s c sql c' m)
  then show ?case by (auto simp: mirrors_def split: option.splits)
next
  case (aside s' s)
  show ?case by (rule mirrors_cong [OF aside(6)]) (use aside mirrors_parts(5) [OF aside(6)] in simp_all)
next
  case (writes s)
  then show ?case using Write_kept [of s 0] by (simp add: kept_upto_def)
next
  case (commit s)
  note m = commit(2)
  show ?case
  proof (cases "length (names_of s) < bs_isolationFloor (ss_bounds s) \<or> stack (conn s) \<noteq> None \<and> failed (conn s) \<or>
      bs_inconsistent (ss_bounds s) \<noteq> []")
    case True
    then show ?thesis using Commit_refused [OF m] m by auto
  next
    case False
    then show ?thesis
      using Commit_whole [OF m] Commit_floor [OF m] by (cases "bs_isolationFloor (ss_bounds s) = 0") fastforce+
  qed
next
  case (refused s e s')
  have "\<not> (bs_isolationFloor (ss_bounds s) \<le> length (names_of s) \<and> (stack (conn s) = None \<or> \<not> failed (conn s)))"
    using Open_stands [OF refused(2)] refused(1) by fastforce
  from Open_refused [OF refused(2) this] refused(1) show ?case by auto
next
  case (kept s d s1 s2)
  then show ?case using Open_kept(5) closed_mirrors(2) by blast
next
  case (undone s d s1 s2)
  then show ?case using Open_kept(5) closed_mirrors(1) by blast
qed blast

end

section \<open>The constructs stay within what code can do\<close>

lemma runs_aside:
  "runs pq stack commits s s' \<Longrightarrow> names_of t = names_of s' \<Longrightarrow> bs_issued (ss_bounds t) = bs_issued (ss_bounds s') \<Longrightarrow>
    bs_isolationFloor (ss_bounds t) = bs_isolationFloor (ss_bounds s') \<Longrightarrow> ss_connection t = ss_connection s' \<Longrightarrow>
    ss_authority t = ss_authority s' \<Longrightarrow> runs pq stack commits s t"
  by (rule runs.together, assumption, rule runs.aside)

lemma runs_refl: "runs pq stack commits s s"
  by (rule runs.aside) simp_all

lemma aside_simps [simp]:
  "names_of (SetLastError t c s) = names_of s" "bs_issued (ss_bounds (SetLastError t c s)) = bs_issued (ss_bounds s)"
  "bs_isolationFloor (ss_bounds (SetLastError t c s)) = bs_isolationFloor (ss_bounds s)"
  "ss_connection (SetLastError t c s) = ss_connection s" "ss_authority (SetLastError t c s) = ss_authority s"
  "names_of (SetAutoRollbackTest b s) = names_of s" "bs_issued (ss_bounds (SetAutoRollbackTest b s)) = bs_issued (ss_bounds s)"
  "bs_isolationFloor (ss_bounds (SetAutoRollbackTest b s)) = bs_isolationFloor (ss_bounds s)"
  "ss_connection (SetAutoRollbackTest b s) = ss_connection s" "ss_authority (SetAutoRollbackTest b s) = ss_authority s"
  "names_of (ClearLastError s) = names_of s" "bs_issued (ss_bounds (ClearLastError s)) = bs_issued (ss_bounds s)"
  "bs_isolationFloor (ss_bounds (ClearLastError s)) = bs_isolationFloor (ss_bounds s)"
  "ss_connection (ClearLastError s) = ss_connection s" "ss_authority (ClearLastError s) = ss_authority s"
  by (simp_all add: SetLastError_def SetAutoRollbackTest_def ClearLastError_def)

text \<open>How a scope ends: rolled back or kept, around changes of the session.\<close>

definition ends :: "'c pq \<Rightarrow> ('c \<Rightarrow> (string \<times> 'd) list option) \<Rightarrow> bool \<Rightarrow> nat \<Rightarrow> 'c session \<Rightarrow> 'c session \<Rightarrow> bool" where
  "ends pq stack commits d s1 s' \<longleftrightarrow> (\<exists>s2 s3. runs pq stack commits s1 s2 \<and> (s3 = snd (Rollback pq d s2) \<or> s3 = snd (Release pq d s2)) \<and>
    names_of s' = names_of s3 \<and> bs_issued (ss_bounds s') = bs_issued (ss_bounds s3) \<and>
    bs_isolationFloor (ss_bounds s') = bs_isolationFloor (ss_bounds s3) \<and> ss_connection s' = ss_connection s3 \<and>
    ss_authority s' = ss_authority s3)"

lemma ends_runs:
  assumes "OpenBoundary pq s = (Inr d, s1)" "ends pq stack commits d s1 s'"
  shows "runs pq stack commits s s'"
  using assms by (auto simp: ends_def intro: runs_aside [OF runs.kept] runs_aside [OF runs.undone])

lemma ends_discard:
  "runs pq stack commits s1 s2 \<Longrightarrow> ends pq stack commits d s1 (snd (Discarded pq \<lparr>sp_depth = d, sp_open = True\<rparr> t c a s2))"
  unfolding ends_def
  by (rule exI [of _ "SetLastError t c s2"], rule exI [of _ "snd (Rollback pq d (SetLastError t c s2))"])
    (auto simp: Discarded_def DiscardScope_def intro: runs_aside split: sum.splits prod.splits)

lemmas ends_simps = RunOne_def bindS_def Let_def

lemma OpenScope_is:
  "OpenScope pq s = (case OpenBoundary pq s of (Inl e, s') \<Rightarrow> (Inl e, s') | (Inr d, s') \<Rightarrow> (Inr \<lparr>sp_depth = d, sp_open = True\<rparr>, s'))"
  by (simp add: OpenScope_def bindS_def)

lemma ends_unwind:
  "runs pq stack commits s1 s2 \<Longrightarrow> ends pq stack commits d s1 (snd (Unwind pq \<lparr>sp_depth = d, sp_open = True\<rparr> e s2))"
  unfolding ends_def
  by (rule exI [of _ s2], rule exI [of _ "snd (Rollback pq d s2)"]) (auto simp: Unwind_def EndScope_def)

lemma ends_discarded:
  "runs pq stack commits s1 s2 \<Longrightarrow> Discarded pq \<lparr>sp_depth = d, sp_open = True\<rparr> t c a s2 = (r, s3) \<Longrightarrow> ends pq stack commits d s1 s3"
  by (metis ends_discard snd_conv)

lemma ends_unwound:
  "runs pq stack commits s1 s2 \<Longrightarrow> Unwind pq \<lparr>sp_depth = d, sp_open = True\<rparr> e s2 = (r, s3) \<Longrightarrow> ends pq stack commits d s1 s3"
  by (metis ends_unwind snd_conv)

lemma ends_keep:
  "runs pq stack commits s1 s2 \<Longrightarrow> KeepScope pq \<lparr>sp_depth = d, sp_open = True\<rparr> s2 = (r, sc, s3) \<Longrightarrow> ends pq stack commits d s1 s3"
  unfolding ends_def
  by (rule exI [of _ s2], rule exI [of _ "snd (Release pq d s2)"]) (auto simp: KeepScope_def split: prod.splits)

lemma ends_aside:
  "ends pq stack commits d s1 s2 \<Longrightarrow> names_of t = names_of s2 \<Longrightarrow> bs_issued (ss_bounds t) = bs_issued (ss_bounds s2) \<Longrightarrow>
    bs_isolationFloor (ss_bounds t) = bs_isolationFloor (ss_bounds s2) \<Longrightarrow> ss_connection t = ss_connection s2 \<Longrightarrow>
    ss_authority t = ss_authority s2 \<Longrightarrow> ends pq stack commits d s1 t"
  unfolding ends_def by metis

lemma AlCommit_runs: "commits \<Longrightarrow> runs pq stack commits s (snd (AlCommit pq s))"
  by (auto simp: AlCommit_def intro: runs_refl runs.commit split: option.splits commit_behavior.splits)

text \<open>What a test method's case split ends with, then the restored policy.\<close>

lemma RunOne_runs:
  assumes "\<And>s. runs pq stack commits s (snd (invoke s))" "commitOnSuccess \<longrightarrow> commits"
  shows "runs pq stack commits s (snd (RunOne pq codeunit method invoke commitOnSuccess s))"
proof (cases "OpenBoundary pq (ClearLastError s)")
  case (Pair r s1)
  have start: "runs pq stack commits s (ClearLastError s)" by (rule runs.aside) simp_all
  show ?thesis
  proof (cases r)
    case (Inl e)
    then have "RunOne pq codeunit method invoke commitOnSuccess s = (Inl e, s1)"
      using Pair by (simp add: RunOne_def bindS_def OpenScope_is)
    then show ?thesis using Pair Inl by (auto intro: runs.together [OF start runs.refused])
  next
    case (Inr d)
    let ?auto = "tm_model method = Some AutoRollbackModel"
    let ?prev = "bs_autoRollbackTest (ss_bounds s1)"
    obtain q s2 where i: "invoke (SetAutoRollbackTest ?auto s1) = (q, s2)" by (metis surj_pair)
    have r2: "runs pq stack commits s1 s2"
      using assms(1) [of "SetAutoRollbackTest ?auto s1"] i runs.together [OF runs.aside [of "SetAutoRollbackTest ?auto s1" s1]] by simp
    have "\<exists>x. snd (RunOne pq codeunit method invoke commitOnSuccess s) = SetAutoRollbackTest ?prev x \<and> ends pq stack commits d s1 x"
    proof (cases q)
      case (Inl e)
      then show ?thesis using Pair Inr i
        by (cases e) (auto simp: ends_simps OpenScope_is split: prod.splits intro!: exI conjI refl ends_discarded [OF r2])
    next
      case (Inr missed)
      show ?thesis
      proof (cases "missed \<noteq> [] \<or> ?auto")
        case True
        then show ?thesis using Pair \<open>r = Inr d\<close> i Inr
          by (auto simp: ends_simps OpenScope_is split: prod.splits intro!: exI conjI refl ends_discarded [OF r2])
      next
        case False
        obtain q' s3 where c: "(if commitOnSuccess then AlCommit pq s2 else (Inr (), s2)) = (q', s3)" by (metis surj_pair)
        have r3: "runs pq stack commits s1 s3"
          using c assms(2) runs.together [OF r2 AlCommit_runs] r2 by (auto split: if_splits)
        show ?thesis
        proof (cases q')
          case (Inl e)
          then show ?thesis using Pair \<open>r = Inr d\<close> i Inr False c
            by (cases e) (auto simp: ends_simps OpenScope_is split: prod.splits
              intro!: exI conjI refl
              dest: ends_discarded [OF r3] ends_unwound [OF r3])
        next
          case (Inr u)
          obtain k sc s4 where k: "KeepScope pq \<lparr>sp_depth = d, sp_open = True\<rparr> s3 = (k, sc, s4)" by (metis surj_pair)
          have "snd (RunOne pq codeunit method invoke commitOnSuccess s) = SetAutoRollbackTest ?prev s4"
            using Pair \<open>r = Inr d\<close> i \<open>q = Inr missed\<close> False c Inr k
            by (cases k) (auto simp: ends_simps OpenScope_is split: prod.splits)
          then show ?thesis using ends_keep [OF r3 k] by blast
        qed
      qed
    qed
    then obtain x where "snd (RunOne pq codeunit method invoke commitOnSuccess s) = SetAutoRollbackTest ?prev x"
      "ends pq stack commits d s1 x" by blast
    then show ?thesis using runs.together [OF start ends_runs] ends_aside [of pq stack commits d s1 x] Pair Inr by simp
  qed
qed

section \<open>Properties\<close>

text \<open>A rollback of the opened scope, and the isolation floor put back.\<close>

lemma restored:
  assumes pg: "postgres pq stack failed contents" and m: "mirrors stack s" and o: "OpenBoundary pq s = (Inr d, s1)"
    and k: "mirrors stack s2" "names_of s2 = names_of s1" "saved stack s2 = saved stack s1"
  shows "\<exists>s'. Rollback pq d s2 = (Inr (), s') \<and> contents (conn (SetIsolationFloor f s')) = contents (conn s) \<and>
    names_of (SetIsolationFloor f s') = names_of s \<and> saved stack (SetIsolationFloor f s') = saved stack s \<and>
    bs_inconsistent (ss_bounds (SetIsolationFloor f s')) = bs_inconsistent (ss_bounds s) \<and>
    bs_writing (ss_bounds (SetIsolationFloor f s')) = bs_writing (ss_bounds s) \<and> mirrors stack (SetIsolationFloor f s')"
proof -
  obtain s' where s': "Rollback pq d s2 = (Inr (), s')" "mirrors stack s'" "names_of s' = names_of s" "saved stack s' = saved stack s"
    "contents (conn s') = contents (conn s)" "bs_inconsistent (ss_bounds s') = bs_inconsistent (ss_bounds s)"
    "bs_writing (ss_bounds s') = bs_writing (ss_bounds s)"
    using postgres.undone_restores [OF pg m o k] by blast
  have "mirrors stack (SetIsolationFloor f s')"
    by (rule mirrors_cong [OF s'(2)]) (simp_all add: SetIsolationFloor_def mirrors_parts(5) [OF s'(2)])
  then show ?thesis using s' by (intro exI [of _ s']) (simp add: SetIsolationFloor_def)
qed

text \<open>
  C6: A test run under function isolation changes nothing: whatever the method does to the session within what
  code between boundaries can do, its commits, its own scopes, failed statements and errors included, and
  whether it passes, fails or breaks, the data, the boundaries and the savepoints are afterwards what they were.
\<close>

theorem function_isolation:
  assumes "postgres pq stack failed contents" "mirrors stack s"
    and "bs_isolationFloor (ss_bounds s) \<le> length (names_of s)" "stack (conn s) = None \<or> \<not> failed (conn s)"
    and "\<forall>s. runs pq stack True s (snd (invoke s))"
  shows "\<exists>r s'. RunSelectedMethod pq codeunit method invoke FunctionIsolation s = (r, s') \<and>
    contents (conn s') = contents (conn s) \<and> names_of s' = names_of s \<and> saved stack s' = saved stack s \<and>
    bs_inconsistent (ss_bounds s') = bs_inconsistent (ss_bounds s) \<and> bs_writing (ss_bounds s') = bs_writing (ss_bounds s) \<and>
    bs_isolationFloor (ss_bounds s') = bs_isolationFloor (ss_bounds s) \<and> mirrors stack s'"
proof -
  obtain d s1 where o: "OpenBoundary pq s = (Inr d, s1)"
    using postgres.Open_stands [OF assms(1-4)] by blast
  note ok = postgres.Open_kept [OF assms(1,2) o]
  let ?f = "bs_isolationFloor (ss_bounds s)"
  let ?t = "SetIsolationFloor d s1"
  obtain r s2 where run: "RunOne pq codeunit method invoke False ?t = (r, s2)" by (metis surj_pair)
  have t: "mirrors stack ?t" "names_of ?t = names_of s1" "saved stack ?t = saved stack s1" "bs_isolationFloor (ss_bounds ?t) = d"
    using mirrors_cong [OF ok(5), of ?t] mirrors_parts(5) [OF ok(5)] by (simp_all add: SetIsolationFloor_def)
  have "runs pq stack True ?t s2"
    using RunOne_runs [of pq stack True invoke False ?t codeunit "method"] assms(5) run by simp
  then have "kept_upto stack d ?t s2" by (rule postgres.runs_kept [OF assms(1)]) (use t ok(1,2) in simp_all)
  then have s2: "mirrors stack s2" "names_of s2 = names_of s1" "saved stack s2 = saved stack s1"
    using t(2,3) ok(2) mirrors_parts(4) [OF ok(5)] mirrors_parts(4) [of stack s2] by (auto simp: kept_upto_def)
  show ?thesis
  proof (cases r)
    case (Inr result)
    let ?u = "SetLastError [] [] s2"
    have u: "mirrors stack ?u" "names_of ?u = names_of s1" "saved stack ?u = saved stack s1"
      using mirrors_cong [OF s2(1), of ?u] mirrors_parts(5) [OF s2(1)] s2(2,3) by (simp_all add: SetLastError_def)
    obtain s' where s': "Rollback pq d ?u = (Inr (), s')" and p: "contents (conn (SetIsolationFloor ?f s')) = contents (conn s)"
      "names_of (SetIsolationFloor ?f s') = names_of s" "saved stack (SetIsolationFloor ?f s') = saved stack s"
      "bs_inconsistent (ss_bounds (SetIsolationFloor ?f s')) = bs_inconsistent (ss_bounds s)"
      "bs_writing (ss_bounds (SetIsolationFloor ?f s')) = bs_writing (ss_bounds s)" "mirrors stack (SetIsolationFloor ?f s')"
      using restored [OF assms(1,2) o u, of ?f] by blast
    have "RunSelectedMethod pq codeunit method invoke FunctionIsolation s = (Inr result, SetIsolationFloor ?f s')"
      using o run Inr s' ok(6) by (simp add: RunSelectedMethod_def bindS_def OpenScope_is Discarded_def DiscardScope_def Let_def)
    then show ?thesis using p by (intro exI [of _ "Inr result"] exI [of _ "SetIsolationFloor ?f s'"]) (simp add: SetIsolationFloor_def)
  next
    case (Inl e)
    let ?u = "SetIsolationFloor ?f s2"
    have u: "mirrors stack ?u" "names_of ?u = names_of s1" "saved stack ?u = saved stack s1"
      using mirrors_cong [OF s2(1), of ?u] mirrors_parts(5) [OF s2(1)] s2(2,3) by (simp_all add: SetIsolationFloor_def)
    have "\<exists>s'. Rollback pq d ?u = (Inr (), s') \<and> contents (conn s') = contents (conn s) \<and> names_of s' = names_of s \<and>
        saved stack s' = saved stack s \<and> bs_inconsistent (ss_bounds s') = bs_inconsistent (ss_bounds s) \<and>
        bs_writing (ss_bounds s') = bs_writing (ss_bounds s) \<and> bs_isolationFloor (ss_bounds s') = ?f \<and> mirrors stack s'"
      using postgres.undone_restores [OF assms(1,2) o u] by (auto simp: SetIsolationFloor_def)
    then show ?thesis using o run Inl ok(6)
      by (auto simp: RunSelectedMethod_def bindS_def OpenScope_is Unwind_def EndScope_def Let_def)
  qed
qed

section \<open>A server\<close>

text \<open>A server that does what the locale says, over one counter.\<close>

record ref_db =
  rb_stack :: "(string \<times> nat) list option"
  rb_failed :: bool
  rb_data :: nat

definition ref_exec :: "string \<Rightarrow> ref_db \<Rightarrow> ref_db \<times> string option" where
  "ref_exec sql c =
     (case rb_stack c of
        None \<Rightarrow> if sql = ''BEGIN'' then (\<lparr>rb_stack = Some [], rb_failed = False, rb_data = rb_data c\<rparr>, None) else (c, Some ''none'')
      | Some ss \<Rightarrow>
          if starts_with sql ''ROLLBACK TO SAVEPOINT '' then
            (case dropWhile (\<lambda>p. fst p \<noteq> drop 22 sql) (rev ss) of
               [] \<Rightarrow> (c, Some ''no such savepoint'')
             | p # ps \<Rightarrow> (\<lparr>rb_stack = Some (rev ps @ [p]), rb_failed = False, rb_data = snd p\<rparr>, None))
          else if rb_failed c then (c, Some ''current transaction is aborted'')
          else if starts_with sql ''SAVEPOINT '' then (c\<lparr>rb_stack := Some (ss @ [(drop 10 sql, rb_data c)])\<rparr>, None)
          else if starts_with sql ''RELEASE SAVEPOINT '' then
            (case dropWhile (\<lambda>p. fst p \<noteq> drop 18 sql) (rev ss) of
               [] \<Rightarrow> (c, Some ''no such savepoint'')
             | p # ps \<Rightarrow> (c\<lparr>rb_stack := Some (rev ps)\<rparr>, None))
          else if sql = ''COMMIT'' then (c\<lparr>rb_stack := None\<rparr>, None)
          else if sql = ''COUNT'' then (c\<lparr>rb_data := rb_data c + 1\<rparr>, None)
          else (c\<lparr>rb_failed := True\<rparr>, Some ''syntax error''))"

definition ref_pq :: "ref_db pq" where
  "ref_pq = \<lparr>pq_exec = ref_exec, pq_transaction = (\<lambda>c. if rb_stack c = None then PQTRANS_IDLE
     else if rb_failed c then PQTRANS_INERROR else PQTRANS_INTRANS)\<rparr>"

lemma cut_at:
  "n \<notin> fst ` set ts \<Longrightarrow> dropWhile (\<lambda>p. fst p \<noteq> n) (rev ts @ (n, d) # rev ss) = (n, d) # rev ss"
  by (subst dropWhile_append2) force+

interpretation reference: postgres ref_pq rb_stack rb_failed rb_data
proof (unfold_locales, goal_cases)
  case (1 c)
  then show ?case by (simp add: ref_pq_def)
next
  case (2 c)
  then show ?case by (simp add: ref_pq_def ref_exec_def)
next
  case (3 c ss n)
  then show ?case by (simp add: ref_pq_def ref_exec_def)
next
  case (4 c ss n d ts)
  then show ?case by (simp add: ref_pq_def ref_exec_def cut_at)
next
  case (5 c ss n d ts)
  then show ?case by (simp add: ref_pq_def ref_exec_def cut_at)
next
  case (6 c ss)
  then show ?case by (simp add: ref_pq_def ref_exec_def)
next
  case (7 c ss sql n)
  then show ?case by (auto simp: ref_pq_def ref_exec_def)
qed

definition sample_session :: "boundary list \<Rightarrow> ref_db \<Rightarrow> ref_db session" where
  "sample_session names c =
     \<lparr>ss_bounds = \<lparr>bs_names = names, bs_inconsistent = [], bs_lastError = [], bs_cursorEpoch = 0, bs_isolationFloor = 0,
        bs_autoRollbackTest = False, bs_writing = False, bs_tryDepth = 0, bs_lastErrorCode = [], bs_issued = length names,
        bs_type = UpdateNoLocks\<rparr>,
      ss_connection = Some c, ss_authority = None, ss_commits = [], ss_errors = [], ss_collected = [], ss_disableWrite = False\<rparr>"

definition sample_idle :: "ref_db session" where
  "sample_idle = sample_session [] \<lparr>rb_stack = None, rb_failed = False, rb_data = 5\<rparr>"

lemma sample_idle_mirrors: "mirrors rb_stack sample_idle"
  by (simp add: mirrors_def sample_idle_def sample_session_def exI [of _ "[]"])

text \<open>A body that counts and commits, and one that counts and raises an error.\<close>

definition counts :: "(ref_db, unit) action" where
  "counts s = RunSql ref_pq ''COUNT'' s"

lemma counts_runs: "runs ref_pq rb_stack allowed s (snd (counts s))"
proof (cases "ss_connection s")
  case None
  then show ?thesis by (simp add: counts_def RunSql_def Execute_def runs_refl)
next
  case (Some c)
  obtain c' m where c': "pq_exec ref_pq ''COUNT'' c = (c', m)" by (metis surj_pair)
  then have "rb_stack c' = rb_stack c"
    by (auto simp: ref_pq_def ref_exec_def split: option.splits if_splits)
  from runs.statement [OF Some c' this, of allowed] show ?thesis
    using Some c' by (cases m) (simp_all add: counts_def RunSql_def Execute_def)
qed

definition commits_too :: "(ref_db, string list) action" where
  "commits_too s = (let s1 = snd (counts s); s2 = snd (AlCommit ref_pq s1) in (Inr [], snd (counts s2)))"

lemma commits_too_runs: "runs ref_pq rb_stack True s (snd (commits_too s))"
  unfolding commits_too_def Let_def snd_conv
  by (rule runs.together [OF counts_runs runs.together [OF AlCommit_runs counts_runs]]) simp

section \<open>Properties of boundaries\<close>

text \<open>
  C7: Whatever code does between the boundaries, in any order and to any depth, the boundaries a session keeps
  are the savepoints the server has, in the same order and under the same names, none used twice: also when
  statements fail, a commit is refused or the server refuses it.
\<close>

theorem boundaries_mirror:
  assumes "postgres pq stack failed contents" "mirrors stack s" "runs pq stack allowed s s'"
  shows "mirrors stack s' \<and> distinct (map bd_name (names_of s')) \<and>
    (\<forall>ss. stack (conn s') = Some ss \<longrightarrow> map fst ss = map bd_name (names_of s'))"
proof -
  have m: "mirrors stack s'" by (rule postgres.runs_mirrors [OF assms(1,3,2)])
  then show ?thesis using mirrors_parts(2,3) [OF m] by (auto simp: saved_def)
qed

lemma boundaries_mirror_witness:
  "mirrors rb_stack (snd (commits_too sample_idle)) \<and> distinct (map bd_name (names_of (snd (commits_too sample_idle))))"
  using boundaries_mirror [OF reference.postgres_axioms sample_idle_mirrors commits_too_runs] by simp

lemma function_isolation_witness:
  "\<exists>r s'. RunSelectedMethod ref_pq ''C'' \<lparr>tm_name = ''m'', tm_model = None\<rparr> commits_too FunctionIsolation sample_idle = (r, s') \<and>
    rb_data (conn s') = 5"
proof -
  have "bs_isolationFloor (ss_bounds sample_idle) \<le> length (names_of sample_idle)" "rb_stack (conn sample_idle) = None"
    "rb_data (conn sample_idle) = 5"
    by (simp_all add: sample_idle_def sample_session_def conn_def)
  then show ?thesis
    using function_isolation [OF reference.postgres_axioms sample_idle_mirrors, of commits_too "''C''" "\<lparr>tm_name = ''m'', tm_model = None\<rparr>"]
      commits_too_runs by auto
qed


definition sample_deep :: "ref_db session" where
  "sample_deep = sample_session [\<lparr>bd_name = NextName 1, bd_inconsistentBefore = [], bd_writingBefore = False\<rparr>]
     \<lparr>rb_stack = Some [(NextName 1, 5)], rb_failed = False, rb_data = 6\<rparr>"

lemma sample_deep_mirrors: "mirrors rb_stack sample_deep"
  by (simp add: mirrors_def sample_deep_def sample_session_def exI [of _ "[1]"])


text \<open>
  C16: A commit is refused with an error and changes nothing at all in a test method that rolls back, inside a scope
  whose commits are errors, above a lost isolation boundary, after a failed statement and with a table
  marked inconsistent; and once commits are errors, no inner scope allows them again.
\<close>

theorem commit_refused:
  assumes "postgres pq stack failed contents" "mirrors stack s"
    and "bs_autoRollbackTest (ss_bounds s) \<or> StandingCommit s = Some CommitError \<or> StandingCommit s = None \<and>
      (length (names_of s) < bs_isolationFloor (ss_bounds s) \<or> stack (conn s) \<noteq> None \<and> failed (conn s) \<or>
       bs_inconsistent (ss_bounds s) \<noteq> [])"
  shows "(\<exists>e. AlCommit pq s = (Inl (AlFailure e), s)) \<and>
    (StandingCommit s = Some CommitError \<longrightarrow> StandingCommit (OpenCommitScope behaviour s) = Some CommitError)"
proof
  show "\<exists>e. AlCommit pq s = (Inl (AlFailure e), s)"
  proof (cases "bs_autoRollbackTest (ss_bounds s) \<or> StandingCommit s = Some CommitError")
    case True
    then show ?thesis by (auto simp: AlCommit_def)
  next
    case False
    then have none: "StandingCommit s = None" "\<not> bs_autoRollbackTest (ss_bounds s)" using assms(3) by auto
    from False assms(3) obtain e where "CommitBoundaries pq s = (Inl (AlFailure e), s)"
      using postgres.Commit_refused [OF assms(1,2)] by auto
    then show ?thesis using none by (simp add: AlCommit_def)
  qed
  show "StandingCommit s = Some CommitError \<longrightarrow> StandingCommit (OpenCommitScope behaviour s) = Some CommitError"
    by (auto simp: StandingCommit_def OpenCommitScope_def Let_def split: if_splits)
qed

lemma commit_refused_witness:
  "\<exists>e. AlCommit ref_pq (SetAutoRollbackTest True sample_deep) = (Inl (AlFailure e), SetAutoRollbackTest True sample_deep)"
proof -
  have "mirrors rb_stack (SetAutoRollbackTest True sample_deep)"
    by (rule mirrors_cong [OF sample_deep_mirrors]) (simp_all add: sample_deep_def sample_session_def)
  from commit_refused [OF reference.postgres_axioms this] show ?thesis by (simp add: SetAutoRollbackTest_def)
qed

text \<open>
  C17: \<open>asserterror\<close> over a statement that does not commit: an error in it is caught, kept as the last error, and
  everything the statement wrote is undone; another exception goes on with everything undone; and a statement
  without an error keeps what it wrote and is itself an error.
\<close>

theorem assert_error:
  assumes "postgres pq stack failed contents" "mirrors stack s"
    and "bs_isolationFloor (ss_bounds s) \<le> length (names_of s)" "stack (conn s) = None \<or> \<not> failed (conn s)"
    and "\<forall>s. runs pq stack False s (snd (body s))"
  shows "\<exists>d s1 b s2 r s'. OpenBoundary pq s = (Inr d, s1) \<and> body s1 = (b, s2) \<and> AssertError pq body s = (r, s') \<and>
    names_of s' = names_of s \<and> saved stack s' = saved stack s \<and> mirrors stack s' \<and>
    (case b of
       Inl e \<Rightarrow> contents (conn s') = contents (conn s) \<and> bs_writing (ss_bounds s') = bs_writing (ss_bounds s) \<and>
         (case caught e of
            Some error \<Rightarrow> r = Inr () \<and> bs_lastError (ss_bounds s') = ae_text error \<and> bs_lastErrorCode (ss_bounds s') = ae_code error
          | None \<Rightarrow> r = Inl e)
     | Inr _ \<Rightarrow> (\<exists>e. r = Inl (AlFailure e)) \<and> (\<not> failed (conn s2) \<longrightarrow> contents (conn s') = contents (conn s2)))"
proof -
  obtain d s1 where o: "OpenBoundary pq s = (Inr d, s1)" using postgres.Open_stands [OF assms(1-4)] by blast
  obtain b s2 where body: "body s1 = (b, s2)" by (metis surj_pair)
  note ok = postgres.Open_kept [OF assms(1,2) o]
  have "runs pq stack False s1 s2" using assms(5) body by (metis snd_conv)
  then have "kept_upto stack d s1 s2" by (rule postgres.scope_undone [OF assms(1,2) o]) (simp_all add: ok(1))
  note k = postgres.kept_whole [OF assms(1,2) o this]
  have "\<exists>r s'. AssertError pq body s = (r, s') \<and> names_of s' = names_of s \<and> saved stack s' = saved stack s \<and> mirrors stack s' \<and>
    (case b of
       Inl e \<Rightarrow> contents (conn s') = contents (conn s) \<and> bs_writing (ss_bounds s') = bs_writing (ss_bounds s) \<and>
         (case caught e of
            Some error \<Rightarrow> r = Inr () \<and> bs_lastError (ss_bounds s') = ae_text error \<and> bs_lastErrorCode (ss_bounds s') = ae_code error
          | None \<Rightarrow> r = Inl e)
     | Inr _ \<Rightarrow> (\<exists>e. r = Inl (AlFailure e)) \<and> (\<not> failed (conn s2) \<longrightarrow> contents (conn s') = contents (conn s2)))"
  proof (cases b)
    case (Inl e)
    show ?thesis
    proof (cases "caught e")
      case None
      obtain s' where "Rollback pq d s2 = (Inr (), s')" "mirrors stack s'" "names_of s' = names_of s" "saved stack s' = saved stack s"
        "contents (conn s') = contents (conn s)" "bs_writing (ss_bounds s') = bs_writing (ss_bounds s)"
        using postgres.undone_restores [OF assms(1,2) o k] by blast
      then show ?thesis using o body Inl None
        by (simp add: AssertError_def bindS_def OpenScope_is Unwind_def EndScope_def)
    next
      case (Some error)
      let ?u = "SetLastError (ae_text error) (ae_code error) s2"
      have u: "mirrors stack ?u" "names_of ?u = names_of s1" "saved stack ?u = saved stack s1"
        using mirrors_cong [OF k(1), of ?u] mirrors_parts(5) [OF k(1)] k(2,3) by (simp_all add: SetLastError_def)
      obtain s' where "Rollback pq d ?u = (Inr (), s')" "mirrors stack s'" "names_of s' = names_of s" "saved stack s' = saved stack s"
        "contents (conn s') = contents (conn s)" "bs_writing (ss_bounds s') = bs_writing (ss_bounds s)"
        "bs_lastError (ss_bounds s') = bs_lastError (ss_bounds ?u)" "bs_lastErrorCode (ss_bounds s') = bs_lastErrorCode (ss_bounds ?u)"
        using postgres.undone_restores [OF assms(1,2) o u] by blast
      then show ?thesis using o body Inl Some
        by (simp add: AssertError_def bindS_def OpenScope_is DiscardScope_def) (simp add: SetLastError_def)
    qed
  next
    case (Inr x)
    have d: "0 < d" "d \<le> length (names_of s2)" using ok(1,2) k(2) by simp_all
    have names: "take (d - 1) (names_of s2) = names_of s" "take (d - 1) (saved stack s2) = saved stack s" using ok k by simp_all
    show ?thesis
    proof (cases "failed (conn s2)")
      case False
      obtain s' where "Release pq d s2 = (Inr (), s')" "stands stack failed contents s' (names_of s) (saved stack s) False (contents (conn s2))"
        using postgres.Release_stands [OF assms(1) k(1) d False] names by auto
      then show ?thesis using o body Inr
        by (simp add: AssertError_def bindS_def OpenScope_is KeepScope_def stands_def saved_def)
    next
      case True
      obtain e s' where "Release pq d s2 = (Inl (AlFailure e), s')"
        "stands stack failed contents s' (names_of s) (saved stack s) False (snd (saved stack s2 ! (d - 1)))"
        using postgres.Release_refused [OF assms(1) k(1) d True] names by auto
      then show ?thesis using o body Inr True
        by (simp add: AssertError_def bindS_def OpenScope_is KeepScope_def stands_def saved_def)
    qed
  qed
  then show ?thesis using o body by blast
qed

definition raises :: "(ref_db, unit) action" where
  "raises s = (Inl (AlFailure (Error ''no'' ''Code'')), snd (counts s))"

lemma assert_error_witness:
  "\<exists>s'. AssertError ref_pq raises sample_idle = (Inr (), s') \<and> rb_data (conn s') = 5 \<and> bs_lastError (ss_bounds s') = ''no''"
proof -
  have s: "bs_isolationFloor (ss_bounds sample_idle) \<le> length (names_of sample_idle)" "rb_stack (conn sample_idle) = None"
    "rb_data (conn sample_idle) = 5"
    by (simp_all add: sample_idle_def sample_session_def conn_def)
  have r: "\<forall>s. runs ref_pq rb_stack False s (snd (raises s))" by (simp add: raises_def counts_runs)
  obtain d s1 b s2 q s' where w: "raises s1 = (b, s2)" "AssertError ref_pq raises sample_idle = (q, s')"
    "case b of
       Inl e \<Rightarrow> rb_data (conn s') = rb_data (conn sample_idle) \<and> bs_writing (ss_bounds s') = bs_writing (ss_bounds sample_idle) \<and>
         (case caught e of
            Some error \<Rightarrow> q = Inr () \<and> bs_lastError (ss_bounds s') = ae_text error \<and> bs_lastErrorCode (ss_bounds s') = ae_code error
          | None \<Rightarrow> q = Inl e)
     | Inr _ \<Rightarrow> (\<exists>e. q = Inl (AlFailure e)) \<and> (\<not> rb_failed (conn s2) \<longrightarrow> rb_data (conn s') = rb_data (conn s2))"
    using assert_error [OF reference.postgres_axioms sample_idle_mirrors s(1) disjI1 [OF s(2)] r] by blast
  have "b = Inl (AlFailure (Error ''no'' ''Code''))" using w(1) by (simp add: raises_def)
  then show ?thesis using w(2,3) s(3) by (simp add: Error_def)
qed

end
