(* ===== verification/ObjectReader.thy ===== *)
theory ObjectReader
  imports Directives Statements
begin

text \<open>
  What the parser of AL objects reads inside an object: the declarations of \<^verbatim>\<open>src/src/al/Ast.h\<close> and, of the
  class \<open>Parser\<close> in \<^verbatim>\<open>src/src/al/Parser.cpp\<close>, the cursor, names, types, attributes, variables, properties and
  procedures.

  A reading takes the tokens from \<open>position_\<close> on. The code never moves past the last token and every look
  ahead stops at it, so the list is never empty. A loop of the code is \<open>Loop\<close>: an iteration that consumes no
  token and does not come nearer its end in the measure of what it counts repeats itself forever, which is the
  error \<open>Endless\<close>.
\<close>

section \<open>Declarations\<close>

record property =
  pr_name :: string
  pr_value :: "token list"
  pr_text :: string

record key_decl =
  kd_name :: string
  kd_fields :: "string list"
  kd_properties :: "property list"

record label_decl =
  lb_name :: string
  lb_text :: string

datatype var_decl =
  VarDecl (vd_byReference: bool) (vd_temporary: bool) (vd_name: string) (vd_type: string) (vd_subtype: string)
    (vd_length: int) (vd_members: "string list") (vd_arguments: "var_decl list") (vd_dimensions: "int list")
    (vd_attributes: "string list")

record procedure_decl =
  pd_attributes :: "string list"
  pd_isLocal :: bool
  pd_isTrigger :: bool
  pd_hasBody :: bool
  pd_name :: string
  pd_parameters :: "var_decl list"
  pd_variables :: "var_decl list"
  pd_labels :: "label_decl list"
  pd_returnName :: string
  pd_returnType :: string
  pd_returnSubtype :: string
  pd_returned :: var_decl
  pd_tokens :: "token list"
  pd_body :: "Stmt list"

definition NoVar :: var_decl where
  "NoVar = VarDecl False False [] [] [] 0 [] [] [] []"

definition NoProcedure :: procedure_decl where
  "NoProcedure = \<lparr>pd_attributes = [], pd_isLocal = False, pd_isTrigger = False, pd_hasBody = False, pd_name = [],
     pd_parameters = [], pd_variables = [], pd_labels = [], pd_returnName = [], pd_returnType = [],
     pd_returnSubtype = [], pd_returned = NoVar, pd_tokens = [], pd_body = []\<rparr>"

text \<open>A declaration with its name set, its passing by reference, its attributes.\<close>

fun Named :: "string \<Rightarrow> var_decl \<Rightarrow> var_decl" where
  "Named name (VarDecl r t n ty s l m a d at) = VarDecl r t name ty s l m a d at"

fun ByReference :: "bool \<Rightarrow> var_decl \<Rightarrow> var_decl" where
  "ByReference r (VarDecl _ t n ty s l m a d at) = VarDecl r t n ty s l m a d at"

fun Attributed :: "string list \<Rightarrow> var_decl \<Rightarrow> var_decl" where
  "Attributed at (VarDecl r t n ty s l m a d _) = VarDecl r t n ty s l m a d at"

definition SameName :: "string \<Rightarrow> string \<Rightarrow> bool" where
  "SameName a b \<longleftrightarrow> length a = length b \<and> map to_lower a = map to_lower b"

section \<open>Readings\<close>

text \<open>
  The exceptions: \<open>ParseError\<close>, the \<open>std::out_of_range\<close> and \<open>std::invalid_argument\<close> of \<open>std::stoi\<close> and the lexer's;
  then a loop that never ends, and a look into an empty vector, which is undefined.
\<close>

datatype object_error = Refused string | OutOfRange | InvalidArgument | NotLexed lex_error | Endless | UndefinedToken

type_synonym 'a reading = "token list \<Rightarrow> object_error + 'a \<times> token list"

definition give :: "'a \<Rightarrow> 'a reading" where
  "give a p = Inr (a, p)"

definition refuse :: "string \<Rightarrow> 'a reading" where
  "refuse message p = Inl (Refused message)"

definition into :: "'a reading \<Rightarrow> ('a \<Rightarrow> 'b reading) \<Rightarrow> 'b reading" where
  "into m f p = andThen (m p) (\<lambda>(a, p'). f a p')"

definition skip :: "'a reading \<Rightarrow> 'b reading \<Rightarrow> 'b reading" where
  "skip m n = into m (\<lambda>_. n)"

definition decide :: "(token list \<Rightarrow> bool) \<Rightarrow> 'a reading \<Rightarrow> 'a reading \<Rightarrow> 'a reading" where
  "decide c m n p = (if c p then m p else n p)"

definition lift :: "object_error + 'a \<Rightarrow> 'a reading" where
  "lift r p = andThen r (\<lambda>a. Inr (a, p))"

function Loop :: "('a \<Rightarrow> nat) \<Rightarrow> ('a \<Rightarrow> token list \<Rightarrow> bool) \<Rightarrow> ('a \<Rightarrow> 'a reading) \<Rightarrow> 'a \<Rightarrow> 'a reading" where
  "Loop rank going body a p =
     (if \<not> going a p then Inr (a, p)
      else andThen (body a p) (\<lambda>(b, q).
        if length q < length p \<or> length q = length p \<and> rank b < rank a then Loop rank going body b q
        else Inl Endless))"
  by pat_completeness auto
termination
  by (relation "measures [\<lambda>(rank, going, body, a, p). length p, \<lambda>(rank, going, body, a, p). rank a]") auto

declare Loop.simps [simp del]

definition While :: "(token list \<Rightarrow> bool) \<Rightarrow> ('a \<Rightarrow> 'a reading) \<Rightarrow> 'a \<Rightarrow> 'a reading" where
  "While going = Loop (\<lambda>_. 0) (\<lambda>_. going)"

section \<open>The cursor\<close>

abbreviation Here :: "token list \<Rightarrow> token" where
  "Here \<equiv> hd"

text \<open>\<open>Peek(1)\<close> and \<open>Advance\<close>: the last token stays in front.\<close>

definition Ahead :: "token list \<Rightarrow> token" where
  "Ahead p = (if 1 < length p then p ! 1 else List.last p)"

definition Onward :: "token list \<Rightarrow> token list" where
  "Onward p = (if 1 < length p then tl p else p)"

definition Move :: "unit reading" where
  "Move p = Inr ((), Onward p)"

definition AtWord :: "string \<Rightarrow> token list \<Rightarrow> bool" where
  "AtWord w p \<longleftrightarrow> IsKeyword (Here p) w"

definition AtMark :: "string \<Rightarrow> token list \<Rightarrow> bool" where
  "AtMark m p \<longleftrightarrow> IsPunctuation (Here p) m"

definition AtEndOfFile :: "token list \<Rightarrow> bool" where
  "AtEndOfFile p \<longleftrightarrow> tk_kind (Here p) = EndOfFile"

definition AtName :: "token list \<Rightarrow> bool" where
  "AtName p \<longleftrightarrow> tk_kind (Here p) = Identifier \<or> tk_kind (Here p) = QuotedIdentifier"

definition AtProtectedVar :: "token list \<Rightarrow> bool" where
  "AtProtectedVar p \<longleftrightarrow> (AtWord ''protected'' p \<or> AtWord ''internal'' p \<or> AtWord ''local'' p) \<and> IsKeyword (Ahead p) ''var''"

text \<open>The test that precedes \<open>SkipBracedBlock\<close>, and the words a procedure starts with.\<close>

definition AtBlock :: "token list \<Rightarrow> bool" where
  "AtBlock p \<longleftrightarrow> tk_kind (Here p) = Identifier \<and> IsPunctuation (Ahead p) ''{''"

definition AtProcedure :: "token list \<Rightarrow> bool" where
  "AtProcedure p \<longleftrightarrow> AtWord ''trigger'' p \<or> AtWord ''procedure'' p \<or> AtWord ''local'' p \<or> AtWord ''internal'' p \<or>
     AtWord ''protected'' p"

definition quoted :: "string \<Rightarrow> string" where
  "quoted s = [quote_char] @ s @ [quote_char]"

definition Require :: "string \<Rightarrow> unit reading" where
  "Require what p =
     (if AtWord what p \<or> AtMark what p then Move p
      else Inl (Refused (''expected '' @ quoted what @ '' but found '' @ quoted (tk_text (Here p)) @ '' on line '' @
        digits_of (tk_line (Here p)))))"

definition stoi :: "string \<Rightarrow> object_error + int" where
  "stoi s =
     (let s = dropWhile is_space s;
          negative = (s \<noteq> [] \<and> hd s = CHR ''-'');
          s = (if s \<noteq> [] \<and> (hd s = CHR ''-'' \<or> hd s = CHR ''+'') then tl s else s);
          digits = takeWhile is_digit s;
          v = (if negative then - int (digits_value digits) else int (digits_value digits)) in
      if digits = [] then Inl InvalidArgument
      else if - (2 ^ 31) \<le> v \<and> v < 2 ^ 31 then Inr v else Inl OutOfRange)"

definition ExpectInteger :: "int reading" where
  "ExpectInteger p =
     (if tk_kind (Here p) \<noteq> IntegerToken then
        Inl (Refused (''expected a number on line '' @ digits_of (tk_line (Here p))))
      else andThen (stoi (tk_text (Here p))) (\<lambda>v. skip Move (give v) p))"

definition ExpectName :: "string reading" where
  "ExpectName p =
     (if \<not> AtName p then Inl (Refused (''expected a name on line '' @ digits_of (tk_line (Here p))))
      else skip Move (give (tk_text (Here p))) p)"

text \<open>\<open>if (AtPunctuation(m)) { Advance(); }\<close>\<close>

definition Optional :: "string \<Rightarrow> unit reading" where
  "Optional m = decide (AtMark m) Move (give ())"

text \<open>The loops that advance to a mark, and those that count brackets, at a depth.\<close>

definition SkipTo :: "string \<Rightarrow> unit reading" where
  "SkipTo m = While (\<lambda>p. \<not> AtEndOfFile p \<and> \<not> AtMark m p) (\<lambda>_. Move) ()"

definition Deeper :: "string \<Rightarrow> string \<Rightarrow> token list \<Rightarrow> nat \<Rightarrow> nat" where
  "Deeper opening closing p depth =
     (let depth = (if AtMark opening p then depth + 1 else depth) in if AtMark closing p then depth - 1 else depth)"

definition SkipNested :: "string \<Rightarrow> string \<Rightarrow> nat \<Rightarrow> nat reading" where
  "SkipNested opening closing =
     Loop (\<lambda>d. d) (\<lambda>depth p. \<not> AtEndOfFile p \<and> 0 < depth)
       (\<lambda>depth p. skip Move (give (Deeper opening closing p depth)) p)"

definition SkipBracedBlock :: "unit reading" where
  "SkipBracedBlock = skip (Require ''{'') (skip (SkipNested ''{'' ''}'' 1) (give ()))"

section \<open>The header\<close>

definition ReadHeaderNamespace :: "string \<Rightarrow> string reading" where
  "ReadHeaderNamespace objectWord =
     into (While (\<lambda>p. \<not> AtEndOfFile p \<and> \<not> AtWord objectWord p)
       (\<lambda>dotted. into
          (decide (AtWord ''namespace'')
            (skip Move (While (\<lambda>p. \<not> AtEndOfFile p \<and> \<not> AtMark '';'' p)
              (\<lambda>dotted p. skip Move (give (dotted @ tk_text (Here p))) p) []))
            (give dotted))
          (\<lambda>dotted. skip Move (give dotted))) [])
       (\<lambda>dotted. decide AtEndOfFile (refuse (''this file declares no '' @ objectWord @ '' object'')) (give dotted))"

section \<open>Attributes\<close>

definition Written :: "token \<Rightarrow> string" where
  "Written t =
     (if tk_kind t = StringToken then quoted (tk_text t)
      else if tk_kind t = QuotedIdentifier then [double_quote_char] @ tk_text t @ [double_quote_char]
      else tk_text t)"

definition ReadAttribute :: "string reading" where
  "ReadAttribute =
     skip (Require ''['')
       (into (Loop snd (\<lambda>(written, depth) p. \<not> AtEndOfFile p \<and> 0 < depth)
          (\<lambda>(written, depth) p.
             let depth = Deeper ''['' '']'' p depth in
             skip Move (give (if 0 < depth then written @ Written (Here p) else written, depth)) p)
          ([], 1))
        (\<lambda>(written, depth). give written))"

text \<open>\<open>VariableFollowsAttribute\<close> reads ahead: a \<open>do\<close> loop over one attribute, then the names to the colon.\<close>

definition PassAttribute :: "unit reading" where
  "PassAttribute =
     into (\<lambda>p. skip Move (give (Deeper ''['' '']'' p 0)) p)
       (\<lambda>depth. skip (SkipNested ''['' '']'' depth) (give ()))"

definition VariableFollowsAttribute :: "token list \<Rightarrow> object_error + bool" where
  "VariableFollowsAttribute p =
     andThen
       (into (While (AtMark ''['') (\<lambda>_. PassAttribute) ())
         (\<lambda>_. into (Loop (\<lambda>answer. if answer = None then 1 else 0) (\<lambda>answer p. answer = None \<and> AtName p)
            (\<lambda>_ p.
               if IsPunctuation (Ahead p) '':'' then Inr (Some True, p)
               else if \<not> IsPunctuation (Ahead p) '','' then Inr (Some False, p)
               else skip Move (skip Move (give None)) p) None)
            (\<lambda>answer. give (answer = Some True))) p)
       (\<lambda>(b, _). Inr b)"

section \<open>Types\<close>

definition ReadOptionMembers :: "string list reading" where
  "ReadOptionMembers =
     into (While (\<lambda>p. (AtName p \<or> AtMark '','' p) \<and> \<not> (AtWord ''var'' p \<or> AtWord ''begin'' p \<or> AtWord ''temporary'' p))
       (\<lambda>(members, expecting) p.
          if AtMark '','' p then skip Move (give (if expecting then members @ [[]] else members, True)) p
          else skip Move (give (members @ [tk_text (Here p)], False)) p) ([], True))
       (\<lambda>(members, expecting). give (if expecting \<and> members \<noteq> [] then members @ [[]] else members))"

text \<open>A name with its qualifiers: the last one stands.\<close>

definition ReadDotted :: "string reading" where
  "ReadDotted = into ExpectName (\<lambda>name. While (AtMark ''.'') (\<lambda>_. skip Move ExpectName) name)"

definition ReadSubtypeName :: "string reading" where
  "ReadSubtypeName p =
     (if AtWord ''var'' p \<or> AtWord ''begin'' p \<or> AtWord ''temporary'' p then give [] p
      else if tk_kind (Here p) = IntegerToken then skip Move (give (tk_text (Here p))) p
      else ReadDotted p)"

definition ReadDimensions :: "int list reading" where
  "ReadDimensions =
     While (AtWord ''array'')
       (\<lambda>dimensions. skip Move
         (into (decide (AtMark ''['')
            (skip Move
              (into (While (\<lambda>p. \<not> AtEndOfFile p \<and> \<not> AtMark '']'' p)
                 (\<lambda>dimensions p.
                    if tk_kind (Here p) = IntegerToken then into ExpectInteger (\<lambda>d. give (dimensions @ [d])) p
                    else skip Move (give dimensions) p) dimensions)
                 (\<lambda>dimensions. skip (Require '']'') (give dimensions))))
            (give dimensions))
          (\<lambda>dimensions. skip (Require ''of'') (give dimensions)))) []"

definition kWithOne :: "string list" where
  "kWithOne = [''Record'', ''Codeunit'', ''Page'', ''Report'', ''Query'', ''XmlPort'', ''Enum'', ''Interface'', ''TestPage'',
     ''TestRequestPage'', ''ControlAddIn'', ''DotNet'', ''RecordRef'', ''FilterPageBuilder'', ''TestAction'', ''TestField'',
     ''Automation'', ''Label'']"

definition TakesASubtype :: "string \<Rightarrow> bool" where
  "TakesASubtype type \<longleftrightarrow> list_ex (\<lambda>known. SameName known type) kWithOne"

text \<open>The length in brackets, of which only a number in front counts.\<close>

definition ReadLength :: "int reading" where
  "ReadLength =
     skip Move
       (into (\<lambda>p. if tk_kind (Here p) = IntegerToken then ExpectInteger p else give 0 p)
         (\<lambda>l. skip (SkipTo '']'') (skip (Require '']'') (give l))))"

definition ReadTemporary :: "bool reading" where
  "ReadTemporary = While (AtWord ''temporary'') (\<lambda>_. skip Move (give True)) False"

fun ReadTypeIn :: "nat \<Rightarrow> var_decl reading" where
  "ReadTypeIn 0 = (\<lambda>p. Inl Endless)"
| "ReadTypeIn (Suc n) =
     into ReadDimensions (\<lambda>dimensions. into ExpectName (\<lambda>type.
       decide (AtWord ''of'')
         (skip Move (skip (Require ''['')
           (into (While (\<lambda>p. \<not> AtEndOfFile p \<and> \<not> AtMark '']'' p)
              (\<lambda>arguments. decide (AtMark '','') (skip Move (give arguments))
                (into (ReadTypeIn n) (\<lambda>a. give (arguments @ [a])))) [])
            (\<lambda>arguments. skip (Require '']'')
              (give (VarDecl False False [] type [] 0 [] arguments dimensions []))))))
         (if SameName type ''Option'' then
            into ReadOptionMembers (\<lambda>members. give (VarDecl False False [] type [] 0 members [] dimensions []))
          else
            into (decide (AtMark ''['') (into ReadLength (\<lambda>l. give ([], l)))
              (decide (\<lambda>p. TakesASubtype type \<and> (AtName p \<or> tk_kind (Here p) = IntegerToken))
                (into ReadSubtypeName (\<lambda>subtype. give (subtype, 0))) (give ([], 0))))
              (\<lambda>(subtype, l). into ReadTemporary (\<lambda>temporary.
                give (VarDecl False temporary [] type subtype l [] [] dimensions []))))))"

text \<open>A type nests no deeper than there are tokens.\<close>

definition ReadType :: "var_decl reading" where
  "ReadType p = ReadTypeIn (length p) p"

section \<open>Variables\<close>

definition ReadVariableLabels :: "string list \<Rightarrow> label_decl list \<Rightarrow> label_decl list reading" where
  "ReadVariableLabels names labels =
     skip Move (\<lambda>p.
       if tk_kind (Here p) \<noteq> StringToken then Inr (labels, p)
       else skip Move (give (labels @ map (\<lambda>name. \<lparr>lb_name = name, lb_text = tk_text (Here p)\<rparr>) names)) p)"

text \<open>What a declaration of variables is read into: the pending attributes, labels, variables, the early return.\<close>

record vars =
  vs_pending :: "string list"
  vs_labels :: "label_decl list"
  vs_variables :: "var_decl list"
  vs_returned :: bool

definition AtVariables :: "token list \<Rightarrow> bool" where
  "AtVariables p \<longleftrightarrow> \<not> AtEndOfFile p \<and> \<not> AtMark ''}'' p \<and> \<not> AtWord ''var'' p \<and> \<not> AtWord ''begin'' p \<and> \<not> AtProcedure p"

definition ReadNames :: "string list reading" where
  "ReadNames = into ExpectName (\<lambda>name. While (AtMark '','') (\<lambda>names. skip Move (into ExpectName (\<lambda>n. give (names @ [n])))) [name])"

definition VariableStep :: "vars \<Rightarrow> vars reading" where
  "VariableStep v =
     decide (AtMark ''['')
       (\<lambda>p. andThen (VariableFollowsAttribute p) (\<lambda>follows.
          if \<not> follows then Inr (v\<lparr>vs_returned := True\<rparr>, p)
          else into ReadAttribute (\<lambda>a. give (v\<lparr>vs_pending := vs_pending v @ [a]\<rparr>)) p))
       (into ReadNames (\<lambda>names. skip (Require '':'')
         (into (decide (AtWord ''Label'')
            (into (ReadVariableLabels names (vs_labels v)) (\<lambda>labels. give (v\<lparr>vs_labels := labels\<rparr>)))
            (into ReadType (\<lambda>declared.
              give (v\<lparr>vs_variables := vs_variables v @ map (\<lambda>name. Attributed (vs_pending v) (Named name declared)) names\<rparr>))))
          (\<lambda>v. skip (SkipTo '';'') (skip (Require '';'') (give (v\<lparr>vs_pending := []\<rparr>)))))))"

definition ParseVarsInto :: "label_decl list \<Rightarrow> var_decl list \<Rightarrow> (label_decl list \<times> var_decl list) reading" where
  "ParseVarsInto labels variables =
     into (Loop (\<lambda>v. if vs_returned v then 0 else 1) (\<lambda>v p. \<not> vs_returned v \<and> AtVariables p) VariableStep
       \<lparr>vs_pending = [], vs_labels = labels, vs_variables = variables, vs_returned = False\<rparr>)
       (\<lambda>v. give (vs_labels v, vs_variables v))"

definition ReadLocalVars :: "label_decl list \<Rightarrow> var_decl list \<Rightarrow> (label_decl list \<times> var_decl list) reading" where
  "ReadLocalVars labels variables =
     decide (AtWord ''var'') (skip Move (ParseVarsInto labels variables)) (give (labels, variables))"

section \<open>Properties and procedures\<close>

definition ParseProperty :: "property reading" where
  "ParseProperty =
     into ExpectName (\<lambda>name. skip (Require ''='')
       (into (While (\<lambda>p. \<not> AtEndOfFile p \<and> \<not> AtMark '';'' p)
          (\<lambda>property p.
             let text = (if pr_text property \<noteq> [] then pr_text property @ '' '' else pr_text property) in
             skip Move (give (property\<lparr>pr_value := pr_value property @ [Here p], pr_text := text @ tk_text (Here p)\<rparr>)) p)
          \<lparr>pr_name = name, pr_value = [], pr_text = []\<rparr>)
        (\<lambda>property. skip (Require '';'') (give property))))"

text \<open>The tokens between \<open>begin\<close> and its \<open>end\<close>; the depth is 0 once the loop has returned.\<close>

definition BodyStep :: "token list \<times> nat \<Rightarrow> (token list \<times> nat) reading" where
  "BodyStep = (\<lambda>(body, depth) p.
     let depth = (if AtWord ''begin'' p \<or> AtWord ''case'' p then depth + 1 else depth);
         depth = (if AtWord ''end'' p then depth - 1 else depth) in
     if AtWord ''end'' p \<and> depth = 0 then skip Move (skip (Optional '';'') (give (body, 0))) p
     else skip Move (give (body @ [Here p], depth)) p)"

definition SkipBeginEnd :: "label_decl list \<Rightarrow> var_decl list \<Rightarrow> (token list \<times> label_decl list \<times> var_decl list) reading" where
  "SkipBeginEnd labels variables =
     into (ReadLocalVars labels variables) (\<lambda>(labels, variables). skip (Require ''begin'')
       (into (Loop snd (\<lambda>(body, depth) p. 0 < depth \<and> \<not> AtEndOfFile p) BodyStep ([], 1))
         (\<lambda>(body, depth). if depth = 0 then give (body, labels, variables) else refuse ''unterminated begin block'')))"

definition Body :: "token list \<Rightarrow> Stmt list reading" where
  "Body tokens = lift (case ParseStatements tokens of
     Inr body \<Rightarrow> Inr body
   | Inl (ParseError message) \<Rightarrow> Inl (Refused message)
   | Inl ParseFuel \<Rightarrow> Inl Endless)"

definition ReadParameter :: "var_decl reading" where
  "ReadParameter =
     into (decide (AtWord ''var'') (skip Move (give True)) (give False)) (\<lambda>byReference.
       into ExpectName (\<lambda>name. skip (Require '':'') (into ReadType (\<lambda>parameter.
         give (Named name (ByReference byReference parameter))))))"

text \<open>
  What \<open>ParseSignature\<close> and \<open>ParseProcedure\<close> share: the modifiers, the kind, the name, the parameters and the result.
  An interface's procedure may also be followed by the next one or by the end of the object.
\<close>

definition ReadModifiers :: "bool \<Rightarrow> bool reading" where
  "ReadModifiers =
     While (\<lambda>p. AtWord ''local'' p \<or> AtWord ''internal'' p \<or> AtWord ''protected'' p)
       (\<lambda>isLocal p. skip Move (give (isLocal \<or> AtWord ''local'' p)) p)"

definition ReadParameters :: "var_decl list \<Rightarrow> var_decl list reading" where
  "ReadParameters parameters =
     skip (Require ''('')
       (into (While (\<lambda>p. \<not> AtMark '')'' p)
         (\<lambda>parameters. into ReadParameter (\<lambda>parameter. skip (Optional '';'') (give (parameters @ [parameter])))) parameters)
        (\<lambda>parameters. skip (Require '')'') (give parameters)))"

definition ReadProcedureName :: "string reading" where
  "ReadProcedureName = into ExpectName (\<lambda>name. While (AtMark ''::'') (\<lambda>_. skip Move ExpectName) name)"

definition ReadResult :: "bool \<Rightarrow> (string \<times> var_decl option) reading" where
  "ReadResult interface =
     into (decide (\<lambda>p. \<not> AtMark '':'' p \<and> \<not> AtWord ''var'' p \<and> \<not> AtWord ''begin'' p \<and> \<not> AtMark '';'' p \<and>
          \<not> (interface \<and> (AtWord ''procedure'' p \<or> AtMark ''}'' p))) ExpectName (give []))
       (\<lambda>returnName.
          into (decide (AtMark '':'') (skip Move (into ReadType (\<lambda>returned. give (Some returned)))) (give None))
            (\<lambda>returned. skip (Optional '';'') (give (returnName, returned))))"

definition ReadSignature :: "bool \<Rightarrow> procedure_decl \<Rightarrow> procedure_decl reading" where
  "ReadSignature interface procedure =
     into (ReadModifiers (pd_isLocal procedure)) (\<lambda>isLocal. into (\<lambda>p. give (AtWord ''trigger'' p) p) (\<lambda>isTrigger.
       skip (decide (\<lambda>p. AtWord ''trigger'' p \<or> AtWord ''procedure'' p \<or> AtWord ''event'' p) Move (give ()))
         (into ReadProcedureName (\<lambda>name. into (ReadParameters (pd_parameters procedure)) (\<lambda>parameters.
           into (ReadResult interface) (\<lambda>(returnName, returned).
             give (let procedure = procedure\<lparr>pd_isLocal := isLocal, pd_isTrigger := isTrigger, pd_name := name,
                       pd_parameters := parameters, pd_returnName := returnName\<rparr> in
                   case returned of
                     None \<Rightarrow> procedure
                   | Some d \<Rightarrow> procedure\<lparr>pd_returnType := vd_type d, pd_returnSubtype := vd_subtype d,
                       pd_returned := Named returnName d\<rparr>)))))))"

definition ParseSignature :: "procedure_decl reading" where
  "ParseSignature = ReadSignature True NoProcedure"

text \<open>The body of a procedure: \<open>SkipBeginEnd\<close> and \<open>ParseStatements\<close> on what it passed.\<close>

definition ReadBody :: "procedure_decl \<Rightarrow> procedure_decl reading" where
  "ReadBody procedure =
     into (SkipBeginEnd (pd_labels procedure) (pd_variables procedure)) (\<lambda>(tokens, labels, variables).
       into (Body tokens) (\<lambda>body.
         give (procedure\<lparr>pd_tokens := tokens, pd_labels := labels, pd_variables := variables, pd_body := body,
           pd_hasBody := True\<rparr>)))"

definition ParseProcedure :: "string list \<Rightarrow> procedure_decl reading" where
  "ParseProcedure attributes = into (ReadSignature False (NoProcedure\<lparr>pd_attributes := attributes\<rparr>)) ReadBody"

end
