(* ===== verification/Objects.thy ===== *)
theory Objects
  imports ObjectReader
begin

text \<open>
  The objects of AL: the structs of \<^verbatim>\<open>src/src/al/Ast.h\<close> and the parsers of tables, codeunits, enums, interfaces,
  pages, queries, reports, XML ports, profiles and extensions of \<^verbatim>\<open>src/src/al/Parser.cpp\<close>, each over \<open>Tokenize\<close>; then
  what reads the parsed trees, the attributes of procedures and the lists of properties.
\<close>

section \<open>Trees\<close>

record field_decl =
  fd_number :: int
  fd_name :: string
  fd_type :: string
  fd_subtype :: string
  fd_length :: int
  fd_properties :: "property list"
  fd_customizations :: string
  fd_triggers :: "procedure_decl list"

record codeunit_object =
  cu_id :: int
  cu_name :: string
  cu_nameSpace :: string
  cu_implements :: "string list"
  cu_properties :: "property list"
  cu_procedures :: "procedure_decl list"
  cu_variables :: "var_decl list"
  cu_labels :: "label_decl list"

record enum_value_decl =
  ev_ordinal :: int
  ev_name :: string
  ev_properties :: "property list"

record enum_object =
  en_id :: int
  en_name :: string
  en_nameSpace :: string
  en_implements :: "string list"
  en_properties :: "property list"
  en_values :: "enum_value_decl list"

record interface_object =
  if_id :: int
  if_name :: string
  if_nameSpace :: string
  if_extends :: "string list"
  if_procedures :: "procedure_decl list"

datatype page_control =
  PageControl (pc_kind: string) (pc_name: string) (pc_source: "token list") (pc_properties: "property list")
    (pc_triggers: "procedure_decl list") (pc_children: "page_control list")

record report_layout_owner =
  lo_id :: int
  lo_extension :: bool
  lo_name :: string
  lo_nameSpace :: string
  lo_appId :: string
  lo_source :: string

record report_layout_decl =
  rl_name :: string
  rl_properties :: "property list"
  rl_owner :: report_layout_owner

record page_object =
  pg_id :: int
  pg_name :: string
  pg_nameSpace :: string
  pg_properties :: "property list"
  pg_layout :: "page_control list"
  pg_actions :: "page_control list"
  pg_views :: "page_control list"
  pg_procedures :: "procedure_decl list"
  pg_variables :: "var_decl list"
  pg_labels :: "label_decl list"
  pg_report :: bool
  pg_xmlport :: bool
  pg_dataset :: "page_control list"
  pg_rendering :: "report_layout_decl list"

record query_object =
  qu_id :: int
  qu_name :: string
  qu_nameSpace :: string
  qu_properties :: "property list"
  qu_elements :: "page_control list"
  qu_procedures :: "procedure_decl list"
  qu_variables :: "var_decl list"
  qu_labels :: "label_decl list"

record profile_object =
  pf_name :: string
  pf_nameSpace :: string
  pf_properties :: "property list"

record page_extension_object =
  px_id :: int
  px_name :: string
  px_extends :: string
  px_nameSpace :: string
  px_layout :: "page_control list"
  px_actions :: "page_control list"
  px_dataset :: "page_control list"
  px_procedures :: "procedure_decl list"
  px_variables :: "var_decl list"
  px_labels :: "label_decl list"
  px_rendering :: "report_layout_decl list"

record enum_extension_object =
  ex_id :: int
  ex_name :: string
  ex_extends :: string
  ex_nameSpace :: string
  ex_values :: "enum_value_decl list"

record table_object =
  tb_id :: int
  tb_name :: string
  tb_nameSpace :: string
  tb_properties :: "property list"
  tb_fields :: "field_decl list"
  tb_modified :: "field_decl list"
  tb_keys :: "key_decl list"
  tb_labels :: "label_decl list"
  tb_variables :: "var_decl list"
  tb_procedures :: "procedure_decl list"

record table_extension_object =
  tx_id :: int
  tx_name :: string
  tx_extends :: string
  tx_nameSpace :: string
  tx_properties :: "property list"
  tx_fields :: "field_decl list"
  tx_modified :: "field_decl list"
  tx_keys :: "key_decl list"
  tx_labels :: "label_decl list"
  tx_variables :: "var_decl list"
  tx_procedures :: "procedure_decl list"

definition NoTable :: table_object where
  "NoTable = \<lparr>tb_id = 0, tb_name = [], tb_nameSpace = [], tb_properties = [], tb_fields = [], tb_modified = [],
     tb_keys = [], tb_labels = [], tb_variables = [], tb_procedures = []\<rparr>"

definition NoPage :: page_object where
  "NoPage = \<lparr>pg_id = 0, pg_name = [], pg_nameSpace = [], pg_properties = [], pg_layout = [], pg_actions = [],
     pg_views = [], pg_procedures = [], pg_variables = [], pg_labels = [], pg_report = False, pg_xmlport = False,
     pg_dataset = [], pg_rendering = []\<rparr>"

section \<open>What is read from the trees\<close>

definition FindProperty :: "property list \<Rightarrow> string \<Rightarrow> property option" where
  "FindProperty properties name = find (\<lambda>p. SameName (pr_name p) name) properties"

definition FindTrigger :: "procedure_decl list \<Rightarrow> string \<Rightarrow> procedure_decl option" where
  "FindTrigger triggers name = find (\<lambda>t. SameName (pd_name t) name) triggers"

fun ListLoop :: "token list \<Rightarrow> string list \<Rightarrow> string \<Rightarrow> bool \<Rightarrow> string list" where
  "ListLoop [] items current pending = (if pending \<or> items \<noteq> [] then items @ [current] else items)"
| "ListLoop (t # ts) items current pending =
     (if IsPunctuation t '','' then ListLoop ts (items @ [current]) [] False
      else ListLoop ts items (current @ tk_text t) True)"

definition ListValue :: "property \<Rightarrow> string list" where
  "ListValue p = ListLoop (pr_value p) [] [] False"

text \<open>The loop of \<open>AttributeValues\<close>: the quote it is inside of, if any.\<close>

fun AttributeLoop :: "string \<Rightarrow> char option \<Rightarrow> string \<Rightarrow> string list \<Rightarrow> string list" where
  "AttributeLoop [] quote current arguments = (if current \<noteq> [] then arguments @ [current] else arguments)"
| "AttributeLoop (c # s) (Some q) current arguments =
     (if c = q then AttributeLoop s None current arguments else AttributeLoop s (Some q) (current @ [c]) arguments)"
| "AttributeLoop (c # s) None current arguments =
     (if c = quote_char \<or> c = double_quote_char then AttributeLoop s (Some c) current arguments
      else if c = CHR '','' \<or> c = CHR '')'' \<and> s = [] then AttributeLoop s None [] (arguments @ [current])
      else AttributeLoop s None (current @ [c]) arguments)"

definition AttributeValues :: "string \<Rightarrow> nat \<Rightarrow> string list" where
  "AttributeValues attribute open = AttributeLoop (drop (open + 1) attribute) None [] []"

text \<open>The name of an attribute: up to its bracket.\<close>

definition AttributeNamed :: "string \<Rightarrow> string \<Rightarrow> bool" where
  "AttributeNamed name attribute \<longleftrightarrow>
     SameName (case find_text attribute ''('' 0 of None \<Rightarrow> attribute | Some i \<Rightarrow> take i attribute) name"

definition AttributeArguments :: "procedure_decl \<Rightarrow> string \<Rightarrow> string list" where
  "AttributeArguments procedure name =
     (case find (AttributeNamed name) (pd_attributes procedure) of
        None \<Rightarrow> []
      | Some attribute \<Rightarrow>
          (case find_text attribute ''('' 0 of None \<Rightarrow> [] | Some i \<Rightarrow> AttributeValues attribute i))"

definition HasAttribute :: "procedure_decl \<Rightarrow> string \<Rightarrow> bool" where
  "HasAttribute procedure name \<longleftrightarrow> list_ex (AttributeNamed name) (pd_attributes procedure)"

section \<open>The members of an object\<close>

text \<open>
  What the loop over an object's body collects in every object that has code: the attributes read so far, labels,
  variables, procedures and properties.
\<close>

record members =
  mb_attributes :: "string list"
  mb_labels :: "label_decl list"
  mb_variables :: "var_decl list"
  mb_procedures :: "procedure_decl list"
  mb_properties :: "property list"

definition AttributeMember :: "members \<Rightarrow> members reading" where
  "AttributeMember m = into ReadAttribute (\<lambda>a. give (m\<lparr>mb_attributes := mb_attributes m @ [a]\<rparr>))"

definition VarMember :: "members \<Rightarrow> members reading" where
  "VarMember m = skip Move (into (ParseVarsInto (mb_labels m) (mb_variables m))
     (\<lambda>(labels, variables). give (m\<lparr>mb_labels := labels, mb_variables := variables\<rparr>)))"

definition ProcedureMember :: "members \<Rightarrow> members reading" where
  "ProcedureMember m = into (ParseProcedure (mb_attributes m))
     (\<lambda>p. give (m\<lparr>mb_procedures := mb_procedures m @ [p], mb_attributes := []\<rparr>))"

definition PropertyMember :: "members \<Rightarrow> members reading" where
  "PropertyMember m = into ParseProperty (\<lambda>p. give (m\<lparr>mb_properties := mb_properties m @ [p]\<rparr>))"

text \<open>The branches that end every such loop.\<close>

definition CodeMember :: "members \<Rightarrow> members reading" where
  "CodeMember m =
     decide AtProtectedVar (skip Move (VarMember m))
       (decide (AtWord ''var'') (VarMember m)
         (decide AtProcedure (ProcedureMember m) (PropertyMember m)))"

definition BlockMember :: "members \<Rightarrow> members reading" where
  "BlockMember m = decide AtBlock (skip Move (skip SkipBracedBlock (give m))) (CodeMember m)"

definition NotClosed :: "token list \<Rightarrow> bool" where
  "NotClosed p \<longleftrightarrow> \<not> AtMark ''}'' p \<and> \<not> AtEndOfFile p"

text \<open>The names behind \<open>implements\<close> or \<open>extends\<close>, and properties up to the closing brace.\<close>

definition ReadNameList :: "string \<Rightarrow> string list reading" where
  "ReadNameList keyword =
     decide (AtWord keyword)
       (skip Move (While (\<lambda>p. \<not> AtEndOfFile p \<and> \<not> AtMark ''{'' p)
         (\<lambda>names. into ExpectName (\<lambda>n. skip (Optional '','') (give (names @ [n])))) []))
       (give [])"

definition ReadProperties :: "property list reading" where
  "ReadProperties =
     skip (Require ''{'')
       (into (While (\<lambda>p. \<not> AtMark ''}'' p) (\<lambda>ps. into ParseProperty (\<lambda>q. give (ps @ [q]))) [])
         (\<lambda>ps. skip (Require ''}'') (give ps)))"

definition ReadHeader :: "string \<Rightarrow> (string \<times> int \<times> string) reading" where
  "ReadHeader object =
     into (ReadHeaderNamespace object) (\<lambda>nameSpace. skip (Require object)
       (into ExpectInteger (\<lambda>id. into ExpectName (\<lambda>name. give (nameSpace, id, name)))))"

definition ReadExtended :: "string reading" where
  "ReadExtended = skip (Require ''extends'') ExpectName"

section \<open>Enums\<close>

definition ReadEnumValue :: "enum_value_decl reading" where
  "ReadEnumValue =
     skip Move (skip (Require ''('') (into ExpectInteger (\<lambda>ordinal. skip (Require '';'') (into ExpectName (\<lambda>name.
       skip (Require '')'') (into ReadProperties (\<lambda>properties.
         give \<lparr>ev_ordinal = ordinal, ev_name = name, ev_properties = properties\<rparr>)))))))"

definition ParseEnumBody :: "(enum_value_decl list \<times> property list) reading" where
  "ParseEnumBody =
     skip (Require ''{'')
       (into (While NotClosed
         (\<lambda>(values, properties). decide (AtWord ''value'')
            (into ReadEnumValue (\<lambda>v. give (values @ [v], properties)))
            (into ParseProperty (\<lambda>q. give (values, properties @ [q])))) ([], []))
         (\<lambda>body. skip (Require ''}'') (give body)))"

definition ParseEnum :: "enum_object reading" where
  "ParseEnum =
     into (ReadHeader ''enum'') (\<lambda>(nameSpace, id, name). into (ReadNameList ''implements'') (\<lambda>implements.
       into ParseEnumBody (\<lambda>(values, properties).
         give \<lparr>en_id = id, en_name = name, en_nameSpace = nameSpace, en_implements = implements,
           en_properties = properties, en_values = values\<rparr>)))"

definition ParseEnumExtension :: "enum_extension_object reading" where
  "ParseEnumExtension =
     into (ReadHeader ''enumextension'') (\<lambda>(nameSpace, id, name). into ReadExtended (\<lambda>extends.
       into ParseEnumBody (\<lambda>(values, properties).
         give \<lparr>ex_id = id, ex_name = name, ex_extends = extends, ex_nameSpace = nameSpace, ex_values = values\<rparr>)))"

section \<open>Tables\<close>

text \<open>A field's body: its properties and triggers; the variables of a trigger come before its \<open>begin\<close>.\<close>

definition ReadFieldTrigger :: "procedure_decl reading" where
  "ReadFieldTrigger =
     skip Move (into ExpectName (\<lambda>name. skip (Require ''('') (skip (Require '')'')
       (into (ReadLocalVars [] []) (\<lambda>(labels, variables).
         into (SkipBeginEnd [] []) (\<lambda>(tokens, _). into (Body tokens) (\<lambda>body.
           give (NoProcedure\<lparr>pd_name := name, pd_labels := labels, pd_variables := variables, pd_tokens := tokens,
             pd_body := body, pd_hasBody := True\<rparr>))))))))"

definition ParseFieldBody :: "field_decl \<Rightarrow> field_decl reading" where
  "ParseFieldBody field =
     skip (Require ''{'')
       (into (While (\<lambda>p. \<not> AtMark ''}'' p)
         (\<lambda>field. decide (AtWord ''trigger'')
            (into ReadFieldTrigger (\<lambda>t. give (field\<lparr>fd_triggers := fd_triggers field @ [t]\<rparr>)))
            (into ParseProperty (\<lambda>q. give (field\<lparr>fd_properties := fd_properties field @ [q]\<rparr>)))) field)
         (\<lambda>field. skip (Require ''}'') (give field)))"

definition NoField :: field_decl where
  "NoField = \<lparr>fd_number = 0, fd_name = [], fd_type = [], fd_subtype = [], fd_length = 0, fd_properties = [],
     fd_customizations = [], fd_triggers = []\<rparr>"

definition ReadModified :: "field_decl reading" where
  "ReadModified =
     skip Move (skip (Require ''('') (into ExpectName (\<lambda>name. skip (Require '')'')
       (ParseFieldBody (NoField\<lparr>fd_name := name\<rparr>)))))"

text \<open>What follows the type of a field: a length, a subtype or nothing.\<close>

definition ReadFieldType :: "(string \<times> int) reading" where
  "ReadFieldType =
     decide (AtMark ''['') (skip Move (into ExpectInteger (\<lambda>l. skip (Require '']'') (give ([], l)))))
       (decide (\<lambda>p. \<not> AtMark '')'' p)
         (into (\<lambda>p. if tk_kind (Here p) = IntegerToken then skip Move (give (tk_text (Here p))) p else ReadDotted p)
           (\<lambda>subtype. give (subtype, 0)))
         (give ([], 0)))"

definition ReadField :: "field_decl reading" where
  "ReadField =
     skip (Require ''field'') (skip (Require ''('') (into ExpectInteger (\<lambda>number. skip (Require '';'')
       (into ExpectName (\<lambda>name. skip (Require '';'') (into ExpectName (\<lambda>type. into ReadFieldType (\<lambda>(subtype, l).
         skip (Require '')'')
           (ParseFieldBody (NoField\<lparr>fd_number := number, fd_name := name, fd_type := type, fd_subtype := subtype,
             fd_length := l\<rparr>))))))))))"

definition ParseFields :: "table_object \<Rightarrow> table_object reading" where
  "ParseFields table =
     skip (Require ''{'')
       (into (While (\<lambda>p. \<not> AtMark ''}'' p)
         (\<lambda>table. decide (AtWord ''modify'')
            (into ReadModified (\<lambda>f. give (table\<lparr>tb_modified := tb_modified table @ [f]\<rparr>)))
            (into ReadField (\<lambda>f. give (table\<lparr>tb_fields := tb_fields table @ [f]\<rparr>)))) table)
         (\<lambda>table. skip (Require ''}'') (give table)))"

definition ReadKey :: "key_decl reading" where
  "ReadKey =
     skip (Require ''key'') (skip (Require ''('') (into ExpectName (\<lambda>name. skip (Require '';'')
       (into (While (\<lambda>p. \<not> AtMark '')'' p)
          (\<lambda>fields. into ExpectName (\<lambda>f. skip (Optional '','') (give (fields @ [f])))) [])
         (\<lambda>fields. skip (Require '')'') (into ReadProperties (\<lambda>properties.
           give \<lparr>kd_name = name, kd_fields = fields, kd_properties = properties\<rparr>)))))))"

definition ParseKeys :: "table_object \<Rightarrow> table_object reading" where
  "ParseKeys table =
     skip (Require ''{'')
       (into (While (\<lambda>p. \<not> AtMark ''}'' p)
         (\<lambda>table. into ReadKey (\<lambda>k. give (table\<lparr>tb_keys := tb_keys table @ [k]\<rparr>))) table)
         (\<lambda>table. skip (Require ''}'') (give table)))"

text \<open>A member of a table's code, put back into the table with the attributes still pending.\<close>

definition TableMember :: "(members \<Rightarrow> members reading) \<Rightarrow> string list \<times> table_object \<Rightarrow>
    (string list \<times> table_object) reading" where
  "TableMember member = (\<lambda>(attributes, table).
     into (member \<lparr>mb_attributes = attributes, mb_labels = tb_labels table, mb_variables = tb_variables table,
         mb_procedures = tb_procedures table, mb_properties = tb_properties table\<rparr>)
       (\<lambda>m. give (mb_attributes m, table\<lparr>tb_labels := mb_labels m, tb_variables := mb_variables m,
         tb_procedures := mb_procedures m, tb_properties := mb_properties m\<rparr>)))"

definition TableStep :: "string list \<times> table_object \<Rightarrow> (string list \<times> table_object) reading" where
  "TableStep = (\<lambda>(attributes, table).
     decide (AtWord ''fields'') (skip Move (into (ParseFields table) (\<lambda>t. give (attributes, t))))
       (decide (AtWord ''keys'') (skip Move (into (ParseKeys table) (\<lambda>t. give (attributes, t))))
         (decide (AtWord ''var'') (TableMember VarMember (attributes, table))
           (decide (AtMark ''['') (TableMember AttributeMember (attributes, table))
             (decide AtProtectedVar (skip Move (TableMember VarMember (attributes, table)))
               (decide AtProcedure (TableMember ProcedureMember (attributes, table))
                 (decide AtBlock (skip Move (skip SkipBracedBlock (give (attributes, table))))
                   (TableMember PropertyMember (attributes, table)))))))))"

definition ParseTableBody :: "table_object \<Rightarrow> table_object reading" where
  "ParseTableBody table =
     skip (Require ''{'')
       (into (While NotClosed TableStep ([], table)) (\<lambda>(attributes, table). skip (Require ''}'')
         (give (case FindProperty (tb_properties table) ''AllowInCustomizations'' of
            None \<Rightarrow> table
          | Some q \<Rightarrow> table\<lparr>tb_fields := map (\<lambda>f. f\<lparr>fd_customizations := pr_text q\<rparr>) (tb_fields table)\<rparr>))))"

definition ParseTable :: "table_object reading" where
  "ParseTable =
     into (ReadHeader ''table'') (\<lambda>(nameSpace, id, name).
       ParseTableBody (NoTable\<lparr>tb_nameSpace := nameSpace, tb_id := id, tb_name := name\<rparr>))"

definition ParseTableExtension :: "table_extension_object reading" where
  "ParseTableExtension =
     into (ReadHeader ''tableextension'') (\<lambda>(nameSpace, id, name). into ReadExtended (\<lambda>extends.
       into (ParseTableBody NoTable) (\<lambda>body.
         give \<lparr>tx_id = id, tx_name = name, tx_extends = extends, tx_nameSpace = nameSpace, tx_properties = tb_properties body,
           tx_fields = tb_fields body, tx_modified = tb_modified body, tx_keys = tb_keys body, tx_labels = tb_labels body,
           tx_variables = tb_variables body, tx_procedures = tb_procedures body\<rparr>)))"

section \<open>Codeunits and interfaces\<close>

definition NoMembers :: members where
  "NoMembers = \<lparr>mb_attributes = [], mb_labels = [], mb_variables = [], mb_procedures = [], mb_properties = []\<rparr>"

definition ParseCodeunit :: "codeunit_object reading" where
  "ParseCodeunit =
     into (ReadHeader ''codeunit'') (\<lambda>(nameSpace, id, name). into (ReadNameList ''implements'') (\<lambda>implements.
       skip (Require ''{'') (into (While (\<lambda>p. \<not> AtMark ''}'' p)
         (\<lambda>m. decide (AtMark ''['') (AttributeMember m) (CodeMember m)) NoMembers) (\<lambda>m.
         skip (Require ''}'') (give \<lparr>cu_id = id, cu_name = name, cu_nameSpace = nameSpace, cu_implements = implements,
           cu_properties = mb_properties m, cu_procedures = mb_procedures m, cu_variables = mb_variables m,
           cu_labels = mb_labels m\<rparr>)))))"

definition InterfaceStep :: "string list \<times> procedure_decl list \<Rightarrow> (string list \<times> procedure_decl list) reading" where
  "InterfaceStep = (\<lambda>(attributes, procedures).
     decide (AtMark ''['') (into ReadAttribute (\<lambda>a. give (attributes @ [a], procedures)))
       (decide (AtWord ''procedure'')
         (into ParseSignature (\<lambda>procedure.
           let procedure = procedure\<lparr>pd_attributes := attributes\<rparr> in
           into (decide (\<lambda>p. AtWord ''var'' p \<or> AtWord ''begin'' p) (ReadBody procedure) (give procedure))
             (\<lambda>procedure. give ([], procedures @ [procedure]))))
         (skip Move (give (attributes, procedures)))))"

definition ParseInterface :: "interface_object reading" where
  "ParseInterface =
     into (ReadHeaderNamespace ''interface'') (\<lambda>nameSpace. skip (Require ''interface'')
       (into (\<lambda>p. if tk_kind (Here p) = IntegerToken then ExpectInteger p else give 0 p) (\<lambda>id.
         into ExpectName (\<lambda>name. into (ReadNameList ''extends'') (\<lambda>extends. skip (Require ''{'')
           (into (While NotClosed InterfaceStep ([], [])) (\<lambda>(attributes, procedures). skip (Require ''}'')
             (give \<lparr>if_id = id, if_name = name, if_nameSpace = nameSpace, if_extends = extends,
               if_procedures = procedures\<rparr>))))))))"

end
