(* ===== verification/PageObjects.thy ===== *)
theory PageObjects
  imports Objects
begin

text \<open>
  Pages and what is built like them, of \<^verbatim>\<open>src/src/al/Parser.cpp\<close>: controls with the triggers computed from their
  states, report layouts, pages, reports, XML ports, queries, profiles and the extensions; and the functions
  that parse a source text.
\<close>

section \<open>Controls\<close>

text \<open>The tokens behind the semicolon of a control's head, to the bracket that closes it.\<close>

definition ReadSource :: "token list reading" where
  "ReadSource =
     into (Loop snd (\<lambda>(source, depth) p. \<not> AtEndOfFile p \<and> (depth \<noteq> 0 \<or> \<not> AtMark '')'' p))
       (\<lambda>(source, depth) p. skip Move (give (source @ [Here p], Deeper ''('' '')'' p depth)) p) ([], 0))
       (\<lambda>(source, depth). give source)"

definition ParseControlHead :: "(string \<times> token list) reading" where
  "ParseControlHead =
     decide (AtMark ''('')
       (skip Move
         (into (decide (\<lambda>p. \<not> AtMark '')'' p) ExpectName (give [])) (\<lambda>name.
           into (decide (AtMark '';'') (skip Move ReadSource) (give [])) (\<lambda>source.
             skip (Require '')'') (give (name, source))))))
       (give ([], []))"

definition IsALiteralBoolean :: "token list \<Rightarrow> bool" where
  "IsALiteralBoolean value \<longleftrightarrow> length value = 1 \<and> tk_kind (hd value) = Identifier \<and>
     (SameName (tk_text (hd value)) ''true'' \<or> SameName (tk_text (hd value)) ''false'')"

definition states :: "string list" where
  "states = [''Visible'', ''Enabled'', ''Editable'']"

definition NewToken :: "token_kind \<Rightarrow> string \<Rightarrow> token" where
  "NewToken kind text = \<lparr>tk_kind = kind, tk_text = text, tk_line = 0, tk_column = 0\<rparr>"

definition NoVarTyped :: "string \<Rightarrow> var_decl" where
  "NoVarTyped type = VarDecl False False [] type [] 0 [] [] [] []"

text \<open>The trigger that computes a state from the value of its property.\<close>

definition ComputedState :: "string \<Rightarrow> property \<Rightarrow> procedure_decl reading" where
  "ComputedState state property =
     (let tokens = [NewToken Identifier ''exit'', NewToken Punctuation ''(''] @ pr_value property @
        [NewToken Punctuation '')'', NewToken Punctuation '';''] in
      into (Body tokens) (\<lambda>body.
        give (NoProcedure\<lparr>pd_isTrigger := True, pd_name := ''On'' @ state, pd_returnType := ''Boolean'',
          pd_returned := NoVarTyped ''Boolean'', pd_tokens := tokens, pd_body := body, pd_hasBody := True\<rparr>)))"

fun ComputedLoop :: "(property \<times> string) list \<Rightarrow> procedure_decl list \<Rightarrow> procedure_decl list reading" where
  "ComputedLoop [] triggers = give triggers"
| "ComputedLoop ((property, state) # rest) triggers =
     (if \<not> SameName (pr_name property) state \<or> IsALiteralBoolean (pr_value property) then ComputedLoop rest triggers
      else into (ComputedState state property) (\<lambda>computed. ComputedLoop rest (triggers @ [computed])))"

definition Computed :: "property list \<Rightarrow> procedure_decl list \<Rightarrow> procedure_decl list reading" where
  "Computed properties = ComputedLoop (List.product properties states)"

definition AtChild :: "token list \<Rightarrow> bool" where
  "AtChild p \<longleftrightarrow> tk_kind (Ahead p) = Punctuation \<and> (tk_text (Ahead p) = ''('' \<or> tk_text (Ahead p) = ''{'')"

fun ParseControlIn :: "nat \<Rightarrow> page_control reading" where
  "ParseControlIn 0 = (\<lambda>p. Inl Endless)"
| "ParseControlIn (Suc n) =
     into (\<lambda>p. skip Move (give (tk_text (Here p))) p) (\<lambda>kind. into ParseControlHead (\<lambda>(name, source).
       decide (AtMark '';'') (skip Move (give (PageControl kind name source [] [] [])))
         (decide (\<lambda>p. \<not> AtMark ''{'' p) (give (PageControl kind name source [] [] []))
           (skip (Require ''{'')
             (into (While NotClosed
               (\<lambda>(properties, triggers, children).
                  decide AtProcedure (into (ParseProcedure []) (\<lambda>t. give (properties, triggers @ [t], children)))
                    (decide AtChild (into (ParseControlIn n) (\<lambda>c. give (properties, triggers, children @ [c])))
                      (into ParseProperty (\<lambda>q. give (properties @ [q], triggers, children))))) ([], [], []))
              (\<lambda>(properties, triggers, children). into (Computed properties triggers) (\<lambda>triggers.
                skip (Require ''}'') (give (PageControl kind name source properties triggers children)))))))))"

definition ParseControl :: "page_control reading" where
  "ParseControl p = ParseControlIn (length p) p"

definition ParseControlsInto :: "page_control list \<Rightarrow> page_control list reading" where
  "ParseControlsInto controls =
     skip (Require ''{'')
       (into (While NotClosed (\<lambda>controls. into ParseControl (\<lambda>c. give (controls @ [c]))) controls)
         (\<lambda>controls. skip (Require ''}'') (give controls)))"

text \<open>Of controls with one name, up to case and punctuation, the first keeps its computed states.\<close>

definition StateKey :: "string \<Rightarrow> string" where
  "StateKey name = map to_lower (filter is_alnum name)"

definition IsComputedState :: "procedure_decl \<Rightarrow> bool" where
  "IsComputedState t \<longleftrightarrow> pd_isTrigger t \<and> pd_returnType t = ''Boolean'' \<and>
     pd_name t \<in> {''OnVisible'', ''OnEnabled'', ''OnEditable''}"

fun DropControl :: "string set \<Rightarrow> page_control \<Rightarrow> page_control \<times> string set"
  and DropRepeatedComputedStates :: "string set \<Rightarrow> page_control list \<Rightarrow> page_control list \<times> string set" where
  "DropControl seen (PageControl kind name source properties triggers children) =
     (let key = StateKey name; repeated = (name \<noteq> [] \<and> key \<in> seen);
          seen = (if name \<noteq> [] then insert key seen else seen);
          triggers = (if repeated then filter (\<lambda>t. \<not> IsComputedState t) triggers else triggers);
          (children, seen) = DropRepeatedComputedStates seen children in
      (PageControl kind name source properties triggers children, seen))"
| "DropRepeatedComputedStates seen [] = ([], seen)"
| "DropRepeatedComputedStates seen (c # cs) =
     (let (c, seen) = DropControl seen c; (cs, seen) = DropRepeatedComputedStates seen cs in (c # cs, seen))"

section \<open>Report layouts\<close>

definition ValidateLayout :: "report_layout_decl \<Rightarrow> object_error + unit" where
  "ValidateLayout layout =
     (let valid_type = (case FindProperty (rl_properties layout) ''Type'' of
            None \<Rightarrow> False
          | Some q \<Rightarrow> length (pr_value q) = 1 \<and> tk_kind (hd (pr_value q)) = Identifier \<and>
              list_ex (SameName (pr_text q)) [''RDLC'', ''Word'', ''Excel'', ''Custom'']);
          valid_file = (case FindProperty (rl_properties layout) ''LayoutFile'' of
            None \<Rightarrow> False
          | Some q \<Rightarrow> length (pr_value q) = 1 \<and> tk_kind (hd (pr_value q)) = StringToken \<and> pr_text q \<noteq> []) in
      if \<not> valid_type then Inl (Refused (''report layout '' @ quoted (rl_name layout) @ '' requires a valid Type''))
      else if \<not> valid_file then
        Inl (Refused (''report layout '' @ quoted (rl_name layout) @ '' requires a nonempty LayoutFile''))
      else Inr ())"

definition ReadLayout :: "report_layout_owner \<Rightarrow> report_layout_decl reading" where
  "ReadLayout owner =
     skip (Require ''layout'') (skip (Require ''('') (into ExpectName (\<lambda>name. skip (Require '')'') (skip (Require ''{'')
       (into (While NotClosed (\<lambda>ps. into ParseProperty (\<lambda>q. give (ps @ [q]))) []) (\<lambda>properties.
         skip (Require ''}'') (give \<lparr>rl_name = name, rl_properties = properties, rl_owner = owner\<rparr>)))))))"

definition LayoutStep :: "report_layout_owner \<Rightarrow> report_layout_decl list \<Rightarrow> report_layout_decl list reading" where
  "LayoutStep owner layouts =
     into (ReadLayout owner) (\<lambda>layout. skip (lift (ValidateLayout layout))
       (if list_ex (\<lambda>one. SameName (rl_name one) (rl_name layout)) layouts then
          refuse (''duplicate report layout '' @ quoted (rl_name layout))
        else give (layouts @ [layout])))"

definition ParseRendering :: "report_layout_owner \<Rightarrow> report_layout_decl list \<Rightarrow> report_layout_decl list reading" where
  "ParseRendering owner layouts =
     skip (Require ''{'')
       (into (While NotClosed (LayoutStep owner) layouts) (\<lambda>layouts. skip (Require ''}'') (give layouts)))"

section \<open>Pages\<close>

definition PageMember :: "(members \<Rightarrow> members reading) \<Rightarrow> string list \<times> page_object \<Rightarrow>
    (string list \<times> page_object) reading" where
  "PageMember member = (\<lambda>(attributes, object).
     into (member \<lparr>mb_attributes = attributes, mb_labels = pg_labels object, mb_variables = pg_variables object,
         mb_procedures = pg_procedures object, mb_properties = pg_properties object\<rparr>)
       (\<lambda>m. give (mb_attributes m, object\<lparr>pg_labels := mb_labels m, pg_variables := mb_variables m,
         pg_procedures := mb_procedures m, pg_properties := mb_properties m\<rparr>)))"

definition PageStep :: "string list \<times> page_object \<Rightarrow> (string list \<times> page_object) reading" where
  "PageStep = (\<lambda>(attributes, object).
     decide (AtMark ''['') (PageMember AttributeMember (attributes, object))
       (decide (AtWord ''layout'') (skip Move (into (ParseControlsInto (pg_layout object))
          (\<lambda>cs. give (attributes, object\<lparr>pg_layout := cs\<rparr>))))
         (decide (AtWord ''actions'') (skip Move (into (ParseControlsInto (pg_actions object))
            (\<lambda>cs. give (attributes, object\<lparr>pg_actions := cs\<rparr>))))
           (decide (AtWord ''views'') (skip Move (into (ParseControlsInto (pg_views object))
              (\<lambda>cs. give (attributes, object\<lparr>pg_views := cs\<rparr>))))
             (PageMember BlockMember (attributes, object))))))"

definition ParsePageBody :: "page_object \<Rightarrow> page_object reading" where
  "ParsePageBody object =
     skip (Require ''{'')
       (into (While NotClosed PageStep ([], object)) (\<lambda>(attributes, object). skip (Require ''}'') (give object)))"

definition ParsePage :: "page_object reading" where
  "ParsePage =
     into (ReadHeader ''page'') (\<lambda>(nameSpace, id, name).
       into (ParsePageBody (NoPage\<lparr>pg_nameSpace := nameSpace, pg_id := id, pg_name := name\<rparr>)) (\<lambda>object.
         let (layout, seen) = DropRepeatedComputedStates {} (pg_layout object);
             (actions, seen) = DropRepeatedComputedStates seen (pg_actions object) in
         give (object\<lparr>pg_layout := layout, pg_actions := actions\<rparr>)))"

section \<open>Reports, XML ports, queries and profiles\<close>

text \<open>The pass over the tokens that gives an object's own instance the name the writers know.\<close>

definition Renamed :: "string list \<Rightarrow> string \<Rightarrow> token list \<Rightarrow> token list" where
  "Renamed names name = map (\<lambda>t.
     if tk_kind t = Identifier \<and> list_ex (IsKeyword t) names then t\<lparr>tk_text := name\<rparr> else t)"

definition RequestPage :: "string list \<times> page_object \<Rightarrow> (string list \<times> page_object) reading" where
  "RequestPage = (\<lambda>(attributes, object). skip Move (into (ParsePageBody object) (\<lambda>object. give (attributes, object))))"

definition Dataset :: "string list \<times> page_object \<Rightarrow> (string list \<times> page_object) reading" where
  "Dataset = (\<lambda>(attributes, object).
     skip Move (into (ParseControlsInto (pg_dataset object)) (\<lambda>cs. give (attributes, object\<lparr>pg_dataset := cs\<rparr>))))"

definition Rendering :: "report_layout_owner \<Rightarrow> string list \<times> page_object \<Rightarrow> (string list \<times> page_object) reading" where
  "Rendering owner = (\<lambda>(attributes, object). skip Move
     (into (ParseRendering owner (pg_rendering object)) (\<lambda>layouts. give (attributes, object\<lparr>pg_rendering := layouts\<rparr>))))"

definition ReportStep :: "report_layout_owner \<Rightarrow> string list \<times> page_object \<Rightarrow> (string list \<times> page_object) reading" where
  "ReportStep owner s =
     decide (AtMark ''['') (PageMember AttributeMember s)
       (decide (AtWord ''dataset'') (Dataset s)
         (decide (AtWord ''requestpage'') (RequestPage s)
           (decide (AtWord ''rendering'') (Rendering owner s) (PageMember BlockMember s))))"

definition ParseReport :: "page_object reading" where
  "ParseReport p =
     into (ReadHeader ''report'') (\<lambda>(nameSpace, id, name).
       skip (Require ''{'')
         (into (While NotClosed
            (ReportStep \<lparr>lo_id = id, lo_extension = False, lo_name = name, lo_nameSpace = nameSpace, lo_appId = [], lo_source = []\<rparr>)
            ([], NoPage\<lparr>pg_report := True, pg_nameSpace := nameSpace, pg_id := id, pg_name := name\<rparr>))
          (\<lambda>(attributes, object). skip (Require ''}'') (give object))))
       (Renamed [''CurrReport'', ''RequestOptionsPage''] ''CurrPage'' p)"

definition XmlPortStep :: "string list \<times> page_object \<Rightarrow> (string list \<times> page_object) reading" where
  "XmlPortStep s =
     decide (AtMark ''['') (PageMember AttributeMember s)
       (decide (AtWord ''schema'') (Dataset s)
         (decide (AtWord ''requestpage'') (RequestPage s) (PageMember BlockMember s)))"

definition ParseXmlPort :: "page_object reading" where
  "ParseXmlPort p =
     into (ReadHeader ''xmlport'') (\<lambda>(nameSpace, id, name).
       skip (Require ''{'')
         (into (While NotClosed XmlPortStep
            ([], NoPage\<lparr>pg_xmlport := True, pg_nameSpace := nameSpace, pg_id := id, pg_name := name\<rparr>))
          (\<lambda>(attributes, object). skip (Require ''}'') (give object))))
       (Renamed [''currXMLport''] ''CurrPage'' p)"

definition QueryStep :: "page_control list \<times> members \<Rightarrow> (page_control list \<times> members) reading" where
  "QueryStep = (\<lambda>(elements, m).
     decide (AtMark ''['') (into (AttributeMember m) (\<lambda>m. give (elements, m)))
       (decide (AtWord ''elements'') (skip Move (into (ParseControlsInto elements) (\<lambda>cs. give (cs, m))))
         (into (BlockMember m) (\<lambda>m. give (elements, m)))))"

definition ParseQuery :: "query_object reading" where
  "ParseQuery p =
     into (ReadHeader ''query'') (\<lambda>(nameSpace, id, name).
       skip (Require ''{'')
         (into (While NotClosed QueryStep ([], NoMembers)) (\<lambda>(elements, m). skip (Require ''}'')
           (give \<lparr>qu_id = id, qu_name = name, qu_nameSpace = nameSpace, qu_properties = mb_properties m,
             qu_elements = elements, qu_procedures = mb_procedures m, qu_variables = mb_variables m,
             qu_labels = mb_labels m\<rparr>))))
       (Renamed [''CurrQuery''] ''Rec'' p)"

definition ParseProfile :: "profile_object reading" where
  "ParseProfile =
     into (ReadHeaderNamespace ''profile'') (\<lambda>nameSpace. skip (Require ''profile'') (into ExpectName (\<lambda>name.
       skip (Require ''{'')
         (into (While NotClosed
            (\<lambda>ps. decide AtBlock (skip Move (skip SkipBracedBlock (give ps)))
              (into ParseProperty (\<lambda>q. give (ps @ [q])))) [])
          (\<lambda>properties. skip (Require ''}'')
            (give \<lparr>pf_name = name, pf_nameSpace = nameSpace, pf_properties = properties\<rparr>))))))"

section \<open>Extensions\<close>

definition ParsePageExtension :: "page_extension_object reading" where
  "ParsePageExtension =
     into (ReadHeader ''pageextension'') (\<lambda>(nameSpace, id, name). into ReadExtended (\<lambda>extends.
       into (ParsePageBody NoPage) (\<lambda>body.
         give \<lparr>px_id = id, px_name = name, px_extends = extends, px_nameSpace = nameSpace, px_layout = pg_layout body,
           px_actions = pg_actions body, px_dataset = [], px_procedures = pg_procedures body,
           px_variables = pg_variables body, px_labels = pg_labels body, px_rendering = []\<rparr>)))"

text \<open>A request page of an extension is read on its own and added to what is there.\<close>

definition AddRequestPage :: "page_object \<Rightarrow> page_object \<Rightarrow> page_object" where
  "AddRequestPage object body =
     object\<lparr>pg_layout := pg_layout object @ pg_layout body, pg_actions := pg_actions object @ pg_actions body,
       pg_procedures := pg_procedures object @ pg_procedures body, pg_variables := pg_variables object @ pg_variables body,
       pg_labels := pg_labels object @ pg_labels body\<rparr>"

definition ReportExtensionStep :: "report_layout_owner \<Rightarrow> string list \<times> page_object \<Rightarrow>
    (string list \<times> page_object) reading" where
  "ReportExtensionStep owner = (\<lambda>(attributes, object).
     decide (AtMark ''['') (PageMember AttributeMember (attributes, object))
       (decide (AtWord ''dataset'') (Dataset (attributes, object))
         (decide (AtWord ''requestpage'')
           (skip Move (into (ParsePageBody NoPage) (\<lambda>body. give (attributes, AddRequestPage object body))))
           (decide (AtWord ''rendering'') (Rendering owner (attributes, object))
             (PageMember BlockMember (attributes, object))))))"

definition ParseReportExtension :: "page_extension_object reading" where
  "ParseReportExtension p =
     into (ReadHeader ''reportextension'') (\<lambda>(nameSpace, id, name). into ReadExtended (\<lambda>extends.
       skip (Require ''{'')
         (into (While NotClosed
            (ReportExtensionStep \<lparr>lo_id = id, lo_extension = True, lo_name = name, lo_nameSpace = nameSpace, lo_appId = [], lo_source = []\<rparr>)
            ([], NoPage))
          (\<lambda>(attributes, object). skip (Require ''}'')
            (give \<lparr>px_id = id, px_name = name, px_extends = extends, px_nameSpace = nameSpace, px_layout = pg_layout object,
              px_actions = pg_actions object, px_dataset = pg_dataset object, px_procedures = pg_procedures object,
              px_variables = pg_variables object, px_labels = pg_labels object, px_rendering = pg_rendering object\<rparr>)))))
       (Renamed [''CurrReport'', ''RequestOptionsPage''] ''CurrPage'' p)"

section \<open>Source texts\<close>

text \<open>\<open>Parser(Tokenize(source))\<close>: a reading of an empty vector looks at its back, which is undefined.\<close>

definition FromSource :: "'a reading \<Rightarrow> string \<Rightarrow> object_error + 'a" where
  "FromSource parse source =
     (case Tokenize source of
        Inl e \<Rightarrow> Inl (NotLexed e)
      | Inr tokens \<Rightarrow> if tokens = [] then Inl UndefinedToken else andThen (parse tokens) (\<lambda>(a, p). Inr a))"

definition ParseTableSource :: "string \<Rightarrow> object_error + table_object" where
  "ParseTableSource = FromSource ParseTable"

definition ParseCodeunitSource :: "string \<Rightarrow> object_error + codeunit_object" where
  "ParseCodeunitSource = FromSource ParseCodeunit"

definition ParseEnumSource :: "string \<Rightarrow> object_error + enum_object" where
  "ParseEnumSource = FromSource ParseEnum"

definition ParseInterfaceSource :: "string \<Rightarrow> object_error + interface_object" where
  "ParseInterfaceSource = FromSource ParseInterface"

definition ParsePageSource :: "string \<Rightarrow> object_error + page_object" where
  "ParsePageSource = FromSource ParsePage"

definition ParseQuerySource :: "string \<Rightarrow> object_error + query_object" where
  "ParseQuerySource = FromSource ParseQuery"

definition ParseReportSource :: "string \<Rightarrow> object_error + page_object" where
  "ParseReportSource = FromSource ParseReport"

definition ParseXmlPortSource :: "string \<Rightarrow> object_error + page_object" where
  "ParseXmlPortSource = FromSource ParseXmlPort"

definition ParseReportExtensionSource :: "string \<Rightarrow> object_error + page_extension_object" where
  "ParseReportExtensionSource = FromSource ParseReportExtension"

definition ParseProfileSource :: "string \<Rightarrow> object_error + profile_object" where
  "ParseProfileSource = FromSource ParseProfile"

definition ParseTableExtensionSource :: "string \<Rightarrow> object_error + table_extension_object" where
  "ParseTableExtensionSource = FromSource ParseTableExtension"

definition ParseEnumExtensionSource :: "string \<Rightarrow> object_error + enum_extension_object" where
  "ParseEnumExtensionSource = FromSource ParseEnumExtension"

definition ParsePageExtensionSource :: "string \<Rightarrow> object_error + page_extension_object" where
  "ParsePageExtensionSource = FromSource ParsePageExtension"

end
