(* ===== verification/ObjectFacts.thy ===== *)
theory ObjectFacts
  imports PageObjects
begin

text \<open>
  The parsers of \<^verbatim>\<open>src/src/al/Parser.cpp\<close> return: over tokens that end with \<open>EndOfFile\<close> every loop consumes a token
  an iteration. \<open>stays\<close> is what every reading keeps, \<open>consumes\<close> what the readings do that loops repeat; both are shown
  reading by reading, by the rules for how readings are composed.
\<close>

section \<open>Readings that return\<close>

definition ended :: "token list \<Rightarrow> bool" where
  "ended p \<longleftrightarrow> p \<noteq> [] \<and> tk_kind (List.last p) = EndOfFile"

definition stays :: "token list \<Rightarrow> object_error + 'a \<times> token list \<Rightarrow> bool" where
  "stays p r \<longleftrightarrow> (case r of
     Inl e \<Rightarrow> e \<noteq> Endless \<and> e \<noteq> UndefinedToken
   | Inr (a, q) \<Rightarrow> ended q \<and> length q \<le> length p)"

definition consumes :: "token list \<Rightarrow> object_error + 'a \<times> token list \<Rightarrow> bool" where
  "consumes p r \<longleftrightarrow> (case r of
     Inl e \<Rightarrow> e \<noteq> Endless \<and> e \<noteq> UndefinedToken
   | Inr (a, q) \<Rightarrow> ended q \<and> length q < length p)"

named_theorems stays_intros \<open>readings that stay\<close>
named_theorems consumes_intros \<open>readings that consume a token\<close>

lemma consumes_stays: "consumes p r \<Longrightarrow> stays p r"
  by (auto simp: consumes_def stays_def split: sum.splits)

lemma stays_longer: "stays q r \<Longrightarrow> length q \<le> length p \<Longrightarrow> stays p r"
  by (fastforce simp: stays_def split: sum.splits)

lemma consumes_longer: "consumes q r \<Longrightarrow> length q \<le> length p \<Longrightarrow> consumes p r"
  by (fastforce simp: consumes_def split: sum.splits)

lemma consumes_after: "stays q r \<Longrightarrow> length q < length p \<Longrightarrow> consumes p r"
  by (fastforce simp: consumes_def stays_def split: sum.splits)

lemma give_stays [stays_intros]: "ended p \<Longrightarrow> stays p (give a p)"
  by (simp add: give_def stays_def)

lemma refuse_consumes [consumes_intros, stays_intros]: "consumes p (refuse m p)" "stays p (refuse m p)"
  by (simp_all add: refuse_def consumes_def stays_def)

lemma Inr_stays [stays_intros]: "ended p \<Longrightarrow> stays p (Inr (a, p))"
  by (simp add: stays_def)

lemma Inl_consumes [consumes_intros, stays_intros]:
  "e \<noteq> Endless \<Longrightarrow> e \<noteq> UndefinedToken \<Longrightarrow> consumes p (Inl e)"
  "e \<noteq> Endless \<Longrightarrow> e \<noteq> UndefinedToken \<Longrightarrow> stays p (Inl e)"
  by (simp_all add: consumes_def stays_def)

lemma into_stays:
  assumes "stays p (m p)" "\<And>a q. ended q \<Longrightarrow> length q \<le> length p \<Longrightarrow> stays q (f a q)"
  shows "stays p (into m f p)"
proof (cases "m p")
  case (Inr x)
  obtain a q where x: "x = (a, q)" by (cases x)
  have "ended q" "length q \<le> length p" using assms(1) Inr x by (simp_all add: stays_def)
  with assms(2) [of q a] stays_longer show ?thesis using Inr x by (auto simp: into_def)
qed (use assms(1) in \<open>simp add: into_def stays_def\<close>)

lemma into_consumes:
  assumes "stays p (m p)" "\<And>a q. ended q \<Longrightarrow> length q \<le> length p \<Longrightarrow> consumes q (f a q)"
  shows "consumes p (into m f p)"
proof (cases "m p")
  case (Inr x)
  obtain a q where x: "x = (a, q)" by (cases x)
  have "ended q" "length q \<le> length p" using assms(1) Inr x by (simp_all add: stays_def)
  with assms(2) [of q a] consumes_longer show ?thesis using Inr x by (auto simp: into_def)
qed (use assms(1) in \<open>simp add: into_def stays_def consumes_def\<close>)

lemma into_consumed:
  assumes "consumes p (m p)" "\<And>a q. ended q \<Longrightarrow> length q < length p \<Longrightarrow> stays q (f a q)"
  shows "consumes p (into m f p)"
proof (cases "m p")
  case (Inr x)
  obtain a q where x: "x = (a, q)" by (cases x)
  have "ended q" "length q < length p" using assms(1) Inr x by (simp_all add: consumes_def)
  with assms(2) [of q a] consumes_after show ?thesis using Inr x by (auto simp: into_def)
qed (use assms(1) in \<open>simp add: into_def consumes_def\<close>)

lemmas skip_stays = into_stays [where f = "\<lambda>_. n" for n, folded skip_def]
lemmas skip_consumes = into_consumes [where f = "\<lambda>_. n" for n, folded skip_def]
lemmas skip_consumed = into_consumed [where f = "\<lambda>_. n" for n, folded skip_def]

lemma decide_stays:
  "(c p \<Longrightarrow> stays p (m p)) \<Longrightarrow> (\<not> c p \<Longrightarrow> stays p (n p)) \<Longrightarrow> stays p (decide c m n p)"
  "(c p \<Longrightarrow> consumes p (m p)) \<Longrightarrow> (\<not> c p \<Longrightarrow> consumes p (n p)) \<Longrightarrow> consumes p (decide c m n p)"
  by (simp_all add: decide_def)

lemma if_stays:
  "(c \<Longrightarrow> stays p r) \<Longrightarrow> (\<not> c \<Longrightarrow> stays p s) \<Longrightarrow> stays p (if c then r else s)"
  "(c \<Longrightarrow> consumes p r) \<Longrightarrow> (\<not> c \<Longrightarrow> consumes p s) \<Longrightarrow> consumes p (if c then r else s)"
  by simp_all

lemma ifm_stays:
  "(c \<Longrightarrow> stays p (m p)) \<Longrightarrow> (\<not> c \<Longrightarrow> stays p (n p)) \<Longrightarrow> stays p ((if c then m else n) p)"
  "(c \<Longrightarrow> consumes p (m p)) \<Longrightarrow> (\<not> c \<Longrightarrow> consumes p (n p)) \<Longrightarrow> consumes p ((if c then m else n) p)"
  by simp_all

lemma pair_stays:
  "(\<And>a b. x = (a, b) \<Longrightarrow> stays p (f a b p)) \<Longrightarrow> stays p ((case x of (a, b) \<Rightarrow> f a b) p)"
  "(\<And>a b. x = (a, b) \<Longrightarrow> consumes p (f a b p)) \<Longrightarrow> consumes p ((case x of (a, b) \<Rightarrow> f a b) p)"
  by (auto split: prod.splits)

lemmas composed_stays = into_stays skip_stays decide_stays(1) if_stays(1) ifm_stays(1) pair_stays(1)
lemmas composed_consumes = decide_stays(2) if_stays(2) ifm_stays(2) pair_stays(2)

lemma Loop_stays:
  assumes "ended p"
    and "\<And>a q. ended q \<Longrightarrow> length q \<le> length p \<Longrightarrow> going a q \<Longrightarrow> stays q (body a q)"
    and "\<And>a q b r. ended q \<Longrightarrow> length q \<le> length p \<Longrightarrow> going a q \<Longrightarrow> body a q = Inr (b, r) \<Longrightarrow> length r < length q \<or> rank b < rank a"
  shows "stays p (Loop rank going body a p)"
  using assms
proof (induction rank going body a p rule: Loop.induct)
  case (1 rank going body a p)
  note loop = Loop.simps [of rank going body a p]
  show ?case
  proof (cases "going a p")
    case True
    have s: "stays p (body a p)" using "1.prems"(1,2) True by simp
    show ?thesis
    proof (cases "body a p")
      case (Inl e)
      then have "Loop rank going body a p = Inl e" by (subst loop) (simp add: True)
      then show ?thesis using s Inl by (simp add: stays_def)
    next
      case (Inr x)
      obtain b r where x: "x = (b, r)" by (cases x)
      have r: "ended r" "length r \<le> length p" using s Inr x by (simp_all add: stays_def)
      have "length r < length p \<or> rank b < rank a" using "1.prems"(1,3) True Inr x by blast
      then have go: "length r < length p \<or> length r = length p \<and> rank b < rank a" using r(2) by linarith
      have eq: "Loop rank going body a p = Loop rank going body b r"
        by (subst loop) (simp add: True Inr x go)
      have "stays r (Loop rank going body b r)"
      proof (rule "1.IH" [OF _ Inr x [symmetric] go r(1)])
        show "\<not> \<not> going a p" using True by simp
        show "stays q (body c q)" if "ended q" "length q \<le> length r" "going c q" for c q
          using "1.prems"(2) that r(2) by simp
        show "length t < length q \<or> rank d < rank c"
          if "ended q" "length q \<le> length r" "going c q" "body c q = Inr (d, t)" for c q d t
          using "1.prems"(3) that r(2) by (meson le_trans)
      qed
      then show ?thesis unfolding eq using r(2) by (rule stays_longer)
    qed
  next
    case False
    then have "Loop rank going body a p = Inr (a, p)" by (subst loop) simp
    then show ?thesis using "1.prems"(1) by (simp add: stays_def)
  qed
qed

lemma While_stays:
  assumes "ended p" "\<And>a q. ended q \<Longrightarrow> length q \<le> length p \<Longrightarrow> going q \<Longrightarrow> consumes q (body a q)"
  shows "stays p (While going body a p)"
  unfolding While_def
proof (rule Loop_stays [OF assms(1)])
  have *: "consumes q (body a q)" if "ended q" "length q \<le> length p" "going q" for a q using assms(2) that .
  show "stays q (body a q)" if "ended q" "length q \<le> length p" "going q" for a q
    by (rule consumes_stays [OF * [OF that]])
  show "length r < length q \<or> (0 :: nat) < 0" if "ended q" "length q \<le> length p" "going q" "body a q = Inr (b, r)" for a q b r
    using * [OF that(1-3), of a] that(4) by (simp add: consumes_def)
qed

section \<open>The cursor\<close>

lemma not_end [simp]:
  "AtWord w p \<Longrightarrow> \<not> AtEndOfFile p" "AtMark m p \<Longrightarrow> \<not> AtEndOfFile p" "AtName p \<Longrightarrow> \<not> AtEndOfFile p"
  "AtBlock p \<Longrightarrow> \<not> AtEndOfFile p" "AtProcedure p \<Longrightarrow> \<not> AtEndOfFile p" "AtProtectedVar p \<Longrightarrow> \<not> AtEndOfFile p"
  "tk_kind (Here p) = IntegerToken \<Longrightarrow> \<not> AtEndOfFile p" "NotClosed p \<Longrightarrow> \<not> AtEndOfFile p" "AtVariables p \<Longrightarrow> \<not> AtEndOfFile p"
  by (auto simp: AtWord_def AtMark_def AtName_def AtBlock_def AtProcedure_def AtProtectedVar_def AtEndOfFile_def NotClosed_def
    AtVariables_def IsKeyword_def IsPunctuation_def)

lemma Onward_ended: "ended p \<Longrightarrow> ended (Onward p)" "length (Onward p) \<le> length p"
  by (cases p; auto simp: ended_def Onward_def)+

lemma Onward_shorter: "ended p \<Longrightarrow> \<not> AtEndOfFile p \<Longrightarrow> length (Onward p) < length p"
  by (cases p) (auto simp: ended_def Onward_def AtEndOfFile_def)

lemma Move_stays [stays_intros]: "ended p \<Longrightarrow> stays p (Move p)"
  by (simp add: Move_def stays_def Onward_ended)

lemma Move_consumes [consumes_intros]: "ended p \<Longrightarrow> \<not> AtEndOfFile p \<Longrightarrow> consumes p (Move p)"
  by (simp add: Move_def consumes_def Onward_ended Onward_shorter)

lemma Inr_Onward_stays [stays_intros]: "ended p \<Longrightarrow> stays p (Inr (a, Onward p))"
  by (simp add: stays_def Onward_ended)

lemma into_decide: "into (decide c m n) f p = (if c p then into m f p else into n f p)"
  by (simp add: into_def decide_def)

lemma into_give: "into (give a) f p = f a p"
  by (simp add: into_def give_def)

lemma Require_consumes [consumes_intros]: "ended p \<Longrightarrow> consumes p (Require what p)"
  using Move_consumes [of p] by (auto simp: Require_def consumes_def)

lemma stoi_error: "stoi s = Inl e \<Longrightarrow> e \<noteq> Endless \<and> e \<noteq> UndefinedToken"
  by (auto simp: stoi_def Let_def split: if_splits)

lemma ExpectInteger_consumes [consumes_intros]: "ended p \<Longrightarrow> consumes p (ExpectInteger p)"
  using Move_consumes [of p] stoi_error [of "tk_text (Here p)"]
  by (cases "stoi (tk_text (Here p))")
    (auto simp: ExpectInteger_def skip_def into_def give_def Move_def consumes_def)

lemma ExpectName_consumes [consumes_intros]: "ended p \<Longrightarrow> consumes p (ExpectName p)"
  using Move_consumes [of p] by (auto simp: ExpectName_def skip_def into_def give_def Move_def consumes_def)

lemmas cursor_stays [stays_intros] =
  consumes_stays [OF Require_consumes] consumes_stays [OF ExpectInteger_consumes] consumes_stays [OF ExpectName_consumes]

lemmas stays_rules = composed_stays stays_intros
lemmas consumes_rules = composed_consumes consumes_intros

lemma Optional_stays [stays_intros]: "ended p \<Longrightarrow> stays p (Optional m p)"
  unfolding Optional_def by (auto intro!: composed_stays intro: stays_intros)

lemma moved_consumes [consumes_intros]:
  assumes "ended p" "\<not> AtEndOfFile p" "\<And>q. ended q \<Longrightarrow> length q < length p \<Longrightarrow> stays q (m q)"
  shows "consumes p (skip Move m p)"
  using assms by (intro skip_consumed Move_consumes)

lemma SkipTo_stays [stays_intros]: "ended p \<Longrightarrow> stays p (SkipTo m p)"
  unfolding SkipTo_def by (auto intro!: While_stays Move_consumes)

text \<open>A loop that moves on once an iteration, whatever it counts.\<close>

lemma counting_stays:
  assumes "ended p" "\<And>a q. going a q \<Longrightarrow> \<not> AtEndOfFile q" "\<And>a q. \<exists>b. body a q = Inr (b, Onward q)"
  shows "stays p (Loop rank going body a p)"
proof (rule Loop_stays [OF assms(1)])
  show "stays q (body a q)" if "ended q" for a q
    using assms(3) [of a q] that by (auto intro: stays_intros)
  show "length r < length q \<or> rank b < rank a" if "ended q" "going a q" "body a q = Inr (b, r)" for a q b r
    using assms(2) [OF that(2)] assms(3) [of a q] that(3) Onward_shorter [OF that(1)] by auto
qed

lemmas moved = skip_def into_def Move_def give_def

lemma SkipNested_stays [stays_intros]: "ended p \<Longrightarrow> stays p (SkipNested opening closing d p)"
  unfolding SkipNested_def by (rule counting_stays) (simp_all add: moved)

lemma SkipBracedBlock_consumes [consumes_intros]: "ended p \<Longrightarrow> consumes p (SkipBracedBlock p)"
  unfolding SkipBracedBlock_def by (auto intro!: skip_consumed Require_consumes skip_stays intro: stays_intros)

lemma namespace_consumes:
  assumes "ended q" "\<not> AtEndOfFile q" "\<And>r. ended r \<Longrightarrow> stays r (m r)"
  shows "consumes q (into (decide (AtWord w) (skip Move m) (give d)) (\<lambda>d. skip Move (give d)) q)"
  unfolding into_decide into_give using assms
  by (auto intro!: if_stays into_consumed moved_consumes skip_stays intro: stays_intros)

lemma ReadHeaderNamespace_stays [stays_intros]: "ended p \<Longrightarrow> stays p (ReadHeaderNamespace w p)"
  unfolding ReadHeaderNamespace_def
  by (auto intro!: into_stays decide_stays While_stays namespace_consumes moved_consumes intro: stays_intros)

section \<open>Attributes, types and variables\<close>

lemma ReadAttribute_consumes [consumes_intros]: "ended p \<Longrightarrow> consumes p (ReadAttribute p)"
  unfolding ReadAttribute_def
  by (rule skip_consumed, erule Require_consumes, rule into_stays, rule counting_stays)
    (auto simp: Let_def moved intro: stays_intros)

lemma PassAttribute_consumes [consumes_intros]: "ended p \<Longrightarrow> \<not> AtEndOfFile p \<Longrightarrow> consumes p (PassAttribute p)"
  unfolding PassAttribute_def by (auto intro!: into_consumed moved_consumes skip_stays intro: stays_intros)

lemma VariableFollowsAttribute_error:
  assumes "ended p" "VariableFollowsAttribute p = Inl e"
  shows "e \<noteq> Endless \<and> e \<noteq> UndefinedToken"
proof -
  let ?m = "into (While (AtMark ''['') (\<lambda>_. PassAttribute) ())
         (\<lambda>_. into (Loop (\<lambda>answer. if answer = None then 1 else 0) (\<lambda>answer p. answer = None \<and> AtName p)
            (\<lambda>_ p.
               if IsPunctuation (Ahead p) '':'' then Inr (Some True, p)
               else if \<not> IsPunctuation (Ahead p) '','' then Inr (Some False, p)
               else skip Move (skip Move (give None)) p) None)
            (\<lambda>answer. give (answer = Some True))) p"
  have step: "length r < length q \<or> (if b = None then 1 else 0) < (if a = None then 1 else (0 :: nat))"
    if "ended q" "a = None \<and> AtName q" "(if IsPunctuation (Ahead q) '':'' then Inr (Some True, q)
               else if \<not> IsPunctuation (Ahead q) '','' then Inr (Some False, q)
               else skip Move (skip Move (give None)) q) = Inr (b, r)" for a q b r
  proof -
    have "length (Onward (Onward q)) < length q"
      using that Onward_shorter [of q] Onward_ended [of q] Onward_ended [of "Onward q"] by (auto intro: le_less_trans)
    then show ?thesis using that by (auto simp: skip_def into_def Move_def give_def split: if_splits)
  qed
  have "stays p ?m"
    by (rule into_stays, rule While_stays [OF assms(1)], rule PassAttribute_consumes, assumption, simp,
      rule into_stays, rule Loop_stays, assumption)
      (use step in \<open>auto intro!: if_stays skip_stays intro: stays_intros\<close>)
  then show ?thesis using assms(2) by (auto simp: VariableFollowsAttribute_def stays_def split: sum.splits)
qed

lemma ReadOptionMembers_stays [stays_intros]: "ended p \<Longrightarrow> stays p (ReadOptionMembers p)"
  unfolding ReadOptionMembers_def
  by (auto intro!: into_stays pair_stays While_stays if_stays moved_consumes intro: stays_intros simp: AtName_def)

lemma ReadDotted_consumes [consumes_intros]: "ended p \<Longrightarrow> consumes p (ReadDotted p)"
  unfolding ReadDotted_def by (auto intro!: into_consumed ExpectName_consumes While_stays moved_consumes intro: stays_intros)

lemmas dotted_stays [stays_intros] = consumes_stays [OF ReadDotted_consumes]

lemma ReadSubtypeName_stays [stays_intros]: "ended p \<Longrightarrow> stays p (ReadSubtypeName p)"
  unfolding ReadSubtypeName_def by (auto intro!: if_stays skip_stays intro: stays_intros)

lemma ReadDimensions_stays [stays_intros]: "ended p \<Longrightarrow> stays p (ReadDimensions p)"
  unfolding ReadDimensions_def
  by (auto intro!: While_stays moved_consumes into_stays decide_stays skip_stays if_stays into_consumed ExpectInteger_consumes
    intro: stays_intros)

lemma ReadLength_stays [stays_intros]: "ended p \<Longrightarrow> stays p (ReadLength p)"
  unfolding ReadLength_def by (auto intro!: skip_stays into_stays if_stays intro: stays_intros)

lemma ReadTemporary_stays [stays_intros]: "ended p \<Longrightarrow> stays p (ReadTemporary p)"
  unfolding ReadTemporary_def by (auto intro!: While_stays moved_consumes intro: stays_intros)

lemma ReadTypeIn_consumes: "ended p \<Longrightarrow> length p \<le> n \<Longrightarrow> consumes p (ReadTypeIn n p)"
proof (induction n arbitrary: p)
  case 0
  then show ?case by (simp add: ended_def)
next
  case (Suc n)
  have arguments: "consumes q (decide (AtMark '','') (skip Move (give as)) (into (ReadTypeIn n) (\<lambda>a. give (as @ [a]))) q)"
    if "ended q" "length q < length p" "\<not> AtEndOfFile q" for q as
    using that Suc by (auto intro!: decide_stays moved_consumes into_consumed intro: stays_intros)
  have "stays q (into (While (\<lambda>p. \<not> AtEndOfFile p \<and> \<not> AtMark '']'' p)
      (\<lambda>as. decide (AtMark '','') (skip Move (give as)) (into (ReadTypeIn n) (\<lambda>a. give (as @ [a])))) [])
      (\<lambda>as. skip (Require '']'') (give (VarDecl False False [] type [] 0 [] as dimensions []))) q)"
    if "ended q" "length q < length p" for q type dimensions
    using that arguments by (auto intro!: into_stays While_stays skip_stays intro: stays_intros)
  note list = this
  show ?case
    unfolding ReadTypeIn.simps
    by (rule into_consumes, rule ReadDimensions_stays, rule Suc.prems, rule into_consumed, erule ExpectName_consumes)
      (auto intro!: decide_stays ifm_stays into_stays pair_stays skip_stays list intro: stays_intros)
qed

lemma ReadType_consumes [consumes_intros]: "ended p \<Longrightarrow> consumes p (ReadType p)"
  unfolding ReadType_def by (rule ReadTypeIn_consumes) simp_all

lemmas type_stays [stays_intros] = consumes_stays [OF ReadType_consumes]

lemma ReadVariableLabels_stays [stays_intros]: "ended p \<Longrightarrow> stays p (ReadVariableLabels names labels p)"
  unfolding ReadVariableLabels_def by (auto intro!: skip_stays if_stays intro: stays_intros)

lemma ReadNames_consumes [consumes_intros]: "ended p \<Longrightarrow> consumes p (ReadNames p)"
  unfolding ReadNames_def by (auto intro!: into_consumed ExpectName_consumes While_stays moved_consumes into_stays intro: stays_intros)

text \<open>A declaration consumes its names; the early return consumes nothing and ends the loop.\<close>

lemma VariableStep_goes:
  assumes "ended p"
  shows "stays p (VariableStep v p) \<and>
    (VariableStep v p = Inr (w, q) \<longrightarrow> \<not> vs_returned v \<longrightarrow> length q < length p \<or> vs_returned w)"
proof -
  let ?d = "into ReadNames (\<lambda>names. skip (Require '':'')
         (into (decide (AtWord ''Label'')
            (into (ReadVariableLabels names (vs_labels v)) (\<lambda>labels. give (v\<lparr>vs_labels := labels\<rparr>)))
            (into ReadType (\<lambda>declared.
              give (v\<lparr>vs_variables := vs_variables v @ map (\<lambda>name. Attributed (vs_pending v) (Named name declared)) names\<rparr>))))
          (\<lambda>v. skip (SkipTo '';'') (skip (Require '';'') (give (v\<lparr>vs_pending := []\<rparr>))))))"
  have d: "consumes p (?d p)" using assms
    by (auto intro!: into_consumed ReadNames_consumes skip_stays into_stays decide_stays intro: stays_intros)
  have a: "consumes p (into ReadAttribute (\<lambda>a. give (v\<lparr>vs_pending := vs_pending v @ [a]\<rparr>)) p)" using assms
    by (auto intro!: into_consumed ReadAttribute_consumes intro: stays_intros)
  show ?thesis
  proof (cases "AtMark ''['' p")
    case True
    then have step: "VariableStep v p = andThen (VariableFollowsAttribute p) (\<lambda>follows.
        if \<not> follows then Inr (v\<lparr>vs_returned := True\<rparr>, p)
        else into ReadAttribute (\<lambda>a. give (v\<lparr>vs_pending := vs_pending v @ [a]\<rparr>)) p)"
      by (simp add: VariableStep_def decide_def)
    show ?thesis
    proof (cases "VariableFollowsAttribute p")
      case (Inl e)
      then show ?thesis using VariableFollowsAttribute_error [OF assms Inl] step by (simp add: stays_def)
    next
      case (Inr b)
      then show ?thesis using step a consumes_stays [OF a] assms
        by (cases b) (auto simp: stays_def consumes_def)
    qed
  next
    case False
    then have "VariableStep v p = ?d p" by (simp add: VariableStep_def decide_def)
    then show ?thesis using d consumes_stays [OF d] by (auto simp: consumes_def)
  qed
qed

lemma ParseVarsInto_stays [stays_intros]: "ended p \<Longrightarrow> stays p (ParseVarsInto labels variables p)"
  unfolding ParseVarsInto_def
  by (rule into_stays, rule Loop_stays, assumption)
    (use VariableStep_goes in \<open>fastforce intro: stays_intros\<close>)+

lemma ReadLocalVars_stays [stays_intros]: "ended p \<Longrightarrow> stays p (ReadLocalVars labels variables p)"
  unfolding ReadLocalVars_def by (auto intro!: decide_stays skip_stays intro: stays_intros)

section \<open>Properties and procedures\<close>

lemma ParseProperty_consumes [consumes_intros]: "ended p \<Longrightarrow> consumes p (ParseProperty p)"
  unfolding ParseProperty_def Let_def
  by (auto intro!: into_consumed ExpectName_consumes While_stays moved_consumes into_stays skip_stays intro: stays_intros)

lemma SkipBeginEnd_consumes [consumes_intros]: "ended p \<Longrightarrow> consumes p (SkipBeginEnd labels variables p)"
proof -
  assume p: "ended p"
  have step: "stays q (BodyStep (body, depth) q)" if "ended q" for q body depth
    using that by (auto simp: BodyStep_def Let_def intro!: if_stays skip_stays intro: stays_intros)
  have goes: "length r < length q" if q: "ended q" "\<not> AtEndOfFile q" "BodyStep x q = Inr (y, r)" for q r x y
  proof -
    have *: "length r < length q" if "Optional '';'' (Onward q) = Inr (u, r)" for u
    proof -
      have "stays (Onward q) (Inr (u, r) :: object_error + unit \<times> token list)"
        using Optional_stays [OF Onward_ended(1) [OF q(1)], of "'';''"] that by simp
      then show ?thesis using Onward_shorter [OF q(1,2)] by (simp add: stays_def)
    qed
    then show ?thesis using q Onward_shorter [OF q(1,2)]
      by (cases x) (auto simp: BodyStep_def Let_def moved andThen_Inr_iff split: if_splits)
  qed
  have loop: "stays q (Loop snd (\<lambda>(body, depth) p. 0 < depth \<and> \<not> AtEndOfFile p) BodyStep ([], 1) q)" if "ended q" for q
    by (rule Loop_stays [OF that]) (use step goes in auto)
  show ?thesis
    unfolding SkipBeginEnd_def using p
    by (auto intro!: into_consumes ReadLocalVars_stays pair_stays skip_consumed Require_consumes into_stays loop [unfolded One_nat_def] if_stays
      intro: stays_intros)
qed

lemmas body_stays [stays_intros] = consumes_stays [OF SkipBeginEnd_consumes]

lemma Body_stays [stays_intros]: "ended p \<Longrightarrow> stays p (Body tokens p)"
  using ParseStatements_never_fuel [of tokens]
  by (auto simp: Body_def lift_def stays_def split: sum.splits parse_error.splits)

lemma ReadParameter_consumes [consumes_intros]: "ended p \<Longrightarrow> consumes p (ReadParameter p)"
  unfolding ReadParameter_def
  by (rule into_consumes)
    (auto intro!: decide_stays skip_stays into_consumed ExpectName_consumes into_stays intro: stays_intros)

lemma ReadModifiers_stays [stays_intros]: "ended p \<Longrightarrow> stays p (ReadModifiers b p)"
  unfolding ReadModifiers_def by (auto intro!: While_stays moved_consumes intro: stays_intros)

lemma ReadParameters_consumes [consumes_intros]: "ended p \<Longrightarrow> consumes p (ReadParameters parameters p)"
  unfolding ReadParameters_def
  by (auto intro!: skip_consumed Require_consumes into_stays While_stays into_consumed ReadParameter_consumes skip_stays
    intro: stays_intros)

lemma ReadProcedureName_consumes [consumes_intros]: "ended p \<Longrightarrow> consumes p (ReadProcedureName p)"
  unfolding ReadProcedureName_def
  by (auto intro!: into_consumed ExpectName_consumes While_stays moved_consumes intro: stays_intros)

lemma ReadResult_stays [stays_intros]: "ended p \<Longrightarrow> stays p (ReadResult interface p)"
  unfolding ReadResult_def by (auto intro!: into_stays decide_stays skip_stays intro: stays_intros)

lemmas signature_stays [stays_intros] = consumes_stays [OF ReadParameters_consumes]

lemma ReadSignature_consumes [consumes_intros]: "ended p \<Longrightarrow> consumes p (ReadSignature interface procedure p)"
  unfolding ReadSignature_def
  by (rule into_consumes, erule ReadModifiers_stays, rule into_consumes, erule give_stays, rule skip_consumes)
    (auto intro!: decide_stays into_consumed ReadProcedureName_consumes into_stays pair_stays intro: stays_intros)

lemma ReadBody_consumes [consumes_intros]: "ended p \<Longrightarrow> consumes p (ReadBody procedure p)"
  unfolding ReadBody_def
  by (auto intro!: into_consumed SkipBeginEnd_consumes pair_stays into_stays intro: stays_intros)

lemmas read_body_stays [stays_intros] = consumes_stays [OF ReadBody_consumes]

lemma ParseProcedure_consumes [consumes_intros]: "ended p \<Longrightarrow> consumes p (ParseProcedure attributes p)"
  unfolding ParseProcedure_def by (auto intro!: into_consumed ReadSignature_consumes intro: stays_intros)


section \<open>Members, enums and tables\<close>

lemma AttributeMember_consumes [consumes_intros]: "ended p \<Longrightarrow> consumes p (AttributeMember m p)"
  unfolding AttributeMember_def by (auto intro!: into_consumed ReadAttribute_consumes intro: stays_intros)

lemma VarMember_goes [consumes_intros, stays_intros]:
  "ended p \<Longrightarrow> \<not> AtEndOfFile p \<Longrightarrow> consumes p (VarMember m p)" "ended p \<Longrightarrow> stays p (VarMember m p)"
  unfolding VarMember_def by (auto intro!: moved_consumes skip_stays into_stays pair_stays intro: stays_intros)

lemma ProcedureMember_consumes [consumes_intros]: "ended p \<Longrightarrow> consumes p (ProcedureMember m p)"
  unfolding ProcedureMember_def by (auto intro!: into_consumed ParseProcedure_consumes intro: stays_intros)

lemma PropertyMember_consumes [consumes_intros]: "ended p \<Longrightarrow> consumes p (PropertyMember m p)"
  unfolding PropertyMember_def by (auto intro!: into_consumed ParseProperty_consumes intro: stays_intros)

lemma CodeMember_consumes [consumes_intros]: "ended p \<Longrightarrow> consumes p (CodeMember m p)"
  unfolding CodeMember_def by (auto intro!: decide_stays moved_consumes intro: stays_intros consumes_intros)

lemma skip_block_consumes [consumes_intros]: "ended p \<Longrightarrow> \<not> AtEndOfFile p \<Longrightarrow> consumes p (skip Move (skip SkipBracedBlock (give a)) p)"
  by (auto intro!: moved_consumes skip_stays consumes_stays [OF SkipBracedBlock_consumes] intro: stays_intros)

lemma BlockMember_consumes [consumes_intros]: "ended p \<Longrightarrow> consumes p (BlockMember m p)"
  unfolding BlockMember_def by (auto intro!: decide_stays skip_block_consumes CodeMember_consumes)

lemma ReadNameList_stays [stays_intros]: "ended p \<Longrightarrow> stays p (ReadNameList w p)"
  unfolding ReadNameList_def
  by (auto intro!: decide_stays skip_stays While_stays into_consumed ExpectName_consumes intro: stays_intros)

lemma ReadProperties_stays [stays_intros]: "ended p \<Longrightarrow> stays p (ReadProperties p)"
  unfolding ReadProperties_def
  by (auto intro!: skip_stays into_stays While_stays into_consumed ParseProperty_consumes intro: stays_intros)

lemma ReadHeader_stays [stays_intros]: "ended p \<Longrightarrow> stays p (ReadHeader w p)"
  unfolding ReadHeader_def by (auto intro!: skip_stays into_stays intro: stays_intros)

lemma ReadExtended_stays [stays_intros]: "ended p \<Longrightarrow> stays p (ReadExtended p)"
  unfolding ReadExtended_def by (auto intro!: skip_stays intro: stays_intros)

lemmas property_stays [stays_intros] = consumes_stays [OF ParseProperty_consumes]

lemma ReadEnumValue_consumes: "ended p \<Longrightarrow> \<not> AtEndOfFile p \<Longrightarrow> consumes p (ReadEnumValue p)"
  unfolding ReadEnumValue_def by (auto intro!: moved_consumes skip_stays into_stays intro: stays_intros)

lemma ParseEnumBody_stays [stays_intros]: "ended p \<Longrightarrow> stays p (ParseEnumBody p)"
  unfolding ParseEnumBody_def
  by (auto intro!: skip_stays into_stays While_stays pair_stays decide_stays into_consumed ReadEnumValue_consumes
    ParseProperty_consumes intro: stays_intros)

lemma ReadFieldTrigger_consumes: "ended p \<Longrightarrow> \<not> AtEndOfFile p \<Longrightarrow> consumes p (ReadFieldTrigger p)"
  unfolding ReadFieldTrigger_def by (auto intro!: moved_consumes skip_stays into_stays pair_stays intro: stays_intros)

lemma ParseFieldBody_stays [stays_intros]: "ended p \<Longrightarrow> stays p (ParseFieldBody f p)"
  unfolding ParseFieldBody_def
  by (auto intro!: skip_stays into_stays While_stays decide_stays into_consumed ReadFieldTrigger_consumes
    ParseProperty_consumes intro: stays_intros)

lemma ReadModified_consumes: "ended p \<Longrightarrow> \<not> AtEndOfFile p \<Longrightarrow> consumes p (ReadModified p)"
  unfolding ReadModified_def by (auto intro!: moved_consumes skip_stays into_stays intro: stays_intros)

lemma ReadFieldType_stays [stays_intros]: "ended p \<Longrightarrow> stays p (ReadFieldType p)"
  unfolding ReadFieldType_def by (auto intro!: decide_stays skip_stays into_stays if_stays intro: stays_intros)

lemma ReadField_consumes: "ended p \<Longrightarrow> consumes p (ReadField p)"
  unfolding ReadField_def
  by (auto intro!: skip_consumed Require_consumes skip_stays into_stays pair_stays intro: stays_intros)

lemma ParseFields_stays [stays_intros]: "ended p \<Longrightarrow> stays p (ParseFields t p)"
  unfolding ParseFields_def
  by (auto intro!: skip_stays into_stays While_stays decide_stays into_consumed ReadModified_consumes ReadField_consumes
    intro: stays_intros)

lemma ReadKey_consumes: "ended p \<Longrightarrow> consumes p (ReadKey p)"
  unfolding ReadKey_def
  by (auto intro!: skip_consumed Require_consumes skip_stays into_stays While_stays into_consumed ExpectName_consumes
    intro: stays_intros)

lemma ParseKeys_stays [stays_intros]: "ended p \<Longrightarrow> stays p (ParseKeys t p)"
  unfolding ParseKeys_def
  by (auto intro!: skip_stays into_stays While_stays into_consumed ReadKey_consumes intro: stays_intros)

lemma TableMember_goes:
  "(\<And>m. consumes p (member m p)) \<Longrightarrow> consumes p (TableMember member s p)"
  "(\<And>m. stays p (member m p)) \<Longrightarrow> stays p (TableMember member s p)"
  by (auto simp: TableMember_def split: prod.split intro!: into_consumed into_stays intro: stays_intros)

lemma TableStep_consumes: "ended p \<Longrightarrow> NotClosed p \<Longrightarrow> consumes p (TableStep s p)"
  unfolding TableStep_def
  by (auto intro!: pair_stays decide_stays moved_consumes into_stays TableMember_goes skip_block_consumes
    intro: stays_intros consumes_intros)

lemma ParseTableBody_stays [stays_intros]: "ended p \<Longrightarrow> stays p (ParseTableBody t p)"
  unfolding ParseTableBody_def
  by (auto intro!: skip_stays into_stays While_stays pair_stays TableStep_consumes intro: stays_intros)

section \<open>Pages\<close>

lemma ReadSource_stays [stays_intros]: "ended p \<Longrightarrow> stays p (ReadSource p)"
  unfolding ReadSource_def
  by (rule into_stays, rule counting_stays) (auto simp: moved intro: stays_intros)

lemma ParseControlHead_stays [stays_intros]: "ended p \<Longrightarrow> stays p (ParseControlHead p)"
  unfolding ParseControlHead_def by (auto intro!: decide_stays skip_stays into_stays intro: stays_intros)

lemma ComputedState_stays: "ended p \<Longrightarrow> stays p (ComputedState state q p)"
  unfolding ComputedState_def Let_def by (auto intro!: into_stays intro: stays_intros)

lemma ComputedLoop_stays: "ended p \<Longrightarrow> stays p (ComputedLoop qs triggers p)"
proof (induction qs triggers arbitrary: p rule: ComputedLoop.induct)
  case (1 triggers)
  then show ?case by (simp add: give_stays)
next
  case (2 q state rest triggers)
  then show ?case by (auto intro!: into_stays ComputedState_stays)
qed

lemma Computed_stays [stays_intros]: "ended p \<Longrightarrow> stays p (Computed qs triggers p)"
  unfolding Computed_def by (rule ComputedLoop_stays)

lemma ParseControlIn_consumes: "ended p \<Longrightarrow> \<not> AtEndOfFile p \<Longrightarrow> length p \<le> n \<Longrightarrow> consumes p (ParseControlIn n p)"
proof (induction n arbitrary: p)
  case 0
  then show ?case by (simp add: ended_def)
next
  case (Suc n)
  let ?step = "\<lambda>(properties, triggers, children).
      decide AtProcedure (into (ParseProcedure []) (\<lambda>t. give (properties, triggers @ [t], children)))
        (decide AtChild (into (ParseControlIn n) (\<lambda>c. give (properties, triggers, children @ [c])))
          (into ParseProperty (\<lambda>q. give (properties @ [q], triggers, children))))"
  have step: "consumes q (decide AtProcedure (into (ParseProcedure []) (\<lambda>t. give (ps, ts @ [t], cs)))
      (decide AtChild (into (ParseControlIn n) (\<lambda>c. give (ps, ts, cs @ [c])))
        (into ParseProperty (\<lambda>q. give (ps @ [q], ts, cs)))) q)"
    if "ended q" "length q < length p" "NotClosed q" for q ps ts cs
    using that Suc by (auto intro!: decide_stays into_consumed ParseProcedure_consumes ParseProperty_consumes
      intro: stays_intros)
  have body: "stays q (into (While NotClosed ?step ([], [], []))
      (\<lambda>(properties, triggers, children). into (Computed properties triggers) (\<lambda>triggers.
        skip (Require ''}'') (give (PageControl kind name source properties triggers children)))) q)"
    if "ended q" "length q < length p" for q kind name source
    using that by (auto intro!: into_stays While_stays step pair_stays skip_stays intro: stays_intros)
  have kind: "consumes p (skip Move (give (tk_text (Here p))) p)"
    using Suc.prems by (auto intro!: moved_consumes intro: stays_intros)
  show ?case
    unfolding ParseControlIn.simps
    by (rule into_consumed, rule kind)
      (auto intro!: into_stays pair_stays decide_stays skip_stays body intro: stays_intros)
qed

lemma ParseControl_consumes: "ended p \<Longrightarrow> \<not> AtEndOfFile p \<Longrightarrow> consumes p (ParseControl p)"
  unfolding ParseControl_def by (rule ParseControlIn_consumes) simp_all

lemma ParseControlsInto_stays [stays_intros]: "ended p \<Longrightarrow> stays p (ParseControlsInto cs p)"
  unfolding ParseControlsInto_def
  by (auto intro!: skip_stays into_stays While_stays into_consumed ParseControl_consumes intro: stays_intros)

lemma ReadLayout_consumes: "ended p \<Longrightarrow> consumes p (ReadLayout owner p)"
  unfolding ReadLayout_def
  by (auto intro!: skip_consumed Require_consumes skip_stays into_stays While_stays into_consumed ParseProperty_consumes
    intro: stays_intros)

lemma lift_stays: "ended p \<Longrightarrow> (\<And>e. r = Inl e \<Longrightarrow> e \<noteq> Endless \<and> e \<noteq> UndefinedToken) \<Longrightarrow> stays p (lift r p)"
  by (cases r) (auto simp: lift_def stays_def)

lemma LayoutStep_consumes: "ended p \<Longrightarrow> consumes p (LayoutStep owner layouts p)"
  unfolding LayoutStep_def
  by (rule into_consumed, erule ReadLayout_consumes)
    (auto intro!: skip_stays lift_stays ifm_stays simp: ValidateLayout_def Let_def split: if_splits intro: stays_intros)

lemma ParseRendering_stays [stays_intros]: "ended p \<Longrightarrow> stays p (ParseRendering owner layouts p)"
  unfolding ParseRendering_def
  by (auto intro!: skip_stays into_stays While_stays LayoutStep_consumes intro: stays_intros)

lemma PageMember_consumes:
  "(\<And>m. consumes p (member m p)) \<Longrightarrow> consumes p (PageMember member s p)"
  by (auto simp: PageMember_def split: prod.split intro!: into_consumed intro: stays_intros)

lemma PageStep_consumes: "ended p \<Longrightarrow> consumes p (PageStep s p)"
  unfolding PageStep_def
  by (auto intro!: pair_stays decide_stays moved_consumes into_stays PageMember_consumes AttributeMember_consumes
    BlockMember_consumes intro: stays_intros)

lemma ParsePageBody_stays [stays_intros]: "ended p \<Longrightarrow> stays p (ParsePageBody t p)"
  unfolding ParsePageBody_def
  by (auto intro!: skip_stays into_stays While_stays pair_stays PageStep_consumes intro: stays_intros)








lemma Renamed_length [simp]: "length (Renamed names name p) = length p"
  by (simp add: Renamed_def)

section \<open>Objects\<close>

lemma close_stays [stays_intros]: "ended p \<Longrightarrow> stays p (skip (Require m) (give a) p)"
  by (auto intro!: skip_stays intro: stays_intros)






section \<open>Source texts\<close>









text \<open>An open region takes the end of the file with it: then a parser may run forever or look into nothing.\<close>

lemma open_region_never_ends:
  "ParseTableSource (''x'' @ [newline_char] @ ''#if A'') = Inl Endless" "ParseTableSource ''#if A'' = Inl UndefinedToken"
proof -
  have a: "Evaluate ''  A'' = Inr False" by code_simp
  have "Run ''#if A'' = Inr [\<lparr>tk_kind = Directive, tk_text = ''if  A'', tk_line = 1, tk_column = 1\<rparr>,
      \<lparr>tk_kind = EndOfFile, tk_text = [], tk_line = 1, tk_column = 1\<rparr>]"
    by (simp add: run_eval LexDirective_def TakeLine_def)
  then show "ParseTableSource ''#if A'' = Inl UndefinedToken"
    using a by (simp add: ParseTableSource_def FromSource_def Tokenize_def ApplyDirectives_def starts_with_def)
  have "Run (''x'' @ [newline_char] @ ''#if A'') = Inr [\<lparr>tk_kind = Identifier, tk_text = ''x'', tk_line = 1, tk_column = 1\<rparr>,
      \<lparr>tk_kind = Directive, tk_text = ''if  A'', tk_line = 2, tk_column = 1\<rparr>,
      \<lparr>tk_kind = EndOfFile, tk_text = [], tk_line = 2, tk_column = 1\<rparr>]"
    by (simp add: run_eval LexDirective_def TakeLine_def)
  then have "Tokenize (''x'' @ [newline_char] @ ''#if A'') = Inr [\<lparr>tk_kind = Identifier, tk_text = ''x'', tk_line = 1, tk_column = 1\<rparr>]"
    using a by (simp add: Tokenize_def ApplyDirectives_def starts_with_def)
  moreover have "ParseTable [\<lparr>tk_kind = Identifier, tk_text = ''x'', tk_line = 1, tk_column = 1\<rparr>] = Inl Endless"
    by code_simp
  ultimately show "ParseTableSource (''x'' @ [newline_char] @ ''#if A'') = Inl Endless"
    by (simp add: ParseTableSource_def FromSource_def)
qed

end
