(* ===== verification/ObjectText.thy ===== *)
theory ObjectText
  imports ObjectFacts StatementText
begin

text \<open>
  The round trips of objects: \<open>show_enum\<close>, \<open>show_table\<close> and \<open>show_codeunit\<close> write an object as tokens, and the parsers
  of \<^verbatim>\<open>src/src/al/Parser.cpp\<close> read it back. Names are written quoted, statements as in the round trip of statements, and
  what follows an object's tokens is never empty, as \<open>EndOfFile\<close> is behind them.
\<close>

section \<open>Tokens\<close>

abbreviation nm :: "string \<Rightarrow> token" where
  "nm \<equiv> tok QuotedIdentifier"

definition num :: "int \<Rightarrow> token" where
  "num n = tok IntegerToken (digits_of (nat n))"

definition id_fits :: "int \<Rightarrow> bool" where
  "id_fits n \<longleftrightarrow> 0 \<le> n \<and> n < 2 ^ 31"

named_theorems reading_simps \<open>readings of written tokens\<close>

lemma lower_more [simp]: "to_lower (CHR ''y'') = CHR ''y''" "to_lower (CHR ''j'') = CHR ''j''" "to_lower (CHR ''q'') = CHR ''q''"
  "to_lower (CHR ''z'') = CHR ''z''"
  by code_simp+

lemma digits_of_code: "dropWhile is_space (digits_of n) = digits_of n" "takeWhile is_digit (digits_of n) = digits_of n"
  "hd (digits_of n) \<noteq> CHR ''-''" "hd (digits_of n) \<noteq> CHR ''+''"
proof -
  have d: "is_digit (hd (digits_of n))" using digits_of_digits [of n] by (simp add: hd_in_set)
  then show "dropWhile is_space (digits_of n) = digits_of n" by (cases "digits_of n") auto
  show "takeWhile is_digit (digits_of n) = digits_of n" using digits_of_digits [of n] by simp
  have "\<not> is_digit (CHR ''-'')" "\<not> is_digit (CHR ''+'')" by code_simp+
  then show "hd (digits_of n) \<noteq> CHR ''-''" "hd (digits_of n) \<noteq> CHR ''+''" using d by metis+
qed

lemma stoi_digits: "id_fits n \<Longrightarrow> stoi (digits_of (nat n)) = Inr n"
  by (simp add: stoi_def digits_of_code id_fits_def)

lemma at_simps [reading_simps]:
  "AtMark m (tok k t # r) \<longleftrightarrow> k = Punctuation \<and> t = m"
  "AtWord w (tok k t # r) \<longleftrightarrow> k = Identifier \<and> map to_lower t = map to_lower w"
  "AtEndOfFile (tok k t # r) \<longleftrightarrow> k = EndOfFile"
  "AtName (tok k t # r) \<longleftrightarrow> k = Identifier \<or> k = QuotedIdentifier"
  by (auto simp: AtMark_def AtWord_def AtEndOfFile_def AtName_def IsPunctuation_def IsKeyword_def tok_def dest: map_eq_imp_length_eq)

lemma tok_fields [reading_simps]: "tk_kind (tok k t) = k" "tk_text (tok k t) = t"
  by (simp_all add: tok_def)

lemma num_simps [reading_simps]:
  "\<not> AtMark m (num n # r)" "\<not> AtWord w (num n # r)" "\<not> AtEndOfFile (num n # r)" "\<not> AtName (num n # r)"
  "tk_kind (num n) = IntegerToken" "tk_text (num n) = digits_of (nat n)"
  by (simp_all add: num_def at_simps tok_fields)

lemma Ahead_simps [reading_simps]: "Ahead (t # u # r) = u"
  by (simp add: Ahead_def)

lemma Onward_simps [reading_simps]: "r \<noteq> [] \<Longrightarrow> Onward (t # r) = r"
  by (cases r) (simp_all add: Onward_def)

lemma Move_simps [reading_simps]: "r \<noteq> [] \<Longrightarrow> Move (t # r) = Inr ((), r)"
  by (simp add: Move_def Onward_simps)

lemma Require_simps [reading_simps]:
  "r \<noteq> [] \<Longrightarrow> Require m (punct m # r) = Inr ((), r)" "r \<noteq> [] \<Longrightarrow> Require w (kw w # r) = Inr ((), r)"
  by (simp_all add: Require_def at_simps Move_simps)

lemma ExpectName_simps [reading_simps]: "r \<noteq> [] \<Longrightarrow> ExpectName (nm t # r) = Inr (t, r)"
  by (simp add: ExpectName_def at_simps skip_def into_def give_def Move_simps tok_fields)

lemma ExpectInteger_simps [reading_simps]: "r \<noteq> [] \<Longrightarrow> id_fits n \<Longrightarrow> ExpectInteger (num n # r) = Inr (n, r)"
  by (simp add: ExpectInteger_def num_simps stoi_digits skip_def into_def give_def Move_simps)

lemmas composed [reading_simps] = into_def skip_def decide_def give_def

text \<open>The same, one reading at a time, for bodies that are to stay as they are written.\<close>

lemma into_gives: "m p = Inr (a, q) \<Longrightarrow> into m f p = f a q"
  by (simp add: into_def)

lemma skips:
  "r \<noteq> [] \<Longrightarrow> skip Move m (t # r) = m r"
  "r \<noteq> [] \<Longrightarrow> skip (Require w) m (kw w # r) = m r"
  "r \<noteq> [] \<Longrightarrow> skip (Require w) m (punct w # r) = m r"
  "r \<noteq> [] \<Longrightarrow> into ExpectName f (nm n # r) = f n r"
  by (simp_all add: reading_simps)

text \<open>A loop over a written list: an iteration reads one element and adds it to what has been read.\<close>

lemma While_step:
  "going p \<Longrightarrow> body a p = Inr (b, q) \<Longrightarrow> length q < length p \<Longrightarrow> While going body a p = While going body b q"
  unfolding While_def by (subst Loop.simps) simp

lemma While_stops: "\<not> going r \<Longrightarrow> While going body a r = Inr (a, r)"
  unfolding While_def by (subst Loop.simps) simp

lemma While_reads_on:
  assumes "\<And>x a q. x \<in> set xs \<Longrightarrow> q \<noteq> [] \<Longrightarrow> going (written x @ q) \<and> body a (written x @ q) = Inr (add x a, q)"
    and "\<And>x. x \<in> set xs \<Longrightarrow> written x \<noteq> []" and "r \<noteq> []"
  shows "While going body a (concat (map written xs) @ r) = While going body (fold add xs a) r"
  using assms(1,2)
proof (induction xs arbitrary: a)
  case (Cons x xs)
  let ?q = "concat (map written xs) @ r"
  have q: "?q \<noteq> []" using assms(3) by simp
  have step: "going (written x @ ?q)" "body a (written x @ ?q) = Inr (add x a, ?q)"
    using Cons.prems(1) [of x ?q a] q by simp_all
  have "While going body a (written x @ ?q) = While going body (add x a) ?q"
    by (rule While_step [where going = going and body = body, OF step]) (use Cons.prems(2) [of x] in simp)
  then show ?case using Cons by simp
qed simp

lemma While_reads:
  assumes "\<And>x a q. x \<in> set xs \<Longrightarrow> q \<noteq> [] \<Longrightarrow> going (written x @ q) \<and> body a (written x @ q) = Inr (add x a, q)"
    and "\<And>x. x \<in> set xs \<Longrightarrow> written x \<noteq> []" and "r \<noteq> []" "\<not> going r"
  shows "While going body a (concat (map written xs) @ r) = Inr (fold add xs a, r)"
  using While_reads_on [where going = going and written = written and body = body and add = add, OF assms(1-3)]
    While_stops [of going r body, OF assms(4)] by simp

lemma fold_append [simp]: "fold (\<lambda>x a. a @ [x]) xs a = a @ xs"
  by (induction xs arbitrary: a) simp_all

section \<open>Properties\<close>

fun Joined :: "string \<Rightarrow> token list \<Rightarrow> string" where
  "Joined text [] = text"
| "Joined text (t # ts) = Joined ((if text \<noteq> [] then text @ '' '' else text) @ tk_text t) ts"

definition show_property :: "property \<Rightarrow> token list" where
  "show_property q = nm (pr_name q) # punct ''='' # pr_value q @ [punct '';'']"

definition wf_property :: "property \<Rightarrow> bool" where
  "wf_property q \<longleftrightarrow> list_all (\<lambda>t. tk_kind t \<noteq> EndOfFile \<and> \<not> IsPunctuation t '';'') (pr_value q) \<and>
     pr_text q = Joined [] (pr_value q)"

lemma PropertyLoop_reads:
  assumes "list_all (\<lambda>t. tk_kind t \<noteq> EndOfFile \<and> \<not> IsPunctuation t '';'') ts" "r \<noteq> []"
  shows "While (\<lambda>p. \<not> AtEndOfFile p \<and> \<not> AtMark '';'' p)
      (\<lambda>property p.
         let text = (if pr_text property \<noteq> [] then pr_text property @ '' '' else pr_text property) in
         skip Move (give (property\<lparr>pr_value := pr_value property @ [Here p], pr_text := text @ tk_text (Here p)\<rparr>)) p)
      \<lparr>pr_name = n, pr_value = vs, pr_text = w\<rparr> (ts @ punct '';'' # r) =
    Inr (\<lparr>pr_name = n, pr_value = vs @ ts, pr_text = Joined w ts\<rparr>, punct '';'' # r)"
  using assms(1)
proof (induction ts arbitrary: vs w)
  case Nil
  then show ?case by (simp add: While_def Loop.simps at_simps)
next
  case (Cons t ts)
  have t: "\<not> AtEndOfFile (t # q)" "\<not> AtMark '';'' (t # q)" for q
    using Cons.prems by (simp_all add: AtEndOfFile_def AtMark_def)
  show ?case
    using Cons unfolding While_def by (subst Loop.simps) (simp add: t reading_simps Let_def)
qed

lemma ParseProperty_reads [reading_simps]:
  assumes "wf_property q" "r \<noteq> []"
  shows "ParseProperty (show_property q @ r) = Inr (q, r)"
  using assms PropertyLoop_reads [of "pr_value q" r "pr_name q" "[]" "[]"]
  by (cases q) (simp add: ParseProperty_def show_property_def wf_property_def reading_simps)

lemma show_property_head: "\<exists>t. show_property q = nm (pr_name q) # t"
  by (simp add: show_property_def)

definition show_properties :: "property list \<Rightarrow> token list" where
  "show_properties qs = punct ''{'' # concat (map show_property qs) @ [punct ''}'']"

lemma ReadProperties_reads [reading_simps]:
  assumes "list_all wf_property qs" "r \<noteq> []"
  shows "ReadProperties (show_properties qs @ r) = Inr (qs, r)"
proof -
  have "While (\<lambda>p. \<not> AtMark ''}'' p) (\<lambda>ps. into ParseProperty (\<lambda>q. give (ps @ [q]))) []
      (concat (map show_property qs) @ punct ''}'' # r) = Inr (fold (\<lambda>q ps. ps @ [q]) qs [], punct ''}'' # r)"
  proof (rule While_reads)
    fix q a s assume "q \<in> set qs" "s \<noteq> ([] :: token list)"
    then have "wf_property q" using assms(1) by (simp add: list_all_iff)
    then show "\<not> AtMark ''}'' (show_property q @ s) \<and> into ParseProperty (\<lambda>q. give (a @ [q])) (show_property q @ s) = Inr (a @ [q], s)"
      using \<open>s \<noteq> []\<close> by (simp add: ParseProperty_reads into_def give_def) (simp add: show_property_def at_simps)
  qed (simp_all add: show_property_def at_simps)
  then show ?thesis using assms(2) by (simp add: ReadProperties_def show_properties_def reading_simps)
qed

section \<open>Headers and lists of names\<close>

definition show_header :: "string \<Rightarrow> string \<Rightarrow> int \<Rightarrow> string \<Rightarrow> token list" where
  "show_header object nameSpace n x =
     (if nameSpace \<noteq> [] then [kw ''namespace'', nm nameSpace, punct '';''] else []) @ [kw object, num n, nm x]"

lemma ReadHeaderNamespace_reads:
  assumes "map to_lower object \<noteq> ''namespace''" "r \<noteq> []"
  shows "ReadHeaderNamespace object (show_header object nameSpace n x @ r) =
    Inr (nameSpace, kw object # num n # nm x # r)"
  using assms
  by (auto simp: ReadHeaderNamespace_def show_header_def While_def Loop.simps reading_simps)

lemma ReadHeader_reads [reading_simps]:
  assumes "map to_lower object \<noteq> ''namespace''" "r \<noteq> []" "id_fits n"
  shows "ReadHeader object (show_header object nameSpace n x @ r) = Inr ((nameSpace, n, x), r)"
  using assms by (simp add: ReadHeader_def ReadHeaderNamespace_reads reading_simps)

definition show_names :: "string list \<Rightarrow> token list" where
  "show_names names = separated (map (\<lambda>n. [nm n]) names)"

lemma names_loop:
  assumes "r \<noteq> []" "m \<noteq> '',''" "\<And>q. going (punct m # q) = False" "\<And>n q. going (nm n # q)"
  shows "While going (\<lambda>names. into ExpectName (\<lambda>n. skip (Optional '','') (give (names @ [n])))) a
      (show_names names @ punct m # r) = Inr (a @ names, punct m # r)"
proof (induction names arbitrary: a rule: induct_list012)
  case 1
  then show ?case using assms by (simp add: While_stops show_names_def)
next
  case (2 n)
  show ?case unfolding show_names_def
    by (subst While_step [where b = "a @ [n]" and q = "punct m # r"])
      (use assms in \<open>simp_all add: reading_simps Optional_def While_stops\<close>)
next
  case (3 n n' ns)
  let ?q = "show_names (n' # ns) @ punct m # r"
  have q: "show_names (n # n' # ns) @ punct m # r = nm n # punct '','' # ?q" "?q \<noteq> []"
    by (simp_all add: show_names_def)
  have "While going (\<lambda>names. into ExpectName (\<lambda>n. skip (Optional '','') (give (names @ [n])))) a (nm n # punct '','' # ?q) =
      While going (\<lambda>names. into ExpectName (\<lambda>n. skip (Optional '','') (give (names @ [n])))) (a @ [n]) ?q"
    by (rule While_step) (use assms q(2) in \<open>simp_all add: reading_simps Optional_def\<close>)
  then show ?case using "3.IH"(2) [of "a @ [n]"] unfolding q(1) by simp
qed

definition show_name_list :: "string \<Rightarrow> string list \<Rightarrow> token list" where
  "show_name_list keyword names = (if names = [] then [] else kw keyword # show_names names)"

lemma ReadNameList_reads [reading_simps]:
  assumes "r \<noteq> []"
  shows "ReadNameList keyword (show_name_list keyword names @ punct ''{'' # r) = Inr (names, punct ''{'' # r)"
proof -
  have "While (\<lambda>p. \<not> AtEndOfFile p \<and> \<not> AtMark ''{'' p)
      (\<lambda>names. into ExpectName (\<lambda>n. skip (Optional '','') (give (names @ [n])))) []
      (show_names names @ punct ''{'' # r) = Inr ([] @ names, punct ''{'' # r)"
    by (rule names_loop [OF assms]) (simp_all add: reading_simps)
  then show ?thesis by (simp add: ReadNameList_def show_name_list_def reading_simps)
qed

section \<open>Enums\<close>

definition show_value_decl :: "enum_value_decl \<Rightarrow> token list" where
  "show_value_decl v =
     [kw ''value'', punct ''('', num (ev_ordinal v), punct '';'', nm (ev_name v), punct '')''] @ show_properties (ev_properties v)"

definition wf_value_decl :: "enum_value_decl \<Rightarrow> bool" where
  "wf_value_decl v \<longleftrightarrow> id_fits (ev_ordinal v) \<and> list_all wf_property (ev_properties v)"

definition show_enum_body :: "enum_value_decl list \<Rightarrow> property list \<Rightarrow> token list" where
  "show_enum_body values properties =
     punct ''{'' # concat (map show_property properties) @ concat (map show_value_decl values) @ [punct ''}'']"

definition show_enum :: "enum_object \<Rightarrow> token list" where
  "show_enum e = show_header ''enum'' (en_nameSpace e) (en_id e) (en_name e) @
     show_name_list ''implements'' (en_implements e) @ show_enum_body (en_values e) (en_properties e)"

definition wf_enum :: "enum_object \<Rightarrow> bool" where
  "wf_enum e \<longleftrightarrow> id_fits (en_id e) \<and> list_all wf_value_decl (en_values e) \<and> list_all wf_property (en_properties e)"

lemma ReadEnumValue_reads:
  assumes "wf_value_decl v" "r \<noteq> []"
  shows "ReadEnumValue (show_value_decl v @ r) = Inr (v, r)"
  using assms by (cases v) (simp add: ReadEnumValue_def show_value_decl_def wf_value_decl_def reading_simps)

lemma fold_fst [simp]: "fold (\<lambda>x (as, bs). (as @ [x], bs)) xs (as, bs) = (as @ xs, bs)"
  by (induction xs arbitrary: as bs) simp_all

lemma fold_snd [simp]: "fold (\<lambda>x (as, bs). (as, bs @ [x])) xs (as, bs) = (as, bs @ xs)"
  by (induction xs arbitrary: as bs) simp_all

lemma ParseEnumBody_reads [reading_simps]:
  assumes "list_all wf_value_decl values" "list_all wf_property properties" "r \<noteq> []"
  shows "ParseEnumBody (show_enum_body values properties @ r) = Inr ((values, properties), r)"
proof -
  let ?body = "\<lambda>(values, properties). decide (AtWord ''value'')
            (into ReadEnumValue (\<lambda>v. give (values @ [v], properties)))
            (into ParseProperty (\<lambda>q. give (values, properties @ [q])))"
  have property: "NotClosed (show_property q @ s) \<and> ?body x (show_property q @ s) = Inr ((\<lambda>(vs, ps). (vs, ps @ [q])) x, s)"
    if "q \<in> set properties" "s \<noteq> []" for q x s
    using that assms(2) ParseProperty_reads [of q s]
    by (cases x) (auto simp: list_all_iff show_property_def NotClosed_def reading_simps)
  have val: "NotClosed (show_value_decl v @ s) \<and> ?body x (show_value_decl v @ s) = Inr ((\<lambda>(vs, ps). (vs @ [v], ps)) x, s)"
    if "v \<in> set values" "s \<noteq> []" for v x s
    using that assms(1) ReadEnumValue_reads [of v s]
    by (cases x) (auto simp: list_all_iff show_value_decl_def NotClosed_def reading_simps)
  have "While NotClosed ?body ([], []) (concat (map show_property properties) @ concat (map show_value_decl values) @ punct ''}'' # r) =
      While NotClosed ?body (fold (\<lambda>q (vs, ps). (vs, ps @ [q])) properties ([], [])) (concat (map show_value_decl values) @ punct ''}'' # r)"
    by (rule While_reads_on [OF property]) (simp_all add: show_property_def)
  also have "\<dots> = While NotClosed ?body ([], properties) (concat (map show_value_decl values) @ punct ''}'' # r)"
    by simp
  also have "\<dots> = While NotClosed ?body (fold (\<lambda>v (vs, ps). (vs @ [v], ps)) values ([], properties)) (punct ''}'' # r)"
    by (rule While_reads_on [OF val]) (simp_all add: show_value_decl_def)
  also have "\<dots> = While NotClosed ?body (values, properties) (punct ''}'' # r)"
    by simp
  also have "\<dots> = Inr ((values, properties), punct ''}'' # r)"
    by (rule While_stops) (simp add: NotClosed_def reading_simps)
  finally show ?thesis using assms(3) by (simp add: ParseEnumBody_def show_enum_body_def reading_simps)
qed

lemma ParseEnum_reads:
  assumes "wf_enum e" "r \<noteq> []"
  shows "ParseEnum (show_enum e @ r) = Inr (e, r)"
proof -
  let ?b = "show_enum_body (en_values e) (en_properties e)"
  obtain b where b: "?b = punct ''{'' # b" "b \<noteq> []" by (simp add: show_enum_body_def)
  have names: "ReadNameList ''implements'' (show_name_list ''implements'' (en_implements e) @ ?b @ r) = Inr (en_implements e, ?b @ r)"
    using ReadNameList_reads [of "b @ r" "''implements''" "en_implements e"] b by simp
  show ?thesis using assms
    by (cases e) (use names in \<open>simp add: ParseEnum_def show_enum_def wf_enum_def reading_simps\<close>)
qed

text \<open>C20: enum_roundtrip. An enum written as a file of tokens - its namespace, the object line with the number and the
  name, the interfaces it implements, its properties, its values with their ordinals and properties - is read back as
  that enum by the parser, and reading stops at the end of the file.\<close>

theorem enum_roundtrip:
  assumes "wf_enum e"
  shows "ParseEnum (show_enum e @ [tok EndOfFile []]) = Inr (e, [tok EndOfFile []])"
  by (rule ParseEnum_reads [OF assms]) simp

definition line_type :: enum_object where
  "line_type = \<lparr>en_id = 50100, en_name = ''Line Type'', en_nameSpace = ''Sales'', en_implements = [''I1'', ''I2''],
     en_properties = [\<lparr>pr_name = ''Extensible'', pr_value = [kw ''true''], pr_text = ''true''\<rparr>],
     en_values =
       [\<lparr>ev_ordinal = 0, ev_name = '' '', ev_properties = []\<rparr>,
        \<lparr>ev_ordinal = 7, ev_name = ''Item'', ev_properties =
          [\<lparr>pr_name = ''Caption'', pr_value = [tok StringToken ''It'', nm ''em''], pr_text = ''It em''\<rparr>]\<rparr>]\<rparr>"

lemma enum_roundtrip_witness:
  "ParseEnum (show_enum line_type @ [tok EndOfFile []]) = Inr (line_type, [tok EndOfFile []])"
  by (rule enum_roundtrip)
    (simp add: line_type_def wf_enum_def wf_value_decl_def wf_property_def id_fits_def IsPunctuation_def tok_fields)

end
