(* ===== verification/ProcedureText.thy ===== *)
theory ProcedureText
  imports ObjectText
begin

text \<open>
  The round trips of what an object declares: types, variables and procedures with their statements, of
  \<^verbatim>\<open>src/src/al/Parser.cpp\<close>. The body of a procedure is found by counting \<open>begin\<close>, \<open>case\<close> and \<open>end\<close>; the tokens of
  written statements balance them.
\<close>

section \<open>Types\<close>

fun bare :: "var_decl \<Rightarrow> var_decl" where
  "bare (VarDecl r t n ty s l m as d at) = VarDecl False t [] ty s l m as d []"

abbreviation is_option :: "var_decl \<Rightarrow> bool" where
  "is_option d \<equiv> SameName (vd_type d) ''Option''"

fun show_type :: "var_decl \<Rightarrow> token list" where
  "show_type (VarDecl r t n ty s l m as d at) =
     (if d = [] then [] else kw ''array'' # punct ''['' # separated (map (\<lambda>n. [num n]) d) @ [punct '']'', kw ''of'']) @
     nm ty # (if as \<noteq> [] then kw ''of'' # punct ''['' # separated (map show_type as) @ [punct '']'']
       else if SameName ty ''Option'' then separated (map (\<lambda>n. [nm n]) m)
       else (if l \<noteq> 0 then [punct ''['', num l, punct '']''] else if s \<noteq> [] then [nm s] else []) @
         (if t then [kw ''temporary''] else []))"

fun wf_type :: "var_decl \<Rightarrow> bool" where
  "wf_type (VarDecl r t n ty s l m as d at) =
     (list_all id_fits d \<and>
      (if as \<noteq> [] then \<not> t \<and> s = [] \<and> l = 0 \<and> m = [] \<and> list_all (\<lambda>a. wf_type a \<and> bare a = a \<and> \<not> is_option a) as
       else if SameName ty ''Option'' then \<not> t \<and> s = [] \<and> l = 0
       else m = [] \<and> id_fits l \<and> (l \<noteq> 0 \<longrightarrow> s = []) \<and> (s \<noteq> [] \<longrightarrow> TakesASubtype ty)))"

definition closes :: "var_decl \<Rightarrow> token list \<Rightarrow> bool" where
  "closes d r \<longleftrightarrow> (\<exists>c q. r = punct c # q \<and> q \<noteq> [] \<and> (c \<in> {'';'', '')'', '']''} \<or> c = '','' \<and> \<not> is_option d))"

lemma dimensions_loop:
  assumes "r \<noteq> []" "list_all id_fits d"
  shows "While (\<lambda>p. \<not> AtEndOfFile p \<and> \<not> AtMark '']'' p)
      (\<lambda>dimensions p.
         if tk_kind (Here p) = IntegerToken then into ExpectInteger (\<lambda>d. give (dimensions @ [d])) p
         else skip Move (give dimensions) p) a (separated (map (\<lambda>n. [num n]) d) @ punct '']'' # r) =
    Inr (a @ d, punct '']'' # r)" (is "While ?going ?body _ _ = _")
  using assms(2)
proof (induction d arbitrary: a rule: induct_list012)
  case 1
  then show ?case by (simp add: While_stops reading_simps)
next
  case (2 n)
  then show ?case
    by (simp, subst While_step [where b = "a @ [n]" and q = "punct '']'' # r"])
      (use assms(1) in \<open>simp_all add: reading_simps While_stops\<close>)
next
  case (3 n n' ns)
  let ?q = "separated (map (\<lambda>n. [num n]) (n' # ns)) @ punct '']'' # r"
  have "While ?going ?body a (num n # punct '','' # ?q) = While ?going ?body (a @ [n]) (punct '','' # ?q)"
    by (rule While_step) (use 3 in \<open>simp_all add: reading_simps\<close>)
  also have "\<dots> = While ?going ?body (a @ [n]) ?q"
    by (rule While_step) (simp_all add: reading_simps)
  also have "\<dots> = Inr ((a @ [n]) @ n' # ns, punct '']'' # r)" using 3 by simp
  finally show ?case by simp
qed

lemma ReadDimensions_reads:
  assumes "list_all id_fits d"
  shows "ReadDimensions ((if d = [] then [] else kw ''array'' # punct ''['' # separated (map (\<lambda>n. [num n]) d) @ [punct '']'', kw ''of'']) @
    nm ty # r) = Inr (d, nm ty # r)"
proof (cases "d = []")
  case False
  define extents where "extents = While (\<lambda>p. \<not> AtEndOfFile p \<and> \<not> AtMark '']'' p)
      (\<lambda>dimensions p.
         if tk_kind (Here p) = IntegerToken then into ExpectInteger (\<lambda>d. give (dimensions @ [d])) p
         else skip Move (give dimensions) p)"
  have inner: "extents [] (separated (map (\<lambda>n. [num n]) d) @ punct '']'' # kw ''of'' # nm ty # r) =
      Inr (d, punct '']'' # kw ''of'' # nm ty # r)"
    unfolding extents_def using dimensions_loop [OF list.distinct(2) assms] by simp
  have "ReadDimensions (kw ''array'' # punct ''['' # separated (map (\<lambda>n. [num n]) d) @ punct '']'' # kw ''of'' # nm ty # r) =
      Inr (d, nm ty # r)"
    unfolding ReadDimensions_def extents_def [symmetric]
    by (rule trans [OF While_step While_stops]) (simp_all add: reading_simps inner)
  then show ?thesis using False by simp
qed (simp add: ReadDimensions_def While_stops at_simps)

lemma members_loop:
  assumes "r = punct c # q" "q \<noteq> []" "c \<noteq> '',''"
  shows "While (\<lambda>p. (AtName p \<or> AtMark '','' p) \<and> \<not> (AtWord ''var'' p \<or> AtWord ''begin'' p \<or> AtWord ''temporary'' p))
       (\<lambda>(members, expecting) p.
          if AtMark '','' p then skip Move (give (if expecting then members @ [[]] else members, True)) p
          else skip Move (give (members @ [tk_text (Here p)], False)) p) (a, True) (separated (map (\<lambda>n. [nm n]) m) @ r) =
    Inr ((a @ m, m = []), r)" (is "While ?going ?body _ _ = _")
proof (induction m arbitrary: a rule: induct_list012)
  case 1
  then show ?case using assms by (simp add: While_stops reading_simps)
next
  case (2 n)
  then show ?case
    by (simp, subst While_step [where b = "(a @ [n], False)" and q = r])
      (use assms in \<open>simp_all add: reading_simps While_stops\<close>)
next
  case (3 n n' ns)
  let ?q = "separated (map (\<lambda>n. [nm n]) (n' # ns)) @ r"
  have "While ?going ?body (a, True) (nm n # punct '','' # ?q) = While ?going ?body (a @ [n], False) (punct '','' # ?q)"
    by (rule While_step) (use assms in \<open>simp_all add: reading_simps\<close>)
  also have "\<dots> = While ?going ?body (a @ [n], True) ?q"
    by (rule While_step) (use assms in \<open>simp_all add: reading_simps\<close>)
  also have "\<dots> = Inr (((a @ [n]) @ n' # ns, False), r)" using 3 by simp
  finally show ?case by simp
qed

lemma ReadOptionMembers_reads:
  assumes "r = punct c # q" "q \<noteq> []" "c \<noteq> '',''"
  shows "ReadOptionMembers (separated (map (\<lambda>n. [nm n]) m) @ r) = Inr (m, r)"
  using members_loop [OF assms, of "[]" m] by (auto simp: ReadOptionMembers_def reading_simps)

lemma arguments_loop:
  assumes "q \<noteq> []" "\<And>a s. a \<in> set as \<Longrightarrow> closes a s \<Longrightarrow> length (show_type a @ s) \<le> n \<Longrightarrow> read (show_type a @ s) = Inr (a, s)"
    and "list_all (\<lambda>a. \<not> is_option a) as" "length (separated (map show_type as) @ punct '']'' # q) \<le> n"
  shows "While (\<lambda>p. \<not> AtEndOfFile p \<and> \<not> AtMark '']'' p)
      (\<lambda>arguments. decide (AtMark '','') (skip Move (give arguments)) (into read (\<lambda>a. give (arguments @ [a])))) b
      (separated (map show_type as) @ punct '']'' # q) = Inr (b @ as, punct '']'' # q)" (is "While ?going ?body _ _ = _")
proof -
  have hd: "\<exists>t s. show_type a = t # s \<and> (t = kw ''array'' \<or> (\<exists>ty. t = nm ty))" for a by (cases a) auto
  have go: "?going (show_type a @ s) \<and> \<not> AtMark '','' (show_type a @ s)" for a s
    using hd [of a] by (auto simp: reading_simps)
  have step: "While ?going ?body b (show_type a @ s) = While ?going ?body (b @ [a]) s"
    if "read (show_type a @ s) = Inr (a, s)" for a s b
    by (rule While_step) (use go [of a s] that hd [of a] in \<open>auto simp: reading_simps\<close>)
  show ?thesis using assms(2-4)
  proof (induction as arbitrary: b rule: induct_list012)
    case 1
    then show ?case by (simp add: While_stops reading_simps)
  next
    case (2 a)
    have "read (show_type a @ punct '']'' # q) = Inr (a, punct '']'' # q)"
      by (rule 2(1)) (use 2(3) assms(1) in \<open>auto simp: closes_def\<close>)
    then show ?case using trans [OF step While_stops, of a "punct '']'' # q" b] by (simp add: at_simps)
  next
    case (3 a a' as)
    let ?q = "separated (map show_type (a' # as)) @ punct '']'' # q"
    have "read (show_type a @ punct '','' # ?q) = Inr (a, punct '','' # ?q)"
      by (rule 3(3)) (use 3(4,5) in \<open>auto simp: closes_def\<close>)
    then have "While ?going ?body b (show_type a @ punct '','' # ?q) = While ?going ?body (b @ [a]) (punct '','' # ?q)" by (rule step)
    also have "\<dots> = While ?going ?body (b @ [a]) ?q" by (rule While_step) (simp_all add: reading_simps)
    also have "\<dots> = Inr ((b @ [a]) @ a' # as, punct '']'' # q)"
      by (rule 3(2)) (use 3(3-5) in auto)
    finally show ?case by simp
  qed
qed

lemma show_type_length: "2 \<le> length (show_type d @ r) \<or> r = []"
  by (cases d; cases r) auto

lemma ReadTypeIn_reads:
  assumes "wf_type d" "bare d = d" "closes d r" "length (show_type d @ r) \<le> n"
  shows "ReadTypeIn n (show_type d @ r) = Inr (d, r)"
  using assms
proof (induction d arbitrary: n r)
  case (VarDecl rf t nn ty s l m as d at)
  obtain c q where r: "r = punct c # q" "q \<noteq> []" "c \<in> {'';'', '')'', '']'', '',''}" "c = '','' \<Longrightarrow> \<not> SameName ty ''Option''"
    using VarDecl.prems(3) by (auto simp: closes_def)
  from VarDecl.prems(4) obtain k where n: "n = Suc k" using r(1) by (cases n) auto
  let ?rest = "if as \<noteq> [] then kw ''of'' # punct ''['' # separated (map show_type as) @ [punct '']'']
       else if SameName ty ''Option'' then separated (map (\<lambda>n. [nm n]) m)
       else (if l \<noteq> 0 then [punct ''['', num l, punct '']''] else if s \<noteq> [] then [nm s] else []) @
         (if t then [kw ''temporary''] else [])"
  have shown: "show_type (VarDecl rf t nn ty s l m as d at) @ r =
      ((if d = [] then [] else kw ''array'' # punct ''['' # separated (map (\<lambda>n. [num n]) d) @ [punct '']'', kw ''of'']) @ nm ty # ?rest @ r)"
    by simp
  have dims: "list_all id_fits d" and bare: "rf = False" "nn = []" "at = []"
    using VarDecl.prems(1,2) by simp_all
  show ?case
  proof (cases "as = []")
    case False
    have "length (?rest @ r) \<le> k"
      using VarDecl.prems(4) unfolding shown n by (auto simp: r(1))
    then have len: "length (separated (map show_type as) @ punct '']'' # r) \<le> k" using False by simp
    have "\<And>a s. a \<in> set as \<Longrightarrow> closes a s \<Longrightarrow> length (show_type a @ s) \<le> k \<Longrightarrow> ReadTypeIn k (show_type a @ s) = Inr (a, s)"
      using VarDecl.IH VarDecl.prems(1) False by (auto simp: list_all_iff)
    then have args: "While (\<lambda>p. \<not> AtEndOfFile p \<and> \<not> AtMark '']'' p)
        (\<lambda>arguments. decide (AtMark '','') (skip Move (give arguments)) (into (ReadTypeIn k) (\<lambda>a. give (arguments @ [a])))) []
        (separated (map show_type as) @ punct '']'' # r) = Inr (as, punct '']'' # r)"
      using arguments_loop [of r as k "ReadTypeIn k" "[]"] len VarDecl.prems(1) False r by (auto simp: list_all_iff)
    define loop where "loop = While (\<lambda>p. \<not> AtEndOfFile p \<and> \<not> AtMark '']'' p)
        (\<lambda>arguments. decide (AtMark '','') (skip Move (give arguments)) (into (ReadTypeIn k) (\<lambda>a. give (arguments @ [a]))))"
    show ?thesis
      unfolding shown n ReadTypeIn.simps loop_def [symmetric]
      using args [folded loop_def] False VarDecl.prems(1) r
      by (simp add: ReadDimensions_reads [OF dims] into_gives composed reading_simps bare)
  next
    case True
    note plain = VarDecl.prems(1) r True
    have tail: "ReadTemporary ((if t then [kw ''temporary''] else []) @ r) = Inr (t, r)"
    proof (cases t)
      case True
      have "While (AtWord ''temporary'') (\<lambda>_. skip Move (give True)) False (kw ''temporary'' # r) = Inr (True, r)"
        by (rule trans [OF While_step While_stops]) (use r in \<open>simp_all add: reading_simps\<close>)
      then show ?thesis using True by (simp add: ReadTemporary_def)
    qed (use r in \<open>simp add: ReadTemporary_def While_stops at_simps\<close>)
    let ?tail = "(if t then [kw ''temporary''] else []) @ r"
    have tail_ne: "?tail \<noteq> []" "\<not> AtMark ''['' ?tail" "\<not> AtMark ''.'' ?tail" "\<not> AtWord ''of'' ?tail"
      using r by (auto simp: at_simps)
    have subtype: "ReadSubtypeName ?tail = Inr ([], ?tail)" if "AtName ?tail \<or> tk_kind (Here ?tail) = IntegerToken"
      using that r by (auto simp: ReadSubtypeName_def give_def at_simps tok_fields split: if_splits)
    consider "SameName ty ''Option''" | "\<not> SameName ty ''Option''" "l \<noteq> 0" | "\<not> SameName ty ''Option''" "l = 0" "s \<noteq> []"
      | "\<not> SameName ty ''Option''" "l = 0" "s = []" by blast
    then show ?thesis
    proof cases
      case 1
      have c: "c \<noteq> '',''" using 1 r(4) by blast
      have "\<not> AtWord ''of'' (separated (map (\<lambda>n. [nm n]) m) @ r)"
        using r by (cases m; cases "tl m") (auto simp: at_simps)
      then show ?thesis
        unfolding shown n ReadTypeIn.simps
        using plain 1 ReadOptionMembers_reads [OF r(1,2) c, of m] by (simp add: ReadDimensions_reads [OF dims] reading_simps bare)
    next
      case 2
      then show ?thesis
        unfolding shown n ReadTypeIn.simps
        using plain tail tail_ne
        by (simp add: ReadDimensions_reads [OF dims] reading_simps bare ReadLength_def SkipTo_def While_stops)
    next
      case 3
      then show ?thesis
        unfolding shown n ReadTypeIn.simps
        using plain tail tail_ne
        by (simp add: ReadDimensions_reads [OF dims] reading_simps bare ReadSubtypeName_def ReadDotted_def While_stops)
    next
      case 4
      then show ?thesis
        unfolding shown n ReadTypeIn.simps
        using plain tail tail_ne subtype
        by (simp add: ReadDimensions_reads [OF dims] reading_simps bare)
    qed
  qed
qed

lemma ReadType_reads:
  assumes "wf_type d" "closes d r"
  shows "ReadType (show_type d @ r) = Inr (bare d, r)"
proof -
  have "show_type (bare d) = show_type d" "wf_type (bare d)" "closes (bare d) r" "bare (bare d) = bare d"
    using assms by (cases d; simp add: closes_def)+
  then show ?thesis using ReadTypeIn_reads [of "bare d" r] unfolding ReadType_def by simp
qed

lemma closes_simps [simp]:
  "r \<noteq> [] \<Longrightarrow> closes d (punct '';'' # r)" "r \<noteq> [] \<Longrightarrow> closes d (punct '')'' # r)"
  unfolding closes_def by blast+

lemma Named_simps [simp]: "Attributed as (Named n (bare d)) = d \<longleftrightarrow> \<not> vd_byReference d \<and> vd_name d = n \<and> vd_attributes d = as"
  "Named n (ByReference b (bare d)) = d \<longleftrightarrow> vd_byReference d = b \<and> vd_name d = n \<and> vd_attributes d = []"
  "Named n (bare d) = d \<longleftrightarrow> \<not> vd_byReference d \<and> vd_name d = n \<and> vd_attributes d = []"
  by (cases d; auto)+

section \<open>Variables\<close>

lemma Loop_step:
  "going a p \<Longrightarrow> body a p = Inr (b, q) \<Longrightarrow> length q < length p \<Longrightarrow> Loop rank going body a p = Loop rank going body b q"
  by (subst Loop.simps) simp

lemma Loop_ranks:
  "going a p \<Longrightarrow> body a p = Inr (b, p) \<Longrightarrow> rank b < rank a \<Longrightarrow> Loop rank going body a p = Loop rank going body b p"
  by (subst Loop.simps) simp

lemma Loop_stops: "\<not> going a r \<Longrightarrow> Loop rank going body a r = Inr (a, r)"
  by (subst Loop.simps) simp

definition show_attribute :: "string \<Rightarrow> token list" where
  "show_attribute a = [punct ''['', kw a, punct '']'']"

abbreviation show_attributes :: "string list \<Rightarrow> token list" where
  "show_attributes as \<equiv> concat (map show_attribute as)"

lemma ReadAttribute_reads:
  assumes "r \<noteq> []"
  shows "ReadAttribute (show_attribute a @ r) = Inr (a, r)"
proof -
  let ?going = "\<lambda>(written, depth) p. \<not> AtEndOfFile p \<and> 0 < depth"
  let ?body = "\<lambda>(written, depth) p.
      let depth = Deeper ''['' '']'' p depth in
      skip Move (give (if 0 < depth then written @ Written (Here p) else written, depth)) p"
  have "Loop snd ?going ?body ([], 1) (kw a # punct '']'' # r) = Loop snd ?going ?body (a, 1) (punct '']'' # r)"
    by (rule Loop_step) (use assms in \<open>simp_all add: reading_simps Deeper_def Written_def\<close>)
  also have "\<dots> = Loop snd ?going ?body (a, 0) r"
    by (rule Loop_step) (use assms in \<open>simp_all add: reading_simps Deeper_def Written_def\<close>)
  also have "\<dots> = Inr ((a, 0), r)" by (rule Loop_stops) simp
  finally show ?thesis using assms unfolding ReadAttribute_def show_attribute_def by (simp add: skips into_gives give_def)
qed

lemma PassAttribute_passes:
  assumes "r \<noteq> []"
  shows "PassAttribute (show_attribute a @ r) = Inr ((), r)"
proof -
  let ?going = "\<lambda>depth p. \<not> AtEndOfFile p \<and> 0 < depth"
  let ?body = "\<lambda>depth p. skip Move (give (Deeper ''['' '']'' p depth)) p"
  have "Loop (\<lambda>d. d) ?going ?body 1 (kw a # punct '']'' # r) = Loop (\<lambda>d. d) ?going ?body 1 (punct '']'' # r)"
    by (rule Loop_step) (use assms in \<open>simp_all add: reading_simps Deeper_def\<close>)
  also have "\<dots> = Loop (\<lambda>d. d) ?going ?body 0 r"
    by (rule Loop_step) (use assms in \<open>simp_all add: reading_simps Deeper_def\<close>)
  also have "\<dots> = Inr (0, r)" by (rule Loop_stops) simp
  finally have "SkipNested ''['' '']'' 1 (kw a # punct '']'' # r) = Inr (0, r)" by (simp add: SkipNested_def)
  then show ?thesis unfolding PassAttribute_def show_attribute_def
    by (simp add: reading_simps Deeper_def)
qed

lemma attributes_pass:
  assumes "r \<noteq> []" "\<not> AtMark ''['' r"
  shows "While (AtMark ''['') (\<lambda>_. PassAttribute) () (show_attributes as @ r) = Inr ((), r)"
proof -
  have "While (AtMark ''['') (\<lambda>_. PassAttribute) () (show_attributes as @ r) = Inr (fold (\<lambda>_ _. ()) as (), r)"
    by (rule While_reads) (use assms PassAttribute_passes in \<open>auto simp: show_attribute_def at_simps\<close>)
  then show ?thesis by simp
qed

text \<open>An attribute belongs to a variable when a name and a colon follow it, and not when \<open>procedure\<close> and a name do.\<close>

abbreviation FollowsLoop :: "bool option \<Rightarrow> bool option reading" where
  "FollowsLoop \<equiv> Loop (\<lambda>answer. if answer = None then 1 else 0) (\<lambda>answer p. answer = None \<and> AtName p)
     (\<lambda>_ p.
        if IsPunctuation (Ahead p) '':'' then Inr (Some True, p)
        else if \<not> IsPunctuation (Ahead p) '','' then Inr (Some False, p)
        else skip Move (skip Move (give None)) p)"

lemma VariableFollows:
  assumes "r \<noteq> []" "\<not> AtMark ''['' r" "FollowsLoop None r = Inr (Some b, r)"
  shows "VariableFollowsAttribute (show_attributes as @ r) = Inr b"
proof -
  define answer where "answer = FollowsLoop"
  show ?thesis
    using assms attributes_pass [OF assms(1,2)]
    unfolding VariableFollowsAttribute_def answer_def [symmetric] by (simp add: into_gives give_def)
qed

lemma VariableFollows_variable: "VariableFollowsAttribute (show_attributes as @ nm n # punct '':'' # r) = Inr True"
  by (rule VariableFollows, simp, simp add: at_simps, rule trans [OF Loop_ranks Loop_stops]) (simp_all add: reading_simps)

lemma VariableFollows_procedure:
  assumes "k \<noteq> Punctuation"
  shows "VariableFollowsAttribute (show_attributes as @ kw w # tok k n # r) = Inr False"
  by (rule VariableFollows, simp, simp add: at_simps, rule trans [OF Loop_ranks Loop_stops]) (use assms in \<open>simp_all add: reading_simps\<close>)

definition show_variable :: "var_decl \<Rightarrow> token list" where
  "show_variable d = show_attributes (vd_attributes d) @ nm (vd_name d) # punct '':'' # show_type d @ [punct '';'']"

definition wf_variable :: "var_decl \<Rightarrow> bool" where
  "wf_variable d \<longleftrightarrow> wf_type d \<and> \<not> vd_byReference d"

definition show_label :: "label_decl \<Rightarrow> token list" where
  "show_label b = [nm (lb_name b), punct '':'', kw ''Label'', tok StringToken (lb_text b), punct '';'']"

lemma ReadNames_reads: "r \<noteq> [] \<Longrightarrow> ReadNames (nm n # punct '':'' # r) = Inr ([n], punct '':'' # r)"
  by (simp add: ReadNames_def reading_simps While_stops)

lemma SkipTo_reads: "SkipTo m (punct m # r) = Inr ((), punct m # r)"
  by (simp add: SkipTo_def While_stops at_simps)

abbreviation VariablesLoop :: "vars \<Rightarrow> vars reading" where
  "VariablesLoop \<equiv> Loop (\<lambda>v. if vs_returned v then 0 else 1) (\<lambda>v p. \<not> vs_returned v \<and> AtVariables p) VariableStep"

lemma at_variables: "AtVariables (nm n # r)" "AtVariables (punct ''['' # r)"
  by (simp_all add: AtVariables_def AtProcedure_def at_simps)

lemma VariableStep_attribute:
  assumes "VariableFollowsAttribute (show_attribute a @ r) = Inr True" "r \<noteq> []"
  shows "VariableStep v (show_attribute a @ r) = Inr (v\<lparr>vs_pending := vs_pending v @ [a]\<rparr>, r)"
  using assms ReadAttribute_reads [OF assms(2), of a]
  by (simp add: VariableStep_def decide_def into_gives give_def) (simp add: show_attribute_def at_simps)

lemma type_head: "\<not> AtWord ''Label'' (show_type d @ r)"
  by (cases d) (auto simp: at_simps)

lemma VariableStep_variable:
  assumes "wf_variable d" "r \<noteq> []" "vs_pending v = vd_attributes d"
  shows "VariableStep v (nm (vd_name d) # punct '':'' # show_type d @ punct '';'' # r) =
    Inr (v\<lparr>vs_variables := vs_variables v @ [d], vs_pending := []\<rparr>, r)"
  using assms type_head [of d "punct '';'' # r"]
  by (simp add: VariableStep_def wf_variable_def SkipTo_reads reading_simps ReadNames_reads ReadType_reads)

lemma VariableStep_label:
  assumes "r \<noteq> []" "vs_pending v = []"
  shows "VariableStep v (show_label b @ r) = Inr (v\<lparr>vs_labels := vs_labels v @ [b]\<rparr>, r)"
  using assms
  by (simp add: VariableStep_def show_label_def reading_simps ReadNames_reads ReadVariableLabels_def SkipTo_reads)

lemma attributes_read:
  assumes "r \<noteq> []"
  shows "\<not> vs_returned v \<Longrightarrow> VariablesLoop v (show_attributes as @ nm n # punct '':'' # r) =
    VariablesLoop (v\<lparr>vs_pending := vs_pending v @ as\<rparr>) (nm n # punct '':'' # r)"
proof (induction as arbitrary: v)
  case (Cons a as)
  let ?r = "show_attributes as @ nm n # punct '':'' # r"
  have "VariableFollowsAttribute (show_attribute a @ ?r) = Inr True"
    using VariableFollows_variable [of "a # as"] by simp
  then have "VariablesLoop v (show_attribute a @ ?r) = VariablesLoop (v\<lparr>vs_pending := vs_pending v @ [a]\<rparr>) ?r"
    by (intro Loop_step VariableStep_attribute) (use Cons.prems in \<open>simp_all add: show_attribute_def at_variables\<close>)
  then show ?case using Cons by simp
qed simp

lemma variables_read:
  assumes "list_all wf_variable ds" "r \<noteq> []"
  shows "\<not> vs_returned v \<Longrightarrow> vs_pending v = [] \<Longrightarrow> VariablesLoop v (concat (map show_variable ds) @ r) =
    VariablesLoop (v\<lparr>vs_variables := vs_variables v @ ds\<rparr>) r"
  using assms(1)
proof (induction ds arbitrary: v)
  case (Cons d ds)
  let ?r = "concat (map show_variable ds) @ r"
  let ?w = "v\<lparr>vs_variables := vs_variables v @ [d]\<rparr>"
  have "VariablesLoop v (show_variable d @ ?r) =
      VariablesLoop (v\<lparr>vs_pending := vd_attributes d\<rparr>) (nm (vd_name d) # punct '':'' # show_type d @ punct '';'' # ?r)"
    using attributes_read [of "show_type d @ punct '';'' # ?r" v] Cons.prems by (simp add: show_variable_def)
  also have "\<dots> = VariablesLoop ((v\<lparr>vs_pending := vd_attributes d\<rparr>)\<lparr>vs_variables := vs_variables v @ [d], vs_pending := []\<rparr>) ?r"
    by (rule Loop_step)
      (use Cons.prems assms(2) VariableStep_variable [of d ?r "v\<lparr>vs_pending := vd_attributes d\<rparr>"] in \<open>simp_all add: at_variables\<close>)
  also have "\<dots> = VariablesLoop ?w ?r"
    using Cons.prems by (cases v) simp
  also have "\<dots> = VariablesLoop (?w\<lparr>vs_variables := vs_variables ?w @ ds\<rparr>) r"
    by (rule Cons.IH) (use Cons.prems in simp_all)
  finally show ?case by simp
qed simp

lemma labels_read:
  assumes "r \<noteq> []"
  shows "\<not> vs_returned v \<Longrightarrow> vs_pending v = [] \<Longrightarrow> VariablesLoop v (concat (map show_label bs) @ r) =
    VariablesLoop (v\<lparr>vs_labels := vs_labels v @ bs\<rparr>) r"
proof (induction bs arbitrary: v)
  case (Cons b bs)
  let ?r = "concat (map show_label bs) @ r"
  let ?w = "v\<lparr>vs_labels := vs_labels v @ [b]\<rparr>"
  have "VariablesLoop v (show_label b @ ?r) = VariablesLoop ?w ?r"
    by (intro Loop_step VariableStep_label) (use Cons.prems assms in \<open>simp_all add: show_label_def at_variables\<close>)
  also have "\<dots> = VariablesLoop (?w\<lparr>vs_labels := vs_labels ?w @ bs\<rparr>) r"
    by (rule Cons.IH) (use Cons.prems in simp_all)
  finally show ?case by simp
qed simp

text \<open>What ends the variables: a word or a mark, or the attribute of a procedure.\<close>

definition after_variables :: "token list \<Rightarrow> bool" where
  "after_variables r \<longleftrightarrow> r \<noteq> [] \<and> (AtVariables r \<longrightarrow> AtMark ''['' r \<and> VariableFollowsAttribute r = Inr False)"

lemma variables_stop:
  assumes "after_variables r" "\<not> vs_returned v"
  shows "\<exists>w. VariablesLoop v r = Inr (w, r) \<and> vs_labels w = vs_labels v \<and> vs_variables w = vs_variables v"
proof (cases "AtVariables r")
  case True
  then have "VariableStep v r = Inr (v\<lparr>vs_returned := True\<rparr>, r)"
    using assms by (simp add: VariableStep_def decide_def after_variables_def)
  then have "VariablesLoop v r = Inr (v\<lparr>vs_returned := True\<rparr>, r)"
    by (intro trans [OF Loop_ranks Loop_stops]) (use True assms in simp_all)
  then show ?thesis by simp
next
  case False
  then show ?thesis by (simp add: Loop_stops)
qed

lemma ParseVarsInto_reads:
  assumes "list_all wf_variable ds" "after_variables r"
  shows "ParseVarsInto labels variables (concat (map show_label bs) @ concat (map show_variable ds) @ r) =
    Inr ((labels @ bs, variables @ ds), r)"
proof -
  let ?v = "\<lparr>vs_pending = [], vs_labels = labels, vs_variables = variables, vs_returned = False\<rparr>"
  let ?w = "\<lparr>vs_pending = [], vs_labels = labels @ bs, vs_variables = variables, vs_returned = False\<rparr>"
  let ?x = "\<lparr>vs_pending = [], vs_labels = labels @ bs, vs_variables = variables @ ds, vs_returned = False\<rparr>"
  have r: "r \<noteq> []" using assms(2) by (simp add: after_variables_def)
  have "VariablesLoop ?v (concat (map show_label bs) @ concat (map show_variable ds) @ r) = VariablesLoop ?x r"
    using labels_read [of "concat (map show_variable ds) @ r" ?v bs] variables_read [OF assms(1) r, of ?w] r by simp
  then show ?thesis
    using variables_stop [OF assms(2), of ?x] by (auto simp: ParseVarsInto_def into_def give_def)
qed

definition show_vars :: "label_decl list \<Rightarrow> var_decl list \<Rightarrow> token list" where
  "show_vars bs ds = (if bs = [] \<and> ds = [] then [] else kw ''var'' # concat (map show_label bs) @ concat (map show_variable ds))"

lemma ReadLocalVars_reads:
  assumes "list_all wf_variable ds" "after_variables r" "\<not> AtWord ''var'' r"
  shows "ReadLocalVars labels variables (show_vars bs ds @ r) = Inr ((labels @ bs, variables @ ds), r)"
  using assms ParseVarsInto_reads [OF assms(1,2), of labels variables bs]
  by (auto simp: ReadLocalVars_def show_vars_def decide_def give_def at_simps skips after_variables_def)

section \<open>Bodies\<close>

text \<open>
  Tokens that a body's loop passes: it keeps them and is as deep behind them as before, whatever its depth. What is
  neither \<open>begin\<close>, \<open>case\<close>, \<open>end\<close> nor the end of the file passes, a sequence of what passes does, and so does what
  stands between \<open>begin\<close> or \<open>case\<close> and \<open>end\<close>.
\<close>

abbreviation BodyLoop :: "token list \<times> nat \<Rightarrow> (token list \<times> nat) reading" where
  "BodyLoop \<equiv> Loop snd (\<lambda>(body, depth) p. 0 < depth \<and> \<not> AtEndOfFile p) BodyStep"

definition passes :: "token list \<Rightarrow> bool" where
  "passes ts \<longleftrightarrow> (\<forall>body d r. 0 < d \<longrightarrow> r \<noteq> [] \<longrightarrow> BodyLoop (body, d) (ts @ r) = BodyLoop (body @ ts, d) r)"

definition ordinary :: "token \<Rightarrow> bool" where
  "ordinary t \<longleftrightarrow> tk_kind t \<noteq> EndOfFile \<and> \<not> IsKeyword t ''begin'' \<and> \<not> IsKeyword t ''case'' \<and> \<not> IsKeyword t ''end''"

lemma passes_Nil [simp]: "passes []"
  by (simp add: passes_def)

lemma passes_append [intro, simp]: "passes ts \<Longrightarrow> passes us \<Longrightarrow> passes (ts @ us)"
  by (simp add: passes_def)

lemma passes_all: "(\<And>ts. ts \<in> set tss \<Longrightarrow> passes ts) \<Longrightarrow> passes (concat tss)"
  by (induction tss) simp_all

lemma BodyStep_moves:
  assumes "r \<noteq> []" "\<not> IsKeyword t ''end''"
  shows "BodyStep (body, d) (t # r) =
    Inr ((body @ [t], if IsKeyword t ''begin'' \<or> IsKeyword t ''case'' then d + 1 else d), r)"
  using assms by (simp add: BodyStep_def AtWord_def reading_simps)

lemma plain_passes: "ordinary t \<Longrightarrow> passes [t]"
  unfolding passes_def append_Cons append_Nil
  by (intro allI impI Loop_step) (simp_all add: BodyStep_moves ordinary_def AtEndOfFile_def)

lemma passes_Cons [simp]: "ordinary t \<Longrightarrow> passes ts \<Longrightarrow> passes (t # ts)"
  using passes_append [OF plain_passes, of t ts] by simp

lemma passes_plain: "list_all ordinary ts \<Longrightarrow> passes ts"
  by (induction ts) simp_all

lemma passes_block:
  assumes "passes ts" "w = ''begin'' \<or> w = ''case''"
  shows "passes (kw w # ts @ [kw ''end''])"
  unfolding passes_def
proof (intro allI impI)
  fix body :: "token list" and d :: nat and r
  assume d: "0 < d" and r: "r \<noteq> ([] :: token list)"
  have "BodyLoop (body, d) (kw w # ts @ kw ''end'' # r) = BodyLoop (body @ [kw w], d + 1) (ts @ kw ''end'' # r)"
    by (rule Loop_step) (use d assms(2) in \<open>auto simp: BodyStep_moves keyword_kw at_simps\<close>)
  also have "\<dots> = BodyLoop (body @ kw w # ts, d + 1) (kw ''end'' # r)"
    using assms(1) by (simp add: passes_def)
  also have "\<dots> = BodyLoop (body @ kw w # ts @ [kw ''end''], d) r"
    by (rule Loop_step) (use d r in \<open>auto simp: BodyStep_def reading_simps\<close>)
  finally show "BodyLoop (body, d) ((kw w # ts @ [kw ''end'']) @ r) = BodyLoop (body @ kw w # ts @ [kw ''end''], d) r" by simp
qed

lemma BodyLoop_reads:
  assumes "passes ts" "r \<noteq> []"
  shows "BodyLoop ([], 1) (ts @ kw ''end'' # punct '';'' # r) = Inr ((ts, 0), r)"
proof -
  have "BodyLoop ([], 1) (ts @ kw ''end'' # punct '';'' # r) = BodyLoop (ts, 1) (kw ''end'' # punct '';'' # r)"
    using assms(1) by (simp add: passes_def)
  also have "\<dots> = BodyLoop (ts, 0) r"
    by (rule Loop_step) (use assms in \<open>auto simp: BodyStep_def Optional_def reading_simps\<close>)
  finally show ?thesis by (simp add: Loop_stops)
qed

lemma SkipBeginEnd_reads:
  assumes "list_all wf_variable ds" "passes ts" "r \<noteq> []"
  shows "SkipBeginEnd labels variables (show_vars bs ds @ kw ''begin'' # ts @ kw ''end'' # punct '';'' # r) =
    Inr ((ts, labels @ bs, variables @ ds), r)"
proof -
  have "after_variables (kw ''begin'' # q)" for q
    by (simp add: after_variables_def AtVariables_def at_simps)
  from ReadLocalVars_reads [OF assms(1) this] have
    "ReadLocalVars labels variables (show_vars bs ds @ kw ''begin'' # q) = Inr ((labels @ bs, variables @ ds), kw ''begin'' # q)" for q
    by (simp add: at_simps)
  then show ?thesis
    using BodyLoop_reads [OF assms(2,3)] by (simp add: SkipBeginEnd_def into_gives skips give_def)
qed

text \<open>The tokens of written expressions are plain, and those of written statements pass.\<close>

lemma plain_tok:
  "ordinary (punct t)" "ordinary (name_token t)" "ordinary (tok StringToken t)" "ordinary (tok IntegerToken t)" "ordinary (tok DateTimeToken t)"
  "ordinary (kw t) \<longleftrightarrow> map to_lower t \<notin> {''begin'', ''case'', ''end''}"
  by (auto simp: ordinary_def name_token_def reserved_def keyword_tok tok_fields)

lemma plain_op: "0 < PrecedenceOf (op_token t) \<Longrightarrow> ordinary (op_token t)"
  by (rule ccontr)
    (auto simp: ordinary_def op_token_def PrecedenceOf_def kLevels_def keyword_tok IsPunctuation_def tok_fields split: if_splits)

lemma plain_unary: "map to_lower t = ''not'' \<or> t = ''-'' \<or> t = ''+'' \<Longrightarrow> ordinary (op_token t)"
  by (auto simp: ordinary_def op_token_def keyword_tok tok_fields)

lemma plain_separated: "(\<And>ts. ts \<in> set tss \<Longrightarrow> list_all ordinary ts) \<Longrightarrow> list_all ordinary (separated tss)"
  by (induction tss rule: separated.induct) (auto simp: plain_tok)

lemma set_mono_tl: "set (tl xs) \<subseteq> set xs"
  by (cases xs) auto

lemma plain_expr: "well_formed e \<Longrightarrow> list_all ordinary (show_expr l e)"
proof (induction e arbitrary: l)
  case (Expr k t es)
  have list: "list_all ordinary (separated (map (show_expr 0) as))" if "set as \<subseteq> set es" for as
    using Expr that by (intro plain_separated) (auto simp: well_formed.simps list_all_iff)
  have one: "list_all ordinary (show_expr n e)" if "e \<in> set es" for e n
    using Expr that by (auto simp: well_formed.simps list_all_iff)
  show ?case
    using Expr.prems list [of es] list [of "tl es", OF set_mono_tl] one
    by (cases k) (auto simp: show_expr.simps well_formed.simps brackets_def plain_tok plain_op plain_unary split: list.splits)
qed

lemma ordinary_value:
  assumes "value_fits e"
  shows "list_all ordinary (show_value e)"
proof (cases "ex_kind e = BinaryExpr \<and> ex_text e \<in> set assignments")
  case True
  then obtain a b where "ex_children e = [a, b]" "well_formed a" "well_formed b"
    using assms by (auto simp: value_fits_def fits_def length_Suc_conv numeral_2_eq_2)
  then show ?thesis using True by (simp add: show_value_def plain_expr plain_tok)
next
  case False
  then have "well_formed e" using assms by (auto simp: value_fits_def fits_def)
  then show ?thesis using False by (auto simp: show_value_def plain_expr)
qed

lemma passes_expr: "well_formed e \<Longrightarrow> passes (show_expr l e)"
  by (intro passes_plain plain_expr)

lemma passes_labels: "list_all label_fits ls \<Longrightarrow> passes (separated (map (show_expr 0) ls))"
  by (intro passes_plain plain_separated) (auto simp: list_all_iff label_fits_def intro: plain_expr [unfolded list_all_iff, rule_format])

lemma passes_stmt: "wf_stmt s \<Longrightarrow> passes (show_stmt s)"
proof (induction s)
  case (Stmt k e ls body els down)
  have wf: "list_all wf_stmt body" "list_all wf_stmt els" using Stmt.prems unfolding wf_stmt.simps by blast+
  have each: "s \<in> set body \<Longrightarrow> passes (show_stmt s)" "s \<in> set els \<Longrightarrow> passes (show_stmt s)" for s
    using wf Stmt.IH by (simp_all add: list_all_iff)
  have b: "passes (concat (map show_stmt body))" "passes (concat (map (\<lambda>s. show_stmt s @ [punct '';'']) body))"
    "passes (concat (map (\<lambda>s. show_stmt s @ [punct '';'']) els))" "passes (concat (map show_stmt els))"
    using each by (auto simp: plain_tok intro!: passes_all)
  have ex: "fits a \<Longrightarrow> passes (show_expr l a)" "postfix_fits a \<Longrightarrow> passes (show_expr l a)" for l a
    by (auto simp: fits_def postfix_fits_def intro: passes_expr)
  have ls: "list_all fits ls \<Longrightarrow> passes (concat (map (show_expr 0) ls))"
    by (auto simp: list_all_iff intro!: passes_all ex(1))
  note block = passes_block [OF b(2), of "''begin''"]
  have branches: "passes (kw ''case'' # (show_expr 0 e @ kw ''of'' # concat (map show_stmt body) @
      (if els = [] then [] else kw ''else'' # concat (map (\<lambda>s. show_stmt s @ [punct '';'']) els))) @ [kw ''end''])" if "fits e"
    by (rule passes_block) (use b ex(1) [OF that] in \<open>simp_all add: plain_tok\<close>)
  show ?case
    using Stmt.prems b block branches ls passes_labels [of ls] passes_plain [OF ordinary_value, of e]
    by (cases k) (simp_all add: show_stmt.simps wf_stmt.simps plain_tok ex)
qed

lemma passes_show_block: "list_all wf_stmt ss \<Longrightarrow> passes (show_block ss)"
  unfolding show_block_def by (rule passes_all) (auto simp: list_all_iff plain_tok passes_stmt)

end
