(* ===== verification/CodeunitText.thy ===== *)
theory CodeunitText
  imports ProcedureText
begin

text \<open>
  The round trips of procedures and of the objects that hold them, of \<^verbatim>\<open>src/src/al/Parser.cpp\<close>: \<open>show_procedure\<close> and
  \<open>show_codeunit\<close> write what \<open>ParseProcedure\<close> and \<open>ParseCodeunit\<close> read back, with every attribute, parameter, local
  label and variable, result and statement where it was.
\<close>

section \<open>Procedures\<close>

fun joined :: "token \<Rightarrow> token list list \<Rightarrow> token list" where
  "joined t [] = []"
| "joined t [ts] = ts"
| "joined t (ts # rest) = ts @ t # joined t rest"

definition show_parameter :: "var_decl \<Rightarrow> token list" where
  "show_parameter d = (if vd_byReference d then [kw ''var''] else []) @ nm (vd_name d) # punct '':'' # show_type d"

definition wf_parameter :: "var_decl \<Rightarrow> bool" where
  "wf_parameter d \<longleftrightarrow> wf_type d \<and> vd_attributes d = []"

definition show_signature :: "procedure_decl \<Rightarrow> token list" where
  "show_signature p =
     (if pd_isLocal p then [kw ''local''] else []) @ kw (if pd_isTrigger p then ''trigger'' else ''procedure'') #
     nm (pd_name p) # punct ''('' # joined (punct '';'') (map show_parameter (pd_parameters p)) @ punct '')'' #
     (if pd_returnName p \<noteq> [] then [nm (pd_returnName p)] else []) @
     (if pd_returnType p \<noteq> [] then punct '':'' # show_type (pd_returned p) else []) @ [punct '';'']"

definition wf_signature :: "procedure_decl \<Rightarrow> bool" where
  "wf_signature p \<longleftrightarrow> list_all wf_parameter (pd_parameters p) \<and>
     (if pd_returnType p = [] then pd_returned p = NoVar \<and> pd_returnSubtype p = []
      else wf_variable (pd_returned p) \<and> vd_attributes (pd_returned p) = [] \<and> vd_name (pd_returned p) = pd_returnName p \<and>
        vd_type (pd_returned p) = pd_returnType p \<and> vd_subtype (pd_returned p) = pd_returnSubtype p)"

definition show_procedure :: "procedure_decl \<Rightarrow> token list" where
  "show_procedure p = show_signature p @ show_vars (pd_labels p) (pd_variables p) @
     kw ''begin'' # pd_tokens p @ [kw ''end'', punct '';'']"

definition wf_procedure :: "procedure_decl \<Rightarrow> bool" where
  "wf_procedure p \<longleftrightarrow> wf_signature p \<and> pd_hasBody p \<and> list_all wf_variable (pd_variables p) \<and>
     list_all (\<lambda>s. wf_stmt s \<and> \<not> is_branch s) (pd_body p) \<and> pd_tokens p = show_block (pd_body p)"

lemma ReadParameter_reads:
  assumes "wf_parameter d" "closes d r"
  shows "ReadParameter (show_parameter d @ r) = Inr (d, r)"
proof -
  have ne: "show_type d @ r \<noteq> []" by (cases d) auto
  show ?thesis
    using assms ReadType_reads [of d r] ne
    by (cases "vd_byReference d") (simp_all add: ReadParameter_def show_parameter_def wf_parameter_def reading_simps)
qed

lemma parameter_first: "\<not> AtMark '')'' (show_parameter d @ r)"
  by (simp add: show_parameter_def at_simps)

lemma show_parameter_nonempty [simp]: "show_parameter d \<noteq> []"
  by (simp add: show_parameter_def)

lemma parameters_loop:
  assumes "list_all wf_parameter ds" "r \<noteq> []"
  shows "While (\<lambda>p. \<not> AtMark '')'' p)
      (\<lambda>ds. into ReadParameter (\<lambda>d. skip (Optional '';'') (give (ds @ [d])))) as
      (joined (punct '';'') (map show_parameter ds) @ punct '')'' # r) = Inr (as @ ds, punct '')'' # r)"
    (is "While ?going ?body _ _ = _")
  using assms(1)
proof (induction ds arbitrary: as rule: induct_list012)
  case 1
  then show ?case by (simp add: While_stops at_simps)
next
  case (2 d)
  have "While ?going ?body as (show_parameter d @ punct '')'' # r) = Inr (as @ [d], punct '')'' # r)"
    by (rule trans [OF While_step While_stops])
      (use 2 assms(2) parameter_first in \<open>simp_all add: ReadParameter_reads Optional_def reading_simps\<close>)
  then show ?case by simp
next
  case (3 d d' ds)
  let ?q = "joined (punct '';'') (map show_parameter (d' # ds)) @ punct '')'' # r"
  have q: "?q \<noteq> []" by (cases ds) (auto simp: show_parameter_def)
  have "While ?going ?body as (show_parameter d @ punct '';'' # ?q) = While ?going ?body (as @ [d]) ?q"
    by (rule While_step)
      (use 3 q parameter_first in \<open>simp_all add: ReadParameter_reads Optional_def reading_simps\<close>)
  also have "\<dots> = Inr ((as @ [d]) @ d' # ds, punct '')'' # r)" by (rule 3) (use 3 in simp)
  finally show ?case by simp
qed

lemma ReadParameters_reads:
  assumes "list_all wf_parameter ds" "r \<noteq> []"
  shows "ReadParameters [] (punct ''('' # joined (punct '';'') (map show_parameter ds) @ punct '')'' # r) = Inr (ds, r)"
  using parameters_loop [OF assms, of "[]"] assms(2) by (simp add: ReadParameters_def into_gives skips give_def)

lemma ReadModifiers_reads:
  assumes "\<not> AtWord ''local'' (t # r)" "\<not> AtWord ''internal'' (t # r)" "\<not> AtWord ''protected'' (t # r)"
  shows "ReadModifiers False ((if b then [kw ''local''] else []) @ t # r) = Inr (b, t # r)"
proof (cases b)
  case True
  have "ReadModifiers False (kw ''local'' # t # r) = Inr (True, t # r)"
    unfolding ReadModifiers_def
    by (rule trans [OF While_step While_stops]) (use assms in \<open>simp_all add: reading_simps\<close>)
  then show ?thesis using True by simp
qed (use assms in \<open>simp add: ReadModifiers_def While_stops\<close>)

lemma bare_fields [simp]: "vd_type (bare d) = vd_type d" "vd_subtype (bare d) = vd_subtype d"
  by (cases d; simp)+

lemma ReadResult_reads:
  assumes "r \<noteq> []" "ty \<noteq> [] \<Longrightarrow> wf_type d"
  shows "ReadResult interface ((if n \<noteq> [] then [nm n] else []) @ (if ty \<noteq> [] then punct '':'' # show_type d else []) @
    punct '';'' # r) = Inr ((n, if ty \<noteq> [] then Some (bare d) else None), r)"
proof -
  have ne: "show_type d @ q \<noteq> []" for q by (cases d) auto
  show ?thesis
    using assms ReadType_reads [of d "punct '';'' # r"] ne
    by (simp add: ReadResult_def Optional_def reading_simps)
qed

lemma ReadSignature_reads:
  assumes "wf_signature p" "r \<noteq> []"
  shows "ReadSignature interface (NoProcedure\<lparr>pd_attributes := as\<rparr>) (show_signature p @ r) =
    Inr (p\<lparr>pd_attributes := as, pd_hasBody := False, pd_variables := [], pd_labels := [], pd_tokens := [], pd_body := []\<rparr>, r)"
proof -
  let ?result = "(if pd_returnName p \<noteq> [] then [nm (pd_returnName p)] else []) @
     (if pd_returnType p \<noteq> [] then punct '':'' # show_type (pd_returned p) else []) @ punct '';'' # r"
  have w: "pd_returnType p \<noteq> [] \<Longrightarrow> wf_type (pd_returned p)" "list_all wf_parameter (pd_parameters p)" "?result \<noteq> []"
    using assms(1) by (simp_all add: wf_signature_def wf_variable_def)
  have name: "ReadProcedureName (nm (pd_name p) # punct ''('' # q) = Inr (pd_name p, punct ''('' # q)" for q
    by (simp add: ReadProcedureName_def reading_simps While_stops)
  have "ReadModifiers False (show_signature p @ r) = Inr (pd_isLocal p, kw (if pd_isTrigger p then ''trigger'' else ''procedure'') #
      nm (pd_name p) # punct ''('' # joined (punct '';'') (map show_parameter (pd_parameters p)) @ punct '')'' # ?result)"
    unfolding show_signature_def append_assoc append_Cons append_Nil
    by (rule ReadModifiers_reads) (simp_all add: at_simps)
  moreover have "ReadResult interface ?result =
      Inr ((pd_returnName p, if pd_returnType p \<noteq> [] then Some (bare (pd_returned p)) else None), r)"
    using ReadResult_reads [OF assms(2) w(1), of "pd_returnType p" interface "pd_returnName p"] by simp
  moreover note ReadParameters_reads [OF w(2,3)]
  ultimately have "ReadSignature interface (NoProcedure\<lparr>pd_attributes := as\<rparr>) (show_signature p @ r) =
    Inr (let procedure = NoProcedure\<lparr>pd_attributes := as, pd_isLocal := pd_isLocal p, pd_isTrigger := pd_isTrigger p,
             pd_name := pd_name p, pd_parameters := pd_parameters p, pd_returnName := pd_returnName p\<rparr> in
         case if pd_returnType p \<noteq> [] then Some (bare (pd_returned p)) else None of
           None \<Rightarrow> procedure
         | Some d \<Rightarrow> procedure\<lparr>pd_returnType := vd_type d, pd_returnSubtype := vd_subtype d,
             pd_returned := Named (pd_returnName p) d\<rparr>, r)"
    using name
    by (simp add: ReadSignature_def NoProcedure_def into_def give_def skip_def decide_def at_simps Move_simps Let_def)
  then show ?thesis
    using assms(1) by (cases p) (auto simp: NoProcedure_def wf_signature_def wf_variable_def)
qed

lemma Body_block:
  assumes "list_all (\<lambda>s. wf_stmt s \<and> \<not> is_branch s) ss"
  shows "Body (show_block ss) p = Inr (ss, p)"
  using ReadBlock_program [OF assms, of "[]"] by (simp add: Body_def lift_def block_stop_def)

lemma ReadBody_reads:
  assumes "wf_procedure p" "r \<noteq> []"
  shows "ReadBody (p\<lparr>pd_hasBody := False, pd_variables := [], pd_labels := [], pd_tokens := [], pd_body := []\<rparr>)
    (show_vars (pd_labels p) (pd_variables p) @ kw ''begin'' # pd_tokens p @ [kw ''end'', punct '';''] @ r) = Inr (p, r)"
proof -
  have "passes (pd_tokens p)"
    using assms(1) passes_show_block [of "pd_body p"] by (simp add: wf_procedure_def list_all_iff)
  then show ?thesis
    using assms SkipBeginEnd_reads [of "pd_variables p" "pd_tokens p" r "[]" "[]" "pd_labels p"] Body_block [of "pd_body p"]
    by (cases p) (simp add: ReadBody_def wf_procedure_def into_gives give_def)
qed

lemma ParseProcedure_reads:
  assumes "wf_procedure p" "r \<noteq> []"
  shows "ParseProcedure (pd_attributes p) (show_procedure p @ r) = Inr (p, r)"
proof -
  let ?rest = "show_vars (pd_labels p) (pd_variables p) @ kw ''begin'' # pd_tokens p @ [kw ''end'', punct '';''] @ r"
  have "ReadSignature False (NoProcedure\<lparr>pd_attributes := pd_attributes p\<rparr>) (show_signature p @ ?rest) =
      Inr (p\<lparr>pd_hasBody := False, pd_variables := [], pd_labels := [], pd_tokens := [], pd_body := []\<rparr>, ?rest)"
    using ReadSignature_reads [of p ?rest False "pd_attributes p"] assms by (simp add: wf_procedure_def)
  then show ?thesis
    using ReadBody_reads [OF assms] by (simp add: ParseProcedure_def show_procedure_def into_gives)
qed

section \<open>The members of an object\<close>

definition show_member :: "procedure_decl \<Rightarrow> token list" where
  "show_member p = show_attributes (pd_attributes p) @ show_procedure p"

abbreviation MembersStep :: "members \<Rightarrow> members reading" where
  "MembersStep m \<equiv> decide (AtMark ''['') (AttributeMember m) (CodeMember m)"

text \<open>The words a written procedure starts with.\<close>

lemma procedure_head:
  obtains w k n q where "show_procedure p @ r = kw w # tok k n # q" "k \<noteq> Punctuation"
proof (cases "pd_isLocal p")
  case True
  then show ?thesis
    by (intro that [of "''local''" Identifier "if pd_isTrigger p then ''trigger'' else ''procedure''"])
      (auto simp: show_procedure_def show_signature_def)
next
  case False
  then show ?thesis
    by (intro that [of "if pd_isTrigger p then ''trigger'' else ''procedure''" QuotedIdentifier "pd_name p"])
      (auto simp: show_procedure_def show_signature_def)
qed

lemma at_procedure:
  "AtProcedure (show_procedure p @ r)" "\<not> AtProtectedVar (show_procedure p @ r)" "\<not> AtWord ''var'' (show_procedure p @ r)"
  "\<not> AtMark m (show_procedure p @ r)" "\<not> AtEndOfFile (show_procedure p @ r)" "\<not> AtBlock (show_procedure p @ r)"
  by (cases "pd_isLocal p"; cases "pd_isTrigger p";
      simp add: show_procedure_def show_signature_def AtProcedure_def AtProtectedVar_def AtBlock_def reading_simps keyword_tok)+

lemma show_procedure_nonempty [simp]: "show_procedure p \<noteq> []"
  by (simp add: show_procedure_def show_signature_def)

lemma after_variables_member: "after_variables (show_member p @ r)"
proof (cases "pd_attributes p")
  case Nil
  then show ?thesis using at_procedure(1) [of p r] by (simp add: after_variables_def AtVariables_def show_member_def)
next
  case (Cons a as)
  obtain w k n q where h: "show_procedure p @ r = kw w # tok k n # q" "k \<noteq> Punctuation"
    using procedure_head [of p r] by metis
  then have "VariableFollowsAttribute (show_attributes (pd_attributes p) @ kw w # tok k n # q) = Inr False"
    using VariableFollows_procedure [of k "pd_attributes p" w n q] by simp
  then show ?thesis using h Cons by (simp add: after_variables_def show_member_def show_attribute_def at_simps)
qed

lemma PropertyMember_reads:
  assumes "wf_property q" "r \<noteq> []"
  shows "CodeMember m (show_property q @ r) = Inr (m\<lparr>mb_properties := mb_properties m @ [q]\<rparr>, r)"
proof -
  have "\<not> AtProtectedVar (show_property q @ r)" "\<not> AtWord ''var'' (show_property q @ r)" "\<not> AtProcedure (show_property q @ r)"
    by (simp_all add: show_property_def AtProtectedVar_def AtProcedure_def at_simps)
  then show ?thesis
    using ParseProperty_reads [OF assms] by (simp add: CodeMember_def decide_def PropertyMember_def into_gives give_def)
qed

lemma ProcedureMember_reads:
  assumes "wf_procedure p" "r \<noteq> []" "mb_attributes m = pd_attributes p"
  shows "CodeMember m (show_procedure p @ r) = Inr (m\<lparr>mb_procedures := mb_procedures m @ [p], mb_attributes := []\<rparr>, r)"
  using ParseProcedure_reads [OF assms(1,2)] assms(3)
  by (simp add: CodeMember_def decide_def ProcedureMember_def into_gives give_def at_procedure)

lemma AttributeMember_reads:
  assumes "r \<noteq> []"
  shows "AttributeMember m (show_attribute a @ r) = Inr (m\<lparr>mb_attributes := mb_attributes m @ [a]\<rparr>, r)"
  using ReadAttribute_reads [OF assms] by (simp add: AttributeMember_def into_gives give_def)

lemma at_attribute: "AtMark ''['' (show_attribute a @ r)" "\<not> AtMark ''}'' (show_attribute a @ r)"
  by (simp_all add: show_attribute_def at_simps)

lemma at_property:
  "tk_kind (Here (show_property q @ r)) = QuotedIdentifier" "\<not> AtMark m (show_property q @ r)" "\<not> AtEndOfFile (show_property q @ r)"
  by (simp_all add: show_property_def at_simps tok_fields)

lemma variable_head: "\<exists>t q. show_variable d = t # q \<and> \<not> IsKeyword t ''var''"
  by (cases "vd_attributes d") (auto simp: show_variable_def show_attribute_def keyword_tok)

lemma VarMember_reads:
  assumes "list_all wf_variable ds" "after_variables r" "bs \<noteq> [] \<or> ds \<noteq> []"
  shows "CodeMember m (kw ''var'' # concat (map show_label bs) @ concat (map show_variable ds) @ r) =
    Inr (m\<lparr>mb_labels := mb_labels m @ bs, mb_variables := mb_variables m @ ds\<rparr>, r)"
proof -
  let ?ts = "concat (map show_label bs) @ concat (map show_variable ds) @ r"
  have "\<not> IsKeyword (Ahead (kw ''var'' # ?ts)) ''var''"
  proof (cases bs)
    case Nil
    then obtain d ds' where "ds = d # ds'" using assms(3) by (cases ds) auto
    then show ?thesis using Nil variable_head [of d] by (auto simp: Ahead_def)
  qed (simp add: Ahead_def show_label_def keyword_tok)
  then show ?thesis
    using ParseVarsInto_reads [OF assms(1,2), of "mb_labels m" "mb_variables m" bs] assms(2)
    by (simp add: CodeMember_def decide_def AtProtectedVar_def at_simps VarMember_def skips into_gives give_def after_variables_def)
qed

text \<open>
  The contract between the loop over an object's body and its members: whatever else the object holds, at a token that
  begins a member the loop goes on, and it does to its state what \<open>MembersStep\<close> does to the members in it. The loops
  then read a written list of members, whichever object they belong to.
\<close>

definition at_member :: "token list \<Rightarrow> bool" where
  "at_member p \<longleftrightarrow> tk_kind (Here p) = QuotedIdentifier \<or> AtMark ''['' p \<or> AtWord ''var'' p \<or> AtProcedure p"

locale member_loop =
  fixes going :: "token list \<Rightarrow> bool" and step :: "'s \<Rightarrow> 's reading"
    and members_of :: "'s \<Rightarrow> members" and with_members :: "members \<Rightarrow> 's \<Rightarrow> 's"
  assumes goes: "at_member p \<Longrightarrow> going p"
    and member: "at_member p \<Longrightarrow> MembersStep (members_of s) p = Inr (m, q) \<Longrightarrow> step s p = Inr (with_members m s, q)"
    and of_with: "members_of (with_members m s) = m"
    and with_twice: "with_members m (with_members n s) = with_members m s"
    and with_own: "with_members (members_of s) s = s"
begin

lemma one_member:
  "at_member p \<Longrightarrow> MembersStep (members_of s) p = Inr (m, q) \<Longrightarrow> length q < length p \<Longrightarrow>
    While going step s p = While going step (with_members m s) q"
  by (rule While_step) (use goes member in blast)+

lemma properties_loop:
  assumes "list_all wf_property qs" "r \<noteq> []"
  shows "While going step s (concat (map show_property qs) @ r) =
    While going step (with_members ((members_of s)\<lparr>mb_properties := mb_properties (members_of s) @ qs\<rparr>) s) r"
  using assms(1)
proof (induction qs arbitrary: s)
  case (Cons q qs)
  let ?r = "concat (map show_property qs) @ r"
  let ?w = "with_members ((members_of s)\<lparr>mb_properties := mb_properties (members_of s) @ [q]\<rparr>) s"
  have "MembersStep (members_of s) (show_property q @ ?r) = Inr ((members_of s)\<lparr>mb_properties := mb_properties (members_of s) @ [q]\<rparr>, ?r)"
    using Cons.prems assms(2) PropertyMember_reads [of q ?r "members_of s"] by (simp add: decide_def at_property)
  then have "While going step s (show_property q @ ?r) = While going step ?w ?r"
    by (rule one_member [rotated]) (simp_all add: at_member_def at_property, simp add: show_property_def)
  then show ?case using Cons by (simp add: of_with with_twice)
qed (simp add: with_own)

lemma variables_loop:
  assumes "list_all wf_variable ds" "after_variables r"
  shows "While going step s (show_vars bs ds @ r) =
    While going step (with_members ((members_of s)\<lparr>mb_labels := mb_labels (members_of s) @ bs, mb_variables := mb_variables (members_of s) @ ds\<rparr>) s) r"
proof (cases "bs = [] \<and> ds = []")
  case False
  then have "MembersStep (members_of s) (kw ''var'' # concat (map show_label bs) @ concat (map show_variable ds) @ r) =
      Inr ((members_of s)\<lparr>mb_labels := mb_labels (members_of s) @ bs, mb_variables := mb_variables (members_of s) @ ds\<rparr>, r)"
    using VarMember_reads [OF assms, of bs "members_of s"] by (auto simp: decide_def at_simps)
  from one_member [OF _ this] show ?thesis using False by (auto simp: show_vars_def at_member_def at_simps)
qed (simp add: show_vars_def with_own)

lemma attributes_loop:
  assumes "r \<noteq> []"
  shows "While going step s (show_attributes as @ r) =
    While going step (with_members ((members_of s)\<lparr>mb_attributes := mb_attributes (members_of s) @ as\<rparr>) s) r"
proof (induction as arbitrary: s)
  case (Cons a as)
  let ?r = "show_attributes as @ r"
  let ?w = "with_members ((members_of s)\<lparr>mb_attributes := mb_attributes (members_of s) @ [a]\<rparr>) s"
  have "MembersStep (members_of s) (show_attribute a @ ?r) = Inr ((members_of s)\<lparr>mb_attributes := mb_attributes (members_of s) @ [a]\<rparr>, ?r)"
    using assms by (simp add: decide_def at_attribute AttributeMember_reads)
  then have "While going step s (show_attribute a @ ?r) = While going step ?w ?r"
    by (rule one_member [rotated]) (simp_all add: at_member_def at_attribute, simp add: show_attribute_def)
  then show ?case using Cons by (simp add: of_with with_twice)
qed (simp add: with_own)

lemma procedures_loop:
  assumes "list_all wf_procedure ps" "r \<noteq> []"
  shows "mb_attributes (members_of s) = [] \<Longrightarrow> While going step s (concat (map show_member ps) @ r) =
    While going step (with_members ((members_of s)\<lparr>mb_procedures := mb_procedures (members_of s) @ ps\<rparr>) s) r"
  using assms(1)
proof (induction ps arbitrary: s)
  case (Cons p ps)
  let ?r = "concat (map show_member ps) @ r"
  let ?a = "with_members ((members_of s)\<lparr>mb_attributes := pd_attributes p\<rparr>) s"
  let ?w = "with_members ((members_of s)\<lparr>mb_procedures := mb_procedures (members_of s) @ [p]\<rparr>) s"
  have same: "(members_of s)\<lparr>mb_procedures := ps, mb_attributes := []\<rparr> = (members_of s)\<lparr>mb_procedures := ps\<rparr>" for ps
    using Cons.prems by simp
  have "While going step s (show_attributes (pd_attributes p) @ show_procedure p @ ?r) = While going step ?a (show_procedure p @ ?r)"
    using attributes_loop [of "show_procedure p @ ?r" s "pd_attributes p"] Cons.prems by simp
  also have "\<dots> = While going step (with_members ((members_of ?a)\<lparr>mb_procedures := mb_procedures (members_of ?a) @ [p], mb_attributes := []\<rparr>) ?a) ?r"
    by (rule one_member)
      (use Cons.prems assms(2) ProcedureMember_reads [of p ?r "members_of ?a"] in
        \<open>simp_all add: at_member_def at_procedure decide_def of_with\<close>)
  also have "\<dots> = While going step ?w ?r" using same by (simp add: of_with with_twice)
  also have "\<dots> = While going step (with_members ((members_of ?w)\<lparr>mb_procedures := mb_procedures (members_of ?w) @ ps\<rparr>) ?w) r"
    by (rule Cons.IH) (use Cons.prems in \<open>simp_all add: of_with\<close>)
  finally show ?case by (simp add: show_member_def [of p] of_with with_twice)
qed (simp add: with_own)

lemma code_loop:
  assumes "list_all wf_variable ds" "list_all wf_procedure ps" "after_variables r" "mb_attributes (members_of s) = []"
  shows "While going step s (show_vars bs ds @ concat (map show_member ps) @ r) =
    While going step (with_members ((members_of s)\<lparr>mb_labels := mb_labels (members_of s) @ bs, mb_variables := mb_variables (members_of s) @ ds,
      mb_procedures := mb_procedures (members_of s) @ ps\<rparr>) s) r"
proof -
  have after: "after_variables (concat (map show_member ps) @ r)"
  proof (cases ps)
    case (Cons p ps')
    then show ?thesis using after_variables_member [of p "concat (map show_member ps') @ r"] by simp
  qed (use assms(3) in simp)
  have r: "r \<noteq> []" using assms(3) by (simp add: after_variables_def)
  show ?thesis
    using assms(4) by (simp add: variables_loop [OF assms(1) after] procedures_loop [OF assms(2) r] of_with with_twice)
qed

end

section \<open>Codeunits\<close>

definition show_codeunit :: "codeunit_object \<Rightarrow> token list" where
  "show_codeunit c = show_header ''codeunit'' (cu_nameSpace c) (cu_id c) (cu_name c) @
     show_name_list ''implements'' (cu_implements c) @ punct ''{'' # concat (map show_property (cu_properties c)) @
     show_vars (cu_labels c) (cu_variables c) @ concat (map show_member (cu_procedures c)) @ [punct ''}'']"

definition wf_codeunit :: "codeunit_object \<Rightarrow> bool" where
  "wf_codeunit c \<longleftrightarrow> id_fits (cu_id c) \<and> list_all wf_property (cu_properties c) \<and>
     list_all wf_variable (cu_variables c) \<and> list_all wf_procedure (cu_procedures c)"

interpretation codeunit: member_loop "\<lambda>p. \<not> AtMark ''}'' p" MembersStep "\<lambda>m. m" "\<lambda>m _. m"
  by unfold_locales (auto simp: at_member_def AtMark_def AtWord_def AtProcedure_def IsPunctuation_def IsKeyword_def)

lemma members_read:
  assumes "list_all wf_property qs" "list_all wf_variable ds" "list_all wf_procedure ps" "r \<noteq> []"
  shows "While (\<lambda>p. \<not> AtMark ''}'' p) MembersStep NoMembers
      (concat (map show_property qs) @ show_vars bs ds @ concat (map show_member ps) @ punct ''}'' # r) =
    Inr (\<lparr>mb_attributes = [], mb_labels = bs, mb_variables = ds, mb_procedures = ps, mb_properties = qs\<rparr>, punct ''}'' # r)"
proof -
  have "after_variables (punct ''}'' # r)" by (simp add: after_variables_def AtVariables_def at_simps)
  then show ?thesis
    using codeunit.properties_loop [OF assms(1)] codeunit.code_loop [OF assms(2,3)]
    by (simp add: NoMembers_def While_stops at_simps)
qed

lemma ParseCodeunit_reads:
  assumes "wf_codeunit c" "r \<noteq> []"
  shows "ParseCodeunit (show_codeunit c @ r) = Inr (c, r)"
proof -
  let ?b = "concat (map show_property (cu_properties c)) @ show_vars (cu_labels c) (cu_variables c) @
      concat (map show_member (cu_procedures c)) @ punct ''}'' # r"
  have b: "While (\<lambda>p. \<not> AtMark ''}'' p) MembersStep NoMembers ?b = Inr (\<lparr>mb_attributes = [], mb_labels = cu_labels c, mb_variables = cu_variables c,
      mb_procedures = cu_procedures c, mb_properties = cu_properties c\<rparr>, punct ''}'' # r)"
    by (rule members_read) (use assms in \<open>simp_all add: wf_codeunit_def\<close>)
  have "ReadHeader ''codeunit'' (show_codeunit c @ r) = Inr ((cu_nameSpace c, cu_id c, cu_name c),
      show_name_list ''implements'' (cu_implements c) @ punct ''{'' # ?b)"
    using assms ReadHeader_reads [of "''codeunit''" "show_name_list ''implements'' (cu_implements c) @ punct ''{'' # ?b"]
    by (simp add: show_codeunit_def wf_codeunit_def)
  then show ?thesis
    using b assms ReadNameList_reads [of ?b "''implements''" "cu_implements c"]
    by (cases c) (simp add: ParseCodeunit_def into_gives skips give_def)
qed

section \<open>Properties\<close>

text \<open>C3: codeunit_roundtrip. A codeunit written as a file of tokens - its namespace, the object line, the interfaces
  it implements, its properties, its labels and variables with their types and attributes, its procedures with
  attributes, modifiers, parameters, results, locals and statements - is read back as that codeunit: the variables
  end where the first procedure's attributes begin, and each body ends at the \<open>end\<close> that closes its \<open>begin\<close>.\<close>

theorem codeunit_roundtrip:
  assumes "wf_codeunit c"
  shows "ParseCodeunit (show_codeunit c @ [tok EndOfFile []]) = Inr (c, [tok EndOfFile []])"
  by (rule ParseCodeunit_reads [OF assms]) simp

text \<open>
  \<^verbatim>\<open>namespace Sales; codeunit 50100 "Post" implements "I1" { TableNo = Customer;
  var "Msg": Label 'Done'; [Attr] "Rec": Record "Customer" temporary; "A": array[3, 4] of Option "x", "y";
  [TryFunction] local procedure "Run"(var "L": List of [Code[20]]; "N": Integer) "R": Integer;
  var "I": Integer; begin case x of 1: begin f(); end; end; end; }\<close>
\<close>

definition post_run :: procedure_decl where
  "post_run = \<lparr>pd_attributes = [''TryFunction''], pd_isLocal = True, pd_isTrigger = False, pd_hasBody = True, pd_name = ''Run'',
     pd_parameters =
       [VarDecl True False ''L'' ''List'' [] 0 [] [VarDecl False False [] ''Code'' [] 20 [] [] [] []] [] [],
        VarDecl False False ''N'' ''Integer'' [] 0 [] [] [] []],
     pd_variables = [VarDecl False False ''I'' ''Integer'' [] 0 [] [] [] []], pd_labels = [],
     pd_returnName = ''R'', pd_returnType = ''Integer'', pd_returnSubtype = [],
     pd_returned = VarDecl False False ''R'' ''Integer'' [] 0 [] [] [] [],
     pd_tokens = show_block [Stmt CaseStmt (name ''x'') []
        [Stmt CaseBranchStmt NoExpr [Expr NumberLiteral ''1'' []] [Stmt BlockStmt NoExpr [] [call ''f''] [] False] [] False] [] False],
     pd_body = [Stmt CaseStmt (name ''x'') []
        [Stmt CaseBranchStmt NoExpr [Expr NumberLiteral ''1'' []] [Stmt BlockStmt NoExpr [] [call ''f''] [] False] [] False] [] False]\<rparr>"

definition post :: codeunit_object where
  "post = \<lparr>cu_id = 50100, cu_name = ''Post'', cu_nameSpace = ''Sales'', cu_implements = [''I1''],
     cu_properties = [\<lparr>pr_name = ''TableNo'', pr_value = [kw ''Customer''], pr_text = ''Customer''\<rparr>],
     cu_procedures = [post_run],
     cu_variables = [VarDecl False True ''Rec'' ''Record'' ''Customer'' 0 [] [] [] [''Attr''],
       VarDecl False False ''A'' ''Option'' [] 0 [''x'', ''y''] [] [3, 4] []],
     cu_labels = [\<lparr>lb_name = ''Msg'', lb_text = ''Done''\<rparr>]\<rparr>"

lemma post_wf: "wf_codeunit post"
proof -
  have "list_all (\<lambda>s. wf_stmt s \<and> \<not> is_branch s) (pd_body post_run)" by code_simp
  moreover have "SameName ''Option'' ''Option''" "\<not> SameName ''Integer'' ''Option''" "\<not> SameName ''Code'' ''Option''"
    "\<not> SameName ''Record'' ''Option''" "TakesASubtype ''Record''" by code_simp+
  ultimately show ?thesis
    by (simp add: wf_codeunit_def post_def wf_procedure_def wf_signature_def wf_parameter_def wf_variable_def wf_property_def id_fits_def
        post_run_def IsPunctuation_def tok_fields)
qed

lemma codeunit_roundtrip_witness:
  "ParseCodeunit (show_codeunit post @ [tok EndOfFile []]) = Inr (post, [tok EndOfFile []])"
  by (rule codeunit_roundtrip [OF post_wf])

end
