(* ===== verification/TableText.thy ===== *)
theory TableText
  imports CodeunitText
begin

text \<open>
  The round trip of tables, of \<^verbatim>\<open>src/src/al/Parser.cpp\<close>: \<open>show_table\<close> writes fields, keys and code, and \<open>ParseTable\<close>
  reads them back.
\<close>

section \<open>Fields\<close>

definition show_trigger :: "procedure_decl \<Rightarrow> token list" where
  "show_trigger t = kw ''trigger'' # nm (pd_name t) # punct ''('' # punct '')'' # show_vars (pd_labels t) (pd_variables t) @
     kw ''begin'' # pd_tokens t @ [kw ''end'', punct '';'']"

definition wf_trigger :: "procedure_decl \<Rightarrow> bool" where
  "wf_trigger t \<longleftrightarrow> t = NoProcedure\<lparr>pd_name := pd_name t, pd_labels := pd_labels t, pd_variables := pd_variables t,
       pd_tokens := pd_tokens t, pd_body := pd_body t, pd_hasBody := True\<rparr> \<and> pd_tokens t = show_block (pd_body t) \<and>
     list_all wf_variable (pd_variables t) \<and> list_all (\<lambda>s. wf_stmt s \<and> \<not> is_branch s) (pd_body t)"

definition show_field_body :: "field_decl \<Rightarrow> token list" where
  "show_field_body f = punct ''{'' # concat (map show_property (fd_properties f)) @ concat (map show_trigger (fd_triggers f)) @ [punct ''}'']"

definition wf_field_body :: "field_decl \<Rightarrow> bool" where
  "wf_field_body f \<longleftrightarrow> list_all wf_property (fd_properties f) \<and> list_all wf_trigger (fd_triggers f)"

definition show_field :: "field_decl \<Rightarrow> token list" where
  "show_field f = kw ''field'' # punct ''('' # num (fd_number f) # punct '';'' # nm (fd_name f) # punct '';'' # nm (fd_type f) #
     (if fd_length f \<noteq> 0 then [punct ''['', num (fd_length f), punct '']''] else if fd_subtype f \<noteq> [] then [nm (fd_subtype f)] else []) @
     punct '')'' # show_field_body f"

definition wf_field :: "field_decl \<Rightarrow> bool" where
  "wf_field f \<longleftrightarrow> id_fits (fd_number f) \<and> id_fits (fd_length f) \<and> (fd_length f \<noteq> 0 \<longrightarrow> fd_subtype f = []) \<and> wf_field_body f"

definition show_modified :: "field_decl \<Rightarrow> token list" where
  "show_modified f = kw ''modify'' # punct ''('' # nm (fd_name f) # punct '')'' # show_field_body f"

definition wf_modified :: "field_decl \<Rightarrow> bool" where
  "wf_modified f \<longleftrightarrow> f = NoField\<lparr>fd_name := fd_name f, fd_properties := fd_properties f, fd_triggers := fd_triggers f\<rparr> \<and> wf_field_body f"

lemma ReadFieldTrigger_reads:
  assumes "wf_trigger t" "r \<noteq> []"
  shows "ReadFieldTrigger (show_trigger t @ r) = Inr (t, r)"
proof -
  let ?rest = "kw ''begin'' # pd_tokens t @ kw ''end'' # punct '';'' # r"
  have tokens: "pd_tokens t = show_block (pd_body t)"
    using assms(1) unfolding wf_trigger_def by blast
  then have pass: "passes (pd_tokens t)"
    using assms(1) passes_show_block [of "pd_body t"] by (simp add: wf_trigger_def list_all_iff)
  have after: "after_variables ?rest" "\<not> AtWord ''var'' ?rest" by (simp_all add: after_variables_def AtVariables_def at_simps)
  have "ReadLocalVars [] [] (show_vars (pd_labels t) (pd_variables t) @ ?rest) = Inr ((pd_labels t, pd_variables t), ?rest)"
    using ReadLocalVars_reads [of "pd_variables t" ?rest "[]" "[]" "pd_labels t"] after assms(1) by (simp add: wf_trigger_def)
  moreover have "SkipBeginEnd [] [] ?rest = Inr ((pd_tokens t, [], []), r)"
    using SkipBeginEnd_reads [OF _ pass assms(2), of "[]" "[]" "[]" "[]"] by (simp add: show_vars_def)
  moreover have "Body (pd_tokens t) r = Inr (pd_body t, r)"
    using Body_block [of "pd_body t"] assms(1) tokens by (simp add: wf_trigger_def)
  ultimately have "ReadFieldTrigger (show_trigger t @ r) =
      Inr (NoProcedure\<lparr>pd_name := pd_name t, pd_labels := pd_labels t, pd_variables := pd_variables t,
        pd_tokens := pd_tokens t, pd_body := pd_body t, pd_hasBody := True\<rparr>, r)"
    by (simp add: ReadFieldTrigger_def show_trigger_def into_gives skips reading_simps)
  then show ?thesis using assms(1) tokens unfolding wf_trigger_def by simp
qed

lemma fold_field: "fold (\<lambda>q f. f\<lparr>fd_properties := fd_properties f @ [q]\<rparr>) qs f = f\<lparr>fd_properties := fd_properties f @ qs\<rparr>"
  "fold (\<lambda>t f. f\<lparr>fd_triggers := fd_triggers f @ [t]\<rparr>) ts f = f\<lparr>fd_triggers := fd_triggers f @ ts\<rparr>"
  by (induction qs arbitrary: f; induction ts arbitrary: f; simp)+

lemma ParseFieldBody_reads:
  assumes "wf_field_body f" "r \<noteq> []" "fd_properties g = []" "fd_triggers g = []"
  shows "ParseFieldBody g (show_field_body f @ r) = Inr (g\<lparr>fd_properties := fd_properties f, fd_triggers := fd_triggers f\<rparr>, r)"
proof -
  let ?going = "\<lambda>p. \<not> AtMark ''}'' p"
  let ?body = "\<lambda>field. decide (AtWord ''trigger'')
      (into ReadFieldTrigger (\<lambda>t. give (field\<lparr>fd_triggers := fd_triggers field @ [t]\<rparr>)))
      (into ParseProperty (\<lambda>q. give (field\<lparr>fd_properties := fd_properties field @ [q]\<rparr>)))"
  let ?ts = "concat (map show_trigger (fd_triggers f)) @ punct ''}'' # r"
  have "While ?going ?body g (concat (map show_property (fd_properties f)) @ ?ts) =
      While ?going ?body (fold (\<lambda>q f. f\<lparr>fd_properties := fd_properties f @ [q]\<rparr>) (fd_properties f) g) ?ts"
  proof (rule While_reads_on)
    fix q a s assume "q \<in> set (fd_properties f)" "s \<noteq> ([] :: token list)"
    then have "ParseProperty (show_property q @ s) = Inr (q, s)"
      using assms(1) by (simp add: wf_field_body_def list_all_iff ParseProperty_reads)
    then show "?going (show_property q @ s) \<and> ?body a (show_property q @ s) = Inr (a\<lparr>fd_properties := fd_properties a @ [q]\<rparr>, s)"
      by (simp add: decide_def into_gives give_def at_property) (simp add: show_property_def at_simps)
  qed (simp_all add: show_property_def)
  also have "\<dots> = While ?going ?body (g\<lparr>fd_properties := fd_properties f\<rparr>) ?ts"
    using assms(3) by (simp add: fold_field)
  also have "\<dots> = Inr (fold (\<lambda>t f. f\<lparr>fd_triggers := fd_triggers f @ [t]\<rparr>) (fd_triggers f) (g\<lparr>fd_properties := fd_properties f\<rparr>), punct ''}'' # r)"
  proof (rule While_reads)
    fix t a s assume "t \<in> set (fd_triggers f)" "s \<noteq> ([] :: token list)"
    then have "ReadFieldTrigger (show_trigger t @ s) = Inr (t, s)"
      using assms(1) by (simp add: wf_field_body_def list_all_iff ReadFieldTrigger_reads)
    then show "?going (show_trigger t @ s) \<and> ?body a (show_trigger t @ s) = Inr (a\<lparr>fd_triggers := fd_triggers a @ [t]\<rparr>, s)"
      by (simp add: decide_def into_gives give_def) (simp add: show_trigger_def at_simps)
  qed (simp_all add: show_trigger_def at_simps)
  also have "\<dots> = Inr (g\<lparr>fd_properties := fd_properties f, fd_triggers := fd_triggers f\<rparr>, punct ''}'' # r)"
    using assms(4) by (simp add: fold_field)
  finally show ?thesis using assms(2) by (simp add: ParseFieldBody_def show_field_body_def skips into_gives give_def)
qed

lemma ReadFieldType_reads:
  assumes "id_fits l" "l \<noteq> 0 \<Longrightarrow> st = []" "r \<noteq> []"
  shows "ReadFieldType ((if l \<noteq> 0 then [punct ''['', num l, punct '']''] else if st \<noteq> [] then [nm st] else []) @ punct '')'' # r) =
    Inr ((st, l), punct '')'' # r)"
  using assms by (auto simp: ReadFieldType_def ReadDotted_def While_stops reading_simps)

lemma ReadField_reads:
  assumes "wf_field f" "fd_customizations f = []" "r \<noteq> []"
  shows "ReadField (show_field f @ r) = Inr (f, r)"
proof -
  let ?g = "NoField\<lparr>fd_number := fd_number f, fd_name := fd_name f, fd_type := fd_type f, fd_subtype := fd_subtype f, fd_length := fd_length f\<rparr>"
  have "ParseFieldBody ?g (show_field_body f @ r) = Inr (?g\<lparr>fd_properties := fd_properties f, fd_triggers := fd_triggers f\<rparr>, r)"
    by (rule ParseFieldBody_reads) (use assms in \<open>simp_all add: wf_field_def NoField_def\<close>)
  moreover have "?g\<lparr>fd_properties := fd_properties f, fd_triggers := fd_triggers f\<rparr> = f"
    using assms(2) by (cases f) (simp add: NoField_def)
  moreover have "show_field_body f @ r \<noteq> []" by (simp add: show_field_body_def)
  ultimately show ?thesis
    using assms(1) ReadFieldType_reads [of "fd_length f" "fd_subtype f" "show_field_body f @ r"]
    by (simp add: ReadField_def show_field_def wf_field_def skips into_gives reading_simps)
qed

lemma ReadModified_reads:
  assumes "wf_modified f" "r \<noteq> []"
  shows "ReadModified (show_modified f @ r) = Inr (f, r)"
proof -
  let ?g = "NoField\<lparr>fd_name := fd_name f\<rparr>"
  have "ParseFieldBody ?g (show_field_body f @ r) = Inr (?g\<lparr>fd_properties := fd_properties f, fd_triggers := fd_triggers f\<rparr>, r)"
    by (rule ParseFieldBody_reads) (use assms in \<open>simp_all add: wf_modified_def NoField_def\<close>)
  moreover have "?g\<lparr>fd_properties := fd_properties f, fd_triggers := fd_triggers f\<rparr> = f"
    using assms(1) by (simp add: wf_modified_def)
  moreover have "show_field_body f @ r \<noteq> []" by (simp add: show_field_body_def)
  ultimately show ?thesis by (simp add: ReadModified_def show_modified_def reading_simps)
qed

section \<open>Keys\<close>

definition show_key :: "key_decl \<Rightarrow> token list" where
  "show_key k = kw ''key'' # punct ''('' # nm (kd_name k) # punct '';'' # show_names (kd_fields k) @ punct '')'' #
     show_properties (kd_properties k)"

definition wf_key :: "key_decl \<Rightarrow> bool" where
  "wf_key k \<longleftrightarrow> list_all wf_property (kd_properties k)"

lemma ReadKey_reads:
  assumes "wf_key k" "r \<noteq> []"
  shows "ReadKey (show_key k @ r) = Inr (k, r)"
proof -
  define fields where "fields = While (\<lambda>p. \<not> AtMark '')'' p)
      (\<lambda>fields. into ExpectName (\<lambda>f. skip (Optional '','') (give (fields @ [f]))))"
  have body: "show_properties (kd_properties k) @ r \<noteq> []" by (simp add: show_properties_def)
  have "fields [] (show_names (kd_fields k) @ punct '')'' # show_properties (kd_properties k) @ r) =
      Inr (kd_fields k, punct '')'' # show_properties (kd_properties k) @ r)"
    unfolding fields_def using names_loop [OF body, where going = "\<lambda>p. \<not> AtMark '')'' p" and m = "'')''" and a = "[]"]
    by (simp add: at_simps)
  moreover have "show_names (kd_fields k) @ punct '')'' # show_properties (kd_properties k) @ r \<noteq> []" by simp
  ultimately show ?thesis
    using assms body unfolding ReadKey_def fields_def [symmetric] show_key_def
    by (cases k) (simp add: wf_key_def reading_simps)
qed

section \<open>Tables\<close>

definition table_members :: "string list \<times> table_object \<Rightarrow> members" where
  "table_members s = \<lparr>mb_attributes = fst s, mb_labels = tb_labels (snd s), mb_variables = tb_variables (snd s),
     mb_procedures = tb_procedures (snd s), mb_properties = tb_properties (snd s)\<rparr>"

definition with_table_members :: "members \<Rightarrow> string list \<times> table_object \<Rightarrow> string list \<times> table_object" where
  "with_table_members m s = (mb_attributes m, (snd s)\<lparr>tb_labels := mb_labels m, tb_variables := mb_variables m,
     tb_procedures := mb_procedures m, tb_properties := mb_properties m\<rparr>)"

lemma TableMember_members: "TableMember member s p = into (member (table_members s)) (\<lambda>m. give (with_table_members m s)) p"
  by (cases s) (simp add: TableMember_def table_members_def with_table_members_def)

text \<open>A token that begins a member is no other word, and begins it for \<open>MembersStep\<close> and for the body of any object.\<close>

lemma at_member_words:
  assumes "at_member p" "map to_lower w \<notin> {''var'', ''trigger'', ''procedure'', ''local'', ''internal'', ''protected''}"
  shows "\<not> AtWord w p"
  using assms by (auto simp: at_member_def AtProcedure_def AtWord_def AtMark_def IsKeyword_def IsPunctuation_def)

lemma at_member_goes: "at_member p \<Longrightarrow> NotClosed p"
  by (auto simp: at_member_def NotClosed_def AtProcedure_def AtWord_def AtMark_def AtEndOfFile_def IsKeyword_def IsPunctuation_def)

lemma MembersStep_cases:
  assumes "at_member p"
  obtains "AtMark ''['' p" "MembersStep m p = AttributeMember m p"
  | "\<not> AtMark ''['' p" "AtProtectedVar p" "\<not> AtWord ''var'' p" "\<not> AtBlock p" "MembersStep m p = skip Move (VarMember m) p"
  | "\<not> AtMark ''['' p" "\<not> AtProtectedVar p" "AtWord ''var'' p" "MembersStep m p = VarMember m p"
  | "\<not> AtMark ''['' p" "\<not> AtProtectedVar p" "\<not> AtWord ''var'' p" "AtProcedure p" "MembersStep m p = ProcedureMember m p"
  | "\<not> AtMark ''['' p" "\<not> AtProtectedVar p" "\<not> AtWord ''var'' p" "\<not> AtProcedure p" "\<not> AtBlock p" "MembersStep m p = PropertyMember m p"
proof -
  have "AtProtectedVar p \<Longrightarrow> \<not> AtWord ''var'' p" "AtProtectedVar p \<Longrightarrow> \<not> AtBlock p"
    by (auto simp: AtProtectedVar_def AtBlock_def AtWord_def IsKeyword_def IsPunctuation_def)
  moreover have "\<not> AtMark ''['' p \<Longrightarrow> \<not> AtWord ''var'' p \<Longrightarrow> \<not> AtProcedure p \<Longrightarrow> \<not> AtBlock p"
    using assms by (auto simp: at_member_def AtBlock_def)
  ultimately show ?thesis using that by (auto simp: decide_def CodeMember_def)
qed

lemma TableStep_member:
  assumes "at_member p" "MembersStep (table_members s) p = Inr (m, q)"
  shows "TableStep s p = Inr (with_table_members m s, q)"
proof -
  have w: "\<not> AtWord ''fields'' p" "\<not> AtWord ''keys'' p" using at_member_words [OF assms(1)] by simp_all
  have move: "into Move (\<lambda>_. into n f) p = into (into Move (\<lambda>_. n)) f p" for n and f :: "members \<Rightarrow> (string list \<times> table_object) reading"
    by (cases "Move p") (auto simp: into_def)
  show ?thesis
    using assms(1)
  proof (cases rule: MembersStep_cases [where m = "table_members s"])
    case 2
    then show ?thesis
      using w assms(2) unfolding TableStep_def by (cases s) (simp add: decide_def skip_def TableMember_members [abs_def] move into_gives give_def)
  qed (cases s; use w assms(2) in \<open>auto simp: TableStep_def decide_def TableMember_members into_gives give_def AtMark_def AtWord_def IsPunctuation_def IsKeyword_def\<close>)+
qed

lemma table_state:
  "table_members (with_table_members m s) = m" "with_table_members m (with_table_members n s) = with_table_members m s" "with_table_members (table_members s) s = s"
  by (simp_all add: table_members_def with_table_members_def)

interpretation table: member_loop NotClosed TableStep table_members with_table_members
  by unfold_locales (rule at_member_goes TableStep_member table_state; assumption?)+

definition show_fields :: "table_object \<Rightarrow> token list" where
  "show_fields t = kw ''fields'' # punct ''{'' # concat (map show_modified (tb_modified t)) @ concat (map show_field (tb_fields t)) @ [punct ''}'']"

definition show_keys :: "table_object \<Rightarrow> token list" where
  "show_keys t = kw ''keys'' # punct ''{'' # concat (map show_key (tb_keys t)) @ [punct ''}'']"

definition show_table_body :: "table_object \<Rightarrow> token list" where
  "show_table_body t = punct ''{'' # concat (map show_property (tb_properties t)) @ show_fields t @ show_keys t @
     show_vars (tb_labels t) (tb_variables t) @ concat (map show_member (tb_procedures t)) @ [punct ''}'']"

definition show_table :: "table_object \<Rightarrow> token list" where
  "show_table t = show_header ''table'' (tb_nameSpace t) (tb_id t) (tb_name t) @ show_table_body t"

text \<open>A table's own \<open>AllowInCustomizations\<close> is that of every field.\<close>

definition customizations :: "table_object \<Rightarrow> string" where
  "customizations t = (case FindProperty (tb_properties t) ''AllowInCustomizations'' of None \<Rightarrow> [] | Some q \<Rightarrow> pr_text q)"

definition wf_table :: "table_object \<Rightarrow> bool" where
  "wf_table t \<longleftrightarrow> id_fits (tb_id t) \<and> list_all wf_property (tb_properties t) \<and> list_all wf_modified (tb_modified t) \<and>
     list_all (\<lambda>f. wf_field f \<and> fd_customizations f = customizations t) (tb_fields t) \<and> list_all wf_key (tb_keys t) \<and>
     list_all wf_variable (tb_variables t) \<and> list_all wf_procedure (tb_procedures t)"

definition unset :: "field_decl \<Rightarrow> field_decl" where
  "unset f = f\<lparr>fd_customizations := []\<rparr>"

lemma unset_simps: "show_field (unset f) = show_field f" "wf_field (unset f) = wf_field f" "fd_customizations (unset f) = []"
  "fd_customizations f = c \<Longrightarrow> (unset f)\<lparr>fd_customizations := c\<rparr> = f"
  by (cases f; simp add: unset_def show_field_def show_field_body_def wf_field_def wf_field_body_def)+

lemma fold_table:
  "fold (\<lambda>f t. t\<lparr>tb_modified := tb_modified t @ [f]\<rparr>) fs t = t\<lparr>tb_modified := tb_modified t @ fs\<rparr>"
  "fold (\<lambda>f t. t\<lparr>tb_fields := tb_fields t @ [unset f]\<rparr>) fs t = t\<lparr>tb_fields := tb_fields t @ map unset fs\<rparr>"
  "fold (\<lambda>k t. t\<lparr>tb_keys := tb_keys t @ [k]\<rparr>) ks t = t\<lparr>tb_keys := tb_keys t @ ks\<rparr>"
  by (induction fs arbitrary: t; simp)+ (induction ks arbitrary: t; simp)

lemma ParseFields_reads:
  assumes "list_all wf_modified (tb_modified t)" "list_all wf_field (tb_fields t)" "r \<noteq> []" "tb_modified u = []" "tb_fields u = []"
  shows "skip Move (ParseFields u) (show_fields t @ r) = Inr (u\<lparr>tb_modified := tb_modified t, tb_fields := map unset (tb_fields t)\<rparr>, r)"
proof -
  let ?going = "\<lambda>p. \<not> AtMark ''}'' p"
  let ?body = "\<lambda>table. decide (AtWord ''modify'')
      (into ReadModified (\<lambda>f. give (table\<lparr>tb_modified := tb_modified table @ [f]\<rparr>)))
      (into ReadField (\<lambda>f. give (table\<lparr>tb_fields := tb_fields table @ [f]\<rparr>)))"
  let ?fs = "concat (map show_field (tb_fields t)) @ punct ''}'' # r"
  have "While ?going ?body u (concat (map show_modified (tb_modified t)) @ ?fs) =
      While ?going ?body (fold (\<lambda>f t. t\<lparr>tb_modified := tb_modified t @ [f]\<rparr>) (tb_modified t) u) ?fs"
  proof (rule While_reads_on)
    fix f a s assume "f \<in> set (tb_modified t)" "s \<noteq> ([] :: token list)"
    then have "ReadModified (show_modified f @ s) = Inr (f, s)" using assms(1) by (simp add: list_all_iff ReadModified_reads)
    then show "?going (show_modified f @ s) \<and> ?body a (show_modified f @ s) = Inr (a\<lparr>tb_modified := tb_modified a @ [f]\<rparr>, s)"
      by (simp add: decide_def into_gives give_def) (simp add: show_modified_def at_simps)
  qed (simp_all add: show_modified_def)
  also have "\<dots> = While ?going ?body (u\<lparr>tb_modified := tb_modified t\<rparr>) ?fs" using assms(4) by (simp add: fold_table)
  also have "\<dots> = Inr (fold (\<lambda>f t. t\<lparr>tb_fields := tb_fields t @ [unset f]\<rparr>) (tb_fields t) (u\<lparr>tb_modified := tb_modified t\<rparr>), punct ''}'' # r)"
  proof (rule While_reads)
    fix f a s assume "f \<in> set (tb_fields t)" "s \<noteq> ([] :: token list)"
    then have "ReadField (show_field f @ s) = Inr (unset f, s)"
      using assms(2) ReadField_reads [of "unset f" s] by (simp add: list_all_iff unset_simps)
    then show "?going (show_field f @ s) \<and> ?body a (show_field f @ s) = Inr (a\<lparr>tb_fields := tb_fields a @ [unset f]\<rparr>, s)"
      by (simp add: decide_def into_gives give_def) (simp add: show_field_def at_simps)
  qed (simp_all add: show_field_def at_simps)
  also have "\<dots> = Inr (u\<lparr>tb_modified := tb_modified t, tb_fields := map unset (tb_fields t)\<rparr>, punct ''}'' # r)"
    using assms(5) by (simp add: fold_table)
  finally show ?thesis using assms(3) by (simp add: ParseFields_def show_fields_def skips into_gives give_def)
qed

lemma ParseKeys_reads:
  assumes "list_all wf_key (tb_keys t)" "r \<noteq> []" "tb_keys u = []"
  shows "skip Move (ParseKeys u) (show_keys t @ r) = Inr (u\<lparr>tb_keys := tb_keys t\<rparr>, r)"
proof -
  let ?going = "\<lambda>p. \<not> AtMark ''}'' p"
  let ?body = "\<lambda>table. into ReadKey (\<lambda>k. give (table\<lparr>tb_keys := tb_keys table @ [k]\<rparr>))"
  have "While ?going ?body u (concat (map show_key (tb_keys t)) @ punct ''}'' # r) =
      Inr (fold (\<lambda>k t. t\<lparr>tb_keys := tb_keys t @ [k]\<rparr>) (tb_keys t) u, punct ''}'' # r)"
  proof (rule While_reads)
    fix k a s assume "k \<in> set (tb_keys t)" "s \<noteq> ([] :: token list)"
    then have "ReadKey (show_key k @ s) = Inr (k, s)" using assms(1) by (simp add: list_all_iff ReadKey_reads)
    then show "?going (show_key k @ s) \<and> ?body a (show_key k @ s) = Inr (a\<lparr>tb_keys := tb_keys a @ [k]\<rparr>, s)"
      by (simp add: into_gives give_def) (simp add: show_key_def at_simps)
  qed (simp_all add: show_key_def at_simps)
  then show ?thesis using assms(2,3) by (simp add: ParseKeys_def show_keys_def skips into_gives give_def fold_table)
qed

lemma TableStep_fields:
  assumes "wf_table t" "r \<noteq> []" "tb_modified u = []" "tb_fields u = []"
  shows "TableStep (as, u) (show_fields t @ r) = Inr ((as, u\<lparr>tb_modified := tb_modified t, tb_fields := map unset (tb_fields t)\<rparr>), r)"
proof -
  have "list_all wf_field (tb_fields t)" using assms(1) by (auto simp: wf_table_def list_all_iff)
  then have *: "ParseFields u (drop 1 (show_fields t) @ r) = Inr (u\<lparr>tb_modified := tb_modified t, tb_fields := map unset (tb_fields t)\<rparr>, r)"
    using assms ParseFields_reads [of t r u] by (simp add: wf_table_def show_fields_def skips)
  have "show_fields t @ r = kw ''fields'' # drop 1 (show_fields t) @ r" "drop 1 (show_fields t) @ r \<noteq> []"
    by (simp_all add: show_fields_def)
  then show ?thesis using * by (simp only: TableStep_def) (simp add: decide_def at_simps skips into_gives give_def)
qed

lemma TableStep_keys:
  assumes "wf_table t" "r \<noteq> []" "tb_keys u = []"
  shows "TableStep (as, u) (show_keys t @ r) = Inr ((as, u\<lparr>tb_keys := tb_keys t\<rparr>), r)"
proof -
  have *: "ParseKeys u (drop 1 (show_keys t) @ r) = Inr (u\<lparr>tb_keys := tb_keys t\<rparr>, r)"
    using assms ParseKeys_reads [of t r u] by (simp add: wf_table_def show_keys_def skips)
  have "show_keys t @ r = kw ''keys'' # drop 1 (show_keys t) @ r" "drop 1 (show_keys t) @ r \<noteq> []"
    by (simp_all add: show_keys_def)
  then show ?thesis using * by (simp only: TableStep_def) (simp add: decide_def at_simps skips into_gives give_def)
qed

lemma ParseTableBody_reads:
  assumes "wf_table t" "r \<noteq> []" "u = NoTable\<lparr>tb_nameSpace := tb_nameSpace t, tb_id := tb_id t, tb_name := tb_name t\<rparr>"
  shows "ParseTableBody u (show_table_body t @ r) = Inr (t, r)"
proof -
  let ?close = "punct ''}'' # r"
  let ?code = "show_vars (tb_labels t) (tb_variables t) @ concat (map show_member (tb_procedures t)) @ ?close"
  let ?v = "u\<lparr>tb_properties := tb_properties t\<rparr>"
  let ?w = "?v\<lparr>tb_modified := tb_modified t, tb_fields := map unset (tb_fields t)\<rparr>"
  let ?x = "?w\<lparr>tb_keys := tb_keys t\<rparr>"
  let ?y = "?x\<lparr>tb_labels := tb_labels t, tb_variables := tb_variables t, tb_procedures := tb_procedures t\<rparr>"
  let ?loop = "While NotClosed TableStep"
  have wf: "list_all wf_property (tb_properties t)" "list_all wf_variable (tb_variables t)" "list_all wf_procedure (tb_procedures t)"
    using assms(1) by (simp_all add: wf_table_def)
  have after: "after_variables ?close" by (simp add: after_variables_def AtVariables_def at_simps)
  have "?loop ([], u) (concat (map show_property (tb_properties t)) @ show_fields t @ show_keys t @ ?code) =
      ?loop ([], ?v) (show_fields t @ show_keys t @ ?code)"
    using table.properties_loop [OF wf(1), of "show_fields t @ show_keys t @ ?code" "([], u)"]
    by (simp add: table_members_def with_table_members_def assms(3) NoTable_def)
  also have "\<dots> = ?loop ([], ?w) (show_keys t @ ?code)"
    by (rule While_step, simp add: show_fields_def NotClosed_def at_simps, rule TableStep_fields)
      (use assms in \<open>simp_all add: show_fields_def NoTable_def\<close>)
  also have "\<dots> = ?loop ([], ?x) ?code"
    by (rule While_step, simp add: show_keys_def NotClosed_def at_simps, rule TableStep_keys)
      (use assms in \<open>simp_all add: show_keys_def NoTable_def\<close>)
  also have "\<dots> = ?loop ([], ?y) ?close"
    using table.code_loop [OF wf(2,3) after, of "([], ?x)" "tb_labels t"]
    by (simp add: table_members_def with_table_members_def assms(3) NoTable_def)
  also have "\<dots> = Inr (([], ?y), ?close)"
    by (rule While_stops) (simp add: NotClosed_def at_simps)
  finally have loop: "?loop ([], u) (concat (map show_property (tb_properties t)) @ show_fields t @ show_keys t @ ?code) =
      Inr (([], ?y), ?close)" .
  have set: "map (\<lambda>f. f\<lparr>fd_customizations := c\<rparr>) (map unset (tb_fields t)) = tb_fields t" if "c = customizations t" for c
    using assms(1) that by (auto simp: wf_table_def list_all_iff unset_simps intro!: map_idI)
  have plain: "map unset (tb_fields t) = tb_fields t" if "customizations t = []"
    using assms(1) that by (auto simp: wf_table_def list_all_iff unset_def intro!: map_idI)
  have "(case FindProperty (tb_properties ?y) ''AllowInCustomizations'' of
      None \<Rightarrow> ?y | Some q \<Rightarrow> ?y\<lparr>tb_fields := map (\<lambda>f. f\<lparr>fd_customizations := pr_text q\<rparr>) (tb_fields ?y)\<rparr>) = t"
  proof (cases "FindProperty (tb_properties t) ''AllowInCustomizations''")
    case None
    then show ?thesis using plain assms(3) by (cases t) (simp add: customizations_def NoTable_def)
  next
    case (Some q)
    then show ?thesis using set [of "pr_text q"] assms(3) by (cases t) (simp add: customizations_def NoTable_def)
  qed
  then show ?thesis
    using loop assms(2) by (simp add: ParseTableBody_def show_table_body_def skips into_gives give_def)
qed

lemma ParseTable_reads:
  assumes "wf_table t" "r \<noteq> []"
  shows "ParseTable (show_table t @ r) = Inr (t, r)"
proof -
  have "ReadHeader ''table'' (show_table t @ r) = Inr ((tb_nameSpace t, tb_id t, tb_name t), show_table_body t @ r)"
    using assms ReadHeader_reads [of "''table''" "show_table_body t @ r"] by (simp add: show_table_def wf_table_def)
  then show ?thesis using ParseTableBody_reads [OF assms refl] by (simp add: ParseTable_def into_gives)
qed

section \<open>Properties\<close>

text \<open>C4: table_roundtrip. A table written as a file of tokens - its namespace and object line, its properties, the
  fields it modifies and those it declares with numbers, types, lengths, properties and triggers, its keys, its
  labels, variables and procedures - is read back as that table; the table's \<open>AllowInCustomizations\<close> is set on
  every field it declares and on no other.\<close>

theorem table_roundtrip:
  assumes "wf_table t"
  shows "ParseTable (show_table t @ [tok EndOfFile []]) = Inr (t, [tok EndOfFile []])"
  by (rule ParseTable_reads [OF assms]) simp

definition customer :: table_object where
  "customer = \<lparr>tb_id = 18, tb_name = ''Customer'', tb_nameSpace = [],
     tb_properties = [\<lparr>pr_name = ''AllowInCustomizations'', pr_value = [kw ''Never''], pr_text = ''Never''\<rparr>],
     tb_fields =
       [\<lparr>fd_number = 1, fd_name = ''No.'', fd_type = ''Code'', fd_subtype = [], fd_length = 20,
          fd_properties = [\<lparr>pr_name = ''Caption'', pr_value = [tok StringToken ''No.''], pr_text = ''No.''\<rparr>],
          fd_customizations = ''Never'',
          fd_triggers = [NoProcedure\<lparr>pd_name := ''OnValidate'', pd_variables := [VarDecl False False ''I'' ''Integer'' [] 0 [] [] [] []],
            pd_tokens := show_block [call ''f''], pd_body := [call ''f''], pd_hasBody := True\<rparr>]\<rparr>,
        \<lparr>fd_number = 2, fd_name = ''Kind'', fd_type = ''Enum'', fd_subtype = ''Line Type'', fd_length = 0, fd_properties = [],
          fd_customizations = ''Never'', fd_triggers = []\<rparr>],
     tb_modified = [], tb_keys = [\<lparr>kd_name = ''PK'', kd_fields = [''No.'', ''Kind''], kd_properties = []\<rparr>],
     tb_labels = [], tb_variables = [], tb_procedures = [post_run]\<rparr>"

lemma customer_wf: "wf_table customer"
proof -
  have "wf_procedure post_run" using post_wf by (simp add: wf_codeunit_def post_def)
  moreover have "list_all (\<lambda>s. wf_stmt s \<and> \<not> is_branch s) [call ''f'']" by code_simp
  moreover have "FindProperty (tb_properties customer) ''AllowInCustomizations'' = Some (hd (tb_properties customer))"
    by (simp add: FindProperty_def customer_def SameName_def)
  ultimately show ?thesis
    by (simp add: wf_table_def customer_def customizations_def wf_field_def wf_field_body_def wf_trigger_def wf_key_def wf_property_def
        wf_variable_def NoProcedure_def id_fits_def IsPunctuation_def tok_fields SameName_def)
qed

lemma table_roundtrip_witness:
  "ParseTable (show_table customer @ [tok EndOfFile []]) = Inr (customer, [tok EndOfFile []])"
  by (rule table_roundtrip [OF customer_wf])

end
