(* ===== verification/Guids.thy ===== *)
theory Guids
  imports Prelude "HOL-Library.Word"
begin

text \<open>
  GUIDs, \<^verbatim>\<open>src/include/type/Guid.h\<close> and \<^verbatim>\<open>src/src/net/Guid.cpp\<close>: sixteen bytes, the text they are written as, how a
  text is read, and how new ones are stamped. The random engine and the clock are parameters.
\<close>

unbundle bit_operations_syntax

section \<open>Bytes\<close>

type_synonym bytes = "8 word list"

definition kSize :: nat where "kSize = 16"

definition NullGuid :: bytes where
  "NullGuid = replicate kSize 0"

definition IsNull :: "bytes \<Rightarrow> bool" where
  "IsNull bytes \<longleftrightarrow> foldl (OR) 0 bytes = 0"

record guid_refusal =
  rf_what :: string
  rf_at :: nat

definition kNotHexadecimal :: string where
  "kNotHexadecimal = ''a GUID is written in hexadecimal''"

definition kWrongLength :: string where
  "kWrongLength = ''a GUID is sixteen bytes, and this text is not''"

section \<open>Reading and writing\<close>

definition HexValue :: "char \<Rightarrow> int" where
  "HexValue c =
     (if is_digit c then int (code c) - 48
      else if 97 \<le> code c \<and> code c \<le> 102 then int (code c) - 97 + 10
      else if 65 \<le> code c \<and> code c \<le> 70 then int (code c) - 65 + 10
      else - 1)"

definition kDigits :: string where
  "kDigits = ''0123456789ABCDEF''"

definition HexOf :: "8 word \<Rightarrow> string" where
  "HexOf b = [kDigits ! unat (drop_bit 4 b AND 15), kDigits ! unat (b AND 15)]"

definition kGroups :: "nat list" where
  "kGroups = [4, 2, 2, 2, 6]"

fun HyphenatedLoop :: "nat list \<Rightarrow> bytes \<Rightarrow> nat \<Rightarrow> string" where
  "HyphenatedLoop [] bytes at = []"
| "HyphenatedLoop (g # gs) bytes at =
     (if at \<noteq> 0 then ''-'' else []) @ concat (map (\<lambda>i. HexOf (bytes ! (at + i))) [0..<g]) @ HyphenatedLoop gs bytes (at + g)"

definition Hyphenated :: "bytes \<Rightarrow> string" where
  "Hyphenated bytes = HyphenatedLoop kGroups bytes 0"

definition GuidToStorageText :: "bytes \<Rightarrow> string" where
  "GuidToStorageText guid = Hyphenated guid"

definition GuidToText :: "bytes \<Rightarrow> string" where
  "GuidToText guid = ''{'' @ Hyphenated guid @ ''}''"

text \<open>The loop of \<open>FromText\<close>: the cursor, what is left of the text behind it, the bytes so far.\<close>

fun FromLoop :: "nat \<Rightarrow> string \<Rightarrow> bytes \<Rightarrow> guid_refusal + bytes" where
  "FromLoop cursor (c # d # rest) bytes =
     (if length bytes < kSize then
        if c = CHR ''-'' then FromLoop (cursor + 1) (d # rest) bytes
        else if HexValue c < 0 \<or> HexValue d < 0 then Inl \<lparr>rf_what = kNotHexadecimal, rf_at = cursor + 1\<rparr>
        else FromLoop (cursor + 2) rest (bytes @ [word_of_int (push_bit 4 (HexValue c) OR HexValue d)])
      else Inr bytes)"
| "FromLoop cursor rest bytes =
     (if length bytes \<noteq> kSize then Inl \<lparr>rf_what = kWrongLength, rf_at = 0\<rparr> else Inr bytes)"

definition GuidFromText :: "string \<Rightarrow> guid_refusal + bytes" where
  "GuidFromText s =
     FromLoop 0 (if s \<noteq> [] \<and> hd s = CHR ''{'' \<and> List.last s = CHR ''}'' then butlast (tl s) else s) []"

text \<open>The constructor from a text: one that is refused gives the null GUID.\<close>

definition OfText :: "string \<Rightarrow> bytes" where
  "OfText s = (case GuidFromText s of Inl e \<Rightarrow> NullGuid | Inr g \<Rightarrow> g)"

section \<open>New GUIDs\<close>

text \<open>\<open>random\<close> gives the numbers the engine returns, one after the other.\<close>

fun FillLoop :: "(nat \<Rightarrow> 64 word) \<Rightarrow> nat \<Rightarrow> nat \<Rightarrow> nat \<Rightarrow> 64 word \<Rightarrow> nat \<Rightarrow> bytes \<Rightarrow> bytes" where
  "FillLoop random start i 0 w drawn bytes = bytes"
| "FillLoop random start i (Suc left) w drawn bytes =
     (let (w, drawn) = (if (i - start) mod 8 = 0 then (random drawn, drawn + 1) else (w, drawn)) in
      FillLoop random start (i + 1) left (drop_bit 8 w) drawn (bytes[i := ucast (w AND 255)]))"

definition FillRandom :: "(nat \<Rightarrow> 64 word) \<Rightarrow> nat \<Rightarrow> bytes \<Rightarrow> bytes" where
  "FillRandom random start bytes = FillLoop random start start (length bytes - start) 0 0 bytes"

definition StampVersion :: "8 word \<Rightarrow> bytes \<Rightarrow> bytes" where
  "StampVersion version bytes =
     (let bytes = bytes[6 := (bytes ! 6 AND 15) OR push_bit 4 version] in
      bytes[8 := (bytes ! 8 AND 63) OR 128])"

definition Create :: "(nat \<Rightarrow> 64 word) \<Rightarrow> bytes" where
  "Create random = StampVersion 4 (FillRandom random 0 (replicate kSize 0))"

definition CreateSequentialGuid :: "64 word \<Rightarrow> (nat \<Rightarrow> 64 word) \<Rightarrow> bytes" where
  "CreateSequentialGuid now random =
     (let bytes = map (\<lambda>i. ucast (drop_bit ((6 - 1 - i) * 8) now AND 255)) [0..<6] @ replicate (kSize - 6) 0 in
      StampVersion 7 (FillRandom random 6 bytes))"

section \<open>The round trip\<close>

lemma hex_digits: "n < 16 \<Longrightarrow> HexValue (kDigits ! n) = int n \<and> kDigits ! n \<noteq> CHR ''-'' \<and> kDigits ! n \<noteq> CHR ''{''"
proof -
  have "list_all (\<lambda>n. HexValue (kDigits ! n) = int n \<and> kDigits ! n \<noteq> CHR ''-'' \<and> kDigits ! n \<noteq> CHR ''{'') [0..<16]" by code_simp
  then show "n < 16 \<Longrightarrow> ?thesis" by (simp add: list_all_iff)
qed

lemma unat_byte: "unat b < 256" for b :: "8 word"
  using unsigned_less [of b] by simp

lemma nibbles:
  "unat (drop_bit 4 b AND 15) = unat b div 16" "unat (b AND 15) = unat b mod 16" for b :: "8 word"
proof -
  have *: "w AND 15 = take_bit 4 w" for w :: "8 word" by (simp add: take_bit_eq_mask mask_eq_exp_minus_1)
  have "unat b div 16 < 16" using unat_byte [of b] by simp
  then show "unat (drop_bit 4 b AND 15) = unat b div 16"
    by (simp only: * unsigned_take_bit_eq unat_drop_bit_eq) (simp add: take_bit_eq_mod drop_bit_eq_div)
  show "unat (b AND 15) = unat b mod 16" by (simp only: * unsigned_take_bit_eq) (simp add: take_bit_eq_mod)
qed

lemma nibbles_join: "word_of_int (push_bit 4 (int (unat b div 16)) OR int (unat b mod 16)) = (b :: 8 word)"
proof -
  have "take_bit 4 (unat b mod 16) = unat b mod 16" by (simp add: take_bit_eq_mod)
  then have low: "bit (unat b mod 16) k \<Longrightarrow> k < 4" for k by (metis bit_take_bit_iff)
  have "push_bit 4 (int (unat b div 16)) AND int (unat b mod 16) = 0"
    by (intro bit_eqI) (auto simp: bit_simps dest!: low)
  then have "push_bit 4 (int (unat b div 16)) OR int (unat b mod 16) = int (unat b div 16) * 16 + int (unat b mod 16)"
    by (simp add: disjunctive_add_eq_or [symmetric] push_bit_eq_mult)
  also have "\<dots> = int (unat b)" by (metis div_mult_mod_eq of_nat_add of_nat_mult of_nat_numeral)
  finally show ?thesis by simp
qed

lemma HexOf_nibbles: "HexOf b = [kDigits ! (unat b div 16), kDigits ! (unat b mod 16)]"
  using nibbles [of b] by (simp only: HexOf_def)

lemma FromLoop_byte:
  assumes "length bytes < kSize"
  shows "FromLoop cursor (HexOf b @ rest) bytes = FromLoop (cursor + 2) rest (bytes @ [b])"
proof -
  have n: "unat b div 16 < 16" "unat b mod 16 < 16" using unat_byte [of b] by simp_all
  show ?thesis
    using assms hex_digits [OF n(1)] hex_digits [OF n(2)] nibbles_join [of b] by (simp add: HexOf_nibbles)
qed

lemma FromLoop_hyphen: "length bytes < kSize \<Longrightarrow> rest \<noteq> [] \<Longrightarrow> FromLoop cursor (CHR ''-'' # rest) bytes = FromLoop (cursor + 1) rest bytes"
  by (cases rest) simp_all

lemma FromLoop_bytes:
  "length acc + length bs \<le> kSize \<Longrightarrow>
    FromLoop cursor (concat (map HexOf bs) @ rest) acc = FromLoop (cursor + 2 * length bs) rest (acc @ bs)"
proof (induction bs arbitrary: cursor acc)
  case (Cons b bs)
  then have "FromLoop cursor (HexOf b @ concat (map HexOf bs) @ rest) acc = FromLoop (cursor + 2) (concat (map HexOf bs) @ rest) (acc @ [b])"
    by (intro FromLoop_byte) simp
  then show ?case using Cons.IH [of "acc @ [b]" "cursor + 2"] Cons.prems by simp
qed simp

lemma FromLoop_groups:
  assumes "length bytes = kSize" "at + sum_list gs = kSize" "\<forall>g \<in> set gs. 0 < g" "0 < at \<or> gs \<noteq> []"
  shows "\<exists>cursor'. FromLoop cursor (HyphenatedLoop gs bytes at @ rest) (take at bytes) = FromLoop cursor' rest bytes"
  using assms(2-4)
proof (induction gs arbitrary: cursor at)
  case Nil
  then show ?case using assms(1) by auto
next
  case (Cons g gs)
  let ?hex = "concat (map HexOf (map (\<lambda>i. bytes ! (at + i)) [0..<g]))"
  have at: "at + g \<le> kSize" "0 < g" using Cons.prems by auto
  then have hex: "?hex \<noteq> []" by (simp add: HexOf_def upt_rec)
  have bs: "take at bytes @ map (\<lambda>i. bytes ! (at + i)) [0..<g] = take (at + g) bytes"
    using at assms(1) by (intro nth_equalityI) (auto simp: nth_append)
  have "\<exists>c. FromLoop cursor (HyphenatedLoop (g # gs) bytes at @ rest) (take at bytes) =
      FromLoop c (?hex @ HyphenatedLoop gs bytes (at + g) @ rest) (take at bytes)"
  proof (cases "at = 0")
    case False
    then show ?thesis
      using FromLoop_hyphen [of "take at bytes" "?hex @ HyphenatedLoop gs bytes (at + g) @ rest" cursor] hex at assms(1)
      by (auto simp: comp_def)
  qed (auto simp: comp_def)
  then obtain c where "FromLoop cursor (HyphenatedLoop (g # gs) bytes at @ rest) (take at bytes) =
      FromLoop c (?hex @ HyphenatedLoop gs bytes (at + g) @ rest) (take at bytes)" by blast
  also have "\<dots> = FromLoop (c + 2 * g) (HyphenatedLoop gs bytes (at + g) @ rest) (take (at + g) bytes)"
    using FromLoop_bytes [of "take at bytes" "map (\<lambda>i. bytes ! (at + i)) [0..<g]" c] at assms(1) bs by simp
  finally show ?case using Cons.IH [of "at + g" "c + 2 * g"] Cons.prems at by auto
qed

lemma FromLoop_full: "length bytes = kSize \<Longrightarrow> FromLoop cursor rest bytes = Inr bytes"
  by (induction cursor rest bytes rule: FromLoop.induct) simp_all

lemma FromLoop_Hyphenated:
  assumes "length bytes = kSize"
  shows "FromLoop cursor (Hyphenated bytes @ rest) [] = Inr bytes"
proof -
  obtain c where "FromLoop cursor (Hyphenated bytes @ rest) [] = FromLoop c rest bytes"
    using FromLoop_groups [OF assms, of 0 kGroups cursor rest] by (auto simp: Hyphenated_def kGroups_def kSize_def)
  then show ?thesis using FromLoop_full [OF assms] by simp
qed

lemma Hyphenated_head: "\<exists>c s. Hyphenated bytes = c # s \<and> c \<noteq> CHR ''{''"
proof -
  have "unat (bytes ! 0) div 16 < 16" using unat_byte [of "bytes ! 0"] by simp
  then show ?thesis using hex_digits by (simp add: Hyphenated_def kGroups_def HexOf_nibbles upt_rec)
qed

lemma FromText_written:
  assumes "length bytes = kSize"
  shows "GuidFromText (GuidToText bytes) = Inr bytes" "GuidFromText (Hyphenated bytes @ rest) = Inr bytes"
  using FromLoop_Hyphenated [OF assms, of 0] FromLoop_Hyphenated [OF assms, of 0 "[]"] Hyphenated_head [of bytes]
  by (auto simp: GuidFromText_def GuidToText_def)

section \<open>New GUIDs\<close>

lemma length_FillLoop [simp]: "length (FillLoop random start i left w drawn bytes) = length bytes"
  by (induction random start i left w drawn bytes rule: FillLoop.induct) (simp_all add: Let_def split: prod.splits)

lemma FillLoop_before: "j < i \<Longrightarrow> FillLoop random start i left w drawn bytes ! j = bytes ! j"
  by (induction random start i left w drawn bytes rule: FillLoop.induct) (simp_all add: Let_def split: prod.splits)

lemma length_FillRandom [simp]: "length (FillRandom random start bytes) = length bytes"
  by (simp add: FillRandom_def)

lemma FillRandom_before: "j < start \<Longrightarrow> FillRandom random start bytes ! j = bytes ! j"
  by (simp add: FillRandom_def FillLoop_before)

lemma length_StampVersion [simp]: "length (StampVersion v bytes) = length bytes"
  by (simp add: StampVersion_def)

text \<open>The version is in the upper half of byte 6, the variant in the upper two bits of byte 8; nothing else changes.\<close>

lemma StampVersion_bits:
  assumes "length bytes = kSize" "v < 16"
  shows "drop_bit 4 (StampVersion v bytes ! 6) = v" "StampVersion v bytes ! 6 AND 15 = bytes ! 6 AND 15"
    "drop_bit 6 (StampVersion v bytes ! 8) = 2" "StampVersion v bytes ! 8 AND 63 = bytes ! 8 AND 63"
    "j \<noteq> 6 \<Longrightarrow> j \<noteq> 8 \<Longrightarrow> StampVersion v bytes ! j = bytes ! j"
proof -
  have v: "bit v n \<Longrightarrow> n < 4" for n
  proof -
    have "unat v < 2 ^ 4" using assms(2) by (simp add: word_less_nat_alt)
    then have "take_bit 4 (unat v) = unat v" by (simp add: take_bit_nat_eq_self_iff)
    then show "bit v n \<Longrightarrow> n < 4" by (metis bit_take_bit_iff bit_unsigned_iff possible_bit_nat)
  qed
  have m: "(15 :: 8 word) = mask 4" "(63 :: 8 word) = mask 6" by (simp_all add: mask_eq_exp_minus_1)
  have two: "bit (2 :: 8 word) n \<longleftrightarrow> n = 1" "bit (128 :: int) n \<longleftrightarrow> n = 7" for n
    using bit_exp_iff [where 'a = int, of 7 n] by (auto simp: bit_2_iff)
  have at: "StampVersion v bytes ! 6 = (bytes ! 6 AND 15) OR push_bit 4 v" "StampVersion v bytes ! 8 = (bytes ! 8 AND 63) OR 128"
    using assms(1) by (simp_all add: StampVersion_def kSize_def)
  show "drop_bit 4 (StampVersion v bytes ! 6) = v" unfolding at m
    by (rule bit_word_eqI) (auto simp: bit_simps dest: v)
  show "StampVersion v bytes ! 6 AND 15 = bytes ! 6 AND 15" unfolding at m
    by (rule bit_word_eqI) (auto simp: bit_simps dest: v)
  show "drop_bit 6 (StampVersion v bytes ! 8) = 2" unfolding at m
    by (rule bit_word_eqI) (auto simp: bit_simps two)
  show "StampVersion v bytes ! 8 AND 63 = bytes ! 8 AND 63" unfolding at m
    by (rule bit_word_eqI) (auto simp: bit_simps two)
  show "j \<noteq> 6 \<Longrightarrow> j \<noteq> 8 \<Longrightarrow> StampVersion v bytes ! j = bytes ! j"
    by (simp add: StampVersion_def)
qed

text \<open>The order of byte strings that differ first where the one has the smaller byte.\<close>

definition earlier :: "bytes \<Rightarrow> bytes \<Rightarrow> bool" where
  "earlier a b \<longleftrightarrow> (\<exists>i < length a. i < length b \<and> (\<forall>j < i. a ! j = b ! j) \<and> a ! i < b ! i)"

lemma big_endian_less:
  "n < m \<Longrightarrow> m < 256 ^ k \<Longrightarrow>
    \<exists>i < k. (\<forall>j < i. n div 256 ^ (k - 1 - j) mod 256 = m div 256 ^ (k - 1 - j) mod 256) \<and>
      n div 256 ^ (k - 1 - i) mod 256 < m div 256 ^ (k - 1 - i) mod (256 :: nat)"
proof (induction k arbitrary: n m)
  case (Suc k)
  let ?a = "n div 256 ^ k" and ?b = "m div 256 ^ k"
  have top: "?a < 256" "?b < 256" using Suc.prems by (auto simp: div_less_iff_less_mult)
  have "?a \<le> ?b" using Suc.prems by (intro div_le_mono) simp
  then consider "?a < ?b" | "?a = ?b" by linarith
  then show ?case
  proof cases
    case 1
    then show ?thesis using top by (intro exI [of _ 0]) simp
  next
    case 2
    have "n mod 256 ^ k < m mod 256 ^ k"
      using Suc.prems(1) 2 div_mult_mod_eq [of n "256 ^ k"] div_mult_mod_eq [of m "256 ^ k"]
      by (metis nat_add_left_cancel_less)
    from Suc.IH [OF this] obtain i where i: "i < k"
      "\<forall>j < i. (n mod 256 ^ k) div 256 ^ (k - 1 - j) mod 256 = (m mod 256 ^ k) div 256 ^ (k - 1 - j) mod 256"
      "(n mod 256 ^ k) div 256 ^ (k - 1 - i) mod 256 < (m mod 256 ^ k) div 256 ^ (k - 1 - i) mod 256" by auto
    have low: "(x mod 256 ^ k) div 256 ^ (k - 1 - j) mod 256 = x div 256 ^ (k - 1 - j) mod 256" if "j < k" for x j :: nat
    proof -
      have "(256 :: nat) ^ k = 256 ^ (k - 1 - j) * 256 ^ Suc j" using that
        by (metis Suc_diff_1 add.commute diff_Suc_eq_diff_pred le_add_diff_inverse less_eq_Suc_le power_add)
      then show ?thesis by (simp add: mod_mult2_eq mod_mod_cancel)
    qed
    have "\<forall>j < Suc i. n div 256 ^ (Suc k - 1 - j) mod 256 = m div 256 ^ (Suc k - 1 - j) mod 256"
      using i(1,2) 2 low by (auto simp: less_Suc_eq_0_disj)
    moreover have "n div 256 ^ (Suc k - 1 - Suc i) mod 256 < m div 256 ^ (Suc k - 1 - Suc i) mod 256"
      using i(1,3) low by simp
    ultimately show ?thesis using i(1) by (intro exI [of _ "Suc i"]) simp
  qed
qed simp

lemma timestamp_byte:
  assumes "i < 6"
  shows "unat (CreateSequentialGuid now random ! i) = unat now div 256 ^ (5 - i) mod 256"
proof -
  let ?ts = "map (\<lambda>i. ucast (drop_bit ((6 - 1 - i) * 8) now AND 255)) [0..<6] @ replicate (kSize - 6) (0 :: 8 word)"
  have "CreateSequentialGuid now random ! i = FillRandom random 6 ?ts ! i"
    using assms StampVersion_bits(5) [of "FillRandom random 6 ?ts" 7 i] by (simp add: CreateSequentialGuid_def kSize_def)
  also have "\<dots> = ucast (drop_bit ((5 - i) * 8) now AND 255)"
    using assms by (simp add: FillRandom_before nth_append)
  finally have "unat (CreateSequentialGuid now random ! i) = unat (ucast (drop_bit ((5 - i) * 8) now AND 255) :: 8 word)" by simp
  also have "\<dots> = unat (drop_bit ((5 - i) * 8) now) mod 256"
  proof -
    have "w AND 255 = take_bit 8 w" for w :: "64 word" by (simp add: take_bit_eq_mask mask_eq_exp_minus_1)
    then have "unat (w AND 255) = unat w mod 256" for w :: "64 word"
      by (simp only: unsigned_take_bit_eq) (simp add: take_bit_eq_mod)
    then show ?thesis by (simp only: unsigned_ucast_eq) (simp add: take_bit_eq_mod)
  qed
  also have "\<dots> = unat now div 256 ^ (5 - i) mod 256"
    by (simp only: unat_drop_bit_eq) (simp add: drop_bit_eq_div power_mult mult.commute [of _ 8])
  finally show ?thesis .
qed

section \<open>Properties\<close>

text \<open>C29: guid_roundtrip. A GUID written with its braces, or as it is stored, is read back as the same sixteen bytes.\<close>

theorem guid_roundtrip:
  assumes "length guid = kSize"
  shows "GuidFromText (GuidToText guid) = Inr guid \<and> GuidFromText (GuidToStorageText guid) = Inr guid"
  using FromText_written(1) [OF assms] FromText_written(2) [OF assms, of "[]"] by (simp_all add: GuidToStorageText_def)

lemma guid_roundtrip_witness: "OfText (GuidToText (replicate 15 171 @ [1])) = replicate 15 171 @ [1]"
  using guid_roundtrip [of "replicate 15 171 @ [1]"] by (simp add: OfText_def kSize_def)

text \<open>Reading stops after sixteen bytes: whatever follows them is not looked at.\<close>

lemma tail_ignored:
  assumes "length guid = kSize"
  shows "GuidFromText (GuidToStorageText guid @ ''-and more'') = Inr guid"
  using FromText_written [OF assms] by (simp add: GuidToStorageText_def)

text \<open>C30: sequential_guids. A sequential GUID is sixteen bytes of version 7 and of the RFC's variant, and one made in a
  later millisecond comes after one made earlier in the order of the bytes, whatever the random numbers are.\<close>

theorem sequential_guids:
  assumes "now < later" "later < 2 ^ 48"
  shows "length (CreateSequentialGuid now random) = kSize \<and>
    drop_bit 4 (CreateSequentialGuid now random ! 6) = 7 \<and> drop_bit 6 (CreateSequentialGuid now random ! 8) = 2 \<and>
    earlier (CreateSequentialGuid now random) (CreateSequentialGuid later random')"
proof (intro conjI)
  have len: "length (CreateSequentialGuid t r) = kSize" for t r by (simp add: CreateSequentialGuid_def kSize_def)
  show "length (CreateSequentialGuid now random) = kSize" by (rule len)
  show "drop_bit 4 (CreateSequentialGuid now random ! 6) = 7" "drop_bit 6 (CreateSequentialGuid now random ! 8) = 2"
    unfolding CreateSequentialGuid_def Let_def by (rule StampVersion_bits(1,3); simp add: kSize_def)+
  have "unat now < unat later" "unat later < 256 ^ 6"
    using assms by (simp_all add: word_less_nat_alt)
  from big_endian_less [OF this] obtain i where i: "i < 6"
    "\<forall>j < i. unat now div 256 ^ (5 - j) mod 256 = unat later div 256 ^ (5 - j) mod 256"
    "unat now div 256 ^ (5 - i) mod 256 < unat later div 256 ^ (5 - i) mod 256" by auto
  have "\<forall>j < i. CreateSequentialGuid now random ! j = CreateSequentialGuid later random' ! j"
    using i(1,2) timestamp_byte by (simp add: word_unat_eq_iff)
  moreover have "CreateSequentialGuid now random ! i < CreateSequentialGuid later random' ! i"
    using i(1,3) timestamp_byte by (simp add: word_less_nat_alt)
  ultimately show "earlier (CreateSequentialGuid now random) (CreateSequentialGuid later random')"
    using i(1) len unfolding earlier_def by (intro exI [of _ i]) (simp add: kSize_def)
qed

lemma sequential_guids_witness: "earlier (CreateSequentialGuid 1700000000000 (\<lambda>_. 0)) (CreateSequentialGuid 1700000000001 (\<lambda>n. word_of_nat n))"
  using sequential_guids [of 1700000000000 1700000000001] by simp

end
