(* ===== verification/Base64.thy ===== *)
theory Base64
  imports Prelude
begin

text \<open>
  Base64, \<^verbatim>\<open>src/src/net/Base64.cpp\<close>: the encoder with its line breaks, the decoder with its groups, and the buffer
  both write through. Bytes are characters; the 24 bits of a group and the sextets are natural numbers, which stay
  far below the 32 bits of the code.
\<close>

unbundle bit_operations_syntax

section \<open>Constants\<close>

definition kAlphabet :: string where
  "kAlphabet = ''ABCDEFGHIJKLMNOPQRSTUVWXYZabcdefghijklmnopqrstuvwxyz0123456789+/''"

definition kLineWidth :: nat where "kLineWidth = 76"

definition kScratchSize :: nat where "kScratchSize = 4096"

datatype sextet = Invalid | Whitespace | Padding | Sextet nat

text \<open>\<open>kValues\<close>: the last assignment to an element stands.\<close>

definition kValues :: "char \<Rightarrow> sextet" where
  "kValues c =
     (if c \<in> set [CHR 0x20, CHR 0x09, CHR 0x0D, CHR 0x0A] then Whitespace
      else if c = CHR ''='' then Padding
      else if c \<in> set kAlphabet then Sextet (length (takeWhile (\<lambda>a. a \<noteq> c) kAlphabet))
      else Invalid)"

datatype base64_error = CapacityExceeded | InvalidInput

section \<open>Encoding\<close>

definition EncodedSize :: "nat \<Rightarrow> bool \<Rightarrow> nat \<Rightarrow> base64_error + nat" where
  "EncodedSize bytes lines maximum =
     (let groups = bytes div 3 + (if bytes mod 3 \<noteq> 0 then 1 else 0) in
      if groups > maximum div 4 then Inl CapacityExceeded
      else
        let characters = groups * 4;
            breaks = (if lines \<and> characters \<noteq> 0 then (characters - 1) div kLineWidth else 0) in
        if breaks > (maximum - characters) div 2 then Inl CapacityExceeded else Inr (characters + breaks * 2))"

definition EncodeGroup :: "string \<Rightarrow> string" where
  "EncodeGroup taken =
     (let value = foldl (\<lambda>v byte. push_bit 8 v OR (if byte < length taken then code (taken ! byte) else 0)) 0 [0..<3] in
      map (\<lambda>index. if index \<le> length taken then kAlphabet ! (drop_bit ((4 - index - 1) * 6) value AND 63) else CHR ''='') [0..<4])"

fun Encode :: "bool \<Rightarrow> nat \<Rightarrow> string \<Rightarrow> string" where
  "Encode lines column [] = []"
| "Encode lines column (b # bytes) =
     (let bytes = b # bytes;
          break = lines \<and> column = kLineWidth;
          column = (if break then 0 else column) in
      (if break then [CHR 0x0D, CHR 0x0A] else []) @ EncodeGroup (take 3 bytes) @
      Encode lines (column + 4) (drop 3 bytes))"

definition EncodeBase64 :: "nat \<Rightarrow> string \<Rightarrow> bool \<Rightarrow> base64_error + string" where
  "EncodeBase64 maximum bytes lineBreaks =
     andThen (EncodedSize (length bytes) lineBreaks maximum) (\<lambda>_. Inr (Encode lineBreaks 0 bytes))"

section \<open>Decoding\<close>

definition sextet_bits :: "sextet \<Rightarrow> nat" where
  "sextet_bits s = (case s of Sextet n \<Rightarrow> n AND 63 | _ \<Rightarrow> 0)"

definition DecodeGroup :: "sextet list \<Rightarrow> base64_error + string" where
  "DecodeGroup quad =
     (if quad ! 0 = Padding \<or> quad ! 1 = Padding \<or> quad ! 2 = Padding \<and> quad ! 3 \<noteq> Padding then Inl InvalidInput
      else
        let count = (if quad ! 2 = Padding then 1 else if quad ! 3 = Padding then 2 else 3);
            packed = foldl (\<lambda>packed sextet. push_bit 6 packed OR sextet_bits sextet) 0 quad in
        Inr (map (\<lambda>index. char_of (drop_bit ((3 - index - 1) * 8) packed)) [0..<count]))"

fun DecodeLoop :: "string \<Rightarrow> sextet list \<Rightarrow> bool \<Rightarrow> nat \<Rightarrow> string \<Rightarrow> base64_error + nat \<times> string" where
  "DecodeLoop [] quad ended made output = (if quad \<noteq> [] then Inl InvalidInput else Inr (made, output))"
| "DecodeLoop (byte # text) quad ended made output =
     (let value = kValues byte in
      if value = Whitespace then DecodeLoop text quad ended made output
      else if value = Invalid \<or> ended then Inl InvalidInput
      else
        let quad = quad @ [value] in
        if length quad \<noteq> 4 then DecodeLoop text quad ended made output
        else andThen (DecodeGroup quad) (\<lambda>bytes.
          DecodeLoop text [] (length bytes < 3) (made + length bytes) (output @ bytes)))"

definition Decode :: "string \<Rightarrow> base64_error + nat \<times> string" where
  "Decode text = DecodeLoop text [] False 0 []"

text \<open>The first pass over the text has no output and gives the size.\<close>

definition DecodeBase64 :: "string \<Rightarrow> base64_error + string" where
  "DecodeBase64 text = andThen (Decode text) (\<lambda>(made, _). andThen (Decode text) (\<lambda>(_, result). Inr result))"

section \<open>The output buffer\<close>

text \<open>An \<open>Output\<close> over a stream: the stream's bytes and the scratch bytes in use.\<close>

record sink =
  out_stream :: string
  out_buffer :: string

definition Flush :: "sink \<Rightarrow> sink" where
  "Flush out = (if out_buffer out = [] then out
     else \<lparr>out_stream = out_stream out @ out_buffer out, out_buffer = []\<rparr>)"

definition Put :: "string \<Rightarrow> sink \<Rightarrow> sink" where
  "Put bytes out =
     (let out = (if length bytes > kScratchSize - length (out_buffer out) then Flush out else out) in
      out\<lparr>out_buffer := out_buffer out @ bytes\<rparr>)"

section \<open>One group\<close>

lemma or_add: "b < 2 ^ n \<Longrightarrow> push_bit n a OR b = a * 2 ^ n + (b :: nat)"
proof -
  assume "b < 2 ^ n"
  then have "take_bit n b = b" by (simp add: take_bit_nat_eq_self_iff)
  then have low: "bit b k \<Longrightarrow> k < n" for k by (metis bit_take_bit_iff)
  have "push_bit n a AND b = 0" by (intro bit_eqI) (auto simp: bit_simps dest!: low)
  then show ?thesis by (simp add: disjunctive_add_eq_or [symmetric] push_bit_eq_mult)
qed

lemma and_63: "n AND 63 = (n mod 64 :: nat)"
  using take_bit_eq_mask [of 6 n] by (simp add: mask_eq_exp_minus_1 take_bit_eq_mod)

lemma kValues_alphabet: "i < 64 \<Longrightarrow> kValues (kAlphabet ! i) = Sextet i"
proof -
  have "list_all (\<lambda>i. kValues (kAlphabet ! i) = Sextet i) [0..<64]" by code_simp
  then show "i < 64 \<Longrightarrow> ?thesis" by (simp add: list_all_iff)
qed

text \<open>The sextets of a number of 24 bits, and the bytes.\<close>

lemma sextets:
  assumes "v < 2 ^ 24"
  shows "((v div 2 ^ 18 * 64 + v div 2 ^ 12 mod 64) * 64 + v div 2 ^ 6 mod 64) * 64 + v mod 64 = (v :: nat)"
proof -
  have "v div 2 ^ 12 = v div 2 ^ 18 * 64 + v div 2 ^ 12 mod 64"
    using div_mult_mod_eq [of "v div 2 ^ 12" 64] by (simp add: div_mult2_eq [symmetric])
  moreover have "v div 2 ^ 6 = v div 2 ^ 12 * 64 + v div 2 ^ 6 mod 64"
    using div_mult_mod_eq [of "v div 2 ^ 6" 64] by (simp add: div_mult2_eq [symmetric])
  moreover have "v = v div 2 ^ 6 * 64 + v mod 64" using div_mult_mod_eq [of v 64] by simp
  ultimately show ?thesis by metis
qed

lemma byte_bits:
  assumes "x < 256" "y < 256" "z < (256 :: nat)"
  shows "((x * 256 + y) * 256 + z) div 2 ^ 16 = x" "((x * 256 + y) * 256 + z) div 2 ^ 8 mod 256 = y"
    "((x * 256 + y) * 256 + z) mod 256 = z" "(x * 256 + y) * 256 + z < 2 ^ 24"
proof -
  show "((x * 256 + y) * 256 + z) mod 256 = z" using assms by (simp only: mod_mult_self3 mod_less)
  have *: "((x * 256 + y) * 256 + z) div 2 ^ 8 = x * 256 + y" using assms by simp
  then show "((x * 256 + y) * 256 + z) div 2 ^ 8 mod 256 = y" using assms by (simp only: mod_mult_self3 mod_less)
  show "((x * 256 + y) * 256 + z) div 2 ^ 16 = x" "(x * 256 + y) * 256 + z < 2 ^ 24" using assms by simp_all
qed

lemma value_of_three: "foldl (\<lambda>v byte. push_bit 8 v OR f byte) 0 [0..<3] = (f 0 * 256 + f 1) * 256 + (f 2 :: nat)"
  if "\<And>i. f i < 256"
  using that [of 0] that [of 1] that [of 2] by (simp add: upt_rec or_add [of _ 8, simplified] numeral_2_eq_2)

text \<open>A group of one to three bytes, as a number.\<close>

definition group_value :: "string \<Rightarrow> nat" where
  "group_value bs = (let b = (\<lambda>i. if i < length bs then code (bs ! i) else 0) in (b 0 * 256 + b 1) * 256 + b 2)"

lemma EncodeGroup_value:
  "EncodeGroup bs = map (\<lambda>i. if i \<le> length bs then kAlphabet ! (group_value bs div 2 ^ ((3 - i) * 6) mod 64) else CHR ''='') [0..<4]"
  by (simp add: EncodeGroup_def value_of_three group_value_def Let_def and_63 drop_bit_eq_div cong: map_cong)

definition group_sextets :: "string \<Rightarrow> sextet list" where
  "group_sextets bs = map (\<lambda>i. if i \<le> length bs then Sextet (group_value bs div 2 ^ ((3 - i) * 6) mod 64) else Padding) [0..<4]"

lemma kValues_padding: "kValues (CHR ''='') = Padding"
  by code_simp

lemma EncodeGroup_sextets: "map kValues (EncodeGroup bs) = group_sextets bs"
  by (simp add: EncodeGroup_value group_sextets_def kValues_alphabet kValues_padding)

lemma packed_sextets:
  assumes "v < 2 ^ 24"
  shows "foldl (\<lambda>packed s. push_bit 6 packed OR sextet_bits s) 0
      [Sextet (v div 2 ^ 18 mod 64), Sextet (v div 2 ^ 12 mod 64), Sextet (v div 2 ^ 6 mod 64), Sextet (v mod 64)] = v"
proof -
  have "v div 2 ^ 18 mod 64 = v div 2 ^ 18" using assms by simp
  then show ?thesis
    using sextets [OF assms] by (simp add: sextet_bits_def and_63 or_add [of _ 6, simplified])
qed

lemma group_value_bytes:
  assumes "length bs \<le> 3"
  shows "group_value bs < 2 ^ 24"
    and "i < length bs \<Longrightarrow> char_of (drop_bit ((2 - i) * 8) (group_value bs)) = bs ! i"
    and "length bs = 1 \<Longrightarrow> group_value bs mod 2 ^ 12 = 0" "length bs = 2 \<Longrightarrow> group_value bs mod 2 ^ 6 = 0"
proof -
  define b where "b i = (if i < length bs then code (bs ! i) else 0)" for i
  have v: "group_value bs = (b 0 * 256 + b 1) * 256 + b 2" by (simp add: group_value_def b_def Let_def)
  have b: "b i < 256" for i by (simp add: b_def)
  note bits = byte_bits [OF b b b, of 0 1 2]
  show "group_value bs < 2 ^ 24" using bits(4) v by simp
  have char: "char_of n = c" if "n mod 256 = code c" for n c
    using that by (metis char_of_code char_of_mod_256)
  show "char_of (drop_bit ((2 - i) * 8) (group_value bs)) = bs ! i" if "i < length bs"
  proof -
    from that assms consider "i = 0" | "i = 1" | "i = 2" by linarith
    then show ?thesis
    proof cases
      case 1
      then show ?thesis using bits(1) that by (intro char) (simp add: v drop_bit_eq_div, simp add: b_def)
    next
      case 2
      then show ?thesis using bits(2) that by (intro char) (simp add: v drop_bit_eq_div, simp add: b_def)
    next
      case 3
      then show ?thesis using bits(3) that by (intro char) (simp add: v drop_bit_eq_div, simp add: b_def)
    qed
  qed
  have "b 2 = 0" if "length bs \<le> 2" using that by (simp add: b_def)
  moreover have "b 1 = 0" if "length bs = 1" using that by (simp add: b_def)
  ultimately show "length bs = 1 \<Longrightarrow> group_value bs mod 2 ^ 12 = 0" "length bs = 2 \<Longrightarrow> group_value bs mod 2 ^ 6 = 0"
    by (simp_all add: v)
qed

lemma DecodeGroup_sextets:
  assumes "bs \<noteq> []" "length bs \<le> 3"
  shows "DecodeGroup (group_sextets bs) = Inr bs"
proof -
  let ?v = "group_value bs"
  let ?packed = "foldl (\<lambda>packed s. push_bit 6 packed OR sextet_bits s) 0"
  note v = group_value_bytes [OF assms(2)]
  have bytes: "map (\<lambda>index. char_of (drop_bit ((3 - index - 1) * 8) ?v)) [0..<length bs] = bs"
    by (rule nth_equalityI) (use v(2) in \<open>simp_all add: diff_commute\<close>)
  have low: "n mod 64 = 0 \<and> n div 2 ^ 6 mod 64 = 0" if "n mod 2 ^ 12 = 0" for n :: nat
  proof -
    have "(4096 :: nat) dvd n" using that by (simp add: mod_eq_0_iff_dvd)
    then obtain k where "n = 4096 * k" by (rule dvdE)
    then have "n = 64 * (64 * k)" by simp
    then show ?thesis by simp
  qed
  have four: "group_sextets bs =
      [Sextet (?v div 2 ^ 18 mod 64), if 1 \<le> length bs then Sextet (?v div 2 ^ 12 mod 64) else Padding,
       if 2 \<le> length bs then Sextet (?v div 2 ^ 6 mod 64) else Padding, if 3 \<le> length bs then Sextet (?v mod 64) else Padding]"
    by (simp add: group_sextets_def upt_rec)
  have "length bs = 1 \<or> length bs = 2 \<or> length bs = 3"
    using assms length_0_conv [of bs] by linarith
  then show ?thesis
  proof (elim disjE)
    assume l: "length bs = 1"
    have "?packed [Sextet (?v div 2 ^ 18 mod 64), Sextet (?v div 2 ^ 12 mod 64), Padding, Padding] = ?v"
      using packed_sextets [OF v(1)] low [OF v(3) [OF l]] by (simp add: sextet_bits_def)
    then show ?thesis using bytes l unfolding DecodeGroup_def four by (simp del: foldl.simps)
  next
    assume l: "length bs = 2"
    have "?packed [Sextet (?v div 2 ^ 18 mod 64), Sextet (?v div 2 ^ 12 mod 64), Sextet (?v div 2 ^ 6 mod 64), Padding] = ?v"
      using packed_sextets [OF v(1)] v(4) [OF l] by (simp add: sextet_bits_def)
    then show ?thesis using bytes l unfolding DecodeGroup_def four by (simp del: foldl.simps)
  next
    assume l: "length bs = 3"
    then show ?thesis using bytes packed_sextets [OF v(1)] unfolding DecodeGroup_def four by (simp del: foldl.simps)
  qed
qed

section \<open>The round trip\<close>

lemma DecodeLoop_group:
  assumes "bs \<noteq> []" "length bs \<le> 3"
  shows "DecodeLoop (EncodeGroup bs @ rest) [] False n out = DecodeLoop rest [] (length bs < 3) (n + length bs) (out @ bs)"
proof -
  have "length (EncodeGroup bs) = 4" by (simp add: EncodeGroup_def Let_def)
  then obtain a b c d where g: "EncodeGroup bs = [a, b, c, d]" by (auto simp: length_Suc_conv numeral_eq_Suc)
  have m: "[kValues a, kValues b, kValues c, kValues d] = group_sextets bs" using EncodeGroup_sextets [of bs] g by simp
  then have "\<forall>x \<in> {kValues a, kValues b, kValues c, kValues d}. x \<noteq> Whitespace \<and> x \<noteq> Invalid"
    by (auto simp: group_sextets_def upt_rec split: if_splits)
  moreover have "DecodeGroup [kValues a, kValues b, kValues c, kValues d] = Inr bs" using DecodeGroup_sextets [OF assms] m by simp
  ultimately show ?thesis unfolding g by simp
qed

lemma DecodeLoop_break: "DecodeLoop (CHR 0x0D # CHR 0x0A # rest) [] ended n out = DecodeLoop rest [] ended n out"
  by (simp add: kValues_def)

lemma DecodeLoop_encoded:
  "DecodeLoop (Encode lines column bs) [] False n out = Inr (n + length bs, out @ bs)"
proof (induction lines column bs arbitrary: n out rule: Encode.induct)
  case (2 lines column b bs)
  define bytes where "bytes = b # bs"
  define later where "later = (if lines \<and> column = kLineWidth then 0 else column) + 4"
  let ?rest = "Encode lines later (drop 3 bytes)"
  have IH: "DecodeLoop ?rest [] False m out' = Inr (m + length (drop 3 bytes), out' @ drop 3 bytes)" for m out'
    using "2.IH" unfolding bytes_def later_def by blast
  have ne: "bytes \<noteq> []" by (simp add: bytes_def)
  have "Encode lines column bytes =
      (if lines \<and> column = kLineWidth then [CHR 0x0D, CHR 0x0A] else []) @ EncodeGroup (take 3 bytes) @ ?rest"
    unfolding bytes_def later_def by (subst Encode.simps) (simp only: Let_def)
  then have "DecodeLoop (Encode lines column bytes) [] False n out = DecodeLoop (EncodeGroup (take 3 bytes) @ ?rest) [] False n out"
    using DecodeLoop_break by simp
  also have "\<dots> = DecodeLoop ?rest [] (length (take 3 bytes) < 3) (n + length (take 3 bytes)) (out @ take 3 bytes)"
    by (rule DecodeLoop_group) (use ne in simp_all)
  also have "\<dots> = Inr (n + length bytes, out @ bytes)"
  proof (cases "length bytes < 3")
    case True
    then show ?thesis by simp
  next
    case False
    then have "length (take 3 bytes) = 3" by simp
    then show ?thesis using IH [of "n + 3" "out @ take 3 bytes"] False by simp
  qed
  finally show ?case unfolding bytes_def .
qed simp

section \<open>Sizes\<close>

text \<open>The encoder's column is where the line stands: a multiple of four up to the width.\<close>

definition line_breaks :: "bool \<Rightarrow> nat \<Rightarrow> nat \<Rightarrow> nat" where
  "line_breaks lines column groups = (if lines \<and> groups \<noteq> 0 then (column + groups * 4 - 1) div kLineWidth else 0)"

lemma length_EncodeGroup [simp]: "length (EncodeGroup bs) = 4"
  by (simp add: EncodeGroup_def Let_def)

definition groups_of :: "nat \<Rightarrow> nat" where
  "groups_of bytes = bytes div 3 + (if bytes mod 3 \<noteq> 0 then 1 else 0)"

lemma groups_of_less: "0 < n \<Longrightarrow> groups_of n = Suc (groups_of (n - 3))"
proof (cases "n < 3")
  case True
  then have "n = 1 \<or> n = 2" if "0 < n" using that by linarith
  then show "0 < n \<Longrightarrow> ?thesis" by (auto simp: groups_of_def)
next
  case False
  then obtain m where "n = m + 3" by (metis add.commute le_Suc_ex not_less)
  then show ?thesis by (simp add: groups_of_def)
qed

lemma line_breaks_step:
  assumes "lines \<Longrightarrow> column mod 4 = 0 \<and> column \<le> kLineWidth"
  shows "line_breaks lines column (Suc g) =
    (if lines \<and> column = kLineWidth then 1 + line_breaks lines 4 g else line_breaks lines (column + 4) g)"
proof (cases "lines \<and> column \<noteq> kLineWidth \<and> g = 0")
  case True
  then obtain k where "column = 4 * k" "column \<le> 76" "column \<noteq> 76"
    using assms by (auto simp: mod_eq_0_iff_dvd kLineWidth_def elim: dvdE)
  then have "column \<le> 72" by presburger
  then show ?thesis using True by (simp add: line_breaks_def kLineWidth_def)
next
  case False
  then show ?thesis by (auto simp: line_breaks_def kLineWidth_def)
qed

lemma length_Encode:
  "(lines \<Longrightarrow> column mod 4 = 0 \<and> column \<le> kLineWidth) \<Longrightarrow>
    length (Encode lines column bs) = groups_of (length bs) * 4 + line_breaks lines column (groups_of (length bs)) * 2"
proof (induction lines column bs rule: Encode.induct)
  case (1 lines column)
  then show ?case by (simp add: line_breaks_def groups_of_def)
next
  case (2 lines column b bs)
  define bytes where "bytes = b # bs"
  define later where "later = (if lines \<and> column = kLineWidth then 0 else column) + 4"
  have ok: "lines \<Longrightarrow> later mod 4 = 0 \<and> later \<le> kLineWidth"
  proof -
    assume lines
    then obtain k where "column = 4 * k" "column \<le> 76" using 2(2) by (auto simp: mod_eq_0_iff_dvd kLineWidth_def elim: dvdE)
    then show ?thesis using \<open>lines\<close> by (auto simp: later_def kLineWidth_def)
  qed
  let ?g = "groups_of (length (drop 3 bytes))"
  have g: "groups_of (length bytes) = Suc ?g" using groups_of_less [of "length bytes"] by (simp add: bytes_def)
  have IH: "length (Encode lines later (drop 3 bytes)) = ?g * 4 + line_breaks lines later ?g * 2"
    unfolding bytes_def later_def by (rule "2.IH" [OF refl refl refl]) (use ok in \<open>simp_all add: later_def\<close>)
  have "Encode lines column bytes =
      (if lines \<and> column = kLineWidth then [CHR 0x0D, CHR 0x0A] else []) @ EncodeGroup (take 3 bytes) @ Encode lines later (drop 3 bytes)"
    unfolding bytes_def later_def by (subst Encode.simps) (simp only: Let_def)
  then have "length (Encode lines column bytes) = groups_of (length bytes) * 4 + line_breaks lines column (groups_of (length bytes)) * 2"
    using IH line_breaks_step [OF 2(2), where g = ?g] unfolding g by (simp add: later_def)
  then show ?case unfolding bytes_def .
qed

text \<open>The buffer: what is written reaches the stream, and the scratch space never overflows.\<close>

definition sink_ok :: "sink \<Rightarrow> bool" where
  "sink_ok out \<longleftrightarrow> length (out_buffer out) \<le> kScratchSize"

lemma Put_writes:
  assumes "sink_ok out" "length bytes \<le> kScratchSize"
  shows "sink_ok (Put bytes out)" "out_stream (Put bytes out) @ out_buffer (Put bytes out) = out_stream out @ out_buffer out @ bytes"
  using assms by (auto simp: sink_ok_def Put_def Flush_def Let_def)

lemma puts_write:
  assumes "sink_ok out" "\<forall>p \<in> set ps. length p \<le> kScratchSize"
  shows "sink_ok (fold Put ps out) \<and> out_stream (Flush (fold Put ps out)) = out_stream out @ out_buffer out @ concat ps"
  using assms
proof (induction ps arbitrary: out)
  case Nil
  then show ?case by (simp add: Flush_def)
next
  case (Cons p ps)
  then have p: "sink_ok (Put p out)" "out_stream (Put p out) @ out_buffer (Put p out) = out_stream out @ out_buffer out @ p"
    using Put_writes by simp_all
  show ?case using Cons.IH [OF p(1)] Cons.prems p(2) by (metis append.assoc concat.simps(2) fold_simps(2) list.set_intros(2))
qed

lemma EncodedSize_size:
  "EncodedSize (length bs) lines maximum =
    (if length (Encode lines 0 bs) \<le> maximum then Inr (length (Encode lines 0 bs)) else Inl CapacityExceeded)"
proof -
  let ?g = "groups_of (length bs)"
  have size: "length (Encode lines 0 bs) = ?g * 4 + line_breaks lines 0 ?g * 2" by (rule length_Encode) simp
  have "?g \<le> maximum div 4 \<longleftrightarrow> ?g * 4 \<le> maximum" by (rule less_eq_div_iff_mult_less_eq) simp
  moreover have "b \<le> (maximum - c) div 2 \<longleftrightarrow> b * 2 \<le> maximum - c" for b c by (rule less_eq_div_iff_mult_less_eq) simp
  ultimately have *: "maximum div 4 < ?g \<longleftrightarrow> maximum < ?g * 4" "(maximum - ?g * 4) div 2 < b \<longleftrightarrow> maximum - ?g * 4 < b * 2" for b
    by (simp_all only: not_le [symmetric])
  show ?thesis
    unfolding size EncodedSize_def groups_of_def [symmetric] Let_def * line_breaks_def by (simp split: if_splits) linarith
qed

lemma DecodeLoop_size: "DecodeLoop s quad ended n out = Inr (m, result) \<Longrightarrow> n = length out \<Longrightarrow> m = length result"
proof (induction s quad ended n out rule: DecodeLoop.induct)
  case (2 byte rest quad ended n out)
  then show ?case by (auto simp: Let_def split: if_splits elim!: andThen_InrE)
qed (auto split: if_splits)

section \<open>Properties\<close>

text \<open>C24: base64_roundtrip. Decoding what was encoded gives the bytes back, with or without line breaks; the size
  reserved before encoding is the size of the text, and encoding is refused exactly when the text would exceed the
  capacity; a decoded text has the size the first pass counted.\<close>

theorem base64_roundtrip:
  "DecodeBase64 (Encode lines 0 bytes) = Inr bytes \<and>
    EncodeBase64 maximum bytes lines =
    (if length (Encode lines 0 bytes) \<le> maximum then Inr (Encode lines 0 bytes) else Inl CapacityExceeded)"
  by (simp add: DecodeBase64_def Decode_def DecodeLoop_encoded EncodeBase64_def EncodedSize_size)

end
