(* ===== verification/Utf8.thy ===== *)
theory Utf8
  imports Prelude
begin

text \<open>
  Unicode in bytes: UTF-8, UTF-16 and UTF-32 of \<^verbatim>\<open>src/src/net/Encoding.cpp\<close>, and the positions in UTF-16 units over
  UTF-8 bytes of \<^verbatim>\<open>src/src/net/Text.cpp\<close>. Strings are lists of bytes, code points are integers; a reader takes
  what is left of its input and gives the code and what is left then.
\<close>

unbundle bit_operations_syntax

definition byte :: "char \<Rightarrow> int" where
  "byte c = of_char c"

text \<open>The cast of an integer to a byte.\<close>

abbreviation char :: "int \<Rightarrow> char" where
  "char \<equiv> char_of"

section \<open>UTF-8\<close>

definition AppendUtf8 :: "string \<Rightarrow> int \<Rightarrow> string" where
  "AppendUtf8 out c =
     (if c < 0x80 then out @ [char c]
      else if c < 0x800 then out @ [char (0xC0 OR drop_bit 6 c), char (0x80 OR (c AND 0x3F))]
      else if c < 0x10000 then
        out @ [char (0xE0 OR drop_bit 12 c), char (0x80 OR (drop_bit 6 c AND 0x3F)), char (0x80 OR (c AND 0x3F))]
      else
        out @ [char (0xF0 OR drop_bit 18 c), char (0x80 OR (drop_bit 12 c AND 0x3F)),
          char (0x80 OR (drop_bit 6 c AND 0x3F)), char (0x80 OR (c AND 0x3F))])"

definition kUnicodeReplacement :: int where "kUnicodeReplacement = 0xFFFD"

definition IsHighSurrogate :: "int \<Rightarrow> bool" where
  "IsHighSurrogate c \<longleftrightarrow> 0xD800 \<le> c \<and> c < 0xDC00"

definition IsLowSurrogate :: "int \<Rightarrow> bool" where
  "IsLowSurrogate c \<longleftrightarrow> 0xDC00 \<le> c \<and> c \<le> (0xDC00 OR 0x3FF)"

definition JoinSurrogates :: "int \<Rightarrow> int \<Rightarrow> int" where
  "JoinSurrogates high low = 0x10000 + push_bit 10 (high - 0xD800) + low - 0xDC00"

text \<open>The loop over the continuation bytes: the index, the number of bytes still to come, the code so far.\<close>

fun Utf8Loop :: "bool \<Rightarrow> int \<Rightarrow> nat \<Rightarrow> nat \<Rightarrow> int \<Rightarrow> string \<Rightarrow> int \<times> string" where
  "Utf8Loop surrogates lead index 0 c rest = (c, rest)"
| "Utf8Loop surrogates lead index (Suc left) c [] = (kUnicodeReplacement, [])"
| "Utf8Loop surrogates lead index (Suc left) c (b # rest) =
     (if byte b < 0x80 \<or> byte b > (0x80 OR 0x3F) then (kUnicodeReplacement, b # rest)
      else if index = 1 \<and>
        (lead = 0xE0 \<and> byte b < 0xA0 \<or> lead = 0xED \<and> byte b \<ge> 0xA0 \<and> \<not> surrogates \<or>
         lead = 0xF0 \<and> byte b < 0x90 \<or> lead = 0xF4 \<and> byte b \<ge> 0x90)
      then (kUnicodeReplacement, b # rest)
      else Utf8Loop surrogates lead (index + 1) left (push_bit 6 c OR (byte b AND 0x3F)) rest)"

fun NextUtf8 :: "bool \<Rightarrow> string \<Rightarrow> int \<times> string" where
  "NextUtf8 surrogates [] = (kUnicodeReplacement, [])"
| "NextUtf8 surrogates (b # rest) =
     (let lead = byte b in
      if lead < 0x80 then (lead, rest)
      else if lead < 0xC2 \<or> lead > 0xF4 then (kUnicodeReplacement, rest)
      else
        let length = (if lead < 0xE0 then 2 else if lead < 0xF0 then 3 else 4) in
        Utf8Loop surrogates lead 1 (length - 1) (lead AND drop_bit length 0x7F) rest)"

text \<open>A reading consumes: the loops over a text end.\<close>

lemma Utf8Loop_shorter: "Utf8Loop s lead i left c rest = (d, r) \<Longrightarrow> length r \<le> length rest"
  by (induction s lead i left c rest rule: Utf8Loop.induct) (auto split: if_splits)

lemma NextUtf8_shorter [termination_simp]: "t \<noteq> [] \<Longrightarrow> (d, r) = NextUtf8 s t \<Longrightarrow> length r < length t"
  by (cases t) (auto simp: Let_def less_Suc_eq_le dest!: Utf8Loop_shorter sym [of "(d, r)"] split: if_splits)

definition NextTextScalar :: "string \<Rightarrow> int \<times> string" where
  "NextTextScalar input =
     (let (c, rest) = NextUtf8 True input in
      if IsHighSurrogate c \<and> rest \<noteq> [] \<and> IsLowSurrogate (fst (NextUtf8 True rest)) then
        (let (low, next) = NextUtf8 True rest in (JoinSurrogates c low, next))
      else (if IsHighSurrogate c \<or> IsLowSurrogate c then kUnicodeReplacement else c, rest))"

lemma NextTextScalar_shorter [termination_simp]: "t \<noteq> [] \<Longrightarrow> (d, r) = NextTextScalar t \<Longrightarrow> length r < length t"
  using NextUtf8_shorter [of t _ _ True] NextUtf8_shorter [of "snd (NextUtf8 True t)" _ _ True]
  by (auto simp: NextTextScalar_def split: prod.splits if_splits)

section \<open>Decoding and encoding\<close>

function DecodeUtf8Loop :: "string \<Rightarrow> string \<Rightarrow> string" where
  "DecodeUtf8Loop out bytes =
     (if bytes = [] then out else let (c, rest) = NextUtf8 False bytes in DecodeUtf8Loop (AppendUtf8 out c) rest)"
  by pat_completeness auto
termination by (relation "measure (length o snd)") (auto dest: NextUtf8_shorter)

definition DecodeUtf8 :: "string \<Rightarrow> string" where
  "DecodeUtf8 bytes = DecodeUtf8Loop [] bytes"

definition AppendUtf16Unit :: "string \<Rightarrow> int \<Rightarrow> string" where
  "AppendUtf16Unit out c = out @ [char (c AND 0xFF), char (drop_bit 8 c AND 0xFF)]"

definition AppendUtf16 :: "string \<Rightarrow> int \<Rightarrow> string" where
  "AppendUtf16 out c =
     (if 0x10000 \<le> c then
        let offset = c - 0x10000 in
        AppendUtf16Unit (AppendUtf16Unit out (0xD800 OR drop_bit 10 offset)) (0xDC00 OR (offset AND 0x3FF))
      else AppendUtf16Unit out c)"

definition Utf16Unit :: "char \<Rightarrow> char \<Rightarrow> int" where
  "Utf16Unit a b = byte a OR push_bit 8 (byte b)"

fun DecodeUtf16Loop :: "string \<Rightarrow> string \<Rightarrow> string" where
  "DecodeUtf16Loop out (a # b # c # d # rest) =
     (let code = Utf16Unit a b in
      if IsHighSurrogate code \<and> IsLowSurrogate (Utf16Unit c d) then
        DecodeUtf16Loop (AppendUtf8 out (JoinSurrogates code (Utf16Unit c d))) rest
      else
        DecodeUtf16Loop
          (AppendUtf8 out (if IsHighSurrogate code \<or> IsLowSurrogate code then kUnicodeReplacement else code)) (c # d # rest))"
| "DecodeUtf16Loop out (a # b # rest) =
     (let code = Utf16Unit a b in
      DecodeUtf16Loop
        (AppendUtf8 out (if IsHighSurrogate code \<or> IsLowSurrogate code then kUnicodeReplacement else code)) rest)"
| "DecodeUtf16Loop out [a] = AppendUtf8 out kUnicodeReplacement"
| "DecodeUtf16Loop out [] = out"

definition DecodeUtf16 :: "string \<Rightarrow> string" where
  "DecodeUtf16 bytes = DecodeUtf16Loop [] bytes"

fun DecodeUtf32Loop :: "string \<Rightarrow> string \<Rightarrow> string" where
  "DecodeUtf32Loop out (a # b # c # d # rest) =
     (let code = byte a OR push_bit 8 (byte b) OR push_bit 16 (byte c) OR push_bit 24 (byte d) in
      DecodeUtf32Loop
        (AppendUtf8 out
          (if code > 0x10FFFF \<or> 0xD800 \<le> code \<and> code \<le> (0xDC00 OR 0x3FF) then kUnicodeReplacement else code)) rest)"
| "DecodeUtf32Loop out rest = (if rest \<noteq> [] then AppendUtf8 out kUnicodeReplacement else out)"

definition DecodeUtf32 :: "string \<Rightarrow> string" where
  "DecodeUtf32 bytes = DecodeUtf32Loop [] bytes"

datatype unicode = Utf8Page | Utf16Page | Utf32Page

definition AppendScalar :: "unicode \<Rightarrow> string \<Rightarrow> int \<Rightarrow> string" where
  "AppendScalar page out c =
     (case page of
        Utf8Page \<Rightarrow> AppendUtf8 out c
      | Utf32Page \<Rightarrow> out @ map (\<lambda>shift. char (drop_bit shift c AND 0xFF)) [0, 8, 16, 24]
      | Utf16Page \<Rightarrow> AppendUtf16 out c)"

function EncodeLoop :: "unicode \<Rightarrow> string \<Rightarrow> string \<Rightarrow> string" where
  "EncodeLoop page out input =
     (if input = [] then out else let (c, rest) = NextTextScalar input in EncodeLoop page (AppendScalar page out c) rest)"
  by pat_completeness auto
termination by (relation "measure (length o snd o snd)") (auto dest: NextTextScalar_shorter)

definition EncodeText :: "unicode \<Rightarrow> string \<Rightarrow> string" where
  "EncodeText page input = EncodeLoop page [] input"

definition DecodeBytes :: "unicode \<Rightarrow> string \<Rightarrow> string" where
  "DecodeBytes page bytes =
     (case page of Utf8Page \<Rightarrow> DecodeUtf8 bytes | Utf16Page \<Rightarrow> DecodeUtf16 bytes | Utf32Page \<Rightarrow> DecodeUtf32 bytes)"

function IsValidUtf8 :: "string \<Rightarrow> bool" where
  "IsValidUtf8 bytes =
     (if bytes = [] then True
      else if byte (hd bytes) < 0x80 then IsValidUtf8 (tl bytes)
      else
        let (c, rest) = NextUtf8 False bytes in
        if AppendUtf8 [] c \<noteq> take (length bytes - length rest) bytes then False else IsValidUtf8 rest)"
  by pat_completeness auto
termination by (relation "measure length") (auto dest: NextUtf8_shorter)

declare DecodeUtf8Loop.simps [simp del] EncodeLoop.simps [simp del] IsValidUtf8.simps [simp del]

section \<open>Bits\<close>

lemma or_above: "0 \<le> b \<Longrightarrow> b < 2 ^ n \<Longrightarrow> push_bit n a OR b = a * 2 ^ n + (b :: int)"
proof -
  assume "0 \<le> b" "b < 2 ^ n"
  then have "take_bit n b = b" by (simp add: take_bit_int_eq_self_iff)
  then have low: "bit b k \<Longrightarrow> k < n" for k by (metis bit_take_bit_iff)
  have "push_bit n a AND b = 0" by (intro bit_eqI) (auto simp: bit_simps dest!: low)
  then show ?thesis by (simp add: disjunctive_add_eq_or [symmetric] push_bit_eq_mult)
qed

lemma and_masks: "c AND 0x3F = c mod 64" "c AND 0xFF = c mod 256" "c AND 0x3FF = c mod 1024" "c AND 0x1F = c mod 32" "c AND 0xF = c mod 16"
  "c AND 0x7 = c mod 8" for c :: int
  using take_bit_eq_mask [of 6 c] take_bit_eq_mask [of 8 c] take_bit_eq_mask [of 10 c] take_bit_eq_mask [of 5 c]
    take_bit_eq_mask [of 4 c] take_bit_eq_mask [of 3 c]
  by (simp_all add: mask_eq_exp_minus_1 take_bit_eq_mod)

lemma or_marks:
  "0 \<le> x \<Longrightarrow> x < 64 \<Longrightarrow> 0x80 OR x = 0x80 + x" "0 \<le> x \<Longrightarrow> x < 64 \<Longrightarrow> 0xC0 OR x = 0xC0 + x"
  "0 \<le> x \<Longrightarrow> x < 32 \<Longrightarrow> 0xE0 OR x = 0xE0 + x" "0 \<le> x \<Longrightarrow> x < 16 \<Longrightarrow> 0xF0 OR x = 0xF0 + x"
  "0 \<le> x \<Longrightarrow> x < 1024 \<Longrightarrow> 0xD800 OR x = 0xD800 + x" "0 \<le> x \<Longrightarrow> x < 1024 \<Longrightarrow> 0xDC00 OR x = 0xDC00 + x" for x :: int
  using or_above [of x 6 2] or_above [of x 6 3] or_above [of x 5 7] or_above [of x 4 15] or_above [of x 10 54] or_above [of x 10 55]
  by simp_all

lemma shift_or: "push_bit 6 c OR (x mod 64) = c * 64 + x mod 64" for c x :: int
  using or_above [of "x mod 64" 6 c] by simp

lemma byte_char [simp]: "byte (char x) = x mod 256"
  by (simp add: byte_def)

lemma char_byte [simp]: "char (byte c) = c"
  by (simp add: byte_def)

lemma byte_range [simp]: "0 \<le> byte c" "byte c < 256"
  by (simp_all add: byte_def of_char_def)

section \<open>Scalars\<close>

definition is_scalar :: "int \<Rightarrow> bool" where
  "is_scalar c \<longleftrightarrow> 0 \<le> c \<and> c < 0xD800 \<or> 0xE000 \<le> c \<and> c \<le> 0x10FFFF"

abbreviation utf8 :: "int \<Rightarrow> string" where
  "utf8 \<equiv> AppendUtf8 []"

definition text_of :: "int list \<Rightarrow> string" where
  "text_of cs = concat (map utf8 cs)"

lemma AppendUtf8_append: "AppendUtf8 out c = out @ utf8 c"
  by (simp add: AppendUtf8_def)

lemma utf8_bytes:
  "0 \<le> c \<Longrightarrow> c < 0x80 \<Longrightarrow> utf8 c = [char c]"
  "0x80 \<le> c \<Longrightarrow> c < 0x800 \<Longrightarrow> utf8 c = [char (0xC0 + c div 64), char (0x80 + c mod 64)]"
  "0x800 \<le> c \<Longrightarrow> c < 0x10000 \<Longrightarrow> utf8 c = [char (0xE0 + c div 4096), char (0x80 + c div 64 mod 64), char (0x80 + c mod 64)]"
  "0x10000 \<le> c \<Longrightarrow> c \<le> 0x10FFFF \<Longrightarrow>
    utf8 c = [char (0xF0 + c div 262144), char (0x80 + c div 4096 mod 64), char (0x80 + c div 64 mod 64), char (0x80 + c mod 64)]"
  by (simp_all add: AppendUtf8_def and_masks drop_bit_eq_div or_marks)

lemma sextets_of:
  "c = c div 64 * 64 + c mod 64" "c = (c div 4096 * 64 + c div 64 mod 64) * 64 + c mod 64"
  "c = ((c div 262144 * 64 + c div 4096 mod 64) * 64 + c div 64 mod 64) * 64 + c mod 64" for c :: int
proof -
  show a: "c = c div 64 * 64 + c mod 64" by simp
  have "c div 64 = c div 4096 * 64 + c div 64 mod 64" for c :: int
    using div_mult_mod_eq [of "c div 64" 64] by (simp add: zdiv_zmult2_eq [symmetric])
  note b = this
  show "c = (c div 4096 * 64 + c div 64 mod 64) * 64 + c mod 64" using a b [of c] by simp
  have "c div 4096 = c div 262144 * 64 + c div 4096 mod 64"
    using div_mult_mod_eq [of "c div 4096" 64] by (simp add: zdiv_zmult2_eq [symmetric])
  then show "c = ((c div 262144 * 64 + c div 4096 mod 64) * 64 + c div 64 mod 64) * 64 + c mod 64" using a b [of c] by simp
qed

lemma mod_offset: "m dvd a \<Longrightarrow> 0 \<le> d \<Longrightarrow> d < m \<Longrightarrow> (a + d) mod m = (d :: int)"
  by (elim dvdE) (simp add: mod_pos_pos_trivial)

lemma mod_marks:
  "0 \<le> d \<Longrightarrow> d < 64 \<Longrightarrow> (0x80 + d) mod 64 = d" "0 \<le> d \<Longrightarrow> d < 32 \<Longrightarrow> (0xC0 + d) mod 32 = d"
  "0 \<le> d \<Longrightarrow> d < 16 \<Longrightarrow> (0xE0 + d) mod 16 = d" "0 \<le> d \<Longrightarrow> d < 8 \<Longrightarrow> (0xF0 + d) mod 8 = d" for d :: int
  by (rule mod_offset; simp)+

lemma Utf8Loop_step:
  assumes "0 \<le> d" "d < 64"
    and "index = 1 \<Longrightarrow> (lead = 0xE0 \<longrightarrow> 32 \<le> d) \<and> (lead = 0xED \<longrightarrow> d < 32 \<or> surrogates) \<and> (lead = 0xF0 \<longrightarrow> 16 \<le> d) \<and>
      (lead = 0xF4 \<longrightarrow> d < 16)"
  shows "Utf8Loop surrogates lead index (Suc left) c (char (0x80 + d) # rest) =
    Utf8Loop surrogates lead (Suc index) left (c * 64 + d) rest"
proof -
  have "(0x80 + d) AND 0x3F = d" using assms by (simp add: and_masks mod_marks)
  moreover have "push_bit 6 c OR d = c * 64 + d" using shift_or [of c d] assms by simp
  moreover have "byte (char (0x80 + d)) = 0x80 + d" using assms by simp
  ultimately show ?thesis using assms by (auto simp del: byte_char)
qed

lemma NextUtf8_written:
  assumes "is_scalar c \<or> surrogates \<and> 0 \<le> c \<and> c \<le> 0x10FFFF"
  shows "NextUtf8 surrogates (utf8 c @ rest) = (c, rest)"
proof -
  have c: "0 \<le> c" "c \<le> 0x10FFFF" "\<not> surrogates \<Longrightarrow> c < 0xD800 \<or> 0xE000 \<le> c" using assms by (auto simp: is_scalar_def)
  then consider "c < 0x80" | "0x80 \<le> c" "c < 0x800" | "0x800 \<le> c" "c < 0x10000" | "0x10000 \<le> c" by linarith
  then show ?thesis
  proof cases
    case 1
    then show ?thesis using c by (simp add: utf8_bytes Let_def)
  next
    case 2
    define x y where "x = c div 64" and "y = c mod 64"
    have v: "x * 64 + y = c" by (simp add: x_def y_def)
    have r: "0 \<le> y" "y < 64" by (simp_all add: y_def)
    have x: "2 \<le> x" "x < 32" using 2 by (simp_all add: x_def)
    have lead: "(0xC0 + x) AND 0x1F = x" "byte (char (0xC0 + x)) = 0xC0 + x" using x by (simp_all add: and_masks mod_marks)
    have "NextUtf8 surrogates (utf8 c @ rest) = Utf8Loop surrogates (0xC0 + x) 1 (Suc 0) x (char (0x80 + y) # rest)"
      using 2 x lead by (simp add: utf8_bytes x_def [symmetric] y_def [symmetric] Let_def del: byte_char Utf8Loop.simps)
    also have "\<dots> = Utf8Loop surrogates (0xC0 + x) (Suc 1) 0 (x * 64 + y) rest" by (rule Utf8Loop_step) (use r x in auto)
    finally show ?thesis using v by simp
  next
    case 3
    define x y z where "x = c div 4096" and "y = c div 64 mod 64" and "z = c mod 64"
    have v: "4096 * x + y * 64 + z = c" using sextets_of(2) [of c] by (simp add: x_def y_def z_def)
    have r: "0 \<le> y" "y < 64" "0 \<le> z" "z < 64" by (simp_all add: y_def z_def)
    have x: "0 \<le> x" "x < 16" using 3 by (simp_all add: x_def)
    have lead: "(0xE0 + x) AND 0xF = x" "byte (char (0xE0 + x)) = 0xE0 + x" using x by (simp_all add: and_masks mod_marks)
    have first: "x = 0 \<longrightarrow> 32 \<le> y" "x = 13 \<longrightarrow> y < 32 \<or> surrogates" using 3 c(3) v r by auto
    then have "NextUtf8 surrogates (utf8 c @ rest) =
        Utf8Loop surrogates (0xE0 + x) 1 (Suc (Suc 0)) x (char (0x80 + y) # char (0x80 + z) # rest)"
      using 3 x lead
      by (simp add: utf8_bytes x_def [symmetric] y_def [symmetric] z_def [symmetric] Let_def numeral_2_eq_2 del: byte_char Utf8Loop.simps)
    also have "\<dots> = Utf8Loop surrogates (0xE0 + x) (Suc 1) (Suc 0) (x * 64 + y) (char (0x80 + z) # rest)"
      by (rule Utf8Loop_step) (use r x first in auto)
    also have "\<dots> = Utf8Loop surrogates (0xE0 + x) (Suc (Suc 1)) 0 ((x * 64 + y) * 64 + z) rest"
      by (rule Utf8Loop_step) (use r in auto)
    finally show ?thesis using v by simp
  next
    case 4
    define w x y z where "w = c div 262144" and "x = c div 4096 mod 64" and "y = c div 64 mod 64" and "z = c mod 64"
    have v: "262144 * w + x * 4096 + y * 64 + z = c" using sextets_of(3) [of c] by (simp add: w_def x_def y_def z_def algebra_simps)
    have r: "0 \<le> x" "x < 64" "0 \<le> y" "y < 64" "0 \<le> z" "z < 64" by (simp_all add: x_def y_def z_def)
    have w: "0 \<le> w" "w \<le> 4" using 4 c by (simp_all add: w_def)
    have lead: "(0xF0 + w) AND 0x7 = w" "byte (char (0xF0 + w)) = 0xF0 + w" using w by (simp_all add: and_masks mod_marks)
    have first: "w = 0 \<longrightarrow> 16 \<le> x" "w = 4 \<longrightarrow> x < 16" using 4 c(2) v r by auto
    then have "NextUtf8 surrogates (utf8 c @ rest) =
        Utf8Loop surrogates (0xF0 + w) 1 (Suc (Suc (Suc 0))) w (char (0x80 + x) # char (0x80 + y) # char (0x80 + z) # rest)"
      using 4 c w lead
      by (simp add: utf8_bytes w_def [symmetric] x_def [symmetric] y_def [symmetric] z_def [symmetric] Let_def numeral_3_eq_3
          del: byte_char Utf8Loop.simps)
    also have "\<dots> = Utf8Loop surrogates (0xF0 + w) (Suc 1) (Suc (Suc 0)) (w * 64 + x) (char (0x80 + y) # char (0x80 + z) # rest)"
      by (rule Utf8Loop_step) (use r w first in auto)
    also have "\<dots> = Utf8Loop surrogates (0xF0 + w) (Suc (Suc 1)) (Suc 0) ((w * 64 + x) * 64 + y) (char (0x80 + z) # rest)"
      by (rule Utf8Loop_step) (use r in auto)
    also have "\<dots> = Utf8Loop surrogates (0xF0 + w) (Suc (Suc (Suc 1))) 0 (((w * 64 + x) * 64 + y) * 64 + z) rest"
      by (rule Utf8Loop_step) (use r in auto)
    finally show ?thesis using v by simp
  qed
qed

end
