(* ===== verification/Unicode.thy ===== *)
theory Unicode
  imports Utf8
begin

text \<open>
  What the codecs of \<^verbatim>\<open>src/src/net/Encoding.cpp\<close> promise. A text is valid when it is the UTF-8 of a list of Unicode
  scalars; the strict reader gives scalars only, \<^verbatim>\<open>IsValidUtf8\<close> decides validity, a decoding always yields a
  valid text, and a valid text comes back from each of the three Unicode encodings.
\<close>

section \<open>The strict reader\<close>

lemma Utf8Loop_cases:
  assumes "Utf8Loop surrogates lead index (Suc left) c rest = (e, r)"
  obtains "e = kUnicodeReplacement"
  | d tail where "0 \<le> d" "d < 64" "rest = char (0x80 + d) # tail"
    "index = 1 \<Longrightarrow> (lead = 0xE0 \<longrightarrow> 32 \<le> d) \<and> (lead = 0xED \<longrightarrow> d < 32 \<or> surrogates) \<and> (lead = 0xF0 \<longrightarrow> 16 \<le> d) \<and>
      (lead = 0xF4 \<longrightarrow> d < 16)"
    "Utf8Loop surrogates lead (Suc index) left (c * 64 + d) tail = (e, r)"
proof (cases rest)
  case Nil
  then show ?thesis using assms that(1) by simp
next
  case (Cons b tail)
  show ?thesis
  proof (cases "e = kUnicodeReplacement")
    case False
    define d where "d = byte b - 0x80"
    have b: "b = char (0x80 + d)" by (simp add: d_def)
    have range: "0 \<le> d" "d < 64" "index = 1 \<Longrightarrow> (lead = 0xE0 \<longrightarrow> 32 \<le> d) \<and> (lead = 0xED \<longrightarrow> d < 32 \<or> surrogates) \<and> (lead = 0xF0 \<longrightarrow> 16 \<le> d) \<and>
      (lead = 0xF4 \<longrightarrow> d < 16)"
      using assms False Cons by (auto simp: d_def split: if_splits)
    then have "Utf8Loop surrogates lead index (Suc left) c rest = Utf8Loop surrogates lead (Suc index) left (c * 64 + d) tail"
      unfolding Cons b by (rule Utf8Loop_step)
    then show ?thesis using that(2) [OF range(1,2) _ range(3)] assms Cons b by simp
  qed (rule that(1))
qed

lemma Utf8Loop_value:
  assumes "Utf8Loop surrogates lead index (Suc left) c rest = (e, r)"
  shows "e = kUnicodeReplacement \<or> (\<exists>d tail. 0 \<le> d \<and> d < 64 \<and> Utf8Loop surrogates lead (Suc index) left (c * 64 + d) tail = (e, r))"
  using assms by (rule Utf8Loop_cases) blast+

lemma replacement_scalar [simp]: "is_scalar kUnicodeReplacement"
  by (simp add: is_scalar_def kUnicodeReplacement_def)

lemma NextUtf8_range:
  assumes "NextUtf8 surrogates (b # rest) = (c, r)"
  shows "is_scalar c \<or> surrogates \<and> 0 \<le> c \<and> c \<le> 0x10FFFF"
proof -
  define lead where "lead = byte b"
  have l: "0 \<le> lead" "lead < 256" by (simp_all add: lead_def)
  consider "lead < 0x80" | "0x80 \<le> lead" "lead < 0xC2 \<or> lead > 0xF4" | "0xC2 \<le> lead" "lead < 0xE0" | "0xE0 \<le> lead" "lead < 0xF0"
    | "0xF0 \<le> lead" "lead \<le> 0xF4" by linarith
  then show ?thesis
  proof cases
    case 1
    then show ?thesis using assms l by (auto simp: lead_def [symmetric] is_scalar_def)
  next
    case 2
    then show ?thesis using assms l by (auto simp: lead_def [symmetric] is_scalar_def kUnicodeReplacement_def)
  next
    case 3
    define x where "x = lead - 0xC0"
    have x: "2 \<le> x" "x < 32" "lead = 0xC0 + x" using 3 by (auto simp: x_def)
    have "(0xC0 + x) AND 0x1F = x" using x by (simp add: and_masks mod_marks)
    then have "Utf8Loop surrogates lead 1 (Suc 0) x rest = (c, r)"
      using assms 3 x by (auto simp: lead_def [symmetric] Let_def simp del: Utf8Loop.simps)
    then show ?thesis
      by (rule Utf8Loop_cases) (use x in \<open>auto simp: is_scalar_def kUnicodeReplacement_def\<close>)
  next
    case 4
    define x where "x = lead - 0xE0"
    have x: "0 \<le> x" "x < 16" "lead = 0xE0 + x" using 4 by (auto simp: x_def)
    have "(0xE0 + x) AND 0xF = x" using x by (simp add: and_masks mod_marks)
    then have "Utf8Loop surrogates lead 1 (Suc (Suc 0)) x rest = (c, r)"
      using assms 4 x by (auto simp: lead_def [symmetric] Let_def numeral_2_eq_2 simp del: Utf8Loop.simps)
    then show ?thesis
    proof (rule Utf8Loop_cases)
      fix d tail
      assume d: "0 \<le> d" "d < 64" and more: "Utf8Loop surrogates lead (Suc 1) (Suc 0) (x * 64 + d) tail = (c, r)"
        and first: "1 = (1 :: nat) \<Longrightarrow> (lead = 0xE0 \<longrightarrow> 32 \<le> d) \<and> (lead = 0xED \<longrightarrow> d < 32 \<or> surrogates) \<and>
          (lead = 0xF0 \<longrightarrow> 16 \<le> d) \<and> (lead = 0xF4 \<longrightarrow> d < 16)"
      have "c = kUnicodeReplacement \<or> (\<exists>e. 0 \<le> e \<and> e < 64 \<and> c = (x * 64 + d) * 64 + e)"
        using Utf8Loop_value [OF more] by auto
      then show ?thesis
      proof (elim disjE exE conjE)
        fix e
        assume e: "0 \<le> e" "e < 64" "c = (x * 64 + d) * 64 + e"
        consider "x \<le> 12" | "x = 13" | "14 \<le> x" by linarith
        then show ?thesis
        proof cases
          case 2
          then have "d < 32 \<or> surrogates" using first x by simp
          then show ?thesis using 2 d e by (auto simp: is_scalar_def)
        qed (use x d e in \<open>simp_all add: is_scalar_def\<close>)
      qed simp
    qed simp
  next
    case 5
    define x where "x = lead - 0xF0"
    have x: "0 \<le> x" "x \<le> 4" "lead = 0xF0 + x" using 5 by (auto simp: x_def)
    have "(0xF0 + x) AND 0x7 = x" using x by (simp add: and_masks mod_marks)
    then have "Utf8Loop surrogates lead 1 (Suc (Suc (Suc 0))) x rest = (c, r)"
      using assms 5 x by (auto simp: lead_def [symmetric] Let_def numeral_3_eq_3 simp del: Utf8Loop.simps)
    then show ?thesis
    proof (rule Utf8Loop_cases)
      fix d tail
      assume d: "0 \<le> d" "d < 64" and more: "Utf8Loop surrogates lead (Suc 1) (Suc (Suc 0)) (x * 64 + d) tail = (c, r)"
        and first: "1 = (1 :: nat) \<Longrightarrow> (lead = 0xE0 \<longrightarrow> 32 \<le> d) \<and> (lead = 0xED \<longrightarrow> d < 32 \<or> surrogates) \<and>
          (lead = 0xF0 \<longrightarrow> 16 \<le> d) \<and> (lead = 0xF4 \<longrightarrow> d < 16)"
      have "c = kUnicodeReplacement \<or> (\<exists>e f. 0 \<le> e \<and> e < 64 \<and> 0 \<le> f \<and> f < 64 \<and> c = ((x * 64 + d) * 64 + e) * 64 + f)"
        using Utf8Loop_value [OF more] by (elim disjE exE conjE, simp) (drule Utf8Loop_value, fastforce)
      then show ?thesis
      proof (elim disjE exE conjE)
        fix e f
        assume e: "0 \<le> e" "e < 64" "0 \<le> f" "f < 64" "c = ((x * 64 + d) * 64 + e) * 64 + f"
        have b: "x = 0 \<Longrightarrow> 16 \<le> d" "x = 4 \<Longrightarrow> d < 16" using first x by auto
        consider "x = 0" | "1 \<le> x" "x \<le> 3" | "x = 4" using x by linarith
        then have "0x10000 \<le> c \<and> c \<le> 0x10FFFF" by cases (use b d e in simp_all)
        then show ?thesis by (simp add: is_scalar_def)
      qed simp
    qed simp
  qed
qed

lemma Utf8Loop_suffix: "Utf8Loop s lead i left c rest = (d, r) \<Longrightarrow> \<exists>p. rest = p @ r"
  by (induction s lead i left c rest rule: Utf8Loop.induct) (auto split: if_splits)

lemma NextUtf8_suffix: "NextUtf8 s t = (d, r) \<Longrightarrow> \<exists>p. t = p @ r"
  by (cases t) (auto simp: Let_def dest!: Utf8Loop_suffix split: if_splits)

section \<open>Validity\<close>

lemma text_of_simps [simp]: "text_of [] = []" "text_of (c # cs) = utf8 c @ text_of cs" "text_of (cs @ ds) = text_of cs @ text_of ds"
  by (simp_all add: text_of_def)

lemma utf8_ascii: "0 \<le> c \<Longrightarrow> c < 0x80 \<Longrightarrow> utf8 c = [char c]"
  by (simp add: AppendUtf8_def)

lemma utf8_nonempty [simp]: "utf8 c \<noteq> []"
  by (simp add: AppendUtf8_def)

lemma utf8_head:
  assumes "is_scalar c" and "byte (hd (utf8 c)) < 0x80"
  shows "c < 0x80"
proof (rule ccontr)
  assume "\<not> c < 0x80"
  moreover have "0 \<le> c" "c \<le> 0x10FFFF" using assms by (auto simp: is_scalar_def)
  ultimately consider "0x80 \<le> c" "c < 0x800" | "0x800 \<le> c" "c < 0x10000" | "0x10000 \<le> c" "c \<le> 0x10FFFF" by linarith
  then show False using assms(2) by cases (simp_all add: utf8_bytes)
qed

lemma IsValidUtf8_step:
  assumes "s \<noteq> []" and "\<not> byte (hd s) < 0x80" and "NextUtf8 False s = (c, r)"
  shows "IsValidUtf8 s \<longleftrightarrow> utf8 c = take (length s - length r) s \<and> IsValidUtf8 r"
  using assms by (subst IsValidUtf8.simps) simp

lemma valid_written: "list_all is_scalar cs \<Longrightarrow> IsValidUtf8 (text_of cs)"
proof (induction cs)
  case (Cons c cs)
  have c: "is_scalar c" "NextUtf8 False (utf8 c @ text_of cs) = (c, text_of cs)"
    using Cons.prems NextUtf8_written [of c False] by simp_all
  show ?case
  proof (cases "byte (hd (utf8 c)) < 0x80")
    case True
    then have "utf8 c = [char c]" using utf8_head [OF c(1)] c(1) by (auto simp: is_scalar_def intro: utf8_ascii)
    then show ?thesis using Cons True by (subst IsValidUtf8.simps) simp
  next
    case False
    then show ?thesis using Cons c(2) by (subst IsValidUtf8.simps) simp
  qed
qed (simp add: IsValidUtf8.simps)

lemma valid_scalars: "IsValidUtf8 s \<Longrightarrow> \<exists>cs. list_all is_scalar cs \<and> s = text_of cs"
proof (induction s rule: IsValidUtf8.induct)
  case (1 s)
  show ?case
  proof (cases s)
    case Nil
    then show ?thesis by (intro exI [of _ "[]"]) simp
  next
    case (Cons b rest)
    show ?thesis
    proof (cases "byte b < 0x80")
      case True
      then have "IsValidUtf8 rest" using "1.prems" Cons by (subst (asm) IsValidUtf8.simps) simp
      then obtain cs where cs: "list_all is_scalar cs" "rest = text_of cs" using "1.IH"(1) Cons True by auto
      then have "list_all is_scalar (byte b # cs)" "s = text_of (byte b # cs)"
        using True Cons by (simp_all add: is_scalar_def utf8_ascii)
      then show ?thesis by blast
    next
      case False
      obtain c r where c: "NextUtf8 False s = (c, r)" by (cases "NextUtf8 False s")
      then obtain p where p: "s = p @ r" using NextUtf8_suffix by blast
      have s: "s \<noteq> []" "\<not> byte (hd s) < 0x80" using Cons False by simp_all
      have t: "take (length s - length r) s = p" using p by simp
      have u: "utf8 c = p" "IsValidUtf8 r" using "1.prems" IsValidUtf8_step [OF s c] t by simp_all
      then obtain cs where "list_all is_scalar cs" "r = text_of cs" using "1.IH"(2) [OF s refl c [symmetric]] t by auto
      moreover have "is_scalar c" using NextUtf8_range [of False b rest c r] c Cons by simp
      ultimately have "list_all is_scalar (c # cs)" "s = text_of (c # cs)" using p u by simp_all
      then show ?thesis by blast
    qed
  qed
qed

text \<open>C21: A text is accepted by the strict check exactly when it is the encoding of a list of Unicode scalars, each in
its shortest form: no truncated, overlong, surrogate or out-of-range sequence passes, and nothing valid is refused.\<close>

theorem utf8_validity: "IsValidUtf8 s \<longleftrightarrow> (\<exists>cs. list_all is_scalar cs \<and> s = text_of cs)"
  by (rule iffI) (auto intro: valid_written dest: valid_scalars)

section \<open>Decoding\<close>

lemma DecodeUtf8Loop_scalars: "\<exists>cs. list_all is_scalar cs \<and> DecodeUtf8Loop out s = out @ text_of cs"
proof (induction out s rule: DecodeUtf8Loop.induct)
  case (1 out s)
  show ?case
  proof (cases s)
    case Nil
    then show ?thesis by (intro exI [of _ "[]"]) (simp add: DecodeUtf8Loop.simps)
  next
    case (Cons b rest)
    obtain c r where c: "NextUtf8 False s = (c, r)" by (cases "NextUtf8 False s")
    obtain cs where cs: "list_all is_scalar cs" "DecodeUtf8Loop (AppendUtf8 out c) r = AppendUtf8 out c @ text_of cs"
      using "1.IH" [OF _ c [symmetric]] Cons by auto
    have "is_scalar c" using NextUtf8_range [of False b rest c r] c Cons by simp
    moreover have "DecodeUtf8Loop out s = DecodeUtf8Loop (AppendUtf8 out c) r"
      using c Cons by (subst DecodeUtf8Loop.simps) simp
    ultimately have "list_all is_scalar (c # cs)" "DecodeUtf8Loop out s = out @ text_of (c # cs)"
      using cs AppendUtf8_append [of out c] by simp_all
    then show ?thesis by blast
  qed
qed

lemma DecodeUtf8Loop_written: "list_all is_scalar cs \<Longrightarrow> DecodeUtf8Loop out (text_of cs) = out @ text_of cs"
proof (induction cs arbitrary: out)
  case (Cons c cs)
  then have "NextUtf8 False (utf8 c @ text_of cs) = (c, text_of cs)" using NextUtf8_written [of c False] by simp
  then show ?case using Cons AppendUtf8_append [of out c] by (subst DecodeUtf8Loop.simps) simp
qed (simp add: DecodeUtf8Loop.simps)

text \<open>Decoding UTF-8 always gives a valid text, whatever the bytes, and changes nothing exactly when the bytes
were valid already: decoding is a projection onto the valid texts.\<close>

theorem utf8_projection: "IsValidUtf8 (DecodeUtf8 s) \<and> (DecodeUtf8 s = s \<longleftrightarrow> IsValidUtf8 s)"
proof -
  have valid: "IsValidUtf8 (DecodeUtf8 s)"
    using DecodeUtf8Loop_scalars [of "[]" s] valid_written by (auto simp: DecodeUtf8_def)
  moreover have "DecodeUtf8 s = s" if "IsValidUtf8 s"
    using valid_scalars [OF that] DecodeUtf8Loop_written [of _ "[]"] by (auto simp: DecodeUtf8_def)
  ultimately show ?thesis by metis
qed

section \<open>Encoding\<close>

lemma AppendScalar_append: "AppendScalar page out c = out @ AppendScalar page [] c"
  by (simp add: AppendScalar_def AppendUtf16_def AppendUtf16Unit_def Let_def AppendUtf8_append [of out] split: unicode.split)

lemma NextTextScalar_written: "is_scalar c \<Longrightarrow> NextTextScalar (utf8 c @ rest) = (c, rest)"
  using NextUtf8_written [of c True rest]
  by (auto simp: NextTextScalar_def is_scalar_def IsHighSurrogate_def IsLowSurrogate_def)

lemma NextTextScalar_scalar:
  assumes "s \<noteq> []" and "NextTextScalar s = (c, r)"
  shows "is_scalar c"
proof -
  obtain d t where d: "NextUtf8 True s = (d, t)" by (cases "NextUtf8 True s")
  obtain e u where e: "NextUtf8 True t = (e, u)" by (cases "NextUtf8 True t")
  have "0 \<le> d \<and> d \<le> 0x10FFFF" using d assms(1) NextUtf8_range [of True "hd s" "tl s" d t] by (auto simp: is_scalar_def)
  moreover have "is_scalar (JoinSurrogates d e)" if "IsHighSurrogate d" "IsLowSurrogate e"
    using that by (auto simp: JoinSurrogates_def IsHighSurrogate_def IsLowSurrogate_def is_scalar_def push_bit_eq_mult)
  ultimately show ?thesis using assms(2) d e
    by (auto simp: NextTextScalar_def is_scalar_def IsHighSurrogate_def IsLowSurrogate_def kUnicodeReplacement_def split: if_splits)
qed

text \<open>The scalars a text is encoded from are the same for every page.\<close>

lemma EncodeLoop_scalars:
  "\<exists>cs. list_all is_scalar cs \<and> (\<forall>page out. EncodeLoop page out s = out @ concat (map (AppendScalar page []) cs))"
proof (induction s rule: measure_induct_rule [of length])
  case (less s)
  show ?case
  proof (cases "s = []")
    case True
    then show ?thesis by (intro exI [of _ "[]"]) (simp add: EncodeLoop.simps)
  next
    case False
    obtain c r where c: "NextTextScalar s = (c, r)" by (cases "NextTextScalar s")
    then obtain cs where cs: "list_all is_scalar cs"
        "\<And>page out. EncodeLoop page out r = out @ concat (map (AppendScalar page []) cs)"
      using less.IH NextTextScalar_shorter [OF False c [symmetric]] by blast
    have "EncodeLoop page out s = out @ concat (map (AppendScalar page []) (c # cs))" for page out
      using False c cs(2) AppendScalar_append [of page out c] by (subst EncodeLoop.simps) simp
    moreover have "list_all is_scalar (c # cs)" using cs NextTextScalar_scalar [OF False c] by simp
    ultimately show ?thesis by blast
  qed
qed

lemma EncodeLoop_written: "list_all is_scalar cs \<Longrightarrow> EncodeLoop page out (text_of cs) = out @ concat (map (AppendScalar page []) cs)"
proof (induction cs arbitrary: out)
  case (Cons c cs)
  then show ?case using NextTextScalar_written [of c "text_of cs"] AppendScalar_append [of page out c]
    by (subst EncodeLoop.simps) simp
qed (simp add: EncodeLoop.simps)

subsection \<open>UTF-16\<close>

lemma unit_bytes: "0 \<le> u \<Longrightarrow> u < 0x10000 \<Longrightarrow> Utf16Unit (char (u AND 0xFF)) (char (drop_bit 8 u AND 0xFF)) = u"
  using or_above [of "u mod 256" 8 "u div 256"]
  by (simp add: Utf16Unit_def and_masks drop_bit_eq_div or.commute [of "u mod 256"])

definition unit_text :: "int \<Rightarrow> string" where
  "unit_text u = AppendUtf16Unit [] u"

lemma DecodeUtf16_unit:
  assumes "0 \<le> u" "u < 0x10000" "\<not> IsHighSurrogate u" "\<not> IsLowSurrogate u"
  shows "DecodeUtf16Loop out (unit_text u @ rest) = DecodeUtf16Loop (AppendUtf8 out u) rest"
proof -
  have "rest = [] \<or> (\<exists>a. rest = [a]) \<or> (\<exists>a b more. rest = a # b # more)" by (metis list.exhaust)
  then show ?thesis using assms
    by (elim disjE exE) (simp_all add: unit_text_def AppendUtf16Unit_def unit_bytes Let_def)
qed

lemma DecodeUtf16_pair:
  assumes "IsHighSurrogate h" "IsLowSurrogate l"
  shows "DecodeUtf16Loop out (unit_text h @ unit_text l @ rest) = DecodeUtf16Loop (AppendUtf8 out (JoinSurrogates h l)) rest"
proof -
  have "0 \<le> h" "h < 0x10000" "0 \<le> l" "l < 0x10000" using assms by (auto simp: IsHighSurrogate_def IsLowSurrogate_def)
  then show ?thesis using assms by (simp add: unit_text_def AppendUtf16Unit_def unit_bytes Let_def)
qed

lemma AppendUtf16_pair:
  assumes "0x10000 \<le> c" "c \<le> 0x10FFFF"
  obtains h l where "AppendUtf16 [] c = unit_text h @ unit_text l" "IsHighSurrogate h" "IsLowSurrogate l" "JoinSurrogates h l = c"
proof -
  define x y where "x = (c - 0x10000) div 1024" and "y = (c - 0x10000) mod 1024"
  have xy: "0 \<le> x" "x < 1024" "0 \<le> y" "y < 1024" "x * 1024 + y = c - 0x10000" using assms by (auto simp: x_def y_def)
  show ?thesis
  proof (rule that)
    show "AppendUtf16 [] c = unit_text (0xD800 + x) @ unit_text (0xDC00 + y)"
      using assms xy
      by (simp add: AppendUtf16_def Let_def and_masks drop_bit_eq_div x_def [symmetric] y_def [symmetric] or_marks unit_text_def
          AppendUtf16Unit_def)
    show "IsHighSurrogate (0xD800 + x)" "IsLowSurrogate (0xDC00 + y)" "JoinSurrogates (0xD800 + x) (0xDC00 + y) = c"
      using xy by (simp_all add: IsHighSurrogate_def IsLowSurrogate_def JoinSurrogates_def push_bit_eq_mult)
  qed
qed

lemma DecodeUtf16_step:
  assumes "is_scalar c"
  shows "DecodeUtf16Loop out (AppendUtf16 [] c @ rest) = DecodeUtf16Loop (AppendUtf8 out c) rest"
proof (cases "0x10000 \<le> c")
  case True
  moreover have "c \<le> 0x10FFFF" using assms by (auto simp: is_scalar_def)
  ultimately obtain h l where hl: "AppendUtf16 [] c = unit_text h @ unit_text l" "IsHighSurrogate h" "IsLowSurrogate l" "JoinSurrogates h l = c"
    by (rule AppendUtf16_pair)
  then show ?thesis using DecodeUtf16_pair [OF hl(2,3), of out rest] by simp
next
  case False
  then have c: "AppendUtf16 [] c = unit_text c" "0 \<le> c" "c < 0x10000" "\<not> IsHighSurrogate c" "\<not> IsLowSurrogate c"
    using assms by (auto simp: AppendUtf16_def unit_text_def is_scalar_def IsHighSurrogate_def IsLowSurrogate_def)
  then show ?thesis using DecodeUtf16_unit [OF c(2-5), of out rest] by simp
qed

subsection \<open>UTF-32\<close>

lemma code_bytes:
  fixes c :: int
  assumes "0 \<le> c" "c < 0x1000000"
  shows "c mod 256 OR push_bit 8 (c div 256 mod 256) OR push_bit 16 (c div 65536 mod 256) OR push_bit 24 (c div 16777216 mod 256) = c"
proof -
  have top: "c div 16777216 = 0" "c div 65536 mod 256 = c div 65536" using assms by simp_all
  have "push_bit 8 (c div 65536) OR c div 256 mod 256 = c div 65536 * 256 + c div 256 mod 256"
    using or_above [of "c div 256 mod 256" 8 "c div 65536"] by simp
  also have "\<dots> = c div 256"
    using div_mult_mod_eq [of "c div 256" 256] by (simp add: zdiv_zmult2_eq [symmetric])
  finally have middle: "push_bit 8 (c div 65536) OR c div 256 mod 256 = c div 256" .
  have "push_bit 8 (c div 256 mod 256) OR push_bit 16 (c div 65536) = push_bit 8 (push_bit 8 (c div 65536) OR c div 256 mod 256)"
    by (simp add: push_bit_or or.commute)
  then have upper: "push_bit 8 (c div 256 mod 256) OR push_bit 16 (c div 65536) = push_bit 8 (c div 256)"
    unfolding middle .
  have lower: "c mod 256 OR push_bit 8 (c div 256) = c"
    using or_above [of "c mod 256" 8 "c div 256"] by (simp add: or.commute)
  show ?thesis by (simp only: top upper lower push_bit_of_0 mod_0 or.right_neutral)
qed

lemma DecodeUtf32_step:
  assumes "is_scalar c"
  shows "DecodeUtf32Loop out (AppendScalar Utf32Page [] c @ rest) = DecodeUtf32Loop (AppendUtf8 out c) rest"
proof -
  have range: "0 \<le> c" "c < 0x1000000" using assms by (auto simp: is_scalar_def)
  have bytes: "AppendScalar Utf32Page [] c =
      [char (c mod 256), char (c div 256 mod 256), char (c div 65536 mod 256), char (c div 16777216 mod 256)]"
    by (simp add: AppendScalar_def and_masks drop_bit_eq_div)
  have valid: "\<not> (c > 0x10FFFF \<or> 0xD800 \<le> c \<and> c \<le> (0xDC00 OR 0x3FF))" using assms by (auto simp: is_scalar_def)
  show ?thesis
    unfolding bytes append_Cons append_Nil DecodeUtf32Loop.simps(1) Let_def byte_char mod_mod_trivial code_bytes [OF range]
    using valid by (simp only: if_False)
qed

subsection \<open>The three together\<close>

lemma page_scalars: "AppendScalar Utf8Page [] = utf8" "AppendScalar Utf16Page [] = AppendUtf16 []"
  by (simp_all add: AppendScalar_def fun_eq_iff)

lemma DecodeBytes_written:
  assumes "list_all is_scalar cs"
  shows "DecodeBytes page (concat (map (AppendScalar page []) cs)) = text_of cs"
proof -
  have "DecodeUtf16Loop out (concat (map (AppendUtf16 []) cs)) = out @ text_of cs" for out
    using assms
  proof (induction cs arbitrary: out)
    case (Cons c cs)
    then show ?case using DecodeUtf16_step [of c out] AppendUtf8_append [of out c] by simp
  qed simp
  moreover have "DecodeUtf32Loop out (concat (map (AppendScalar Utf32Page []) cs)) = out @ text_of cs" for out
    using assms
  proof (induction cs arbitrary: out)
    case (Cons c cs)
    then show ?case using DecodeUtf32_step [of c out] AppendUtf8_append [of out c] by simp
  qed simp
  moreover have "DecodeUtf8Loop [] (text_of cs) = text_of cs" using assms by (simp add: DecodeUtf8Loop_written)
  ultimately show ?thesis
    by (cases page) (simp_all add: DecodeBytes_def DecodeUtf16_def DecodeUtf32_def DecodeUtf8_def page_scalars text_of_def)
qed

lemma valid_encoded: "IsValidUtf8 s \<Longrightarrow> DecodeBytes page (EncodeText page s) = s"
  using valid_scalars [of s] EncodeLoop_written [of _ page "[]"] DecodeBytes_written [of _ page] by (auto simp: EncodeText_def)

text \<open>C22: Any string of bytes, encoded to UTF-8, UTF-16 or UTF-32 and decoded again, gives the same valid text: the
string itself exactly when it was valid, its repair (replacement characters, joined surrogates) otherwise.\<close>

theorem unicode_roundtrip:
  "DecodeBytes page (EncodeText page s) = EncodeText Utf8Page s \<and> IsValidUtf8 (EncodeText Utf8Page s) \<and>
   (EncodeText Utf8Page s = s \<longleftrightarrow> IsValidUtf8 s)"
proof -
  obtain cs where cs: "list_all is_scalar cs" "\<And>page. EncodeText page s = concat (map (AppendScalar page []) cs)"
    using EncodeLoop_scalars [of s] by (auto simp: EncodeText_def)
  have plain: "concat (map (AppendScalar Utf8Page []) ds) = text_of ds" for ds by (simp add: page_scalars text_of_def)
  then have u: "EncodeText Utf8Page s = text_of cs" using cs(2) by simp
  have "IsValidUtf8 s \<Longrightarrow> EncodeText Utf8Page s = s"
    using valid_scalars [of s] EncodeLoop_written [of _ Utf8Page "[]"] plain by (auto simp: EncodeText_def)
  moreover have "IsValidUtf8 (EncodeText Utf8Page s)" using u valid_written [OF cs(1)] by simp
  moreover have "DecodeBytes page (EncodeText page s) = EncodeText Utf8Page s"
    using DecodeBytes_written [OF cs(1)] cs(2) u by simp
  ultimately show ?thesis by metis
qed

end
