(* ===== verification/CodePages.thy ===== *)
theory CodePages
  imports Unicode
begin

text \<open>
  The single-byte code pages of \<^verbatim>\<open>src/src/net/CodePage.cpp\<close>, with their tables, and the dispatch of
  \<^verbatim>\<open>src/src/net/Encoding.cpp\<close> over all code pages. A mapping is a pair of a UTF-16 unit and a byte.
\<close>

section \<open>Tables\<close>

type_synonym mapping = "int \<times> int"

definition kWindows1252Encode :: "mapping list" where
  "kWindows1252Encode = [
    (0x0, 0x00), (0x1, 0x01), (0x2, 0x02), (0x3, 0x03), (0x4, 0x04), (0x5, 0x05), (0x6, 0x06), (0x7, 0x07), (0x8, 0x08),
    (0x9, 0x09), (0xA, 0x0A), (0xB, 0x0B), (0xC, 0x0C), (0xD, 0x0D), (0xE, 0x0E), (0xF, 0x0F), (0x10, 0x10), (0x11, 0x11),
    (0x12, 0x12), (0x13, 0x13), (0x14, 0x14), (0x15, 0x15), (0x16, 0x16), (0x17, 0x17), (0x18, 0x18), (0x19, 0x19), (0x1A, 0x1A),
    (0x1B, 0x1B), (0x1C, 0x1C), (0x1D, 0x1D), (0x1E, 0x1E), (0x1F, 0x1F), (0x20, 0x20), (0x21, 0x21), (0x22, 0x22), (0x23, 0x23),
    (0x24, 0x24), (0x25, 0x25), (0x26, 0x26), (0x27, 0x27), (0x28, 0x28), (0x29, 0x29), (0x2A, 0x2A), (0x2B, 0x2B), (0x2C, 0x2C),
    (0x2D, 0x2D), (0x2E, 0x2E), (0x2F, 0x2F), (0x30, 0x30), (0x31, 0x31), (0x32, 0x32), (0x33, 0x33), (0x34, 0x34), (0x35, 0x35),
    (0x36, 0x36), (0x37, 0x37), (0x38, 0x38), (0x39, 0x39), (0x3A, 0x3A), (0x3B, 0x3B), (0x3C, 0x3C), (0x3D, 0x3D), (0x3E, 0x3E),
    (0x3F, 0x3F), (0x40, 0x40), (0x41, 0x41), (0x42, 0x42), (0x43, 0x43), (0x44, 0x44), (0x45, 0x45), (0x46, 0x46), (0x47, 0x47),
    (0x48, 0x48), (0x49, 0x49), (0x4A, 0x4A), (0x4B, 0x4B), (0x4C, 0x4C), (0x4D, 0x4D), (0x4E, 0x4E), (0x4F, 0x4F), (0x50, 0x50),
    (0x51, 0x51), (0x52, 0x52), (0x53, 0x53), (0x54, 0x54), (0x55, 0x55), (0x56, 0x56), (0x57, 0x57), (0x58, 0x58), (0x59, 0x59),
    (0x5A, 0x5A), (0x5B, 0x5B), (0x5C, 0x5C), (0x5D, 0x5D), (0x5E, 0x5E), (0x5F, 0x5F), (0x60, 0x60), (0x61, 0x61), (0x62, 0x62),
    (0x63, 0x63), (0x64, 0x64), (0x65, 0x65), (0x66, 0x66), (0x67, 0x67), (0x68, 0x68), (0x69, 0x69), (0x6A, 0x6A), (0x6B, 0x6B),
    (0x6C, 0x6C), (0x6D, 0x6D), (0x6E, 0x6E), (0x6F, 0x6F), (0x70, 0x70), (0x71, 0x71), (0x72, 0x72), (0x73, 0x73), (0x74, 0x74),
    (0x75, 0x75), (0x76, 0x76), (0x77, 0x77), (0x78, 0x78), (0x79, 0x79), (0x7A, 0x7A), (0x7B, 0x7B), (0x7C, 0x7C), (0x7D, 0x7D),
    (0x7E, 0x7E), (0x7F, 0x7F), (0x81, 0x81), (0x8D, 0x8D), (0x8F, 0x8F), (0x90, 0x90), (0x9D, 0x9D), (0xA0, 0xA0), (0xA1, 0xA1),
    (0xA2, 0xA2), (0xA3, 0xA3), (0xA4, 0xA4), (0xA5, 0xA5), (0xA6, 0xA6), (0xA7, 0xA7), (0xA8, 0xA8), (0xA9, 0xA9), (0xAA, 0xAA),
    (0xAB, 0xAB), (0xAC, 0xAC), (0xAD, 0xAD), (0xAE, 0xAE), (0xAF, 0xAF), (0xB0, 0xB0), (0xB1, 0xB1), (0xB2, 0xB2), (0xB3, 0xB3),
    (0xB4, 0xB4), (0xB5, 0xB5), (0xB6, 0xB6), (0xB7, 0xB7), (0xB8, 0xB8), (0xB9, 0xB9), (0xBA, 0xBA), (0xBB, 0xBB), (0xBC, 0xBC),
    (0xBD, 0xBD), (0xBE, 0xBE), (0xBF, 0xBF), (0xC0, 0xC0), (0xC1, 0xC1), (0xC2, 0xC2), (0xC3, 0xC3), (0xC4, 0xC4), (0xC5, 0xC5),
    (0xC6, 0xC6), (0xC7, 0xC7), (0xC8, 0xC8), (0xC9, 0xC9), (0xCA, 0xCA), (0xCB, 0xCB), (0xCC, 0xCC), (0xCD, 0xCD), (0xCE, 0xCE),
    (0xCF, 0xCF), (0xD0, 0xD0), (0xD1, 0xD1), (0xD2, 0xD2), (0xD3, 0xD3), (0xD4, 0xD4), (0xD5, 0xD5), (0xD6, 0xD6), (0xD7, 0xD7),
    (0xD8, 0xD8), (0xD9, 0xD9), (0xDA, 0xDA), (0xDB, 0xDB), (0xDC, 0xDC), (0xDD, 0xDD), (0xDE, 0xDE), (0xDF, 0xDF), (0xE0, 0xE0),
    (0xE1, 0xE1), (0xE2, 0xE2), (0xE3, 0xE3), (0xE4, 0xE4), (0xE5, 0xE5), (0xE6, 0xE6), (0xE7, 0xE7), (0xE8, 0xE8), (0xE9, 0xE9),
    (0xEA, 0xEA), (0xEB, 0xEB), (0xEC, 0xEC), (0xED, 0xED), (0xEE, 0xEE), (0xEF, 0xEF), (0xF0, 0xF0), (0xF1, 0xF1), (0xF2, 0xF2),
    (0xF3, 0xF3), (0xF4, 0xF4), (0xF5, 0xF5), (0xF6, 0xF6), (0xF7, 0xF7), (0xF8, 0xF8), (0xF9, 0xF9), (0xFA, 0xFA), (0xFB, 0xFB),
    (0xFC, 0xFC), (0xFD, 0xFD), (0xFE, 0xFE), (0xFF, 0xFF), (0x100, 0x41), (0x101, 0x61), (0x102, 0x41), (0x103, 0x61), (0x104, 0x41),
    (0x105, 0x61), (0x106, 0x43), (0x107, 0x63), (0x108, 0x43), (0x109, 0x63), (0x10A, 0x43), (0x10B, 0x63), (0x10C, 0x43), (0x10D, 0x63),
    (0x10E, 0x44), (0x10F, 0x64), (0x110, 0xD0), (0x111, 0x64), (0x112, 0x45), (0x113, 0x65), (0x114, 0x45), (0x115, 0x65), (0x116, 0x45),
    (0x117, 0x65), (0x118, 0x45), (0x119, 0x65), (0x11A, 0x45), (0x11B, 0x65), (0x11C, 0x47), (0x11D, 0x67), (0x11E, 0x47), (0x11F, 0x67),
    (0x120, 0x47), (0x121, 0x67), (0x122, 0x47), (0x123, 0x67), (0x124, 0x48), (0x125, 0x68), (0x126, 0x48), (0x127, 0x68), (0x128, 0x49),
    (0x129, 0x69), (0x12A, 0x49), (0x12B, 0x69), (0x12C, 0x49), (0x12D, 0x69), (0x12E, 0x49), (0x12F, 0x69), (0x130, 0x49), (0x131, 0x69),
    (0x134, 0x4A), (0x135, 0x6A), (0x136, 0x4B), (0x137, 0x6B), (0x139, 0x4C), (0x13A, 0x6C), (0x13B, 0x4C), (0x13C, 0x6C), (0x13D, 0x4C),
    (0x13E, 0x6C), (0x141, 0x4C), (0x142, 0x6C), (0x143, 0x4E), (0x144, 0x6E), (0x145, 0x4E), (0x146, 0x6E), (0x147, 0x4E), (0x148, 0x6E),
    (0x14C, 0x4F), (0x14D, 0x6F), (0x14E, 0x4F), (0x14F, 0x6F), (0x150, 0x4F), (0x151, 0x6F), (0x152, 0x8C), (0x153, 0x9C), (0x154, 0x52),
    (0x155, 0x72), (0x156, 0x52), (0x157, 0x72), (0x158, 0x52), (0x159, 0x72), (0x15A, 0x53), (0x15B, 0x73), (0x15C, 0x53), (0x15D, 0x73),
    (0x15E, 0x53), (0x15F, 0x73), (0x160, 0x8A), (0x161, 0x9A), (0x162, 0x54), (0x163, 0x74), (0x164, 0x54), (0x165, 0x74), (0x166, 0x54),
    (0x167, 0x74), (0x168, 0x55), (0x169, 0x75), (0x16A, 0x55), (0x16B, 0x75), (0x16C, 0x55), (0x16D, 0x75), (0x16E, 0x55), (0x16F, 0x75),
    (0x170, 0x55), (0x171, 0x75), (0x172, 0x55), (0x173, 0x75), (0x174, 0x57), (0x175, 0x77), (0x176, 0x59), (0x177, 0x79), (0x178, 0x9F),
    (0x179, 0x5A), (0x17A, 0x7A), (0x17B, 0x5A), (0x17C, 0x7A), (0x17D, 0x8E), (0x17E, 0x9E), (0x180, 0x62), (0x189, 0xD0), (0x191, 0x83),
    (0x192, 0x83), (0x197, 0x49), (0x19A, 0x6C), (0x19F, 0x4F), (0x1A0, 0x4F), (0x1A1, 0x6F), (0x1AB, 0x74), (0x1AE, 0x54), (0x1AF, 0x55),
    (0x1B0, 0x75), (0x1B6, 0x7A), (0x1C0, 0x7C), (0x1C3, 0x21), (0x1CD, 0x41), (0x1CE, 0x61), (0x1CF, 0x49), (0x1D0, 0x69), (0x1D1, 0x4F),
    (0x1D2, 0x6F), (0x1D3, 0x55), (0x1D4, 0x75), (0x1D5, 0x55), (0x1D6, 0x75), (0x1D7, 0x55), (0x1D8, 0x75), (0x1D9, 0x55), (0x1DA, 0x75),
    (0x1DB, 0x55), (0x1DC, 0x75), (0x1DE, 0x41), (0x1DF, 0x61), (0x1E4, 0x47), (0x1E5, 0x67), (0x1E6, 0x47), (0x1E7, 0x67), (0x1E8, 0x4B),
    (0x1E9, 0x6B), (0x1EA, 0x4F), (0x1EB, 0x6F), (0x1EC, 0x4F), (0x1ED, 0x6F), (0x1F0, 0x6A), (0x261, 0x67), (0x2B9, 0x27), (0x2BA, 0x22),
    (0x2BC, 0x27), (0x2C4, 0x5E), (0x2C6, 0x88), (0x2C8, 0x27), (0x2C9, 0xAF), (0x2CA, 0xB4), (0x2CB, 0x60), (0x2CD, 0x5F), (0x2DA, 0xB0),
    (0x2DC, 0x98), (0x300, 0x60), (0x301, 0xB4), (0x302, 0x5E), (0x303, 0x7E), (0x304, 0xAF), (0x305, 0xAF), (0x308, 0xA8), (0x30A, 0xB0),
    (0x30E, 0x22), (0x327, 0xB8), (0x331, 0x5F), (0x332, 0x5F), (0x37E, 0x3B), (0x393, 0x47), (0x398, 0x54), (0x3A3, 0x53), (0x3A6, 0x46),
    (0x3A9, 0x4F), (0x3B1, 0x61), (0x3B2, 0xDF), (0x3B4, 0x64), (0x3B5, 0x65), (0x3BC, 0xB5), (0x3C0, 0x70), (0x3C3, 0x73), (0x3C4, 0x74),
    (0x3C6, 0x66), (0x4BB, 0x68), (0x589, 0x3A), (0x66A, 0x25), (0x2000, 0x20), (0x2001, 0x20), (0x2002, 0x20), (0x2003, 0x20), (0x2004, 0x20),
    (0x2005, 0x20), (0x2006, 0x20), (0x2010, 0x2D), (0x2011, 0x2D), (0x2013, 0x96), (0x2014, 0x97), (0x2017, 0x3D), (0x2018, 0x91), (0x2019, 0x92),
    (0x201A, 0x82), (0x201C, 0x93), (0x201D, 0x94), (0x201E, 0x84), (0x2020, 0x86), (0x2021, 0x87), (0x2022, 0x95), (0x2024, 0xB7), (0x2026, 0x85),
    (0x2030, 0x89), (0x2032, 0x27), (0x2035, 0x60), (0x2039, 0x8B), (0x203A, 0x9B), (0x2044, 0x2F), (0x2070, 0xB0), (0x2074, 0x34), (0x2075, 0x35),
    (0x2076, 0x36), (0x2077, 0x37), (0x2078, 0x38), (0x207F, 0x6E), (0x2080, 0x30), (0x2081, 0x31), (0x2082, 0x32), (0x2083, 0x33), (0x2084, 0x34),
    (0x2085, 0x35), (0x2086, 0x36), (0x2087, 0x37), (0x2088, 0x38), (0x2089, 0x39), (0x20A1, 0xA2), (0x20A4, 0xA3), (0x20A7, 0x50), (0x20AC, 0x80),
    (0x2102, 0x43), (0x2107, 0x45), (0x210A, 0x67), (0x210B, 0x48), (0x210C, 0x48), (0x210D, 0x48), (0x210E, 0x68), (0x2110, 0x49), (0x2111, 0x49),
    (0x2112, 0x4C), (0x2113, 0x6C), (0x2115, 0x4E), (0x2118, 0x50), (0x2119, 0x50), (0x211A, 0x51), (0x211B, 0x52), (0x211C, 0x52), (0x211D, 0x52),
    (0x2122, 0x99), (0x2124, 0x5A), (0x2128, 0x5A), (0x212A, 0x4B), (0x212B, 0xC5), (0x212C, 0x42), (0x212D, 0x43), (0x212E, 0x65), (0x212F, 0x65),
    (0x2130, 0x45), (0x2131, 0x46), (0x2133, 0x4D), (0x2134, 0x6F), (0x2205, 0xD8), (0x2212, 0x2D), (0x2213, 0xB1), (0x2215, 0x2F), (0x2216, 0x5C),
    (0x2217, 0x2A), (0x2218, 0xB0), (0x2219, 0xB7), (0x221A, 0x76), (0x221E, 0x38), (0x2223, 0x7C), (0x2229, 0x6E), (0x2236, 0x3A), (0x223C, 0x7E),
    (0x2248, 0x98), (0x2261, 0x3D), (0x2264, 0x3D), (0x2265, 0x3D), (0x226A, 0xAB), (0x226B, 0xBB), (0x22C5, 0xB7), (0x2302, 0xA6), (0x2303, 0x5E),
    (0x2310, 0xAC), (0x2320, 0x28), (0x2321, 0x29), (0x2329, 0x3C), (0x232A, 0x3E), (0x2500, 0x2D), (0x2502, 0xA6), (0x250C, 0x2B), (0x2510, 0x2B),
    (0x2514, 0x2B), (0x2518, 0x2B), (0x251C, 0x2B), (0x2524, 0xA6), (0x252C, 0x2D), (0x2534, 0x2D), (0x253C, 0x2B), (0x2550, 0x2D), (0x2551, 0xA6),
    (0x2552, 0x2B), (0x2553, 0x2B), (0x2554, 0x2B), (0x2555, 0x2B), (0x2556, 0x2B), (0x2557, 0x2B), (0x2558, 0x2B), (0x2559, 0x2B), (0x255A, 0x2B),
    (0x255B, 0x2B), (0x255C, 0x2B), (0x255D, 0x2B), (0x255E, 0xA6), (0x255F, 0xA6), (0x2560, 0xA6), (0x2561, 0xA6), (0x2562, 0xA6), (0x2563, 0xA6),
    (0x2564, 0x2D), (0x2565, 0x2D), (0x2566, 0x2D), (0x2567, 0x2D), (0x2568, 0x2D), (0x2569, 0x2D), (0x256A, 0x2B), (0x256B, 0x2B), (0x256C, 0x2B),
    (0x2580, 0xAF), (0x2584, 0x5F), (0x2588, 0xA6), (0x258C, 0xA6), (0x2590, 0xA6), (0x2591, 0xA6), (0x2592, 0xA6), (0x2593, 0xA6), (0x25A0, 0xA6),
    (0x263C, 0xA4), (0x2758, 0x7C), (0x3000, 0x20), (0x3008, 0x3C), (0x3009, 0x3E), (0x300A, 0xAB), (0x300B, 0xBB), (0x301A, 0x5B), (0x301B, 0x5D),
    (0x30FB, 0xB7), (0xFF01, 0x21), (0xFF02, 0x22), (0xFF03, 0x23), (0xFF04, 0x24), (0xFF05, 0x25), (0xFF06, 0x26), (0xFF07, 0x27), (0xFF08, 0x28),
    (0xFF09, 0x29), (0xFF0A, 0x2A), (0xFF0B, 0x2B), (0xFF0C, 0x2C), (0xFF0D, 0x2D), (0xFF0E, 0x2E), (0xFF0F, 0x2F), (0xFF10, 0x30), (0xFF11, 0x31),
    (0xFF12, 0x32), (0xFF13, 0x33), (0xFF14, 0x34), (0xFF15, 0x35), (0xFF16, 0x36), (0xFF17, 0x37), (0xFF18, 0x38), (0xFF19, 0x39), (0xFF1A, 0x3A),
    (0xFF1B, 0x3B), (0xFF1C, 0x3C), (0xFF1D, 0x3D), (0xFF1E, 0x3E), (0xFF20, 0x40), (0xFF21, 0x41), (0xFF22, 0x42), (0xFF23, 0x43), (0xFF24, 0x44),
    (0xFF25, 0x45), (0xFF26, 0x46), (0xFF27, 0x47), (0xFF28, 0x48), (0xFF29, 0x49), (0xFF2A, 0x4A), (0xFF2B, 0x4B), (0xFF2C, 0x4C), (0xFF2D, 0x4D),
    (0xFF2E, 0x4E), (0xFF2F, 0x4F), (0xFF30, 0x50), (0xFF31, 0x51), (0xFF32, 0x52), (0xFF33, 0x53), (0xFF34, 0x54), (0xFF35, 0x55), (0xFF36, 0x56),
    (0xFF37, 0x57), (0xFF38, 0x58), (0xFF39, 0x59), (0xFF3A, 0x5A), (0xFF3B, 0x5B), (0xFF3C, 0x5C), (0xFF3D, 0x5D), (0xFF3E, 0x5E), (0xFF3F, 0x5F),
    (0xFF40, 0x60), (0xFF41, 0x61), (0xFF42, 0x62), (0xFF43, 0x63), (0xFF44, 0x64), (0xFF45, 0x65), (0xFF46, 0x66), (0xFF47, 0x67), (0xFF48, 0x68),
    (0xFF49, 0x69), (0xFF4A, 0x6A), (0xFF4B, 0x6B), (0xFF4C, 0x6C), (0xFF4D, 0x6D), (0xFF4E, 0x6E), (0xFF4F, 0x6F), (0xFF50, 0x70), (0xFF51, 0x71),
    (0xFF52, 0x72), (0xFF53, 0x73), (0xFF54, 0x74), (0xFF55, 0x75), (0xFF56, 0x76), (0xFF57, 0x77), (0xFF58, 0x78), (0xFF59, 0x79), (0xFF5A, 0x7A),
    (0xFF5B, 0x7B), (0xFF5C, 0x7C), (0xFF5D, 0x7D), (0xFF5E, 0x7E)]"

definition kWindows1252Decode :: "int list" where
  "kWindows1252Decode = [
    0x0, 0x1, 0x2, 0x3, 0x4, 0x5, 0x6, 0x7, 0x8, 0x9, 0xA, 0xB, 0xC, 0xD, 0xE, 0xF,
    0x10, 0x11, 0x12, 0x13, 0x14, 0x15, 0x16, 0x17, 0x18, 0x19, 0x1A, 0x1B, 0x1C, 0x1D, 0x1E, 0x1F,
    0x20, 0x21, 0x22, 0x23, 0x24, 0x25, 0x26, 0x27, 0x28, 0x29, 0x2A, 0x2B, 0x2C, 0x2D, 0x2E, 0x2F,
    0x30, 0x31, 0x32, 0x33, 0x34, 0x35, 0x36, 0x37, 0x38, 0x39, 0x3A, 0x3B, 0x3C, 0x3D, 0x3E, 0x3F,
    0x40, 0x41, 0x42, 0x43, 0x44, 0x45, 0x46, 0x47, 0x48, 0x49, 0x4A, 0x4B, 0x4C, 0x4D, 0x4E, 0x4F,
    0x50, 0x51, 0x52, 0x53, 0x54, 0x55, 0x56, 0x57, 0x58, 0x59, 0x5A, 0x5B, 0x5C, 0x5D, 0x5E, 0x5F,
    0x60, 0x61, 0x62, 0x63, 0x64, 0x65, 0x66, 0x67, 0x68, 0x69, 0x6A, 0x6B, 0x6C, 0x6D, 0x6E, 0x6F,
    0x70, 0x71, 0x72, 0x73, 0x74, 0x75, 0x76, 0x77, 0x78, 0x79, 0x7A, 0x7B, 0x7C, 0x7D, 0x7E, 0x7F,
    0x20AC, 0x81, 0x201A, 0x192, 0x201E, 0x2026, 0x2020, 0x2021, 0x2C6, 0x2030, 0x160, 0x2039, 0x152, 0x8D, 0x17D, 0x8F,
    0x90, 0x2018, 0x2019, 0x201C, 0x201D, 0x2022, 0x2013, 0x2014, 0x2DC, 0x2122, 0x161, 0x203A, 0x153, 0x9D, 0x17E, 0x178,
    0xA0, 0xA1, 0xA2, 0xA3, 0xA4, 0xA5, 0xA6, 0xA7, 0xA8, 0xA9, 0xAA, 0xAB, 0xAC, 0xAD, 0xAE, 0xAF,
    0xB0, 0xB1, 0xB2, 0xB3, 0xB4, 0xB5, 0xB6, 0xB7, 0xB8, 0xB9, 0xBA, 0xBB, 0xBC, 0xBD, 0xBE, 0xBF,
    0xC0, 0xC1, 0xC2, 0xC3, 0xC4, 0xC5, 0xC6, 0xC7, 0xC8, 0xC9, 0xCA, 0xCB, 0xCC, 0xCD, 0xCE, 0xCF,
    0xD0, 0xD1, 0xD2, 0xD3, 0xD4, 0xD5, 0xD6, 0xD7, 0xD8, 0xD9, 0xDA, 0xDB, 0xDC, 0xDD, 0xDE, 0xDF,
    0xE0, 0xE1, 0xE2, 0xE3, 0xE4, 0xE5, 0xE6, 0xE7, 0xE8, 0xE9, 0xEA, 0xEB, 0xEC, 0xED, 0xEE, 0xEF,
    0xF0, 0xF1, 0xF2, 0xF3, 0xF4, 0xF5, 0xF6, 0xF7, 0xF8, 0xF9, 0xFA, 0xFB, 0xFC, 0xFD, 0xFE, 0xFF]"

definition kLatin1Encode :: "mapping list" where
  "kLatin1Encode = [
    (0x0, 0x00), (0x1, 0x01), (0x2, 0x02), (0x3, 0x03), (0x4, 0x04), (0x5, 0x05), (0x6, 0x06), (0x7, 0x07), (0x8, 0x08),
    (0x9, 0x09), (0xA, 0x0A), (0xB, 0x0B), (0xC, 0x0C), (0xD, 0x0D), (0xE, 0x0E), (0xF, 0x0F), (0x10, 0x10), (0x11, 0x11),
    (0x12, 0x12), (0x13, 0x13), (0x14, 0x14), (0x15, 0x15), (0x16, 0x16), (0x17, 0x17), (0x18, 0x18), (0x19, 0x19), (0x1A, 0x1A),
    (0x1B, 0x1B), (0x1C, 0x1C), (0x1D, 0x1D), (0x1E, 0x1E), (0x1F, 0x1F), (0x20, 0x20), (0x21, 0x21), (0x22, 0x22), (0x23, 0x23),
    (0x24, 0x24), (0x25, 0x25), (0x26, 0x26), (0x27, 0x27), (0x28, 0x28), (0x29, 0x29), (0x2A, 0x2A), (0x2B, 0x2B), (0x2C, 0x2C),
    (0x2D, 0x2D), (0x2E, 0x2E), (0x2F, 0x2F), (0x30, 0x30), (0x31, 0x31), (0x32, 0x32), (0x33, 0x33), (0x34, 0x34), (0x35, 0x35),
    (0x36, 0x36), (0x37, 0x37), (0x38, 0x38), (0x39, 0x39), (0x3A, 0x3A), (0x3B, 0x3B), (0x3C, 0x3C), (0x3D, 0x3D), (0x3E, 0x3E),
    (0x3F, 0x3F), (0x40, 0x40), (0x41, 0x41), (0x42, 0x42), (0x43, 0x43), (0x44, 0x44), (0x45, 0x45), (0x46, 0x46), (0x47, 0x47),
    (0x48, 0x48), (0x49, 0x49), (0x4A, 0x4A), (0x4B, 0x4B), (0x4C, 0x4C), (0x4D, 0x4D), (0x4E, 0x4E), (0x4F, 0x4F), (0x50, 0x50),
    (0x51, 0x51), (0x52, 0x52), (0x53, 0x53), (0x54, 0x54), (0x55, 0x55), (0x56, 0x56), (0x57, 0x57), (0x58, 0x58), (0x59, 0x59),
    (0x5A, 0x5A), (0x5B, 0x5B), (0x5C, 0x5C), (0x5D, 0x5D), (0x5E, 0x5E), (0x5F, 0x5F), (0x60, 0x60), (0x61, 0x61), (0x62, 0x62),
    (0x63, 0x63), (0x64, 0x64), (0x65, 0x65), (0x66, 0x66), (0x67, 0x67), (0x68, 0x68), (0x69, 0x69), (0x6A, 0x6A), (0x6B, 0x6B),
    (0x6C, 0x6C), (0x6D, 0x6D), (0x6E, 0x6E), (0x6F, 0x6F), (0x70, 0x70), (0x71, 0x71), (0x72, 0x72), (0x73, 0x73), (0x74, 0x74),
    (0x75, 0x75), (0x76, 0x76), (0x77, 0x77), (0x78, 0x78), (0x79, 0x79), (0x7A, 0x7A), (0x7B, 0x7B), (0x7C, 0x7C), (0x7D, 0x7D),
    (0x7E, 0x7E), (0x7F, 0x7F), (0x80, 0x80), (0x81, 0x81), (0x82, 0x82), (0x83, 0x83), (0x84, 0x84), (0x85, 0x85), (0x86, 0x86),
    (0x87, 0x87), (0x88, 0x88), (0x89, 0x89), (0x8A, 0x8A), (0x8B, 0x8B), (0x8C, 0x8C), (0x8D, 0x8D), (0x8E, 0x8E), (0x8F, 0x8F),
    (0x90, 0x90), (0x91, 0x91), (0x92, 0x92), (0x93, 0x93), (0x94, 0x94), (0x95, 0x95), (0x96, 0x96), (0x97, 0x97), (0x98, 0x98),
    (0x99, 0x99), (0x9A, 0x9A), (0x9B, 0x9B), (0x9C, 0x9C), (0x9D, 0x9D), (0x9E, 0x9E), (0x9F, 0x9F), (0xA0, 0xA0), (0xA1, 0xA1),
    (0xA2, 0xA2), (0xA3, 0xA3), (0xA4, 0xA4), (0xA5, 0xA5), (0xA6, 0xA6), (0xA7, 0xA7), (0xA8, 0xA8), (0xA9, 0xA9), (0xAA, 0xAA),
    (0xAB, 0xAB), (0xAC, 0xAC), (0xAD, 0xAD), (0xAE, 0xAE), (0xAF, 0xAF), (0xB0, 0xB0), (0xB1, 0xB1), (0xB2, 0xB2), (0xB3, 0xB3),
    (0xB4, 0xB4), (0xB5, 0xB5), (0xB6, 0xB6), (0xB7, 0xB7), (0xB8, 0xB8), (0xB9, 0xB9), (0xBA, 0xBA), (0xBB, 0xBB), (0xBC, 0xBC),
    (0xBD, 0xBD), (0xBE, 0xBE), (0xBF, 0xBF), (0xC0, 0xC0), (0xC1, 0xC1), (0xC2, 0xC2), (0xC3, 0xC3), (0xC4, 0xC4), (0xC5, 0xC5),
    (0xC6, 0xC6), (0xC7, 0xC7), (0xC8, 0xC8), (0xC9, 0xC9), (0xCA, 0xCA), (0xCB, 0xCB), (0xCC, 0xCC), (0xCD, 0xCD), (0xCE, 0xCE),
    (0xCF, 0xCF), (0xD0, 0xD0), (0xD1, 0xD1), (0xD2, 0xD2), (0xD3, 0xD3), (0xD4, 0xD4), (0xD5, 0xD5), (0xD6, 0xD6), (0xD7, 0xD7),
    (0xD8, 0xD8), (0xD9, 0xD9), (0xDA, 0xDA), (0xDB, 0xDB), (0xDC, 0xDC), (0xDD, 0xDD), (0xDE, 0xDE), (0xDF, 0xDF), (0xE0, 0xE0),
    (0xE1, 0xE1), (0xE2, 0xE2), (0xE3, 0xE3), (0xE4, 0xE4), (0xE5, 0xE5), (0xE6, 0xE6), (0xE7, 0xE7), (0xE8, 0xE8), (0xE9, 0xE9),
    (0xEA, 0xEA), (0xEB, 0xEB), (0xEC, 0xEC), (0xED, 0xED), (0xEE, 0xEE), (0xEF, 0xEF), (0xF0, 0xF0), (0xF1, 0xF1), (0xF2, 0xF2),
    (0xF3, 0xF3), (0xF4, 0xF4), (0xF5, 0xF5), (0xF6, 0xF6), (0xF7, 0xF7), (0xF8, 0xF8), (0xF9, 0xF9), (0xFA, 0xFA), (0xFB, 0xFB),
    (0xFC, 0xFC), (0xFD, 0xFD), (0xFE, 0xFE), (0xFF, 0xFF), (0x100, 0x41), (0x101, 0x61), (0x102, 0x41), (0x103, 0x61), (0x104, 0x41),
    (0x105, 0x61), (0x106, 0x43), (0x107, 0x63), (0x108, 0x43), (0x109, 0x63), (0x10A, 0x43), (0x10B, 0x63), (0x10C, 0x43), (0x10D, 0x63),
    (0x10E, 0x44), (0x10F, 0x64), (0x110, 0x44), (0x111, 0x64), (0x112, 0x45), (0x113, 0x65), (0x114, 0x45), (0x115, 0x65), (0x116, 0x45),
    (0x117, 0x65), (0x118, 0x45), (0x119, 0x65), (0x11A, 0x45), (0x11B, 0x65), (0x11C, 0x47), (0x11D, 0x67), (0x11E, 0x47), (0x11F, 0x67),
    (0x120, 0x47), (0x121, 0x67), (0x122, 0x47), (0x123, 0x67), (0x124, 0x48), (0x125, 0x68), (0x126, 0x48), (0x127, 0x68), (0x128, 0x49),
    (0x129, 0x69), (0x12A, 0x49), (0x12B, 0x69), (0x12C, 0x49), (0x12D, 0x69), (0x12E, 0x49), (0x12F, 0x69), (0x130, 0x49), (0x131, 0x69),
    (0x134, 0x4A), (0x135, 0x6A), (0x136, 0x4B), (0x137, 0x6B), (0x139, 0x4C), (0x13A, 0x6C), (0x13B, 0x4C), (0x13C, 0x6C), (0x13D, 0x4C),
    (0x13E, 0x6C), (0x141, 0x4C), (0x142, 0x6C), (0x143, 0x4E), (0x144, 0x6E), (0x145, 0x4E), (0x146, 0x6E), (0x147, 0x4E), (0x148, 0x6E),
    (0x14C, 0x4F), (0x14D, 0x6F), (0x14E, 0x4F), (0x14F, 0x6F), (0x150, 0x4F), (0x151, 0x6F), (0x152, 0x4F), (0x153, 0x6F), (0x154, 0x52),
    (0x155, 0x72), (0x156, 0x52), (0x157, 0x72), (0x158, 0x52), (0x159, 0x72), (0x15A, 0x53), (0x15B, 0x73), (0x15C, 0x53), (0x15D, 0x73),
    (0x15E, 0x53), (0x15F, 0x73), (0x160, 0x53), (0x161, 0x73), (0x162, 0x54), (0x163, 0x74), (0x164, 0x54), (0x165, 0x74), (0x166, 0x54),
    (0x167, 0x74), (0x168, 0x55), (0x169, 0x75), (0x16A, 0x55), (0x16B, 0x75), (0x16C, 0x55), (0x16D, 0x75), (0x16E, 0x55), (0x16F, 0x75),
    (0x170, 0x55), (0x171, 0x75), (0x172, 0x55), (0x173, 0x75), (0x174, 0x57), (0x175, 0x77), (0x176, 0x59), (0x177, 0x79), (0x178, 0x59),
    (0x179, 0x5A), (0x17A, 0x7A), (0x17B, 0x5A), (0x17C, 0x7A), (0x17D, 0x5A), (0x17E, 0x7A), (0x180, 0x62), (0x189, 0x44), (0x191, 0x46),
    (0x192, 0x66), (0x197, 0x49), (0x19A, 0x6C), (0x19F, 0x4F), (0x1A0, 0x4F), (0x1A1, 0x6F), (0x1AB, 0x74), (0x1AE, 0x54), (0x1AF, 0x55),
    (0x1B0, 0x75), (0x1B6, 0x7A), (0x1CD, 0x41), (0x1CE, 0x61), (0x1CF, 0x49), (0x1D0, 0x69), (0x1D1, 0x4F), (0x1D2, 0x6F), (0x1D3, 0x55),
    (0x1D4, 0x75), (0x1D5, 0x55), (0x1D6, 0x75), (0x1D7, 0x55), (0x1D8, 0x75), (0x1D9, 0x55), (0x1DA, 0x75), (0x1DB, 0x55), (0x1DC, 0x75),
    (0x1DE, 0x41), (0x1DF, 0x61), (0x1E4, 0x47), (0x1E5, 0x67), (0x1E6, 0x47), (0x1E7, 0x67), (0x1E8, 0x4B), (0x1E9, 0x6B), (0x1EA, 0x4F),
    (0x1EB, 0x6F), (0x1EC, 0x4F), (0x1ED, 0x6F), (0x1F0, 0x6A), (0x261, 0x67), (0x2B9, 0x27), (0x2BA, 0x22), (0x2BC, 0x27), (0x2C4, 0x5E),
    (0x2C6, 0x5E), (0x2C8, 0x27), (0x2CB, 0x60), (0x2CD, 0x5F), (0x2DC, 0x7E), (0x300, 0x60), (0x302, 0x5E), (0x303, 0x7E), (0x30E, 0x22),
    (0x331, 0x5F), (0x332, 0x5F), (0x2000, 0x20), (0x2001, 0x20), (0x2002, 0x20), (0x2003, 0x20), (0x2004, 0x20), (0x2005, 0x20), (0x2006, 0x20),
    (0x2010, 0x2D), (0x2011, 0x2D), (0x2013, 0x2D), (0x2014, 0x2D), (0x2018, 0x27), (0x2019, 0x27), (0x201A, 0x2C), (0x201C, 0x22), (0x201D, 0x22),
    (0x201E, 0x22), (0x2022, 0x2E), (0x2026, 0x2E), (0x2032, 0x27), (0x2035, 0x60), (0x2039, 0x3C), (0x203A, 0x3E), (0x2122, 0x54), (0xFF01, 0x21),
    (0xFF02, 0x22), (0xFF03, 0x23), (0xFF04, 0x24), (0xFF05, 0x25), (0xFF06, 0x26), (0xFF07, 0x27), (0xFF08, 0x28), (0xFF09, 0x29), (0xFF0A, 0x2A),
    (0xFF0B, 0x2B), (0xFF0C, 0x2C), (0xFF0D, 0x2D), (0xFF0E, 0x2E), (0xFF0F, 0x2F), (0xFF10, 0x30), (0xFF11, 0x31), (0xFF12, 0x32), (0xFF13, 0x33),
    (0xFF14, 0x34), (0xFF15, 0x35), (0xFF16, 0x36), (0xFF17, 0x37), (0xFF18, 0x38), (0xFF19, 0x39), (0xFF1A, 0x3A), (0xFF1B, 0x3B), (0xFF1C, 0x3C),
    (0xFF1D, 0x3D), (0xFF1E, 0x3E), (0xFF20, 0x40), (0xFF21, 0x41), (0xFF22, 0x42), (0xFF23, 0x43), (0xFF24, 0x44), (0xFF25, 0x45), (0xFF26, 0x46),
    (0xFF27, 0x47), (0xFF28, 0x48), (0xFF29, 0x49), (0xFF2A, 0x4A), (0xFF2B, 0x4B), (0xFF2C, 0x4C), (0xFF2D, 0x4D), (0xFF2E, 0x4E), (0xFF2F, 0x4F),
    (0xFF30, 0x50), (0xFF31, 0x51), (0xFF32, 0x52), (0xFF33, 0x53), (0xFF34, 0x54), (0xFF35, 0x55), (0xFF36, 0x56), (0xFF37, 0x57), (0xFF38, 0x58),
    (0xFF39, 0x59), (0xFF3A, 0x5A), (0xFF3B, 0x5B), (0xFF3C, 0x5C), (0xFF3D, 0x5D), (0xFF3E, 0x5E), (0xFF3F, 0x5F), (0xFF40, 0x60), (0xFF41, 0x61),
    (0xFF42, 0x62), (0xFF43, 0x63), (0xFF44, 0x64), (0xFF45, 0x65), (0xFF46, 0x66), (0xFF47, 0x67), (0xFF48, 0x68), (0xFF49, 0x69), (0xFF4A, 0x6A),
    (0xFF4B, 0x6B), (0xFF4C, 0x6C), (0xFF4D, 0x6D), (0xFF4E, 0x6E), (0xFF4F, 0x6F), (0xFF50, 0x70), (0xFF51, 0x71), (0xFF52, 0x72), (0xFF53, 0x73),
    (0xFF54, 0x74), (0xFF55, 0x75), (0xFF56, 0x76), (0xFF57, 0x77), (0xFF58, 0x78), (0xFF59, 0x79), (0xFF5A, 0x7A), (0xFF5B, 0x7B), (0xFF5C, 0x7C),
    (0xFF5D, 0x7D), (0xFF5E, 0x7E)]"

definition IdentityDecoder :: "bool \<Rightarrow> int list" where
  "IdentityDecoder ascii = map (\<lambda>index. if ascii \<and> index \<ge> 128 then 0x3F else index) [0..255]"

definition kLatin1Decode :: "int list" where "kLatin1Decode = IdentityDecoder False"

definition kAsciiDecode :: "int list" where "kAsciiDecode = IdentityDecoder True"

text \<open>The compile-time checks of the tables.\<close>

fun SortedMappings :: "mapping list \<Rightarrow> bool" where
  "SortedMappings (a # b # rest) = (if fst a \<ge> fst b then False else SortedMappings (b # rest))"
| "SortedMappings _ = True"

definition AsciiIdentity :: bool where
  "AsciiIdentity \<longleftrightarrow> take 128 kWindows1252Decode = [0..127]"

record SingleByteCodePage =
  number :: int
  encode :: "mapping list"
  decode :: "int list"
  asciiIdentity :: bool

definition kWindows1252 :: SingleByteCodePage where
  "kWindows1252 = \<lparr>number = 1252, encode = kWindows1252Encode, decode = kWindows1252Decode, asciiIdentity = True\<rparr>"

definition kLatin1 :: SingleByteCodePage where
  "kLatin1 = \<lparr>number = 28591, encode = kLatin1Encode, decode = kLatin1Decode, asciiIdentity = True\<rparr>"

definition kAscii :: SingleByteCodePage where
  "kAscii = \<lparr>number = 20127, encode = [], decode = kAsciiDecode, asciiIdentity = True\<rparr>"

definition FindSingleByteCodePage :: "int \<Rightarrow> SingleByteCodePage option" where
  "FindSingleByteCodePage n =
     (if n = number kWindows1252 then Some kWindows1252
      else if n = number kLatin1 then Some kLatin1
      else if n = number kAscii then Some kAscii
      else None)"

text \<open>The binary search over the mappings, first to last.\<close>

function Search :: "mapping list \<Rightarrow> int \<Rightarrow> nat \<Rightarrow> nat \<Rightarrow> nat" where
  "Search mappings unit first final =
     (if first < final then
        let middle = first + (final - first) div 2 in
        if fst (mappings ! middle) < unit then Search mappings unit (middle + 1) final
        else Search mappings unit first middle
      else first)"
  by pat_completeness auto
termination by (relation "measure (\<lambda>(_, _, first, final). final - first)") auto

declare Search.simps [simp del]

definition EncodeSingleByteUnit :: "SingleByteCodePage \<Rightarrow> int \<Rightarrow> int" where
  "EncodeSingleByteUnit page unit =
     (if asciiIdentity page \<and> unit \<ge> 0 \<and> unit < 128 then unit
      else
        let first = Search (encode page) unit 0 (length (encode page)) in
        if first \<noteq> length (encode page) \<and> fst (encode page ! first) = unit then snd (encode page ! first) else 0x3F)"

section \<open>The search\<close>

lemma sorted_mappings: "SortedMappings mappings \<longleftrightarrow> sorted_wrt (<) (map fst mappings)"
proof (induction mappings rule: SortedMappings.induct)
  case (1 a b rest)
  then show ?case by (auto intro: less_trans)
qed auto

definition splits :: "mapping list \<Rightarrow> int \<Rightarrow> nat \<Rightarrow> bool" where
  "splits mappings unit k \<longleftrightarrow> k \<le> length mappings \<and> (\<forall>i < k. fst (mappings ! i) < unit) \<and>
     (\<forall>i. k \<le> i \<and> i < length mappings \<longrightarrow> unit \<le> fst (mappings ! i))"

lemma sorted_nth: "SortedMappings mappings \<Longrightarrow> i < j \<Longrightarrow> j < length mappings \<Longrightarrow> fst (mappings ! i) < fst (mappings ! j)"
  using sorted_wrt_nth_less [of "(<)" "map fst mappings" i j] by (simp add: sorted_mappings)

lemma Search_splits:
  assumes "SortedMappings mappings"
  shows "final \<le> length mappings \<Longrightarrow> first \<le> final \<Longrightarrow> \<forall>i < first. fst (mappings ! i) < unit \<Longrightarrow>
    \<forall>i. final \<le> i \<and> i < length mappings \<longrightarrow> unit \<le> fst (mappings ! i) \<Longrightarrow>
    splits mappings unit (Search mappings unit first final)"
proof (induction "final - first" arbitrary: first final rule: less_induct)
  case less
  show ?case
  proof (cases "first < final")
    case False
    then show ?thesis using less.prems by (subst Search.simps) (simp add: splits_def)
  next
    case True
    define middle where "middle = first + (final - first) div 2"
    have m: "first \<le> middle" "middle < final" using True by (auto simp: middle_def)
    show ?thesis
    proof (cases "fst (mappings ! middle) < unit")
      case low: True
      have "fst (mappings ! i) < unit" if "i < middle + 1" for i
        using sorted_nth [OF assms, of i middle] low that m less.prems(1) by (cases "i = middle") auto
      then have "splits mappings unit (Search mappings unit (middle + 1) final)" using less.hyps less.prems m by simp
      then show ?thesis using True low by (subst Search.simps) (simp add: middle_def Let_def)
    next
      case high: False
      have "unit \<le> fst (mappings ! i)" if "middle \<le> i" "i < length mappings" for i
        using sorted_nth [OF assms, of middle i] high that by (cases "i = middle") auto
      then have "splits mappings unit (Search mappings unit first middle)" using less.hyps less.prems m by simp
      then show ?thesis using True high by (subst Search.simps) (simp add: middle_def Let_def)
    qed
  qed
qed

lemma splits_lookup:
  assumes "SortedMappings mappings" and "splits mappings unit k"
  shows "map_of mappings unit = (if k \<noteq> length mappings \<and> fst (mappings ! k) = unit then Some (snd (mappings ! k)) else None)"
proof (cases "k \<noteq> length mappings \<and> fst (mappings ! k) = unit")
  case True
  then have "(unit, snd (mappings ! k)) \<in> set mappings" using assms(2) by (metis le_neq_implies_less nth_mem prod.collapse splits_def)
  moreover have "distinct (map fst mappings)" using assms(1) by (simp add: sorted_mappings strict_sorted_iff)
  ultimately show ?thesis using True by simp
next
  case False
  have "unit \<notin> fst ` set mappings"
  proof
    assume "unit \<in> fst ` set mappings"
    then obtain i where i: "i < length mappings" "fst (mappings ! i) = unit" by (auto simp: in_set_conv_nth)
    then have "k \<le> i" using assms(2) by (metis linorder_not_less order_less_irrefl splits_def)
    moreover have "i \<noteq> k" using False i by auto
    ultimately have "fst (mappings ! k) < unit" "unit \<le> fst (mappings ! k)"
      using sorted_nth [OF assms(1), of k i] i assms(2) by (auto simp: splits_def)
    then show False by simp
  qed
  then have "map_of mappings unit = None" by (simp add: map_of_eq_None_iff)
  then show ?thesis using False by (simp only: if_False)
qed

lemma EncodeSingleByteUnit_lookup:
  assumes "SortedMappings (encode page)"
  shows "EncodeSingleByteUnit page unit =
    (if asciiIdentity page \<and> 0 \<le> unit \<and> unit < 128 then unit
     else case map_of (encode page) unit of Some b \<Rightarrow> b | None \<Rightarrow> 0x3F)"
  using splits_lookup [OF assms Search_splits [OF assms, of "length (encode page)" 0 unit]]
  by (simp add: EncodeSingleByteUnit_def Let_def)

section \<open>The tables are sorted\<close>

lemma tables_sorted: "SortedMappings kWindows1252Encode" "SortedMappings kLatin1Encode" AsciiIdentity
  by code_simp+

text \<open>What the bytes of the upper half decode to, in the order of the units: a part of the encoding table.\<close>

fun within :: "mapping list \<Rightarrow> mapping list \<Rightarrow> bool" where
  "within [] ys = True"
| "within (x # xs) [] = False"
| "within (x # xs) (y # ys) = (if x = y then within xs ys else within (x # xs) ys)"

lemma within_set: "within xs ys \<Longrightarrow> set xs \<subseteq> set ys"
  by (induction xs ys rule: within.induct) (auto split: if_splits)

definition upper :: "int list \<Rightarrow> mapping list" where
  "upper units = filter (\<lambda>p. 128 \<le> snd p) (zip units [0..255])"

lemma windows_bytes: "within (sort_key fst (upper kWindows1252Decode)) kWindows1252Encode"
  by code_simp

lemma latin_bytes: "within (sort_key fst (upper kLatin1Decode)) kLatin1Encode"
  by code_simp

section \<open>The dispatch over the code pages\<close>

definition kUtf8 :: int where "kUtf8 = 65001"
definition kUtf16 :: int where "kUtf16 = 1200"
definition kUtf32 :: int where "kUtf32 = 12000"
definition kDefault :: int where "kDefault = 0"
definition kUnset :: int where "kUnset = - 1"

record encoding_value =
  codePage :: int
  preamble :: bool

definition Made :: "int \<Rightarrow> bool \<Rightarrow> encoding_value" where
  "Made page mark = \<lparr>codePage = page, preamble = mark\<rparr>"

datatype encoding_error = NoImplementation int | UnknownEncoding string

definition GetEncoding :: "int \<Rightarrow> encoding_error + encoding_value" where
  "GetEncoding page =
     (if page = kDefault then Inr (Made (number kWindows1252) False)
      else if page = kUtf8 then Inr (Made kUtf8 True)
      else if page = kUtf16 then Inr (Made kUtf16 True)
      else if page = kUtf32 then Inr (Made kUtf32 True)
      else if FindSingleByteCodePage page \<noteq> None then Inr (Made page False)
      else Inl (NoImplementation page))"

definition ascii_lower :: "char \<Rightarrow> char" where
  "ascii_lower c = (if 0x41 \<le> byte c \<and> byte c \<le> 0x5A then char (byte c + 32) else c)"

definition GetEncodingNamed :: "string \<Rightarrow> encoding_error + encoding_value" where
  "GetEncodingNamed name =
     (let lowered = map ascii_lower name in
      if lowered = ''utf-8'' then Inr (Made kUtf8 True)
      else if lowered = ''utf-16'' \<or> lowered = ''unicode'' \<or> lowered = ''utf-16le'' then Inr (Made kUtf16 True)
      else if lowered = ''utf-32'' \<or> lowered = ''utf-32le'' then Inr (Made kUtf32 True)
      else if lowered = ''us-ascii'' \<or> lowered = ''ascii'' then Inr (Made (number kAscii) False)
      else if lowered = ''windows-1252'' \<or> lowered = ''cp1252'' \<or> lowered = ''x-ansi'' then GetEncoding (number kWindows1252)
      else if lowered = ''iso-8859-1'' \<or> lowered = ''latin1'' \<or> lowered = ''cp819'' then GetEncoding (number kLatin1)
      else Inl (UnknownEncoding name))"

function EncodeSingleLoop :: "SingleByteCodePage \<Rightarrow> string \<Rightarrow> string \<Rightarrow> string" where
  "EncodeSingleLoop page out input =
     (if input = [] then out
      else
        let (c, rest) = NextTextScalar input in
        EncodeSingleLoop page
          (out @ (if c \<ge> 0x10000 then ''??'' else [char (EncodeSingleByteUnit page c)])) rest)"
  by pat_completeness auto
termination by (relation "measure (length o snd o snd)") (auto dest: NextTextScalar_shorter)

declare EncodeSingleLoop.simps [simp del]

definition EncodingEncode :: "int \<Rightarrow> string \<Rightarrow> encoding_error + string" where
  "EncodingEncode page input =
     (let single = FindSingleByteCodePage page;
          unicode = page = kUtf8 \<or> page = kUnset \<or> page = kDefault \<or> page = kUtf16 \<or> page = kUtf32 in
      if \<not> unicode \<and> single = None then Inl (NoImplementation page)
      else if page = kUtf8 \<or> page = kUnset \<or> page = kDefault then Inr (EncodeText Utf8Page input)
      else if page = kUtf32 then Inr (EncodeText Utf32Page input)
      else if page = kUtf16 then Inr (EncodeText Utf16Page input)
      else Inr (EncodeSingleLoop (the single) [] input))"

definition EncodingDecode :: "int \<Rightarrow> string \<Rightarrow> encoding_error + string" where
  "EncodingDecode page bytes =
     (if page = kUtf8 \<or> page = kUnset \<or> page = kDefault then Inr (DecodeUtf8 bytes)
      else if page = kUtf32 then Inr (DecodeUtf32 bytes)
      else if page = kUtf16 then Inr (DecodeUtf16 bytes)
      else case FindSingleByteCodePage page of
        None \<Rightarrow> Inl (NoImplementation page)
      | Some single \<Rightarrow> Inr (foldl (\<lambda>out c. AppendUtf8 out (decode single ! nat (byte c))) [] bytes))"

section \<open>Bytes come back\<close>

lemma upper_pairs:
  assumes "length units = 256" and "128 \<le> i" and "i < 256"
  shows "(units ! nat i, i) \<in> set (upper units)"
proof -
  have "zip units [0..255] ! nat i = (units ! nat i, i)" "nat i < length (zip units [0..255])" using assms by simp_all
  then have "(units ! nat i, i) \<in> set (zip units [0..255])" by (metis nth_mem)
  then show ?thesis using assms by (simp add: upper_def)
qed

lemma byte_found:
  assumes "SortedMappings mappings" and "within (sort_key fst (upper units)) mappings" and "length units = 256"
    and "128 \<le> i" and "i < 256"
  shows "map_of mappings (units ! nat i) = Some i"
proof -
  have "(units ! nat i, i) \<in> set mappings" using upper_pairs [OF assms(3-5)] within_set [OF assms(2)] by auto
  then show ?thesis using assms(1) by (simp add: sorted_mappings strict_sorted_iff)
qed

text \<open>A page gives the bytes back when its tables are inverse on the upper half and the lower half is ASCII.\<close>

definition inverse_page :: "SingleByteCodePage \<Rightarrow> bool" where
  "inverse_page page \<longleftrightarrow> asciiIdentity page \<and> SortedMappings (encode page) \<and> length (decode page) = 256 \<and>
     take 128 (decode page) = [0..127] \<and> list_all (\<lambda>u. 128 \<le> u \<and> u < 0xD800) (drop 128 (decode page)) \<and>
     within (sort_key fst (upper (decode page))) (encode page)"

lemma unit_of_byte:
  assumes "inverse_page page" and "0 \<le> i" and "i < 256"
  shows "0 \<le> decode page ! nat i \<and> decode page ! nat i < 0xD800 \<and> EncodeSingleByteUnit page (decode page ! nat i) = i"
proof (cases "i < 128")
  case True
  have "take 128 (decode page) ! nat i = [0..127] ! nat i" using assms(1) by (simp add: inverse_page_def)
  then have "decode page ! nat i = i" using True assms by simp
  then show ?thesis using True assms by (simp add: inverse_page_def EncodeSingleByteUnit_def)
next
  case False
  have "drop 128 (decode page) ! (nat i - 128) = decode page ! nat i" "nat i - 128 < length (drop 128 (decode page))"
    using False assms by (simp_all add: inverse_page_def)
  then have "decode page ! nat i \<in> set (drop 128 (decode page))" by (metis nth_mem)
  then have "128 \<le> decode page ! nat i" "decode page ! nat i < 0xD800"
    using assms(1) by (auto simp: inverse_page_def list_all_iff)
  then show ?thesis
    using byte_found [of "encode page" "decode page" i] False assms by (simp add: inverse_page_def EncodeSingleByteUnit_lookup)
qed

lemma windows_decode: "length kWindows1252Decode = 256" "list_all (\<lambda>u. 128 \<le> u \<and> u < 0xD800) (drop 128 kWindows1252Decode)"
  by code_simp+

lemma latin_decode: "kLatin1Decode = [0..255]" "length kLatin1Decode = 256"
  by (simp_all add: kLatin1Decode_def IdentityDecoder_def)

lemma latin_halves: "take 128 [0..255] = [0..127 :: int]" "list_all (\<lambda>u. 128 \<le> u \<and> u < 0xD800) (drop 128 [0..255])"
  by code_simp+

lemma inverse_pages: "inverse_page kWindows1252" "inverse_page kLatin1"
  using tables_sorted windows_bytes latin_bytes windows_decode latin_decode latin_halves
  by (simp_all only: inverse_page_def kWindows1252_def kLatin1_def AsciiIdentity_def SingleByteCodePage.simps)

lemma DecodeSingle_text: "foldl (\<lambda>out c. AppendUtf8 out (f c)) out bytes = out @ text_of (map f bytes)"
proof (induction bytes arbitrary: out)
  case (Cons c bytes)
  then show ?case using AppendUtf8_append [of out "f c"] by simp
qed simp

lemma EncodeSingleLoop_text:
  "list_all (\<lambda>u. 0 \<le> u \<and> u < 0xD800) us \<Longrightarrow>
    EncodeSingleLoop page out (text_of us) = out @ map (\<lambda>u. char (EncodeSingleByteUnit page u)) us"
proof (induction us arbitrary: out)
  case (Cons u us)
  then have "NextTextScalar (utf8 u @ text_of us) = (u, text_of us)" by (simp add: NextTextScalar_written is_scalar_def)
  then show ?case using Cons by (subst EncodeSingleLoop.simps) simp
qed (simp add: EncodeSingleLoop.simps)

lemma bytes_return:
  assumes "inverse_page page"
  shows "EncodeSingleLoop page [] (text_of (map (\<lambda>c. decode page ! nat (byte c)) bytes)) = bytes"
  using unit_of_byte [OF assms byte_range]
  by (subst EncodeSingleLoop_text) (auto simp: list_all_iff comp_def)

text \<open>C23: Every string of bytes has a text in Windows-1252 and in Latin-1, the text is valid, and encoding it gives the
same bytes again: the decoder's table, the encoder's sorted table and the binary search over it agree on all 256
bytes.\<close>

theorem single_byte_roundtrip:
  "\<exists>windows latin. EncodingDecode 1252 bytes = Inr windows \<and> IsValidUtf8 windows \<and> EncodingEncode 1252 windows = Inr bytes \<and>
    EncodingDecode 28591 bytes = Inr latin \<and> IsValidUtf8 latin \<and> EncodingEncode 28591 latin = Inr bytes"
proof -
  define units :: "SingleByteCodePage \<Rightarrow> int list" where "units page = map (\<lambda>c. decode page ! nat (byte c)) bytes" for page
  have valid: "IsValidUtf8 (text_of (units page))" if "inverse_page page" for page
    using unit_of_byte [OF that byte_range]
    by (intro valid_written) (fastforce simp: units_def list_all_iff is_scalar_def)
  have "FindSingleByteCodePage 1252 = Some kWindows1252" "FindSingleByteCodePage 28591 = Some kLatin1"
    by (simp_all add: FindSingleByteCodePage_def kWindows1252_def kLatin1_def)
  then have "EncodingDecode 1252 bytes = Inr (text_of (units kWindows1252))" "EncodingDecode 28591 bytes = Inr (text_of (units kLatin1))"
    "EncodingEncode 1252 t = Inr (EncodeSingleLoop kWindows1252 [] t)" "EncodingEncode 28591 t = Inr (EncodeSingleLoop kLatin1 [] t)" for t
    by (simp_all add: EncodingDecode_def EncodingEncode_def DecodeSingle_text units_def kUtf8_def kUnset_def kDefault_def kUtf16_def kUtf32_def)
  then show ?thesis using valid inverse_pages bytes_return by (simp add: units_def)
qed

end
