(* ===== verification/NativeBase64.thy ===== *)
theory NativeBase64
  imports Base64 CodePages
begin

text \<open>
  Base64 of texts, \<^verbatim>\<open>src/src/net/NativeBase64.cpp\<close>: a text is encoded to the bytes of its encoding and those to Base64,
  and back. The forms that write to a stream go through \<^verbatim>\<open>Put\<close> of the theory Base64 and are not repeated here.
\<close>

datatype text_encoding = MSDos | UTF8 | UTF16 | Windows | OtherEncoding

datatype native_error = LocaleUnavailable | InvalidTextEncoding | EncodingFailed encoding_error | Base64Failed base64_error

definition NativeEncoding :: "text_encoding \<Rightarrow> int \<Rightarrow> bool \<Rightarrow> native_error + encoding_value" where
  "NativeEncoding encoding codepage decoding =
     (case encoding of
        UTF8 \<Rightarrow> Inr (Made kUtf8 True)
      | UTF16 \<Rightarrow> Inr (Made kUtf16 True)
      | MSDos \<Rightarrow> if codepage = 0 then Inl LocaleUnavailable else map_sum EncodingFailed id (GetEncoding codepage)
      | Windows \<Rightarrow> if codepage = 0 then Inl LocaleUnavailable else map_sum EncodingFailed id (GetEncoding codepage)
      | OtherEncoding \<Rightarrow> if decoding then Inr (Made kUtf8 True) else Inl InvalidTextEncoding)"

definition NativeToBase64 :: "nat \<Rightarrow> string \<Rightarrow> bool \<Rightarrow> text_encoding \<Rightarrow> int \<Rightarrow> native_error + string" where
  "NativeToBase64 maximum input lines encoding codepage =
     (if input = [] then Inr []
      else andThen (NativeEncoding encoding codepage False) (\<lambda>e.
        andThen (map_sum EncodingFailed id (EncodingEncode (codePage e) input)) (\<lambda>bytes.
          map_sum Base64Failed id (EncodeBase64 maximum bytes lines))))"

definition NativeFromBase64 :: "string \<Rightarrow> text_encoding \<Rightarrow> int \<Rightarrow> native_error + string" where
  "NativeFromBase64 input encoding codepage =
     (if input = [] then Inr []
      else andThen (map_sum Base64Failed id (DecodeBase64 input)) (\<lambda>bytes.
        andThen (NativeEncoding encoding codepage True) (\<lambda>e.
          map_sum EncodingFailed id (EncodingDecode (codePage e) bytes))))"

lemma decoded: "DecodeBase64 (Encode lines 0 bytes) = Inr bytes"
  by (simp add: DecodeBase64_def Decode_def DecodeLoop_encoded)

lemma Encode_empty: "Encode lines 0 bytes = [] \<Longrightarrow> bytes = []"
  using decoded [of lines bytes] by (cases bytes) (auto simp: Let_def EncodeGroup_def)

lemma EncodeBase64_result: "EncodeBase64 maximum bytes lines = Inr encoded \<Longrightarrow> encoded = Encode lines 0 bytes"
  by (auto simp: EncodeBase64_def andThen_def split: sum.splits)

lemma pages_return:
  assumes "page = kUtf8 \<or> page = kUtf16" and "IsValidUtf8 t"
  shows "\<exists>bytes. EncodingEncode page t = Inr bytes \<and> EncodingDecode page bytes = Inr t"
proof -
  have "DecodeBytes Utf8Page (EncodeText Utf8Page t) = t" "DecodeBytes Utf16Page (EncodeText Utf16Page t) = t"
    using valid_encoded [OF assms(2)] by simp_all
  then show ?thesis using assms(1)
    by (auto simp: EncodingEncode_def EncodingDecode_def DecodeBytes_def Let_def kUtf8_def kUtf16_def kUtf32_def kUnset_def kDefault_def)
qed

text \<open>C25: A valid text that was written as Base64 in UTF-8 or UTF-16, with or without line breaks, is read back from
it.\<close>

theorem native_base64_roundtrip:
  assumes "encoding = UTF8 \<or> encoding = UTF16" and "IsValidUtf8 t"
    and "NativeToBase64 maximum t lines encoding codepage = Inr encoded"
  shows "NativeFromBase64 encoded encoding codepage = Inr t"
proof (cases "t = []")
  case True
  then show ?thesis using assms(3) by (simp add: NativeToBase64_def NativeFromBase64_def)
next
  case False
  define page where "page = (if encoding = UTF8 then kUtf8 else kUtf16)"
  have e: "NativeEncoding encoding codepage d = Inr (Made page True)" for d
    using assms(1) by (auto simp: NativeEncoding_def page_def)
  have "page = kUtf8 \<or> page = kUtf16" by (simp add: page_def)
  then obtain bytes where b: "EncodingEncode page t = Inr bytes" "EncodingDecode page bytes = Inr t"
    using pages_return assms(2) by blast
  have "EncodeBase64 maximum bytes lines = Inr encoded"
    using assms(3) False e b(1) by (cases "EncodeBase64 maximum bytes lines") (auto simp: NativeToBase64_def Made_def)
  then have encoded: "encoded = Encode lines 0 bytes" by (rule EncodeBase64_result)
  show ?thesis
  proof (cases "encoded = []")
    case True
    then have "bytes = []" using Encode_empty encoded by simp
    then show ?thesis using b(2) True
      by (auto simp: NativeFromBase64_def EncodingDecode_def page_def kUtf8_def kUtf16_def kUtf32_def kUnset_def kDefault_def
          DecodeUtf8_def DecodeUtf16_def DecodeUtf8Loop.simps split: if_splits)
  next
    case nonempty: False
    then show ?thesis using encoded decoded [of lines bytes] e b(2) by (simp add: NativeFromBase64_def Made_def)
  qed
qed

lemma native_base64_witness:
  "NativeFromBase64 (Encode False 0 [CHR ''a'', CHR 0xC3, CHR 0xA9]) UTF8 0 = Inr [CHR ''a'', CHR 0xC3, CHR 0xA9]"
proof -
  let ?t = "[CHR ''a'', CHR 0xC3, CHR 0xA9]"
  have valid: "IsValidUtf8 ?t" by code_simp
  have plain: "EncodingEncode kUtf8 ?t = Inr ?t" by code_simp
  have "EncodeBase64 100 ?t False = Inr (Encode False 0 ?t)" by (simp add: EncodeBase64_def EncodedSize_def Let_def)
  then have "NativeToBase64 100 ?t False UTF8 0 = Inr (Encode False 0 ?t)"
    using plain by (simp add: NativeToBase64_def NativeEncoding_def Made_def del: Encode.simps)
  then show ?thesis using valid by (intro native_base64_roundtrip [where maximum = 100 and lines = False]) simp_all
qed

end
