(* ===== verification/Texts.thy ===== *)
theory Texts
  imports Utf8
begin

text \<open>
  Texts, \<^verbatim>\<open>src/src/net/Text.cpp\<close>: AL counts a text in UTF-16 units while the runtime keeps it as UTF-8. Positions in units
  begin at 1, positions in bytes at 0; a loop over a text takes what is left of it.
\<close>

section \<open>Units\<close>

definition Continuation :: "char \<Rightarrow> bool" where
  "Continuation c \<longleftrightarrow> byte c AND 0xC0 = 0x80"

definition unit_width :: "char \<Rightarrow> nat" where
  "unit_width c = (if byte c \<ge> 0xF0 then 2 else 1)"

fun Utf16Length :: "string \<Rightarrow> nat" where
  "Utf16Length [] = 0"
| "Utf16Length (c # s) = (if Continuation c then Utf16Length s else unit_width c + Utf16Length s)"

datatype text_error = TooLong nat nat | HalfCharacter nat | OutsideText int nat | NegativeLength

definition CheckLength :: "string \<Rightarrow> nat \<Rightarrow> text_error + unit" where
  "CheckLength s maximum =
     (if maximum = 0 then Inr ()
      else let actual = Utf16Length s in if actual > maximum then Inl (TooLong actual maximum) else Inr ())"

fun ByteOfUnitLoop :: "nat \<Rightarrow> nat \<Rightarrow> nat \<Rightarrow> string \<Rightarrow> nat" where
  "ByteOfUnitLoop unit at i [] = i"
| "ByteOfUnitLoop unit at i (c # s) =
     (if Continuation c then ByteOfUnitLoop unit at (i + 1) s
      else if at = unit then i
      else ByteOfUnitLoop unit (at + unit_width c) (i + 1) s)"

definition ByteOfUnit :: "string \<Rightarrow> nat \<Rightarrow> nat" where
  "ByteOfUnit s unit = ByteOfUnitLoop unit 1 0 s"

definition UnitOfByte :: "string \<Rightarrow> nat \<Rightarrow> nat" where
  "UnitOfByte s at = Utf16Length (take (min at (length s)) s) + 1"

definition StartByte :: "string \<Rightarrow> int \<Rightarrow> nat" where
  "StartByte s startIndex = ByteOfUnit s (if startIndex < 1 then 1 else nat startIndex)"

text \<open>The code point at a unit counted from 0; \<open>point\<close> takes the bits of the continuation bytes there are.\<close>

definition LeadWidth :: "char \<Rightarrow> nat \<times> int" where
  "LeadWidth c =
     (let lead = byte c in
      if lead \<ge> 0xF0 then (4, lead AND 0x07)
      else if lead \<ge> 0xE0 then (3, lead AND 0x0F)
      else if lead \<ge> 0xC0 then (2, lead AND 0x1F)
      else (1, lead))"

lemma LeadWidth_positive: "(width, point) = LeadWidth c \<Longrightarrow> 0 < width"
  by (auto simp: LeadWidth_def Let_def split: if_splits)

function CodePointLoop :: "nat \<Rightarrow> nat \<Rightarrow> string \<Rightarrow> text_error + int" where
  "CodePointLoop unit at [] = Inl (OutsideText (int unit + 1) at)"
| "CodePointLoop unit at (c # s) =
     (let (width, start) = LeadWidth c;
          point = foldl (\<lambda>point b. push_bit 6 point OR (byte b AND 0x3F)) start (take (width - 1) s);
          units = (if width = 4 then 2 else 1) in
      if unit < at + units then (if units = 2 then Inl (HalfCharacter (unit + 1)) else Inr point)
      else CodePointLoop unit (at + units) (drop width (c # s)))"
  by pat_completeness auto
termination by (relation "measure (length o snd o snd)") (auto dest: LeadWidth_positive)

definition CodePointAt :: "string \<Rightarrow> nat \<Rightarrow> text_error + int" where
  "CodePointAt s unit = CodePointLoop unit 0 s"

section \<open>Searching\<close>

text \<open>\<open>rfind\<close>: the last occurrence that begins at or before \<open>till\<close>, which is \<open>None\<close> for \<open>npos\<close>.\<close>

definition rfind_text :: "string \<Rightarrow> string \<Rightarrow> nat option \<Rightarrow> nat option" where
  "rfind_text s p till =
     (if length p > length s then None
      else
        let latest = (case till of None \<Rightarrow> length s - length p | Some u \<Rightarrow> min u (length s - length p)) in
        List.find (\<lambda>at. starts_with (drop at s) p) (rev [0..<Suc latest]))"

definition IndexOfText :: "string \<Rightarrow> string \<Rightarrow> int \<Rightarrow> int" where
  "IndexOfText s v startIndex =
     (case find_text s v (StartByte s startIndex) of None \<Rightarrow> 0 | Some at \<Rightarrow> int (UnitOfByte s at))"

definition LastIndexOfText :: "string \<Rightarrow> string \<Rightarrow> int \<Rightarrow> int" where
  "LastIndexOfText s v startIndex =
     (case rfind_text s v (if startIndex < 1 then None else Some (ByteOfUnit s (nat startIndex))) of
        None \<Rightarrow> 0
      | Some at \<Rightarrow> int (UnitOfByte s at))"

definition IndexOfAnyText :: "string \<Rightarrow> string \<Rightarrow> int \<Rightarrow> int" where
  "IndexOfAnyText s values startIndex =
     (case List.find (\<lambda>at. s ! at \<in> set values) [StartByte s startIndex..<length s] of
        None \<Rightarrow> 0
      | Some at \<Rightarrow> int (UnitOfByte s at))"

section \<open>Cutting and joining\<close>

definition AppendCodePoint :: "string \<Rightarrow> int \<Rightarrow> string" where
  "AppendCodePoint out point =
     (if point < 0x80 then out @ [char point]
      else if point < 0x800 then out @ [char (0xC0 OR drop_bit 6 point), char (0x80 OR (point AND 0x3F))]
      else if point < 0x10000 then
        out @ [char (0xE0 OR drop_bit (2 * 6) point), char (0x80 OR (drop_bit 6 point AND 0x3F)), char (0x80 OR (point AND 0x3F))]
      else
        out @ [char (0xF0 OR drop_bit (3 * 6) point), char (0x80 OR (drop_bit (2 * 6) point AND 0x3F)),
          char (0x80 OR (drop_bit 6 point AND 0x3F)), char (0x80 OR (point AND 0x3F))])"

datatype pad_side = PadLeft | PadRight

definition PadText :: "string \<Rightarrow> int \<Rightarrow> pad_side \<Rightarrow> int \<Rightarrow> string" where
  "PadText s count side pad =
     (let have = Utf16Length s; want = (if count < 0 then 0 else nat count) in
      if have \<ge> want then s
      else
        let filling = foldl (\<lambda>filling _. AppendCodePoint filling pad) [] [have..<want] in
        (if side = PadLeft then filling @ s else s @ filling))"

definition RemoveText :: "string \<Rightarrow> int \<Rightarrow> int option \<Rightarrow> string" where
  "RemoveText s startIndex count =
     (let start = StartByte s startIndex in
      case count of
        None \<Rightarrow> take start s
      | Some n \<Rightarrow>
          let till = (if n \<le> 0 then start else ByteOfUnit s (UnitOfByte s start + nat n)) in take start s @ drop till s)"

definition SubstringText :: "string \<Rightarrow> int \<Rightarrow> int option \<Rightarrow> text_error + string" where
  "SubstringText s startIndex count =
     (if startIndex < 1 \<or> nat startIndex > Utf16Length s + 1 then Inl (OutsideText startIndex (Utf16Length s))
      else
        let start = StartByte s startIndex in
        case count of
          None \<Rightarrow> Inr (drop start s)
        | Some n \<Rightarrow>
            if n < 0 then Inl NegativeLength
            else let till = ByteOfUnit s (nat startIndex + nat n) in Inr (take (till - start) (drop start s)))"

function ReplaceLoop :: "string \<Rightarrow> string \<Rightarrow> string \<Rightarrow> string" where
  "ReplaceLoop old new s =
     (if old = [] then s
      else case find_text s old 0 of
        None \<Rightarrow> s
      | Some hit \<Rightarrow> take hit s @ new @ ReplaceLoop old new (drop (hit + length old) s))"
  by pat_completeness auto

lemma find_text_start:
  assumes "find_text s p 0 = Some hit"
  shows "hit + length p \<le> length s" and "take (length p) (drop hit s) = p"
proof -
  have f: "hit \<le> length s" "starts_with (drop hit s) p" using assms find_from_Some [of 0 s p hit] by (auto simp: find_text_def)
  then obtain t where t: "drop hit s = p @ t" by (auto simp: starts_with_iff)
  then have "length (drop hit s) = length p + length t" by simp
  then show "hit + length p \<le> length s" using f(1) by simp
  show "take (length p) (drop hit s) = p" by (simp add: t)
qed

lemma find_text_shorter: "find_text s p 0 = Some hit \<Longrightarrow> p \<noteq> [] \<Longrightarrow> length s - (hit + length p) < length s"
  using find_text_start(1) [of s p hit] by (cases p) auto

termination ReplaceLoop
  by (relation "measure (length o snd o snd)") (auto dest: find_text_shorter)

declare ReplaceLoop.simps [simp del]

definition ReplaceText :: "string \<Rightarrow> string \<Rightarrow> string \<Rightarrow> string" where
  "ReplaceText s old new = (if old = [] then s else ReplaceLoop old new s)"

definition kWhitespace :: string where
  "kWhitespace = [CHR '' '', CHR 0x09, CHR 0x0A, CHR 0x0B, CHR 0x0C, CHR 0x0D]"

text \<open>The next separator: where it is and how long it is. The first of those at the same place stands.\<close>

definition NextSeparator :: "string list \<Rightarrow> string \<Rightarrow> (nat \<times> nat) option" where
  "NextSeparator separators s =
     (if separators = [] then map_option (\<lambda>hit. (hit, 1)) (List.find (\<lambda>at. s ! at \<in> set kWhitespace) [0..<length s])
      else
        foldl (\<lambda>best separator.
          if separator = [] then best
          else case find_text s separator 0 of
            None \<Rightarrow> best
          | Some found \<Rightarrow>
              (case best of
                 None \<Rightarrow> Some (found, length separator)
               | Some (hit, width) \<Rightarrow> if found < hit then Some (found, length separator) else best)) None separators)"

lemma NextSeparator_inside:
  assumes "NextSeparator separators s = Some (hit, width)"
  shows "0 < width \<and> hit + width \<le> length s"
proof (cases "separators = []")
  case True
  then show ?thesis using assms by (auto simp: NextSeparator_def find_Some_iff)
next
  case False
  define step where "step = (\<lambda>best separator.
    if separator = [] then best
    else case find_text s separator 0 of
      None \<Rightarrow> best
    | Some found \<Rightarrow>
        (case best of
           None \<Rightarrow> Some (found, length separator)
         | Some (hit, width) \<Rightarrow> if found < hit then Some (found, length separator) else best))"
  have keeps: "(\<forall>h w. best = Some (h, w) \<longrightarrow> 0 < w \<and> h + w \<le> length s) \<Longrightarrow>
    \<forall>h w. foldl step best seps = Some (h, w) \<longrightarrow> 0 < w \<and> h + w \<le> length s" for best seps
  proof (induction seps arbitrary: best)
    case (Cons sep seps)
    have "\<forall>h w. step best sep = Some (h, w) \<longrightarrow> 0 < w \<and> h + w \<le> length s"
    proof (cases "sep = [] \<or> find_text s sep 0 = None")
      case True
      then show ?thesis using Cons.prems by (auto simp: step_def)
    next
      case False
      then obtain found where "sep \<noteq> []" "find_text s sep 0 = Some found" by auto
      then show ?thesis using Cons.prems find_text_start(1) by (cases best) (auto simp: step_def split: if_splits)
    qed
    then show ?case unfolding foldl.simps by (rule Cons.IH)
  qed simp
  have "foldl step None separators = Some (hit, width)" using assms False by (simp add: NextSeparator_def step_def)
  then show ?thesis using keeps [of None separators] by simp
qed

function TextSplitLoop :: "string list \<Rightarrow> string \<Rightarrow> string list" where
  "TextSplitLoop separators s =
     (case NextSeparator separators s of
        None \<Rightarrow> [s]
      | Some (hit, width) \<Rightarrow> take hit s # TextSplitLoop separators (drop (hit + width) s))"
  by pat_completeness auto
termination by (relation "measure (length o snd)") (auto dest!: NextSeparator_inside)

declare TextSplitLoop.simps [simp del]

definition SplitText :: "string \<Rightarrow> string list \<Rightarrow> string list" where
  "SplitText s separators = TextSplitLoop separators s"

section \<open>Letters, blanks and codes\<close>

definition LowerText :: "string \<Rightarrow> string" where "LowerText = map to_lower"

definition UpperText :: "string \<Rightarrow> string" where "UpperText = map to_upper"

datatype trim_sides = TrimBoth | TrimStart | TrimEnd

text \<open>\<open>find_first_not_of\<close> and \<open>find_last_not_of\<close>.\<close>

definition first_not_of :: "string \<Rightarrow> string \<Rightarrow> nat option" where
  "first_not_of strip s = List.find (\<lambda>at. s ! at \<notin> set strip) [0..<length s]"

definition last_not_of :: "string \<Rightarrow> string \<Rightarrow> nat option" where
  "last_not_of strip s = List.find (\<lambda>at. s ! at \<notin> set strip) (rev [0..<length s])"

definition TrimText :: "string \<Rightarrow> trim_sides \<Rightarrow> string \<Rightarrow> string" where
  "TrimText s sides chars =
     (let strip = (if chars = [] then kWhitespace else chars) in
      case (if sides \<noteq> TrimEnd then first_not_of strip s else Some 0) of
        None \<Rightarrow> []
      | Some start \<Rightarrow>
          (case (if sides \<noteq> TrimStart then map_option Suc (last_not_of strip s) else Some (length s)) of
             None \<Rightarrow> []
           | Some till \<Rightarrow> take (till - start) (drop start s)))"

definition NormaliseCode :: "string \<Rightarrow> string" where
  "NormaliseCode s =
     (case first_not_of '' '' s of
        None \<Rightarrow> []
      | Some first \<Rightarrow> map to_upper (take (the (last_not_of '' '' s) - first + 1) (drop first s)))"

definition IsAsciiDigits :: "string \<Rightarrow> bool" where
  "IsAsciiDigits s \<longleftrightarrow> s \<noteq> [] \<and> list_all is_digit s"

definition CompareCode :: "string \<Rightarrow> string \<Rightarrow> ordering" where
  "CompareCode a b =
     (if IsAsciiDigits a \<and> IsAsciiDigits b then
        let lhs = dropWhile (\<lambda>c. c = CHR ''0'') a;
            rhs = dropWhile (\<lambda>c. c = CHR ''0'') b in
        if length lhs \<noteq> length rhs then (if length lhs < length rhs then Ord_less else Ord_greater)
        else text_order lhs rhs
      else text_order a b)"

end
