(* ===== verification/Strings.thy ===== *)
theory Strings
  imports Texts "HOL-Library.Signed_Division"
begin

text \<open>
  The string functions of AL, \<^verbatim>\<open>src/src/rt/written/BuiltinsWritten.cpp\<close>. What an \<^verbatim>\<open>Error\<close> is raised for is a value of
  \<open>string_error\<close>; \<open>NotAnInteger\<close> is the exception of \<^verbatim>\<open>std::stoll\<close>, \<open>Overflow\<close> the undefined behaviour of a sum
  that leaves 64 bits.
\<close>

datatype string_error =
  DifferentLengths | PositionTooSmall | LengthTooSmall | WrongWhere | NegativeResult | NotOneCharacter | NumberTooSmall |
  FewerSubstrings int | ZeroModulus | DigitsOnly | WeightDigitsOnly | WeightTooLong | NotAnInteger | Overflow

section \<open>Characters\<close>

definition ConvertStr :: "string \<Rightarrow> string \<Rightarrow> string \<Rightarrow> string_error + string" where
  "ConvertStr s old new =
     (if length old \<noteq> length new then Inl DifferentLengths
      else if old = [] then Inr s
      else Inr (map (\<lambda>c.
        case List.find (\<lambda>at. old ! at = c) [0..<length old] of None \<Rightarrow> c | Some at \<Rightarrow> new ! at) s))"

definition DelChr :: "string \<Rightarrow> string option \<Rightarrow> string option \<Rightarrow> string_error + string" where
  "DelChr s whereOption whichOption =
     (let sides = (case whereOption of None \<Rightarrow> ''='' | Some w \<Rightarrow> w);
          which = (case whichOption of None \<Rightarrow> '' '' | Some w \<Rightarrow> w) in
      if sides = [] \<or> which = [] then Inr s
      else if \<not> list_all (\<lambda>c. c \<in> set ''=<>'') sides then Inl WrongWhere
      else if CHR ''='' \<in> set sides then Inr (filter (\<lambda>c. c \<notin> set which) s)
      else
        let start = (if CHR ''<'' \<in> set sides
              then case first_not_of which s of None \<Rightarrow> length s | Some first \<Rightarrow> first else 0);
            till = (if CHR ''>'' \<in> set sides
              then case last_not_of which s of None \<Rightarrow> start | Some final \<Rightarrow> final + 1 else length s) in
        Inr (take (till - start) (drop start s)))"

section \<open>Positions\<close>

definition CopyStr :: "string \<Rightarrow> int \<Rightarrow> int option \<Rightarrow> string_error + string" where
  "CopyStr s position count =
     (if position < 1 then Inl PositionTooSmall
      else if (\<exists>n \<in> set_option count. n < 0) then Inl LengthTooSmall
      else
        let start = ByteOfUnit s (nat position) in
        if start \<ge> length s then Inr []
        else case count of
          None \<Rightarrow> Inr (drop start s)
        | Some n \<Rightarrow> let till = ByteOfUnit s (nat position + nat n) in Inr (take (till - start) (drop start s)))"

definition DelStr :: "string \<Rightarrow> int \<Rightarrow> int option \<Rightarrow> string_error + string" where
  "DelStr s position count =
     (if position < 1 then Inl PositionTooSmall
      else if (\<exists>n \<in> set_option count. n < 1) then Inl LengthTooSmall
      else
        let start = ByteOfUnit s (nat position) in
        if start \<ge> length s then Inr s
        else case count of
          None \<Rightarrow> Inr (take start s)
        | Some n \<Rightarrow> let till = ByteOfUnit s (nat position + nat n) in Inr (take start s @ drop till s))"

definition InsStr :: "string \<Rightarrow> string \<Rightarrow> int \<Rightarrow> string_error + string" where
  "InsStr s inserted position =
     (if position < 1 then Inl PositionTooSmall
      else let at = ByteOfUnit s (nat position) in Inr (take at s @ inserted @ drop at s))"

definition LowerCase :: "string \<Rightarrow> string" where "LowerCase s = LowerText s"

definition UpperCase :: "string \<Rightarrow> string" where "UpperCase s = UpperText s"

definition PadStr :: "string \<Rightarrow> int \<Rightarrow> string option \<Rightarrow> string_error + string" where
  "PadStr s count fill =
     (if count < 0 then Inl LengthTooSmall
      else
        let filler = (case fill of None \<Rightarrow> '' '' | Some f \<Rightarrow> f) in
        if Utf16Length filler \<noteq> 1 then Inl NotOneCharacter
        else
          let want = nat count; have = Utf16Length s in
          if have \<ge> want then Inr (take (ByteOfUnit s (want + 1)) s)
          else Inr (s @ concat (replicate (want - have) filler)))"

definition StrPos :: "string \<Rightarrow> string \<Rightarrow> int" where
  "StrPos s sub = (if sub = [] then 0 else IndexOfText s sub 1)"

section \<open>Numbers in texts\<close>

definition IncStrBy :: "string \<Rightarrow> int \<Rightarrow> string_error + string" where
  "IncStrBy s increment =
     (case List.find (\<lambda>at. is_digit (s ! at)) (rev [0..<length s]) of
        None \<Rightarrow> Inr []
      | Some final \<Rightarrow>
          let digits = rev (takeWhile is_digit (rev (take (final + 1) s)));
              first = final + 1 - length digits in
          case stoll digits of
            None \<Rightarrow> Inl NotAnInteger
          | Some read \<Rightarrow>
              let result = read + increment in
              if in_int64 result = None then Inl Overflow
              else if result < 0 then Inl NegativeResult
              else
                let grown = int_text result in
                Inr (take first s @ replicate (length digits - length grown) (CHR ''0'') @ grown @ drop (final + 1) s))"

definition IncStr :: "string \<Rightarrow> string_error + string" where
  "IncStr s = IncStrBy s 1"

text \<open>The loop over the commas: the number of the substring at which \<open>rest\<close> begins.\<close>

function SelectLoop :: "int \<Rightarrow> int \<Rightarrow> string \<Rightarrow> string_error + string" where
  "SelectLoop wanted i rest =
     (case find_text rest '','' 0 of
        None \<Rightarrow> if i = wanted then Inr rest else Inl (FewerSubstrings wanted)
      | Some comma \<Rightarrow> if i = wanted then Inr (take comma rest) else SelectLoop wanted (i + 1) (drop (comma + 1) rest))"
  by pat_completeness auto
termination by (relation "measure (\<lambda>(_, _, rest). length rest)") (auto dest: find_text_shorter)

declare SelectLoop.simps [simp del]

definition SelectStr :: "int \<Rightarrow> string \<Rightarrow> string_error + string" where
  "SelectStr wanted s = (if wanted < 1 then Inl NumberTooSmall else SelectLoop wanted 1 s)"

text \<open>The sum stays below 32 bits for texts shorter than 26 million digits.\<close>

fun ChecksumLoop :: "int \<Rightarrow> string \<Rightarrow> string \<Rightarrow> int" where
  "ChecksumLoop added [] weights = added"
| "ChecksumLoop added (c # s) [] = ChecksumLoop (added + int (digit_value c) * 1) s []"
| "ChecksumLoop added (c # s) (w # weights) = ChecksumLoop (added + int (digit_value c) * int (digit_value w)) s weights"

definition kDefaultChecksumModulus :: int where "kDefaultChecksumModulus = 10"

definition StrCheckSum :: "string \<Rightarrow> string \<Rightarrow> int option \<Rightarrow> string_error + int" where
  "StrCheckSum s weight modulusOption =
     (if s = [] then Inr 0
      else
        let modulus = (case modulusOption of None \<Rightarrow> kDefaultChecksumModulus | Some m \<Rightarrow> m) in
        if modulus = 0 then Inl ZeroModulus
        else if \<not> list_all is_digit s then Inl DigitsOnly
        else if \<not> list_all is_digit weight then Inl WeightDigitsOnly
        else if length weight > length s then Inl WeightTooLong
        else
          let added = ChecksumLoop 0 s weight in
          Inr ((modulus - added smod modulus) smod modulus))"

end
