(* ===== verification/TextFacts.thy ===== *)
theory TextFacts
  imports Strings Unicode
begin

text \<open>
  What the string functions promise: positions in units are positions between characters, cutting and inserting are
  inverse, a text that is found is there, replacing is splitting and joining, a counted number is the number, and a
  check sum makes the weighted sum a multiple of its modulus.
\<close>

section \<open>Characters and their bytes\<close>

lemma Continuation_range: "Continuation c \<longleftrightarrow> 0x80 \<le> byte c \<and> byte c < 0xC0"
proof -
  have "list_all (\<lambda>b. (b AND 0xC0 = 0x80) = (0x80 \<le> b \<and> b < 0xC0)) [0..255 :: int]" by code_simp
  moreover have "byte c \<le> 255" using byte_range(2) [of c] by linarith
  then have "byte c \<in> set [0..255]" by simp
  ultimately show ?thesis unfolding list_all_iff Continuation_def by blast
qed

definition starts :: "string \<Rightarrow> bool" where
  "starts s \<longleftrightarrow> s = [] \<or> \<not> Continuation (hd s)"

lemma starts_Nil [simp]: "starts []"
  by (simp add: starts_def)

lemma utf8_shape:
  assumes "is_scalar c"
  shows "\<not> Continuation (hd (utf8 c))" and "list_all Continuation (tl (utf8 c))"
    and "Utf16Length (utf8 c) = (if c < 0x10000 then 1 else 2)"
proof -
  have "0 \<le> c" "c \<le> 0x10FFFF" using assms by (auto simp: is_scalar_def)
  then consider "0 \<le> c" "c < 0x80" | "0x80 \<le> c" "c < 0x800" | "0x800 \<le> c" "c < 0x10000" | "0x10000 \<le> c" "c \<le> 0x10FFFF"
    by linarith
  then have "\<not> Continuation (hd (utf8 c)) \<and> list_all Continuation (tl (utf8 c)) \<and>
      Utf16Length (utf8 c) = (if c < 0x10000 then 1 else 2)"
  proof cases
    case 2
    then have "0 \<le> c div 64" "c div 64 < 32" by simp_all
    then show ?thesis using 2 by (simp add: utf8_bytes Continuation_range unit_width_def)
  next
    case 3
    then have "0 \<le> c div 4096" "c div 4096 < 16" by simp_all
    then show ?thesis using 3 by (simp add: utf8_bytes Continuation_range unit_width_def)
  qed (simp_all add: utf8_bytes Continuation_range unit_width_def)
  then show "\<not> Continuation (hd (utf8 c))" "list_all Continuation (tl (utf8 c))"
    "Utf16Length (utf8 c) = (if c < 0x10000 then 1 else 2)" by blast+
qed

lemma starts_text: "list_all is_scalar cs \<Longrightarrow> starts rest \<Longrightarrow> starts (text_of cs @ rest)"
  by (cases cs) (auto simp: starts_def utf8_shape)

lemma Utf16Length_append [simp]: "Utf16Length (s @ t) = Utf16Length s + Utf16Length t"
  by (induction s) auto

text \<open>The UTF-16 units of a list of scalars.\<close>

definition units :: "int list \<Rightarrow> nat" where
  "units cs = sum_list (map (\<lambda>c. if c < 0x10000 then 1 else 2) cs)"

lemma units_text: "list_all is_scalar cs \<Longrightarrow> Utf16Length (text_of cs) = units cs"
  by (induction cs) (auto simp: units_def utf8_shape)

section \<open>Positions\<close>

lemma ByteOfUnitLoop_prefix:
  "starts rest \<Longrightarrow> ByteOfUnitLoop (at + Utf16Length s) at i (s @ rest) = i + length s"
proof (induction s arbitrary: at i)
  case Nil
  then show ?case by (cases rest) (auto simp: starts_def)
next
  case (Cons c s)
  show ?case
  proof (cases "Continuation c")
    case True
    then show ?thesis using Cons.IH [OF Cons.prems, of at "i + 1"] by simp
  next
    case False
    moreover have "0 < unit_width c" by (simp add: unit_width_def)
    ultimately show ?thesis using Cons.IH [OF Cons.prems, of "at + unit_width c" "i + 1"] by (simp add: add.assoc)
  qed
qed

lemma ByteOfUnit_prefix: "starts rest \<Longrightarrow> ByteOfUnit (s @ rest) (Utf16Length s + 1) = length s"
  using ByteOfUnitLoop_prefix [of rest 1 s 0] by (simp add: ByteOfUnit_def)

lemma ByteOfUnit_prefixes:
  assumes "starts (b @ c)" and "starts c"
  shows "ByteOfUnit (a @ b @ c) (Suc (Utf16Length a)) = length a"
    and "ByteOfUnit (a @ b @ c) (Suc (Utf16Length a + Utf16Length b)) = length a + length b"
  using ByteOfUnit_prefix [OF assms(1), of a] ByteOfUnit_prefix [OF assms(2), of "a @ b"] by simp_all

lemma CopyStr_slice:
  assumes "starts (b @ c)" and "starts c"
  shows "CopyStr (a @ b @ c) (int (Utf16Length a) + 1) (Some (int (Utf16Length b))) = Inr b"
  using ByteOfUnit_prefixes [OF assms, of a]
  by (auto simp: CopyStr_def Let_def nat_add_distrib Suc_nat_eq_nat_zadd1 [symmetric])

lemma DelStr_slice:
  assumes "starts (b @ c)" and "starts c" and "0 < Utf16Length b"
  shows "DelStr (a @ b @ c) (int (Utf16Length a) + 1) (Some (int (Utf16Length b))) = Inr (a @ c)"
  using ByteOfUnit_prefixes [OF assms(1,2), of a] assms(3)
  by (auto simp: DelStr_def Let_def nat_add_distrib Suc_nat_eq_nat_zadd1 [symmetric])

lemma InsStr_slice:
  assumes "starts c"
  shows "InsStr (a @ c) b (int (Utf16Length a) + 1) = Inr (a @ b @ c)"
  using ByteOfUnit_prefix [OF assms, of a]
  by (auto simp: InsStr_def Let_def nat_add_distrib Suc_nat_eq_nat_zadd1 [symmetric])

text \<open>C26: The positions and lengths of AL count UTF-16 units: on a valid text, copying a slice of characters gives that
slice, deleting it leaves what is around it, and inserting it there again gives the text back.\<close>

theorem string_slices:
  assumes "list_all is_scalar (before @ slice @ behind)" and "slice \<noteq> []"
  shows "CopyStr (text_of (before @ slice @ behind)) (int (units before) + 1) (Some (int (units slice))) = Inr (text_of slice) \<and>
    DelStr (text_of (before @ slice @ behind)) (int (units before) + 1) (Some (int (units slice))) = Inr (text_of (before @ behind)) \<and>
    InsStr (text_of (before @ behind)) (text_of slice) (int (units before) + 1) = Inr (text_of (before @ slice @ behind))"
proof -
  have scalars: "list_all is_scalar before" "list_all is_scalar slice" "list_all is_scalar behind" using assms(1) by simp_all
  have s: "starts (text_of slice @ text_of behind)" "starts (text_of behind)"
    using starts_text [OF scalars(2)] starts_text [OF scalars(3), of "[]"] by simp_all
  have "0 < units slice" using assms(2) by (cases slice) (auto simp: units_def)
  then show ?thesis
    using CopyStr_slice [OF s] DelStr_slice [OF s] InsStr_slice [OF s(2)] scalars
    by (simp add: units_text [symmetric])
qed

lemma string_slices_witness:
  "CopyStr (text_of ([0x61] @ [0x1F600, 0xE9] @ [0x62])) (int (units [0x61]) + 1) (Some (int (units [0x1F600, 0xE9]))) =
    Inr (text_of [0x1F600, 0xE9])"
  using string_slices [of "[0x61]" "[0x1F600, 0xE9]" "[0x62]"] by (simp add: is_scalar_def)

text \<open>A length that ends between the two units of a character gives the whole rest of the text.\<close>

lemma copy_splits_pair: "CopyStr (text_of [0x1F600, 0x61, 0x62]) 1 (Some 1) = Inr (text_of [0x1F600, 0x61, 0x62])"
  by code_simp

section \<open>Finding\<close>

lemma find_from_first:
  "find_from n s p = Some i \<Longrightarrow> n \<le> j \<Longrightarrow> j < i \<Longrightarrow> \<not> starts_with (drop (j - n) s) p"
  "find_from n s p = None \<Longrightarrow> \<not> starts_with (drop k s) p"
proof (induction n s p arbitrary: j k rule: find_from.induct)
  case (1 n s p)
  have no: "\<not> starts_with s p" if "find_from n s p \<noteq> Some n"
    using that by (subst (asm) find_from.simps) (auto split: if_splits)
  { case 1
    then have s: "\<not> starts_with s p" using no find_from_Some [of n s p i] by force
    then obtain c t where t: "s = c # t" "find_from (Suc n) t p = Some i"
      using 1(1) by (subst (asm) find_from.simps) (auto split: list.splits)
    show ?case
    proof (cases "j = n")
      case False
      then have "\<not> starts_with (drop (j - Suc n) t) p" using "1.IH"(1) [OF s t(1), of j] t 1 by simp
      moreover have "drop (j - n) s = drop (j - Suc n) t" using False 1(2) t(1) by (simp add: drop_Cons')
      ultimately show ?thesis by simp
    qed (simp add: s)
  next
    case 2
    then have s: "\<not> starts_with s p" using no by simp
    show ?case
    proof (cases s)
      case Nil
      then show ?thesis using s by simp
    next
      case (Cons c t)
      then have "find_from (Suc n) t p = None" using 2 s by (subst (asm) find_from.simps) simp
      then show ?thesis using "1.IH"(2) [OF s Cons, of "k - 1"] s Cons by (cases k) auto
    qed
  }
qed

lemma find_text_first: "find_text s p 0 = Some i \<Longrightarrow> j < i \<Longrightarrow> \<not> starts_with (drop j s) p"
  using find_from_first(1) [of 0 s p i j] by (simp add: find_text_def)

lemma find_text_none: "find_text s p 0 = None \<longleftrightarrow> (\<nexists>a b. s = a @ p @ b)"
proof
  assume none: "find_text s p 0 = None"
  show "\<nexists>a b. s = a @ p @ b"
  proof (intro notI, elim exE)
    fix a b
    assume "s = a @ p @ b"
    then have "starts_with (drop (length a) s) p" by simp
    then show False using none find_from_first(2) [of 0 s p "length a"] by (simp add: find_text_def)
  qed
next
  assume "\<nexists>a b. s = a @ p @ b"
  then show "find_text s p 0 = None"
    using find_text_start(2) [of s p] by (cases "find_text s p 0") (metis append_take_drop_id drop_drop)+
qed

section \<open>Characters of a valid text\<close>





section \<open>Replacing\<close>

fun join :: "string \<Rightarrow> string list \<Rightarrow> string" where
  "join sep [] = []"
| "join sep [p] = p"
| "join sep (p # q # ps) = p @ sep @ join sep (q # ps)"

lemma NextSeparator_one: "sep \<noteq> [] \<Longrightarrow> NextSeparator [sep] s = map_option (\<lambda>found. (found, length sep)) (find_text s sep 0)"
  by (simp add: NextSeparator_def split: option.split)

lemma TextSplitLoop_nonempty: "TextSplitLoop seps s \<noteq> []"
  by (subst TextSplitLoop.simps) (simp split: option.split prod.split)

lemma join_Cons: "ps \<noteq> [] \<Longrightarrow> join sep (p # ps) = p @ sep @ join sep ps"
  by (cases ps) auto

lemma TextSplitLoop_join:
  "sep \<noteq> [] \<Longrightarrow> join new (TextSplitLoop [sep] s) = ReplaceLoop sep new s \<and> join sep (TextSplitLoop [sep] s) = s \<and>
    list_all (\<lambda>piece. find_text piece sep 0 = None) (TextSplitLoop [sep] s)"
proof (induction s rule: measure_induct_rule [of length])
  case (less s)
  show ?case
  proof (cases "find_text s sep 0")
    case None
    then have "TextSplitLoop [sep] s = [s]" "ReplaceLoop sep new s = s"
      using less.prems by (simp_all add: TextSplitLoop.simps [of _ s] ReplaceLoop.simps [of _ _ s] NextSeparator_one)
    then show ?thesis using None by simp
  next
    case (Some hit)
    let ?rest = "drop (hit + length sep) s"
    have split: "TextSplitLoop [sep] s = take hit s # TextSplitLoop [sep] ?rest"
      using less.prems Some by (subst TextSplitLoop.simps) (simp add: NextSeparator_one)
    have replace: "ReplaceLoop sep new s = take hit s @ new @ ReplaceLoop sep new ?rest"
      using less.prems Some by (subst ReplaceLoop.simps) simp
    have hit: "hit + length sep \<le> length s" "take hit s @ sep @ ?rest = s"
      using find_text_start [OF Some] by (simp_all) (metis append_take_drop_id drop_drop add.commute)
    have "find_text (take hit s) sep 0 = None"
    proof (rule ccontr)
      assume "find_text (take hit s) sep 0 \<noteq> None"
      then obtain j where j: "find_text (take hit s) sep 0 = Some j" by auto
      have "j + length sep \<le> hit" using find_text_start(1) [OF j] hit(1) by simp
      moreover have "take (length sep) (drop j (take hit s)) = sep" by (rule find_text_start(2) [OF j])
      ultimately have "starts_with (drop j s) sep"
        by (simp add: starts_with_def drop_take min.absorb1)
      moreover have "j < hit" using \<open>j + length sep \<le> hit\<close> less.prems by (cases sep) auto
      ultimately show False using find_text_first [OF Some] by blast
    qed
    moreover have "join new (TextSplitLoop [sep] ?rest) = ReplaceLoop sep new ?rest \<and> join sep (TextSplitLoop [sep] ?rest) = ?rest \<and>
      list_all (\<lambda>piece. find_text piece sep 0 = None) (TextSplitLoop [sep] ?rest)"
      using less.IH [of ?rest] less.prems find_text_shorter [OF Some less.prems] by simp
    ultimately show ?thesis using split replace hit(2) by (simp add: join_Cons TextSplitLoop_nonempty)
  qed
qed

text \<open>C28: Splitting a text at a separator gives pieces without it that it joins to the text again, and replacing the
separator is joining these pieces with what replaces it.\<close>

theorem replace_joins_split:
  assumes "sep \<noteq> []"
  shows "ReplaceText s sep new = join new (SplitText s [sep]) \<and> join sep (SplitText s [sep]) = s \<and>
    (\<forall>piece \<in> set (SplitText s [sep]). \<nexists>a b. piece = a @ sep @ b)"
  using TextSplitLoop_join [OF assms, of new s] assms
  by (auto simp: ReplaceText_def SplitText_def list_all_iff find_text_none)

lemma replace_joins_split_witness: "ReplaceText ''a--b---c'' ''--'' ''+'' = join ''+'' (SplitText ''a--b---c'' [''--''])"
  using replace_joins_split [of "''--''" "''a--b---c''" "''+''"] by simp

section \<open>Check sums\<close>

text \<open>The sum of the digits times their weights; a digit without a weight counts once.\<close>

definition weighted :: "string \<Rightarrow> string \<Rightarrow> int" where
  "weighted s weights = (\<Sum>i < length s. int (digit_value (s ! i)) * (if i < length weights then int (digit_value (weights ! i)) else 1))"

lemma ChecksumLoop_weighted: "ChecksumLoop n s weights = n + weighted s weights"
proof (induction n s weights rule: ChecksumLoop.induct)
  case (2 n c s)
  then show ?case unfolding weighted_def length_Cons sum.lessThan_Suc_shift by simp
next
  case (3 n c s w weights)
  then show ?case unfolding weighted_def length_Cons sum.lessThan_Suc_shift by (simp cong: if_cong)
qed (simp add: weighted_def)

lemma weighted_nonneg: "0 \<le> weighted s weights"
  by (simp add: weighted_def sum_nonneg)

lemma smod_nonneg: "0 \<le> k \<Longrightarrow> 0 < l \<Longrightarrow> k smod l = k mod (l :: int)"
  by (cases "k = 0") (simp_all add: smod_int_alt_def)

text \<open>A check sum is a digit of its modulus that makes the weighted sum of the digits a multiple of the modulus,
and it is given for every text of digits with weights no longer than it.\<close>

theorem check_sum:
  assumes "s \<noteq> []" and "0 < modulus" and "list_all is_digit s" and "list_all is_digit weight" and "length weight \<le> length s"
  shows "\<exists>c. StrCheckSum s weight (Some modulus) = Inr c \<and> 0 \<le> c \<and> c < modulus \<and> modulus dvd weighted s weight + c"
proof -
  define w where "w = weighted s weight"
  define c where "c = (modulus - w mod modulus) mod modulus"
  have w: "0 \<le> w" by (simp add: w_def weighted_nonneg)
  have m: "0 \<le> w mod modulus" "w mod modulus < modulus" using assms(2) by simp_all
  have "w smod modulus = w mod modulus" using w assms(2) by (rule smod_nonneg)
  moreover have "(modulus - w mod modulus) smod modulus = c" unfolding c_def by (rule smod_nonneg) (use m assms(2) in linarith)+
  ultimately have "StrCheckSum s weight (Some modulus) = Inr c"
    using assms by (simp add: StrCheckSum_def Let_def ChecksumLoop_weighted w_def)
  moreover have "modulus dvd w + c"
  proof -
    have "(w + c) mod modulus = (w + (modulus - w mod modulus)) mod modulus" unfolding c_def by (rule mod_add_right_eq)
    moreover have "w + (modulus - w mod modulus) = modulus * (w div modulus + 1)"
      by (simp add: distrib_left minus_mod_eq_mult_div [symmetric])
    ultimately show ?thesis by (simp add: dvd_eq_mod_eq_0)
  qed
  moreover have "0 \<le> c \<and> c < modulus" using assms(2) by (simp add: c_def)
  ultimately show ?thesis by (auto simp: w_def)
qed

lemma check_sum_witness: "\<exists>c. StrCheckSum ''4378'' ''1234'' (Some 7) = Inr c \<and> 0 \<le> c \<and> c < 7 \<and> 7 dvd weighted ''4378'' ''1234'' + c"
  using check_sum [of "''4378''" 7 "''1234''"] by (simp add: is_digit_def code_def)

section \<open>Counting\<close>

lemma find_rev:
  assumes "P k" and "k < n" and "\<And>j. k < j \<Longrightarrow> j < n \<Longrightarrow> \<not> P j"
  shows "List.find P (rev [0..<n]) = Some k"
  using assms(2,3)
proof (induction n)
  case (Suc n)
  then show ?case using assms(1) by (cases "k = n") auto
qed simp

lemma stoll_digits:
  assumes "digits \<noteq> []" and "list_all is_digit digits"
  shows "stoll digits = in_int64 (int (digits_value digits))"
proof -
  obtain c cs where c: "digits = c # cs" "is_digit c" using assms by (cases digits) auto
  then have "\<not> is_space c" "c \<noteq> CHR ''-''" "c \<noteq> CHR ''+''" by (auto simp: is_digit_def code_def)
  moreover have t: "takeWhile is_digit cs = cs" using assms(2) c by (simp add: takeWhile_eq_all_conv list_all_iff)
  ultimately show ?thesis using c by (simp add: t stoll_def Let_def)
qed

text \<open>The last number in a text is counted on: what is before and after it stays, what stands for it has the value of
the sum, digits only, and no fewer of them.\<close>

theorem inc_str:
  assumes "digits \<noteq> []" and "list_all is_digit digits" and "before = [] \<or> \<not> is_digit (last before)"
    and "list_all (\<lambda>c. \<not> is_digit c) behind"
    and "int (digits_value digits) < 2 ^ 63" and "0 \<le> int (digits_value digits) + increment"
    and "int (digits_value digits) + increment < 2 ^ 63"
  shows "\<exists>grown. IncStrBy (before @ digits @ behind) increment = Inr (before @ grown @ behind) \<and> list_all is_digit grown \<and>
    length digits \<le> length grown \<and> int (digits_value grown) = int (digits_value digits) + increment"
proof -
  define s final v where "s = before @ digits @ behind" and "final = length before + length digits - 1"
    and "v = nat (int (digits_value digits) + increment)"
  have final: "Suc final = length before + length digits" using assms(1) by (cases digits) (simp_all add: final_def)
  have "List.find (\<lambda>at. is_digit (s ! at)) (rev [0..<length s]) = Some final"
  proof (rule find_rev)
    have "s = (before @ butlast digits) @ last digits # behind" using assms(1) by (simp add: s_def)
    moreover have "final = length (before @ butlast digits)" using assms(1) by (cases digits) (simp_all add: final_def)
    ultimately have "s ! final = last digits" by (simp only: nth_append_length)
    then show "is_digit (s ! final)" using assms(1,2) by (simp add: list_all_iff)
    show "final < length s" using final by (simp add: s_def)
    fix j
    assume "final < j" "j < length s"
    then have j: "length before + length digits \<le> j" "j - length before - length digits < length behind"
      using final by (simp_all add: s_def)
    then have "s ! j = behind ! (j - length before - length digits)"
      using nth_append_right [of "before @ digits" j behind] by (simp add: s_def)
    then show "\<not> is_digit (s ! j)" using j(2) assms(4) by (simp add: list_all_length)
  qed
  moreover have "take (final + 1) s = before @ digits" "drop (final + 1) s = behind" using final by (simp_all add: s_def)
  moreover have "takeWhile is_digit (rev digits @ rev before) = rev digits"
    using assms(2,3) by (cases before rule: rev_cases) (auto simp: takeWhile_append list_all_iff takeWhile_eq_all_conv)
  moreover have "stoll digits = Some (int (digits_value digits))"
    using stoll_digits [OF assms(1,2)] assms(5) by (simp add: in_int64_def int64_min_def int64_max_def)
  moreover have "in_int64 (int (digits_value digits) + increment) \<noteq> None"
    using assms(6,7) by (simp add: in_int64_def int64_min_def int64_max_def)
  moreover have "int_text (int (digits_value digits) + increment) = digits_of v" using assms(6) by (simp add: int_text_def v_def)
  moreover have "take (length before) s = before" by (simp add: s_def)
  ultimately have "IncStrBy s increment = Inr (before @ (replicate (length digits - length (digits_of v)) (CHR ''0'') @ digits_of v) @ behind)"
    using assms(6) final by (simp add: IncStrBy_def Let_def)
  moreover have "list_all is_digit (replicate (length digits - length (digits_of v)) (CHR ''0'') @ digits_of v)"
    using digits_of_digits by (auto simp: list_all_iff is_digit_def code_def)
  moreover have "int (digits_value (replicate (length digits - length (digits_of v)) (CHR ''0'') @ digits_of v)) =
      int (digits_value digits) + increment"
    using assms(6) by (simp add: digits_value_zeros v_def)
  ultimately show ?thesis unfolding s_def by fastforce
qed

lemma inc_str_witness:
  "\<exists>grown. IncStrBy (''INV-'' @ ''099'' @ ''/A'') 1 = Inr (''INV-'' @ grown @ ''/A'') \<and> list_all is_digit grown \<and>
    length ''099'' \<le> length grown \<and> int (digits_value grown) = int (digits_value ''099'') + 1"
  by (rule inc_str) (simp_all add: is_digit_def code_def digits_value_def digit_value_def)

section \<open>What the functions do not do\<close>

text \<open>The order of codes is not transitive: numbers are compared as numbers and everything else as bytes.\<close>

lemma compare_code_cycle: "CompareCode ''9'' ''10'' = Ord_less" "CompareCode ''10'' ''1A'' = Ord_less" "CompareCode ''1A'' ''9'' = Ord_less"
  by code_simp+

text \<open>Characters outside ASCII are taken byte by byte.\<close>

lemma convert_bytes: "ConvertStr (text_of [0xE9]) (text_of [0xE9]) (text_of [0x65]) = Inl DifferentLengths"
  by code_simp

lemma delete_bytes: "DelChr (text_of [0xE9]) (Some ''='') (Some (text_of [0xE8])) = Inr [char 0xA9]" "\<not> IsValidUtf8 [char 0xA9]"
  by code_simp+

text \<open>A number of twenty digits is none for \<^verbatim>\<open>std::stoll\<close>.\<close>

lemma number_out_of_range: "stoll ''99999999999999999999'' = None"
  by (subst stoll_digits)
    (simp_all add: is_digit_def code_def digits_value_def digit_value_def in_int64_def int64_min_def int64_max_def)

end
